(* ===== verification/Prelude.thy ===== *)
theory Prelude
  imports Main "HOL-Library.Word" "HOL-Library.Multiset" "HOL-Library.AList"
begin

text \<open>
  Shared vocabulary of the development: the names of the model's scalar types, the
  named collections the component proofs feed to the simplifier, list and map lemmas
  that several components need, and the generic interfaces (as locales) that the
  components implement.

  Go's \<^verbatim>\<open>int64\<close> instants, tokens and counters are \<open>int\<close> here where the code only
  compares, adds and subtracts values far from the limits of the type; where a width
  matters (binary decoding) the components use \<open>word\<close>.
\<close>

section \<open>Scalar types and lemma collections\<close>

type_synonym token = int
type_synonym millis = int

named_theorems inv_defs \<open>definitions of the components' well-formedness invariants\<close>
named_theorems op_defs \<open>definitions of the components' operations\<close>

section \<open>Go integer arithmetic\<close>

text \<open>Go's \<open>/\<close> and \<open>%\<close> truncate toward zero (Isabelle's \<open>div\<close> and \<open>mod\<close> floor).\<close>

definition go_div :: "int \<Rightarrow> int \<Rightarrow> int" where
  "go_div a b = sgn a * sgn b * (\<bar>a\<bar> div \<bar>b\<bar>)"

definition go_mod :: "int \<Rightarrow> int \<Rightarrow> int" where
  "go_mod a b = a - b * go_div a b"

lemma go_div_nonneg [simp]: "0 \<le> a \<Longrightarrow> 0 < b \<Longrightarrow> go_div a b = a div b"
  by (cases "a = 0") (simp_all add: go_div_def)

lemma go_mod_nonneg [simp]: "0 \<le> a \<Longrightarrow> 0 < b \<Longrightarrow> go_mod a b = a mod b"
  by (simp add: go_mod_def minus_mult_div_eq_mod)

lemma go_div_neg: "a < 0 \<Longrightarrow> 0 < b \<Longrightarrow> go_div a b = - ((- a) div b)"
  by (simp add: go_div_def)

section \<open>Lists\<close>

text \<open>
  First-occurrence de-duplication: what a Go loop with a \<^verbatim>\<open>seen\<close> map does.
  (\<open>remdups\<close> keeps the last occurrence.)
\<close>

fun nub_acc :: "'a list \<Rightarrow> 'a list \<Rightarrow> 'a list" where
  "nub_acc seen [] = []"
| "nub_acc seen (x # xs) =
     (if x \<in> set seen then nub_acc seen xs else x # nub_acc (x # seen) xs)"

definition nub :: "'a list \<Rightarrow> 'a list" where
  "nub xs = nub_acc [] xs"

lemma set_nub_acc: "set (nub_acc seen xs) = set xs - set seen"
  by (induction xs arbitrary: seen) auto

lemma distinct_nub_acc: "distinct (nub_acc seen xs)"
  by (induction xs arbitrary: seen) (auto simp: set_nub_acc)

lemma nub_acc_cong: "set a = set b \<Longrightarrow> nub_acc a xs = nub_acc b xs"
proof (induction xs arbitrary: a b)
  case (Cons x xs)
  have "nub_acc (x # a) xs = nub_acc (x # b) xs" by (rule Cons.IH) (simp add: Cons.prems)
  with Cons.IH [OF Cons.prems] Cons.prems show ?case by simp
qed simp

lemma set_nub [simp]: "set (nub xs) = set xs"
  by (simp add: nub_def set_nub_acc)

lemma distinct_nub [simp]: "distinct (nub xs)"
  by (simp add: nub_def distinct_nub_acc)

lemma nub_acc_distinct_id: "distinct xs \<Longrightarrow> set xs \<inter> set seen = {} \<Longrightarrow> nub_acc seen xs = xs"
  by (induction xs arbitrary: seen) auto

lemma nub_distinct_id [simp]: "distinct xs \<Longrightarrow> nub xs = xs"
  by (simp add: nub_def nub_acc_distinct_id)

lemma nub_nub [simp]: "nub (nub xs) = nub xs"
  by simp

text \<open>Keeping the last \<open>n\<close> elements.\<close>

definition lastn :: "nat \<Rightarrow> 'a list \<Rightarrow> 'a list" where
  "lastn n xs = drop (length xs - n) xs"

lemma length_lastn [simp]: "length (lastn n xs) = min n (length xs)"
  by (simp add: lastn_def)

lemma lastn_id [simp]: "length xs \<le> n \<Longrightarrow> lastn n xs = xs"
  by (simp add: lastn_def)

lemma lastn_Cons: "n < length (x # xs) \<Longrightarrow> lastn n (x # xs) = lastn n xs"
  by (cases "length xs - n") (auto simp: lastn_def Suc_diff_le)

lemma lastn_suffix: "\<exists>ys. xs = ys @ lastn n xs"
  unfolding lastn_def by (metis append_take_drop_id)

lemma set_lastn_subset: "set (lastn n xs) \<subseteq> set xs"
  by (simp add: lastn_def set_drop_subset)

lemma last_in_lastn: "0 < n \<Longrightarrow> x \<in> set (lastn n (xs @ [x]))"
  by (cases n) (auto simp: lastn_def Suc_diff_le)

text \<open>Keyed lists: looking an element up by a key function.\<close>

definition keyed :: "('a \<Rightarrow> 'k) \<Rightarrow> 'a list \<Rightarrow> 'k \<rightharpoonup> 'a" where
  "keyed f xs = map_of (map (\<lambda>x. (f x, x)) xs)"

lemma keyed_Nil [simp]: "keyed f [] = Map.empty"
  by (simp add: keyed_def)

lemma keyed_Cons [simp]: "keyed f (x # xs) = (keyed f xs)(f x \<mapsto> x)"
  by (simp add: keyed_def)

lemma keyed_append: "keyed f (xs @ ys) = keyed f ys ++ keyed f xs"
  by (simp add: keyed_def)

lemma keyed_None_iff: "keyed f xs k = None \<longleftrightarrow> k \<notin> f ` set xs"
  by (auto simp: keyed_def map_of_eq_None_iff image_iff)

lemma keyed_SomeD: "keyed f xs k = Some x \<Longrightarrow> x \<in> set xs \<and> f x = k"
  by (auto simp: keyed_def dest!: map_of_SomeD)

lemma keyed_Some_iff:
  "distinct (map f xs) \<Longrightarrow> keyed f xs k = Some x \<longleftrightarrow> x \<in> set xs \<and> f x = k"
  by (induction xs) (auto simp: image_iff)

lemma keyed_filter_neq: "keyed f (filter (\<lambda>x. f x \<noteq> k) xs) = (keyed f xs)(k := None)"
  by (induction xs) auto

lemma keyed_filter:
  "distinct (map f xs) \<Longrightarrow>
   keyed f (filter P xs) k = (case keyed f xs k of Some x \<Rightarrow> if P x then Some x else None | None \<Rightarrow> None)"
  by (induction xs) (auto simp: keyed_None_iff split: option.splits)

lemma dom_keyed: "dom (keyed f xs) = f ` set xs"
  by (auto simp: dom_def) (metis keyed_SomeD imageI, metis keyed_None_iff imageI option.exhaust)

text \<open>Association lists whose entries all satisfy a predicate.\<close>

lemma list_all_update: "P (k, v) \<Longrightarrow> list_all P m \<Longrightarrow> list_all P (AList.update k v m)"
  by (induction m) auto

lemma list_all_delete: "list_all P m \<Longrightarrow> list_all P (AList.delete k m)"
  by (simp add: AList.delete_eq list_all_iff)

lemma map_of_filter_val:
  "distinct (map fst m) \<Longrightarrow>
   map_of (filter (\<lambda>(_, v). P v) m) k = (case map_of m k of None \<Rightarrow> None | Some v \<Rightarrow> if P v then Some v else None)"
  by (induction m) (auto simp: map_of_eq_None_iff rev_image_eqI split: option.splits)

lemma distinct_fst_filter: "distinct (map fst m) \<Longrightarrow> distinct (map fst (filter Q m))"
  by (induction m) auto

lemma list_all_filterI: "list_all P xs \<Longrightarrow> list_all P (filter Q xs)"
  by (simp add: list_all_iff)

definition the_default :: "'a \<Rightarrow> 'a option \<Rightarrow> 'a" where
  "the_default d x = (case x of None \<Rightarrow> d | Some v \<Rightarrow> v)"

lemma the_default_simps [simp]: "the_default d None = d" "the_default d (Some v) = v"
  by (simp_all add: the_default_def)

section \<open>Sorting\<close>

text \<open>
  Go's \<^verbatim>\<open>sort.SliceStable\<close> with a \<^verbatim>\<open>less\<close> function: a stable insertion sort. The result is a
  permutation; when \<^verbatim>\<open>less\<close> compares keys of a linear order it is sorted by the key, and the
  elements of equal key keep their order.
\<close>

fun insort_lt :: "('a \<Rightarrow> 'a \<Rightarrow> bool) \<Rightarrow> 'a \<Rightarrow> 'a list \<Rightarrow> 'a list" where
  "insort_lt lt x [] = [x]"
| "insort_lt lt x (y # ys) = (if lt y x then y # insort_lt lt x ys else x # y # ys)"

definition sort_lt :: "('a \<Rightarrow> 'a \<Rightarrow> bool) \<Rightarrow> 'a list \<Rightarrow> 'a list" where
  "sort_lt lt xs = foldr (insort_lt lt) xs []"

lemma sort_lt_simps [simp]: "sort_lt lt [] = []" "sort_lt lt (x # xs) = insort_lt lt x (sort_lt lt xs)"
  by (simp_all add: sort_lt_def)

lemma mset_insort_lt [simp]: "mset (insort_lt lt x xs) = add_mset x (mset xs)"
  by (induction xs) auto

lemma mset_sort_lt [simp]: "mset (sort_lt lt xs) = mset xs"
  by (induction xs) auto

lemma set_insort_lt [simp]: "set (insort_lt lt x xs) = insert x (set xs)"
  by (metis mset_insort_lt set_mset_add_mset_insert set_mset_mset)

lemma set_sort_lt [simp]: "set (sort_lt lt xs) = set xs"
  by (metis mset_sort_lt set_mset_mset)

lemma length_sort_lt [simp]: "length (sort_lt lt xs) = length xs"
  by (metis mset_sort_lt size_mset)

lemma distinct_sort_lt [simp]: "distinct (sort_lt lt xs) \<longleftrightarrow> distinct xs"
  by (metis mset_sort_lt distinct_count_atmost_1 set_sort_lt)

lemma sorted_insort_lt:
  fixes k :: "'a \<Rightarrow> 'b :: linorder"
  assumes "\<forall>y \<in> set ys. lt y x \<longleftrightarrow> k y < k x" "sorted_wrt (\<lambda>x y. k x \<le> k y) ys"
  shows "sorted_wrt (\<lambda>x y. k x \<le> k y) (insort_lt lt x ys)"
  using assms by (induction ys) (force simp: not_less intro: order_trans less_imp_le)+

lemma sorted_sort_lt:
  fixes k :: "'a \<Rightarrow> 'b :: linorder"
  assumes "\<forall>x \<in> set xs. \<forall>y \<in> set xs. lt x y \<longleftrightarrow> k x < k y"
  shows "sorted_wrt (\<lambda>x y. k x \<le> k y) (sort_lt lt xs)"
  using assms by (induction xs) (auto intro!: sorted_insort_lt)

lemma stable_insort_lt:
  fixes k :: "'a \<Rightarrow> 'b :: linorder"
  assumes "\<forall>y \<in> set ys. lt y x \<longleftrightarrow> k y < k x"
  shows "filter (\<lambda>y. k y = c) (insort_lt lt x ys) = filter (\<lambda>y. k y = c) (x # ys)"
  using assms by (induction ys) auto

lemma stable_sort_lt:
  fixes k :: "'a \<Rightarrow> 'b :: linorder"
  assumes "\<forall>x \<in> set xs. \<forall>y \<in> set xs. lt x y \<longleftrightarrow> k x < k y"
  shows "filter (\<lambda>x. k x = c) (sort_lt lt xs) = filter (\<lambda>x. k x = c) xs"
  using assms
proof (induction xs)
  case (Cons x xs)
  then have "filter (\<lambda>y. k y = c) (insort_lt lt x (sort_lt lt xs)) = filter (\<lambda>y. k y = c) (x # sort_lt lt xs)"
    by (intro stable_insort_lt) auto
  then show ?case using Cons by auto
qed simp

text \<open>Of a sorted list, the first elements are the least: what \<^verbatim>\<open>take\<close> leaves out is no smaller than what it keeps.\<close>

lemma sorted_wrt_take_drop:
  assumes "sorted_wrt R xs" "x \<in> set (take n xs)" "y \<in> set (drop n xs)"
  shows "R x y"
  using assms by (metis append_take_drop_id sorted_wrt_append)

section \<open>Interfaces\<close>

text \<open>
  A deterministic component: a step function over events and an invariant that every
  step whose event satisfies the guard keeps. What holds after one step then holds after
  every run of such events; without a guard, after every run.
\<close>

locale guarded_steps =
  fixes step :: "'s \<Rightarrow> 'e \<Rightarrow> 's"
    and inv :: "'s \<Rightarrow> bool"
    and guard :: "'e \<Rightarrow> bool"
  assumes guarded_inv: "inv s \<Longrightarrow> guard e \<Longrightarrow> inv (step s e)"
begin

lemma guarded_run_inv: "inv s \<Longrightarrow> list_all guard es \<Longrightarrow> inv (foldl step s es)"
  by (induction es arbitrary: s) (auto intro: guarded_inv)

end

locale step_system =
  fixes step :: "'s \<Rightarrow> 'e \<Rightarrow> 's"
    and inv :: "'s \<Rightarrow> bool"
  assumes step_inv: "inv s \<Longrightarrow> inv (step s e)"

sublocale step_system \<subseteq> guarded_steps step inv "\<lambda>_. True"
  by unfold_locales (rule step_inv)

context step_system
begin

lemma run_inv: "inv s \<Longrightarrow> inv (foldl step s es)"
  by (rule guarded_run_inv) (simp_all add: list_all_iff)

end

text \<open>The same for a step relation, where goroutines interleave: every reachable state satisfies the invariant.\<close>

locale interleaving =
  fixes step :: "'s \<Rightarrow> 's \<Rightarrow> bool"
    and inv :: "'s \<Rightarrow> bool"
  assumes inv_step: "step s s' \<Longrightarrow> inv s \<Longrightarrow> inv s'"
begin

lemma reach_inv: "step\<^sup>*\<^sup>* s s' \<Longrightarrow> inv s \<Longrightarrow> inv s'"
  by (induction rule: rtranclp_induct) (auto intro: inv_step)

end

text \<open>
  A lossy keyed store: a write makes the written value readable or nothing, and never
  changes what is readable under another key except by losing it. Every cache of the
  program promises this; the client lemma says that a hit is never stale with respect
  to the writes: whatever is read is the value last written under that key.
\<close>

locale lossy_store =
  fixes lookup :: "'s \<Rightarrow> 'k \<Rightarrow> 'v option"
    and store :: "'e \<Rightarrow> 's \<Rightarrow> 's"
    and key_of :: "'e \<Rightarrow> 'k"
    and val_of :: "'e \<Rightarrow> 'v"
    and inv :: "'s \<Rightarrow> bool"
  assumes inv_store: "inv s \<Longrightarrow> inv (store e s)"
    and store_same: "inv s \<Longrightarrow> lookup (store e s) (key_of e) = Some v \<Longrightarrow> v = val_of e"
    and store_other: "inv s \<Longrightarrow> k \<noteq> key_of e \<Longrightarrow> lookup (store e s) k = Some v \<Longrightarrow> lookup s k = Some v"
begin

lemma hit_is_last_write:
  "inv s \<Longrightarrow> lookup (fold store es s) k = Some v \<Longrightarrow>
   lookup s k = Some v \<and> k \<notin> key_of ` set es \<or>
   (\<exists>us e ws. es = us @ e # ws \<and> key_of e = k \<and> val_of e = v \<and> k \<notin> key_of ` set ws)"
proof (induction es arbitrary: s)
  case Nil
  then show ?case by simp
next
  case (Cons e es)
  from Cons.prems have "inv (store e s)" "lookup (fold store es (store e s)) k = Some v"
    by (auto intro: inv_store)
  from Cons.IH [OF this] consider
      (kept) "lookup (store e s) k = Some v" "k \<notin> key_of ` set es"
    | (later) us e' ws where "es = us @ e' # ws" "key_of e' = k" "val_of e' = v" "k \<notin> key_of ` set ws"
    by blast
  then show ?case
  proof cases
    case kept
    show ?thesis
    proof (cases "key_of e = k")
      case True
      with kept store_same [OF Cons.prems(1), of e v] have "val_of e = v" by simp
      with True kept(2) show ?thesis by (metis append_Nil)
    next
      case False
      with kept store_other [OF Cons.prems(1), of k e v] show ?thesis by auto
    qed
  next
    case later
    then have "e # es = (e # us) @ e' # ws" by simp
    with later(2-4) show ?thesis by blast
  qed
qed

end

end
