(* ===== verification/BoundedCache.thy ===== *)
theory BoundedCache
  imports Prelude
begin

text \<open>
  The in-process TTL cache with a size cap (\<^verbatim>\<open>internal/boundedcache/boundedcache.go\<close>).

  The code keeps a doubly linked list (oldest first) and a map from keys to list
  elements. An element is identified by a number, the pointer's identity; its entry is
  never changed after it was pushed, so the pointer carries it. Each operation runs
  under the cache's mutex and is one function of the model; the instants the code
  reads from its clock during an operation are arguments, one per reading.
\<close>

section \<open>State\<close>

record 'v entry =
  e_key :: string
  e_at :: int
  e_value :: 'v

type_synonym 'v element = "nat \<times> 'v entry"

record 'v cache =
  c_ttl :: int
  c_max :: int
  c_order :: "'v element list"
  c_items :: "string \<rightharpoonup> 'v element"
  c_next :: nat

definition new_cache :: "int \<Rightarrow> int \<Rightarrow> 'v cache" where
  "new_cache ttl maxEntries =
     \<lparr>c_ttl = ttl, c_max = (if maxEntries < 1 then 1 else maxEntries),
      c_order = [], c_items = Map.empty, c_next = 0\<rparr>"

text \<open>\<^verbatim>\<open>order.Remove(el)\<close>: by identity.\<close>

definition remove_element :: "nat \<Rightarrow> 'v element list \<Rightarrow> 'v element list" where
  "remove_element i els = filter (\<lambda>el. fst el \<noteq> i) els"

section \<open>Operations\<close>

definition cache_get :: "int \<Rightarrow> string \<Rightarrow> 'v cache \<Rightarrow> 'v option \<times> 'v cache" where
  "cache_get now k c =
     (case c_items c k of
        None \<Rightarrow> (None, c)
      | Some (i, e) \<Rightarrow>
          if now - e_at e \<ge> c_ttl c
          then (None, c\<lparr>c_order := remove_element i (c_order c), c_items := (c_items c)(k := None)\<rparr>)
          else (Some (e_value e), c))"

text \<open>The first loop of \<^verbatim>\<open>Set\<close>: walk the list and drop every entry not after the cutoff.\<close>

fun sweep_expired :: "int \<Rightarrow> 'v element list \<Rightarrow> 'v cache \<Rightarrow> 'v cache" where
  "sweep_expired cutoff [] c = c"
| "sweep_expired cutoff ((i, e) # els) c =
     sweep_expired cutoff els
       (if \<not> e_at e > cutoff
        then c\<lparr>c_order := remove_element i (c_order c), c_items := (c_items c)(e_key e := None)\<rparr>
        else c)"

text \<open>The second loop of \<^verbatim>\<open>Set\<close>: evict from the front while the list is longer than the cap.\<close>

fun evict_oldest :: "int \<Rightarrow> 'v element list \<Rightarrow> (string \<rightharpoonup> 'v element) \<Rightarrow> 'v element list \<times> (string \<rightharpoonup> 'v element)" where
  "evict_oldest mx [] items = ([], items)"
| "evict_oldest mx ((i, e) # els) items =
     (if int (length ((i, e) # els)) > mx
      then evict_oldest mx els (items(e_key e := None))
      else ((i, e) # els, items))"

definition cache_set :: "int \<Rightarrow> int \<Rightarrow> string \<Rightarrow> 'v \<Rightarrow> 'v cache \<Rightarrow> 'v cache" where
  "cache_set now1 now2 k v c =
     (let ord1 = (case c_items c k of Some (i, _) \<Rightarrow> remove_element i (c_order c) | None \<Rightarrow> c_order c);
          el = (c_next c, \<lparr>e_key = k, e_at = now1, e_value = v\<rparr>);
          c1 = c\<lparr>c_order := ord1 @ [el], c_items := (c_items c)(k \<mapsto> el), c_next := Suc (c_next c)\<rparr>;
          c2 = sweep_expired (now2 - c_ttl c) (c_order c1) c1;
          (ord3, items3) = evict_oldest (c_max c) (c_order c2) (c_items c2)
      in c2\<lparr>c_order := ord3, c_items := items3\<rparr>)"

definition cache_delete :: "string \<Rightarrow> 'v cache \<Rightarrow> bool \<times> 'v cache" where
  "cache_delete k c =
     (case c_items c k of
        Some (i, _) \<Rightarrow> (True, c\<lparr>c_order := remove_element i (c_order c), c_items := (c_items c)(k := None)\<rparr>)
      | None \<Rightarrow> (False, c))"

definition cache_len :: "'v cache \<Rightarrow> int" where
  "cache_len c = int (length (c_order c))"

definition cache_clear :: "'v cache \<Rightarrow> 'v cache" where
  "cache_clear c = c\<lparr>c_order := [], c_items := Map.empty\<rparr>"

section \<open>Well-formedness\<close>

abbreviation key_el :: "'v element \<Rightarrow> string" where
  "key_el el \<equiv> e_key (snd el)"

definition linked :: "'v cache \<Rightarrow> bool" where
  "linked c \<longleftrightarrow>
     distinct (map fst (c_order c)) \<and> distinct (map key_el (c_order c)) \<and>
     (\<forall>el \<in> set (c_order c). fst el < c_next c) \<and>
     c_items c = keyed key_el (c_order c)"

definition cache_ok :: "'v cache \<Rightarrow> bool" where
  "cache_ok c \<longleftrightarrow> linked c \<and> 1 \<le> c_max c \<and> int (length (c_order c)) \<le> c_max c"

declare linked_def [inv_defs] cache_ok_def [inv_defs]

definition entries :: "'v cache \<Rightarrow> 'v entry list" where
  "entries c = map snd (c_order c)"

lemma linked_item: "linked c \<Longrightarrow> c_items c k = Some (i, e) \<longleftrightarrow> (i, e) \<in> set (c_order c) \<and> e_key e = k"
  by (auto simp: linked_def keyed_Some_iff)

lemma remove_element_eq_filter_key:
  assumes "distinct (map fst els)" "distinct (map key_el els)" "(i, e) \<in> set els"
  shows "remove_element i els = filter (\<lambda>el. key_el el \<noteq> e_key e) els"
  unfolding remove_element_def
proof (rule filter_cong [OF refl])
  fix el assume "el \<in> set els"
  with assms show "(fst el \<noteq> i) = (key_el el \<noteq> e_key e)"
    by (metis distinct_map fst_conv inj_onD snd_conv)
qed

lemma distinct_map_filterI: "distinct (map f xs) \<Longrightarrow> distinct (map f (filter P xs))"
  by (induction xs) auto

text \<open>Removing one stored element keeps the list and the map linked.\<close>

lemma linked_remove:
  assumes "linked c" "(i, e) \<in> set (c_order c)"
  shows "linked (c\<lparr>c_order := remove_element i (c_order c), c_items := (c_items c)(e_key e := None)\<rparr>)"
    and "remove_element i (c_order c) = filter (\<lambda>el. key_el el \<noteq> e_key e) (c_order c)"
proof -
  from assms show eq: "remove_element i (c_order c) = filter (\<lambda>el. key_el el \<noteq> e_key e) (c_order c)"
    by (auto simp: linked_def intro!: remove_element_eq_filter_key)
  from assms(1) show "linked (c\<lparr>c_order := remove_element i (c_order c), c_items := (c_items c)(e_key e := None)\<rparr>)"
    unfolding eq by (auto simp: linked_def keyed_filter_neq intro: distinct_map_filterI)
qed

lemma sweep_expired_linked:
  "linked c \<Longrightarrow> set els \<subseteq> set (c_order c) \<Longrightarrow> distinct (map key_el els) \<Longrightarrow>
   linked (sweep_expired cutoff els c) \<and>
   c_order (sweep_expired cutoff els c) =
     filter (\<lambda>el. key_el el \<in> key_el ` set els \<longrightarrow> e_at (snd el) > cutoff) (c_order c) \<and>
   c_max (sweep_expired cutoff els c) = c_max c \<and> c_ttl (sweep_expired cutoff els c) = c_ttl c \<and>
   c_next (sweep_expired cutoff els c) = c_next c"
proof (induction cutoff els c rule: sweep_expired.induct)
  case (1 cutoff c)
  then show ?case by (simp add: filter_True)
next
  case (2 cutoff i e els c)
  have mem: "(i, e) \<in> set (c_order c)" using "2.prems" by simp
  have dk: "distinct (map key_el (c_order c))" using "2.prems" by (simp add: linked_def)
  have uniq: "key_el el = e_key e \<Longrightarrow> el \<in> set (c_order c) \<Longrightarrow> el = (i, e)" for el
    using mem dk by (metis distinct_map inj_onD snd_conv)
  show ?case
  proof (cases "e_at e > cutoff")
    case True
    with 2 have IH: "linked (sweep_expired cutoff els c)"
      "c_order (sweep_expired cutoff els c) =
        filter (\<lambda>el. key_el el \<in> key_el ` set els \<longrightarrow> e_at (snd el) > cutoff) (c_order c)"
      "c_max (sweep_expired cutoff els c) = c_max c" "c_ttl (sweep_expired cutoff els c) = c_ttl c"
      "c_next (sweep_expired cutoff els c) = c_next c"
      by auto
    moreover have "filter (\<lambda>el. key_el el \<in> key_el ` set els \<longrightarrow> e_at (snd el) > cutoff) (c_order c) =
      filter (\<lambda>el. key_el el \<in> key_el ` set ((i, e) # els) \<longrightarrow> e_at (snd el) > cutoff) (c_order c)"
      by (rule filter_cong [OF refl]) (use True uniq in fastforce)
    ultimately show ?thesis using True by simp
  next
    case False
    let ?c' = "c\<lparr>c_order := remove_element i (c_order c), c_items := (c_items c)(e_key e := None)\<rparr>"
    have l: "linked ?c'" and eq: "remove_element i (c_order c) = filter (\<lambda>el. key_el el \<noteq> e_key e) (c_order c)"
      using linked_remove [OF _ mem] "2.prems"(1) by auto
    have sub: "set els \<subseteq> set (c_order ?c')"
      using "2.prems" by (auto simp: eq image_iff)
    from False 2 l sub have IH: "linked (sweep_expired cutoff els ?c')"
      "c_order (sweep_expired cutoff els ?c') =
        filter (\<lambda>el. key_el el \<in> key_el ` set els \<longrightarrow> e_at (snd el) > cutoff) (c_order ?c')"
      "c_max (sweep_expired cutoff els ?c') = c_max c" "c_ttl (sweep_expired cutoff els ?c') = c_ttl c"
      "c_next (sweep_expired cutoff els ?c') = c_next c"
      by auto
    moreover have "filter (\<lambda>el. key_el el \<in> key_el ` set els \<longrightarrow> e_at (snd el) > cutoff) (c_order ?c') =
      filter (\<lambda>el. key_el el \<in> key_el ` set ((i, e) # els) \<longrightarrow> e_at (snd el) > cutoff) (c_order c)"
      unfolding eq by simp (rule filter_cong [OF refl], use False uniq in fastforce)
    ultimately show ?thesis using False by simp
  qed
qed

lemma evict_oldest_eq:
  "0 \<le> mx \<Longrightarrow> items = keyed key_el els \<Longrightarrow> distinct (map key_el els) \<Longrightarrow>
   evict_oldest mx els items = (lastn (nat mx) els, keyed key_el (lastn (nat mx) els))"
proof (induction mx els items rule: evict_oldest.induct)
  case (1 mx items)
  then show ?case by simp
next
  case (2 mx i e els items)
  have upd: "items(e_key e := None) = keyed key_el els"
  proof -
    have "keyed key_el els (e_key e) = None"
      using "2.prems"(3) by (auto simp: keyed_None_iff)
    then show ?thesis using "2.prems"(2) by (auto simp: fun_eq_iff)
  qed
  show ?case
  proof (cases "int (length ((i, e) # els)) > mx")
    case True
    have "evict_oldest mx els (items(e_key e := None)) =
        (lastn (nat mx) els, keyed key_el (lastn (nat mx) els))"
      using "2.prems"(1,3) by (intro "2.IH" [OF True _ upd]) auto
    moreover have "lastn (nat mx) ((i, e) # els) = lastn (nat mx) els"
      using True "2.prems"(1) by (intro lastn_Cons) auto
    ultimately show ?thesis using True by simp
  next
    case False
    with "2.prems" show ?thesis by simp
  qed
qed

section \<open>The abstract cache\<close>

text \<open>
  What the cache promises, without list elements or a map: a list of entries, oldest
  write first. A write moves its key to the newest position, then drops what is expired
  at that instant, then keeps the newest \<open>c_max\<close> entries.
\<close>

definition spec_set :: "int \<Rightarrow> int \<Rightarrow> int \<Rightarrow> int \<Rightarrow> string \<Rightarrow> 'v \<Rightarrow> 'v entry list \<Rightarrow> 'v entry list" where
  "spec_set ttl mx now1 now2 k v es =
     lastn (nat mx) (filter (\<lambda>e. e_at e > now2 - ttl)
       (filter (\<lambda>e. e_key e \<noteq> k) es @ [\<lparr>e_key = k, e_at = now1, e_value = v\<rparr>]))"

definition spec_lookup :: "int \<Rightarrow> int \<Rightarrow> string \<Rightarrow> 'v entry list \<Rightarrow> 'v option" where
  "spec_lookup ttl now k es =
     (case find (\<lambda>e. e_key e = k) es of
        Some e \<Rightarrow> if now - e_at e < ttl then Some (e_value e) else None
      | None \<Rightarrow> None)"

lemma map_lastn: "map f (lastn n xs) = lastn n (map f xs)"
  by (simp add: lastn_def drop_map)

lemma distinct_map_lastn: "distinct (map f xs) \<Longrightarrow> distinct (map f (lastn n xs))"
  by (simp add: map_lastn) (simp add: lastn_def distinct_drop)

text \<open>The state \<^verbatim>\<open>Set\<close> works on before its two loops: the key moved to the newest position.\<close>

definition pushed :: "int \<Rightarrow> string \<Rightarrow> 'v \<Rightarrow> 'v cache \<Rightarrow> 'v cache" where
  "pushed now1 k v c =
     (let el = (c_next c, \<lparr>e_key = k, e_at = now1, e_value = v\<rparr>)
      in c\<lparr>c_order := filter (\<lambda>el. key_el el \<noteq> k) (c_order c) @ [el],
          c_items := (c_items c)(k \<mapsto> el), c_next := Suc (c_next c)\<rparr>)"

lemma linked_pushed:
  assumes "linked c"
  shows "linked (pushed now1 k v c)"
proof -
  have "c_items (pushed now1 k v c) = keyed key_el (c_order (pushed now1 k v c))"
    using assms by (auto simp: pushed_def Let_def linked_def keyed_append keyed_filter_neq map_add_def fun_eq_iff split: option.splits)
  with assms show ?thesis
    by (auto simp: pushed_def Let_def linked_def distinct_map_filterI image_iff intro: less_SucI)
qed

lemma cache_set_pushed:
  assumes "linked c"
  shows "cache_set now1 now2 k v c =
    (let c1 = pushed now1 k v c; c2 = sweep_expired (now2 - c_ttl c) (c_order c1) c1;
         r = evict_oldest (c_max c) (c_order c2) (c_items c2)
     in c2\<lparr>c_order := fst r, c_items := snd r\<rparr>)"
proof -
  have "(case c_items c k of Some (i, _) \<Rightarrow> remove_element i (c_order c) | None \<Rightarrow> c_order c) =
      filter (\<lambda>el. key_el el \<noteq> k) (c_order c)"
  proof (cases "c_items c k")
    case None
    then have "k \<notin> key_el ` set (c_order c)"
      using assms by (simp add: linked_def keyed_None_iff)
    then show ?thesis using None by (auto intro!: filter_True [symmetric])
  next
    case (Some el)
    obtain i e where el: "el = (i, e)" by (cases el)
    with Some assms have "(i, e) \<in> set (c_order c)" "e_key e = k"
      by (auto simp: linked_item)
    with linked_remove(2) [OF assms, of i e] Some el show ?thesis by simp
  qed
  then show ?thesis
    by (simp add: cache_set_def pushed_def Let_def case_prod_beta)
qed

lemma cache_set_spec:
  assumes "cache_ok c"
  shows "linked (cache_set now1 now2 k v c)"
    and "entries (cache_set now1 now2 k v c) = spec_set (c_ttl c) (c_max c) now1 now2 k v (entries c)"
    and "c_max (cache_set now1 now2 k v c) = c_max c"
    and "c_ttl (cache_set now1 now2 k v c) = c_ttl c"
proof -
  let ?c1 = "pushed now1 k v c"
  let ?cut = "now2 - c_ttl c"
  let ?c2 = "sweep_expired ?cut (c_order ?c1) ?c1"
  have l: "linked c" and mx: "1 \<le> c_max c" using assms by (auto simp: cache_ok_def)
  have l1: "linked ?c1" by (rule linked_pushed [OF l])
  have d1: "distinct (map key_el (c_order ?c1))" using l1 by (simp add: linked_def)
  from sweep_expired_linked [OF l1 subset_refl d1, of ?cut]
  have l2: "linked ?c2"
    and o2: "c_order ?c2 = filter (\<lambda>el. e_at (snd el) > ?cut) (c_order ?c1)"
    and f2: "c_max ?c2 = c_max c" "c_ttl ?c2 = c_ttl c"
    by (auto simp: pushed_def Let_def intro: filter_cong)
  have ev: "evict_oldest (c_max c) (c_order ?c2) (c_items ?c2) =
      (lastn (nat (c_max c)) (c_order ?c2), keyed key_el (lastn (nat (c_max c)) (c_order ?c2)))"
    using l2 mx by (intro evict_oldest_eq) (auto simp: linked_def)
  have set_eq: "cache_set now1 now2 k v c =
      ?c2\<lparr>c_order := lastn (nat (c_max c)) (c_order ?c2),
          c_items := keyed key_el (lastn (nat (c_max c)) (c_order ?c2))\<rparr>"
    by (simp add: cache_set_pushed [OF l] Let_def ev)
  show "linked (cache_set now1 now2 k v c)"
    using l2 set_lastn_subset [of "nat (c_max c)" "c_order ?c2"]
    by (auto simp: set_eq linked_def distinct_map_lastn)
  have "map snd (c_order ?c1) = filter (\<lambda>e. e_key e \<noteq> k) (entries c) @ [\<lparr>e_key = k, e_at = now1, e_value = v\<rparr>]"
    by (simp add: pushed_def Let_def entries_def filter_map o_def)
  moreover have "entries (cache_set now1 now2 k v c) =
      lastn (nat (c_max c)) (filter (\<lambda>e. e_at e > ?cut) (map snd (c_order ?c1)))"
    by (simp add: set_eq entries_def map_lastn o2 filter_map o_def)
  ultimately show "entries (cache_set now1 now2 k v c) = spec_set (c_ttl c) (c_max c) now1 now2 k v (entries c)"
    by (simp add: spec_set_def)
  show "c_max (cache_set now1 now2 k v c) = c_max c" "c_ttl (cache_set now1 now2 k v c) = c_ttl c"
    by (simp_all add: set_eq f2)
qed

lemma cache_ok_set: "cache_ok c \<Longrightarrow> cache_ok (cache_set now1 now2 k v c)"
proof -
  assume ok: "cache_ok c"
  have "length (c_order (cache_set now1 now2 k v c)) = length (entries (cache_set now1 now2 k v c))"
    by (simp add: entries_def)
  also have "\<dots> \<le> nat (c_max c)"
    by (simp add: cache_set_spec(2) [OF ok] spec_set_def)
  finally show ?thesis
    using ok cache_set_spec [OF ok, of now1 now2 k v] by (auto simp: cache_ok_def)
qed

lemma length_remove_le: "length (remove_element i els) \<le> length els"
  by (simp add: remove_element_def)

lemma cache_ok_drop:
  assumes "cache_ok c" "c_items c k = Some (i, e)"
  shows "cache_ok (c\<lparr>c_order := remove_element i (c_order c), c_items := (c_items c)(k := None)\<rparr>)"
proof -
  have mem: "(i, e) \<in> set (c_order c)" "e_key e = k"
    using assms by (auto simp: cache_ok_def linked_item)
  then show ?thesis
    using assms(1) linked_remove(1) [OF _ mem(1)] length_remove_le [of i "c_order c"]
    by (auto simp: cache_ok_def)
qed

lemma cache_ok_get: "cache_ok c \<Longrightarrow> cache_ok (snd (cache_get now k c))"
  by (auto simp: cache_get_def cache_ok_drop split: option.splits)

lemma cache_ok_delete: "cache_ok c \<Longrightarrow> cache_ok (snd (cache_delete k c))"
  by (auto simp: cache_delete_def cache_ok_drop split: option.splits)

lemma cache_ok_clear: "cache_ok c \<Longrightarrow> cache_ok (cache_clear c)"
  by (simp add: cache_ok_def cache_clear_def linked_def)

lemma cache_ok_new: "cache_ok (new_cache ttl n)"
  by (simp add: cache_ok_def new_cache_def linked_def)

lemma find_entries: "find (\<lambda>e. e_key e = k) (entries c) = map_option snd (keyed key_el (c_order c) k)"
proof -
  have "find (\<lambda>e. e_key e = k) (map snd els) = map_option snd (keyed key_el els k)" for els :: "'a element list"
    by (induction els) auto
  then show ?thesis by (simp add: entries_def)
qed

lemma cache_get_spec:
  "cache_ok c \<Longrightarrow> fst (cache_get now k c) = spec_lookup (c_ttl c) now k (entries c)"
  by (auto simp: cache_get_def spec_lookup_def find_entries cache_ok_def linked_def split: option.splits)

section \<open>Runs of operations\<close>

datatype 'v cache_op =
    Op_Get int string
  | Op_Set int int string 'v
  | Op_Delete string
  | Op_Clear

fun cache_step :: "'v cache \<Rightarrow> 'v cache_op \<Rightarrow> 'v cache" where
  "cache_step c (Op_Get now k) = snd (cache_get now k c)"
| "cache_step c (Op_Set now1 now2 k v) = cache_set now1 now2 k v c"
| "cache_step c (Op_Delete k) = snd (cache_delete k c)"
| "cache_step c Op_Clear = cache_clear c"

lemma cache_step_ok: "cache_ok c \<Longrightarrow> cache_ok (cache_step c op)"
  by (cases op) (simp_all add: cache_ok_get cache_ok_set cache_ok_delete cache_ok_clear)

lemma cache_step_max: "cache_ok c \<Longrightarrow> c_max (cache_step c op) = c_max c"
  by (cases op) (auto simp: cache_set_spec cache_get_def cache_delete_def cache_clear_def split: option.splits)

lemma cache_step_ttl: "cache_ok c \<Longrightarrow> c_ttl (cache_step c op) = c_ttl c"
  by (cases op) (auto simp: cache_set_spec cache_get_def cache_delete_def cache_clear_def split: option.splits)

interpretation cache_run: step_system cache_step "\<lambda>c. cache_ok c \<and> c_max c = m \<and> c_ttl c = t" for m t
  by unfold_locales (auto simp: cache_step_ok cache_step_max cache_step_ttl)

text \<open>Writes as events of the lossy-store interface: the two clock readings, the key and the value.\<close>

type_synonym 'v cache_write = "int \<times> int \<times> string \<times> 'v"

fun apply_write :: "'v cache_write \<Rightarrow> 'v cache \<Rightarrow> 'v cache" where
  "apply_write (now1, now2, k, v) c = cache_set now1 now2 k v c"

fun write_key :: "'v cache_write \<Rightarrow> string" where
  "write_key (_, _, k, _) = k"

fun write_val :: "'v cache_write \<Rightarrow> 'v" where
  "write_val (_, _, _, v) = v"

lemma find_keyed: "find (\<lambda>x. f x = k) xs = keyed f xs k"
  by (induction xs) auto

lemma find_lastn_Some:
  assumes "distinct (map f xs)" "find (\<lambda>x. f x = k) (lastn n xs) = Some y"
  shows "find (\<lambda>x. f x = k) xs = Some y"
  using assms set_lastn_subset [of n xs]
  by (auto simp: find_keyed keyed_Some_iff distinct_map_lastn)

lemma find_filter_Some:
  assumes "distinct (map f xs)" "find (\<lambda>x. f x = k) (filter P xs) = Some y"
  shows "find (\<lambda>x. f x = k) xs = Some y"
  using assms by (auto simp: find_keyed keyed_Some_iff distinct_map_filterI)

text \<open>What is found after a write was written by it, or was there before under its own key.\<close>

lemma spec_set_find:
  assumes "distinct (map e_key es)" "find (\<lambda>e. e_key e = j) (spec_set ttl mx now1 now2 k v es) = Some e"
  shows "j = k \<and> e = \<lparr>e_key = k, e_at = now1, e_value = v\<rparr> \<or> j \<noteq> k \<and> find (\<lambda>e. e_key e = j) es = Some e"
proof -
  let ?new = "\<lparr>e_key = k, e_at = now1, e_value = v\<rparr>"
  let ?es = "filter (\<lambda>e. e_key e \<noteq> k) es @ [?new]"
  have d: "distinct (map e_key ?es)" using assms(1) by (auto intro: distinct_map_filterI)
  have "find (\<lambda>e. e_key e = j) (filter (\<lambda>e. e_at e > now2 - ttl) ?es) = Some e"
    using assms(2) unfolding spec_set_def by (rule find_lastn_Some [OF distinct_map_filterI [OF d]])
  then have "find (\<lambda>e. e_key e = j) ?es = Some e"
    by (rule find_filter_Some [OF d])
  moreover have "find (\<lambda>e. e_key e = k) (filter (\<lambda>e. e_key e \<noteq> k) es @ [?new]) = Some ?new"
    by (induction es) auto
  moreover have "j \<noteq> k \<Longrightarrow> find (\<lambda>e. e_key e = j) (filter (\<lambda>e. e_key e \<noteq> k) es @ [?new]) =
      find (\<lambda>e. e_key e = j) es"
    by (induction es) auto
  ultimately show ?thesis by (cases "j = k") auto
qed

lemma distinct_entries: "linked c \<Longrightarrow> distinct (map e_key (entries c))"
  by (simp add: linked_def entries_def o_def)

interpretation cache_store: lossy_store "\<lambda>c k. fst (cache_get now k c)" apply_write write_key write_val cache_ok
  for now
proof unfold_locales
  fix c :: "'a cache" and w :: "'a cache_write"
  obtain now1 now2 k v where w: "w = (now1, now2, k, v)" by (cases w) auto
  assume ok: "cache_ok c"
  then have l: "distinct (map e_key (entries c))" by (simp add: cache_ok_def distinct_entries)
  show "cache_ok (apply_write w c)" by (simp add: w ok cache_ok_set)
  then have look: "fst (cache_get now j (apply_write w c)) =
      spec_lookup (c_ttl c) now j (spec_set (c_ttl c) (c_max c) now1 now2 k v (entries c))" for j
    by (simp add: cache_get_spec w cache_set_spec [OF ok])
  show "x = write_val w" if "fst (cache_get now (write_key w) (apply_write w c)) = Some x" for x
    using that unfolding look
    by (auto simp: w spec_lookup_def split: option.splits if_splits dest!: spec_set_find [OF l])
  show "fst (cache_get now j c) = Some x"
    if "j \<noteq> write_key w" "fst (cache_get now j (apply_write w c)) = Some x" for j x
    using that unfolding look cache_get_spec [OF ok]
    by (auto simp: w spec_lookup_def split: option.splits if_splits dest!: spec_set_find [OF l])
qed

text \<open>A value just written is readable while its age is below the TTL.\<close>

lemma spec_lookup_after_set:
  assumes "1 \<le> mx" "now2 - now1 < ttl" "now - now1 < ttl" "distinct (map e_key es)"
  shows "spec_lookup ttl now k (spec_set ttl mx now1 now2 k v es) = Some v"
proof -
  let ?new = "\<lparr>e_key = k, e_at = now1, e_value = v\<rparr>"
  let ?xs = "filter (\<lambda>e. e_at e > now2 - ttl) (filter (\<lambda>e. e_key e \<noteq> k) es)"
  have eq: "spec_set ttl mx now1 now2 k v es = lastn (nat mx) (?xs @ [?new])"
    using assms(2) by (simp add: spec_set_def)
  have "distinct (map e_key (?xs @ [?new]))"
    using assms(4) by (auto intro: distinct_map_filterI)
  then have "distinct (map e_key (lastn (nat mx) (?xs @ [?new])))"
    by (rule distinct_map_lastn)
  moreover have "?new \<in> set (lastn (nat mx) (?xs @ [?new]))"
    using assms(1) by (intro last_in_lastn) simp
  ultimately have "find (\<lambda>e. e_key e = k) (spec_set ttl mx now1 now2 k v es) = Some ?new"
    unfolding eq by (subst find_keyed) (auto simp: keyed_Some_iff)
  then show ?thesis using assms(3) by (simp add: spec_lookup_def)
qed

lemma cache_read_your_write:
  assumes "cache_ok c" "now2 - now1 < c_ttl c" "now - now1 < c_ttl c"
  shows "fst (cache_get now k (cache_set now1 now2 k v c)) = Some v"
proof -
  have "1 \<le> c_max c" "distinct (map e_key (entries c))"
    using assms(1) by (auto simp: cache_ok_def distinct_entries)
  with assms show ?thesis
    by (simp add: cache_get_spec cache_ok_set cache_set_spec spec_lookup_after_set)
qed

section \<open>Properties\<close>

text \<open>
  C14: The cache implements its abstract specification. A \<^verbatim>\<open>Set\<close> leaves exactly the entries
  the specification lists (key moved to the newest position, expired entries swept, the oldest
  evicted beyond the cap), and a \<^verbatim>\<open>Get\<close> answers what the specification says is readable at
  that instant.
\<close>

theorem cache_refines_spec:
  assumes "cache_ok c"
  shows "entries (cache_set now1 now2 k v c) = spec_set (c_ttl c) (c_max c) now1 now2 k v (entries c) \<and>
    fst (cache_get now k c) = spec_lookup (c_ttl c) now k (entries c)"
  using cache_set_spec(2) [OF assms] cache_get_spec [OF assms] by simp

theorem cache_refines_spec_witness:
  "entries (cache_set 7 7 ''b'' (2::nat) (cache_set 5 5 ''a'' 1 (new_cache 10 1))) =
     [\<lparr>e_key = ''b'', e_at = 7, e_value = 2\<rparr>] \<and>
   fst (cache_get 15 ''a'' (cache_set 5 5 ''a'' (1::nat) (new_cache 10 1))) = None"
  using cache_refines_spec [OF cache_ok_set [OF cache_ok_new [of 10 1], of 5 5 "''a''" "1::nat"], of 7 7 "''b''" 2 15]
    cache_refines_spec [OF cache_ok_set [OF cache_ok_new [of 10 1], of 5 5 "''a''" "1::nat"], of 7 7 "''a''" 2 15]
  by (simp add: new_cache_def cache_set_def entries_def spec_set_def spec_lookup_def lastn_def remove_element_def Let_def)

text \<open>
  Whatever operations run, in any order and with any clock readings, the cache never
  holds more entries than its cap (at least one), its list and its map never disagree, and a
  value just written is readable until the TTL has passed since its write.
\<close>

theorem cache_run_bounded_and_fresh:
  assumes "now2 - now1 < ttl" "now - now1 < ttl"
  shows "cache_ok (foldl cache_step (new_cache ttl n) ops) \<and>
    cache_len (foldl cache_step (new_cache ttl n) ops) \<le> max 1 n \<and>
    fst (cache_get now k (cache_set now1 now2 k v (foldl cache_step (new_cache ttl n) ops))) = Some v"
proof -
  let ?c = "foldl cache_step (new_cache ttl n) ops"
  have inv: "cache_ok ?c \<and> c_max ?c = max 1 n \<and> c_ttl ?c = ttl"
    by (rule cache_run.run_inv) (use cache_ok_new [of ttl n] in \<open>auto simp: new_cache_def\<close>)
  then have "cache_len ?c \<le> max 1 n" by (auto simp: cache_ok_def cache_len_def)
  moreover have "fst (cache_get now k (cache_set now1 now2 k v ?c)) = Some v"
    using inv assms by (intro cache_read_your_write) auto
  ultimately show ?thesis using inv by blast
qed

theorem cache_run_bounded_and_fresh_witness:
  "cache_ok (foldl cache_step (new_cache 10 1) [Op_Set 1 1 ''a'' (5::nat)]) \<and>
   fst (cache_get 12 ''b'' (cache_set 3 4 ''b'' 6 (foldl cache_step (new_cache 10 1) [Op_Set 1 1 ''a'' (5::nat)]))) = Some 6"
  using cache_run_bounded_and_fresh [of 4 3 10 12 1 "[Op_Set 1 1 ''a'' (5::nat)]" "''b''" 6] by simp

text \<open>
  A hit is never a stale value: whatever \<^verbatim>\<open>Get\<close> returns after a sequence of writes to an
  empty cache is the value of the last write under that key.
\<close>

theorem cache_hit_is_last_write:
  assumes "fst (cache_get now k (fold apply_write ws (new_cache ttl n))) = Some v"
  shows "\<exists>us w vs. ws = us @ w # vs \<and> write_key w = k \<and> write_val w = v \<and> k \<notin> write_key ` set vs"
  using cache_store.hit_is_last_write [OF cache_ok_new assms]
  by (auto simp: cache_get_def new_cache_def)

theorem cache_hit_is_last_write_witness:
  "\<exists>us w vs. [(1, 1, ''a'', 5), (2, 2, ''a'', 6::nat)] = us @ w # vs \<and> write_key w = ''a'' \<and> write_val w = 6 \<and>
     ''a'' \<notin> write_key ` set vs"
proof (rule cache_hit_is_last_write)
  show "fst (cache_get 3 ''a'' (fold apply_write [(1, 1, ''a'', 5), (2, 2, ''a'', 6::nat)] (new_cache 10 4))) = Some 6"
    by (simp add: new_cache_def cache_set_def cache_get_def remove_element_def Let_def)
qed

end
