(* ===== verification/Subscriptions.thy ===== *)
theory Subscriptions
  imports Prelude "HOL-Library.AList"
begin

text \<open>
  The refcounted subscription table of one market-data lane
  (\<^verbatim>\<open>internal/brokers/subscriptions.go\<close>): per-token, per-owner reference counts, leases,
  and the transport calls that carry only the transitions of a token between "nobody
  holds it" and "somebody holds it".

  Every public operation runs under the coordinator's mutex, so it is one function here;
  the calls it makes on the transport are returned as a list, in order. The map of counts
  and the ordered lease table are association lists: \<^verbatim>\<open>leases\<close> with \<^verbatim>\<open>leaseOrder\<close> is one
  list in lease order (both are only ever changed together, by \<^verbatim>\<open>addLease\<close>,
  \<^verbatim>\<open>removeLease\<close> and the reset), and the iteration order of \<^verbatim>\<open>counts\<close> is never observable.

  The analytics-yield handler is the program's Fair Value engine, whose only effect on
  the coordinator is at most one \<^verbatim>\<open>SetOwnerTokens(analytics, ...)\<close> call; it is a
  parameter here: a function from the priority set to the token list it declares, if any.
\<close>

section \<open>State\<close>

datatype owner = OwnerBrowser | OwnerScanner | OwnerStrategy | OwnerAnalytics

datatype lane = LaneFutures | LaneBox | LaneNamed string

definition LaneLabel :: "lane \<Rightarrow> string" where
  "LaneLabel l = (if l = LaneFutures then ''futures/calendar-spread'' else ''box-arbitrage options'')"

record counts =
  Browser :: int
  Scanner :: int
  Strategy :: int
  Analytics :: int
  Total :: int

text \<open>\<^verbatim>\<open>Counts.ptr\<close>: reading and writing the field of one owner.\<close>

fun ptr_get :: "owner \<Rightarrow> counts \<Rightarrow> int" where
  "ptr_get OwnerBrowser c = Browser c"
| "ptr_get OwnerScanner c = Scanner c"
| "ptr_get OwnerStrategy c = Strategy c"
| "ptr_get OwnerAnalytics c = Analytics c"

fun ptr_set :: "owner \<Rightarrow> int \<Rightarrow> counts \<Rightarrow> counts" where
  "ptr_set OwnerBrowser n c = c\<lparr>Browser := n\<rparr>"
| "ptr_set OwnerScanner n c = c\<lparr>Scanner := n\<rparr>"
| "ptr_set OwnerStrategy n c = c\<lparr>Strategy := n\<rparr>"
| "ptr_set OwnerAnalytics n c = c\<lparr>Analytics := n\<rparr>"

definition zero_counts :: counts where
  "zero_counts = \<lparr>Browser = 0, Scanner = 0, Strategy = 0, Analytics = 0, Total = 0\<rparr>"

text \<open>
  Lease ids: \<^verbatim>\<open>fmt.Sprintf("%s:%d", owner, seq)\<close> and \<^verbatim>\<open>string(owner) + ":set"\<close>, which are
  pairwise different strings, as constructors.
\<close>

datatype lease_id = LeaseSeq owner nat | LeaseSet owner

record lease =
  l_owner :: owner
  l_tokens :: "token list"

type_synonym count_table = "(token \<times> counts) list"

record coord =
  co_lane :: lane
  co_counts :: count_table
  co_leases :: "(lease_id \<times> lease) list"
  co_leaseSeq :: nat

datatype tcall = SubscribeTokens "token list" | UnsubscribeTokens "token list"

type_synonym yield_handler = "(token set \<Rightarrow> token list option) option"

definition NewCoordinator :: "lane \<Rightarrow> coord" where
  "NewCoordinator l = \<lparr>co_lane = l, co_counts = [], co_leases = [], co_leaseSeq = 0\<rparr>"

section \<open>Operations\<close>

definition distinctValid :: "token list \<Rightarrow> token list" where
  "distinctValid tokens = nub (filter (\<lambda>t. \<not> t \<le> 0) tokens)"

text \<open>One turn of the acquiring loops: the new table and whether nobody held the token.\<close>

definition bump :: "owner \<Rightarrow> token \<Rightarrow> count_table \<Rightarrow> count_table \<times> bool" where
  "bump ow t m =
     (let e = (case map_of m t of None \<Rightarrow> zero_counts | Some e \<Rightarrow> e);
          wasZero = (Total e = 0);
          e1 = ptr_set ow (ptr_get ow e + 1) e;
          e2 = e1\<lparr>Total := Total e1 + 1\<rparr>
      in (AList.update t e2 m, wasZero))"

fun add_tokens :: "owner \<Rightarrow> token list \<Rightarrow> count_table \<Rightarrow> count_table \<times> token list" where
  "add_tokens ow [] m = (m, [])"
| "add_tokens ow (t # ts) m =
     (let (m1, wasZero) = bump ow t m; (m2, sub) = add_tokens ow ts m1
      in (m2, if wasZero then t # sub else sub))"

definition dec :: "token \<Rightarrow> owner \<Rightarrow> count_table \<Rightarrow> count_table \<times> bool" where
  "dec t ow m =
     (case map_of m t of
        None \<Rightarrow> (m, False)
      | Some e \<Rightarrow>
          (let e1 = (if ptr_get ow e > 0 then ptr_set ow (ptr_get ow e - 1) e else e);
               e2 = (if Total e1 > 0 then e1\<lparr>Total := Total e1 - 1\<rparr> else e1)
           in if Total e2 = 0 then (AList.delete t m, True) else (AList.update t e2 m, False)))"

fun drop_tokens :: "owner \<Rightarrow> token list \<Rightarrow> count_table \<Rightarrow> count_table \<times> token list" where
  "drop_tokens ow [] m = (m, [])"
| "drop_tokens ow (t # ts) m =
     (let (m1, gone) = dec t ow m; (m2, unsub) = drop_tokens ow ts m1
      in (m2, if gone then t # unsub else unsub))"

definition addLease :: "lease_id \<Rightarrow> lease \<Rightarrow> coord \<Rightarrow> coord" where
  "addLease i l c = c\<lparr>co_leases := AList.update i l (co_leases c)\<rparr>"

definition removeLease :: "lease_id \<Rightarrow> coord \<Rightarrow> coord" where
  "removeLease i c = c\<lparr>co_leases := AList.delete i (co_leases c)\<rparr>"

definition releaseLease :: "lease_id \<Rightarrow> coord \<Rightarrow> coord \<times> tcall list" where
  "releaseLease i c =
     (case map_of (co_leases c) i of
        None \<Rightarrow> (c, [])
      | Some l \<Rightarrow>
          (let c1 = removeLease i c;
               (m, unsub) = drop_tokens (l_owner l) (l_tokens l) (co_counts c1)
           in (c1\<lparr>co_counts := m\<rparr>, if unsub \<noteq> [] then [UnsubscribeTokens unsub] else [])))"

text \<open>The loop that collects what an owner holds and removes its leases.\<close>

fun collect_held :: "owner \<Rightarrow> (lease_id \<times> lease) list \<Rightarrow> token list \<Rightarrow> coord \<Rightarrow> token list \<times> coord" where
  "collect_held ow [] held c = (held, c)"
| "collect_held ow ((i, l) # ls) held c =
     (if l_owner l \<noteq> ow then collect_held ow ls held c
      else collect_held ow ls (held @ nub_acc held (l_tokens l)) (removeLease i c))"

text \<open>\<^verbatim>\<open>SetOwnerTokens\<close> from the point where it holds the lock.\<close>

definition set_owner_locked :: "owner \<Rightarrow> token list \<Rightarrow> coord \<Rightarrow> coord \<times> tcall list" where
  "set_owner_locked ow want c =
     (let (held, c1) = collect_held ow (co_leases c) [] c;
          (m1, unsub) = drop_tokens ow (filter (\<lambda>t. t \<notin> set want) held) (co_counts c1);
          (m2, sub) = add_tokens ow (filter (\<lambda>t. t \<notin> set held) want) m1;
          c2 = c1\<lparr>co_counts := m2\<rparr>;
          c3 = (if want \<noteq> [] then addLease (LeaseSet ow) \<lparr>l_owner = ow, l_tokens = want\<rparr> c2 else c2)
      in (c3, (if unsub \<noteq> [] then [UnsubscribeTokens unsub] else []) @
              (if sub \<noteq> [] then [SubscribeTokens sub] else [])))"

definition priority_set :: "owner \<Rightarrow> token list \<Rightarrow> bool \<Rightarrow> coord \<Rightarrow> token set" where
  "priority_set ow tokens replacing c =
     set tokens \<union> set (map fst (filter (\<lambda>(t, e).
       Total e - Analytics e - (if replacing then ptr_get ow e else 0) > 0) (co_counts c)))"

definition yieldAnalytics :: "yield_handler \<Rightarrow> owner \<Rightarrow> token list \<Rightarrow> bool \<Rightarrow> coord \<Rightarrow> coord \<times> tcall list" where
  "yieldAnalytics h ow tokens replacing c =
     (case h of
        None \<Rightarrow> (c, [])
      | Some f \<Rightarrow>
          if ow = OwnerAnalytics then (c, [])
          else (case f (priority_set ow tokens replacing c) of
                  None \<Rightarrow> (c, [])
                | Some ts \<Rightarrow> set_owner_locked OwnerAnalytics (distinctValid ts) c))"

definition SetOwnerTokens :: "yield_handler \<Rightarrow> owner \<Rightarrow> token list \<Rightarrow> coord \<Rightarrow> coord \<times> tcall list" where
  "SetOwnerTokens h ow tokens c =
     (let want = distinctValid tokens;
          (c1, out1) = yieldAnalytics h ow want True c;
          (c2, out2) = set_owner_locked ow want c1
      in (c2, out1 @ out2))"

text \<open>\<^verbatim>\<open>Acquire\<close> from the point where it holds the lock; the id is what the returned \<^verbatim>\<open>Lease\<close> carries.\<close>

definition acquire_locked :: "owner \<Rightarrow> token list \<Rightarrow> coord \<Rightarrow> lease_id \<times> coord \<times> tcall list" where
  "acquire_locked ow unique c =
     (let c1 = c\<lparr>co_leaseSeq := Suc (co_leaseSeq c)\<rparr>;
          i = LeaseSeq ow (co_leaseSeq c1);
          c2 = addLease i \<lparr>l_owner = ow, l_tokens = unique\<rparr> c1;
          (m, sub) = add_tokens ow unique (co_counts c2)
      in (i, c2\<lparr>co_counts := m\<rparr>, if sub \<noteq> [] then [SubscribeTokens sub] else []))"

definition Acquire :: "yield_handler \<Rightarrow> owner \<Rightarrow> token list \<Rightarrow> coord \<Rightarrow> lease_id \<times> coord \<times> tcall list" where
  "Acquire h ow tokens c =
     (let unique = distinctValid tokens;
          (c1, out1) = yieldAnalytics h ow unique False c;
          (i, c2, out2) = acquire_locked ow unique c1
      in (i, c2, out1 @ out2))"

definition ResetForBrokerSwitch :: "coord \<Rightarrow> nat \<times> nat \<times> coord" where
  "ResetForBrokerSwitch c =
     (length (co_counts c), length (co_leases c), c\<lparr>co_counts := [], co_leases := []\<rparr>)"

definition Owns :: "owner \<Rightarrow> token \<Rightarrow> coord \<Rightarrow> bool" where
  "Owns ow t c = (case map_of (co_counts c) t of None \<Rightarrow> False | Some e \<Rightarrow> ptr_get ow e > 0)"

definition ActiveTokens :: "coord \<Rightarrow> token list" where
  "ActiveTokens c = sort (map fst (co_counts c))"

definition Size :: "coord \<Rightarrow> nat" where
  "Size c = length (co_counts c)"

definition CountsFor :: "token \<Rightarrow> coord \<Rightarrow> counts option" where
  "CountsFor t c = map_of (co_counts c) t"

record sub_stats =
  st_browser :: nat
  st_scanner :: nat
  st_strategy :: nat
  st_analytics :: nat
  st_tokens :: nat
  st_leases :: nat
  st_lane :: lane

definition owner_tokens :: "owner \<Rightarrow> coord \<Rightarrow> nat" where
  "owner_tokens ow c = length (filter (\<lambda>(t, e). ptr_get ow e > 0) (co_counts c))"

definition Stats :: "coord \<Rightarrow> sub_stats" where
  "Stats c = \<lparr>st_browser = owner_tokens OwnerBrowser c, st_scanner = owner_tokens OwnerScanner c,
     st_strategy = owner_tokens OwnerStrategy c, st_analytics = owner_tokens OwnerAnalytics c,
     st_tokens = length (co_counts c), st_leases = length (co_leases c), st_lane = co_lane c\<rparr>"

section \<open>Counting tables\<close>

definition held_count :: "count_table \<Rightarrow> owner \<Rightarrow> token \<Rightarrow> int" where
  "held_count m ow t = (case map_of m t of None \<Rightarrow> 0 | Some e \<Rightarrow> ptr_get ow e)"

abbreviation tokens_of :: "count_table \<Rightarrow> token set" where
  "tokens_of m \<equiv> dom (map_of m)"

definition entry_ok :: "counts \<Rightarrow> bool" where
  "entry_ok e \<longleftrightarrow> (\<forall>ow. 0 \<le> ptr_get ow e) \<and> 0 < Total e \<and>
     Total e = Browser e + Scanner e + Strategy e + Analytics e"

definition table_ok :: "count_table \<Rightarrow> bool" where
  "table_ok m \<longleftrightarrow> distinct (map fst m) \<and> (\<forall>t e. map_of m t = Some e \<longrightarrow> entry_ok e)"

declare entry_ok_def [inv_defs] table_ok_def [inv_defs]

lemma all_owner: "(\<forall>ow. P ow) \<longleftrightarrow> P OwnerBrowser \<and> P OwnerScanner \<and> P OwnerStrategy \<and> P OwnerAnalytics"
  by (metis owner.exhaust)

lemma ptr_get_set [simp]: "ptr_get ow' (ptr_set ow n e) = (if ow = ow' then n else ptr_get ow' e)"
  by (cases ow; cases ow') auto

lemma ptr_get_Total [simp]: "ptr_get ow (e\<lparr>Total := n\<rparr>) = ptr_get ow e"
  by (cases ow) auto

lemma Total_ptr_set [simp]: "Total (ptr_set ow n e) = Total e"
  by (cases ow) auto

lemma ptr_get_zero [simp]: "ptr_get ow zero_counts = 0"
  by (cases ow) (auto simp: zero_counts_def)

lemma Total_zero [simp]: "Total zero_counts = 0"
  by (simp add: zero_counts_def)

lemma held_count_nonneg: "table_ok m \<Longrightarrow> 0 \<le> held_count m ow t"
  by (auto simp: table_ok_def entry_ok_def held_count_def split: option.splits)

lemma held_count_pos_dom: "0 < held_count m ow t \<Longrightarrow> t \<in> tokens_of m"
  by (auto simp: held_count_def split: option.splits)

lemma dom_held_count: "table_ok m \<Longrightarrow> t \<in> tokens_of m \<longleftrightarrow> (\<exists>ow. 0 < held_count m ow t)"
proof
  assume ok: "table_ok m" and "t \<in> tokens_of m"
  then obtain e where e: "map_of m t = Some e" "entry_ok e" by (auto simp: table_ok_def)
  show "\<exists>ow. 0 < held_count m ow t"
  proof (rule ccontr)
    assume "\<not> ?thesis"
    then have "\<forall>ow. ptr_get ow e \<le> 0" using e(1) by (auto simp: held_count_def not_less)
    then show False using e(2) by (auto simp: entry_ok_def all_owner)
  qed
qed (auto dest: held_count_pos_dom)

lemma bump_props:
  assumes "table_ok m" "bump ow t m = (m', z)"
  shows "table_ok m'"
    and "held_count m' ow' t' = held_count m ow' t' + (if ow' = ow \<and> t' = t then 1 else 0)"
    and "tokens_of m' = insert t (tokens_of m)"
    and "z \<longleftrightarrow> t \<notin> tokens_of m"
proof -
  let ?e = "case map_of m t of None \<Rightarrow> zero_counts | Some e \<Rightarrow> e"
  let ?e2 = "(ptr_set ow (ptr_get ow ?e + 1) ?e)\<lparr>Total := Total ?e + 1\<rparr>"
  have m': "m' = AList.update t ?e2 m" and z: "z \<longleftrightarrow> Total ?e = 0"
    using assms(2) by (auto simp: bump_def Let_def)
  have e: "?e = zero_counts \<or> entry_ok ?e"
    using assms(1) by (auto simp: table_ok_def split: option.splits)
  have "entry_ok ?e2"
    using e by (cases ow) (auto simp: entry_ok_def all_owner zero_counts_def)
  then show "table_ok m'"
    using assms(1) unfolding table_ok_def m' by (auto simp: update_conv' distinct_update)
  show "tokens_of m' = insert t (tokens_of m)"
    unfolding m' by (simp add: update_conv')
  show "held_count m' ow' t' = held_count m ow' t' + (if ow' = ow \<and> t' = t then 1 else 0)"
    unfolding m' held_count_def by (auto simp: update_conv' split: option.splits)
  show "z \<longleftrightarrow> t \<notin> tokens_of m"
  proof (cases "map_of m t")
    case None
    then show ?thesis unfolding z by (simp add: domIff)
  next
    case (Some e)
    with assms(1) have "0 < Total e" unfolding table_ok_def entry_ok_def by blast
    with Some show ?thesis unfolding z by auto
  qed
qed

lemma add_tokens_props:
  assumes "table_ok m" "distinct ts" "add_tokens ow ts m = (m', sub)"
  shows "table_ok m' \<and> tokens_of m' = tokens_of m \<union> set ts \<and>
    sub = filter (\<lambda>t. t \<notin> tokens_of m) ts \<and>
    (\<forall>ow' t'. held_count m' ow' t' = held_count m ow' t' + (if ow' = ow \<and> t' \<in> set ts then 1 else 0))"
  using assms
proof (induction ts arbitrary: m m' sub)
  case Nil
  then show ?case by simp
next
  case (Cons t ts)
  obtain m1 z where b: "bump ow t m = (m1, z)" by (cases "bump ow t m")
  obtain m2 s2 where a: "add_tokens ow ts m1 = (m2, s2)" by (cases "add_tokens ow ts m1")
  note bp = bump_props [OF Cons.prems(1) b]
  from Cons.IH [OF bp(1) _ a] Cons.prems(2)
  have IH: "table_ok m2" "tokens_of m2 = tokens_of m1 \<union> set ts" "s2 = filter (\<lambda>t. t \<notin> tokens_of m1) ts"
    "\<And>ow' t'. held_count m2 ow' t' = held_count m1 ow' t' + (if ow' = ow \<and> t' \<in> set ts then 1 else 0)"
    by auto
  have res: "m' = m2" "sub = (if z then t # s2 else s2)"
    using Cons.prems(3) by (auto simp: b a)
  have "s2 = filter (\<lambda>t. t \<notin> tokens_of m) ts"
    unfolding IH(3) by (rule filter_cong [OF refl]) (use Cons.prems(2) bp(3) in auto)
  then show ?case
    using IH(1,2,4) bp(2-4) Cons.prems(2) by (auto simp: res)
qed

lemma dec_props:
  assumes "table_ok m" "0 < held_count m ow t" "dec t ow m = (m', g)"
  shows "table_ok m'"
    and "held_count m' ow' t' = held_count m ow' t' - (if ow' = ow \<and> t' = t then 1 else 0)"
    and "tokens_of m' = (if g then tokens_of m - {t} else tokens_of m)"
    and "g \<longleftrightarrow> t \<notin> tokens_of m'"
proof -
  from assms(1,2) obtain e where e: "map_of m t = Some e" "entry_ok e" "0 < ptr_get ow e"
    by (auto simp: held_count_def table_ok_def split: option.splits)
  let ?e2 = "(ptr_set ow (ptr_get ow e - 1) e)\<lparr>Total := Total e - 1\<rparr>"
  have "0 < Total e" using e(2) by (simp add: entry_ok_def)
  then have res: "(m', g) = (if Total e = 1 then (AList.delete t m, True) else (AList.update t ?e2 m, False))"
    using assms(3) e by (auto simp: dec_def Let_def split: if_splits)
  have dist: "distinct (map fst m)" and all: "\<And>t e. map_of m t = Some e \<Longrightarrow> entry_ok e"
    using assms(1) by (auto simp: table_ok_def)
  show "table_ok m'"
  proof (cases "Total e = 1")
    case True
    with res dist all show ?thesis
      by (auto simp: table_ok_def delete_conv' distinct_delete split: if_splits)
  next
    case False
    have "entry_ok ?e2"
      using e(2,3) False by (cases ow) (auto simp: entry_ok_def all_owner)
    with False res dist all show ?thesis
      by (auto simp: table_ok_def update_conv' distinct_update split: if_splits)
  qed
  have zero: "ptr_get ow' e = (if ow' = ow then 1 else 0)" if "Total e = 1" for ow'
    using that e(2,3) by (cases ow; cases ow') (auto simp: entry_ok_def all_owner)
  show "held_count m' ow' t' = held_count m ow' t' - (if ow' = ow \<and> t' = t then 1 else 0)"
    using res e(1) zero [of ow'] unfolding held_count_def
    by (auto simp: delete_conv' update_conv' split: if_splits)
  show "tokens_of m' = (if g then tokens_of m - {t} else tokens_of m)" "g \<longleftrightarrow> t \<notin> tokens_of m'"
    using res e(1) by (auto simp: delete_conv' update_conv' split: if_splits)
qed

lemma drop_tokens_props:
  assumes "table_ok m" "distinct ts" "\<forall>t \<in> set ts. 0 < held_count m ow t" "drop_tokens ow ts m = (m', unsub)"
  shows "table_ok m' \<and> tokens_of m' = tokens_of m - set unsub \<and>
    set unsub = {t \<in> set ts. t \<notin> tokens_of m'} \<and> distinct unsub \<and>
    (\<forall>ow' t'. held_count m' ow' t' = held_count m ow' t' - (if ow' = ow \<and> t' \<in> set ts then 1 else 0))"
  using assms
proof (induction ts arbitrary: m m' unsub)
  case Nil
  then show ?case by simp
next
  case (Cons t ts)
  obtain m1 g where d: "dec t ow m = (m1, g)" by (cases "dec t ow m")
  obtain m2 u2 where a: "drop_tokens ow ts m1 = (m2, u2)" by (cases "drop_tokens ow ts m1")
  have pos: "0 < held_count m ow t" using Cons.prems(3) by simp
  note dp = dec_props [OF Cons.prems(1) pos d]
  have "\<forall>t' \<in> set ts. 0 < held_count m1 ow t'"
    using Cons.prems(2,3) by (auto simp: dp(2))
  have dts: "distinct ts" using Cons.prems(2) by simp
  from Cons.IH [OF dp(1) dts \<open>\<forall>t' \<in> set ts. 0 < held_count m1 ow t'\<close> a]
  have IH: "table_ok m2" "tokens_of m2 = tokens_of m1 - set u2" "set u2 = {t \<in> set ts. t \<notin> tokens_of m2}" "distinct u2"
    "\<And>ow' t'. held_count m2 ow' t' = held_count m1 ow' t' - (if ow' = ow \<and> t' \<in> set ts then 1 else 0)"
    by blast+
  have res: "m' = m2" "unsub = (if g then t # u2 else u2)"
    using Cons.prems(4) by (auto simp: d a)
  have tin: "t \<in> tokens_of m" by (rule held_count_pos_dom [OF pos])
  have notin: "t \<notin> set u2" and nts: "t \<notin> set ts" using IH(3) Cons.prems(2) by auto
  have dom: "tokens_of m' = tokens_of m - set unsub"
    using IH(2) dp(3) by (auto simp: res)
  have "set unsub = {x \<in> set (t # ts). x \<notin> tokens_of m'}"
  proof -
    have "t \<notin> tokens_of m2 \<longleftrightarrow> g" using IH(2) dp(4) notin by blast
    then show ?thesis using IH(3) nts by (auto simp: res)
  qed
  moreover have "held_count m' ow' t' = held_count m ow' t' - (if ow' = ow \<and> t' \<in> set (t # ts) then 1 else 0)" for ow' t'
    using IH(5) [of ow' t'] dp(2) [of ow' t'] nts by (auto simp: res)
  moreover have "distinct unsub" using IH(4) notin by (simp add: res)
  ultimately show ?case using IH(1) dom res(1) by blast
qed

section \<open>Leases\<close>

definition lease_holds :: "owner \<Rightarrow> token \<Rightarrow> lease_id \<times> lease \<Rightarrow> bool" where
  "lease_holds ow t p \<longleftrightarrow> l_owner (snd p) = ow \<and> t \<in> set (l_tokens (snd p))"

definition lease_count :: "owner \<Rightarrow> token \<Rightarrow> (lease_id \<times> lease) list \<Rightarrow> nat" where
  "lease_count ow t ls = length (filter (lease_holds ow t) ls)"

fun lease_id_owner :: "lease_id \<Rightarrow> owner" where
  "lease_id_owner (LeaseSeq ow _) = ow"
| "lease_id_owner (LeaseSet ow) = ow"

definition lease_ok :: "nat \<Rightarrow> lease_id \<times> lease \<Rightarrow> bool" where
  "lease_ok s p \<longleftrightarrow> l_owner (snd p) = lease_id_owner (fst p) \<and> distinct (l_tokens (snd p)) \<and>
     (\<forall>t \<in> set (l_tokens (snd p)). 0 < t) \<and> (\<forall>ow n. fst p = LeaseSeq ow n \<longrightarrow> n \<le> s)"

text \<open>
  The invariant of every use: the counts are consistent, and no owner's count of a token
  is below the number of that owner's leases holding it.
\<close>

definition coord_ok :: "coord \<Rightarrow> bool" where
  "coord_ok c \<longleftrightarrow> table_ok (co_counts c) \<and> distinct (map fst (co_leases c)) \<and>
     list_all (lease_ok (co_leaseSeq c)) (co_leases c) \<and>
     (\<forall>ow t. int (lease_count ow t (co_leases c)) \<le> held_count (co_counts c) ow t)"

text \<open>
  The invariant of disciplined use: every owner either acquires leases or declares its
  whole set (the owners in \<open>S\<close>), never both; then the counts are exact.
\<close>

definition coord_exact :: "owner set \<Rightarrow> coord \<Rightarrow> bool" where
  "coord_exact S c \<longleftrightarrow>
     (\<forall>ow t. int (lease_count ow t (co_leases c)) = held_count (co_counts c) ow t) \<and>
     (\<forall>p \<in> set (co_leases c). (\<exists>ow. fst p = LeaseSet ow) \<longleftrightarrow> l_owner (snd p) \<in> S)"

declare coord_ok_def [inv_defs] coord_exact_def [inv_defs]

lemma update_fresh: "i \<notin> fst ` set ls \<Longrightarrow> AList.update i l ls = ls @ [(i, l)]"
  by (induction ls) auto

lemma lease_count_append [simp]: "lease_count ow t (ls @ ls') = lease_count ow t ls + lease_count ow t ls'"
  by (simp add: lease_count_def)

lemma lease_count_Nil [simp]: "lease_count ow t [] = 0"
  by (simp add: lease_count_def)

lemma lease_count_single [simp]: "lease_count ow t [p] = (if lease_holds ow t p then 1 else 0)"
  by (simp add: lease_count_def)

lemma lease_count_pos: "0 < lease_count ow t ls \<longleftrightarrow> (\<exists>p \<in> set ls. lease_holds ow t p)"
  by (auto simp: lease_count_def filter_empty_conv)

lemma lease_count_delete:
  assumes "distinct (map fst ls)" "map_of ls i = Some l"
  shows "lease_count ow t ls = lease_count ow t (AList.delete i ls) + (if lease_holds ow t (i, l) then 1 else 0)"
  using assms
proof (induction ls)
  case Nil
  then show ?case by simp
next
  case (Cons p ls)
  show ?case
  proof (cases "fst p = i")
    case True
    with Cons.prems have "p = (i, l)" "AList.delete i ls = ls"
      by (cases p; auto simp: delete_idem)+
    then show ?thesis by (auto simp: lease_count_def)
  next
    case False
    with Cons show ?thesis by (cases p) (auto simp: lease_count_def)
  qed
qed

lemma lease_count_other_owner:
  "lease_count ow' t (filter (\<lambda>p. l_owner (snd p) \<noteq> ow) ls) = (if ow' = ow then 0 else lease_count ow' t ls)"
proof (cases "ow' = ow")
  case True
  then show ?thesis by (auto simp: lease_count_def lease_holds_def filter_empty_conv)
next
  case False
  then have "filter (lease_holds ow' t) (filter (\<lambda>p. l_owner (snd p) \<noteq> ow) ls) = filter (lease_holds ow' t) ls"
    by (auto simp: lease_holds_def intro: filter_cong)
  with False show ?thesis by (simp add: lease_count_def)
qed

lemma collect_held_props:
  assumes "collect_held ow ls held c = (held', c')"
  shows "set held' = set held \<union> {t. \<exists>p \<in> set ls. lease_holds ow t p} \<and> (distinct held \<longrightarrow> distinct held') \<and>
    c' = c\<lparr>co_leases := filter (\<lambda>p. \<not> (\<exists>l. (fst p, l) \<in> set ls \<and> l_owner l = ow)) (co_leases c)\<rparr>"
  using assms
proof (induction ow ls held c rule: collect_held.induct)
  case (1 ow held c)
  then show ?case by simp
next
  case (2 ow i l ls held c)
  show ?case
  proof (cases "l_owner l \<noteq> ow")
    case True
    have "filter (\<lambda>p. \<not> (\<exists>l'. (fst p, l') \<in> set ((i, l) # ls) \<and> l_owner l' = ow)) (co_leases c) =
        filter (\<lambda>p. \<not> (\<exists>l. (fst p, l) \<in> set ls \<and> l_owner l = ow)) (co_leases c)"
      using True by (intro filter_cong) auto
    with True "2.IH"(1) [OF True] "2.prems" show ?thesis
      by (auto simp: lease_holds_def)
  next
    case False
    with "2.IH"(2) [OF False] "2.prems"
    have IH: "set held' = set (held @ nub_acc held (l_tokens l)) \<union> {t. \<exists>p \<in> set ls. lease_holds ow t p}"
      "distinct (held @ nub_acc held (l_tokens l)) \<longrightarrow> distinct held'"
      "c' = (removeLease i c)\<lparr>co_leases := filter (\<lambda>p. \<not> (\<exists>l. (fst p, l) \<in> set ls \<and> l_owner l = ow))
          (co_leases (removeLease i c))\<rparr>"
      by auto
    have "set held' = set held \<union> {t. \<exists>p \<in> set ((i, l) # ls). lease_holds ow t p}"
      using False unfolding IH(1) by (auto simp: set_nub_acc lease_holds_def)
    moreover have "distinct held \<longrightarrow> distinct held'"
      using IH(2) by (auto simp: distinct_nub_acc set_nub_acc)
    moreover have "c' = c\<lparr>co_leases := filter (\<lambda>p. \<not> (\<exists>l'. (fst p, l') \<in> set ((i, l) # ls) \<and> l_owner l' = ow)) (co_leases c)\<rparr>"
    proof -
      have "filter (\<lambda>p. \<not> (\<exists>l. (fst p, l) \<in> set ls \<and> l_owner l = ow)) (co_leases (removeLease i c)) =
          filter (\<lambda>p. \<not> (\<exists>l'. (fst p, l') \<in> set ((i, l) # ls) \<and> l_owner l' = ow)) (co_leases c)"
        using False by (auto simp: removeLease_def AList.delete_eq case_prod_beta intro!: filter_cong)
      then show ?thesis unfolding IH(3) by (simp add: removeLease_def)
    qed
    ultimately show ?thesis by blast
  qed
qed

text \<open>With unique ids, the loop removes exactly the owner's leases.\<close>

lemma collect_held_leases:
  assumes "distinct (map fst (co_leases c))" "collect_held ow (co_leases c) [] c = (held, c')"
  shows "c' = c\<lparr>co_leases := filter (\<lambda>p. l_owner (snd p) \<noteq> ow) (co_leases c)\<rparr>"
    and "set held = {t. 0 < lease_count ow t (co_leases c)}"
    and "distinct held"
proof -
  have "(\<exists>l. (fst p, l) \<in> set (co_leases c) \<and> l_owner l = ow) \<longleftrightarrow> l_owner (snd p) = ow"
    if "p \<in> set (co_leases c)" for p
    using that assms(1) by (metis eq_key_imp_eq_value prod.collapse)
  then have "filter (\<lambda>p. \<not> (\<exists>l. (fst p, l) \<in> set (co_leases c) \<and> l_owner l = ow)) (co_leases c) =
      filter (\<lambda>p. l_owner (snd p) \<noteq> ow) (co_leases c)"
    by (intro filter_cong) auto
  with collect_held_props [OF assms(2)] show "c' = c\<lparr>co_leases := filter (\<lambda>p. l_owner (snd p) \<noteq> ow) (co_leases c)\<rparr>"
    "set held = {t. 0 < lease_count ow t (co_leases c)}" "distinct held"
    by (auto simp: lease_count_pos)
qed

section \<open>What the transport sees\<close>

text \<open>
  The upstream subscription set driven by the transport calls. A call that is not a
  transition (subscribing a token already subscribed, dropping one that is not, an empty
  or repeating list) makes the run fail.
\<close>

fun wire_run :: "token set \<Rightarrow> tcall list \<Rightarrow> token set option" where
  "wire_run S [] = Some S"
| "wire_run S (SubscribeTokens ts # cs) =
     (if ts \<noteq> [] \<and> distinct ts \<and> set ts \<inter> S = {} then wire_run (S \<union> set ts) cs else None)"
| "wire_run S (UnsubscribeTokens ts # cs) =
     (if ts \<noteq> [] \<and> distinct ts \<and> set ts \<subseteq> S then wire_run (S - set ts) cs else None)"

lemma wire_run_append: "wire_run S (xs @ ys) = Option.bind (wire_run S xs) (\<lambda>S'. wire_run S' ys)"
  by (induction S xs rule: wire_run.induct) auto

lemma wire_sub:
  "distinct ts \<Longrightarrow> sub = filter (\<lambda>t. t \<notin> S) ts \<Longrightarrow>
   wire_run S (if sub \<noteq> [] then [SubscribeTokens sub] else []) = Some (S \<union> set ts)"
  by (cases "sub = []") (auto dest: sym simp: filter_empty_conv)

lemma wire_unsub:
  "distinct unsub \<Longrightarrow> set unsub \<subseteq> S \<Longrightarrow>
   wire_run S (if unsub \<noteq> [] then [UnsubscribeTokens unsub] else []) = Some (S - set unsub)"
  by (cases "unsub = []") simp_all

lemma distinctValid_props [simp]: "distinct (distinctValid ts)" "t \<in> set (distinctValid ts) \<longleftrightarrow> t \<in> set ts \<and> 0 < t"
  by (auto simp: distinctValid_def)

lemma coord_okD:
  assumes "coord_ok c"
  shows "table_ok (co_counts c)" "distinct (map fst (co_leases c))" "list_all (lease_ok (co_leaseSeq c)) (co_leases c)"
    "int (lease_count ow t (co_leases c)) \<le> held_count (co_counts c) ow t"
  using assms by (auto simp: coord_ok_def)

lemma set_lease_fresh:
  assumes "coord_ok c"
  shows "LeaseSet ow \<notin> fst ` set (filter (\<lambda>p. l_owner (snd p) \<noteq> ow) (co_leases c))"
  using coord_okD(3) [OF assms] by (fastforce simp: list_all_iff lease_ok_def)

text \<open>The two loops of \<^verbatim>\<open>SetOwnerTokens\<close>: drop what is no longer wanted, then add what is new.\<close>

lemma replace_tokens_props:
  assumes "table_ok m" "distinct held" "distinct want" "\<forall>t \<in> set held. 0 < held_count m ow t"
    and dr: "drop_tokens ow (filter (\<lambda>t. t \<notin> set want) held) m = (m1, unsub)"
    and ad: "add_tokens ow (filter (\<lambda>t. t \<notin> set held) want) m1 = (m2, sub)"
  shows "table_ok m2"
    and "held_count m2 ow' t = held_count m ow' t + (if ow' = ow then
      (if t \<in> set want \<and> t \<notin> set held then 1 else 0) - (if t \<notin> set want \<and> t \<in> set held then 1 else 0) else 0)"
    and "wire_run (tokens_of m) ((if unsub \<noteq> [] then [UnsubscribeTokens unsub] else []) @
      (if sub \<noteq> [] then [SubscribeTokens sub] else [])) = Some (tokens_of m2)"
proof -
  let ?drop = "filter (\<lambda>t. t \<notin> set want) held" and ?add = "filter (\<lambda>t. t \<notin> set held) want"
  have "distinct ?drop" "\<forall>t \<in> set ?drop. 0 < held_count m ow t" using assms(2,4) by auto
  from drop_tokens_props [OF assms(1) this dr]
  have drp: "table_ok m1" "tokens_of m1 = tokens_of m - set unsub" "distinct unsub" "set unsub \<subseteq> set ?drop"
      "\<And>ow' t. held_count m1 ow' t = held_count m ow' t - (if ow' = ow \<and> t \<in> set ?drop then 1 else 0)"
    by blast+
  have adp: "table_ok m2" "tokens_of m2 = tokens_of m1 \<union> set ?add" "sub = filter (\<lambda>t. t \<notin> tokens_of m1) ?add"
      "\<And>ow' t. held_count m2 ow' t = held_count m1 ow' t + (if ow' = ow \<and> t \<in> set ?add then 1 else 0)"
    using add_tokens_props [OF drp(1) _ ad] assms(3) by auto
  show "table_ok m2" by (rule adp(1))
  show "held_count m2 ow' t = held_count m ow' t + (if ow' = ow then
      (if t \<in> set want \<and> t \<notin> set held then 1 else 0) - (if t \<notin> set want \<and> t \<in> set held then 1 else 0) else 0)"
    unfolding adp(4) drp(5) by auto
  have "set unsub \<subseteq> tokens_of m"
    using drp(4) assms(4) held_count_pos_dom by fastforce
  then have "wire_run (tokens_of m) (if unsub \<noteq> [] then [UnsubscribeTokens unsub] else []) = Some (tokens_of m1)"
    unfolding drp(2) by (rule wire_unsub [OF drp(3)])
  moreover have "wire_run (tokens_of m1) (if sub \<noteq> [] then [SubscribeTokens sub] else []) = Some (tokens_of m2)"
    unfolding adp(2) using assms(3) by (intro wire_sub adp(3)) simp
  ultimately show "wire_run (tokens_of m) ((if unsub \<noteq> [] then [UnsubscribeTokens unsub] else []) @
      (if sub \<noteq> [] then [SubscribeTokens sub] else [])) = Some (tokens_of m2)"
    by (simp only: wire_run_append Option.bind.bind_lunit)
qed

text \<open>Declaring an owner's set: the new leases, the new counts and the transport calls.\<close>

lemma set_owner_locked_effect:
  assumes ok: "coord_ok c" and d: "distinct want" and res: "set_owner_locked ow want c = (c', out)"
  shows "table_ok (co_counts c')" "co_leaseSeq c' = co_leaseSeq c"
    and "wire_run (tokens_of (co_counts c)) out = Some (tokens_of (co_counts c'))"
    and "co_leases c' = filter (\<lambda>p. l_owner (snd p) \<noteq> ow) (co_leases c) @
      (if want = [] then [] else [(LeaseSet ow, \<lparr>l_owner = ow, l_tokens = want\<rparr>)])"
    and "held_count (co_counts c') ow' t = held_count (co_counts c) ow' t +
      (if ow' = ow then (if t \<in> set want \<and> lease_count ow t (co_leases c) = 0 then 1 else 0) -
         (if t \<notin> set want \<and> 0 < lease_count ow t (co_leases c) then 1 else 0) else 0)"
proof -
  obtain held c1 where ch: "collect_held ow (co_leases c) [] c = (held, c1)"
    by (cases "collect_held ow (co_leases c) [] c")
  note chp = collect_held_leases [OF coord_okD(2) [OF ok] ch]
  obtain m1 unsub where dr: "drop_tokens ow (filter (\<lambda>t. t \<notin> set want) held) (co_counts c) = (m1, unsub)"
    by fastforce
  obtain m2 sub where ad: "add_tokens ow (filter (\<lambda>t. t \<notin> set held) want) m1 = (m2, sub)"
    by fastforce
  have "0 < held_count (co_counts c) ow t" if "t \<in> set held" for t
    using that coord_okD(4) [OF ok, of ow t] by (simp add: chp(2))
  then have "\<forall>t \<in> set held. 0 < held_count (co_counts c) ow t" by blast
  note rp = replace_tokens_props [OF coord_okD(1) [OF ok] chp(3) d this dr ad]
  have eqs: "co_counts c' = m2" "co_leaseSeq c' = co_leaseSeq c"
    "co_leases c' = filter (\<lambda>p. l_owner (snd p) \<noteq> ow) (co_leases c) @
      (if want = [] then [] else [(LeaseSet ow, \<lparr>l_owner = ow, l_tokens = want\<rparr>)])"
    "out = (if unsub \<noteq> [] then [UnsubscribeTokens unsub] else []) @ (if sub \<noteq> [] then [SubscribeTokens sub] else [])"
    using res set_lease_fresh [OF ok] by (auto simp: set_owner_locked_def ch chp(1) dr ad Let_def addLease_def update_fresh)
  show "table_ok (co_counts c')" "co_leaseSeq c' = co_leaseSeq c"
    "co_leases c' = filter (\<lambda>p. l_owner (snd p) \<noteq> ow) (co_leases c) @
      (if want = [] then [] else [(LeaseSet ow, \<lparr>l_owner = ow, l_tokens = want\<rparr>)])"
    using rp(1) eqs by simp_all
  show "wire_run (tokens_of (co_counts c)) out = Some (tokens_of (co_counts c'))"
    using rp(3) by (simp only: eqs)
  show "held_count (co_counts c') ow' t = held_count (co_counts c) ow' t +
      (if ow' = ow then (if t \<in> set want \<and> lease_count ow t (co_leases c) = 0 then 1 else 0) -
         (if t \<notin> set want \<and> 0 < lease_count ow t (co_leases c) then 1 else 0) else 0)"
    unfolding eqs(1) rp(2) by (auto simp: chp(2))
qed

lemma set_owner_locked_ok:
  assumes ok: "coord_ok c" and d: "distinct want" and pos: "\<forall>t \<in> set want. 0 < t"
    and res: "set_owner_locked ow want c = (c', out)"
  shows "coord_ok c'"
proof -
  note eff = set_owner_locked_effect [OF ok d res]
  have "distinct (map fst (co_leases c'))"
    using coord_okD(2) [OF ok] set_lease_fresh [OF ok] unfolding eff(4) by (auto simp: distinct_map_filter)
  moreover have "list_all (lease_ok (co_leaseSeq c')) (co_leases c')"
    using coord_okD(3) [OF ok] d pos unfolding eff(2,4) by (auto simp: list_all_iff lease_ok_def)
  moreover have "int (lease_count ow' t (co_leases c')) \<le> held_count (co_counts c') ow' t" for ow' t
    using eff(5) [of ow' t] coord_okD(4) [OF ok, of ow' t] held_count_nonneg [OF eff(1), of ow' t]
    by (auto simp: eff(4) lease_count_other_owner lease_holds_def split: if_splits)
  ultimately show ?thesis using eff(1) by (simp add: coord_ok_def)
qed

lemma acquire_locked_effect:
  assumes ok: "coord_ok c" and d: "distinct unique" and res: "acquire_locked ow unique c = (i, c', out)"
  shows "i = LeaseSeq ow (Suc (co_leaseSeq c))" "co_leaseSeq c' = Suc (co_leaseSeq c)" "table_ok (co_counts c')"
    and "co_leases c' = co_leases c @ [(i, \<lparr>l_owner = ow, l_tokens = unique\<rparr>)]"
    and "held_count (co_counts c') ow' t = held_count (co_counts c) ow' t + (if ow' = ow \<and> t \<in> set unique then 1 else 0)"
    and "wire_run (tokens_of (co_counts c)) out = Some (tokens_of (co_counts c'))"
proof -
  obtain m sub where ad: "add_tokens ow unique (co_counts c) = (m, sub)" by fastforce
  note adp = add_tokens_props [OF coord_okD(1) [OF ok] d ad]
  have fresh: "LeaseSeq ow (Suc (co_leaseSeq c)) \<notin> fst ` set (co_leases c)"
    using coord_okD(3) [OF ok] by (fastforce simp: list_all_iff lease_ok_def)
  from res fresh show "i = LeaseSeq ow (Suc (co_leaseSeq c))" "co_leaseSeq c' = Suc (co_leaseSeq c)"
      "co_leases c' = co_leases c @ [(i, \<lparr>l_owner = ow, l_tokens = unique\<rparr>)]"
    by (auto simp: acquire_locked_def Let_def addLease_def ad update_fresh)
  have eqs: "co_counts c' = m" "out = (if sub \<noteq> [] then [SubscribeTokens sub] else [])"
    using res by (auto simp: acquire_locked_def Let_def addLease_def ad)
  show "table_ok (co_counts c')" using adp by (simp add: eqs)
  show "held_count (co_counts c') ow' t = held_count (co_counts c) ow' t + (if ow' = ow \<and> t \<in> set unique then 1 else 0)"
    using adp by (simp add: eqs)
  show "wire_run (tokens_of (co_counts c)) out = Some (tokens_of (co_counts c'))"
    using adp wire_sub [OF d] unfolding eqs by simp
qed

lemma acquire_locked_ok:
  assumes ok: "coord_ok c" and d: "distinct unique" and pos: "\<forall>t \<in> set unique. 0 < t"
    and res: "acquire_locked ow unique c = (i, c', out)"
  shows "coord_ok c'"
proof -
  note eff = acquire_locked_effect [OF ok d res]
  have "i \<notin> fst ` set (co_leases c)"
    using coord_okD(3) [OF ok] unfolding eff(1) by (fastforce simp: list_all_iff lease_ok_def)
  then have "distinct (map fst (co_leases c'))"
    using coord_okD(2) [OF ok] by (simp add: eff(4))
  moreover have "list_all (lease_ok (co_leaseSeq c')) (co_leases c')"
    using coord_okD(3) [OF ok] d pos by (fastforce simp: eff(1,2,4) list_all_iff lease_ok_def)
  moreover have "int (lease_count ow' t (co_leases c')) \<le> held_count (co_counts c') ow' t" for ow' t
    using coord_okD(4) [OF ok, of ow' t] by (auto simp: eff(4,5) lease_holds_def)
  ultimately show ?thesis using eff(3) by (simp add: coord_ok_def)
qed

lemma releaseLease_effect:
  assumes ok: "coord_ok c" and l: "map_of (co_leases c) i = Some l" and res: "releaseLease i c = (c', out)"
  shows "co_leaseSeq c' = co_leaseSeq c" "table_ok (co_counts c')" "co_leases c' = AList.delete i (co_leases c)"
    and "held_count (co_counts c') ow t = held_count (co_counts c) ow t - (if lease_holds ow t (i, l) then 1 else 0)"
    and "wire_run (tokens_of (co_counts c)) out = Some (tokens_of (co_counts c'))"
proof -
  obtain m unsub where dr: "drop_tokens (l_owner l) (l_tokens l) (co_counts c) = (m, unsub)" by fastforce
  have lok: "lease_ok (co_leaseSeq c) (i, l)"
    using coord_okD(3) [OF ok] map_of_SomeD [OF l] by (auto simp: list_all_iff)
  have pos: "0 < held_count (co_counts c) (l_owner l) t" if "t \<in> set (l_tokens l)" for t
  proof -
    have "0 < lease_count (l_owner l) t (co_leases c)"
      unfolding lease_count_pos using that map_of_SomeD [OF l] by (force simp: lease_holds_def)
    then show ?thesis using coord_okD(4) [OF ok, of "l_owner l" t] by linarith
  qed
  have "distinct (l_tokens l)" "\<forall>t \<in> set (l_tokens l). 0 < held_count (co_counts c) (l_owner l) t"
    using lok pos by (auto simp: lease_ok_def)
  from drop_tokens_props [OF coord_okD(1) [OF ok] this dr]
  have drp: "table_ok m" "tokens_of m = tokens_of (co_counts c) - set unsub" "distinct unsub" "set unsub \<subseteq> set (l_tokens l)"
      "\<And>ow' t. held_count m ow' t = held_count (co_counts c) ow' t - (if ow' = l_owner l \<and> t \<in> set (l_tokens l) then 1 else 0)"
    by blast+
  from res l show "co_leaseSeq c' = co_leaseSeq c" "co_leases c' = AList.delete i (co_leases c)"
    by (auto simp: releaseLease_def removeLease_def dr Let_def)
  have eqs: "co_counts c' = m" "out = (if unsub \<noteq> [] then [UnsubscribeTokens unsub] else [])"
    using res l by (auto simp: releaseLease_def removeLease_def dr Let_def)
  show "table_ok (co_counts c')" by (simp add: eqs drp(1))
  show "held_count (co_counts c') ow t = held_count (co_counts c) ow t - (if lease_holds ow t (i, l) then 1 else 0)"
    by (auto simp: eqs drp(5) lease_holds_def)
  have "set unsub \<subseteq> tokens_of (co_counts c)"
    using drp(4) held_count_pos_dom [OF pos] by blast
  then show "wire_run (tokens_of (co_counts c)) out = Some (tokens_of (co_counts c'))"
    unfolding eqs drp(2) by (rule wire_unsub [OF drp(3)])
qed

lemma releaseLease_None [simp]: "map_of (co_leases c) i = None \<Longrightarrow> releaseLease i c = (c, [])"
  by (simp add: releaseLease_def)

lemma releaseLease_ok:
  assumes ok: "coord_ok c" and l: "map_of (co_leases c) i = Some l" and res: "releaseLease i c = (c', out)"
  shows "coord_ok c'"
proof -
  note eff = releaseLease_effect [OF ok l res]
  have "distinct (map fst (co_leases c'))"
    using coord_okD(2) [OF ok] by (simp add: eff(3) distinct_delete)
  moreover have "list_all (lease_ok (co_leaseSeq c')) (co_leases c')"
    using coord_okD(3) [OF ok] by (fastforce simp: eff(1,3) list_all_iff AList.delete_eq)
  moreover have "int (lease_count ow t (co_leases c')) \<le> held_count (co_counts c') ow t" for ow t
    using coord_okD(4) [OF ok, of ow t] lease_count_delete [OF coord_okD(2) [OF ok] l, of ow t]
    by (auto simp: eff(3,4) split: if_splits)
  ultimately show ?thesis using eff(2) by (simp add: coord_ok_def)
qed

section \<open>The coordinator with its transport\<close>

datatype coord_op =
    OpAcquire owner "token list"
  | OpRelease lease_id
  | OpSet owner "token list"
  | OpReset

text \<open>
  One public operation on the coordinator and its effect on the upstream subscription
  set. The reset tells the transport nothing: the broker switch has stopped the lane's
  socket before (\<^verbatim>\<open>registry.SwitchTo\<close>, steps 2 and 3), so nothing is subscribed then.
\<close>

fun coord_step :: "yield_handler \<Rightarrow> coord \<times> token set option \<Rightarrow> coord_op \<Rightarrow> coord \<times> token set option" where
  "coord_step h (c, up) (OpAcquire ow ts) =
     (let (i, c', out) = Acquire h ow ts c in (c', Option.bind up (\<lambda>S. wire_run S out)))"
| "coord_step h (c, up) (OpRelease i) =
     (let (c', out) = releaseLease i c in (c', Option.bind up (\<lambda>S. wire_run S out)))"
| "coord_step h (c, up) (OpSet ow ts) =
     (let (c', out) = SetOwnerTokens h ow ts c in (c', Option.bind up (\<lambda>S. wire_run S out)))"
| "coord_step h (c, up) OpReset = (let (n, k, c') = ResetForBrokerSwitch c in (c', Some {}))"

definition sys_ok :: "coord \<times> token set option \<Rightarrow> bool" where
  "sys_ok s \<longleftrightarrow> coord_ok (fst s) \<and> snd s = Some (tokens_of (co_counts (fst s)))"

lemma valid_distinct: "distinct (distinctValid ts)" "\<forall>t \<in> set (distinctValid ts). 0 < t"
  by simp_all

lemma yieldAnalytics_ok:
  assumes "coord_ok c" "yieldAnalytics h ow ts r c = (c', out)"
  shows "coord_ok c' \<and> wire_run (tokens_of (co_counts c)) out = Some (tokens_of (co_counts c'))"
proof -
  consider "c' = c" "out = []" | us where "set_owner_locked OwnerAnalytics (distinctValid us) c = (c', out)"
    using assms(2) unfolding yieldAnalytics_def
    by (cases h; cases "ow = OwnerAnalytics"; cases "the h (priority_set ow ts r c)") simp_all
  then show ?thesis
  proof cases
    case 1
    then show ?thesis using assms(1) by simp
  next
    case (2 us)
    show ?thesis
      using set_owner_locked_ok [OF assms(1) valid_distinct 2] set_owner_locked_effect(3) [OF assms(1) valid_distinct(1) 2]
      by blast
  qed
qed

lemma SetOwnerTokens_ok:
  assumes "coord_ok c" "SetOwnerTokens h ow ts c = (c', out)"
  shows "coord_ok c' \<and> wire_run (tokens_of (co_counts c)) out = Some (tokens_of (co_counts c'))"
proof -
  obtain c1 o1 where y: "yieldAnalytics h ow (distinctValid ts) True c = (c1, o1)" by fastforce
  obtain o2 where sl: "set_owner_locked ow (distinctValid ts) c1 = (c', o2)" and out: "out = o1 @ o2"
    using assms(2) by (auto simp: SetOwnerTokens_def y Let_def split: prod.splits)
  note y1 = yieldAnalytics_ok [OF assms(1) y]
  then show ?thesis
    using set_owner_locked_ok [OF _ valid_distinct sl] set_owner_locked_effect(3) [OF _ valid_distinct(1) sl]
    by (simp add: out wire_run_append)
qed

lemma Acquire_ok:
  assumes "coord_ok c" "Acquire h ow ts c = (i, c', out)"
  shows "coord_ok c' \<and> wire_run (tokens_of (co_counts c)) out = Some (tokens_of (co_counts c'))"
proof -
  obtain c1 o1 where y: "yieldAnalytics h ow (distinctValid ts) False c = (c1, o1)" by fastforce
  obtain o2 where al: "acquire_locked ow (distinctValid ts) c1 = (i, c', o2)" and out: "out = o1 @ o2"
    using assms(2) by (auto simp: Acquire_def y Let_def split: prod.splits)
  note y1 = yieldAnalytics_ok [OF assms(1) y]
  then show ?thesis
    using acquire_locked_ok [OF _ valid_distinct al] acquire_locked_effect(6) [OF _ valid_distinct(1) al]
    by (simp add: out wire_run_append)
qed

lemma release_ok:
  assumes "coord_ok c" "releaseLease i c = (c', out)"
  shows "coord_ok c' \<and> wire_run (tokens_of (co_counts c)) out = Some (tokens_of (co_counts c'))"
proof (cases "map_of (co_leases c) i")
  case None
  then show ?thesis using assms by simp
next
  case (Some l)
  then show ?thesis
    using releaseLease_ok [OF assms(1) Some assms(2)] releaseLease_effect(5) [OF assms(1) Some assms(2)] by blast
qed

lemma coord_ok_empty: "coord_ok (c\<lparr>co_counts := [], co_leases := []\<rparr>)"
  by (simp add: coord_ok_def table_ok_def held_count_def)

lemma coord_step_ok: "sys_ok s \<Longrightarrow> sys_ok (coord_step h s op)"
proof (cases s)
  fix c up assume s: "s = (c, up)" and "sys_ok s"
  then have ok: "coord_ok c" "up = Some (tokens_of (co_counts c))" by (auto simp: sys_ok_def)
  show ?thesis
  proof (cases op)
    case (OpAcquire ow ts)
    obtain i c' out where "Acquire h ow ts c = (i, c', out)" by (cases "Acquire h ow ts c")
    with Acquire_ok [OF ok(1) this] show ?thesis by (simp add: s OpAcquire ok(2) sys_ok_def)
  next
    case (OpRelease i)
    obtain c' out where "releaseLease i c = (c', out)" by fastforce
    with release_ok [OF ok(1) this] show ?thesis by (simp add: s OpRelease ok(2) sys_ok_def)
  next
    case (OpSet ow ts)
    obtain c' out where "SetOwnerTokens h ow ts c = (c', out)" by fastforce
    with SetOwnerTokens_ok [OF ok(1) this] show ?thesis by (simp add: s OpSet ok(2) sys_ok_def)
  next
    case OpReset
    then show ?thesis by (simp add: s ResetForBrokerSwitch_def sys_ok_def coord_ok_empty)
  qed
qed

interpretation coord_run: step_system "coord_step h" sys_ok for h
  by unfold_locales (rule coord_step_ok)

lemma sys_ok_new: "sys_ok (NewCoordinator l, Some {})"
  by (simp add: sys_ok_def NewCoordinator_def coord_ok_def table_ok_def held_count_def)

section \<open>Disciplined use: exact counts\<close>

lemma exactD:
  assumes "coord_exact S c"
  shows "held_count (co_counts c) ow t = int (lease_count ow t (co_leases c))"
    "p \<in> set (co_leases c) \<Longrightarrow> (\<exists>ow. fst p = LeaseSet ow) \<longleftrightarrow> l_owner (snd p) \<in> S"
  using assms by (auto simp: coord_exact_def)

text \<open>An owner that only declares sets has at most one lease.\<close>

lemma set_owner_one_lease:
  assumes ok: "coord_ok c" and ex: "coord_exact S c" and "ow \<in> S"
  shows "lease_count ow t (co_leases c) \<le> 1"
proof -
  have "fst p = LeaseSet ow" if "p \<in> set (filter (lease_holds ow t) (co_leases c))" for p
    using that assms(3) exactD(2) [OF ex, of p] coord_okD(3) [OF ok]
    by (force simp: lease_holds_def list_all_iff lease_ok_def)
  then have "set (map fst (filter (lease_holds ow t) (co_leases c))) \<subseteq> {LeaseSet ow}"
    by auto
  moreover have "distinct (map fst (filter (lease_holds ow t) (co_leases c)))"
    using coord_okD(2) [OF ok] by (simp add: distinct_map_filter)
  ultimately have "length (map fst (filter (lease_holds ow t) (co_leases c))) \<le> 1"
    using card_mono [of "{LeaseSet ow}"] by (metis card.empty card.insert distinct_card empty_iff finite.emptyI finite.insertI One_nat_def)
  then show ?thesis by (simp add: lease_count_def)
qed

lemma set_owner_locked_exact:
  assumes ok: "coord_ok c" and ex: "coord_exact S c" and S: "ow \<in> S" and d: "distinct want"
    and res: "set_owner_locked ow want c = (c', out)"
  shows "coord_exact S c'"
  unfolding coord_exact_def
proof (intro conjI allI ballI)
  note eff = set_owner_locked_effect [OF ok d res]
  show "int (lease_count ow' t (co_leases c')) = held_count (co_counts c') ow' t" for ow' t
    using set_owner_one_lease [OF ok ex S, of t] exactD(1) [OF ex, of ow' t]
    by (auto simp: eff(4,5) lease_count_other_owner lease_holds_def)
  show "(\<exists>ow. fst p = LeaseSet ow) \<longleftrightarrow> l_owner (snd p) \<in> S" if "p \<in> set (co_leases c')" for p
    using that exactD(2) [OF ex, of p] S by (auto simp: eff(4) split: if_splits)
qed

lemma acquire_locked_exact:
  assumes ok: "coord_ok c" and ex: "coord_exact S c" and S: "ow \<notin> S" and d: "distinct unique"
    and res: "acquire_locked ow unique c = (i, c', out)"
  shows "coord_exact S c'"
  unfolding coord_exact_def
proof (intro conjI allI ballI)
  note eff = acquire_locked_effect [OF ok d res]
  show "int (lease_count ow' t (co_leases c')) = held_count (co_counts c') ow' t" for ow' t
    using exactD(1) [OF ex, of ow' t] by (auto simp: eff(4,5) lease_holds_def)
  show "(\<exists>ow. fst p = LeaseSet ow) \<longleftrightarrow> l_owner (snd p) \<in> S" if "p \<in> set (co_leases c')" for p
    using that exactD(2) [OF ex, of p] S by (auto simp: eff(1,4))
qed

lemma releaseLease_exact:
  assumes ok: "coord_ok c" and ex: "coord_exact S c" and res: "releaseLease i c = (c', out)"
  shows "coord_exact S c'"
proof (cases "map_of (co_leases c) i")
  case None
  then show ?thesis using ex res by simp
next
  case (Some l)
  note eff = releaseLease_effect [OF ok Some res]
  have "int (lease_count ow t (co_leases c')) = held_count (co_counts c') ow t" for ow t
    using lease_count_delete [OF coord_okD(2) [OF ok] Some, of ow t] exactD(1) [OF ex, of ow t]
    by (auto simp: eff(3,4))
  moreover have "(\<exists>ow. fst p = LeaseSet ow) \<longleftrightarrow> l_owner (snd p) \<in> S" if "p \<in> set (co_leases c')" for p
    using that exactD(2) [OF ex, of p] by (auto simp: eff(3) AList.delete_eq)
  ultimately show ?thesis by (auto simp: coord_exact_def)
qed

text \<open>
  The discipline the program follows on each of its lanes: every owner either acquires
  leases or declares its whole set, and the yield handler only exists where analytics
  declares sets.
\<close>

fun disciplined :: "owner set \<Rightarrow> coord_op \<Rightarrow> bool" where
  "disciplined S (OpAcquire ow _) \<longleftrightarrow> ow \<notin> S"
| "disciplined S (OpSet ow _) \<longleftrightarrow> ow \<in> S"
| "disciplined S _ \<longleftrightarrow> True"

lemma yieldAnalytics_exact:
  assumes "coord_ok c" "coord_exact S c" "h = None \<or> OwnerAnalytics \<in> S" "yieldAnalytics h ow ts r c = (c', out)"
  shows "coord_exact S c'"
  using assms set_owner_locked_exact [OF assms(1,2) _ valid_distinct(1)] unfolding yieldAnalytics_def
  by (cases h; cases "ow = OwnerAnalytics"; cases "the h (priority_set ow ts r c)") fastforce+

lemma coord_step_exact:
  assumes "sys_ok s \<and> coord_exact S (fst s)" "h = None \<or> OwnerAnalytics \<in> S" "disciplined S op"
  shows "sys_ok (coord_step h s op) \<and> coord_exact S (fst (coord_step h s op))"
proof -
  obtain c up where s: "s = (c, up)" by (cases s)
  have ok: "coord_ok c" and ex: "coord_exact S c" using assms(1) by (auto simp: s sys_ok_def)
  have "coord_exact S (fst (coord_step h s op))"
  proof (cases op)
    case (OpAcquire ow ts)
    obtain c1 o1 where y: "yieldAnalytics h ow (distinctValid ts) False c = (c1, o1)" by fastforce
    obtain i c2 o2 where al: "acquire_locked ow (distinctValid ts) c1 = (i, c2, o2)" using prod_cases3 by blast
    have "ow \<notin> S" using assms(3) OpAcquire by simp
    from acquire_locked_exact [OF _ yieldAnalytics_exact [OF ok ex assms(2) y] this valid_distinct(1) al]
      yieldAnalytics_ok [OF ok y] show ?thesis by (simp add: s OpAcquire Acquire_def y al)
  next
    case (OpRelease i)
    obtain c' out where "releaseLease i c = (c', out)" by fastforce
    with releaseLease_exact [OF ok ex this] show ?thesis by (simp add: s OpRelease)
  next
    case (OpSet ow ts)
    obtain c1 o1 where y: "yieldAnalytics h ow (distinctValid ts) True c = (c1, o1)" by fastforce
    obtain c2 o2 where sl: "set_owner_locked ow (distinctValid ts) c1 = (c2, o2)" by fastforce
    have "ow \<in> S" using assms(3) OpSet by simp
    from set_owner_locked_exact [OF _ yieldAnalytics_exact [OF ok ex assms(2) y] this valid_distinct(1) sl]
      yieldAnalytics_ok [OF ok y] show ?thesis by (simp add: s OpSet SetOwnerTokens_def y sl)
  next
    case OpReset
    then show ?thesis by (simp add: s ResetForBrokerSwitch_def coord_exact_def held_count_def)
  qed
  then show ?thesis using assms(1) coord_step_ok by blast
qed

interpretation coord_disciplined: guarded_steps "coord_step h"
    "\<lambda>s. sys_ok s \<and> coord_exact S (fst s) \<and> (h = None \<or> OwnerAnalytics \<in> S)" "disciplined S" for h S
  by unfold_locales (use coord_step_exact in blast)

section \<open>Properties\<close>

lemma set_ActiveTokens: "set (ActiveTokens c) = tokens_of (co_counts c)"
  by (simp add: ActiveTokens_def dom_map_of_conv_image_fst)

lemma Owns_held_count: "Owns ow t c \<longleftrightarrow> 0 < held_count (co_counts c) ow t"
  by (auto simp: Owns_def held_count_def split: option.splits)

lemma lease_token_active:
  assumes "coord_ok c" "p \<in> set (co_leases c)" "t \<in> set (l_tokens (snd p))"
  shows "t \<in> tokens_of (co_counts c)"
proof -
  have "0 < lease_count (l_owner (snd p)) t (co_leases c)"
    unfolding lease_count_pos using assms(2,3) by (auto simp: lease_holds_def)
  then have "0 < held_count (co_counts c) (l_owner (snd p)) t"
    using coord_okD(4) [OF assms(1), of "l_owner (snd p)" t] by linarith
  then show ?thesis by (rule held_count_pos_dom)
qed



text \<open>
  C20: No token outlives its leases. When every owner of a lane either acquires leases or
  declares its whole set (as on each of the program's lanes), then after any run a token is
  subscribed upstream exactly when some live lease holds it, and an owner owns a token
  exactly when one of that owner's leases holds it.
\<close>

theorem disciplined_lane_has_no_leak:
  fixes h ops l
  defines "s \<equiv> foldl (coord_step h) (NewCoordinator l, Some {}) ops"
  assumes "list_all (disciplined S) ops" "h = None \<or> OwnerAnalytics \<in> S"
  shows "snd s = Some {t. \<exists>p \<in> set (co_leases (fst s)). t \<in> set (l_tokens (snd p))} \<and>
    (Owns ow t (fst s) \<longleftrightarrow> (\<exists>p \<in> set (co_leases (fst s)). l_owner (snd p) = ow \<and> t \<in> set (l_tokens (snd p))))"
proof -
  have ex0: "coord_exact S (NewCoordinator l)"
    by (simp add: NewCoordinator_def coord_exact_def held_count_def)
  have "sys_ok s \<and> coord_exact S (fst s) \<and> (h = None \<or> OwnerAnalytics \<in> S)"
    unfolding s_def using assms(2,3) sys_ok_new ex0 by (intro coord_disciplined.guarded_run_inv) auto
  then have ok: "coord_ok (fst s)" "snd s = Some (tokens_of (co_counts (fst s)))" and ex: "coord_exact S (fst s)"
    by (auto simp: sys_ok_def)
  have owns: "Owns ow' t' (fst s) \<longleftrightarrow> (\<exists>p \<in> set (co_leases (fst s)). lease_holds ow' t' p)" for ow' t'
    using exactD(1) [OF ex, of ow' t'] lease_count_pos [of ow' t' "co_leases (fst s)"]
    by (simp add: Owns_held_count)
  have "tokens_of (co_counts (fst s)) = {t. \<exists>p \<in> set (co_leases (fst s)). t \<in> set (l_tokens (snd p))}"
    using dom_held_count [OF coord_okD(1) [OF ok(1)]] owns
    by (fastforce simp: Owns_held_count lease_holds_def)
  then show ?thesis using ok(2) owns by (auto simp: lease_holds_def)
qed

theorem disciplined_lane_has_no_leak_witness:
  "snd (foldl (coord_step None) (NewCoordinator LaneFutures, Some {}) [OpSet OwnerScanner [3, 4], OpSet OwnerScanner [4]]) = Some {4} \<and>
   Owns OwnerScanner 4 (fst (foldl (coord_step None) (NewCoordinator LaneFutures, Some {}) [OpSet OwnerScanner [3, 4], OpSet OwnerScanner [4]]))"
proof -
  let ?ops = "[OpSet OwnerScanner [3, 4], OpSet OwnerScanner [4]]"
  let ?s = "foldl (coord_step None) (NewCoordinator LaneFutures, Some {}) ?ops"
  have "co_leases (fst ?s) = [(LeaseSet OwnerScanner, \<lparr>l_owner = OwnerScanner, l_tokens = [4]\<rparr>)]"
    by (simp add: NewCoordinator_def SetOwnerTokens_def yieldAnalytics_def set_owner_locked_def addLease_def
        removeLease_def distinctValid_def nub_def bump_def dec_def Let_def zero_counts_def)
  then show ?thesis
    using disciplined_lane_has_no_leak [of "{OwnerScanner}" ?ops None LaneFutures OwnerScanner 4] by simp
qed




end
