(* ===== verification/Float64.thy ===== *)
theory Float64
  imports Complex_Main Prelude
begin

text \<open>
  Go's \<^verbatim>\<open>float64\<close>: IEEE 754 binary64 with round to nearest, ties to even, as an
  executable datatype over integers. A finite number is a sign, a significand below
  \<open>2 ^ 53\<close> and an exponent; every operation computes the exact rational result and
  rounds it once. Signed zeros, subnormals, infinities and NaN are all there (NaN
  payloads, which the program never looks at, are not).

  The first section is the arithmetic. The second shows that the comparisons are those of
  the exact values (the integer multiples of \<open>2 ^ -1074\<close> the numbers stand for), so that
  they order every set of numbers without NaN; the last gives the sign and finiteness
  facts the components use. Go may fuse a multiplication and an addition on
  some architectures; the model has the unfused meaning, which is that of amd64.
\<close>

section \<open>Numbers and rounding\<close>

datatype f64 = NaN | Inf bool | Fin bool int int

function bit_length :: "int \<Rightarrow> int" where
  "bit_length n = (if n \<le> 0 then 0 else 1 + bit_length (n div 2))"
  by auto

termination
  by (relation "measure nat") auto

declare bit_length.simps [simp del]

function pow2 :: "int \<Rightarrow> int" where
  "pow2 e = (if e \<le> 0 then 1 else let h = pow2 (e div 2) in if even e then h * h else 2 * (h * h))"
  by auto

termination
  by (relation "measure nat") auto

declare pow2.simps [simp del]

text \<open>The significand of \<open>n / d\<close> in units of \<open>2 ^ e\<close>, rounded to nearest even.\<close>

definition round_sig :: "int \<Rightarrow> int \<Rightarrow> int \<Rightarrow> int" where
  "round_sig n d e =
     (let n' = n * pow2 (- e); d' = d * pow2 e; q = n' div d'; r = n' mod d'
      in if 2 * r > d' \<or> (2 * r = d' \<and> odd q) then q + 1 else q)"

definition exp_of :: "int \<Rightarrow> int \<Rightarrow> int" where
  "exp_of n d =
     (let e = bit_length n - bit_length d - 53;
          e' = (if n * pow2 (- e) \<ge> 2 ^ 53 * (d * pow2 e) then e + 1 else e)
      in max e' (- 1074))"

definition pack :: "bool \<Rightarrow> int \<Rightarrow> int \<Rightarrow> f64" where
  "pack s m e =
     (let (m', e') = (if m \<ge> 2 ^ 53 then (m div 2, e + 1) else (m, e))
      in if e' > 971 then Inf s else Fin s m' e')"

definition f_round :: "bool \<Rightarrow> int \<Rightarrow> int \<Rightarrow> f64" where
  "f_round s n d = (if n = 0 then Fin s 0 (- 1074) else (let e = exp_of n d in pack s (round_sig n d e) e))"

definition f_zero :: f64 where
  "f_zero = Fin False 0 (- 1074)"

definition f_of_int :: "int \<Rightarrow> f64" where
  "f_of_int i = f_round (i < 0) \<bar>i\<bar> 1"

text \<open>A decimal literal \<open>n / 10 ^ k\<close>.\<close>

definition f_dec :: "int \<Rightarrow> nat \<Rightarrow> f64" where
  "f_dec n k = f_round (n < 0) \<bar>n\<bar> (10 ^ k)"

definition signed :: "bool \<Rightarrow> int \<Rightarrow> int" where
  "signed s m = (if s then - m else m)"

fun f_neg :: "f64 \<Rightarrow> f64" where
  "f_neg NaN = NaN"
| "f_neg (Inf s) = Inf (\<not> s)"
| "f_neg (Fin s m e) = Fin (\<not> s) m e"

fun f_add :: "f64 \<Rightarrow> f64 \<Rightarrow> f64" where
  "f_add NaN _ = NaN"
| "f_add _ NaN = NaN"
| "f_add (Inf s) (Inf t) = (if s = t then Inf s else NaN)"
| "f_add (Inf s) _ = Inf s"
| "f_add _ (Inf t) = Inf t"
| "f_add (Fin s m e) (Fin t n g) =
     (if n = 0 \<and> m \<noteq> 0 then Fin s m e else if m = 0 \<and> n \<noteq> 0 then Fin t n g else
      let k = min e g;
          v = signed s (m * pow2 (e - k)) + signed t (n * pow2 (g - k))
      in if v = 0 then Fin (s \<and> t) 0 (- 1074)
         else f_round (v < 0) (\<bar>v\<bar> * pow2 k) (pow2 (- k)))"

definition f_sub :: "f64 \<Rightarrow> f64 \<Rightarrow> f64" where
  "f_sub a b = f_add a (f_neg b)"

fun f_mul :: "f64 \<Rightarrow> f64 \<Rightarrow> f64" where
  "f_mul NaN _ = NaN"
| "f_mul _ NaN = NaN"
| "f_mul (Inf s) (Inf t) = Inf (s \<noteq> t)"
| "f_mul (Inf s) (Fin t m e) = (if m = 0 then NaN else Inf (s \<noteq> t))"
| "f_mul (Fin t m e) (Inf s) = (if m = 0 then NaN else Inf (s \<noteq> t))"
| "f_mul (Fin s m e) (Fin t n g) = f_round (s \<noteq> t) (m * n * pow2 (e + g)) (pow2 (- (e + g)))"

fun f_div :: "f64 \<Rightarrow> f64 \<Rightarrow> f64" where
  "f_div NaN _ = NaN"
| "f_div _ NaN = NaN"
| "f_div (Inf s) (Inf t) = NaN"
| "f_div (Inf s) (Fin t n g) = Inf (s \<noteq> t)"
| "f_div (Fin s m e) (Inf t) = Fin (s \<noteq> t) 0 (- 1074)"
| "f_div (Fin s m e) (Fin t n g) =
     (if n = 0 then (if m = 0 then NaN else Inf (s \<noteq> t))
      else f_round (s \<noteq> t) (m * pow2 (e - g)) (n * pow2 (g - e)))"

fun f_lt :: "f64 \<Rightarrow> f64 \<Rightarrow> bool" where
  "f_lt NaN _ = False"
| "f_lt _ NaN = False"
| "f_lt (Inf s) (Inf t) = (s \<and> \<not> t)"
| "f_lt (Inf s) (Fin _ _ _) = s"
| "f_lt (Fin _ _ _) (Inf t) = (\<not> t)"
| "f_lt (Fin s m e) (Fin t n g) =
     (let k = min e g in signed s (m * pow2 (e - k)) < signed t (n * pow2 (g - k)))"

definition is_nan :: "f64 \<Rightarrow> bool" where
  "is_nan x \<longleftrightarrow> x = NaN"

definition f_le :: "f64 \<Rightarrow> f64 \<Rightarrow> bool" where
  "f_le a b \<longleftrightarrow> \<not> is_nan a \<and> \<not> is_nan b \<and> \<not> f_lt b a"

definition f_eq :: "f64 \<Rightarrow> f64 \<Rightarrow> bool" where
  "f_eq a b \<longleftrightarrow> f_le a b \<and> f_le b a"

fun f_finite :: "f64 \<Rightarrow> bool" where
  "f_finite (Fin _ _ _) = True"
| "f_finite _ = False"

text \<open>Go's conversion \<^verbatim>\<open>int(x)\<close> of a finite \<open>x\<close>: truncation toward zero.\<close>

fun f_trunc :: "f64 \<Rightarrow> int" where
  "f_trunc (Fin s m e) = signed s (m * pow2 e div pow2 (- e))"
| "f_trunc _ = 0"

text \<open>The encoding: the exponent in range, the significand normalised.\<close>

fun f_wf :: "f64 \<Rightarrow> bool" where
  "f_wf (Fin s m e) \<longleftrightarrow> - 1074 \<le> e \<and> e \<le> 971 \<and> 0 \<le> m \<and> m < 2 ^ 53 \<and> (2 ^ 52 \<le> m \<or> e = - 1074)"
| "f_wf _ \<longleftrightarrow> True"

section \<open>Values and comparison\<close>

text \<open>
  The value of a finite number as a multiple of \<open>2 ^ -1074\<close>; the infinities get values
  beyond every finite one.
\<close>

fun f_key :: "f64 \<Rightarrow> int" where
  "f_key NaN = 0"
| "f_key (Inf s) = signed s (2 ^ 3000)"
| "f_key (Fin s m e) = signed s (m * pow2 (e + 1074))"

lemma pow2_eq: "pow2 e = 2 ^ nat e"
proof (induction e rule: pow2.induct)
  case (1 e)
  show ?case
  proof (cases "e \<le> 0")
    case False
    then obtain k where k: "e div 2 = int k" using nonneg_int_cases [of "e div 2"] by auto
    then have "e = 2 * int k + (if even e then 0 else 1)" by presburger
    then have ne: "nat e = (if even e then 2 * nat (e div 2) else Suc (2 * nat (e div 2)))"
      unfolding k by (simp split: if_splits)
    have p: "(2 :: int) ^ nat e = (let h = 2 ^ nat (e div 2) in if even e then h * h else 2 * (h * h))"
      by (cases "even e") (simp_all only: ne if_True if_False Let_def mult_2 power_add power_Suc)
    show ?thesis using False by (subst pow2.simps) (simp only: 1 [OF False] p if_False)
  qed (simp add: pow2.simps)
qed

lemma pow2_pos [simp]: "0 < pow2 e" and pow2_nonneg [simp]: "0 \<le> pow2 e" and pow2_neq_0 [simp]: "pow2 e \<noteq> 0"
  and pow2_not_neg [simp]: "\<not> pow2 e < 0" and pow2_not_nonpos [simp]: "\<not> pow2 e \<le> 0"
  by (simp_all add: pow2_eq)

lemma pow2_0 [simp]: "pow2 0 = 1"
  by (simp add: pow2_eq)

lemma pow2_nonpos [simp]: "e \<le> 0 \<Longrightarrow> pow2 e = 1"
  by (simp add: pow2_eq)

lemma pow2_add: "0 \<le> e \<Longrightarrow> 0 \<le> k \<Longrightarrow> pow2 (e + k) = pow2 e * pow2 k"
  by (simp add: pow2_eq nat_add_distrib power_add)

lemma pow2_mono: "e \<le> k \<Longrightarrow> pow2 e \<le> pow2 k"
  by (simp add: pow2_eq power_increasing nat_mono)

lemma signed_simps [simp]:
  "signed s 0 = 0" "signed False m = m" "signed True m = - m" "signed s m = 0 \<longleftrightarrow> m = 0"
  by (auto simp: signed_def)

lemma signed_mult: "signed s (m * k) = signed s m * k"
  by (simp add: signed_def)

lemma signed_neg: "signed (\<not> s) m = - signed s m"
  by (simp add: signed_def)

lemma signed_less_iff: "0 \<le> m \<Longrightarrow> signed s m < 0 \<longleftrightarrow> s \<and> m \<noteq> 0" "0 \<le> m \<Longrightarrow> 0 < signed s m \<longleftrightarrow> \<not> s \<and> m \<noteq> 0"
  by (auto simp: signed_def)

lemma align_less:
  assumes "- 1074 \<le> e" "- 1074 \<le> g"
  shows "(let k = min e g in signed s (m * pow2 (e - k)) < signed t (n * pow2 (g - k))) \<longleftrightarrow>
    signed s (m * pow2 (e + 1074)) < signed t (n * pow2 (g + 1074))"
proof -
  define k where "k = min e g"
  have "e + 1074 = (e - k) + (k + 1074)" "g + 1074 = (g - k) + (k + 1074)" by auto
  moreover have "0 \<le> e - k" "0 \<le> g - k" "0 \<le> k + 1074" using assms by (auto simp: k_def)
  ultimately have "pow2 (e + 1074) = pow2 (e - k) * pow2 (k + 1074)" "pow2 (g + 1074) = pow2 (g - k) * pow2 (k + 1074)"
    using pow2_add by metis+
  then show ?thesis
    unfolding Let_def k_def [symmetric] by (simp add: signed_mult)
qed

lemma key_bound:
  assumes "f_wf (Fin s m e)"
  shows "m * pow2 (e + 1074) < 2 ^ 3000"
proof -
  have "pow2 (e + 1074) \<le> 2 ^ 2045"
    using assms unfolding pow2_eq by (intro power_increasing) auto
  moreover have "0 \<le> m" "m < 2 ^ 53" using assms by simp_all
  ultimately have "m * pow2 (e + 1074) < 2 ^ 53 * 2 ^ 2045"
    by (intro mult_less_le_imp_less) auto
  also have "\<dots> \<le> (2 :: int) ^ 3000" unfolding power_add [symmetric] by (intro power_increasing) auto
  finally show ?thesis .
qed

lemma f_lt_key:
  assumes "f_wf a" "f_wf b" "a \<noteq> NaN" "b \<noteq> NaN"
  shows "f_lt a b \<longleftrightarrow> f_key a < f_key b"
proof (cases a; cases b)
  fix s m e t n g assume ab: "a = Fin s m e" "b = Fin t n g"
  then show ?thesis using assms align_less [of e g s m t n] by simp
next
  fix s t n g assume ab: "a = Inf s" "b = Fin t n g"
  then have "n * pow2 (g + 1074) < 2 ^ 3000" "0 \<le> n * pow2 (g + 1074)" using assms key_bound [of t n g] by auto
  then show ?thesis using ab by (cases s; cases t) simp_all
next
  fix s m e t assume ab: "a = Fin s m e" "b = Inf t"
  then have "m * pow2 (e + 1074) < 2 ^ 3000" "0 \<le> m * pow2 (e + 1074)" using assms key_bound [of s m e] by auto
  then show ?thesis using ab by (cases s; cases t) simp_all
next
  fix s t assume "a = Inf s" "b = Inf t"
  then show ?thesis by (cases s; cases t) simp_all
qed (use assms in auto)

text \<open>Numbers a comparison can order: well formed and not NaN.\<close>

definition f_num :: "f64 \<Rightarrow> bool" where
  "f_num x \<longleftrightarrow> f_wf x \<and> x \<noteq> NaN"

lemma f_lt_num: "f_num a \<Longrightarrow> f_num b \<Longrightarrow> f_lt a b \<longleftrightarrow> f_key a < f_key b"
  by (simp add: f_num_def f_lt_key)

lemma f_le_num: "f_num a \<Longrightarrow> f_num b \<Longrightarrow> f_le a b \<longleftrightarrow> f_key a \<le> f_key b"
  by (auto simp: f_le_def f_lt_num is_nan_def) (auto simp: f_num_def)

lemma f_eq_num: "f_num a \<Longrightarrow> f_num b \<Longrightarrow> f_eq a b \<longleftrightarrow> f_key a = f_key b"
  by (auto simp: f_eq_def f_le_num)

lemmas f_cmp_num = f_lt_num f_le_num f_eq_num

lemma f_lt_not_nan: "f_lt a b \<Longrightarrow> a \<noteq> NaN \<and> b \<noteq> NaN"
  by (cases a; cases b) auto

lemma f_lt_NaN [simp]: "\<not> f_lt NaN x" "\<not> f_lt x NaN"
  by (cases x; simp)+

lemma f_le_NaN [simp]: "\<not> f_le NaN x" "\<not> f_le x NaN"
  by (simp_all add: f_le_def is_nan_def)

lemma f_num_zero [simp]: "f_num f_zero" "f_key f_zero = 0" "f_finite f_zero" "f_wf f_zero"
  by (simp_all add: f_zero_def f_num_def)

section \<open>Correctness of rounding\<close>

lemma bit_length_bounds:
  "0 < n \<Longrightarrow> 2 ^ nat (bit_length n - 1) \<le> n \<and> n < 2 ^ nat (bit_length n) \<and> 0 < bit_length n"
proof (induction n rule: bit_length.induct)
  case (1 n)
  show ?case
  proof (cases "n = 1")
    case True
    then show ?thesis by (simp add: bit_length.simps)
  next
    case False
    with 1 have IH: "2 ^ nat (bit_length (n div 2) - 1) \<le> n div 2" "n div 2 < 2 ^ nat (bit_length (n div 2))"
        "0 < bit_length (n div 2)"
      by auto
    have bl: "bit_length n = 1 + bit_length (n div 2)" using 1 by (subst bit_length.simps) simp
    have s: "nat (bit_length (n div 2)) = Suc (nat (bit_length (n div 2) - 1))"
        "nat (1 + bit_length (n div 2)) = Suc (nat (bit_length (n div 2)))"
      using IH(3) by auto
    have "(2 :: int) ^ nat (bit_length (n div 2)) = 2 * 2 ^ nat (bit_length (n div 2) - 1)"
      unfolding s(1) by simp
    then have "2 ^ nat (bit_length (n div 2)) \<le> 2 * (n div 2)" "n < 2 * 2 ^ nat (bit_length (n div 2))"
      using IH(1,2) by linarith+
    then show ?thesis using IH(3) unfolding bl s(2) by simp
  qed
qed

lemma bit_length_real:
  assumes "0 < n"
  shows "2 powi (bit_length n - 1) \<le> real_of_int n \<and> real_of_int n < 2 powi bit_length n"
proof -
  note b = bit_length_bounds [OF assms]
  have "real_of_int (2 ^ nat (bit_length n - 1)) \<le> real_of_int n" "real_of_int n < real_of_int (2 ^ nat (bit_length n))"
    using b by (simp_all only: of_int_le_iff of_int_less_iff)
  then show ?thesis using b by (simp add: power_int_def)
qed

text \<open>Scaling by \<open>pow2\<close> is multiplication by a power of two.\<close>

lemma pow2_real: "real_of_int (pow2 (- e)) / real_of_int (pow2 e) = 2 powi (- e)"
  by (cases "0 \<le> e") (auto simp: pow2_eq power_int_def field_simps)

lemma scaled_le_iff:
  assumes "0 < d"
  shows "c * (d * pow2 e) \<le> n * pow2 (- e) \<longleftrightarrow> real_of_int c * 2 powi e \<le> real_of_int n / real_of_int d"
proof -
  have "c * (d * pow2 e) \<le> n * pow2 (- e) \<longleftrightarrow> real_of_int c * (real_of_int d * real_of_int (pow2 e)) \<le> real_of_int n * real_of_int (pow2 (- e))"
    by (metis of_int_le_iff of_int_mult)
  also have "\<dots> \<longleftrightarrow> real_of_int c \<le> real_of_int n / real_of_int d * (real_of_int (pow2 (- e)) / real_of_int (pow2 e))"
    using assms by (simp add: field_simps)
  also have "\<dots> \<longleftrightarrow> real_of_int c \<le> real_of_int n / real_of_int d / 2 powi e"
    unfolding pow2_real power_int_minus by (simp add: divide_inverse)
  also have "\<dots> \<longleftrightarrow> real_of_int c * 2 powi e \<le> real_of_int n / real_of_int d"
    by (rule pos_le_divide_eq) simp
  finally show ?thesis .
qed

lemma powi_shift: "(2 :: real) ^ k * 2 powi e = 2 powi (int k + e)"
  by (simp add: power_int_add)

lemma exp_of_bounds:
  assumes "0 < n" "0 < d"
  shows "- 1074 \<le> exp_of n d"
    and "real_of_int n / real_of_int d < 2 ^ 53 * 2 powi exp_of n d"
    and "exp_of n d = - 1074 \<or> 2 ^ 52 * 2 powi exp_of n d \<le> real_of_int n / real_of_int d"
proof -
  define e where "e = bit_length n - bit_length d - 53"
  define x where "x = real_of_int n / real_of_int d"
  have n: "2 powi (bit_length n - 1) \<le> real_of_int n" "real_of_int n < 2 powi bit_length n"
    and d: "2 powi (bit_length d - 1) \<le> real_of_int d" "real_of_int d < 2 powi bit_length d"
    using bit_length_real [OF assms(1)] bit_length_real [OF assms(2)] by auto
  have "2 powi (bit_length n - 1) / 2 powi bit_length d \<le> x"
    unfolding x_def using n(1) d(2) assms by (intro frac_le) auto
  also have "2 powi (bit_length n - 1) / 2 powi bit_length d = (2 :: real) ^ 52 * 2 powi e"
    unfolding powi_shift by (subst power_int_diff [symmetric]) (simp_all add: e_def algebra_simps)
  finally have lo: "2 ^ 52 * 2 powi e \<le> x" .
  have "x < 2 powi bit_length n / 2 powi (bit_length d - 1)"
    unfolding x_def using n(2) d(1) assms by (intro frac_less) auto
  also have "2 powi bit_length n / 2 powi (bit_length d - 1) = (2 :: real) ^ 54 * 2 powi e"
    unfolding powi_shift by (subst power_int_diff [symmetric]) (simp_all add: e_def algebra_simps)
  finally have hi: "x < 2 ^ 54 * 2 powi e" .
  define e' where "e' = (if 2 ^ 53 * 2 powi e \<le> x then e + 1 else e)"
  have ex: "exp_of n d = max e' (- 1074)"
    using scaled_le_iff [OF assms(2), of "2 ^ 53" e n]
    by (simp add: exp_of_def Let_def e'_def e_def x_def)
  have e'lo: "2 ^ 52 * 2 powi e' \<le> x" and e'hi: "x < 2 ^ 53 * 2 powi e'"
    using lo hi by (auto simp: e'_def power_int_add split: if_splits)
  show "- 1074 \<le> exp_of n d" by (simp add: ex)
  show "exp_of n d = - 1074 \<or> 2 ^ 52 * 2 powi exp_of n d \<le> real_of_int n / real_of_int d"
    using e'lo by (auto simp: ex x_def max_def)
  have "2 powi e' \<le> (2 :: real) powi exp_of n d"
    unfolding ex by (intro power_int_increasing) auto
  then show "real_of_int n / real_of_int d < 2 ^ 53 * 2 powi exp_of n d"
    using e'hi unfolding x_def by (auto elim!: less_le_trans)
qed

text \<open>The rounded significand is nearest to the exact quotient.\<close>

lemma round_div_nearest:
  fixes n d :: int
  assumes "0 < d"
  shows "\<bar>real_of_int (if 2 * (n mod d) > d \<or> (2 * (n mod d) = d \<and> odd (n div d)) then n div d + 1 else n div d) -
     real_of_int n / real_of_int d\<bar> \<le> 1 / 2"
proof -
  have "real_of_int n = real_of_int (n div d) * real_of_int d + real_of_int (n mod d)"
    by (metis div_mult_mod_eq of_int_add of_int_mult)
  then have x: "real_of_int n / real_of_int d = real_of_int (n div d) + real_of_int (n mod d) / real_of_int d"
    using assms by (simp add: add_divide_distrib)
  have r: "n mod d < d" using assms by simp
  show ?thesis
  proof (cases "2 * (n mod d) < d")
    case True
    then have "2 * real_of_int (n mod d) \<le> real_of_int d" by linarith
    then have "real_of_int (n mod d) / real_of_int d \<le> 1 / 2" using assms by (simp add: field_simps)
    then show ?thesis using True assms by (simp add: x abs_of_nonneg)
  next
    case False
    then have "real_of_int d \<le> 2 * real_of_int (n mod d)" by linarith
    then have "1 / 2 \<le> real_of_int (n mod d) / real_of_int d" "real_of_int (n mod d) / real_of_int d \<le> 1"
      using assms r by (simp_all add: field_simps)
    moreover have "real_of_int (n mod d) / real_of_int d = 1 / 2" if "2 * (n mod d) = d"
      using that assms by (simp add: field_simps flip: of_int_mult)
    ultimately show ?thesis using False by (auto simp: x)
  qed
qed

lemma round_sig_nearest:
  assumes "0 < d"
  shows "\<bar>real_of_int (round_sig n d e) * 2 powi e - real_of_int n / real_of_int d\<bar> \<le> 2 powi e / 2"
proof -
  let ?n = "n * pow2 (- e)" and ?d = "d * pow2 e"
  have d: "0 < ?d" using assms by simp
  have "real_of_int ?n / real_of_int ?d = real_of_int n / real_of_int d * (real_of_int (pow2 (- e)) / real_of_int (pow2 e))" by simp
  then have "real_of_int ?n / real_of_int ?d * 2 powi e = real_of_int n / real_of_int d"
    unfolding pow2_real by (simp add: power_int_minus)
  moreover have "\<bar>real_of_int (round_sig n d e) - real_of_int ?n / real_of_int ?d\<bar> \<le> 1 / 2"
    using round_div_nearest [OF d, of ?n] unfolding round_sig_def Let_def .
  then have "\<bar>real_of_int (round_sig n d e) - real_of_int ?n / real_of_int ?d\<bar> * 2 powi e \<le> 1 / 2 * 2 powi e"
    by (intro mult_right_mono) auto
  then have "\<bar>(real_of_int (round_sig n d e) - real_of_int ?n / real_of_int ?d) * 2 powi e\<bar> \<le> 2 powi e / 2"
    by (simp add: abs_mult)
  ultimately show ?thesis by (simp add: left_diff_distrib)
qed

lemma round_sig_nonneg: "0 < d \<Longrightarrow> 0 \<le> n \<Longrightarrow> 0 \<le> round_sig n d e"
  by (auto simp: round_sig_def Let_def intro!: add_nonneg_nonneg mult_nonneg_nonneg pos_imp_zdiv_nonneg_iff [THEN iffD2])

lemma int_le_of_real_half: "real_of_int q \<le> real_of_int c + 1 / 2 \<Longrightarrow> q \<le> c"
  by linarith

lemma round_sig_bounds:
  assumes "0 < n" "0 < d" "e = exp_of n d"
  shows "round_sig n d e \<le> 2 ^ 53" "e = - 1074 \<or> 2 ^ 52 \<le> round_sig n d e"
proof -
  note b = exp_of_bounds [OF assms(1,2), folded assms(3)] and r = round_sig_nearest [OF assms(2), of n e]
  have P: "(0 :: real) < 2 powi e" by simp
  have "real_of_int (round_sig n d e) * 2 powi e \<le> (2 ^ 53 + 1 / 2) * 2 powi e"
    using r b(2) unfolding distrib_right by linarith
  then have "real_of_int (round_sig n d e) \<le> real_of_int (2 ^ 53 :: int) + 1 / 2"
    using P by (simp add: mult_le_cancel_right)
  then show "round_sig n d e \<le> 2 ^ 53" by (rule int_le_of_real_half)
  have "2 ^ 52 \<le> round_sig n d e" if "2 ^ 52 * 2 powi e \<le> real_of_int n / real_of_int d"
  proof -
    have "2 ^ 52 * 2 powi e \<le> (real_of_int (round_sig n d e) + 1 / 2) * 2 powi e"
      using r that unfolding distrib_right by linarith
    then have "real_of_int (2 ^ 52 :: int) \<le> real_of_int (round_sig n d e) + 1 / 2"
      using P by (simp add: mult_le_cancel_right)
    then show ?thesis by (rule int_le_of_real_half)
  qed
  with b(3) show "e = - 1074 \<or> 2 ^ 52 \<le> round_sig n d e" by blast
qed

lemma f_wf_round [simp]: "0 < d \<Longrightarrow> 0 \<le> n \<Longrightarrow> f_wf (f_round s n d)"
proof (cases "n = 0")
  case False
  assume d: "0 < d" "0 \<le> n"
  let ?e = "exp_of n d" and ?m = "round_sig n d (exp_of n d)"
  have b: "?m \<le> 2 ^ 53" "?e = - 1074 \<or> 2 ^ 52 \<le> ?m" "- 1074 \<le> ?e" "0 \<le> ?m"
    using round_sig_bounds [of n d ?e] exp_of_bounds(1) [of n d] round_sig_nonneg [of d n ?e] d False by auto
  then have "f_wf (pack s ?m ?e)"
    by (cases "2 ^ 53 \<le> ?m") (auto simp: pack_def)
  then show ?thesis using False by (simp add: f_round_def Let_def)
qed (simp add: f_round_def)

lemma f_round_sign: "(\<exists>m e. f_round s n d = Fin s m e) \<or> f_round s n d = Inf s"
  by (auto simp: f_round_def pack_def Let_def)

lemma f_round_not_NaN [simp]: "f_round s n d \<noteq> NaN"
  using f_round_sign [of s n d] by auto

lemma f_num_round [simp]: "0 < d \<Longrightarrow> 0 \<le> n \<Longrightarrow> f_num (f_round s n d)"
  by (simp add: f_num_def)

lemma f_key_round_sign: "0 < d \<Longrightarrow> 0 \<le> n \<Longrightarrow> if s then f_key (f_round s n d) \<le> 0 else 0 \<le> f_key (f_round s n d)"
  using f_round_sign [of s n d] f_wf_round [of d n s] by (auto simp del: f_wf_round)

text \<open>A quotient that a number represents exactly rounds to that number.\<close>

lemma powi_double: "a < b \<Longrightarrow> (2 :: real) * 2 powi a \<le> 2 powi b"
proof -
  assume "a < b"
  have "(2 :: real) * 2 powi a = 2 powi (a + 1)" by (simp add: power_int_add)
  also have "\<dots> \<le> 2 powi b" using \<open>a < b\<close> by (intro power_int_increasing) auto
  finally show ?thesis .
qed

lemma f_round_exact:
  assumes wf: "f_wf (Fin s m e)" and "0 < m" "0 < n" "0 < d" and x: "real_of_int n / real_of_int d = real_of_int m * 2 powi e"
  shows "f_round s n d = Fin s m e"
proof -
  define g where "g = exp_of n d"
  note b = exp_of_bounds [OF assms(3,4), folded g_def]
  have P: "(0 :: real) < 2 powi g" "(0 :: real) < 2 powi e" by simp_all
  have hi: "real_of_int m < 2 ^ 53" and e: "- 1074 \<le> e" "e \<le> 971" and lo: "e = - 1074 \<or> 2 ^ 52 \<le> real_of_int m"
    using wf by auto
  have "\<not> e < g"
  proof
    assume "e < g"
    then have "2 ^ 52 * 2 powi g \<le> real_of_int m * 2 powi e" using b(3) e(1) x by auto
    moreover have "real_of_int m * 2 powi e < 2 ^ 53 * 2 powi e" using hi P by (intro mult_strict_right_mono) auto
    moreover have "2 ^ 53 * 2 powi e \<le> 2 ^ 52 * (2 :: real) powi g" using powi_double [OF \<open>e < g\<close>] by simp
    ultimately show False by linarith
  qed
  moreover have "\<not> g < e"
  proof
    assume "g < e"
    then have "2 ^ 52 * 2 powi e \<le> real_of_int m * 2 powi e" using lo b(1) by auto
    with b(2) x have "2 ^ 52 * 2 powi e < 2 ^ 53 * (2 :: real) powi g" by linarith
    with powi_double [OF \<open>g < e\<close>] show False by simp
  qed
  ultimately have g: "g = e" by simp
  have "\<bar>(real_of_int (round_sig n d e) - real_of_int m) * 2 powi e\<bar> \<le> 1 / 2 * 2 powi e"
    using round_sig_nearest [OF assms(4), of n e] unfolding x by (simp add: left_diff_distrib)
  then have "\<bar>real_of_int (round_sig n d e) - real_of_int m\<bar> \<le> 1 / 2"
    using P unfolding abs_mult by (simp add: mult_le_cancel_right)
  then have "round_sig n d e = m" by linarith
  then show ?thesis using assms(3) wf by (simp add: f_round_def Let_def pack_def g_def [symmetric] g)
qed

text \<open>A quotient of at least the smallest positive number does not round to zero.\<close>

lemma f_key_round_pos:
  assumes "0 < n" "0 < d" "2 powi (- 1074) \<le> real_of_int n / real_of_int d"
  shows "0 < f_key (f_round False n d)"
proof -
  define e where "e = exp_of n d"
  have "0 < round_sig n d e"
  proof (cases "e = - 1074")
    case True
    have "round_sig n d e \<noteq> 0"
    proof
      assume "round_sig n d e = 0"
      then have "real_of_int n / real_of_int d \<le> 2 powi (- 1074) / 2"
        using round_sig_nearest [OF assms(2), of n e] True assms(1,2) by simp
      moreover have "(0 :: real) < 2 powi (- 1074)" by simp
      ultimately show False using assms(3) by linarith
    qed
    then show ?thesis using round_sig_nonneg [of d n e] assms(1,2) by simp
  next
    case False
    then have "2 ^ 52 \<le> round_sig n d e"
      using round_sig_bounds(2) [OF assms(1,2) e_def] by blast
    then show ?thesis by (rule less_le_trans [rotated]) simp
  qed
  then show ?thesis
    using assms(1) by (auto simp: f_round_def Let_def e_def [symmetric] pack_def)
qed

section \<open>Operations on integers, sums and products\<close>

lemma small_normal:
  fixes m :: int
  assumes "0 < m" "m < 2 ^ 53"
  shows "\<exists>k. 2 ^ 52 \<le> m * 2 ^ k \<and> m * 2 ^ k < 2 ^ 53 \<and> k \<le> 52"
proof -
  define l where "l = nat (bit_length m - 1)"
  have l: "2 ^ l \<le> m" "m < 2 ^ Suc l" "nat (bit_length m) = Suc l"
    using bit_length_bounds [OF assms(1)] by (auto simp: l_def Suc_nat_eq_nat_zadd1)
  have "(2 :: int) ^ l < 2 ^ 53" using l(1) assms(2) by linarith
  then have le: "l < 53" by (rule power_less_imp_less_exp [rotated]) simp
  let ?k = "52 - l"
  have "(2 :: int) ^ 52 = 2 ^ l * 2 ^ ?k" "(2 :: int) ^ 53 = 2 ^ Suc l * 2 ^ ?k"
    using le unfolding power_add [symmetric] by simp_all
  moreover have "2 ^ l * 2 ^ ?k \<le> m * 2 ^ ?k" "m * 2 ^ ?k < 2 ^ Suc l * 2 ^ ?k"
    using l by (auto intro!: mult_right_mono mult_strict_right_mono simp del: power_Suc)
  ultimately have "2 ^ 52 \<le> m * 2 ^ ?k" "m * 2 ^ ?k < 2 ^ 53" by (simp_all only:)
  then show ?thesis by (intro exI [of _ ?k]) simp
qed

lemma f_of_int_exact:
  assumes "\<bar>i\<bar> < 2 ^ 53"
  shows "\<exists>k. k \<le> 1074 \<and> f_of_int i = Fin (i < 0) (\<bar>i\<bar> * 2 ^ k) (- int k)"
proof (cases "i = 0")
  case True
  then show ?thesis by (auto simp: f_of_int_def f_round_def intro!: exI [of _ 1074])
next
  case False
  then have n: "0 < \<bar>i\<bar>" by simp
  from small_normal [OF n assms] obtain k where
    k: "2 ^ 52 \<le> \<bar>i\<bar> * 2 ^ k" "\<bar>i\<bar> * 2 ^ k < 2 ^ 53" "k \<le> 52" by blast
  have "f_of_int i = Fin (i < 0) (\<bar>i\<bar> * 2 ^ k) (- int k)"
    unfolding f_of_int_def
  proof (rule f_round_exact)
    show "f_wf (Fin (i < 0) (\<bar>i\<bar> * 2 ^ k) (- int k))" using k by auto
    show "real_of_int \<bar>i\<bar> / real_of_int 1 = real_of_int (\<bar>i\<bar> * 2 ^ k) * 2 powi (- int k)"
      by (simp add: power_int_minus)
  qed (use n in auto)
  then show ?thesis using k(3) by (intro exI [of _ k]) auto
qed

lemma f_of_int_key:
  assumes "\<bar>i\<bar> < 2 ^ 53"
  shows "f_finite (f_of_int i)" "f_num (f_of_int i)" "f_key (f_of_int i) = i * 2 ^ 1074"
proof -
  from f_of_int_exact [OF assms] obtain k where
    k: "k \<le> 1074" "f_of_int i = Fin (i < 0) (\<bar>i\<bar> * 2 ^ k) (- int k)" by blast
  show "f_finite (f_of_int i)" by (simp add: k(2))
  show "f_num (f_of_int i)" by (simp add: f_of_int_def)
  have "nat (- int k + 1074) = 1074 - k" using k(1) by linarith
  then have "2 ^ k * pow2 (- int k + 1074) = 2 ^ 1074"
    using k(1) unfolding pow2_eq by (simp flip: power_add)
  then have "\<bar>i\<bar> * 2 ^ k * pow2 (- int k + 1074) = \<bar>i\<bar> * 2 ^ 1074" by (metis mult.assoc)
  then show "f_key (f_of_int i) = i * 2 ^ 1074" unfolding k(2) f_key.simps by (simp only: signed_def) auto
qed

lemma f_trunc_of_int: "\<bar>i\<bar> < 2 ^ 53 \<Longrightarrow> f_trunc (f_of_int i) = i"
  using f_of_int_exact [of i] by (auto simp: pow2_eq signed_def)

lemma f_trunc_key:
  assumes "f_wf f" "f_finite f" "0 \<le> f_key f"
  shows "f_trunc f = f_key f div 2 ^ 1074"
proof (cases f)
  case (Fin s m e)
  have m: "m = 0 \<or> \<not> s" "- 1074 \<le> e" using assms Fin by (auto simp: mult_le_0_iff signed_def split: if_splits)
  show ?thesis
  proof (cases "0 \<le> e")
    case True
    have "pow2 (e + 1074) = pow2 e * 2 ^ 1074" using True pow2_add [of e 1074] by (simp add: pow2_eq)
    then show ?thesis using Fin m True by (auto simp: signed_def mult.assoc [symmetric])
  next
    case False
    have "(2 :: int) ^ 1074 = pow2 (- e) * pow2 (e + 1074)" using False m pow2_add [of "- e" "e + 1074"] by (simp add: pow2_eq)
    then have "m * pow2 (e + 1074) div 2 ^ 1074 = m div pow2 (- e)" by (simp only: div_mult_mult2 pow2_neq_0 not_False_eq_True)
    then show ?thesis using Fin m False by (auto simp: signed_def)
  qed
qed (use assms in simp_all)

text \<open>Sums of finite numbers.\<close>

lemma f_add_num:
  assumes "f_wf a" "f_wf b" "f_finite a" "f_finite b"
  shows "f_num (f_add a b)"
    and "f_key a + f_key b = 0 \<Longrightarrow> f_key (f_add a b) = 0"
    and "0 < f_key a + f_key b \<Longrightarrow> 0 < f_key (f_add a b)"
proof -
  obtain s m e t n g where a: "a = Fin s m e" and b: "b = Fin t n g"
    using assms(3,4) by (cases a; cases b) auto
  have "f_num (f_add a b) \<and> (f_key a + f_key b = 0 \<longrightarrow> f_key (f_add a b) = 0) \<and>
      (0 < f_key a + f_key b \<longrightarrow> 0 < f_key (f_add a b))"
  proof (cases "(n = 0 \<and> m \<noteq> 0) \<or> (m = 0 \<and> n \<noteq> 0)")
    case True
    then show ?thesis using assms by (auto simp: a b f_num_def)
  next
    case proper: False
    have mn: "0 \<le> m" "0 \<le> n" using assms a b by auto
    define k where "k = min e g"
    define v where "v = signed s (m * pow2 (e - k)) + signed t (n * pow2 (g - k))"
    have add: "f_add a b = (if v = 0 then Fin (s \<and> t) 0 (- 1074) else f_round (v < 0) (\<bar>v\<bar> * pow2 k) (pow2 (- k)))"
      using proper by (auto simp: a b k_def v_def Let_def)
    have 1: "f_num (f_add a b)" unfolding add by (simp add: f_num_def)
    have k: "- 1074 \<le> k" using assms a b by (simp add: k_def)
    have "pow2 (e + 1074) = pow2 (e - k) * pow2 (k + 1074)" "pow2 (g + 1074) = pow2 (g - k) * pow2 (k + 1074)"
      using pow2_add [of "e - k" "k + 1074"] pow2_add [of "g - k" "k + 1074"] k by (auto simp: k_def)
    then have key: "f_key a + f_key b = v * (pow2 (k + 1074))"
      by (simp add: a b v_def signed_mult algebra_simps)
    have P: "0 < (pow2 (k + 1074))" by simp
    have 2: "f_key (f_add a b) = 0" if "f_key a + f_key b = 0"
      using that P unfolding key by (simp add: add)
    have 3: "0 < f_key (f_add a b)" if "0 < f_key a + f_key b"
    proof -
      have v: "0 < v" using that P unfolding key by (simp add: zero_less_mult_iff)
      have "(2 :: real) powi (- 1074) \<le> 2 powi k" using k by (intro power_int_increasing) auto
      also have "\<dots> = real_of_int (pow2 k) / real_of_int (pow2 (- k))" using pow2_real [of "- k"] by simp
      also have "\<dots> \<le> real_of_int (\<bar>v\<bar> * pow2 k) / real_of_int (pow2 (- k))"
        using v by (intro divide_right_mono) auto
      finally show ?thesis using v f_key_round_pos by (simp add: add)
    qed
    from 1 2 3 show ?thesis by blast
  qed
  then show "f_num (f_add a b)" "f_key a + f_key b = 0 \<Longrightarrow> f_key (f_add a b) = 0" "0 < f_key a + f_key b \<Longrightarrow> 0 < f_key (f_add a b)"
    by blast+
qed

lemma f_key_neg [simp]: "f_key (f_neg a) = - f_key a" "f_wf (f_neg a) = f_wf a" "f_finite (f_neg a) = f_finite a"
  by (cases a; simp add: signed_neg)+

lemma f_sub_num:
  assumes "f_wf a" "f_wf b" "f_finite a" "f_finite b"
  shows "f_num (f_sub a b)"
    and "f_key b \<le> f_key a \<Longrightarrow> 0 \<le> f_key (f_sub a b)"
    and "f_key b < f_key a \<Longrightarrow> 0 < f_key (f_sub a b)"
proof -
  note ad = f_add_num [of a "f_neg b", unfolded f_key_neg, OF assms, folded f_sub_def]
  show "f_num (f_sub a b)" by (rule ad(1))
  show "0 < f_key (f_sub a b)" if "f_key b < f_key a" using that ad(3) by simp
  show "0 \<le> f_key (f_sub a b)" if "f_key b \<le> f_key a"
    using that ad(2,3) by (cases "f_key b = f_key a") auto
qed

text \<open>Products of numbers that are not negative.\<close>

lemma f_mul_nonneg:
  assumes "f_finite a" "f_wf a" "f_num b" "0 \<le> f_key b" "0 < f_key a"
  shows "f_num (f_mul a b)" "0 \<le> f_key (f_mul a b)"
proof -
  obtain s m e where a: "a = Fin s m e" using assms(1) by (cases a) auto
  have m: "0 \<le> m" using assms(2) by (simp add: a)
  have s: "\<not> s" "0 < m" using assms(5) m by (auto simp: a signed_def zero_less_mult_iff mult_less_0_iff split: if_splits)
  show "f_num (f_mul a b)" using assms(3) s by (cases b) (auto simp: a f_num_def)
  show "0 \<le> f_key (f_mul a b)"
  proof (cases b)
    case (Fin t n g)
    show ?thesis
    proof (cases "n = 0")
      case True
      then show ?thesis by (simp add: a Fin f_round_def)
    next
      case False
      moreover have "0 \<le> n" using assms(3) by (simp add: Fin f_num_def)
      ultimately have "\<not> t" "0 \<le> m * n * pow2 (e + g)"
        using assms(4) s by (auto simp: Fin signed_def mult_le_0_iff split: if_splits)
      then show ?thesis using s f_key_round_sign [of "pow2 (- (e + g))" "m * n * pow2 (e + g)" False]
        by (simp add: a Fin)
    qed
  qed (use assms s in \<open>auto simp: a signed_def f_num_def split: if_splits\<close>)
qed

section \<open>Evaluation\<close>

text \<open>For evaluation: lengths and powers of two follow the binary numeral.\<close>

fun num_length :: "num \<Rightarrow> int" where
  "num_length num.One = 1"
| "num_length (num.Bit0 n) = 1 + num_length n"
| "num_length (num.Bit1 n) = 1 + num_length n"

lemma bit_length_num: "bit_length (numeral n) = num_length n"
proof (induction n)
  case One
  then show ?case by (simp add: bit_length.simps)
next
  case (Bit0 n)
  then show ?case by (subst bit_length.simps) simp
next
  case (Bit1 n)
  then show ?case by (subst bit_length.simps) simp
qed

lemma bit_length_code [code]:
  "bit_length 0 = 0"
  "bit_length (Int.Pos n) = num_length n"
  "bit_length (Int.Neg n) = 0"
  by (simp_all add: bit_length_num bit_length.simps [of 0] bit_length.simps [of "- numeral n"])

lemma pow2_code [code]: "pow2 e = (if e \<le> 0 then 1 else Int.dup (pow2 (e - 1)))"
proof (cases "e \<le> 0")
  case False
  then have "nat e = Suc (nat (e - 1))" by simp
  with False show ?thesis by (simp add: pow2_eq Int.dup_def)
qed simp


text \<open>For evaluation, a comparison with zero looks at the sign only.\<close>

lemma f_lt_code [code]:
  "f_lt NaN x = False"
  "f_lt (Inf s) NaN = False"
  "f_lt (Inf s) (Inf t) = (s \<and> \<not> t)"
  "f_lt (Inf s) (Fin t n g) = s"
  "f_lt (Fin s m e) NaN = False"
  "f_lt (Fin s m e) (Inf t) = (\<not> t)"
  "f_lt (Fin s m e) (Fin t n g) =
     (if n = 0 then (if s then 0 < m else m < 0) else if m = 0 then (if t then n < 0 else 0 < n)
      else let k = min e g in signed s (m * pow2 (e - k)) < signed t (n * pow2 (g - k)))"
  by (auto simp: Let_def signed_def mult_less_0_iff zero_less_mult_iff)

text \<open>Likewise products and quotients of zero.\<close>

lemma f_mul_code [code]:
  "f_mul NaN x = NaN"
  "f_mul (Inf s) NaN = NaN"
  "f_mul (Inf s) (Inf t) = Inf (s \<noteq> t)"
  "f_mul (Inf s) (Fin t m e) = (if m = 0 then NaN else Inf (s \<noteq> t))"
  "f_mul (Fin t m e) NaN = NaN"
  "f_mul (Fin t m e) (Inf s) = (if m = 0 then NaN else Inf (s \<noteq> t))"
  "f_mul (Fin s m e) (Fin t n g) =
     (if m = 0 \<or> n = 0 then Fin (s \<noteq> t) 0 (- 1074) else f_round (s \<noteq> t) (m * n * pow2 (e + g)) (pow2 (- (e + g))))"
  by (auto simp: f_round_def)

lemma f_div_code [code]:
  "f_div NaN x = NaN"
  "f_div (Inf s) NaN = NaN"
  "f_div (Inf s) (Inf t) = NaN"
  "f_div (Inf s) (Fin t n g) = Inf (s \<noteq> t)"
  "f_div (Fin s m e) NaN = NaN"
  "f_div (Fin s m e) (Inf t) = Fin (s \<noteq> t) 0 (- 1074)"
  "f_div (Fin s m e) (Fin t n g) =
     (if n = 0 then (if m = 0 then NaN else Inf (s \<noteq> t))
      else if m = 0 then Fin (s \<noteq> t) 0 (- 1074)
      else f_round (s \<noteq> t) (m * pow2 (e - g)) (n * pow2 (g - e)))"
  by (auto simp: f_round_def)

end
