(* ===== verification/Market.thy ===== *)
theory Market
  imports Float64 "HOL-Library.List_Lexorder" "HOL-Library.Char_ord"
begin

text \<open>
  The broker-neutral data of \<^verbatim>\<open>internal/market/market.go\<close> (instruments, order-book levels,
  ticks) and the broker identities of \<^verbatim>\<open>internal/brokers/types.go\<close> and \<^verbatim>\<open>namespace.go\<close>.
  Optional pointers of the Go structs, and slices the code compares with \<^verbatim>\<open>nil\<close>, are \<open>option\<close> values. Strings are byte strings;
  upper and lower case are those of ASCII, which is what the names involved use.
\<close>

section \<open>Brokers\<close>

type_synonym broker_id = string

definition Zerodha :: broker_id where "Zerodha = ''zerodha''"
definition Dhan :: broker_id where "Dhan = ''dhan''"
definition Legacy :: broker_id where "Legacy = Zerodha"

definition IsID :: "string \<Rightarrow> bool" where
  "IsID s \<longleftrightarrow> s = Zerodha \<or> s = Dhan"

definition Of :: "string option \<Rightarrow> broker_id" where
  "Of stored = (case stored of Some s \<Rightarrow> if IsID s then s else Legacy | None \<Rightarrow> Legacy)"

definition Label :: "broker_id \<Rightarrow> string" where
  "Label b = (if b = Dhan then ''DHAN'' else ''ZERODHA'')"

definition to_lower :: "char \<Rightarrow> char" where
  "to_lower c = (let n = of_char c :: nat in if 65 \<le> n \<and> n \<le> 90 then char_of (n + 32) else c)"

definition to_upper :: "char \<Rightarrow> char" where
  "to_upper c = (let n = of_char c :: nat in if 97 \<le> n \<and> n \<le> 122 then char_of (n - 32) else c)"

definition is_space :: "char \<Rightarrow> bool" where
  "is_space c = (let n = of_char c :: nat in n = 32 \<or> (9 \<le> n \<and> n \<le> 13))"

definition trim_space :: "string \<Rightarrow> string" where
  "trim_space s = rev (dropWhile is_space (rev (dropWhile is_space s)))"

text \<open>\<^verbatim>\<open>Parse\<close> on a value that is a string (\<open>Some\<close>) or anything else (\<open>None\<close>).\<close>

definition Parse :: "string option \<Rightarrow> broker_id option" where
  "Parse v = (case v of None \<Rightarrow> None
     | Some s \<Rightarrow> let s' = map to_lower (trim_space s) in if IsID s' then Some s' else None)"

record namespace =
  ns_Broker :: broker_id
  ns_Generation :: int

definition zero_namespace :: namespace where
  "zero_namespace = \<lparr>ns_Broker = '''', ns_Generation = 0\<rparr>"

section \<open>Instruments and ticks\<close>

record instrument =
  i_InstrumentToken :: token
  i_ExchangeToken :: token
  i_Tradingsymbol :: string
  i_Name :: string
  i_LastPrice :: f64
  i_Expiry :: string
  i_Strike :: f64
  i_TickSize :: f64
  i_LotSize :: f64
  i_InstrumentType :: string
  i_Segment :: string
  i_Exchange :: string

definition zero_instrument :: instrument where
  "zero_instrument = \<lparr>i_InstrumentToken = 0, i_ExchangeToken = 0, i_Tradingsymbol = '''', i_Name = '''',
     i_LastPrice = f_zero, i_Expiry = '''', i_Strike = f_zero, i_TickSize = f_zero, i_LotSize = f_zero,
     i_InstrumentType = '''', i_Segment = '''', i_Exchange = ''''\<rparr>"

record depth_level =
  dl_Price :: f64
  dl_Qty :: f64
  dl_Orders :: f64

record tick =
  t_Token :: token
  t_LastPrice :: f64
  t_ClosePrice :: f64
  t_OI :: f64
  t_Bid :: f64
  t_Ask :: f64
  t_Bids :: "depth_level list option"
  t_Asks :: "depth_level list option"
  t_DepthUpdated :: "bool option"
  t_ExchangeTS :: "millis option"
  t_AveragePrice :: "f64 option"
  t_PriceUpdated :: "bool option"
  t_AverageUpdated :: "bool option"
  t_Namespace :: "namespace option"

definition zero_tick :: tick where
  "zero_tick = \<lparr>t_Token = 0, t_LastPrice = f_zero, t_ClosePrice = f_zero, t_OI = f_zero, t_Bid = f_zero,
     t_Ask = f_zero, t_Bids = None, t_Asks = None, t_DepthUpdated = None, t_ExchangeTS = None,
     t_AveragePrice = None, t_PriceUpdated = None, t_AverageUpdated = None, t_Namespace = None\<rparr>"

section \<open>Facts\<close>

lemma IsID_Of [simp]: "IsID (Of s)"
  by (auto simp: Of_def IsID_def Legacy_def split: option.splits)

lemma Parse_IsID: "Parse v = Some b \<Longrightarrow> IsID b"
  by (auto simp: Parse_def Let_def split: option.splits if_splits)

lemma Parse_canonical: "IsID b \<Longrightarrow> Parse (Some b) = Some b"
  by (auto simp: IsID_def Zerodha_def Dhan_def Parse_def trim_space_def is_space_def to_lower_def Let_def)

lemma Of_Parse: "Parse v = Some b \<Longrightarrow> Of (Some b) = b"
  using Parse_IsID [of v b] by (simp add: Of_def)

end
