(* ===== verification/IstTime.thy ===== *)
theory IstTime
  imports Prelude "HOL-Library.List_Lexorder" "HOL-Library.Char_ord"
begin

text \<open>
  Instants, Indian Standard Time and the calendar: the fixed-offset arithmetic of
  \<^verbatim>\<open>internal/analytics/ist.go\<close> (session times, bucket ends, the capture clock of
  \<^verbatim>\<open>scheduler.go\<close>), the wall clock and day keys of \<^verbatim>\<open>internal/jsx/jsx.go\<close>, and the variants
  of both in \<^verbatim>\<open>internal/spike/types.go\<close> and \<^verbatim>\<open>internal/synthetic/math.go\<close>.

  Instants are epoch milliseconds. The part of Go's \<^verbatim>\<open>time\<close> package the code uses (the
  proleptic Gregorian date, the wall clock and the weekday of a UTC instant, and the
  layouts \<^verbatim>\<open>2006-01-02\<close> and \<^verbatim>\<open>15:04:05\<close>) is defined first.
\<close>

section \<open>Dates\<close>

definition leap :: "int \<Rightarrow> bool" where
  "leap y \<longleftrightarrow> y mod 4 = 0 \<and> (y mod 100 \<noteq> 0 \<or> y mod 400 = 0)"

definition year_len :: "int \<Rightarrow> int" where
  "year_len y = (if leap y then 366 else 365)"

definition month_len :: "int \<Rightarrow> int \<Rightarrow> int" where
  "month_len y m = (if m = 2 then (if leap y then 29 else 28)
     else if m = 4 \<or> m = 6 \<or> m = 9 \<or> m = 11 then 30 else 31)"

text \<open>The year and the day in it of day \<open>z\<close> counted from the first of January of year \<open>y\<close>.\<close>

function year_up :: "int \<Rightarrow> int \<Rightarrow> int \<times> int" where
  "year_up y z = (if z < year_len y then (y, z) else year_up (y + 1) (z - year_len y))"
  by auto

termination
  by (relation "measure (\<lambda>(y, z). nat z)") (auto simp: year_len_def split: if_splits)

function year_down :: "int \<Rightarrow> int \<Rightarrow> int \<times> int" where
  "year_down y z = (if z \<ge> 0 then (y, z) else year_down (y - 1) (z + year_len (y - 1)))"
  by auto

termination
  by (relation "measure (\<lambda>(y, z). nat (- z))") (auto simp: year_len_def)

declare year_up.simps [simp del] year_down.simps [simp del]

definition year_of_day :: "int \<Rightarrow> int \<times> int" where
  "year_of_day z = (if z \<ge> 0 then year_up 1970 z else year_down 1970 z)"

function month_up :: "int \<Rightarrow> int \<Rightarrow> int \<Rightarrow> int \<times> int" where
  "month_up y m z = (if m \<ge> 12 \<or> z < month_len y m then (m, z) else month_up y (m + 1) (z - month_len y m))"
  by auto

termination
  by (relation "measure (\<lambda>(y, m, z). nat (12 - m))") auto

declare month_up.simps [simp del]

text \<open>The date of a day counted from 1970-01-01.\<close>

definition date_of_day :: "int \<Rightarrow> int \<times> int \<times> int" where
  "date_of_day z = (let (y, r) = year_of_day z; (m, d) = month_up y 1 r in (y, m, d + 1))"

definition days_before_year :: "int \<Rightarrow> int" where
  "days_before_year y = 365 * (y - 1970) + ((y - 1) div 4 - (y - 1) div 100 + (y - 1) div 400 - 477)"

fun days_before_month :: "int \<Rightarrow> nat \<Rightarrow> int" where
  "days_before_month y 0 = 0"
| "days_before_month y (Suc k) = days_before_month y k + month_len y (int k + 1)"

definition day_of_date :: "int \<Rightarrow> int \<Rightarrow> int \<Rightarrow> int" where
  "day_of_date y m d = days_before_year y + days_before_month y (nat (m - 1)) + (d - 1)"

section \<open>Wall clock and layouts\<close>

definition minuteMs :: int where "minuteMs = 60 * 1000"
definition hourMs :: int where "hourMs = 60 * minuteMs"
definition dayMs :: int where "dayMs = 24 * hourMs"
definition istOffsetMs :: int where "istOffsetMs = 5 * hourMs + 30 * minuteMs"

lemmas ms_defs = minuteMs_def hourMs_def dayMs_def istOffsetMs_def

definition utc_hour :: "millis \<Rightarrow> int" where "utc_hour t = t mod dayMs div hourMs"
definition utc_minute :: "millis \<Rightarrow> int" where "utc_minute t = t mod hourMs div minuteMs"
definition utc_second :: "millis \<Rightarrow> int" where "utc_second t = t mod minuteMs div 1000"

text \<open>1970-01-01 was a Thursday; Sunday is 0.\<close>

definition utc_weekday :: "millis \<Rightarrow> int" where "utc_weekday t = (t div dayMs + 4) mod 7"

definition digit :: "int \<Rightarrow> char" where
  "digit d = ''0123456789'' ! nat (d mod 10)"

definition pad2 :: "int \<Rightarrow> string" where
  "pad2 n = [digit (n div 10), digit n]"

text \<open>Layout \<^verbatim>\<open>2006\<close>, for the years 0 to 9999.\<close>

definition pad4 :: "int \<Rightarrow> string" where
  "pad4 n = [digit (n div 1000), digit (n div 100), digit (n div 10), digit n]"

definition format_date :: "millis \<Rightarrow> string" where
  "format_date t = (case date_of_day (t div dayMs) of (y, m, d) \<Rightarrow> pad4 y @ ''-'' @ pad2 m @ ''-'' @ pad2 d)"

definition format_time :: "millis \<Rightarrow> string" where
  "format_time t = pad2 (utc_hour t) @ '':'' @ pad2 (utc_minute t) @ '':'' @ pad2 (utc_second t)"

section \<open>The code's clock\<close>

subsection \<open>\<^verbatim>\<open>jsx.go\<close>\<close>

definition IstDayKey :: "millis \<Rightarrow> string" where
  "IstDayKey t = format_date (t + istOffsetMs)"

definition IstDateTime :: "millis \<Rightarrow> string" where
  "IstDateTime t = format_date (t + istOffsetMs) @ '' '' @ format_time (t + istOffsetMs)"

definition IstClock :: "millis \<Rightarrow> int \<times> int \<times> int \<times> int \<times> int \<times> int \<times> int" where
  "IstClock t = (let s = t + istOffsetMs; (y, m, d) = date_of_day (s div dayMs)
     in (y, m, d, utc_hour s, utc_minute s, utc_second s, utc_weekday s))"

definition IsMarketOpen :: "millis \<Rightarrow> bool" where
  "IsMarketOpen t = (case IstClock t of (_, _, _, h, m, _, wd) \<Rightarrow>
     if wd = 0 \<or> wd = 6 then False
     else let mins = h * 60 + m in mins \<ge> 9 * 60 + 15 \<and> mins \<le> 15 * 60 + 40)"

subsection \<open>\<^verbatim>\<open>analytics/ist.go\<close> and \<^verbatim>\<open>scheduler.go\<close>\<close>

definition captureIntervalMs :: int where "captureIntervalMs = 60 * 1000"
definition captureLeadMs :: int where "captureLeadMs = 3 * 1000"
definition sessionOpenMinute :: int where "sessionOpenMinute = 9 * 60 + 15"
definition sessionCloseMinute :: int where "sessionCloseMinute = 15 * 60 + 40"

definition floorDiv :: "int \<Rightarrow> int \<Rightarrow> int" where
  "floorDiv a b = (let q = go_div a b in if go_mod a b \<noteq> 0 \<and> (a < 0) \<noteq> (b < 0) then q - 1 else q)"

definition ceilDiv :: "int \<Rightarrow> int \<Rightarrow> int" where
  "ceilDiv a b = - floorDiv (- a) b"

definition istTimeOnDayMs :: "millis \<Rightarrow> int \<Rightarrow> millis" where
  "istTimeOnDayMs t minutesOfDay =
     (let istMidnight = floorDiv (t + istOffsetMs) dayMs * dayMs
      in istMidnight + minutesOfDay * minuteMs - istOffsetMs)"

definition sessionOpenMs :: "millis \<Rightarrow> millis" where
  "sessionOpenMs t = istTimeOnDayMs t sessionOpenMinute"

definition sessionCloseMs :: "millis \<Rightarrow> millis" where
  "sessionCloseMs t = istTimeOnDayMs t sessionCloseMinute"

definition isPreOpenBucket :: "millis \<Rightarrow> bool" where
  "isPreOpenBucket bEnd \<longleftrightarrow> bEnd \<le> sessionOpenMs bEnd"

definition bucketEndMs :: "millis \<Rightarrow> int \<Rightarrow> millis" where
  "bucketEndMs t bsize =
     (let cl = sessionCloseMs t
      in if t \<ge> cl then cl
         else let aligned = ceilDiv (t + istOffsetMs) bsize * bsize - istOffsetMs
              in if aligned < cl then aligned else cl)"

definition candleEndMs :: "millis \<Rightarrow> int \<Rightarrow> millis" where
  "candleEndMs candleStart bsize = bucketEndMs (candleStart + minuteMs) bsize"

definition isIstMarketHours :: "string set \<Rightarrow> millis \<Rightarrow> bool" where
  "isIstMarketHours extra now =
     (let ist = now + istOffsetMs; dow = utc_weekday ist
      in if (dow = 0 \<or> dow = 6) \<and> IstDayKey now \<notin> extra then False
         else let mins = utc_hour ist * 60 + utc_minute ist in mins \<ge> 9 * 60 + 10 \<and> mins \<le> 15 * 60 + 45)"

definition nextTickDelay :: "millis \<Rightarrow> millis" where
  "nextTickDelay now =
     (let step = captureIntervalMs;
          target = ceilDiv (now + captureLeadMs) step * step - captureLeadMs;
          target' = (if target - now < 1000 then target + step else target)
      in target' - now)"

subsection \<open>\<^verbatim>\<open>spike/types.go\<close> and \<^verbatim>\<open>synthetic/math.go\<close>\<close>

definition dayKey :: "millis \<Rightarrow> string" where
  "dayKey at = format_date (at + istOffsetMs)"

definition bucketEnd :: "millis \<Rightarrow> int \<Rightarrow> millis" where
  "bucketEnd at minutes =
     (let step = minutes * 60000; offset = 330 * 60000
      in go_div (at + offset + step - 1) step * step - offset)"

definition marketOpen :: "millis \<Rightarrow> bool" where
  "marketOpen at =
     (let local = at + istOffsetMs; minutes = utc_hour local * 60 + utc_minute local
      in utc_weekday local \<noteq> 6 \<and> utc_weekday local \<noteq> 0 \<and> minutes \<ge> 9 * 60 + 15 \<and> minutes < 15 * 60 + 31)"

definition ISTCloseMinutes :: int where "ISTCloseMinutes = 15 * 60 + 30"

definition ISTMinutesOfDay :: "millis \<Rightarrow> int" where
  "ISTMinutesOfDay now = (let ist = now + 19800000 in utc_hour ist * 60 + utc_minute ist)"

definition IsPastSettlement :: "string \<Rightarrow> string \<Rightarrow> millis \<Rightarrow> bool \<Rightarrow> bool" where
  "IsPastSettlement expiry today now market_open =
     (if expiry < today then True
      else expiry = today \<and> \<not> market_open \<and> ISTMinutesOfDay now \<ge> ISTCloseMinutes)"

section \<open>Dates and day numbers\<close>

lemma div_pred:
  fixes y k :: int
  assumes "0 < k"
  shows "y div k = (y - 1) div k + (if y mod k = 0 then 1 else 0)"
proof (cases "y mod k = 0")
  case True
  then have "y - 1 = k * (y div k - 1) + (k - 1)" by (simp add: algebra_simps minus_mod_eq_mult_div [symmetric])
  then have "(y - 1) div k = y div k - 1" by (rule int_div_pos_eq) (use assms in auto)
  with True show ?thesis by simp
next
  case False
  have "y - 1 = k * (y div k) + (y mod k - 1)" by (simp add: algebra_simps minus_mod_eq_mult_div [symmetric])
  moreover have "0 \<le> y mod k - 1" "y mod k - 1 < k" using False assms pos_mod_sign [of k y] pos_mod_bound [of k y] by linarith+
  ultimately have "(y - 1) div k = y div k" by (rule int_div_pos_eq)
  with False show ?thesis by simp
qed

lemma leap_sum:
  fixes y a b c a' b' c' :: int
  assumes "a' = a + (if P then 1 else 0)" "b' = b + (if Q then 1 else 0)" "c' = c + (if R then 1 else 0)" "R \<Longrightarrow> Q" "Q \<Longrightarrow> P"
  shows "365 * (y + 1 - 1970) + (a' - b' + c' - 477) =
    365 * (y - 1970) + (a - b + c - 477) + (if P \<and> (\<not> Q \<or> R) then 366 else 365)"
  by (cases P; cases Q; cases R) (use assms in simp_all)

lemma year_len_step: "days_before_year (y + 1) = days_before_year y + year_len y"
proof -
  have "y div 4 = (y - 1) div 4 + (if y mod 4 = 0 then 1 else 0)"
    "y div 100 = (y - 1) div 100 + (if y mod 100 = 0 then 1 else 0)"
    "y div 400 = (y - 1) div 400 + (if y mod 400 = 0 then 1 else 0)"
    by (rule div_pred, simp)+
  moreover have "y mod 400 = 0 \<Longrightarrow> y mod 100 = 0" "y mod 100 = 0 \<Longrightarrow> y mod 4 = 0"
    using dvd_trans [of 100 400 y] dvd_trans [of 4 100 y] by (simp_all add: dvd_eq_mod_eq_0)
  ultimately show ?thesis
    unfolding days_before_year_def year_len_def leap_def add_diff_cancel_right' by (rule leap_sum)
qed

lemma year_up_day:
  "0 \<le> z \<Longrightarrow> year_up y z = (y', r) \<Longrightarrow> days_before_year y' + r = days_before_year y + z \<and> 0 \<le> r \<and> r < year_len y'"
proof (induction y z rule: year_up.induct)
  case (1 y z)
  show ?case
  proof (cases "z < year_len y")
    case True
    then show ?thesis using 1 by (simp add: year_up.simps)
  next
    case False
    then have "year_up (y + 1) (z - year_len y) = (y', r)" using 1 by (simp add: year_up.simps)
    with 1(1) [OF False] False year_len_step [of y] show ?thesis by auto
  qed
qed

lemma year_down_day:
  "z < year_len y \<Longrightarrow> year_down y z = (y', r) \<Longrightarrow>
   days_before_year y' + r = days_before_year y + z \<and> 0 \<le> r \<and> r < year_len y'"
proof (induction y z rule: year_down.induct)
  case (1 y z)
  show ?case
  proof (cases "0 \<le> z")
    case True
    then show ?thesis using 1 by (simp add: year_down.simps)
  next
    case False
    then have "year_down (y - 1) (z + year_len (y - 1)) = (y', r)" using 1 by (simp add: year_down.simps)
    with 1(1) [OF False] False year_len_step [of "y - 1"] show ?thesis by auto
  qed
qed

lemma year_of_day_sound:
  assumes "year_of_day z = (y, r)"
  shows "days_before_year y + r = z" "0 \<le> r" "r < year_len y"
proof -
  have base: "days_before_year 1970 = 0" by (simp add: days_before_year_def)
  have "z < year_len 1970" if "z < 0" using that by (simp add: year_len_def)
  then have "days_before_year y + r = z \<and> 0 \<le> r \<and> r < year_len y"
    using assms year_up_day [of z 1970 y r] year_down_day [of z 1970 y r] base
    by (cases "0 \<le> z") (auto simp: year_of_day_def)
  then show "days_before_year y + r = z" "0 \<le> r" "r < year_len y" by auto
qed

lemma days_before_month_Suc: "1 \<le> m \<Longrightarrow> days_before_month y (nat m) = days_before_month y (nat (m - 1)) + month_len y m"
proof -
  assume "1 \<le> m"
  then have "nat m = Suc (nat (m - 1))" "int (nat (m - 1)) + 1 = m" by auto
  then show ?thesis by simp
qed

lemma month_len_pos: "28 \<le> month_len y m" "month_len y m \<le> 31"
  by (auto simp: month_len_def)

lemma days_in_year: "days_before_month y 11 + month_len y 12 = year_len y"
  by (simp add: eval_nat_numeral month_len_def year_len_def)

lemma month_up_day:
  "1 \<le> m \<Longrightarrow> m \<le> 12 \<Longrightarrow> 0 \<le> z \<Longrightarrow> days_before_month y (nat (m - 1)) + z < year_len y \<Longrightarrow> month_up y m z = (m', r) \<Longrightarrow>
   days_before_month y (nat (m' - 1)) + r = days_before_month y (nat (m - 1)) + z \<and>
   1 \<le> m' \<and> m' \<le> 12 \<and> 0 \<le> r \<and> r < month_len y m'"
proof (induction y m z rule: month_up.induct)
  case (1 y m z)
  show ?case
  proof (cases "m \<ge> 12 \<or> z < month_len y m")
    case True
    have "z < month_len y m" if "12 \<le> m"
    proof -
      have "m = 12" using that 1(3) by simp
      then show ?thesis using 1(5) days_in_year [of y] by simp
    qed
    moreover have "m' = m \<and> r = z" using True 1(6) by (subst (asm) month_up.simps) simp
    ultimately show ?thesis using True 1(2-4) by auto
  next
    case False
    then have "month_up y (m + 1) (z - month_len y m) = (m', r)"
      using 1(6) by (subst (asm) month_up.simps) simp
    moreover have "days_before_month y (nat (m + 1 - 1)) + (z - month_len y m) = days_before_month y (nat (m - 1)) + z"
      using days_before_month_Suc [of m y] 1(2) by simp
    ultimately show ?thesis using 1(1) [OF False] 1(2-5) False by simp
  qed
qed

lemma date_of_day_sound:
  assumes "date_of_day z = (y, m, d)"
  shows "day_of_date y m d = z \<and> 1 \<le> m \<and> m \<le> 12 \<and> 1 \<le> d \<and> d \<le> month_len y m"
proof -
  obtain y' r where y: "year_of_day z = (y', r)" by (cases "year_of_day z")
  obtain m' d' where m: "month_up y' 1 r = (m', d')" by (cases "month_up y' 1 r")
  have eq: "y = y'" "m = m'" "d = d' + 1" using assms by (auto simp: date_of_day_def y m)
  note ys = year_of_day_sound [OF y]
  have "days_before_month y' (nat (m' - 1)) + d' = r \<and> 1 \<le> m' \<and> m' \<le> 12 \<and> 0 \<le> d' \<and> d' < month_len y' m'"
    using month_up_day [of 1 r y' m' d'] ys m by simp
  then show ?thesis using ys(1) by (auto simp: day_of_date_def eq)
qed

lemma date_of_day_inject: "date_of_day z = date_of_day z' \<longleftrightarrow> z = z'"
  by (metis date_of_day_sound prod_cases3)

section \<open>Layouts\<close>

lemma digit_inject: "digit a = digit b \<longleftrightarrow> a mod 10 = b mod 10"
proof -
  have all: "\<forall>i \<in> {0..<10}. \<forall>j \<in> {0..<10}. ''0123456789'' ! i = ''0123456789'' ! j \<longrightarrow> i = j"
    by (simp add: atLeastLessThan_nat_numeral)
  have "nat (a mod 10) \<in> {0..<10}" "nat (b mod 10) \<in> {0..<10}" by auto
  with all have "digit a = digit b \<Longrightarrow> nat (a mod 10) = nat (b mod 10)" unfolding digit_def by blast
  then show ?thesis by (auto simp: digit_def)
qed

lemma digit_ext: "(a :: int) div 10 = b div 10 \<Longrightarrow> a mod 10 = b mod 10 \<Longrightarrow> a = b"
  by (metis div_mult_mod_eq)

lemma pad2_inject:
  assumes "0 \<le> a" "a < 100" "0 \<le> b" "b < 100"
  shows "pad2 a = pad2 b \<longleftrightarrow> a = b"
proof -
  have "a div 10 mod 10 = a div 10" "b div 10 mod 10 = b div 10" using assms by simp_all
  then show ?thesis by (auto simp: pad2_def digit_inject intro: digit_ext)
qed

lemma pad4_inject:
  assumes "0 \<le> a" "a < 10000" "0 \<le> b" "b < 10000"
  shows "pad4 a = pad4 b \<longleftrightarrow> a = b"
proof
  assume "pad4 a = pad4 b"
  then have d: "a div 1000 mod 10 = b div 1000 mod 10" "a div 100 mod 10 = b div 100 mod 10"
    "a div 10 mod 10 = b div 10 mod 10" "a mod 10 = b mod 10"
    by (simp_all add: pad4_def digit_inject)
  have "a div 1000 mod 10 = a div 1000" "b div 1000 mod 10 = b div 1000" using assms by simp_all
  then have "a div 1000 = b div 1000" using d(1) by metis
  moreover have "x div 100 div 10 = x div 1000" "x div 10 div 10 = x div 100" for x :: int
    using zdiv_zmult2_eq [of 10 x 100] zdiv_zmult2_eq [of 10 x 10] by simp_all
  note h = this
  ultimately have "a div 100 div 10 = b div 100 div 10" unfolding h by simp
  then have "a div 100 = b div 100" using d(2) by (rule digit_ext)
  then have "a div 10 div 10 = b div 10 div 10" unfolding h .
  then have "a div 10 = b div 10" using d(3) by (rule digit_ext)
  then show "a = b" using d(4) by (rule digit_ext)
qed simp

lemma pad_length [simp]: "length (pad2 n) = 2" "length (pad4 n) = 4"
  by (simp_all add: pad2_def pad4_def)

text \<open>A day key identifies the IST day, for every instant of the years 0 to 9999.\<close>

definition four_digit_year :: "millis \<Rightarrow> bool" where
  "four_digit_year t \<longleftrightarrow> (case date_of_day ((t + istOffsetMs) div dayMs) of (y, _, _) \<Rightarrow> 0 \<le> y \<and> y < 10000)"

text \<open>
  Two instants have the same day key exactly when they fall on the same IST day, so that
  comparing day keys (which every daily reset and every load of the day's records does) never
  confuses two days. The keys of the two packages agree.
\<close>

theorem dayKey_identifies_day:
  assumes "four_digit_year a" "four_digit_year b"
  shows "(dayKey a = dayKey b \<longleftrightarrow> (a + istOffsetMs) div dayMs = (b + istOffsetMs) div dayMs) \<and> IstDayKey a = dayKey a"
proof -
  obtain y m d where a: "date_of_day ((a + istOffsetMs) div dayMs) = (y, m, d)" using prod_cases3 by blast
  obtain y' m' d' where b: "date_of_day ((b + istOffsetMs) div dayMs) = (y', m', d')" using prod_cases3 by blast
  note as = date_of_day_sound [OF a] and bs = date_of_day_sound [OF b]
  have d: "d < 100" "d' < 100" using as bs month_len_pos [of y m] month_len_pos [of y' m'] by linarith+
  have y: "0 \<le> y" "y < 10000" "0 \<le> y'" "y' < 10000" using assms by (auto simp: four_digit_year_def a b)
  have "dayKey a = dayKey b \<longleftrightarrow> pad4 y = pad4 y' \<and> pad2 m = pad2 m' \<and> pad2 d = pad2 d'"
    by (simp add: dayKey_def format_date_def a b pad2_def pad4_def)
  also have "\<dots> \<longleftrightarrow> y = y' \<and> m = m' \<and> d = d'"
    using as bs d y pad4_inject [of y y'] pad2_inject [of m m'] pad2_inject [of d d'] by auto
  also have "\<dots> \<longleftrightarrow> (a + istOffsetMs) div dayMs = (b + istOffsetMs) div dayMs"
    using a b date_of_day_inject by (metis prod.inject)
  finally show ?thesis by (simp add: IstDayKey_def dayKey_def)
qed

theorem dayKey_identifies_day_witness:
  "dayKey 0 = ''1970-01-01'' \<and> dayKey 0 \<noteq> dayKey 86400000"
proof -
  have "four_digit_year 0" "four_digit_year 86400000" by code_simp+
  from dayKey_identifies_day [OF this] have "dayKey 0 \<noteq> dayKey 86400000"
    by (simp add: ms_defs)
  moreover have "dayKey 0 = ''1970-01-01''" by code_simp
  ultimately show ?thesis by blast
qed

section \<open>Buckets and sessions\<close>

lemma floorDiv_eq: "0 < b \<Longrightarrow> floorDiv a b = a div b"
proof (cases "0 \<le> a")
  case False
  assume b: "0 < b"
  let ?q = "(- a) div b" and ?r = "(- a) mod b"
  have a: "a = - (b * ?q) - ?r" by (simp add: algebra_simps minus_mod_eq_mult_div [symmetric])
  have r: "0 \<le> ?r" "?r < b" using b by auto
  have gd: "go_div a b = - ?q" "go_mod a b = - ?r"
    using False b a by (auto simp: go_div_neg go_mod_def)
  show ?thesis
  proof (cases "?r = 0")
    case True
    have "a = b * (- ?q) + 0" using a True by simp
    then have "a div b = - ?q" by (rule int_div_pos_eq) (use b in auto)
    then show ?thesis by (simp add: floorDiv_def gd True)
  next
    case False
    have "a = b * (- ?q - 1) + (b - ?r)" using a by (simp add: algebra_simps)
    then have "a div b = - ?q - 1" by (rule int_div_pos_eq) (use r False in auto)
    then show ?thesis using \<open>\<not> 0 \<le> a\<close> b False by (simp add: floorDiv_def gd Let_def)
  qed
qed (simp add: floorDiv_def)

lemma ceilDiv_bounds:
  assumes "0 < b"
  shows "a \<le> ceilDiv a b * b" "ceilDiv a b * b < a + b"
proof -
  have "ceilDiv a b * b = - ((- a) div b * b)" by (simp add: ceilDiv_def floorDiv_eq assms)
  moreover have "(- a) div b * b \<le> - a" "- a < (- a) div b * b + b"
    using assms pos_mod_sign [of b "- a"] pos_mod_bound [of b "- a"] div_mult_mod_eq [of "- a" b] by linarith+
  ultimately show "a \<le> ceilDiv a b * b" "ceilDiv a b * b < a + b" by linarith+
qed

lemma ceilDiv_mult: "0 < b \<Longrightarrow> ceilDiv (k * b) b = k"
  by (simp add: ceilDiv_def floorDiv_eq flip: mult_minus_left)

lemma istTimeOnDayMs_eq: "istTimeOnDayMs t m = (t + istOffsetMs) div dayMs * dayMs + m * minuteMs - istOffsetMs"
  by (simp add: istTimeOnDayMs_def floorDiv_eq ms_defs)

lemma session_same_day:
  assumes "(t + istOffsetMs) div dayMs = (t' + istOffsetMs) div dayMs"
  shows "sessionCloseMs t = sessionCloseMs t'" "sessionOpenMs t = sessionOpenMs t'"
  using assms by (simp_all add: sessionCloseMs_def sessionOpenMs_def istTimeOnDayMs_eq)

lemma close_on_day: "(sessionCloseMs t + istOffsetMs) div dayMs = (t + istOffsetMs) div dayMs"
  by (rule int_div_pos_eq [where r = "sessionCloseMinute * minuteMs"])
    (simp_all add: sessionCloseMs_def istTimeOnDayMs_eq sessionCloseMinute_def ms_defs)

lemma div_between: "(a :: int) \<le> b \<Longrightarrow> b \<le> c \<Longrightarrow> 0 < k \<Longrightarrow> a div k = c div k \<Longrightarrow> b div k = c div k"
  by (metis order_antisym zdiv_mono1)

text \<open>
  The bucket of a sample. Before the close of its IST day a sample belongs to the bucket
  that ends at the first aligned boundary at or after it, cut off at the close; from the close on
  it belongs to the closing bucket. A bucket end is its own bucket, and of two samples of one day
  the later never lands in an earlier bucket.
\<close>

theorem bucketEndMs_correct:
  assumes "0 < bsize"
  shows "(if t < sessionCloseMs t then t \<le> bucketEndMs t bsize \<and> bucketEndMs t bsize < t + bsize \<and>
        bucketEndMs t bsize \<le> sessionCloseMs t \<and>
        (bucketEndMs t bsize = sessionCloseMs t \<or> (bucketEndMs t bsize + istOffsetMs) mod bsize = 0)
      else bucketEndMs t bsize = sessionCloseMs t) \<and>
    bucketEndMs (bucketEndMs t bsize) bsize = bucketEndMs t bsize \<and>
    (t \<le> t' \<and> (t + istOffsetMs) div dayMs = (t' + istOffsetMs) div dayMs \<longrightarrow> bucketEndMs t bsize \<le> bucketEndMs t' bsize)"
proof -
  let ?al = "\<lambda>t. ceilDiv (t + istOffsetMs) bsize * bsize - istOffsetMs"
  have al: "t \<le> ?al t" "?al t < t + bsize" for t
    using ceilDiv_bounds [OF assms, of "t + istOffsetMs"] by linarith+
  have be: "bucketEndMs t bsize = (if sessionCloseMs t \<le> t then sessionCloseMs t else min (?al t) (sessionCloseMs t))" for t
    by (simp add: bucketEndMs_def Let_def min_def)
  have one: "if t < sessionCloseMs t then t \<le> bucketEndMs t bsize \<and> bucketEndMs t bsize < t + bsize \<and>
        bucketEndMs t bsize \<le> sessionCloseMs t \<and>
        (bucketEndMs t bsize = sessionCloseMs t \<or> (bucketEndMs t bsize + istOffsetMs) mod bsize = 0)
      else bucketEndMs t bsize = sessionCloseMs t"
    using al [of t] by (auto simp: be min_def)
  have day: "(bucketEndMs t bsize + istOffsetMs) div dayMs = (t + istOffsetMs) div dayMs"
  proof (cases "t < sessionCloseMs t")
    case True
    have "(bucketEndMs t bsize + istOffsetMs) div dayMs = (sessionCloseMs t + istOffsetMs) div dayMs"
      by (rule div_between [of "t + istOffsetMs"]) (use one True in \<open>simp_all add: close_on_day\<close>, simp add: ms_defs)
    then show ?thesis by (simp add: close_on_day)
  next
    case False
    then show ?thesis using one by (simp add: close_on_day)
  qed
  have cl: "sessionCloseMs (bucketEndMs t bsize) = sessionCloseMs t" by (rule session_same_day [OF day])
  have "ceilDiv (?al t + istOffsetMs) bsize = ceilDiv (t + istOffsetMs) bsize" by (simp add: ceilDiv_mult [OF assms])
  then have idem: "bucketEndMs (bucketEndMs t bsize) bsize = bucketEndMs t bsize"
    unfolding be [of "bucketEndMs t bsize"] cl by (auto simp: be [of t] min_def)
  have mono: "bucketEndMs t bsize \<le> bucketEndMs t' bsize"
    if "t \<le> t'" "(t + istOffsetMs) div dayMs = (t' + istOffsetMs) div dayMs"
  proof -
    have "(- (t' + istOffsetMs)) div bsize \<le> (- (t + istOffsetMs)) div bsize" using that(1) assms by (intro zdiv_mono1) auto
    then have "ceilDiv (t + istOffsetMs) bsize \<le> ceilDiv (t' + istOffsetMs) bsize" by (simp add: ceilDiv_def floorDiv_eq assms)
    then have "?al t \<le> ?al t'" using assms by simp
    then show ?thesis using session_same_day(1) [OF that(2)] that(1) by (auto simp: be min_def)
  qed
  show ?thesis using one idem mono by blast
qed

theorem bucketEndMs_correct_witness:
  "bucketEndMs (bucketEndMs 1000 900000) 900000 = bucketEndMs 1000 900000 \<and> bucketEndMs 1000 900000 = 900000"
proof -
  have "bucketEndMs 1000 900000 = 900000" by code_simp
  then show ?thesis using bucketEndMs_correct [of 900000 1000 1000] by simp
qed

text \<open>
  The capture clock: the next tick is at least one second away and at most 61 seconds, and it
  always lands on second 57 of a minute.
\<close>

theorem nextTickDelay_correct:
  "1000 \<le> nextTickDelay now \<and> nextTickDelay now < 61000 \<and> (now + nextTickDelay now) mod 60000 = 57000"
proof -
  define c where "c = ceilDiv (now + 3000) 60000"
  have b: "now + 3000 \<le> c * 60000" "c * 60000 < now + 3000 + 60000"
    using ceilDiv_bounds [of 60000 "now + 3000"] by (simp_all add: c_def)
  have "nextTickDelay now = (if c * 60000 - 3000 - now < 1000 then c * 60000 + 60000 - 3000 - now else c * 60000 - 3000 - now)"
    by (simp add: nextTickDelay_def Let_def captureIntervalMs_def captureLeadMs_def c_def)
  then have "1000 \<le> nextTickDelay now" "nextTickDelay now < 61000"
      "\<exists>k. now + nextTickDelay now = 57000 + k * 60000"
    using b by (auto intro: exI [of _ "c - 1"] exI [of _ c])
  moreover have "(57000 + k * 60000) mod 60000 = 57000" for k :: int by simp
  ultimately show ?thesis by metis
qed

end
