(* ===== verification/SpikeRules.thy ===== *)
theory SpikeRules
  imports Market IstTime
begin

text \<open>
  The rules of the Spike strategy: the rolling price window (\<^verbatim>\<open>internal/spike/window.go\<close>),
  the entry rule \<^verbatim>\<open>Qualify\<close> and the profit formula (\<^verbatim>\<open>types.go\<close>), and the option universe
  with its hedge choice (\<^verbatim>\<open>universe.go\<close>). Prices are \<open>f64\<close> values, compared and combined
  exactly as the Go code does.
\<close>

section \<open>Constants and data\<close>

definition WindowMs :: int where "WindowMs = 30 * 60 * 1000"
definition MinimumMovePct :: f64 where "MinimumMovePct = f_of_int 5"
definition HedgeSteps :: int where "HedgeSteps = 4"
definition quoteAgeMs :: int where "quoteAgeMs = 60 * 1000"
definition bookAgeMs :: int where "bookAgeMs = 15 * 1000"
definition maxTokens :: nat where "maxTokens = 5000"

definition Symbols :: "string list" where "Symbols = [''NIFTY'', ''SENSEX'']"

record sample =
  s_T :: millis
  s_Premium :: f64
  s_VWAP :: f64
  s_Strike :: f64
  s_Expiry :: string
  s_CEToken :: token
  s_PEToken :: token

definition zero_sample :: sample where
  "zero_sample = \<lparr>s_T = 0, s_Premium = f_zero, s_VWAP = f_zero, s_Strike = f_zero, s_Expiry = '''',
     s_CEToken = 0, s_PEToken = 0\<rparr>"

record signal =
  g_Direction :: string
  g_T :: millis
  g_Reference :: f64
  g_ReferenceAt :: millis
  g_MovePct :: f64
  g_Premium :: f64
  g_VWAP :: f64

record leg =
  l_Token :: token
  l_Symbol :: string
  l_Strike :: f64
  l_Entry :: f64
  l_Exit :: "f64 option"

record trade =
  tr_ID :: string
  tr_Symbol :: string
  tr_Status :: string
  tr_Direction :: string
  tr_Expiry :: string
  tr_LotSize :: int
  tr_Quantity :: int
  tr_OpenedAt :: millis
  tr_ClosedAt :: "millis option"
  tr_Short :: leg
  tr_Hedge :: leg
  tr_Signal :: signal
  tr_EntryCredit :: f64
  tr_MarkShort :: "f64 option"
  tr_MarkHedge :: "f64 option"
  tr_MarkAt :: "millis option"
  tr_PNL :: "f64 option"
  tr_MarkStale :: bool

section \<open>The rolling window\<close>

record price_window =
  w_low :: "sample list"
  w_high :: "sample list"

definition empty_window :: price_window where
  "empty_window = \<lparr>w_low = [], w_high = []\<rparr>"

text \<open>Cutting the end of a queue while its last element satisfies a condition.\<close>

definition pop_while :: "('a \<Rightarrow> bool) \<Rightarrow> 'a list \<Rightarrow> 'a list" where
  "pop_while P xs = rev (dropWhile P (rev xs))"

definition expire :: "millis \<Rightarrow> sample list \<Rightarrow> sample list" where
  "expire now xs = dropWhile (\<lambda>s. now - s_T s > WindowMs) xs"

definition window_References :: "millis \<Rightarrow> price_window \<Rightarrow> price_window \<times> sample list" where
  "window_References now w =
     (let low = expire now (w_low w); high = expire now (w_high w)
      in (\<lparr>w_low = low, w_high = high\<rparr>,
          (if low \<noteq> [] then [hd low] else []) @ (if high \<noteq> [] then [hd high] else [])))"

definition window_Add :: "sample \<Rightarrow> price_window \<Rightarrow> price_window" where
  "window_Add s w =
     (let low = pop_while (\<lambda>x. f_le (s_Premium s) (s_Premium x)) (w_low w) @ [s];
          high = pop_while (\<lambda>x. f_le (s_Premium x) (s_Premium s)) (w_high w) @ [s]
      in fst (window_References (s_T s) \<lparr>w_low = low, w_high = high\<rparr>))"

section \<open>The entry rule\<close>

definition finite_f :: "f64 \<Rightarrow> bool" where
  "finite_f v \<longleftrightarrow> f_finite v"

definition cross_direction :: "sample \<Rightarrow> sample \<Rightarrow> string" where
  "cross_direction previous current =
     (if f_le (s_Premium previous) (s_VWAP previous) \<and> f_lt (s_VWAP current) (s_Premium current) \<and>
         f_lt (s_Premium previous) (s_Premium current) then ''CALL_CREDIT''
      else if f_le (s_VWAP previous) (s_Premium previous) \<and> f_lt (s_Premium current) (s_VWAP current) \<and>
         f_lt (s_Premium current) (s_Premium previous) then ''PUT_CREDIT''
      else '''')"

definition eligible :: "sample \<Rightarrow> sample \<Rightarrow> bool" where
  "eligible current s \<longleftrightarrow> \<not> (s_T s \<ge> s_T current \<or> s_T current - s_T s > WindowMs \<or>
     f_le (s_Premium s) f_zero \<or> \<not> finite_f (s_Premium s))"

fun pick_reference :: "string \<Rightarrow> sample \<Rightarrow> sample list \<Rightarrow> sample option \<Rightarrow> sample option" where
  "pick_reference dir current [] reference = reference"
| "pick_reference dir current (s # ss) reference =
     (if \<not> eligible current s then pick_reference dir current ss reference
      else pick_reference dir current ss
        (case reference of
           None \<Rightarrow> Some s
         | Some r \<Rightarrow> if (dir = ''CALL_CREDIT'' \<and> f_lt (s_Premium s) (s_Premium r)) \<or>
                       (dir = ''PUT_CREDIT'' \<and> f_lt (s_Premium r) (s_Premium s)) then Some s else Some r))"

definition move_pct :: "sample \<Rightarrow> sample \<Rightarrow> f64" where
  "move_pct current reference =
     f_mul (f_sub (f_div (s_Premium current) (s_Premium reference)) (f_of_int 1)) (f_of_int 100)"

definition Qualify :: "sample \<Rightarrow> sample \<Rightarrow> sample list \<Rightarrow> signal option" where
  "Qualify previous current history =
     (if s_T previous \<le> 0 \<or> s_T current < s_T previous \<or> s_T current - s_T previous > quoteAgeMs \<or>
         f_le (s_VWAP previous) f_zero \<or> f_le (s_VWAP current) f_zero \<or>
         \<not> finite_f (s_Premium current) \<or> \<not> finite_f (s_VWAP current) then None
      else
        let direction = cross_direction previous current
        in if direction = '''' then None
           else case pick_reference direction current history None of
             None \<Rightarrow> None
           | Some reference \<Rightarrow>
               let move = move_pct current reference
               in if (direction = ''CALL_CREDIT'' \<and> f_lt (f_add move (f_dec 1 9)) MinimumMovePct) \<or>
                     (direction = ''PUT_CREDIT'' \<and> f_lt (f_neg MinimumMovePct) (f_sub move (f_dec 1 9)))
                  then None
                  else Some \<lparr>g_Direction = direction, g_T = s_T current, g_Reference = s_Premium reference,
                     g_ReferenceAt = s_T reference, g_MovePct = move, g_Premium = s_Premium current,
                     g_VWAP = s_VWAP current\<rparr>)"

definition grossPNL :: "trade \<Rightarrow> f64 \<Rightarrow> f64 \<Rightarrow> f64" where
  "grossPNL t shortAsk hedgeBid =
     f_mul (f_of_int (tr_Quantity t))
       (f_sub (f_add (f_sub (l_Entry (tr_Short t)) shortAsk) hedgeBid) (l_Entry (tr_Hedge t)))"

section \<open>The option universe\<close>

record universe =
  u_Symbol :: string
  u_Expiry :: string
  u_Pairs :: "(instrument \<times> instrument) list"
  u_Calls :: "instrument list"
  u_Puts :: "instrument list"

definition zero_universe :: universe where
  "zero_universe = \<lparr>u_Symbol = '''', u_Expiry = '''', u_Pairs = [], u_Calls = [], u_Puts = []\<rparr>"

definition option_exchange :: "instrument \<Rightarrow> bool" where
  "option_exchange row \<longleftrightarrow> i_Exchange row = ''NFO'' \<or> i_Exchange row = ''BFO''"

text \<open>The loop that finds the nearest expiry not before \<open>day\<close>.\<close>

definition expiry_step :: "string \<Rightarrow> string \<Rightarrow> instrument \<Rightarrow> string \<Rightarrow> string" where
  "expiry_step symbol day row expiry =
     (if map to_upper (i_Name row) = symbol \<and> option_exchange row \<and>
         (i_InstrumentType row = ''CE'' \<or> i_InstrumentType row = ''PE'') \<and> i_Expiry row \<ge> day \<and>
         (expiry = '''' \<or> i_Expiry row < expiry) then i_Expiry row else expiry)"

definition chain_row :: "string \<Rightarrow> string \<Rightarrow> instrument \<Rightarrow> bool" where
  "chain_row symbol expiry row \<longleftrightarrow> \<not> (map to_upper (i_Name row) \<noteq> symbol \<or> i_Expiry row \<noteq> expiry \<or>
     f_le (i_Strike row) f_zero \<or> (i_Exchange row \<noteq> ''NFO'' \<and> i_Exchange row \<noteq> ''BFO''))"

text \<open>
  \<^verbatim>\<open>sort.Slice\<close> is the stable sort of the prelude here. Go's sort is not stable; rows of equal
  strike may come in either order there, so the properties below do not depend on their order.
\<close>

text \<open>The maps keyed by strike, as association lists whose latest entry wins; Go compares float keys by value.\<close>

fun strike_put :: "instrument \<Rightarrow> instrument list \<Rightarrow> instrument list" where
  "strike_put row [] = [row]"
| "strike_put row (r # rs) = (if f_eq (i_Strike r) (i_Strike row) then row # rs else r # strike_put row rs)"

definition strike_get :: "instrument list \<Rightarrow> f64 \<Rightarrow> instrument option" where
  "strike_get rows k = find (\<lambda>r. f_eq (i_Strike r) k) rows"

definition strike_lt :: "instrument \<Rightarrow> instrument \<Rightarrow> bool" where
  "strike_lt a b = f_lt (i_Strike a) (i_Strike b)"

definition build_universe :: "instrument list \<Rightarrow> string \<Rightarrow> string \<Rightarrow> universe" where
  "build_universe rows day symbol =
     (let expiry = fold (expiry_step symbol day) rows '''';
          chain = filter (chain_row symbol expiry) rows;
          call_rows = filter (\<lambda>r. i_InstrumentType r = ''CE'') chain;
          put_rows = filter (\<lambda>r. i_InstrumentType r = ''PE'') chain;
          calls = fold strike_put call_rows [];
          puts = fold strike_put put_rows [];
          pairs = List.map_filter (\<lambda>ce. map_option (Pair ce) (strike_get puts (i_Strike ce))) calls
      in \<lparr>u_Symbol = symbol, u_Expiry = expiry,
          u_Pairs = sort_lt (\<lambda>p q. strike_lt (fst p) (fst q)) pairs,
          u_Calls = sort_lt strike_lt call_rows, u_Puts = sort_lt strike_lt put_rows\<rparr>)"

definition buildUniverses :: "instrument list \<Rightarrow> string \<Rightarrow> (string \<times> universe) list" where
  "buildUniverses rows day = map (\<lambda>symbol. (symbol, build_universe rows day symbol)) Symbols"

fun find_index :: "('a \<Rightarrow> bool) \<Rightarrow> 'a list \<Rightarrow> nat \<Rightarrow> nat option" where
  "find_index P [] k = None"
| "find_index P (x # xs) k = (if P x then Some k else find_index P xs (Suc k))"

definition hedgeFor :: "universe \<Rightarrow> instrument \<times> instrument \<Rightarrow> string \<Rightarrow> instrument \<times> instrument \<times> bool" where
  "hedgeFor u selected direction =
     (let (short, options, step) =
            (if direction = ''PUT_CREDIT'' then (snd selected, u_Puts u, - HedgeSteps)
             else (fst selected, u_Calls u, HedgeSteps))
      in case find_index (\<lambda>o'. i_InstrumentToken o' = i_InstrumentToken short) options 0 of
           None \<Rightarrow> (short, zero_instrument, False)
         | Some i \<Rightarrow>
             let pos = int i + step
             in if pos \<ge> 0 \<and> pos < int (length options) then (short, options ! nat pos, True)
                else (short, zero_instrument, False))"

section \<open>The window holds the exact extrema\<close>

text \<open>
  What a monotone queue keeps of a history: the elements better (of smaller key) than
  everything after them.
\<close>

fun suffix_best :: "('a \<Rightarrow> int) \<Rightarrow> 'a list \<Rightarrow> 'a list" where
  "suffix_best k [] = []"
| "suffix_best k (x # xs) = (if \<forall>y \<in> set xs. k x < k y then x # suffix_best k xs else suffix_best k xs)"

lemma set_suffix_best: "set (suffix_best k xs) \<subseteq> set xs"
  by (induction xs) auto

lemma sorted_suffix_best: "sorted_wrt (\<lambda>x y. k x < k y) (suffix_best k xs)"
  using set_suffix_best by (induction xs) fastforce+

lemma suffix_best_append: "suffix_best k (xs @ [x]) = filter (\<lambda>y. k y < k x) (suffix_best k xs) @ [x]"
  by (induction xs) auto

lemma sorted_wrt_suffix_best: "sorted_wrt P xs \<Longrightarrow> sorted_wrt P (suffix_best k xs)"
  using set_suffix_best by (induction xs) fastforce+

lemma suffix_best_filter:
  "sorted_wrt (\<lambda>x y. P x \<longrightarrow> P y) xs \<Longrightarrow> filter P (suffix_best k xs) = suffix_best k (filter P xs)"
  by (induction xs) (auto simp: filter_True)

lemma suffix_best_hd:
  "xs \<noteq> [] \<Longrightarrow> suffix_best k xs \<noteq> [] \<and> hd (suffix_best k xs) \<in> set xs \<and> (\<forall>y \<in> set xs. k (hd (suffix_best k xs)) \<le> k y)"
proof (induction xs)
  case (Cons x xs)
  show ?case
  proof (cases "xs = []")
    case False
    from Cons.IH [OF this] show ?thesis by (auto simp: not_less intro: order_trans order_less_imp_le)
  qed simp
qed simp

lemma pop_while_filter:
  assumes "sorted_wrt (\<lambda>x y. k x < (k y :: int)) xs" "\<And>y. y \<in> set xs \<Longrightarrow> P y \<longleftrightarrow> c \<le> k y"
  shows "pop_while P xs = filter (\<lambda>y. k y < c) xs"
  using assms
proof (induction xs rule: rev_induct)
  case (snoc x xs)
  have s: "sorted_wrt (\<lambda>x y. k x < k y) xs" "\<And>y. y \<in> set xs \<Longrightarrow> k y < k x"
    using snoc.prems(1) by (auto simp: sorted_wrt_append)
  show ?case
  proof (cases "P x")
    case True
    then show ?thesis using snoc.IH [OF s(1)] snoc.prems(2) by (auto simp: pop_while_def not_less)
  next
    case False
    then have "k x < c" using snoc.prems(2) [of x] by simp
    then have "filter (\<lambda>y. k y < c) xs = xs" using s(2) by (fastforce intro: filter_True)
    then show ?thesis using False \<open>k x < c\<close> by (simp add: pop_while_def)
  qed
qed (simp add: pop_while_def)

definition live :: "millis \<Rightarrow> sample \<Rightarrow> bool" where
  "live now s \<longleftrightarrow> now - s_T s \<le> WindowMs"

abbreviation in_order :: "sample list \<Rightarrow> bool" where
  "in_order xs \<equiv> sorted_wrt (\<lambda>x y. s_T x \<le> s_T y) xs"

lemma expire_filter: "in_order xs \<Longrightarrow> expire now xs = filter (live now) xs"
  unfolding expire_def by (induction xs) (auto simp: live_def intro!: filter_True [symmetric])

lemma in_order_live: "in_order xs \<Longrightarrow> sorted_wrt (\<lambda>x y. live now x \<longrightarrow> live now y) xs"
  by (rule sorted_wrt_mono_rel) (auto simp: live_def)

text \<open>Keys: the low queue wants small premiums, the high queue large ones.\<close>

definition low_key :: "sample \<Rightarrow> int" where "low_key s = f_key (s_Premium s)"
definition high_key :: "sample \<Rightarrow> int" where "high_key s = - f_key (s_Premium s)"

definition win_inv :: "millis \<Rightarrow> sample list \<Rightarrow> price_window \<Rightarrow> bool" where
  "win_inv c hist w \<longleftrightarrow> w_low w = filter (live c) (suffix_best low_key hist) \<and>
     w_high w = filter (live c) (suffix_best high_key hist)"

lemma filter_live_live: "c \<le> now \<Longrightarrow> filter (live now) (filter (live c) xs) = filter (live now) xs"
  by (induction xs) (auto simp: live_def)

lemma window_References_inv:
  assumes "in_order hist" "win_inv c hist w" "c \<le> now"
  shows "win_inv now hist (fst (window_References now w))"
    and "snd (window_References now w) =
      (if filter (live now) hist = [] then []
       else [hd (suffix_best low_key (filter (live now) hist)), hd (suffix_best high_key (filter (live now) hist))])"
proof -
  have q: "expire now (filter (live c) (suffix_best k hist)) = filter (live now) (suffix_best k hist)" for k
    using expire_filter [OF sorted_wrt_filter [OF sorted_wrt_suffix_best [OF assms(1)]]]
    by (simp only: filter_live_live [OF assms(3)])
  show "win_inv now hist (fst (window_References now w))"
    using assms(2) by (simp add: win_inv_def window_References_def Let_def q)
  note f = suffix_best_filter [OF in_order_live [OF assms(1)]]
  have "suffix_best k xs = [] \<longleftrightarrow> xs = []" for k :: "sample \<Rightarrow> int" and xs
    using suffix_best_hd [of xs k] by auto
  then show "snd (window_References now w) =
      (if filter (live now) hist = [] then []
       else [hd (suffix_best low_key (filter (live now) hist)), hd (suffix_best high_key (filter (live now) hist))])"
    using assms(2) by (simp add: win_inv_def window_References_def Let_def q [unfolded f] f)
qed

lemma window_Add_inv:
  assumes "in_order (hist @ [s])" "win_inv c hist w" "c \<le> s_T s" "\<forall>x \<in> set (hist @ [s]). f_num (s_Premium x)"
  shows "win_inv (s_T s) (hist @ [s]) (window_Add s w)"
proof -
  have num: "f_num (s_Premium s)" "\<And>y k. y \<in> set (filter (live c) (suffix_best k hist)) \<Longrightarrow> f_num (s_Premium y)"
    using assms(4) set_suffix_best by fastforce+
  have st: "sorted_wrt (\<lambda>x y. k x < k y) (filter (live c) (suffix_best k hist))" for k
    by (rule sorted_wrt_filter [OF sorted_suffix_best])
  have low: "pop_while (\<lambda>x. f_le (s_Premium s) (s_Premium x)) (w_low w) = filter (\<lambda>y. low_key y < low_key s) (w_low w)"
    using assms(2) st [of low_key] num unfolding win_inv_def
    by (intro pop_while_filter) (auto simp: f_le_num low_key_def)
  have high: "pop_while (\<lambda>x. f_le (s_Premium x) (s_Premium s)) (w_high w) = filter (\<lambda>y. high_key y < high_key s) (w_high w)"
    using assms(2) st [of high_key] num unfolding win_inv_def
    by (intro pop_while_filter) (auto simp: f_le_num high_key_def)
  let ?w = "\<lparr>w_low = filter (\<lambda>y. low_key y < low_key s) (w_low w) @ [s], w_high = filter (\<lambda>y. high_key y < high_key s) (w_high w) @ [s]\<rparr>"
  have "live c s" using assms(3) by (simp add: live_def WindowMs_def)
  then have "win_inv c (hist @ [s]) ?w"
    using assms(2) by (simp add: win_inv_def suffix_best_append filter_filter conj_commute)
  from window_References_inv(1) [OF assms(1) this assms(3)] show ?thesis
    by (simp add: window_Add_def Let_def low high)
qed

lemma window_fold_inv:
  assumes "in_order hist" "\<forall>x \<in> set hist. f_num (s_Premium x)"
  shows "win_inv (if hist = [] then 0 else s_T (last hist)) hist (fold window_Add hist empty_window)"
  using assms
proof (induction hist rule: rev_induct)
  case Nil
  then show ?case by (simp add: win_inv_def empty_window_def)
next
  case (snoc s hist)
  have IH: "win_inv (if hist = [] then 0 else s_T (last hist)) hist (fold window_Add hist empty_window)"
    using snoc by (auto simp: sorted_wrt_append)
  have "win_inv (if hist = [] then s_T s else s_T (last hist)) hist (fold window_Add hist empty_window)"
    using IH by (cases "hist = []") (auto simp: win_inv_def)
  from window_Add_inv [OF snoc.prems(1) this _ snoc.prems(2)] snoc.prems(1) show ?case
    by (auto simp: sorted_wrt_append)
qed

text \<open>
  C23: The rolling window is exact: after any sequence of samples in time order, the references it
  returns at a later instant are a lowest and a highest premium among all samples of the last 30
  minutes, and there are none exactly when no sample is that young.
\<close>

theorem window_references_exact:
  assumes "in_order hist" "\<forall>x \<in> set hist. f_num (s_Premium x)" "\<forall>x \<in> set hist. s_T x \<le> now"
  defines "recent \<equiv> filter (\<lambda>s. now - s_T s \<le> WindowMs) hist"
    and "refs \<equiv> snd (window_References now (fold window_Add hist empty_window))"
  shows "(recent = [] \<longrightarrow> refs = []) \<and>
    (recent \<noteq> [] \<longrightarrow> (\<exists>lo hi. refs = [lo, hi] \<and> lo \<in> set recent \<and> hi \<in> set recent \<and>
      (\<forall>y \<in> set recent. f_le (s_Premium lo) (s_Premium y) \<and> f_le (s_Premium y) (s_Premium hi))))"
proof -
  let ?c = "if hist = [] then now else s_T (last hist)"
  have "win_inv ?c hist (fold window_Add hist empty_window)"
    using window_fold_inv [OF assms(1,2)] by (cases "hist = []") (auto simp: win_inv_def)
  moreover have "?c \<le> now" using assms(3) by auto
  ultimately have refs: "refs = (if recent = [] then [] else [hd (suffix_best low_key recent), hd (suffix_best high_key recent)])"
    unfolding refs_def recent_def live_def [symmetric] by (rule window_References_inv(2) [OF assms(1)])
  have num: "\<forall>x \<in> set recent. f_num (s_Premium x)" using assms(2) by (simp add: recent_def)
  show ?thesis
  proof (cases "recent = []")
    case False
    note l = suffix_best_hd [OF False, of low_key] and h = suffix_best_hd [OF False, of high_key]
    have "f_le (s_Premium (hd (suffix_best low_key recent))) (s_Premium y) \<and>
        f_le (s_Premium y) (s_Premium (hd (suffix_best high_key recent)))" if "y \<in> set recent" for y
      using l h num that by (auto simp: f_le_num low_key_def high_key_def)
    then show ?thesis using False l h by (simp add: refs)
  qed (simp add: refs)
qed

theorem window_references_exact_witness:
  "\<exists>lo hi. snd (window_References 2000 (fold window_Add [zero_sample\<lparr>s_T := 1000\<rparr>] empty_window)) = [lo, hi]"
  using window_references_exact [of "[zero_sample\<lparr>s_T := 1000\<rparr>]" 2000]
  by (auto simp: zero_sample_def WindowMs_def)

section \<open>What a signal means\<close>

definition dir_key :: "string \<Rightarrow> sample \<Rightarrow> int" where
  "dir_key dir s = (if dir = ''CALL_CREDIT'' then low_key s else high_key s)"

lemma pick_reference_extreme:
  assumes "dir = ''CALL_CREDIT'' \<or> dir = ''PUT_CREDIT''"
    and "\<forall>s \<in> set ss. f_wf (s_Premium s)" "\<forall>s. reference = Some s \<longrightarrow> f_num (s_Premium s)"
  shows "(pick_reference dir cur ss reference = None \<longleftrightarrow> reference = None \<and> (\<forall>s \<in> set ss. \<not> eligible cur s)) \<and>
    (\<forall>r. pick_reference dir cur ss reference = Some r \<longrightarrow>
      (reference = Some r \<or> r \<in> set ss \<and> eligible cur r) \<and>
      (\<forall>s. reference = Some s \<longrightarrow> dir_key dir r \<le> dir_key dir s) \<and>
      (\<forall>s \<in> set ss. eligible cur s \<longrightarrow> dir_key dir r \<le> dir_key dir s))"
  using assms
proof (induction ss arbitrary: reference)
  case Nil
  then show ?case by simp
next
  case (Cons s ss)
  show ?case
  proof (cases "eligible cur s")
    case False
    then show ?thesis using Cons.IH [OF Cons.prems(1) _ Cons.prems(3)] Cons.prems(2) by auto
  next
    case True
    then have ns: "f_num (s_Premium s)"
      using Cons.prems(2) by (auto simp: eligible_def finite_f_def f_num_def elim: f_finite.elims)
    define ref' where "ref' = (case reference of None \<Rightarrow> s
         | Some r \<Rightarrow> if (dir = ''CALL_CREDIT'' \<and> f_lt (s_Premium s) (s_Premium r)) \<or>
                       (dir = ''PUT_CREDIT'' \<and> f_lt (s_Premium r) (s_Premium s)) then s else r)"
    have step: "pick_reference dir cur (s # ss) reference = pick_reference dir cur ss (Some ref')"
      using True by (auto simp: ref'_def split: option.splits)
    have ref': "ref' = s \<or> reference = Some ref'" "f_num (s_Premium ref')" "dir_key dir ref' \<le> dir_key dir s"
      "\<forall>r. reference = Some r \<longrightarrow> dir_key dir ref' \<le> dir_key dir r"
      using Cons.prems(1,3) ns
      by (auto simp: ref'_def dir_key_def low_key_def high_key_def f_lt_num split: option.splits if_splits)
    have IH: "(pick_reference dir cur ss (Some ref') = None \<longleftrightarrow> False) \<and>
      (\<forall>r. pick_reference dir cur ss (Some ref') = Some r \<longrightarrow>
        (ref' = r \<or> r \<in> set ss \<and> eligible cur r) \<and> dir_key dir r \<le> dir_key dir ref' \<and>
        (\<forall>s \<in> set ss. eligible cur s \<longrightarrow> dir_key dir r \<le> dir_key dir s))"
      using Cons.IH [OF Cons.prems(1), of "Some ref'"] Cons.prems(2) ref'(2) by auto
    show ?thesis
      unfolding step using IH ref'(1,3,4) True by (auto intro: order_trans)
  qed
qed

text \<open>
  C24: A signal is what the rule promises. Whenever \<^verbatim>\<open>Qualify\<close> answers with a signal, the price has
  just crossed its average in the signal's direction and moved that way since the previous
  sample, both samples are at most a minute apart, the reference is a positive price of the
  history strictly before the current sample and at most 30 minutes old, no eligible sample of the history is
  a better extremum, and the move against it reaches the 5% threshold.
\<close>

theorem qualify_sound:
  assumes "\<forall>s \<in> set history. f_wf (s_Premium s)" "Qualify previous current history = Some g"
  shows "(g_Direction g = ''CALL_CREDIT'' \<and> f_le (s_Premium previous) (s_VWAP previous) \<and> f_lt (s_VWAP current) (s_Premium current) \<and>
       f_lt (s_Premium previous) (s_Premium current) \<and> \<not> f_lt (f_add (g_MovePct g) (f_dec 1 9)) MinimumMovePct \<or>
     g_Direction g = ''PUT_CREDIT'' \<and> f_le (s_VWAP previous) (s_Premium previous) \<and> f_lt (s_Premium current) (s_VWAP current) \<and>
       f_lt (s_Premium current) (s_Premium previous) \<and> \<not> f_lt (f_neg MinimumMovePct) (f_sub (g_MovePct g) (f_dec 1 9))) \<and>
    0 < s_T previous \<and> s_T previous \<le> s_T current \<and> s_T current - s_T previous \<le> quoteAgeMs \<and> g_T g = s_T current \<and>
    (\<exists>r \<in> set history. g_Reference g = s_Premium r \<and> g_ReferenceAt g = s_T r \<and> g_MovePct g = move_pct current r \<and>
       s_T r < s_T current \<and> s_T current - s_T r \<le> WindowMs \<and> f_lt f_zero (s_Premium r) \<and>
       (\<forall>s \<in> set history. eligible current s \<longrightarrow>
          (if g_Direction g = ''CALL_CREDIT'' then f_le (s_Premium r) (s_Premium s) else f_le (s_Premium s) (s_Premium r))))"
proof -
  let ?d = "cross_direction previous current"
  obtain r where d: "?d \<noteq> ''''" and r: "pick_reference ?d current history None = Some r"
    and g: "g_Direction g = ?d" "g_T g = s_T current" "g_Reference g = s_Premium r" "g_ReferenceAt g = s_T r"
      "g_MovePct g = move_pct current r"
    and thr: "\<not> (?d = ''CALL_CREDIT'' \<and> f_lt (f_add (move_pct current r) (f_dec 1 9)) MinimumMovePct)"
      "\<not> (?d = ''PUT_CREDIT'' \<and> f_lt (f_neg MinimumMovePct) (f_sub (move_pct current r) (f_dec 1 9)))"
    and t: "0 < s_T previous" "s_T previous \<le> s_T current" "s_T current - s_T previous \<le> quoteAgeMs"
    using assms(2) by (auto simp: Qualify_def Let_def not_le not_less split: if_splits option.splits)
  have dd: "?d = ''CALL_CREDIT'' \<or> ?d = ''PUT_CREDIT''" using d by (auto simp: cross_direction_def split: if_splits)
  have e: "r \<in> set history" "eligible current r" "\<forall>s \<in> set history. eligible current s \<longrightarrow> dir_key ?d r \<le> dir_key ?d s"
    using pick_reference_extreme [OF dd, of history None current] assms(1) r by auto
  have num: "f_num (s_Premium s)" if "s \<in> set history" "eligible current s" for s
    using that assms(1) by (auto simp: eligible_def finite_f_def f_num_def elim: f_finite.elims)
  have ext: "if ?d = ''CALL_CREDIT'' then f_le (s_Premium r) (s_Premium s) else f_le (s_Premium s) (s_Premium r)"
    if "s \<in> set history" "eligible current s" for s
    using e(3) that num [OF that] num [OF e(1,2)] by (auto simp: f_le_num dir_key_def low_key_def high_key_def)
  have pos: "f_lt f_zero (s_Premium r)"
    using e(2) num [OF e(1,2)] by (auto simp: eligible_def f_le_num f_lt_num not_le)
  have "s_T r < s_T current" "s_T current - s_T r \<le> WindowMs" using e(2) by (auto simp: eligible_def)
  then have "\<exists>r \<in> set history. g_Reference g = s_Premium r \<and> g_ReferenceAt g = s_T r \<and> g_MovePct g = move_pct current r \<and>
       s_T r < s_T current \<and> s_T current - s_T r \<le> WindowMs \<and> f_lt f_zero (s_Premium r) \<and>
       (\<forall>s \<in> set history. eligible current s \<longrightarrow>
          (if g_Direction g = ''CALL_CREDIT'' then f_le (s_Premium r) (s_Premium s) else f_le (s_Premium s) (s_Premium r)))"
    using e(1) ext pos g by (intro bexI [of _ r]) auto
  moreover have "(g_Direction g = ''CALL_CREDIT'' \<and> f_le (s_Premium previous) (s_VWAP previous) \<and> f_lt (s_VWAP current) (s_Premium current) \<and>
       f_lt (s_Premium previous) (s_Premium current) \<and> \<not> f_lt (f_add (g_MovePct g) (f_dec 1 9)) MinimumMovePct \<or>
     g_Direction g = ''PUT_CREDIT'' \<and> f_le (s_VWAP previous) (s_Premium previous) \<and> f_lt (s_Premium current) (s_VWAP current) \<and>
       f_lt (s_Premium current) (s_Premium previous) \<and> \<not> f_lt (f_neg MinimumMovePct) (f_sub (g_MovePct g) (f_dec 1 9)))"
    using thr d unfolding g by (auto simp: cross_direction_def split: if_splits)
  ultimately show ?thesis using t g(2) by blast
qed

definition demo_sample :: "millis \<Rightarrow> int \<Rightarrow> int \<Rightarrow> sample" where
  "demo_sample t premium vwap = zero_sample\<lparr>s_T := t, s_Premium := f_of_int premium, s_VWAP := f_of_int vwap\<rparr>"

theorem qualify_sound_witness:
  "\<exists>g. Qualify (demo_sample 2000 200 205) (demo_sample 3000 210 205) [demo_sample 1000 199 205] = Some g \<and>
     g_Direction g = ''CALL_CREDIT'' \<and> g_ReferenceAt g = 1000"
proof -
  let ?h = "[demo_sample 1000 199 205]"
  have "Qualify (demo_sample 2000 200 205) (demo_sample 3000 210 205) ?h \<noteq> None" by code_simp
  then obtain g where g: "Qualify (demo_sample 2000 200 205) (demo_sample 3000 210 205) ?h = Some g" by blast
  have wf: "\<forall>s \<in> set ?h. f_wf (s_Premium s)" by code_simp
  have "\<not> f_le (s_VWAP (demo_sample 2000 200 205)) (s_Premium (demo_sample 2000 200 205))" by code_simp
  then show ?thesis using qualify_sound [OF wf g] g by (auto simp: demo_sample_def)
qed

section \<open>The universe and the hedge\<close>

lemma set_strike_put: "set (strike_put row rs) \<subseteq> insert row (set rs)"
  by (induction rs) auto

lemma set_fold_strike_put: "set (fold strike_put rows acc) \<subseteq> set rows \<union> set acc"
proof (induction rows arbitrary: acc)
  case (Cons r rows)
  from Cons.IH [of "strike_put r acc"] set_strike_put [of r acc] show ?case by auto
qed simp

text \<open>Rows the expiry search looks at, and what the search finds.\<close>

definition expiry_row :: "string \<Rightarrow> string \<Rightarrow> instrument \<Rightarrow> bool" where
  "expiry_row symbol day row \<longleftrightarrow> map to_upper (i_Name row) = symbol \<and> option_exchange row \<and>
     (i_InstrumentType row = ''CE'' \<or> i_InstrumentType row = ''PE'') \<and> i_Expiry row \<ge> day"

lemma expiry_step_eq:
  "expiry_step symbol day row e = (if expiry_row symbol day row \<and> (e = '''' \<or> i_Expiry row < e) then i_Expiry row else e)"
  by (auto simp: expiry_step_def expiry_row_def)

lemma fold_expiry:
  assumes "day \<noteq> ''''" "e = '''' \<or> day \<le> e"
  shows "(let r = fold (expiry_step symbol day) rows e
     in (e \<noteq> '''' \<longrightarrow> r \<noteq> '''' \<and> r \<le> e) \<and> (r = '''' \<or> day \<le> r) \<and>
        (\<forall>row \<in> set rows. expiry_row symbol day row \<longrightarrow> r \<noteq> '''' \<and> r \<le> i_Expiry row) \<and>
        (r = e \<or> (\<exists>row \<in> set rows. expiry_row symbol day row \<and> r = i_Expiry row)))"
  using assms(2)
proof (induction rows arbitrary: e)
  case Nil
  then show ?case by simp
next
  case (Cons row rows)
  define e' where "e' = expiry_step symbol day row e"
  have ne: "s \<noteq> ''''" if "day \<le> s" for s using that assms(1) by (cases s; cases day) auto
  have e': "e' = '''' \<or> day \<le> e'" "e \<noteq> '''' \<longrightarrow> e' \<noteq> '''' \<and> e' \<le> e"
      "expiry_row symbol day row \<longrightarrow> e' \<noteq> '''' \<and> e' \<le> i_Expiry row"
      "e' = e \<or> expiry_row symbol day row \<and> e' = i_Expiry row"
    using Cons.prems ne by (auto simp: e'_def expiry_step_eq expiry_row_def not_less)
  from Cons.IH [OF e'(1)] e'(2-4) show ?case
    by (auto simp: Let_def e'_def [symmetric] intro: order_trans)
qed

lemma build_universe_fields:
  "u_Expiry (build_universe rows day symbol) = fold (expiry_step symbol day) rows ''''"
  "set (u_Calls (build_universe rows day symbol)) =
     {r \<in> set rows. chain_row symbol (u_Expiry (build_universe rows day symbol)) r \<and> i_InstrumentType r = ''CE''}"
  "set (u_Puts (build_universe rows day symbol)) =
     {r \<in> set rows. chain_row symbol (u_Expiry (build_universe rows day symbol)) r \<and> i_InstrumentType r = ''PE''}"
  by (auto simp: build_universe_def Let_def)

lemma build_universe_pairs:
  assumes "(ce, pe) \<in> set (u_Pairs (build_universe rows day symbol))"
  shows "ce \<in> set (u_Calls (build_universe rows day symbol)) \<and> pe \<in> set (u_Puts (build_universe rows day symbol)) \<and>
    f_eq (i_Strike pe) (i_Strike ce)"
proof -
  let ?e = "fold (expiry_step symbol day) rows ''''"
  let ?cs = "filter (\<lambda>r. i_InstrumentType r = ''CE'') (filter (chain_row symbol ?e) rows)"
  let ?ps = "filter (\<lambda>r. i_InstrumentType r = ''PE'') (filter (chain_row symbol ?e) rows)"
  have "ce \<in> set (fold strike_put ?cs [])" "strike_get (fold strike_put ?ps []) (i_Strike ce) = Some pe"
    using assms by (auto simp: build_universe_def Let_def List.map_filter_def)
  moreover from this(2) have "pe \<in> set (fold strike_put ?ps [])" "f_eq (i_Strike pe) (i_Strike ce)"
    by (auto simp: strike_get_def find_Some_iff)
  ultimately show ?thesis
    using set_fold_strike_put [of ?cs "[]"] set_fold_strike_put [of ?ps "[]"]
    by (auto simp: build_universe_fields)
qed

text \<open>
  The universe of an index is its nearest option chain: its expiry is the earliest option
  expiry of the index not before the day (and there is one as soon as any such option is
  listed), and each pair is a call and a put of the listed chain with that expiry and the same strike.
\<close>

theorem universe_is_nearest_chain:
  fixes rows day symbol
  defines "u \<equiv> build_universe rows day symbol"
  assumes "day \<noteq> ''''"
  shows "(\<forall>row \<in> set rows. expiry_row symbol day row \<longrightarrow> u_Expiry u \<noteq> '''' \<and> u_Expiry u \<le> i_Expiry row) \<and>
    (u_Expiry u \<noteq> '''' \<longrightarrow> day \<le> u_Expiry u \<and> (\<exists>row \<in> set rows. expiry_row symbol day row \<and> i_Expiry row = u_Expiry u)) \<and>
    (\<forall>(ce, pe) \<in> set (u_Pairs u). ce \<in> set rows \<and> pe \<in> set rows \<and> i_InstrumentType ce = ''CE'' \<and> i_InstrumentType pe = ''PE'' \<and>
       i_Expiry ce = u_Expiry u \<and> i_Expiry pe = u_Expiry u \<and> f_eq (i_Strike pe) (i_Strike ce))"
proof -
  have x: "u_Expiry u = fold (expiry_step symbol day) rows ''''" by (simp add: u_def build_universe_fields)
  have "(u_Expiry u = '''' \<or> day \<le> u_Expiry u) \<and>
        (\<forall>row \<in> set rows. expiry_row symbol day row \<longrightarrow> u_Expiry u \<noteq> '''' \<and> u_Expiry u \<le> i_Expiry row) \<and>
        (u_Expiry u = '''' \<or> (\<exists>row \<in> set rows. expiry_row symbol day row \<and> u_Expiry u = i_Expiry row))"
    using fold_expiry [OF assms(2), of "''''" symbol rows] by (simp add: x Let_def)
  moreover have "ce \<in> set rows \<and> pe \<in> set rows \<and> i_InstrumentType ce = ''CE'' \<and> i_InstrumentType pe = ''PE'' \<and>
       i_Expiry ce = u_Expiry u \<and> i_Expiry pe = u_Expiry u \<and> f_eq (i_Strike pe) (i_Strike ce)" if "(ce, pe) \<in> set (u_Pairs u)" for ce pe
    using build_universe_pairs [OF that [unfolded u_def]] build_universe_fields(2,3) [of rows day symbol]
    unfolding u_def [symmetric] by (auto simp: chain_row_def)
  ultimately show ?thesis by fastforce
qed

definition demo_option :: "token \<Rightarrow> string \<Rightarrow> int \<Rightarrow> instrument" where
  "demo_option tok kind strike = zero_instrument\<lparr>i_InstrumentToken := tok, i_Name := ''NIFTY'', i_Exchange := ''NFO'',
     i_InstrumentType := kind, i_Expiry := ''2026-10-27'', i_Strike := f_of_int strike, i_LotSize := f_of_int 75\<rparr>"

theorem universe_is_nearest_chain_witness:
  "u_Expiry (build_universe [demo_option 1 ''CE'' 100, demo_option 2 ''PE'' 100] ''2026-10-01'' ''NIFTY'') = ''2026-10-27''"
proof -
  let ?rows = "[demo_option 1 ''CE'' 100, demo_option 2 ''PE'' 100]"
  have row: "expiry_row ''NIFTY'' ''2026-10-01'' (demo_option 1 ''CE'' 100)" by code_simp
  have "u_Expiry (build_universe ?rows ''2026-10-01'' ''NIFTY'') \<noteq> ''''"
    using universe_is_nearest_chain [of "''2026-10-01''" ?rows "''NIFTY''"] row by simp
  then have "\<exists>row \<in> set ?rows. i_Expiry row = u_Expiry (build_universe ?rows ''2026-10-01'' ''NIFTY'')"
    using universe_is_nearest_chain [of "''2026-10-01''" ?rows "''NIFTY''"] by blast
  then show ?thesis by (auto simp: demo_option_def)
qed

lemma find_index_Some:
  "find_index P xs k = Some i \<Longrightarrow> k \<le> i \<and> i - k < length xs \<and> P (xs ! (i - k))"
proof (induction xs arbitrary: k)
  case (Cons x xs)
  show ?case
  proof (cases "P x")
    case False
    with Cons.prems have "find_index P xs (Suc k) = Some i" by simp
    from Cons.IH [OF this] show ?thesis by (auto simp: Suc_diff_le nth_Cons')
  qed (use Cons.prems in simp)
qed simp

lemma strictly_between:
  assumes "sorted_wrt (\<lambda>x y. k x < (k y :: int)) xs" "i < j" "j < length xs"
  shows "k (xs ! i) < k (xs ! j) \<and> card {x \<in> set xs. k (xs ! i) < k x \<and> k x < k (xs ! j)} = j - i - 1"
proof -
  have lt: "a < length xs \<Longrightarrow> b < length xs \<Longrightarrow> k (xs ! a) < k (xs ! b) \<longleftrightarrow> a < b" for a b
    using assms(1) by (metis linorder_less_linear order_less_asym sorted_wrt_nth_less)
  have "{x \<in> set xs. k (xs ! i) < k x \<and> k x < k (xs ! j)} = (!) xs ` {i <..< j}"
  proof (intro set_eqI iffI)
    fix x assume "x \<in> {x \<in> set xs. k (xs ! i) < k x \<and> k x < k (xs ! j)}"
    then obtain a where "a < length xs" "x = xs ! a" "k (xs ! i) < k (xs ! a)" "k (xs ! a) < k (xs ! j)"
      by (auto simp: in_set_conv_nth)
    then show "x \<in> (!) xs ` {i <..< j}" using assms(2,3) lt by auto
  next
    fix x assume "x \<in> (!) xs ` {i <..< j}"
    then obtain a where "i < a" "a < j" "x = xs ! a" by auto
    then show "x \<in> {x \<in> set xs. k (xs ! i) < k x \<and> k x < k (xs ! j)}" using assms(2,3) lt by auto
  qed
  moreover have "inj_on ((!) xs) {i <..< j}"
    using assms(3) lt by (intro inj_onI) (metis greaterThanLessThan_iff less_trans linorder_less_linear order_less_irrefl)
  ultimately show ?thesis using assms(2,3) lt by (simp add: card_image)
qed

lemma sorted_strict:
  "sorted_wrt (\<lambda>x y. k x \<le> (k y :: int)) xs \<Longrightarrow> distinct xs \<Longrightarrow> inj_on k (set xs) \<Longrightarrow> sorted_wrt (\<lambda>x y. k x < k y) xs"
proof (induction xs)
  case (Cons x xs)
  then have "k x \<noteq> k y" if "y \<in> set xs" for y using that by (auto dest: inj_onD)
  with Cons show ?case by (force simp: inj_on_def)
qed simp

definition strike_key :: "instrument \<Rightarrow> int" where
  "strike_key r = f_key (i_Strike r)"

text \<open>An instrument list without duplicate rows, whose tokens and (per kind) strikes are unique.\<close>

definition clean_chain :: "instrument list \<Rightarrow> bool" where
  "clean_chain rows \<longleftrightarrow> distinct rows \<and> inj_on i_InstrumentToken (set rows) \<and> (\<forall>r \<in> set rows. f_num (i_Strike r)) \<and>
     inj_on (\<lambda>r. (map to_upper (i_Name r), i_Expiry r, i_InstrumentType r, strike_key r)) (set rows)"

lemma options_strict:
  assumes "clean_chain rows" "u = build_universe rows day symbol"
  shows "sorted_wrt (\<lambda>x y. strike_key x < strike_key y) (u_Calls u) \<and> sorted_wrt (\<lambda>x y. strike_key x < strike_key y) (u_Puts u)"
proof -
  have *: "sorted_wrt (\<lambda>x y. strike_key x < strike_key y) (sort_lt strike_lt (filter (\<lambda>r. i_InstrumentType r = ty) (filter (chain_row symbol e) rows)))" for ty e
  proof (rule sorted_strict)
    show "sorted_wrt (\<lambda>x y. strike_key x \<le> strike_key y) (sort_lt strike_lt (filter (\<lambda>r. i_InstrumentType r = ty) (filter (chain_row symbol e) rows)))"
      using assms(1) by (intro sorted_sort_lt) (auto simp: strike_lt_def strike_key_def f_lt_num clean_chain_def)
    show "inj_on strike_key (set (sort_lt strike_lt (filter (\<lambda>r. i_InstrumentType r = ty) (filter (chain_row symbol e) rows))))"
      using assms(1) by (auto simp: clean_chain_def inj_on_def chain_row_def)
  qed (use assms(1) in \<open>simp add: clean_chain_def\<close>)
  show ?thesis unfolding assms(2) build_universe_def Let_def using * by simp
qed

text \<open>
  The hedge is the fourth strike further out of the money: on a clean chain, when a hedge is
  found for a listed pair, the short leg is the pair's call (put), the hedge is a listed option of the same
  kind with a higher (lower) strike, and exactly three listed strikes lie between them.
\<close>

theorem hedge_four_strikes_out:
  fixes rows day symbol
  defines "u \<equiv> build_universe rows day symbol"
  assumes "clean_chain rows" "(ce, pe) \<in> set (u_Pairs u)"
    "hedgeFor u (ce, pe) direction = (short, hedge, True)" "direction \<in> {''CALL_CREDIT'', ''PUT_CREDIT''}"
  shows "if direction = ''CALL_CREDIT''
    then short = ce \<and> hedge \<in> set (u_Calls u) \<and> f_lt (i_Strike short) (i_Strike hedge) \<and>
      card {r \<in> set (u_Calls u). strike_key short < strike_key r \<and> strike_key r < strike_key hedge} = 3
    else short = pe \<and> hedge \<in> set (u_Puts u) \<and> f_lt (i_Strike hedge) (i_Strike short) \<and>
      card {r \<in> set (u_Puts u). strike_key hedge < strike_key r \<and> strike_key r < strike_key short} = 3"
proof -
  have pr: "ce \<in> set (u_Calls u)" "pe \<in> set (u_Puts u)"
    using build_universe_pairs [OF assms(3) [unfolded u_def]] by (auto simp: u_def)
  have inj: "inj_on i_InstrumentToken (set rows)" and num: "\<forall>r \<in> set rows. f_num (i_Strike r)"
    using assms(2) by (auto simp: clean_chain_def)
  have sub: "set (u_Calls u) \<subseteq> set rows" "set (u_Puts u) \<subseteq> set rows"
    by (auto simp: u_def build_universe_fields)
  note strict = options_strict [OF assms(2) u_def [THEN meta_eq_to_obj_eq]]
  let ?opts = "if direction = ''CALL_CREDIT'' then u_Calls u else u_Puts u"
  let ?step = "if direction = ''CALL_CREDIT'' then 4 else - 4"
  have short: "short = (if direction = ''CALL_CREDIT'' then ce else pe)" and
    "\<exists>i. find_index (\<lambda>o'. i_InstrumentToken o' = i_InstrumentToken short) ?opts 0 = Some i \<and>
       0 \<le> int i + ?step \<and> int i + ?step < int (length ?opts) \<and> hedge = ?opts ! nat (int i + ?step)"
    using assms(4,5) by (auto simp: hedgeFor_def Let_def HedgeSteps_def split: option.splits if_splits)
  then obtain i where i: "find_index (\<lambda>o'. i_InstrumentToken o' = i_InstrumentToken short) ?opts 0 = Some i"
      "0 \<le> int i + ?step" "int i + ?step < int (length ?opts)" "hedge = ?opts ! nat (int i + ?step)" by blast
  from find_index_Some [OF i(1)] have il: "i < length ?opts" "i_InstrumentToken (?opts ! i) = i_InstrumentToken short" by auto
  have "?opts ! i = short"
    using il inj sub pr short by (auto dest!: inj_onD split: if_splits)
  moreover have "hedge \<in> set ?opts" unfolding i(4) by (rule nth_mem) (use i(2,3) in linarith)
  moreover have ns: "f_num (i_Strike short)" "f_num (i_Strike hedge)"
    using num sub pr short calculation(2) by (auto split: if_splits)
  ultimately show ?thesis
  proof (cases "direction = ''CALL_CREDIT''")
    case True
    then have "hedge = u_Calls u ! (i + 4)" "i + 4 < length (u_Calls u)" "u_Calls u ! i = short"
      using i(3,4) \<open>?opts ! i = short\<close> by (auto simp: nat_add_distrib)
    with strictly_between [of strike_key "u_Calls u" i "i + 4"] strict True short \<open>hedge \<in> set ?opts\<close> ns show ?thesis
      by (auto simp: f_lt_num strike_key_def)
  next
    case False
    then have "4 \<le> i" using i(2) by simp
    then have "hedge = u_Puts u ! (i - 4)" "i < length (u_Puts u)" "u_Puts u ! i = short"
      using False i(3,4) il \<open>?opts ! i = short\<close> by (auto simp: nat_diff_distrib')
    with strictly_between [of strike_key "u_Puts u" "i - 4" i] strict False short \<open>hedge \<in> set ?opts\<close> ns \<open>4 \<le> i\<close> show ?thesis
      by (auto simp: f_lt_num strike_key_def)
  qed
qed

definition demo_chain :: "instrument list" where
  "demo_chain = demo_option 20 ''PE'' 100 # map (\<lambda>i. demo_option i ''CE'' (90 + 10 * i)) [1, 2, 3, 4, 5]"

theorem hedge_four_strikes_out_witness:
  "let u = build_universe demo_chain ''2026-10-01'' ''NIFTY'';
       h = hedgeFor u (demo_option 1 ''CE'' 100, demo_option 20 ''PE'' 100) ''CALL_CREDIT''
   in snd (snd h) \<and> f_lt (f_of_int 100) (i_Strike (fst (snd h)))"
proof -
  let ?u = "build_universe demo_chain ''2026-10-01'' ''NIFTY''"
  let ?p = "(demo_option 1 ''CE'' 100, demo_option 20 ''PE'' 100)"
  have cc: "clean_chain demo_chain" by code_simp
  have pr: "?p \<in> set (u_Pairs ?u)" by code_simp
  have h: "hedgeFor ?u ?p ''CALL_CREDIT'' = (demo_option 1 ''CE'' 100, demo_option 5 ''CE'' 140, True)" by code_simp
  have "f_lt (i_Strike (demo_option 1 ''CE'' 100)) (i_Strike (demo_option 5 ''CE'' 140))"
    using hedge_four_strikes_out [OF cc pr h] by simp
  then show ?thesis unfolding h Let_def by (simp add: demo_option_def)
qed

end
