(* ===== verification/SpikeEngine.thy ===== *)
theory SpikeEngine
  imports SpikeRules "HOL-Library.AList"
begin

text \<open>
  The Spike engine (\<^verbatim>\<open>internal/spike/engine.go\<close>, \<^verbatim>\<open>actions.go\<close>) and its store (\<^verbatim>\<open>store.go\<close>).

  The engine's fields are one record; Go maps are association lists. Every stretch of code
  between \<^verbatim>\<open>e.mu.Lock()\<close> and \<^verbatim>\<open>e.mu.Unlock()\<close> is one function on that record, and an operation
  that gives the lock up for a database call (\<^verbatim>\<open>enter\<close>, \<^verbatim>\<open>Close\<close>, \<^verbatim>\<open>reconcile\<close>, \<^verbatim>\<open>SetPaper\<close>, \<^verbatim>\<open>flushBars\<close>)
  is a \<open>_begin\<close> and an \<open>_end\<close> function around it. What the engine asks its surroundings for
  (clock, active broker namespace, feed readiness, whether the database is configured, the random
  part of a new trade id) is the environment record.

  The database tables are modelled with the constraints of
  \<^verbatim>\<open>internal/db/migrations/0007_spike.sql\<close>; a statement can also fail, before or after it took
  effect. JSON encoding of a payload is the identity, except that a payload with a number
  that is not finite cannot be encoded, as in \<^verbatim>\<open>encoding/json\<close>.

  In a step of \<open>spike_step\<close> one goroutine runs one such stretch; \<^verbatim>\<open>opMu\<close> (the field \<open>op\<close> of the system
  state) keeps the operations apart, while ticks, connection changes, the one-second timer and
  subscriptions may run between the two halves of an operation.
\<close>

section \<open>State\<close>

definition look :: "'v \<Rightarrow> ('k \<times> 'v) list \<Rightarrow> 'k \<Rightarrow> 'v" where
  "look d m k = (case map_of m k of None \<Rightarrow> d | Some v \<Rightarrow> v)"

record quote =
  q_LTP :: f64
  q_VWAP :: f64
  q_Bid :: f64
  q_Ask :: f64
  q_BidQty :: f64
  q_AskQty :: f64
  q_PriceAt :: millis
  q_BookAt :: millis

definition zero_quote :: quote where
  "zero_quote = \<lparr>q_LTP = f_zero, q_VWAP = f_zero, q_Bid = f_zero, q_Ask = f_zero, q_BidQty = f_zero,
     q_AskQty = f_zero, q_PriceAt = 0, q_BookAt = 0\<rparr>"

definition freshBook :: "quote \<Rightarrow> millis \<Rightarrow> bool" where
  "freshBook q now \<longleftrightarrow> q_BookAt q > 0 \<and> now \<ge> q_BookAt q \<and> now - q_BookAt q \<le> bookAgeMs \<and>
     finite_f (q_Bid q) \<and> finite_f (q_Ask q) \<and> f_lt f_zero (q_Bid q) \<and> f_le (q_Bid q) (q_Ask q) \<and>
     finite_f (q_BidQty q) \<and> finite_f (q_AskQty q) \<and> f_le f_zero (q_BidQty q) \<and> f_le f_zero (q_AskQty q)"

record bar =
  b_Sample :: sample
  b_Symbol :: string
  b_Day :: string
  b_Low :: f64
  b_LowAt :: millis
  b_High :: f64
  b_HighAt :: millis

abbreviation b_T :: "bar \<Rightarrow> millis" where
  "b_T b \<equiv> s_T (b_Sample b)"

record index_view =
  v_Symbol :: string
  v_Expiry :: string
  v_Pairs :: nat
  v_LotSize :: int
  v_Current :: "sample option"
  v_Signal :: "signal option"
  v_Note :: string
  v_RecordingSince :: "millis option"

definition zero_view :: index_view where
  "zero_view = \<lparr>v_Symbol = '''', v_Expiry = '''', v_Pairs = 0, v_LotSize = 0, v_Current = None, v_Signal = None,
     v_Note = '''', v_RecordingSince = None\<rparr>"

record snapshot =
  sn_Day :: string
  sn_Active :: bool
  sn_Connected :: bool
  sn_Database :: bool
  sn_PaperEnabled :: bool
  sn_WantedTokens :: nat
  sn_Indexes :: "index_view list"
  sn_Open :: "trade list"
  sn_Closed :: "trade list"
  sn_Error :: string

record candidate =
  c_Trade :: trade
  c_Namespace :: namespace

record engine =
  started :: bool
  stopped :: bool
  loaded :: bool
  active :: bool
  connected :: bool
  paper :: bool
  day :: string
  lastError :: string
  ns :: namespace
  universes :: "(string \<times> universe) list"
  wanted :: "token list"
  quotes :: "(token \<times> quote) list"
  views :: "(string \<times> index_view) list"
  previous :: "(string \<times> sample) list"
  windows :: "(string \<times> price_window) list"
  forming :: "(string \<times> bar) list"
  bars :: "(string \<times> (millis \<times> bar) list) list"
  pendingBars :: "((string \<times> string \<times> millis) \<times> bar) list"
  open_trades :: "(string \<times> trade) list"
  closed :: "trade list"
  pending :: "(string \<times> string) list"
  refresh :: bool
  candidates :: "candidate list"
  watchers :: "(nat \<times> snapshot option) list"
  watchSeq :: nat

text \<open>What one stretch of code sees of the world around the engine.\<close>

record env =
  now :: millis
  namespaceNow :: namespace
  ready :: bool
  dbEnabled :: bool
  newID :: "string \<Rightarrow> string"

definition New :: engine where
  "New = \<lparr>started = False, stopped = False, loaded = False, active = False, connected = False, paper = True,
     day = '''', lastError = '''', ns = zero_namespace, universes = [], wanted = [], quotes = [],
     views = map (\<lambda>s. (s, zero_view\<lparr>v_Symbol := s, v_Note := ''Waiting for Dhan data''\<rparr>)) Symbols,
     previous = [], windows = [], forming = [], bars = map (\<lambda>s. (s, [])) Symbols, pendingBars = [],
     open_trades = [], closed = [], pending = [], refresh = False, candidates = [], watchers = [], watchSeq = 0\<rparr>"

definition dataReady :: "env \<Rightarrow> bool" where
  "dataReady v \<longleftrightarrow> ns_Broker (namespaceNow v) = Dhan \<and> ready v"

section \<open>Snapshots and watchers\<close>

definition snapshotLocked :: "env \<Rightarrow> engine \<Rightarrow> snapshot" where
  "snapshotLocked v e =
     \<lparr>sn_Day = day e, sn_Active = active e, sn_Connected = connected e, sn_Database = dbEnabled v,
      sn_PaperEnabled = paper e, sn_WantedTokens = length (wanted e),
      sn_Indexes = map (\<lambda>symbol.
        let view = look zero_view (views e) symbol
        in case v_Current view of
             Some c \<Rightarrow> if now v - s_T c > quoteAgeMs then view\<lparr>v_Note := ''Paired price stream is stale''\<rparr> else view
           | None \<Rightarrow> view) Symbols,
      sn_Open = List.map_filter (map_of (open_trades e)) Symbols,
      sn_Closed = closed e, sn_Error = lastError e\<rparr>"

text \<open>
  A watcher's channel holds one snapshot: when it is full the old one is taken out first, so
  that the newest is always the one delivered.
\<close>

definition publishLocked :: "env \<Rightarrow> engine \<Rightarrow> engine" where
  "publishLocked v e = (if watchers e = [] then e
     else e\<lparr>watchers := map (\<lambda>(i, _). (i, Some (snapshotLocked v e))) (watchers e)\<rparr>)"

definition Subscribe :: "env \<Rightarrow> engine \<Rightarrow> engine \<times> nat" where
  "Subscribe v e =
     (let e1 = e\<lparr>watchSeq := Suc (watchSeq e)\<rparr>; i = watchSeq e1
      in (if stopped e1 then e1 else e1\<lparr>watchers := (i, Some (snapshotLocked v e1)) # watchers e1\<rparr>, i))"

definition Unsubscribe :: "nat \<Rightarrow> engine \<Rightarrow> engine" where
  "Unsubscribe i e = e\<lparr>watchers := AList.delete i (watchers e)\<rparr>"

definition setError :: "env \<Rightarrow> string \<Rightarrow> engine \<Rightarrow> engine" where
  "setError v msg e = publishLocked v (e\<lparr>lastError := msg\<rparr>)"

section \<open>Marks and bars\<close>

definition fresh_fill :: "env \<Rightarrow> engine \<Rightarrow> trade \<Rightarrow> bool" where
  "fresh_fill v e t =
     (let a = look zero_quote (quotes e) (l_Token (tr_Short t)); b = look zero_quote (quotes e) (l_Token (tr_Hedge t))
      in \<not> (\<not> active e \<or> \<not> connected e \<or> \<not> dataReady v \<or> ns e \<noteq> namespaceNow v \<or>
            \<not> freshBook a (now v) \<or> \<not> freshBook b (now v) \<or>
            f_lt (q_AskQty a) (f_of_int (tr_Quantity t)) \<or> f_lt (q_BidQty b) (f_of_int (tr_Quantity t))))"

definition mark_trade :: "env \<Rightarrow> engine \<Rightarrow> trade \<Rightarrow> trade" where
  "mark_trade v e t =
     (let a = look zero_quote (quotes e) (l_Token (tr_Short t)); b = look zero_quote (quotes e) (l_Token (tr_Hedge t));
          t1 = t\<lparr>tr_MarkStale := \<not> fresh_fill v e t\<rparr>
      in if \<not> tr_MarkStale t1
         then t1\<lparr>tr_MarkShort := Some (q_Ask a), tr_MarkHedge := Some (q_Bid b),
                 tr_PNL := Some (grossPNL t1 (q_Ask a) (q_Bid b)), tr_MarkAt := Some (now v)\<rparr>
         else t1)"

definition updateMarksLocked :: "env \<Rightarrow> engine \<Rightarrow> engine" where
  "updateMarksLocked v e = e\<lparr>open_trades := map (\<lambda>(s, t). (s, mark_trade v e t)) (open_trades e)\<rparr>"

definition complete_bar :: "string \<times> bar \<Rightarrow> engine \<Rightarrow> engine" where
  "complete_bar sb e = (case sb of (symbol, b) \<Rightarrow>
     e\<lparr>bars := AList.update symbol (AList.update (b_T b) b (look [] (bars e) symbol)) (bars e),
       pendingBars := AList.update (symbol, b_Day b, b_T b) b (pendingBars e),
       forming := AList.delete symbol (forming e)\<rparr>)"

definition completeBarsLocked :: "millis \<Rightarrow> bool \<Rightarrow> engine \<Rightarrow> engine" where
  "completeBarsLocked t force e = fold complete_bar (filter (\<lambda>(_, b). b_T b \<le> t \<or> force) (forming e)) e"

section \<open>Entering a trade\<close>

definition tradeAtCrossLocked :: "string \<Rightarrow> string \<Rightarrow> instrument \<Rightarrow> instrument \<Rightarrow> signal \<Rightarrow> millis \<Rightarrow> engine \<Rightarrow> string + trade" where
  "tradeAtCrossLocked i symbol short hedge sig t e =
     (let lot = f_trunc (i_LotSize short)
      in if lot \<le> 0 \<or> \<not> f_eq (f_of_int lot) (i_LotSize short) \<or> \<not> f_eq (i_LotSize hedge) (i_LotSize short)
         then Inl ''Contract lot sizes are unavailable or differ''
         else
           let a = look zero_quote (quotes e) (i_InstrumentToken short);
               b = look zero_quote (quotes e) (i_InstrumentToken hedge)
           in if \<not> freshBook a t \<or> \<not> freshBook b t \<or> f_lt (q_BidQty a) (f_of_int lot) \<or> f_lt (q_AskQty b) (f_of_int lot)
              then Inl ''Signal skipped: fresh one-lot executable depth is unavailable''
              else if f_lt (q_Bid a) (q_Ask b)
              then Inl ''Signal skipped: hedge is not a credit spread at the observed touch''
              else Inr \<lparr>tr_ID = i, tr_Symbol = symbol, tr_Status = ''open'', tr_Direction = g_Direction sig,
                tr_Expiry = i_Expiry short, tr_LotSize = lot, tr_Quantity = lot, tr_OpenedAt = t, tr_ClosedAt = None,
                tr_Short = \<lparr>l_Token = i_InstrumentToken short, l_Symbol = i_Tradingsymbol short, l_Strike = i_Strike short,
                  l_Entry = q_Bid a, l_Exit = None\<rparr>,
                tr_Hedge = \<lparr>l_Token = i_InstrumentToken hedge, l_Symbol = i_Tradingsymbol hedge, l_Strike = i_Strike hedge,
                  l_Entry = q_Ask b, l_Exit = None\<rparr>,
                tr_Signal = sig, tr_EntryCredit = f_mul (f_of_int lot) (f_sub (q_Bid a) (q_Ask b)),
                tr_MarkShort = None, tr_MarkHedge = None, tr_MarkAt = None, tr_PNL = None, tr_MarkStale = True\<rparr>)"

text \<open>The loop of \<^verbatim>\<open>evaluateLocked\<close> that finds the cheapest pair with fresh prices.\<close>

definition price_pair :: "engine \<Rightarrow> string \<Rightarrow> millis \<Rightarrow> instrument \<times> instrument \<Rightarrow> sample option" where
  "price_pair e expiry t p =
     (let ce = look zero_quote (quotes e) (i_InstrumentToken (fst p));
          pe = look zero_quote (quotes e) (i_InstrumentToken (snd p))
      in if q_PriceAt ce = 0 \<or> q_PriceAt pe = 0 \<or> t - q_PriceAt ce > quoteAgeMs \<or> t - q_PriceAt pe > quoteAgeMs then None
         else let premium = f_add (q_LTP ce) (q_LTP pe)
              in if \<not> finite_f premium \<or> f_le premium f_zero then None
                 else Some \<lparr>s_T = t, s_Premium = premium,
                   s_VWAP = (if f_lt f_zero (q_VWAP ce) \<and> f_lt f_zero (q_VWAP pe) then f_add (q_VWAP ce) (q_VWAP pe) else f_zero),
                   s_Strike = i_Strike (fst p), s_Expiry = expiry, s_CEToken = i_InstrumentToken (fst p),
                   s_PEToken = i_InstrumentToken (snd p)\<rparr>)"

fun cheapest :: "(instrument \<times> instrument \<Rightarrow> sample option) \<Rightarrow> (instrument \<times> instrument) list \<Rightarrow>
    ((instrument \<times> instrument) \<times> sample) option \<Rightarrow> ((instrument \<times> instrument) \<times> sample) option" where
  "cheapest f [] best = best"
| "cheapest f (p # ps) best =
     (case f p of
        None \<Rightarrow> cheapest f ps best
      | Some s \<Rightarrow> cheapest f ps
          (case best of None \<Rightarrow> Some (p, s)
           | Some (_, s') \<Rightarrow> if f_lt (s_Premium s) (s_Premium s') then Some (p, s) else best))"

text \<open>What a qualified signal leads to: the note, the pending entry and the queued candidate.\<close>

definition signal_action :: "env \<Rightarrow> string \<Rightarrow> universe \<Rightarrow> instrument \<times> instrument \<Rightarrow> signal \<Rightarrow> millis \<Rightarrow> engine \<Rightarrow> engine \<times> string" where
  "signal_action v symbol u minimum sig t e =
     (if \<not> paper e then (e, ''Signal observed; paper entries paused'')
      else if \<not> dbEnabled v then (e, ''Paper entry needs PostgreSQL'')
      else if map_of (open_trades e) symbol \<noteq> None then (e, ''Signal observed; primary paper spread already open'')
      else if look '''' (pending e) symbol = '''' then
        (case hedgeFor u minimum (g_Direction sig) of (short, hedge, exists) \<Rightarrow>
           if \<not> exists then (e, ''Qualified signal has no fourth-OTM hedge'')
           else (case tradeAtCrossLocked (newID v symbol) symbol short hedge sig t e of
             Inl msg \<Rightarrow> (e, msg)
           | Inr trade \<Rightarrow>
               if length (candidates e) < 2
               then (e\<lparr>candidates := candidates e @ [\<lparr>c_Trade = trade, c_Namespace = ns e\<rparr>],
                       pending := AList.update symbol (tr_ID trade) (pending e)\<rparr>, ''Saving one-lot paper spread'')
               else (e, ''Paper entry queue is busy'')))
      else (e, ''5% move and VWAP crossover qualified''))"

definition form_bar :: "string \<Rightarrow> sample \<Rightarrow> millis \<Rightarrow> engine \<Rightarrow> bar" where
  "form_bar symbol s t e =
     (let end_t = bucketEnd (t + 1) 1;
          fresh = \<lparr>b_Sample = s, b_Symbol = symbol, b_Day = day e, b_Low = s_Premium s, b_LowAt = t,
                   b_High = s_Premium s, b_HighAt = t\<rparr>;
          b = (case map_of (forming e) symbol of
                 None \<Rightarrow> fresh
               | Some b \<Rightarrow> if b_T b \<noteq> end_t then fresh else b);
          b1 = b\<lparr>b_Sample := s\<lparr>s_T := end_t\<rparr>\<rparr>;
          b2 = (if f_lt (s_Premium s) (b_Low b1) then b1\<lparr>b_Low := s_Premium s, b_LowAt := t\<rparr> else b1)
      in if f_lt (b_High b2) (s_Premium s) then b2\<lparr>b_High := s_Premium s, b_HighAt := t\<rparr> else b2)"

definition evaluateLocked :: "env \<Rightarrow> string \<Rightarrow> millis \<Rightarrow> engine \<Rightarrow> engine" where
  "evaluateLocked v symbol t e =
     (let u = look zero_universe (universes e) symbol; view = look zero_view (views e) symbol
      in case cheapest (price_pair e (u_Expiry u) t) (u_Pairs u) None of
           None \<Rightarrow> e\<lparr>views := AList.update symbol (view\<lparr>v_Note := ''Waiting for fresh paired option prices''\<rparr>) (views e)\<rparr>
         | Some (minimum, s) \<Rightarrow>
             let view1 = view\<lparr>v_Current := Some s, v_LotSize := f_trunc (i_LotSize (fst minimum))\<rparr>;
                 view2 = (if v_RecordingSince view1 = None then view1\<lparr>v_RecordingSince := Some t\<rparr> else view1);
                 view3 = view2\<lparr>v_Note := (if f_le (s_VWAP s) f_zero then ''Waiting for both leg volume-weighted average prices''
                                         else ''Monitoring exact crossovers'')\<rparr>;
                 (w, refs) = window_References t (look empty_window (windows e) symbol);
                 (e1, view4) =
                   (case Qualify (look zero_sample (previous e) symbol) s refs of
                      None \<Rightarrow> (e, view3)
                    | Some sig \<Rightarrow>
                        let (e', note) = signal_action v symbol u minimum sig t e
                        in (e', view3\<lparr>v_Signal := Some sig, v_Note := note\<rparr>))
             in e1\<lparr>windows := AList.update symbol (window_Add s w) (windows e1),
                   previous := AList.update symbol s (previous e1),
                   views := AList.update symbol view4 (views e1),
                   forming := AList.update symbol (form_bar symbol s t e1) (forming e1)\<rparr>)"

section \<open>Market data\<close>

definition apply_tick :: "millis \<Rightarrow> tick \<Rightarrow> quote \<Rightarrow> quote" where
  "apply_tick t tk q =
     (let q1 = (if (t_PriceUpdated tk = None \<or> t_PriceUpdated tk = Some True) \<and> f_lt f_zero (t_LastPrice tk) \<and> finite_f (t_LastPrice tk)
                then q\<lparr>q_LTP := t_LastPrice tk, q_PriceAt := t\<rparr>
                else if t_PriceUpdated tk = Some True then q\<lparr>q_LTP := f_zero, q_PriceAt := 0\<rparr> else q);
          q2 = (case t_AveragePrice tk of
                  Some avg \<Rightarrow> if t_AverageUpdated tk = None \<or> t_AverageUpdated tk = Some True
                    then q1\<lparr>q_VWAP := (if f_lt f_zero avg \<and> finite_f avg then avg else f_zero)\<rparr> else q1
                | None \<Rightarrow> q1)
      in if t_DepthUpdated tk = Some True
         then q2\<lparr>q_Bid := t_Bid tk, q_Ask := t_Ask tk,
                 q_BidQty := (case t_Bids tk of Some (l # _) \<Rightarrow> dl_Qty l | _ \<Rightarrow> f_zero),
                 q_AskQty := (case t_Asks tk of Some (l # _) \<Rightarrow> dl_Qty l | _ \<Rightarrow> f_zero), q_BookAt := t\<rparr>
         else q2)"

definition take_tick :: "env \<Rightarrow> tick \<Rightarrow> engine \<Rightarrow> engine" where
  "take_tick v tk e =
     (if t_Token tk \<notin> set (wanted e) \<or> (t_Namespace tk \<noteq> None \<and> t_Namespace tk \<noteq> Some (namespaceNow v)) then e
      else e\<lparr>quotes := AList.update (t_Token tk) (apply_tick (now v) tk (look zero_quote (quotes e) (t_Token tk))) (quotes e)\<rparr>)"

definition OnTicks :: "env \<Rightarrow> tick list \<Rightarrow> engine \<Rightarrow> engine" where
  "OnTicks v ticks e =
     (if stopped e \<or> \<not> active e \<or> \<not> connected e \<or> ns e \<noteq> namespaceNow v \<or> ns_Broker (namespaceNow v) \<noteq> Dhan \<or>
         day e \<noteq> dayKey (now v) then e
      else
        let e1 = fold (take_tick v) ticks e;
            e2 = updateMarksLocked v (completeBarsLocked (now v) False e1)
        in if \<not> marketOpen (now v) then e2 else fold (\<lambda>symbol. evaluateLocked v symbol (now v)) Symbols e2)"

definition OnConnection :: "env \<Rightarrow> bool \<Rightarrow> engine \<Rightarrow> engine" where
  "OnConnection v conn e =
     publishLocked v (let e1 = e\<lparr>connected := conn\<rparr>
       in if \<not> conn then updateMarksLocked v (e1\<lparr>quotes := [], previous := []\<rparr>) else e1)"

definition OnRuntimeReady :: "env \<Rightarrow> engine \<Rightarrow> engine" where
  "OnRuntimeReady v e = (updateMarksLocked v (e\<lparr>quotes := [], previous := []\<rparr>))\<lparr>refresh := True\<rparr>"

definition Invalidate :: "env \<Rightarrow> engine \<Rightarrow> engine" where
  "Invalidate v e = OnRuntimeReady v (publishLocked v
     (e\<lparr>active := False, connected := False, quotes := [], previous := [], pending := []\<rparr>))"

text \<open>The one-second timer: its locked part, and whether it then reconciles.\<close>

definition timer_needs :: "env \<Rightarrow> engine \<Rightarrow> bool" where
  "timer_needs v e \<longleftrightarrow> \<not> loaded e \<or> day e \<noteq> dayKey (now v) \<or> ns e \<noteq> namespaceNow v \<or> active e \<noteq> dataReady v"

definition timer_section :: "env \<Rightarrow> engine \<Rightarrow> engine" where
  "timer_section v e = publishLocked v (updateMarksLocked v (completeBarsLocked (now v) False e))"

definition Series :: "env \<Rightarrow> string \<Rightarrow> int \<Rightarrow> engine \<Rightarrow> bar list" where
  "Series v symbol minutes e =
     (let points = sort_key b_T (map snd (look [] (bars e) symbol));
          by_end = fold (\<lambda>p by_end.
            let end_t = bucketEnd (b_T p) minutes
            in if end_t > now v \<or> b_Day p \<noteq> day e then by_end
               else AList.update end_t (p\<lparr>b_Sample := (b_Sample p)\<lparr>s_T := end_t\<rparr>\<rparr>) by_end) points []
      in sort_key b_T (map snd by_end))"

section \<open>The store\<close>

record db_trade =
  d_Status :: string
  d_ClosedDay :: string
  d_Payload :: trade

record spike_db =
  d_trades :: "(string \<times> db_trade) list"
  d_bars :: "((string \<times> string \<times> millis) \<times> bar) list"
  d_paper :: "bool option"

text \<open>A statement runs, or fails before or after taking effect.\<close>

datatype db_outcome = DbOk | DbFail string | DbLost string

fun db_result :: "db_outcome \<Rightarrow> spike_db \<Rightarrow> spike_db \<Rightarrow> spike_db \<times> string option" where
  "db_result DbOk old new = (new, None)"
| "db_result (DbFail msg) old new = (old, Some msg)"
| "db_result (DbLost msg) old new = (new, Some msg)"

definition opt_finite :: "f64 option \<Rightarrow> bool" where
  "opt_finite x \<longleftrightarrow> (case x of None \<Rightarrow> True | Some y \<Rightarrow> finite_f y)"

definition leg_finite :: "leg \<Rightarrow> bool" where
  "leg_finite l \<longleftrightarrow> finite_f (l_Strike l) \<and> finite_f (l_Entry l) \<and> opt_finite (l_Exit l)"

definition signal_finite :: "signal \<Rightarrow> bool" where
  "signal_finite g \<longleftrightarrow> finite_f (g_Reference g) \<and> finite_f (g_MovePct g) \<and> finite_f (g_Premium g) \<and> finite_f (g_VWAP g)"

text \<open>\<^verbatim>\<open>json.Marshal\<close> of a trade succeeds exactly when every number in it is finite.\<close>

definition marshal_ok :: "trade \<Rightarrow> bool" where
  "marshal_ok t \<longleftrightarrow> leg_finite (tr_Short t) \<and> leg_finite (tr_Hedge t) \<and> signal_finite (tr_Signal t) \<and> finite_f (tr_EntryCredit t) \<and>
     opt_finite (tr_MarkShort t) \<and> opt_finite (tr_MarkHedge t) \<and> opt_finite (tr_PNL t)"

definition db_open :: "spike_db \<Rightarrow> (string \<times> db_trade) list" where
  "db_open d = filter (\<lambda>(_, r). d_Status r = ''open'') (d_trades d)"

text \<open>The table's constraints on a new open row: key, symbol, one open row per symbol, quantity.\<close>

definition insert_ok :: "trade \<Rightarrow> spike_db \<Rightarrow> bool" where
  "insert_ok t d \<longleftrightarrow> map_of (d_trades d) (tr_ID t) = None \<and> tr_Symbol t \<in> set Symbols \<and>
     \<not> list_ex (\<lambda>(_, r). tr_Symbol (d_Payload r) = tr_Symbol t) (db_open d) \<and>
     tr_Quantity t = tr_LotSize t \<and> tr_Quantity t > 0"

definition Store_Insert :: "bool \<Rightarrow> db_outcome \<Rightarrow> trade \<Rightarrow> spike_db \<Rightarrow> spike_db \<times> string option" where
  "Store_Insert enabled out t d =
     (if \<not> enabled then (d, Some ''Spike paper persistence is unavailable'')
      else if \<not> marshal_ok t then (d, Some ''json: unsupported value'')
      else if \<not> insert_ok t d then (d, Some ''constraint violation'')
      else db_result out d (d\<lparr>d_trades := (tr_ID t, \<lparr>d_Status = ''open'', d_ClosedDay = '''', d_Payload = t\<rparr>) # d_trades d\<rparr>))"

definition Store_Close :: "bool \<Rightarrow> db_outcome \<Rightarrow> trade \<Rightarrow> spike_db \<Rightarrow> spike_db \<times> string option" where
  "Store_Close enabled out t d =
     (if \<not> enabled then (d, Some ''Spike paper persistence is unavailable'')
      else if \<not> marshal_ok t then (d, Some ''json: unsupported value'')
      else case map_of (d_trades d) (tr_ID t) of
        Some r \<Rightarrow>
          if d_Status r = ''open''
          then db_result out d (d\<lparr>d_trades := AList.update (tr_ID t)
                 \<lparr>d_Status = ''closed'', d_ClosedDay = dayKey (the (tr_ClosedAt t)), d_Payload = t\<rparr> (d_trades d)\<rparr>)
          else (d, Some (case out of DbOk \<Rightarrow> ''Spike paper trade is no longer open'' | DbFail msg \<Rightarrow> msg | DbLost msg \<Rightarrow> msg))
      | None \<Rightarrow> (d, Some (case out of DbOk \<Rightarrow> ''Spike paper trade is no longer open'' | DbFail msg \<Rightarrow> msg | DbLost msg \<Rightarrow> msg)))"

definition Store_SetPaper :: "bool \<Rightarrow> db_outcome \<Rightarrow> bool \<Rightarrow> spike_db \<Rightarrow> spike_db \<times> string option" where
  "Store_SetPaper enabled out on d =
     (if \<not> enabled then (d, Some ''Spike paper persistence is unavailable'') else db_result out d (d\<lparr>d_paper := Some on\<rparr>))"

definition bar_finite :: "bar \<Rightarrow> bool" where
  "bar_finite b \<longleftrightarrow> finite_f (s_Premium (b_Sample b)) \<and> finite_f (s_VWAP (b_Sample b)) \<and> finite_f (s_Strike (b_Sample b)) \<and>
     finite_f (b_Low b) \<and> finite_f (b_High b)"

text \<open>All bars in one transaction: either every bar is written or none.\<close>

definition Store_SaveBars :: "bool \<Rightarrow> db_outcome \<Rightarrow> bar list \<Rightarrow> spike_db \<Rightarrow> spike_db \<times> string option" where
  "Store_SaveBars enabled out bs d =
     (if \<not> enabled \<or> bs = [] then (d, None)
      else if \<not> list_all bar_finite bs then (d, Some ''json: unsupported value'')
      else db_result out d (d\<lparr>d_bars := fold (\<lambda>b. AList.update (b_Symbol b, b_Day b, b_T b) b) bs (d_bars d)\<rparr>))"

record load_result =
  ld_enabled :: bool
  ld_open :: "trade list"
  ld_closed :: "trade list"
  ld_bars :: "bar list"

definition Store_Load :: "bool \<Rightarrow> db_outcome \<Rightarrow> string \<Rightarrow> spike_db \<Rightarrow> string + load_result" where
  "Store_Load enabled out dy d =
     (if \<not> enabled then Inr \<lparr>ld_enabled = True, ld_open = [], ld_closed = [], ld_bars = []\<rparr>
      else case out of
        DbFail msg \<Rightarrow> Inl msg
      | DbLost msg \<Rightarrow> Inl msg
      | DbOk \<Rightarrow>
          let rows = rev (sort_key tr_OpenedAt (map (d_Payload \<circ> snd)
                (filter (\<lambda>(_, r). d_Status r = ''open'' \<or> d_ClosedDay r = dy) (d_trades d))))
          in Inr \<lparr>ld_enabled = (case d_paper d of None \<Rightarrow> True | Some b \<Rightarrow> b),
               ld_open = map (\<lambda>t. t\<lparr>tr_MarkStale := True\<rparr>) (filter (\<lambda>t. tr_Status t = ''open'') rows),
               ld_closed = filter (\<lambda>t. tr_Status t \<noteq> ''open'') rows,
               ld_bars = sort_key b_T (map snd (filter (\<lambda>((_, bd, _), _). bd = dy) (d_bars d)))\<rparr>)"

section \<open>Operations around a database call\<close>

definition enter_begin :: "env \<Rightarrow> candidate \<Rightarrow> engine \<Rightarrow> bool \<times> bool" where
  "enter_begin v c e =
     (\<not> stopped e \<and> paper e \<and> active e \<and> connected e \<and> dataReady v \<and> ns e = c_Namespace c \<and>
        namespaceNow v = c_Namespace c \<and> now v - tr_OpenedAt (c_Trade c) \<le> 5000,
      map_of (open_trades e) (tr_Symbol (c_Trade c)) \<noteq> None)"

definition enter_end :: "env \<Rightarrow> candidate \<Rightarrow> bool \<Rightarrow> bool \<Rightarrow> string option \<Rightarrow> engine \<Rightarrow> engine" where
  "enter_end v c valid already err e =
     (let t = c_Trade c; symbol = tr_Symbol t;
          e1 = (if look '''' (pending e) symbol = tr_ID t then e\<lparr>pending := AList.delete symbol (pending e)\<rparr> else e);
          e2 = (if valid \<and> \<not> already \<and> err = None
                then updateMarksLocked v (e1\<lparr>open_trades := AList.update symbol t (open_trades e1),
                       views := AList.update symbol ((look zero_view (views e1) symbol)\<lparr>v_Note := ''Primary one-lot paper spread open''\<rparr>) (views e1)\<rparr>)
                else e1);
          e3 = (case err of Some msg \<Rightarrow> e2\<lparr>lastError := msg\<rparr> | None \<Rightarrow> e2)
      in publishLocked v e3)"

datatype close_start = CloseError string | CloseKnown trade | CloseWrite trade

text \<open>
  The first half of \<^verbatim>\<open>Close\<close>: an unknown or unfillable trade is refused, a trade closed before is
  returned again, and otherwise the closed trade to write is built at the touch.
\<close>

definition close_at :: "env \<Rightarrow> engine \<Rightarrow> trade \<Rightarrow> trade" where
  "close_at v e t =
     (let short = q_Ask (look zero_quote (quotes e) (l_Token (tr_Short t)));
          hedge = q_Bid (look zero_quote (quotes e) (l_Token (tr_Hedge t)));
          pnl = grossPNL t short hedge
      in t\<lparr>tr_Status := ''closed'', tr_ClosedAt := Some (now v),
           tr_Short := (tr_Short t)\<lparr>l_Exit := Some short\<rparr>, tr_Hedge := (tr_Hedge t)\<lparr>l_Exit := Some hedge\<rparr>,
           tr_MarkShort := Some short, tr_MarkHedge := Some hedge, tr_MarkAt := Some (now v), tr_PNL := Some pnl,
           tr_MarkStale := False\<rparr>)"

definition close_begin :: "env \<Rightarrow> string \<Rightarrow> engine \<Rightarrow> close_start" where
  "close_begin v i e =
     (if stopped e then CloseError ''Spike is stopping''
      else case find (\<lambda>t. tr_ID t = i \<and> tr_ID t \<noteq> '''') (map snd (open_trades e)) of
        None \<Rightarrow> (case find (\<lambda>t. tr_ID t = i) (closed e) of
            Some t \<Rightarrow> CloseKnown t
          | None \<Rightarrow> CloseError ''Paper trade is not open'')
      | Some t \<Rightarrow>
          if \<not> fresh_fill v e t then CloseError ''Fresh one-lot closing depth is unavailable; paper trade remains open''
          else CloseWrite (close_at v e t))"

definition close_end :: "env \<Rightarrow> trade \<Rightarrow> engine \<Rightarrow> engine" where
  "close_end v t e = publishLocked v (e\<lparr>open_trades := AList.delete (tr_Symbol t) (open_trades e), closed := t # closed e\<rparr>)"

definition setPaper_end :: "env \<Rightarrow> bool \<Rightarrow> engine \<Rightarrow> engine" where
  "setPaper_end v on e = publishLocked v (e\<lparr>paper := on\<rparr>)"

type_synonym pending_bars = "((string \<times> string \<times> millis) \<times> bar) list"

definition flush_begin :: "engine \<Rightarrow> pending_bars \<times> engine" where
  "flush_begin e = (pendingBars e, e\<lparr>pendingBars := []\<rparr>)"

definition flush_end :: "pending_bars \<Rightarrow> string option \<Rightarrow> engine \<Rightarrow> engine" where
  "flush_end taken err e = (case err of
     None \<Rightarrow> e
   | Some msg \<Rightarrow> e\<lparr>pendingBars := fold (\<lambda>(k, b) m. if map_of m k = None then m @ [(k, b)] else m) taken (pendingBars e),
                   lastError := msg\<rparr>)"

section \<open>Reconciling with the day, the broker and the instrument master\<close>

definition reconcile_load :: "millis \<Rightarrow> engine \<Rightarrow> bool" where
  "reconcile_load t e \<longleftrightarrow> \<not> loaded e \<or> day e \<noteq> dayKey t"

definition bar_points :: "bar \<Rightarrow> sample list" where
  "bar_points b =
     (let points = (if b_LowAt b > 0 then [zero_sample\<lparr>s_T := b_LowAt b, s_Premium := b_Low b\<rparr>] else []) @
                   (if b_HighAt b > 0 then [zero_sample\<lparr>s_T := b_HighAt b, s_Premium := b_High b\<rparr>] else [])
      in sort_key s_T (if points = [] then [b_Sample b] else points))"

definition restore_bar :: "millis \<Rightarrow> bar \<Rightarrow> engine \<Rightarrow> engine" where
  "restore_bar t b e =
     (let symbol = b_Symbol b;
          e1 = e\<lparr>bars := AList.update symbol (AList.update (b_T b) b (look [] (bars e) symbol)) (bars e)\<rparr>;
          e2 = (if t - b_T b \<le> WindowMs \<and> b_T b \<le> t
                then e1\<lparr>windows := AList.update symbol (fold window_Add (bar_points b) (look empty_window (windows e1) symbol)) (windows e1)\<rparr>
                else e1);
          view = look zero_view (views e2) symbol
      in if v_RecordingSince view = None
         then e2\<lparr>views := AList.update symbol (view\<lparr>v_RecordingSince := Some (b_T b)\<rparr>) (views e2)\<rparr> else e2)"

definition reset_recording :: "string \<Rightarrow> engine \<Rightarrow> engine" where
  "reset_recording symbol e =
     e\<lparr>views := AList.update symbol ((look zero_view (views e) symbol)\<lparr>v_RecordingSince := None\<rparr>) (views e)\<rparr>"

definition apply_load :: "millis \<Rightarrow> load_result \<Rightarrow> engine \<Rightarrow> engine" where
  "apply_load t r e =
     (let e1 = e\<lparr>day := dayKey t, paper := ld_enabled r, loaded := True, closed := ld_closed r,
                 open_trades := fold (\<lambda>tr. AList.update (tr_Symbol tr) tr) (ld_open r) [],
                 bars := map (\<lambda>s. (s, [])) Symbols, windows := map (\<lambda>s. (s, empty_window)) Symbols, forming := []\<rparr>;
          e2 = fold (restore_bar t) (ld_bars r) (fold reset_recording Symbols e1)
      in e2\<lparr>quotes := [], previous := []\<rparr>)"

definition set_note :: "string \<Rightarrow> string \<Rightarrow> engine \<Rightarrow> engine" where
  "set_note note symbol e = e\<lparr>views := AList.update symbol ((look zero_view (views e) symbol)\<lparr>v_Note := note\<rparr>) (views e)\<rparr>"

definition reconcile_idle :: "env \<Rightarrow> namespace \<Rightarrow> engine \<Rightarrow> engine" where
  "reconcile_idle v n e =
     publishLocked v (fold (set_note ''Waiting for active Dhan session'') Symbols
       (e\<lparr>active := False, connected := False, ns := n, quotes := [], previous := [], pending := []\<rparr>))"

definition universe_view :: "(string \<times> universe) list \<Rightarrow> string \<Rightarrow> engine \<Rightarrow> engine" where
  "universe_view us symbol e =
     (let u = look zero_universe us symbol;
          view = (look zero_view (views e) symbol)\<lparr>v_Expiry := u_Expiry u, v_Pairs := length (u_Pairs u),
                   v_Note := ''Waiting for full WebSocket quotes''\<rparr>;
          view' = (case u_Pairs u of p # _ \<Rightarrow> view\<lparr>v_LotSize := f_trunc (i_LotSize (fst p))\<rparr>
                   | [] \<Rightarrow> view\<lparr>v_Note := ''No paired options found for nearest expiry''\<rparr>)
      in e\<lparr>views := AList.update symbol view' (views e)\<rparr>)"

definition wanted_tokens :: "(string \<times> universe) list \<Rightarrow> engine \<Rightarrow> token list" where
  "wanted_tokens us e = sort (nub (concat (map (\<lambda>(_, u). map i_InstrumentToken (u_Calls u @ u_Puts u)) us) @
     concat (map (\<lambda>(_, t). [l_Token (tr_Short t), l_Token (tr_Hedge t)]) (open_trades e))))"

text \<open>
  The last section of \<^verbatim>\<open>reconcile\<close>, for the namespace \<open>n\<close> and the instant \<open>t\<close> it started with: the
  engine, what it returns, and the tokens it then hands to the feed, if any.
\<close>

definition reconcile_activate :: "env \<Rightarrow> namespace \<Rightarrow> millis \<Rightarrow> instrument list \<Rightarrow> engine \<Rightarrow> engine \<times> string option \<times> token list option" where
  "reconcile_activate v n t rows e =
     (let us = buildUniverses rows (dayKey t); want = wanted_tokens us e
      in if stopped e \<or> n \<noteq> namespaceNow v then (e, None, None)
         else if length want > maxTokens then (e, Some ''Spike full chains exceed the dedicated feed's 5000-token limit'', None)
         else
           let e1 = (if ns e \<noteq> n then e\<lparr>quotes := [], previous := [], pending := []\<rparr> else e);
               e2 = e1\<lparr>ns := n, active := True, universes := us, wanted := want, lastError := ''''\<rparr>
           in (publishLocked v (fold (universe_view us) Symbols e2), None, Some want))"

definition Stop_begin :: "env \<Rightarrow> engine \<Rightarrow> engine" where
  "Stop_begin v e = (if stopped e then e else (completeBarsLocked (now v) True (e\<lparr>stopped := True\<rparr>))\<lparr>watchers := []\<rparr>)"

section \<open>The system\<close>

text \<open>
  A step depends on whether the database is configured (\<open>en\<close>, fixed for a run) and on the outcomes
  its statements may have (\<open>outs\<close>).
\<close>

datatype op = OpIdle | OpEnter candidate bool bool | OpClose trade | OpPaper bool
  | OpLoad millis namespace | OpData millis namespace

record sys =
  eng :: engine
  db :: spike_db
  op :: op
  flushing :: "pending_bars option"

definition init_sys :: "spike_db \<Rightarrow> sys" where
  "init_sys d = \<lparr>eng = New, db = d, op = OpIdle, flushing = None\<rparr>"

inductive spike_step :: "bool \<Rightarrow> db_outcome set \<Rightarrow> sys \<Rightarrow> sys \<Rightarrow> bool" for en outs where
  Ticks: "spike_step en outs s (s\<lparr>eng := OnTicks v ticks (eng s)\<rparr>)"
| Connection: "spike_step en outs s (s\<lparr>eng := OnConnection v conn (eng s)\<rparr>)"
| RuntimeReady: "spike_step en outs s (s\<lparr>eng := OnRuntimeReady v (eng s)\<rparr>)"
| Invalidated: "spike_step en outs s (s\<lparr>eng := Invalidate v (eng s)\<rparr>)"
| Timer: "spike_step en outs s (s\<lparr>eng := timer_section v (eng s)\<rparr>)"
| ErrorShown: "spike_step en outs s (s\<lparr>eng := setError v msg (eng s)\<rparr>)"
| Subscribed: "spike_step en outs s (s\<lparr>eng := fst (Subscribe v (eng s))\<rparr>)"
| Unsubscribed: "spike_step en outs s (s\<lparr>eng := Unsubscribe i (eng s)\<rparr>)"
| Started: "spike_step en outs s (s\<lparr>eng := (eng s)\<lparr>started := True\<rparr>\<rparr>)"
| Stopped: "spike_step en outs s (s\<lparr>eng := Stop_begin v (eng s)\<rparr>)"
| RefreshTaken: "spike_step en outs s (s\<lparr>eng := (eng s)\<lparr>refresh := False\<rparr>\<rparr>)"
| EnterBegin: "op s = OpIdle \<Longrightarrow> candidates (eng s) = c # cs \<Longrightarrow> enter_begin v c (eng s) = (valid, already) \<Longrightarrow>
    spike_step en outs s (s\<lparr>eng := (eng s)\<lparr>candidates := cs\<rparr>, op := OpEnter c valid already\<rparr>)"
| EnterEnd: "out \<in> outs \<Longrightarrow> op s = OpEnter c valid already \<Longrightarrow>
    (d, err) = (if valid \<and> \<not> already then Store_Insert en out (c_Trade c) (db s) else (db s, None)) \<Longrightarrow>
    spike_step en outs s (s\<lparr>eng := enter_end v c valid already err (eng s), db := d, op := OpIdle\<rparr>)"
| CloseBegin: "op s = OpIdle \<Longrightarrow> close_begin v i (eng s) = CloseWrite t \<Longrightarrow> spike_step en outs s (s\<lparr>op := OpClose t\<rparr>)"
| CloseEnd: "out \<in> outs \<Longrightarrow> op s = OpClose t \<Longrightarrow> Store_Close en out t (db s) = (d, err) \<Longrightarrow>
    spike_step en outs s (s\<lparr>eng := (if err = None then close_end v t (eng s) else eng s), db := d, op := OpIdle\<rparr>)"
| PaperBegin: "op s = OpIdle \<Longrightarrow> \<not> stopped (eng s) \<Longrightarrow> spike_step en outs s (s\<lparr>op := OpPaper on\<rparr>)"
| PaperEnd: "out \<in> outs \<Longrightarrow> op s = OpPaper on \<Longrightarrow> Store_SetPaper en out on (db s) = (d, err) \<Longrightarrow>
    spike_step en outs s (s\<lparr>eng := (if err = None then setPaper_end v on (eng s) else eng s), db := d, op := OpIdle\<rparr>)"
| RecBegin: "op s = OpIdle \<Longrightarrow> \<not> stopped (eng s) \<Longrightarrow>
    spike_step en outs s (s\<lparr>op := (if reconcile_load (now (v :: env)) (eng s) then OpLoad (now v) (namespaceNow v) else OpData (now v) (namespaceNow v))\<rparr>)"
| RecLoad: "out \<in> outs \<Longrightarrow> op s = OpLoad t n \<Longrightarrow> Store_Load en out (dayKey t) (db s) = Inr r \<Longrightarrow>
    spike_step en outs s (s\<lparr>eng := apply_load t r (eng s), op := OpData t n\<rparr>)"
| RecLoadFailed: "out \<in> outs \<Longrightarrow> op s = OpLoad t n \<Longrightarrow> Store_Load en out (dayKey t) (db s) = Inl msg \<Longrightarrow> spike_step en outs s (s\<lparr>op := OpIdle\<rparr>)"
| RecIdle: "op s = OpData t n \<Longrightarrow> \<not> dataReady v \<Longrightarrow> spike_step en outs s (s\<lparr>eng := reconcile_idle v n (eng s), op := OpIdle\<rparr>)"
| RecFailed: "op s = OpData t n \<Longrightarrow> spike_step en outs s (s\<lparr>op := OpIdle\<rparr>)"
| RecActivate: "op s = OpData t n \<Longrightarrow> reconcile_activate v n t rows (eng s) = (e, err, toks) \<Longrightarrow>
    spike_step en outs s (s\<lparr>eng := e, op := OpIdle\<rparr>)"
| FlushBegin: "flushing s = None \<Longrightarrow> flush_begin (eng s) = (taken, e) \<Longrightarrow> spike_step en outs s (s\<lparr>eng := e, flushing := Some taken\<rparr>)"
| FlushEnd: "out \<in> outs \<Longrightarrow> flushing s = Some taken \<Longrightarrow> Store_SaveBars en out (map snd taken) (db s) = (d, err) \<Longrightarrow>
    spike_step en outs s (s\<lparr>eng := flush_end taken err (eng s), db := d, flushing := None\<rparr>)"

inductive spike_reach :: "bool \<Rightarrow> db_outcome set \<Rightarrow> spike_db \<Rightarrow> sys \<Rightarrow> bool" for en outs d where
  Init: "spike_reach en outs d (init_sys d)"
| Step: "spike_reach en outs d s \<Longrightarrow> spike_step en outs s s' \<Longrightarrow> spike_reach en outs d s'"

section \<open>Invariants\<close>

definition mark_ok :: "trade \<Rightarrow> bool" where
  "mark_ok t \<longleftrightarrow> (case (tr_MarkShort t, tr_MarkHedge t, tr_PNL t) of
       (None, None, None) \<Rightarrow> tr_MarkStale t
     | (Some x, Some y, Some p) \<Rightarrow> p = grossPNL t x y
     | _ \<Rightarrow> False)"

definition open_ok :: "trade \<Rightarrow> bool" where
  "open_ok t \<longleftrightarrow> tr_Status t = ''open'' \<and> tr_ClosedAt t = None \<and> tr_Symbol t \<in> set Symbols \<and> mark_ok t"

definition closed_ok :: "trade \<Rightarrow> bool" where
  "closed_ok t \<longleftrightarrow> tr_Status t = ''closed'' \<and> tr_ClosedAt t \<noteq> None \<and>
     (\<exists>x y. l_Exit (tr_Short t) = Some x \<and> l_Exit (tr_Hedge t) = Some y \<and> tr_PNL t = Some (grossPNL t x y))"

definition trades_ok :: "engine \<Rightarrow> bool" where
  "trades_ok e \<longleftrightarrow> distinct (map fst (open_trades e)) \<and> list_all (\<lambda>(k, t). k = tr_Symbol t \<and> open_ok t) (open_trades e)"

definition fresh_trade :: "trade \<Rightarrow> bool" where
  "fresh_trade t \<longleftrightarrow> open_ok t \<and> tr_MarkShort t = None"

definition pend_ok :: "(string \<times> string \<times> millis) \<times> bar \<Rightarrow> bool" where
  "pend_ok p \<longleftrightarrow> fst p = (b_Symbol (snd p), b_Day (snd p), b_T (snd p)) \<and> b_Symbol (snd p) \<in> set Symbols"

definition bars_ok :: "engine \<Rightarrow> bool" where
  "bars_ok e \<longleftrightarrow> set Symbols \<subseteq> fst ` set (bars e) \<and> list_all (\<lambda>(k, b). k = b_Symbol b \<and> k \<in> set Symbols) (forming e) \<and>
     list_all pend_ok (pendingBars e)"

definition eng_ok :: "engine \<Rightarrow> bool" where
  "eng_ok e \<longleftrightarrow> trades_ok e \<and> list_all closed_ok (closed e) \<and> list_all (\<lambda>c. fresh_trade (c_Trade c)) (candidates e) \<and>
     bars_ok e \<and> (active e \<longrightarrow> loaded e)"

definition mem_ids :: "engine \<Rightarrow> (string \<times> string) list" where
  "mem_ids e = map (\<lambda>(k, t). (k, tr_ID t)) (open_trades e)"

text \<open>What everything but the operations themselves keeps of the engine.\<close>

definition keeps :: "engine \<Rightarrow> engine \<Rightarrow> bool" where
  "keeps e e' \<longleftrightarrow> (eng_ok e \<longrightarrow> eng_ok e') \<and> mem_ids e' = mem_ids e \<and> loaded e' = loaded e"

lemma keeps_refl [simp, intro]: "keeps e e"
  by (simp add: keeps_def)

lemma keeps_trans [trans]: "keeps e e1 \<Longrightarrow> keeps e1 e2 \<Longrightarrow> keeps e e2"
  by (auto simp: keeps_def)

lemma keeps_fold: "(\<And>x e. x \<in> set xs \<Longrightarrow> keeps e (f x e)) \<Longrightarrow> keeps e (fold f xs e)"
proof (induction xs arbitrary: e)
  case (Cons x xs)
  have "keeps e (f x e)" using Cons.prems by simp
  also have "keeps (f x e) (fold f xs (f x e))" by (rule Cons.IH) (use Cons.prems in auto)
  finally show ?case by simp
qed simp

text \<open>Fields a step does not touch keep the invariant.\<close>

lemma keepsI:
  assumes "open_trades e' = open_trades e" "closed e' = closed e" "candidates e' = candidates e" "bars e' = bars e"
    "forming e' = forming e" "pendingBars e' = pendingBars e" "loaded e' = loaded e" "active e' \<Longrightarrow> active e"
  shows "keeps e e'"
  using assms by (auto simp: keeps_def eng_ok_def trades_ok_def bars_ok_def mem_ids_def)

lemma publish_keeps [simp, intro]: "keeps e (publishLocked v e)"
  by (rule keepsI) (simp_all add: publishLocked_def split: if_splits)

lemma grossPNL_cong:
  "tr_Quantity t = tr_Quantity t' \<Longrightarrow> l_Entry (tr_Short t) = l_Entry (tr_Short t') \<Longrightarrow> l_Entry (tr_Hedge t) = l_Entry (tr_Hedge t') \<Longrightarrow>
   grossPNL t x y = grossPNL t' x y"
  by (simp add: grossPNL_def)

lemma mark_trade_fields [simp]:
  "tr_ID (mark_trade v e t) = tr_ID t" "tr_Symbol (mark_trade v e t) = tr_Symbol t" "tr_Status (mark_trade v e t) = tr_Status t"
  "tr_ClosedAt (mark_trade v e t) = tr_ClosedAt t" "tr_Quantity (mark_trade v e t) = tr_Quantity t"
  "tr_Short (mark_trade v e t) = tr_Short t" "tr_Hedge (mark_trade v e t) = tr_Hedge t"
  by (simp_all add: mark_trade_def Let_def)

lemma mark_trade_ok: "mark_ok t \<Longrightarrow> mark_ok (mark_trade v e t)"
  by (auto simp: mark_trade_def mark_ok_def Let_def grossPNL_def split: option.splits)

lemma updateMarks_keeps [simp, intro]: "keeps e (updateMarksLocked v e)"
proof -
  have "map fst (open_trades (updateMarksLocked v e)) = map fst (open_trades e)"
    by (simp add: updateMarksLocked_def case_prod_beta)
  moreover have "trades_ok (updateMarksLocked v e)" if "trades_ok e"
    using that by (auto simp: trades_ok_def updateMarksLocked_def list_all_iff open_ok_def case_prod_beta comp_def intro: mark_trade_ok)
  moreover have "mem_ids (updateMarksLocked v e) = mem_ids e"
    by (simp add: mem_ids_def updateMarksLocked_def case_prod_beta)
  ultimately show ?thesis
    by (auto simp: keeps_def eng_ok_def bars_ok_def updateMarksLocked_def)
qed

lemma complete_bar_keeps:
  assumes "snd sb = b" "b_Symbol b \<in> set Symbols" "fst sb = b_Symbol b"
  shows "keeps e (complete_bar sb e)"
proof -
  have "bars_ok e \<Longrightarrow> bars_ok (complete_bar sb e)"
    using assms dom_update [of "b_Symbol b" _ "bars e"]
    by (cases sb) (auto simp: bars_ok_def complete_bar_def pend_ok_def intro!: list_all_update list_all_delete)
  then show ?thesis
    by (cases sb) (auto simp: keeps_def eng_ok_def trades_ok_def mem_ids_def complete_bar_def)
qed

lemma complete_bar_fields: "open_trades (complete_bar sb e) = open_trades e" "loaded (complete_bar sb e) = loaded e"
  by (cases sb; simp add: complete_bar_def)+

lemma complete_bars_keeps [simp, intro]: "keeps e (completeBarsLocked t force e)"
proof (cases "eng_ok e")
  case True
  then have ok: "list_all (\<lambda>(k, b). k = b_Symbol b \<and> k \<in> set Symbols) (forming e)" by (simp add: eng_ok_def bars_ok_def)
  show ?thesis unfolding completeBarsLocked_def
    by (rule keeps_fold, rule complete_bar_keeps [OF refl]) (use ok in \<open>auto simp: list_all_iff\<close>)
next
  case False
  have "mem_ids (fold complete_bar xs e) = mem_ids e \<and> loaded (fold complete_bar xs e) = loaded e" for xs e
    by (induction xs arbitrary: e) (simp_all add: mem_ids_def complete_bar_fields)
  with False show ?thesis by (simp add: keeps_def completeBarsLocked_def)
qed

lemma setError_keeps [simp, intro]: "keeps e (setError v msg e)"
proof -
  have "keeps e (e\<lparr>lastError := msg\<rparr>)" by (rule keepsI) simp_all
  also have "keeps (e\<lparr>lastError := msg\<rparr>) (setError v msg e)" by (simp add: setError_def)
  finally show ?thesis .
qed

lemma tradeAtCross_fresh:
  "tradeAtCrossLocked i symbol short hedge sig t e = Inr tr \<Longrightarrow> symbol \<in> set Symbols \<Longrightarrow> fresh_trade tr \<and> tr_Symbol tr = symbol"
  by (auto simp: tradeAtCrossLocked_def fresh_trade_def open_ok_def mark_ok_def Let_def split: if_splits)

lemma signal_action_keeps:
  assumes "symbol \<in> set Symbols"
  shows "keeps e (fst (signal_action v symbol u m sig t e))"
proof -
  have "keeps e (e\<lparr>candidates := candidates e @ [c], pending := p\<rparr>)" if "fresh_trade (c_Trade c)" for c p
    using that by (auto simp: keeps_def eng_ok_def trades_ok_def bars_ok_def mem_ids_def)
  then show ?thesis
    using tradeAtCross_fresh [OF _ assms]
    by (auto simp: signal_action_def split: prod.splits sum.splits)
qed

lemma form_bar_Symbol:
  "eng_ok e \<Longrightarrow> b_Symbol (form_bar symbol s t e) = symbol"
  by (auto simp: form_bar_def Let_def eng_ok_def bars_ok_def list_all_iff split: option.splits dest!: map_of_SomeD)

lemma evaluate_keeps:
  assumes "symbol \<in> set Symbols"
  shows "keeps e (evaluateLocked v symbol t e)"
proof -
  have upd: "keeps e1 (e1\<lparr>windows := w, previous := p, views := vw, forming := AList.update symbol (form_bar symbol s t e1) (forming e1)\<rparr>)"
    for e1 w p vw s
    using form_bar_Symbol [of e1 symbol s t] assms
    by (auto simp: keeps_def eng_ok_def trades_ok_def bars_ok_def mem_ids_def intro!: list_all_update)
  have nt: "keeps e (e\<lparr>views := vw\<rparr>)" for vw by (rule keepsI) simp_all
  have sa: "keeps e (e1\<lparr>windows := w, previous := p, views := vw, forming := AList.update symbol (form_bar symbol s t e1) (forming e1)\<rparr>)"
    if "signal_action v symbol u m sig t e = (e1, n)" for u m sig e1 n w p vw s
    using keeps_trans [OF signal_action_keeps [OF assms, of e v u m sig t] upd] that by simp
  show ?thesis
    unfolding evaluateLocked_def Let_def
    by (auto simp: nt split: option.splits prod.splits intro: upd sa)
qed

lemma take_tick_keeps: "keeps e (take_tick v tk e)"
  by (auto simp: take_tick_def intro!: keepsI)

lemma OnTicks_keeps: "keeps e (OnTicks v ticks e)"
proof -
  define e1 where "e1 = fold (take_tick v) ticks e"
  define e2 where "e2 = updateMarksLocked v (completeBarsLocked (now v) False e1)"
  have "keeps e e1" unfolding e1_def by (rule keeps_fold) (rule take_tick_keeps)
  also have "keeps e1 (completeBarsLocked (now v) False e1)" by simp
  also have "keeps (completeBarsLocked (now v) False e1) e2" by (simp add: e2_def)
  finally have 2: "keeps e e2" .
  also have "keeps e2 (fold (\<lambda>symbol. evaluateLocked v symbol (now v)) Symbols e2)"
    by (rule keeps_fold) (rule evaluate_keeps)
  finally show ?thesis using 2 by (simp add: OnTicks_def Let_def e1_def e2_def)
qed

lemma clear_keeps: "keeps e (updateMarksLocked v (e\<lparr>quotes := [], previous := []\<rparr>))"
proof -
  have "keeps e (e\<lparr>quotes := [], previous := []\<rparr>)" by (rule keepsI) simp_all
  also have "keeps (e\<lparr>quotes := [], previous := []\<rparr>) (updateMarksLocked v (e\<lparr>quotes := [], previous := []\<rparr>))" by simp
  finally show ?thesis .
qed

lemma OnConnection_keeps: "keeps e (OnConnection v conn e)"
proof -
  have c: "keeps e (e\<lparr>connected := conn\<rparr>)" by (rule keepsI) simp_all
  have "keeps e (let e1 = e\<lparr>connected := conn\<rparr>
       in if \<not> conn then updateMarksLocked v (e1\<lparr>quotes := [], previous := []\<rparr>) else e1)"
    using c keeps_trans [OF c clear_keeps] by (cases conn) (simp_all add: Let_def)
  from keeps_trans [OF this publish_keeps] show ?thesis by (simp add: OnConnection_def)
qed

lemma OnRuntimeReady_keeps: "keeps e (OnRuntimeReady v e)"
proof -
  have "keeps e1 (e1\<lparr>refresh := True\<rparr>)" for e1 by (rule keepsI) simp_all
  from keeps_trans [OF clear_keeps this] show ?thesis by (simp add: OnRuntimeReady_def)
qed

lemma Invalidate_keeps: "keeps e (Invalidate v e)"
proof -
  have "keeps e (e\<lparr>active := False, connected := False, quotes := [], previous := [], pending := []\<rparr>)" by (rule keepsI) simp_all
  from keeps_trans [OF keeps_trans [OF this publish_keeps] OnRuntimeReady_keeps] show ?thesis by (simp add: Invalidate_def)
qed

lemma timer_keeps: "keeps e (timer_section v e)"
  unfolding timer_section_def
  by (rule keeps_trans [OF complete_bars_keeps keeps_trans [OF updateMarks_keeps publish_keeps]])

lemma Subscribe_keeps: "keeps e (fst (Subscribe v e))"
  by (rule keepsI) (simp_all add: Subscribe_def Let_def split: if_splits)

lemma Unsubscribe_keeps: "keeps e (Unsubscribe i e)"
  by (rule keepsI) (simp_all add: Unsubscribe_def)

lemma Stop_keeps: "keeps e (Stop_begin v e)"
proof -
  have s: "keeps e (e\<lparr>stopped := True\<rparr>)" and w: "keeps e1 (e1\<lparr>watchers := []\<rparr>)" for e1 by (rule keepsI; simp)+
  show ?thesis unfolding Stop_begin_def using keeps_trans [OF keeps_trans [OF s complete_bars_keeps] w] by simp
qed

lemma flush_begin_keeps: "flush_begin e = (taken, e') \<Longrightarrow> keeps e e'"
  by (auto simp: flush_begin_def keeps_def eng_ok_def trades_ok_def bars_ok_def mem_ids_def)

lemma flush_end_keeps:
  assumes "list_all pend_ok taken"
  shows "keeps e (flush_end taken err e)"
proof -
  have "list_all pend_ok (fold (\<lambda>(k, b) m. if map_of m k = None then m @ [(k, b)] else m) taken m)"
    if "list_all pend_ok m" for m
    using assms that by (induction taken arbitrary: m) auto
  then show ?thesis
    by (auto simp: flush_end_def keeps_def eng_ok_def trades_ok_def bars_ok_def mem_ids_def split: option.splits)
qed

lemma set_note_keeps: "keeps e (set_note n s e)"
  by (rule keepsI) (simp_all add: set_note_def)

lemma reconcile_idle_keeps: "keeps e (reconcile_idle v n e)"
proof -
  have "keeps e (e\<lparr>active := False, connected := False, ns := n, quotes := [], previous := [], pending := []\<rparr>)" by (rule keepsI) simp_all
  also have "keeps e1 (fold (set_note n') Symbols e1)" for e1 n' by (rule keeps_fold) (rule set_note_keeps)
  finally show ?thesis unfolding reconcile_idle_def by (rule keeps_trans [OF _ publish_keeps])
qed

section \<open>The database and the operations\<close>

definition row_ok :: "string \<times> db_trade \<Rightarrow> bool" where
  "row_ok ir \<longleftrightarrow> (case ir of (i, r) \<Rightarrow> tr_ID (d_Payload r) = i \<and> tr_Status (d_Payload r) = d_Status r \<and>
     (if d_Status r = ''open'' then fresh_trade (d_Payload r) else closed_ok (d_Payload r)))"

definition db_ok :: "spike_db \<Rightarrow> bool" where
  "db_ok d \<longleftrightarrow> distinct (map fst (d_trades d)) \<and> list_all row_ok (d_trades d) \<and>
     distinct (map (\<lambda>(_, r). tr_Symbol (d_Payload r)) (db_open d)) \<and>
     list_all (\<lambda>(_, b). b_Symbol b \<in> set Symbols) (d_bars d)"

definition db_ids :: "spike_db \<Rightarrow> (string \<times> string) list" where
  "db_ids d = map (\<lambda>(i, r). (tr_Symbol (d_Payload r), i)) (db_open d)"

lemma update_new: "k \<notin> fst ` set m \<Longrightarrow> AList.update k v m = m @ [(k, v)]"
  by (induction m) auto

lemma fold_update_distinct:
  "distinct (map f ts) \<Longrightarrow> f ` set ts \<inter> fst ` set m = {} \<Longrightarrow>
   fold (\<lambda>t. AList.update (f t) t) ts m = m @ map (\<lambda>t. (f t, t)) ts"
proof (induction ts arbitrary: m)
  case (Cons t ts)
  have "AList.update (f t) t m = m @ [(f t, t)]" using Cons.prems by (intro update_new) auto
  moreover have "fold (\<lambda>t. AList.update (f t) t) ts (m @ [(f t, t)]) = (m @ [(f t, t)]) @ map (\<lambda>t. (f t, t)) ts"
    using Cons.prems by (intro Cons.IH) auto
  ultimately show ?case by simp
qed simp

lemma distinct_map_mset: "mset xs = mset ys \<Longrightarrow> distinct (map f xs) \<longleftrightarrow> distinct (map f ys)"
  by (metis mset_eq_imp_distinct_iff mset_map)

lemma enter_end_ok:
  assumes "eng_ok e" "fresh_trade (c_Trade c)" "valid \<Longrightarrow> loaded e"
    "already \<longleftrightarrow> tr_Symbol (c_Trade c) \<in> fst ` set (mem_ids e)"
  shows "eng_ok (enter_end v c valid already err e) \<and> loaded (enter_end v c valid already err e) = loaded e \<and>
    mem_ids (enter_end v c valid already err e) =
      (if valid \<and> \<not> already \<and> err = None then mem_ids e @ [(tr_Symbol (c_Trade c), tr_ID (c_Trade c))] else mem_ids e)"
proof -
  let ?t = "c_Trade c" let ?s = "tr_Symbol ?t"
  define e1 where "e1 = (if look '''' (pending e) ?s = tr_ID ?t then e\<lparr>pending := AList.delete ?s (pending e)\<rparr> else e)"
  have k1: "keeps e e1" unfolding e1_def by (auto intro: keepsI)
  then have ok1: "eng_ok e1" "mem_ids e1 = mem_ids e" "loaded e1 = loaded e" using assms(1) by (auto simp: keeps_def)
  have op1: "open_trades e1 = open_trades e" by (simp add: e1_def)
  define ea where "ea = e1\<lparr>open_trades := AList.update ?s ?t (open_trades e1),
    views := AList.update ?s ((look zero_view (views e1) ?s)\<lparr>v_Note := ''Primary one-lot paper spread open''\<rparr>) (views e1)\<rparr>"
  define e2 where "e2 = (if valid \<and> \<not> already \<and> err = None then updateMarksLocked v ea else e1)"
  define e3 where "e3 = (case err of Some msg \<Rightarrow> e2\<lparr>lastError := msg\<rparr> | None \<Rightarrow> e2)"
  have fin: "enter_end v c valid already err e = publishLocked v e3"
    by (simp only: enter_end_def Let_def e3_def e2_def ea_def e1_def)
  have a: "eng_ok ea" "loaded ea = loaded e" "mem_ids ea = mem_ids e @ [(?s, tr_ID ?t)]" if "\<not> already"
  proof -
    have "?s \<notin> fst ` set (open_trades e)" using that assms(4) by (force simp: mem_ids_def)
    then have upd: "open_trades ea = open_trades e @ [(?s, ?t)]" by (simp add: ea_def op1 update_new)
    show "mem_ids ea = mem_ids e @ [(?s, tr_ID ?t)]" by (simp add: mem_ids_def upd)
    show "loaded ea = loaded e" using ok1 by (simp add: ea_def)
    have "trades_ok ea"
      using assms(1,2) \<open>?s \<notin> fst ` set (open_trades e)\<close> by (auto simp: trades_ok_def upd eng_ok_def fresh_trade_def)
    then show "eng_ok ea" using ok1(1) by (auto simp: eng_ok_def bars_ok_def ea_def)
  qed
  have k3: "keeps e2 e3" unfolding e3_def by (auto intro!: keepsI split: option.splits)
  have k: "keeps e2 (publishLocked v e3)" by (rule keeps_trans [OF k3 publish_keeps])
  show ?thesis unfolding fin
  proof (cases "valid \<and> \<not> already \<and> err = None")
    case True
    then have "keeps ea e2" by (simp add: e2_def)
    from keeps_trans [OF this k] show "eng_ok (publishLocked v e3) \<and> loaded (publishLocked v e3) = loaded e \<and>
      mem_ids (publishLocked v e3) =
        (if valid \<and> \<not> already \<and> err = None then mem_ids e @ [(?s, tr_ID ?t)] else mem_ids e)"
      using a True by (simp add: keeps_def)
  next
    case False
    then have "e2 = e1" by (simp only: e2_def if_False)
    then show "eng_ok (publishLocked v e3) \<and> loaded (publishLocked v e3) = loaded e \<and>
      mem_ids (publishLocked v e3) =
        (if valid \<and> \<not> already \<and> err = None then mem_ids e @ [(?s, tr_ID ?t)] else mem_ids e)"
      using False k ok1 by (auto simp: keeps_def)
  qed
qed

lemma close_begin_ok:
  assumes "eng_ok e" "close_begin v i e = CloseWrite t"
  shows "closed_ok t \<and> (tr_Symbol t, tr_ID t) \<in> set (mem_ids e)"
proof -
  obtain t0 where t0: "find (\<lambda>t. tr_ID t = i \<and> tr_ID t \<noteq> '''') (map snd (open_trades e)) = Some t0" "t = close_at v e t0"
    using assms(2) by (auto simp: close_begin_def split: if_splits option.splits)
  then have mem: "t0 \<in> set (map snd (open_trades e))" by (auto simp: find_Some_iff)
  then obtain k where k: "(k, t0) \<in> set (open_trades e)" by auto
  then have "k = tr_Symbol t0" using assms(1) by (auto simp: eng_ok_def trades_ok_def list_all_iff)
  with k have "(tr_Symbol t0, tr_ID t0) \<in> set (mem_ids e)" by (force simp: mem_ids_def)
  then show ?thesis by (simp add: t0(2) close_at_def closed_ok_def Let_def grossPNL_def)
qed

lemma map_of_mem_ids: "map_of (mem_ids e) k = map_option tr_ID (map_of (open_trades e) k)"
  by (simp add: mem_ids_def map_of_map)

lemma close_end_ok:
  assumes "eng_ok e" "closed_ok t"
  shows "eng_ok (close_end v t e) \<and> loaded (close_end v t e) = loaded e \<and>
    mem_ids (close_end v t e) = filter (\<lambda>p. fst p \<noteq> tr_Symbol t) (mem_ids e)"
proof -
  let ?e = "e\<lparr>open_trades := AList.delete (tr_Symbol t) (open_trades e), closed := t # closed e\<rparr>"
  have "eng_ok ?e"
    using assms by (auto simp: eng_ok_def trades_ok_def bars_ok_def distinct_delete intro: list_all_delete)
  moreover have "mem_ids ?e = filter (\<lambda>p. fst p \<noteq> tr_Symbol t) (mem_ids e)"
    by (auto simp: mem_ids_def AList.delete_eq filter_map intro!: arg_cong [of _ _ "map _"] filter_cong)
  ultimately show ?thesis using publish_keeps [of ?e v] by (simp add: keeps_def close_end_def)
qed

lemma restore_bar_fields:
  "open_trades (restore_bar t b e) = open_trades e" "closed (restore_bar t b e) = closed e" "candidates (restore_bar t b e) = candidates e"
  "forming (restore_bar t b e) = forming e" "pendingBars (restore_bar t b e) = pendingBars e" "loaded (restore_bar t b e) = loaded e"
  "active (restore_bar t b e) = active e" "fst ` set (bars e) \<subseteq> fst ` set (bars (restore_bar t b e))"
  by (auto simp: restore_bar_def Let_def dom_update)

lemma restore_bar_keeps: "keeps e (restore_bar t b e)"
  using restore_bar_fields [where t = t and b = b and e = e]
  by (auto simp: keeps_def eng_ok_def trades_ok_def bars_ok_def mem_ids_def)

lemma reset_recording_keeps: "keeps e (reset_recording s e)"
  by (rule keepsI) (simp_all add: reset_recording_def)

lemma apply_load_ok:
  assumes "eng_ok e" "list_all open_ok (ld_open r)" "distinct (map tr_Symbol (ld_open r))" "list_all closed_ok (ld_closed r)"
  shows "eng_ok (apply_load t r e) \<and> loaded (apply_load t r e) \<and>
    mem_ids (apply_load t r e) = map (\<lambda>tr. (tr_Symbol tr, tr_ID tr)) (ld_open r)"
proof -
  define e1 where "e1 = e\<lparr>day := dayKey t, paper := ld_enabled r, loaded := True, closed := ld_closed r,
                 open_trades := fold (\<lambda>tr. AList.update (tr_Symbol tr) tr) (ld_open r) [],
                 bars := map (\<lambda>s. (s, [])) Symbols, windows := map (\<lambda>s. (s, empty_window)) Symbols, forming := []\<rparr>"
  have opn: "open_trades e1 = map (\<lambda>tr. (tr_Symbol tr, tr)) (ld_open r)"
    using fold_update_distinct [of tr_Symbol "ld_open r" "[]"] assms(3) by (simp add: e1_def)
  have "trades_ok e1" using assms(2,3) by (auto simp: trades_ok_def opn comp_def list_all_iff)
  moreover have "bars_ok e1" using assms(1) by (auto simp: e1_def bars_ok_def eng_ok_def image_image)
  ultimately have ok: "eng_ok e1" using assms(1,4) by (simp add: eng_ok_def e1_def)
  have q: "keeps e2 (e2\<lparr>quotes := [], previous := []\<rparr>)" for e2 by (rule keepsI) simp_all
  have "keeps e1 (fold reset_recording Symbols e1)" by (rule keeps_fold) (rule reset_recording_keeps)
  also have "keeps (fold reset_recording Symbols e1) (fold (restore_bar t) (ld_bars r) (fold reset_recording Symbols e1))"
    by (rule keeps_fold) (rule restore_bar_keeps)
  also note q
  finally have "keeps e1 (apply_load t r e)" by (simp only: apply_load_def Let_def e1_def)
  moreover have "mem_ids e1 = map (\<lambda>tr. (tr_Symbol tr, tr_ID tr)) (ld_open r)" "loaded e1"
    by (simp_all add: mem_ids_def opn) (simp add: e1_def)
  ultimately show ?thesis using ok by (simp add: keeps_def)
qed

lemma db_open_row: "db_ok d \<Longrightarrow> (i, r) \<in> set (db_open d) \<Longrightarrow> fresh_trade (d_Payload r) \<and> tr_ID (d_Payload r) = i"
  by (auto simp: db_ok_def db_open_def list_all_iff row_ok_def)

lemma fresh_stale: "fresh_trade t \<Longrightarrow> open_ok (t\<lparr>tr_MarkStale := True\<rparr>)"
  by (auto simp: fresh_trade_def open_ok_def mark_ok_def split: option.splits)

lemma open_rows:
  assumes "list_all row_ok xs"
  shows "filter (\<lambda>t. tr_Status t = ''open'') (map (d_Payload \<circ> snd) (filter (\<lambda>(_, r). d_Status r = ''open'' \<or> d_ClosedDay r = dy) xs)) =
    map (d_Payload \<circ> snd) (filter (\<lambda>(_, r). d_Status r = ''open'') xs)"
  using assms by (induction xs) (auto simp: row_ok_def split: if_splits)

text \<open>What a load finds: the open rows of the table, each once, and the day's closed ones.\<close>

lemma Store_Load_ok:
  assumes "db_ok d" "Store_Load en out dy d = Inr r"
  shows "list_all open_ok (ld_open r) \<and> distinct (map tr_Symbol (ld_open r)) \<and> list_all closed_ok (ld_closed r) \<and>
    set (map (\<lambda>tr. (tr_Symbol tr, tr_ID tr)) (ld_open r)) = (if en then set (db_ids d) else {})"
proof (cases en)
  case False
  then show ?thesis using assms(2) by (auto simp: Store_Load_def)
next
  case True
  let ?all = "map (d_Payload \<circ> snd) (filter (\<lambda>(_, r). d_Status r = ''open'' \<or> d_ClosedDay r = dy) (d_trades d))"
  let ?rows = "rev (sort_key tr_OpenedAt ?all)"
  let ?op = "filter (\<lambda>t. tr_Status t = ''open'') ?rows"
  have r: "ld_open r = map (\<lambda>t. t\<lparr>tr_MarkStale := True\<rparr>) ?op" "ld_closed r = filter (\<lambda>t. tr_Status t \<noteq> ''open'') ?rows"
    using assms(2) True by (auto simp: Store_Load_def Let_def split: db_outcome.splits)
  have rows: "list_all row_ok (d_trades d)" using assms(1) by (simp add: db_ok_def)
  have ms: "mset ?op = mset (map (d_Payload \<circ> snd) (db_open d))"
    unfolding db_open_def open_rows [OF rows, of dy, symmetric] by (simp only: mset_filter mset_rev mset_sort)
  have "set ?op = set (map (d_Payload \<circ> snd) (db_open d))" by (rule mset_eq_setD [OF ms])
  also have "\<dots> = d_Payload ` snd ` set (db_open d)" by (simp add: image_comp)
  finally have set_op: "set ?op = d_Payload ` snd ` set (db_open d)" .
  moreover have "open_ok (t\<lparr>tr_MarkStale := True\<rparr>)" if "t \<in> d_Payload ` snd ` set (db_open d)" for t
    using that db_open_row [OF assms(1)] by (auto intro: fresh_stale)
  ultimately have "list_all open_ok (ld_open r)" by (auto simp: r list_all_iff)
  moreover have "distinct (map tr_Symbol (ld_open r))"
    using distinct_map_mset [OF ms, of tr_Symbol] assms(1) by (simp add: r db_ok_def comp_def case_prod_beta')
  moreover have "list_all closed_ok (ld_closed r)"
    using rows by (auto simp: r list_all_iff row_ok_def)
  moreover have "set (map (\<lambda>tr. (tr_Symbol tr, tr_ID tr)) (ld_open r)) = set (db_ids d)"
  proof -
    have "set (map (\<lambda>tr. (tr_Symbol tr, tr_ID tr)) (ld_open r)) = (\<lambda>t. (tr_Symbol t, tr_ID t)) ` set ?op"
      unfolding r set_map image_image by (rule image_cong) simp_all
    also have "\<dots> = (\<lambda>p. (tr_Symbol (d_Payload (snd p)), tr_ID (d_Payload (snd p)))) ` set (db_open d)"
      unfolding set_op by (simp only: image_image)
    also have "\<dots> = set (db_ids d)"
      unfolding db_ids_def set_map by (rule image_cong) (use db_open_row [OF assms(1)] in auto)
    finally show ?thesis .
  qed
  ultimately show ?thesis using True by simp
qed

lemma Store_Insert_ok:
  assumes "db_ok d" "fresh_trade t" "Store_Insert en out t d = (d', err)"
  shows "db_ok d'" "out \<in> {DbOk} \<union> range DbFail \<Longrightarrow>
    db_ids d' = (if err = None then (tr_Symbol t, tr_ID t) # db_ids d else db_ids d) \<and> (err = None \<longrightarrow> en)"
proof -
  let ?d = "d\<lparr>d_trades := (tr_ID t, \<lparr>d_Status = ''open'', d_ClosedDay = '''', d_Payload = t\<rparr>) # d_trades d\<rparr>"
  have ids: "db_ids ?d = (tr_Symbol t, tr_ID t) # db_ids d" by (simp add: db_ids_def db_open_def)
  have "db_ok ?d" if "insert_ok t d"
  proof -
    have "tr_Symbol t \<notin> (\<lambda>(_, r). tr_Symbol (d_Payload r)) ` set (db_open d)" "tr_ID t \<notin> fst ` set (d_trades d)"
      using that by (auto simp: insert_ok_def list_ex_iff map_of_eq_None_iff)
    moreover have "db_open ?d = (tr_ID t, \<lparr>d_Status = ''open'', d_ClosedDay = '''', d_Payload = t\<rparr>) # db_open d"
      by (simp add: db_open_def)
    ultimately show ?thesis using assms(1,2) by (auto simp: db_ok_def row_ok_def fresh_trade_def open_ok_def)
  qed
  then show "db_ok d'" using assms(1,3) by (cases out) (auto simp: Store_Insert_def split: if_splits)
  show "db_ids d' = (if err = None then (tr_Symbol t, tr_ID t) # db_ids d else db_ids d) \<and> (err = None \<longrightarrow> en)"
    if "out \<in> {DbOk} \<union> range DbFail"
    using that assms(3) ids by (auto simp: Store_Insert_def split: if_splits)
qed

lemma db_open_update_closed:
  assumes "distinct (map fst xs)"
  shows "filter (\<lambda>(_, r). d_Status r = ''open'') (AList.update i \<lparr>d_Status = ''closed'', d_ClosedDay = dy, d_Payload = t\<rparr> xs) =
    filter (\<lambda>(j, r). j \<noteq> i \<and> d_Status r = ''open'') xs"
  using assms by (induction xs) (auto simp: image_iff intro!: filter_cong)

lemma Store_Close_ok:
  assumes "db_ok d" "closed_ok t" "Store_Close en out t d = (d', err)"
  shows "db_ok d'" "out \<in> {DbOk} \<union> range DbFail \<Longrightarrow>
    db_ids d' = (if err = None then filter (\<lambda>p. snd p \<noteq> tr_ID t) (db_ids d) else db_ids d)"
proof -
  let ?r = "\<lparr>d_Status = ''closed'', d_ClosedDay = dayKey (the (tr_ClosedAt t)), d_Payload = t\<rparr>"
  let ?d = "d\<lparr>d_trades := AList.update (tr_ID t) ?r (d_trades d)\<rparr>"
  have dist: "distinct (map fst (d_trades d))" using assms(1) by (simp add: db_ok_def)
  have opn: "db_open ?d = filter (\<lambda>(j, r). j \<noteq> tr_ID t) (db_open d)"
    unfolding db_open_def using db_open_update_closed [OF dist] by (simp add: filter_filter case_prod_beta' conj_commute)
  then have ids: "db_ids ?d = filter (\<lambda>p. snd p \<noteq> tr_ID t) (db_ids d)"
    by (simp add: db_ids_def filter_map comp_def case_prod_beta')
  have "db_ok ?d"
    using assms(1,2) unfolding db_ok_def opn
    by (auto simp: distinct_update row_ok_def closed_ok_def case_prod_beta distinct_map_filter intro!: list_all_update)
  then show "db_ok d'" using assms(1,3) by (cases out) (auto simp: Store_Close_def split: if_splits option.splits)
  show "db_ids d' = (if err = None then filter (\<lambda>p. snd p \<noteq> tr_ID t) (db_ids d) else db_ids d)"
    if "out \<in> {DbOk} \<union> range DbFail"
    using that assms(3) ids by (auto simp: Store_Close_def split: if_splits option.splits)
qed

lemma Store_SetPaper_ok: "Store_SetPaper en out on d = (d', err) \<Longrightarrow> (db_ok d \<longrightarrow> db_ok d') \<and> db_ids d' = db_ids d"
  by (cases out) (auto simp: Store_SetPaper_def db_ok_def db_ids_def db_open_def split: if_splits)

lemma Store_SaveBars_ok:
  assumes "Store_SaveBars en out bs d = (d', err)" "list_all (\<lambda>b. b_Symbol b \<in> set Symbols) bs"
  shows "(db_ok d \<longrightarrow> db_ok d') \<and> db_ids d' = db_ids d"
proof -
  have "list_all (\<lambda>(_, b). b_Symbol b \<in> set Symbols) (fold (\<lambda>b. AList.update (b_Symbol b, b_Day b, b_T b) b) bs m)"
    if "list_all (\<lambda>(_, b). b_Symbol b \<in> set Symbols) m" for m
    using assms(2) that by (induction bs arbitrary: m) (auto intro: list_all_update)
  then show ?thesis using assms(1)
    by (cases out) (auto simp: Store_SaveBars_def db_ok_def db_ids_def db_open_def split: if_splits)
qed

section \<open>The system invariant\<close>

definition op_ok :: "sys \<Rightarrow> bool" where
  "op_ok s \<longleftrightarrow> (case op s of
       OpEnter c valid already \<Rightarrow> fresh_trade (c_Trade c) \<and> (valid \<longrightarrow> loaded (eng s)) \<and>
         (already \<longleftrightarrow> tr_Symbol (c_Trade c) \<in> fst ` set (mem_ids (eng s)))
     | OpClose t \<Rightarrow> closed_ok t \<and> (tr_Symbol t, tr_ID t) \<in> set (mem_ids (eng s))
     | OpData t n \<Rightarrow> loaded (eng s)
     | _ \<Rightarrow> True)"

definition flushing_ok :: "sys \<Rightarrow> bool" where
  "flushing_ok s \<longleftrightarrow> (case flushing s of None \<Rightarrow> True | Some taken \<Rightarrow> list_all pend_ok taken)"

definition spike_ok :: "sys \<Rightarrow> bool" where
  "spike_ok s \<longleftrightarrow> eng_ok (eng s) \<and> db_ok (db s) \<and> op_ok s \<and> flushing_ok s"

text \<open>Memory and database show the same open trades.\<close>

definition coherent :: "bool \<Rightarrow> sys \<Rightarrow> bool" where
  "coherent en s \<longleftrightarrow> (en \<and> loaded (eng s) \<longrightarrow> set (mem_ids (eng s)) = set (db_ids (db s)))"

lemma eng_ok_New: "eng_ok New"
  by (simp add: eng_ok_def New_def trades_ok_def bars_ok_def Symbols_def)

lemma mem_ids_distinct: "eng_ok e \<Longrightarrow> distinct (map fst (mem_ids e))"
  by (simp add: eng_ok_def trades_ok_def mem_ids_def case_prod_beta' comp_def)

lemma keeps_step:
  assumes "keeps (eng s) e" "spike_ok s"
  shows "spike_ok (s\<lparr>eng := e\<rparr>)" "coherent en s \<Longrightarrow> coherent en (s\<lparr>eng := e\<rparr>)"
  using assms by (auto simp: spike_ok_def keeps_def op_ok_def flushing_ok_def coherent_def split: op.splits)

definition reliable :: "db_outcome set" where
  "reliable = {DbOk} \<union> range DbFail"

lemma reconcile_activate_ok:
  assumes "loaded e" "reconcile_activate v n t rows e = (e', err, toks)"
  shows "keeps e e'"
proof -
  have u: "keeps e1 (universe_view us s e1)" for e1 us s by (rule keepsI) (simp_all add: universe_view_def Let_def)
  have act: "keeps e (e\<lparr>ns := n, active := True, universes := us, wanted := w, lastError := ''''\<rparr>)"
    "keeps e (e\<lparr>quotes := [], previous := [], pending := [], ns := n, active := True, universes := us, wanted := w, lastError := ''''\<rparr>)"
    for us w using assms(1) by (auto simp: keeps_def eng_ok_def trades_ok_def bars_ok_def mem_ids_def)
  have fin: "keeps e1 (publishLocked v (fold (universe_view us) Symbols e1))" for e1 us
    by (rule keeps_trans [OF keeps_fold publish_keeps]) (rule u)
  show ?thesis
    using assms(2) keeps_trans [OF act(1) fin] keeps_trans [OF act(2) fin]
    by (auto simp: reconcile_activate_def Let_def split: if_splits)
qed

lemma mem_ids_unique: "eng_ok e \<Longrightarrow> p \<in> set (mem_ids e) \<Longrightarrow> q \<in> set (mem_ids e) \<Longrightarrow> fst p = fst q \<Longrightarrow> p = q"
  by (metis eq_key_imp_eq_value mem_ids_distinct prod.collapse)

lemma db_ids_unique: "db_ok d \<Longrightarrow> p \<in> set (db_ids d) \<Longrightarrow> q \<in> set (db_ids d) \<Longrightarrow> snd p = snd q \<Longrightarrow> p = q"
proof -
  assume "db_ok d" "p \<in> set (db_ids d)" "q \<in> set (db_ids d)" "snd p = snd q"
  moreover have "distinct (map fst (d_trades d))" using \<open>db_ok d\<close> by (simp add: db_ok_def)
  ultimately show "p = q"
    by (auto simp: db_ids_def db_open_def dest: eq_key_imp_eq_value)
qed

lemma OpEnd_step:
  assumes "spike_ok s" "eng_ok e" "db_ok d"
  shows "spike_ok (s\<lparr>eng := e, db := d, op := OpIdle\<rparr>)"
  using assms by (simp add: spike_ok_def op_ok_def flushing_ok_def)

lemma enter_step:
  fixes v :: env
  assumes "spike_ok s" "op s = OpEnter c valid already"
    "(d, err) = (if valid \<and> \<not> already then Store_Insert en out (c_Trade c) (db s) else (db s, None))"
  defines "s' \<equiv> s\<lparr>eng := enter_end v c valid already err (eng s), db := d, op := OpIdle\<rparr>"
  shows "spike_ok s'" "out \<in> reliable \<Longrightarrow> coherent en s \<Longrightarrow> coherent en s'"
proof -
  have ok: "eng_ok (eng s)" "db_ok (db s)" "fresh_trade (c_Trade c)" "valid \<Longrightarrow> loaded (eng s)"
    "already \<longleftrightarrow> tr_Symbol (c_Trade c) \<in> fst ` set (mem_ids (eng s))"
    using assms(1,2) by (auto simp: spike_ok_def op_ok_def)
  note en = enter_end_ok [OF ok(1,3,4,5), where v = v and err = err]
  have dok: "db_ok d"
    using assms(3) ok(2) Store_Insert_ok(1) [OF ok(2,3) sym] by (auto split: if_splits)
  show "spike_ok s'" unfolding s'_def by (rule OpEnd_step [OF assms(1)]) (use en dok in auto)
  show "coherent en s'" if "out \<in> reliable" "coherent en s"
  proof (cases "valid \<and> \<not> already")
    case True
    then have "Store_Insert en out (c_Trade c) (db s) = (d, err)" using assms(3) by simp
    from Store_Insert_ok(2) [OF ok(2,3) this] that show ?thesis
      using en True by (auto simp: coherent_def s'_def reliable_def)
  next
    case False
    then show ?thesis using assms(3) en that(2) by (auto simp: coherent_def s'_def)
  qed
qed

lemma close_step:
  fixes v :: env
  assumes "spike_ok s" "op s = OpClose t" "Store_Close en out t (db s) = (d, err)"
  defines "s' \<equiv> s\<lparr>eng := (if err = None then close_end v t (eng s) else eng s), db := d, op := OpIdle\<rparr>"
  shows "spike_ok s'" "out \<in> reliable \<Longrightarrow> coherent en s \<Longrightarrow> coherent en s'"
proof -
  have ok: "eng_ok (eng s)" "db_ok (db s)" "closed_ok t" "(tr_Symbol t, tr_ID t) \<in> set (mem_ids (eng s))"
    using assms(1,2) by (auto simp: spike_ok_def op_ok_def)
  note ce = close_end_ok [OF ok(1,3), of v] and sc = Store_Close_ok [OF ok(2,3) assms(3)]
  show "spike_ok s'" unfolding s'_def by (rule OpEnd_step [OF assms(1)]) (use ce sc(1) ok(1) in auto)
  show "coherent en s'" if "out \<in> reliable" "coherent en s"
  proof (cases "err = None \<and> en \<and> loaded (eng s)")
    case True
    then have eq: "set (mem_ids (eng s)) = set (db_ids (db s))" using that(2) by (simp add: coherent_def)
    have "fst p \<noteq> tr_Symbol t \<longleftrightarrow> snd p \<noteq> tr_ID t" if "p \<in> set (mem_ids (eng s))" for p
      using mem_ids_unique [OF ok(1) that ok(4)] db_ids_unique [OF ok(2), of p "(tr_Symbol t, tr_ID t)"] that ok(4) eq by auto
    then have "{p \<in> set (mem_ids (eng s)). fst p \<noteq> tr_Symbol t} = {p \<in> set (db_ids (db s)). snd p \<noteq> tr_ID t}"
      using eq by blast
    then show ?thesis using ce sc(2) that(1) True by (simp add: coherent_def s'_def reliable_def)
  next
    case False
    then show ?thesis using that ce sc(2) by (auto simp: coherent_def s'_def reliable_def)
  qed
qed

lemma spike_step_ok:
  assumes "spike_step en outs s s'" "spike_ok s"
  shows "spike_ok s' \<and> (outs \<subseteq> reliable \<longrightarrow> coherent en s \<longrightarrow> coherent en s')"
  using assms
proof cases
  case (Ticks v ticks)
  then show ?thesis using keeps_step [OF OnTicks_keeps assms(2)] by blast
next
  case (Connection v conn)
  then show ?thesis using keeps_step [OF OnConnection_keeps assms(2)] by blast
next
  case (RuntimeReady v)
  then show ?thesis using keeps_step [OF OnRuntimeReady_keeps assms(2)] by blast
next
  case (Invalidated v)
  then show ?thesis using keeps_step [OF Invalidate_keeps assms(2)] by blast
next
  case (Timer v)
  then show ?thesis using keeps_step [OF timer_keeps assms(2)] by blast
next
  case (ErrorShown v msg)
  then show ?thesis using keeps_step [OF setError_keeps assms(2)] by blast
next
  case (Subscribed v)
  then show ?thesis using keeps_step [OF Subscribe_keeps assms(2)] by blast
next
  case (Unsubscribed i)
  then show ?thesis using keeps_step [OF Unsubscribe_keeps assms(2)] by blast
next
  case Started
  have "keeps (eng s) ((eng s)\<lparr>started := True\<rparr>)" by (rule keepsI) simp_all
  then show ?thesis using keeps_step [OF _ assms(2)] Started by blast
next
  case (Stopped v)
  then show ?thesis using keeps_step [OF Stop_keeps assms(2)] by blast
next
  case RefreshTaken
  have "keeps (eng s) ((eng s)\<lparr>refresh := False\<rparr>)" by (rule keepsI) simp_all
  then show ?thesis using keeps_step [OF _ assms(2)] RefreshTaken by blast
next
  case (EnterBegin c cs v valid already)
  have "map_of (open_trades (eng s)) k \<noteq> None \<longleftrightarrow> k \<in> fst ` set (mem_ids (eng s))" for k
    using map_of_mem_ids [of "eng s" k] map_of_eq_None_iff [of "mem_ids (eng s)" k] by auto
  then show ?thesis
    using EnterBegin assms(2)
    by (auto simp: spike_ok_def eng_ok_def trades_ok_def bars_ok_def op_ok_def flushing_ok_def enter_begin_def mem_ids_def coherent_def)
next
  case (EnterEnd out c valid already d err v)
  then show ?thesis using enter_step [OF assms(2) EnterEnd(3,4)] by blast
next
  case (CloseBegin v i t)
  then show ?thesis
    using close_begin_ok [of "eng s" v i t] assms(2) by (auto simp: spike_ok_def op_ok_def flushing_ok_def coherent_def)
next
  case (CloseEnd out t d err v)
  then show ?thesis using close_step [OF assms(2) CloseEnd(3,4)] by blast
next
  case (PaperBegin on)
  then show ?thesis using assms(2) by (auto simp: spike_ok_def op_ok_def flushing_ok_def coherent_def)
next
  case (PaperEnd out on d err v)
  have "keeps (eng s) (setPaper_end v on (eng s))" unfolding setPaper_end_def
    by (rule keeps_trans [OF _ publish_keeps]) (rule keepsI, simp_all)
  then show ?thesis using PaperEnd assms(2) Store_SetPaper_ok [OF PaperEnd(4)]
    by (auto simp: spike_ok_def op_ok_def flushing_ok_def coherent_def keeps_def)
next
  case (RecBegin v)
  then show ?thesis using assms(2) by (auto simp: spike_ok_def op_ok_def flushing_ok_def coherent_def reconcile_load_def)
next
  case (RecLoad out t n r)
  have dok: "db_ok (db s)" "eng_ok (eng s)" using assms(2) by (auto simp: spike_ok_def)
  note ld = Store_Load_ok [OF dok(1) RecLoad(4)]
  have "eng_ok (apply_load t r (eng s)) \<and> loaded (apply_load t r (eng s)) \<and>
    mem_ids (apply_load t r (eng s)) = map (\<lambda>tr. (tr_Symbol tr, tr_ID tr)) (ld_open r)"
    using apply_load_ok [OF dok(2)] ld by blast
  then show ?thesis using RecLoad assms(2) ld
    by (auto simp: spike_ok_def op_ok_def flushing_ok_def coherent_def)
next
  case (RecLoadFailed out t n msg)
  then show ?thesis using assms(2) by (auto simp: spike_ok_def op_ok_def flushing_ok_def coherent_def)
next
  case (RecIdle t n v)
  then show ?thesis using reconcile_idle_keeps [of "eng s" v n] assms(2)
    by (auto simp: spike_ok_def op_ok_def flushing_ok_def coherent_def keeps_def)
next
  case (RecFailed t n)
  then show ?thesis using assms(2) by (auto simp: spike_ok_def op_ok_def flushing_ok_def coherent_def)
next
  case (RecActivate t n v rows e err toks)
  have "loaded (eng s)" using RecActivate(2) assms(2) by (simp add: spike_ok_def op_ok_def)
  from reconcile_activate_ok [OF this RecActivate(3)] show ?thesis
    using RecActivate assms(2) by (auto simp: spike_ok_def op_ok_def flushing_ok_def coherent_def keeps_def)
next
  case (FlushBegin taken e)
  have "keeps (eng s) e" by (rule flush_begin_keeps [OF FlushBegin(3)])
  moreover have "list_all pend_ok taken"
    using FlushBegin(3) assms(2) by (auto simp: flush_begin_def spike_ok_def eng_ok_def bars_ok_def)
  ultimately show ?thesis using FlushBegin(1) assms(2)
    by (auto simp: spike_ok_def op_ok_def flushing_ok_def coherent_def keeps_def split: op.splits)
next
  case (FlushEnd out taken d err)
  have tk: "list_all pend_ok taken" using FlushEnd(3) assms(2) by (simp add: spike_ok_def flushing_ok_def)
  then have "list_all (\<lambda>b. b_Symbol b \<in> set Symbols) (map snd taken)" by (simp add: list_all_iff pend_ok_def)
  from Store_SaveBars_ok [OF FlushEnd(4) this] flush_end_keeps [OF tk, of "eng s" err] show ?thesis
    using FlushEnd(1) assms(2) by (auto simp: spike_ok_def op_ok_def flushing_ok_def coherent_def keeps_def split: op.splits)
qed

lemma spike_reach_ok:
  assumes "spike_reach en outs d s" "db_ok d"
  shows "spike_ok s \<and> (outs \<subseteq> reliable \<longrightarrow> coherent en s)"
  using assms
proof (induction rule: spike_reach.induct)
  case Init
  have "\<not> loaded New" by (simp add: New_def)
  then show ?case using Init by (simp add: init_sys_def spike_ok_def op_ok_def flushing_ok_def eng_ok_New coherent_def)
next
  case (Step s s')
  then show ?case using spike_step_ok [of en outs s s'] by blast
qed

section \<open>Properties\<close>

text \<open>
  C8: In every state the engine can reach (whatever ticks, connection changes, broker switches,
  timers and database failures happen between the halves of its operations), each index has at
  most one open trade, held under its own symbol; the profit shown for an open trade is that of its own
  marks, and it has none only while it was never marked and is flagged stale; and every closed trade carries
  both exit prices, its closing time and the profit at those exits.
\<close>

theorem spike_trades_sound:
  assumes "db_ok d" "spike_reach en outs d s"
  shows "distinct (map (\<lambda>(_, t). tr_Symbol t) (open_trades (eng s))) \<and>
    (\<forall>(k, t) \<in> set (open_trades (eng s)). k = tr_Symbol t \<and> k \<in> set Symbols \<and> tr_Status t = ''open'' \<and> tr_ClosedAt t = None \<and>
       (case tr_PNL t of None \<Rightarrow> tr_MarkStale t
        | Some p \<Rightarrow> (\<exists>x y. tr_MarkShort t = Some x \<and> tr_MarkHedge t = Some y \<and> p = grossPNL t x y))) \<and>
    (\<forall>t \<in> set (closed (eng s)). tr_Status t = ''closed'' \<and> tr_ClosedAt t \<noteq> None \<and>
       (\<exists>x y. l_Exit (tr_Short t) = Some x \<and> l_Exit (tr_Hedge t) = Some y \<and> tr_PNL t = Some (grossPNL t x y)))"
proof -
  have ok: "eng_ok (eng s)" using spike_reach_ok [OF assms(2,1)] by (simp add: spike_ok_def)
  then have tr: "distinct (map fst (open_trades (eng s)))"
      "\<And>k t. (k, t) \<in> set (open_trades (eng s)) \<Longrightarrow> k = tr_Symbol t \<and> open_ok t"
    by (auto simp: eng_ok_def trades_ok_def list_all_iff)
  have "map (\<lambda>(_, t). tr_Symbol t) (open_trades (eng s)) = map fst (open_trades (eng s))"
    using tr(2) by (intro map_cong) (auto simp: case_prod_beta')
  moreover have "case tr_PNL t of None \<Rightarrow> tr_MarkStale t
        | Some p \<Rightarrow> (\<exists>x y. tr_MarkShort t = Some x \<and> tr_MarkHedge t = Some y \<and> p = grossPNL t x y)" if "open_ok t" for t
    using that by (auto simp: open_ok_def mark_ok_def split: option.splits)
  moreover have "\<forall>t \<in> set (closed (eng s)). closed_ok t" using ok by (simp add: eng_ok_def list_all_iff)
  moreover have "\<forall>(k, t) \<in> set (open_trades (eng s)). k = tr_Symbol t \<and> k \<in> set Symbols \<and> tr_Status t = ''open'' \<and> tr_ClosedAt t = None \<and> open_ok t"
  proof (intro ballI, clarify)
    fix k t assume "(k, t) \<in> set (open_trades (eng s))"
    from tr(2) [OF this] show "k = tr_Symbol t \<and> k \<in> set Symbols \<and> tr_Status t = ''open'' \<and> tr_ClosedAt t = None \<and> open_ok t"
      by (simp add: open_ok_def)
  qed
  ultimately show ?thesis using tr(1) unfolding closed_ok_def by (simp only:) fast
qed

definition demo_trade :: trade where
  "demo_trade = \<lparr>tr_ID = ''a1'', tr_Symbol = ''NIFTY'', tr_Status = ''open'', tr_Direction = ''CALL_CREDIT'', tr_Expiry = ''2026-10-27'',
     tr_LotSize = 75, tr_Quantity = 75, tr_OpenedAt = 1000, tr_ClosedAt = None,
     tr_Short = \<lparr>l_Token = 1, l_Symbol = ''S'', l_Strike = f_of_int 100, l_Entry = f_of_int 9, l_Exit = None\<rparr>,
     tr_Hedge = \<lparr>l_Token = 2, l_Symbol = ''H'', l_Strike = f_of_int 140, l_Entry = f_of_int 4, l_Exit = None\<rparr>,
     tr_Signal = \<lparr>g_Direction = ''CALL_CREDIT'', g_T = 1000, g_Reference = f_of_int 199, g_ReferenceAt = 500,
       g_MovePct = f_of_int 6, g_Premium = f_of_int 210, g_VWAP = f_of_int 205\<rparr>,
     tr_EntryCredit = f_of_int 375, tr_MarkShort = None, tr_MarkHedge = None, tr_MarkAt = None, tr_PNL = None, tr_MarkStale = True\<rparr>"

definition demo_db :: spike_db where
  "demo_db = \<lparr>d_trades = [(''a1'', \<lparr>d_Status = ''open'', d_ClosedDay = '''', d_Payload = demo_trade\<rparr>)], d_bars = [], d_paper = None\<rparr>"

definition demo_env :: env where
  "demo_env = \<lparr>now = 2000, namespaceNow = \<lparr>ns_Broker = Dhan, ns_Generation = 1\<rparr>, ready = True, dbEnabled = True, newID = (\<lambda>s. s)\<rparr>"

definition demo_load :: load_result where
  "demo_load = \<lparr>ld_enabled = True, ld_open = [demo_trade], ld_closed = [], ld_bars = []\<rparr>"

definition demo_sys :: sys where
  "demo_sys = (init_sys demo_db)\<lparr>eng := apply_load 2000 demo_load New, op := OpData 2000 (namespaceNow demo_env)\<rparr>"

lemma demo_db_ok: "db_ok demo_db"
  by (simp add: db_ok_def demo_db_def db_open_def row_ok_def fresh_trade_def open_ok_def mark_ok_def demo_trade_def Symbols_def)

lemma demo_reach: "spike_reach True {DbOk} demo_db demo_sys"
proof -
  let ?s0 = "init_sys demo_db"
  let ?s1 = "?s0\<lparr>op := OpLoad 2000 (namespaceNow demo_env)\<rparr>"
  have "spike_step True {DbOk} ?s0 (?s0\<lparr>op := (if reconcile_load (now demo_env) (eng ?s0) then OpLoad (now demo_env) (namespaceNow demo_env)
       else OpData (now demo_env) (namespaceNow demo_env))\<rparr>)"
    by (rule RecBegin) (simp_all add: init_sys_def New_def)
  then have 1: "spike_step True {DbOk} ?s0 ?s1"
    by (simp add: reconcile_load_def init_sys_def New_def demo_env_def)
  have "Store_Load True DbOk (dayKey 2000) (db ?s1) = Inr demo_load"
    by (simp add: Store_Load_def init_sys_def demo_db_def demo_load_def demo_trade_def)
  then have "spike_step True {DbOk} ?s1 (?s1\<lparr>eng := apply_load 2000 demo_load (eng ?s1), op := OpData 2000 (namespaceNow demo_env)\<rparr>)"
    by (intro RecLoad) auto
  then have "spike_step True {DbOk} ?s1 demo_sys" by (simp add: demo_sys_def init_sys_def)
  then show ?thesis using 1 Init Step by blast
qed

lemma demo_open: "open_trades (eng demo_sys) = [(''NIFTY'', demo_trade)]"
  by (simp add: demo_sys_def apply_load_def demo_load_def Symbols_def reset_recording_def Let_def demo_trade_def)

theorem spike_trades_sound_witness:
  "open_trades (eng demo_sys) \<noteq> [] \<and> fst (hd (open_trades (eng demo_sys))) = tr_Symbol (snd (hd (open_trades (eng demo_sys))))"
  using spike_trades_sound [OF demo_db_ok demo_reach] by (auto simp: demo_open)



text \<open>
  C25: The paper fills are honest: a new trade is only built with one whole lot on both legs, it
  sells the short leg at the bid and buys the hedge at the ask of books at most 15 seconds old that show at least
  one lot there, and never pays: with well-formed quotes and lots below 2^53 its credit is not negative.
\<close>

theorem entry_at_fresh_touch:
  assumes "tradeAtCrossLocked i symbol short hedge sig t e = Inr tr" "f_wf (i_LotSize short)"
    "\<forall>(k, q) \<in> set (quotes e). f_wf (q_Bid q) \<and> f_wf (q_Ask q)" "f_trunc (i_LotSize short) < 2 ^ 53"
  defines "a \<equiv> look zero_quote (quotes e) (i_InstrumentToken short)" and "b \<equiv> look zero_quote (quotes e) (i_InstrumentToken hedge)"
  shows "0 < tr_Quantity tr \<and> tr_Quantity tr = tr_LotSize tr \<and> f_eq (f_of_int (tr_Quantity tr)) (i_LotSize short) \<and>
    l_Entry (tr_Short tr) = q_Bid a \<and> l_Entry (tr_Hedge tr) = q_Ask b \<and>
    t - q_BookAt a \<le> 15000 \<and> t - q_BookAt b \<le> 15000 \<and> 0 < q_BookAt a \<and> 0 < q_BookAt b \<and>
    \<not> f_lt (q_BidQty a) (f_of_int (tr_Quantity tr)) \<and> \<not> f_lt (q_AskQty b) (f_of_int (tr_Quantity tr)) \<and>
    f_le f_zero (tr_EntryCredit tr)"
proof -
  let ?lot = "f_trunc (i_LotSize short)"
  have g: "0 < ?lot" "f_eq (f_of_int ?lot) (i_LotSize short)" "freshBook a t" "freshBook b t"
      "\<not> f_lt (q_BidQty a) (f_of_int ?lot)" "\<not> f_lt (q_AskQty b) (f_of_int ?lot)" "\<not> f_lt (q_Bid a) (q_Ask b)"
    and tr: "tr_Quantity tr = ?lot" "tr_LotSize tr = ?lot" "l_Entry (tr_Short tr) = q_Bid a" "l_Entry (tr_Hedge tr) = q_Ask b"
      "tr_EntryCredit tr = f_mul (f_of_int ?lot) (f_sub (q_Bid a) (q_Ask b))"
    using assms(1) by (auto simp: tradeAtCrossLocked_def Let_def a_def b_def split: if_splits)
  have "f_wf (q_Bid a)" "f_wf (q_Ask b)"
    using assms(3) by (auto simp: a_def b_def look_def zero_quote_def split: option.splits dest!: map_of_SomeD)
  moreover have fin: "f_finite (q_Bid a)" "f_finite (q_Ask b)" using g(3,4) by (auto simp: freshBook_def finite_f_def)
  ultimately have num: "f_num (q_Bid a)" "f_num (q_Ask b)" and wf: "f_wf (q_Bid a)" "f_wf (q_Ask b)"
    by (auto simp: f_num_def)
  have le: "f_key (q_Ask b) \<le> f_key (q_Bid a)" using g(7) num by (simp add: f_lt_num)
  note sb = f_sub_num [OF wf fin]
  have lk: "f_finite (f_of_int ?lot)" "f_num (f_of_int ?lot)" "f_key (f_of_int ?lot) = ?lot * 2 ^ 1074"
    using f_of_int_key [of ?lot] g(1) assms(4) by auto
  then have "0 < f_key (f_of_int ?lot)" "f_wf (f_of_int ?lot)" using g(1) by (auto simp: f_num_def)
  from f_mul_nonneg [OF lk(1) this(2) sb(1) sb(2) [OF le] this(1)]
  have "f_le f_zero (tr_EntryCredit tr)" by (simp add: tr f_le_num)
  then show ?thesis using g tr by (simp add: freshBook_def bookAgeMs_def)
qed

text \<open>
  Closing is just as honest: \<^verbatim>\<open>Close\<close> writes a trade only if it was open, the feed was live for the
  broker session the engine runs on, and both books were fresh and deep enough; it buys the short leg back at
  the ask, sells the hedge at the bid, and books exactly the profit of those fills.
\<close>

theorem close_at_fresh_touch:
  assumes "close_begin v i e = CloseWrite t"
  shows "\<exists>t0 \<in> set (map snd (open_trades e)). tr_ID t0 = i \<and> tr_ID t = i \<and>
    (let a = look zero_quote (quotes e) (l_Token (tr_Short t0)); b = look zero_quote (quotes e) (l_Token (tr_Hedge t0))
     in active e \<and> connected e \<and> dataReady v \<and> ns e = namespaceNow v \<and> freshBook a (now v) \<and> freshBook b (now v) \<and>
        \<not> f_lt (q_AskQty a) (f_of_int (tr_Quantity t0)) \<and> \<not> f_lt (q_BidQty b) (f_of_int (tr_Quantity t0)) \<and>
        l_Exit (tr_Short t) = Some (q_Ask a) \<and> l_Exit (tr_Hedge t) = Some (q_Bid b) \<and> tr_ClosedAt t = Some (now v) \<and>
        l_Entry (tr_Short t) = l_Entry (tr_Short t0) \<and> l_Entry (tr_Hedge t) = l_Entry (tr_Hedge t0) \<and>
        tr_PNL t = Some (grossPNL t0 (q_Ask a) (q_Bid b)))"
proof -
  obtain t0 where t0: "find (\<lambda>t. tr_ID t = i \<and> tr_ID t \<noteq> '''') (map snd (open_trades e)) = Some t0"
      "fresh_fill v e t0" "t = close_at v e t0"
    using assms by (auto simp: close_begin_def split: if_splits option.splits)
  have "t0 \<in> set (map snd (open_trades e))" "tr_ID t0 = i" using t0(1) by (auto simp: find_Some_iff)
  then show ?thesis using t0(2) by (intro bexI [of _ t0]) (auto simp: t0(3) close_at_def fresh_fill_def Let_def)
qed

definition demo_quote :: "int \<Rightarrow> int \<Rightarrow> quote" where
  "demo_quote bid ask = zero_quote\<lparr>q_Bid := f_of_int bid, q_Ask := f_of_int ask, q_BidQty := f_of_int 150, q_AskQty := f_of_int 150, q_BookAt := 1900\<rparr>"

definition demo_live :: engine where
  "demo_live = New\<lparr>active := True, connected := True, loaded := True, ns := \<lparr>ns_Broker = Dhan, ns_Generation = 1\<rparr>,
     quotes := [(1, demo_quote 9 10), (5, demo_quote 3 4), (2, demo_quote 3 4)], open_trades := [(''NIFTY'', demo_trade)]\<rparr>"

theorem entry_at_fresh_touch_witness:
  "\<exists>tr. tradeAtCrossLocked ''x'' ''NIFTY'' (demo_option 1 ''CE'' 100) (demo_option 5 ''CE'' 140) (tr_Signal demo_trade) 2000 demo_live = Inr tr \<and>
     l_Entry (tr_Short tr) = f_of_int 9 \<and> f_le f_zero (tr_EntryCredit tr)"
proof -
  let ?r = "tradeAtCrossLocked ''x'' ''NIFTY'' (demo_option 1 ''CE'' 100) (demo_option 5 ''CE'' 140) (tr_Signal demo_trade) 2000 demo_live"
  have "\<not> isl ?r" by code_simp
  then obtain tr where tr: "?r = Inr tr" by (cases ?r) auto
  have wf: "f_wf (i_LotSize (demo_option 1 ''CE'' 100))" by code_simp
  have wq: "\<forall>(k, q) \<in> set (quotes demo_live). f_wf (q_Bid q) \<and> f_wf (q_Ask q)" by code_simp
  have lt: "f_trunc (i_LotSize (demo_option 1 ''CE'' 100)) < 2 ^ 53" by code_simp
  have "q_Bid (look zero_quote (quotes demo_live) (i_InstrumentToken (demo_option 1 ''CE'' 100))) = f_of_int 9"
    by (simp add: demo_live_def demo_option_def demo_quote_def look_def)
  then show ?thesis using entry_at_fresh_touch [OF tr wf wq lt] tr by auto
qed

theorem close_at_fresh_touch_witness:
  "\<exists>t. close_begin demo_env ''a1'' demo_live = CloseWrite t \<and> tr_PNL t = Some (grossPNL demo_trade (f_of_int 10) (f_of_int 3))"
proof -
  have "(case close_begin demo_env ''a1'' demo_live of CloseWrite t \<Rightarrow> True | _ \<Rightarrow> False)" by code_simp
  then obtain t where t: "close_begin demo_env ''a1'' demo_live = CloseWrite t" by (cases "close_begin demo_env ''a1'' demo_live") auto
  have "open_trades demo_live = [(''NIFTY'', demo_trade)]" by (simp add: demo_live_def)
  then show ?thesis using close_at_fresh_touch [OF t] t
    by (auto simp: Let_def demo_live_def demo_trade_def demo_quote_def look_def)
qed

section \<open>Completed bars\<close>

text \<open>The bars the system still knows: waiting, being written, or written.\<close>

definition known_bars :: "sys \<Rightarrow> (string \<times> string \<times> millis) set" where
  "known_bars s = fst ` set (pendingBars (eng s)) \<union> (case flushing s of None \<Rightarrow> {} | Some taken \<Rightarrow> fst ` set taken) \<union> fst ` set (d_bars (db s))"

definition pend_le :: "engine \<Rightarrow> engine \<Rightarrow> bool" where
  "pend_le e e' \<longleftrightarrow> fst ` set (pendingBars e) \<subseteq> fst ` set (pendingBars e')"

lemma pend_le_trans [trans]: "pend_le e e1 \<Longrightarrow> pend_le e1 e2 \<Longrightarrow> pend_le e e2"
  by (auto simp: pend_le_def)

lemma pend_le_same [intro]: "pendingBars e' = pendingBars e \<Longrightarrow> pend_le e e'"
  by (simp add: pend_le_def)

lemma pend_le_fold: "(\<And>x e. pend_le e (f x e)) \<Longrightarrow> pend_le e (fold f xs e)"
proof (induction xs arbitrary: e)
  case (Cons x xs)
  then show ?case using pend_le_trans [of e "f x e"] by simp
qed auto

lemma pendingBars_simps [simp]:
  "pendingBars (publishLocked v e) = pendingBars e" "pendingBars (updateMarksLocked v e) = pendingBars e"
  "pendingBars (setError v msg e) = pendingBars e" "pendingBars (take_tick v tk e) = pendingBars e"
  by (simp_all add: publishLocked_def updateMarksLocked_def setError_def take_tick_def)

lemma complete_bar_le: "pend_le e (complete_bar sb e)"
  by (cases sb) (auto simp: pend_le_def complete_bar_def dom_update)

lemma completeBars_le: "pend_le e (completeBarsLocked t force e)"
  unfolding completeBarsLocked_def by (rule pend_le_fold) (rule complete_bar_le)

lemma signal_action_pending [simp]: "pendingBars (fst (signal_action v symbol u m sig t e)) = pendingBars e"
  by (simp add: signal_action_def split: prod.splits sum.splits)

lemma evaluate_pending [simp]: "pendingBars (evaluateLocked v symbol t e) = pendingBars e"
proof -
  have sa: "pendingBars e1 = pendingBars e" if "signal_action v symbol u m sig t e = (e1, n)" for u m sig e1 n
    using signal_action_pending [of v symbol u m sig t e] that by simp
  show ?thesis by (auto simp: evaluateLocked_def Let_def split: option.splits prod.splits dest: sa)
qed

lemma OnTicks_le: "pend_le e (OnTicks v ticks e)"
proof -
  have tk: "pend_le e (fold (take_tick v) ticks e)" by (rule pend_le_fold) (auto intro: pend_le_same)
  have ev: "pend_le e1 (fold (\<lambda>symbol. evaluateLocked v symbol (now v)) Symbols e1)" for e1
    by (rule pend_le_fold) (auto intro: pend_le_same)
  have up: "pend_le e1 (updateMarksLocked v e1)" for e1 by (auto intro: pend_le_same)
  note c = pend_le_trans [OF pend_le_trans [OF tk completeBars_le] up]
  show ?thesis using c pend_le_trans [OF c ev] pend_le_same [OF refl, of e] by (simp add: OnTicks_def Let_def)
qed

lemma fold_pending_same: "(\<And>x e. pendingBars (f x e) = pendingBars e) \<Longrightarrow> pendingBars (fold f xs e) = pendingBars e"
  by (induction xs arbitrary: e) simp_all

lemma engine_pending [simp]:
  "pendingBars (OnConnection v conn e) = pendingBars e" "pendingBars (OnRuntimeReady v e) = pendingBars e"
  "pendingBars (Invalidate v e) = pendingBars e" "pendingBars (fst (Subscribe v e)) = pendingBars e"
  "pendingBars (Unsubscribe i e) = pendingBars e" "pendingBars (close_end v t e) = pendingBars e"
  "pendingBars (setPaper_end v on e) = pendingBars e" "pendingBars (reconcile_idle v n e) = pendingBars e"
  "pendingBars (apply_load t' r e) = pendingBars e" "pendingBars (enter_end v c valid already err e) = pendingBars e"
proof -
  show "pendingBars (reconcile_idle v n e) = pendingBars e"
    by (simp add: reconcile_idle_def) (subst fold_pending_same, simp_all add: set_note_def)
  have "pendingBars (fold (restore_bar t') (ld_bars r) e1) = pendingBars e1" for e1
    by (rule fold_pending_same) (rule restore_bar_fields)
  moreover have "pendingBars (fold reset_recording Symbols e1) = pendingBars e1" for e1
    by (rule fold_pending_same) (simp add: reset_recording_def)
  ultimately show "pendingBars (apply_load t' r e) = pendingBars e" by (simp add: apply_load_def Let_def)
qed (simp_all add: OnConnection_def OnRuntimeReady_def Invalidate_def Subscribe_def Unsubscribe_def close_end_def setPaper_end_def
    enter_end_def Let_def split: option.splits)

lemma reconcile_activate_pending: "reconcile_activate v n t rows e = (e', err, toks) \<Longrightarrow> pendingBars e' = pendingBars e"
proof -
  have u: "pendingBars (fold (universe_view us) Symbols e1) = pendingBars e1" for us e1
    by (rule fold_pending_same) (simp add: universe_view_def Let_def)
  assume "reconcile_activate v n t rows e = (e', err, toks)"
  then show ?thesis by (auto simp: reconcile_activate_def Let_def u split: if_splits)
qed

lemma timer_le: "pend_le e (timer_section v e)" and Stop_le: "pend_le e (Stop_begin v e)"
proof -
  show "pend_le e (timer_section v e)"
    using completeBars_le [of e "now v" False] by (simp add: timer_section_def pend_le_def)
  show "pend_le e (Stop_begin v e)"
    using completeBars_le [of "e\<lparr>stopped := True\<rparr>" "now v" True] by (simp add: Stop_begin_def pend_le_def)
qed

lemma flush_back: "fst ` set taken \<union> fst ` set m \<subseteq> fst ` set (fold (\<lambda>(k, b) m. if map_of m k = None then m @ [(k, b)] else m) taken m)"
proof (induction taken arbitrary: m)
  case (Cons p taken)
  obtain k b where p: "p = (k, b)" by (cases p)
  define m' where "m' = (if map_of m k = None then m @ [(k, b)] else m)"
  have "insert k (fst ` set m) \<subseteq> fst ` set m'" by (auto simp: m'_def map_of_eq_None_iff)
  moreover have keys: "fst ` set (p # taken) = insert k (fst ` set taken)" by (simp add: p)
  have step: "fold (\<lambda>(k, b) m. if map_of m k = None then m @ [(k, b)] else m) (p # taken) m =
      fold (\<lambda>(k, b) m. if map_of m k = None then m @ [(k, b)] else m) taken m'"
    by (simp add: p m'_def)
  ultimately show ?case unfolding keys step using Cons.IH [of m'] by blast
qed simp

lemma save_keys: "fst ` set (fold (\<lambda>b. AList.update (b_Symbol b, b_Day b, b_T b) b) bs m) =
    (\<lambda>b. (b_Symbol b, b_Day b, b_T b)) ` set bs \<union> fst ` set m"
  by (induction bs arbitrary: m) (auto simp: dom_update)

lemma flush_end_known:
  assumes "list_all pend_ok taken" "Store_SaveBars True out (map snd taken) d = (d', err)"
  shows "fst ` set taken \<union> fst ` set (pendingBars e) \<union> fst ` set (d_bars d) \<subseteq>
    fst ` set (pendingBars (flush_end taken err e)) \<union> fst ` set (d_bars d')"
proof -
  have keys: "(\<lambda>b. (b_Symbol b, b_Day b, b_T b)) ` set (map snd taken) = fst ` set taken"
    using assms(1) unfolding set_map image_image by (intro image_cong) (auto simp: list_all_iff pend_ok_def)
  show ?thesis
  proof (cases err)
    case None
    then have "taken = [] \<and> d' = d \<or>
        d' = d\<lparr>d_bars := fold (\<lambda>b. AList.update (b_Symbol b, b_Day b, b_T b) b) (map snd taken) (d_bars d)\<rparr>"
      using assms(2) by (cases out) (auto simp: Store_SaveBars_def split: if_splits)
    then show ?thesis
    proof
      assume "taken = [] \<and> d' = d"
      then show ?thesis using None by (simp add: flush_end_def)
    next
      assume d': "d' = d\<lparr>d_bars := fold (\<lambda>b. AList.update (b_Symbol b, b_Day b, b_T b) b) (map snd taken) (d_bars d)\<rparr>"
      have "d_bars d' = fold (\<lambda>b. AList.update (b_Symbol b, b_Day b, b_T b) b) (map snd taken) (d_bars d)" by (simp add: d')
      then have "fst ` set (d_bars d') = fst ` set taken \<union> fst ` set (d_bars d)" by (simp only: save_keys keys)
      then show ?thesis using None by (simp add: flush_end_def) blast
    qed
  next
    case (Some msg)
    have "fst ` set (d_bars d) \<subseteq> fst ` set (d_bars d')"
    proof -
      have "d' = d \<or> d_bars d' = fold (\<lambda>b. AList.update (b_Symbol b, b_Day b, b_T b) b) (map snd taken) (d_bars d)"
        using assms(2) by (cases out) (auto simp: Store_SaveBars_def split: if_splits)
      then show ?thesis using save_keys [of "map snd taken" "d_bars d"] by (elim disjE) (simp_all only: Un_upper2 order_refl)
    qed
    moreover have "fst ` set taken \<union> fst ` set (pendingBars e) \<subseteq> fst ` set (pendingBars (flush_end taken err e))"
      using flush_back [of taken "pendingBars e"] by (simp add: flush_end_def Some)
    ultimately show ?thesis by blast
  qed
qed

lemma known_bars_step:
  assumes "spike_step True outs s s'" "spike_ok s"
  shows "known_bars s \<subseteq> known_bars s'"
proof -
  have le: "known_bars s \<subseteq> known_bars (s\<lparr>eng := e\<rparr>)" if "pend_le (eng s) e" for e
    using that by (auto simp: known_bars_def pend_le_def)
  have dbk: "known_bars s \<subseteq> known_bars (s\<lparr>eng := e, db := d, op := o'\<rparr>)"
    if "pendingBars e = pendingBars (eng s)" "d_bars d = d_bars (db s)" for e d o'
    using that by (simp add: known_bars_def)
  from assms(1) show ?thesis
  proof cases
    case (EnterEnd out c valid already d err v)
    then have "d_bars d = d_bars (db s)" by (cases out) (auto simp: Store_Insert_def split: if_splits)
    then show ?thesis unfolding EnterEnd(1) by (intro dbk) simp_all
  next
    case (CloseEnd out t d err v)
    then have "d_bars d = d_bars (db s)" by (cases out) (auto simp: Store_Close_def split: if_splits option.splits)
    then show ?thesis unfolding CloseEnd(1) by (intro dbk) simp_all
  next
    case (PaperEnd out on d err v)
    then have "d_bars d = d_bars (db s)" by (cases out) (auto simp: Store_SetPaper_def split: if_splits)
    then show ?thesis unfolding PaperEnd(1) by (intro dbk) simp_all
  next
    case (FlushBegin taken e)
    then show ?thesis by (auto simp: known_bars_def flush_begin_def)
  next
    case (FlushEnd out taken d err)
    have "list_all pend_ok taken" using FlushEnd(3) assms(2) by (simp add: spike_ok_def flushing_ok_def)
    from flush_end_known [OF this FlushEnd(4), of "eng s"] show ?thesis
      using FlushEnd(1,3) by (auto simp: known_bars_def)
  next
    case (RecActivate t n v rows e err toks)
    then show ?thesis using reconcile_activate_pending [OF RecActivate(3)] by (simp add: known_bars_def)
  next
    case (Ticks v ticks)
    then show ?thesis using le [OF OnTicks_le] by blast
  next
    case (Timer v)
    then show ?thesis using le [OF timer_le] by blast
  next
    case (Stopped v)
    then show ?thesis using le [OF Stop_le] by blast
  qed (simp_all add: known_bars_def)
qed

lemma complete_bars_pending:
  "(\<forall>(k, b) \<in> set xs. (k, b_Day b, b_T b) \<in> fst ` set (pendingBars (fold complete_bar xs e)))"
proof (induction xs arbitrary: e)
  case (Cons p xs)
  obtain k b where p: "p = (k, b)" by (cases p)
  have "(k, b_Day b, b_T b) \<in> fst ` set (pendingBars (complete_bar p e))" by (simp add: p complete_bar_def dom_update)
  moreover have "pend_le (complete_bar p e) (fold complete_bar xs (complete_bar p e))"
    by (rule pend_le_fold) (rule complete_bar_le)
  ultimately show ?case using Cons.IH [of "complete_bar p e"] by (auto simp: p pend_le_def)
qed simp



end
