(* ===== verification/SerialQueue.thy ===== *)
theory SerialQueue
  imports Prelude "HOL-Library.Sublist"
begin

text \<open>
  The two serial executors of the program: \<^verbatim>\<open>serialQueue\<close> of \<^verbatim>\<open>internal/hub/hub.go\<close> (callbacks are
  drained by whoever finds the queue idle) and \<^verbatim>\<open>serial\<close> of \<^verbatim>\<open>internal/brokers/registry/serial.go\<close>
  (a goroutine lives while work is queued).

  Both are step relations over their mutex-protected states, in which any number of goroutines push and
  drain; \<open>pushed\<close> and \<open>finished\<close> record what was submitted and what has run. The locale
  \<open>serial_runner\<close> states what a client relies on, and both are interpretations of it.
\<close>

section \<open>The interface\<close>

locale serial_runner =
  fixes step :: "'s \<Rightarrow> 's \<Rightarrow> bool"
    and start :: 's
    and pushed finished running waiting :: "'s \<Rightarrow> 'c list"
    and idle :: "'s \<Rightarrow> bool"
    and inv :: "'s \<Rightarrow> bool"
  assumes inv_start: "inv start"
    and inv_step: "inv s \<Longrightarrow> step s s' \<Longrightarrow> inv s'"
    and inv_order: "inv s \<Longrightarrow> pushed s = finished s @ running s @ waiting s \<and> length (running s) \<le> 1"
    and inv_idle: "inv s \<Longrightarrow> idle s \<Longrightarrow> running s = [] \<and> waiting s = []"
begin

lemma inv_reach: "step\<^sup>*\<^sup>* start s \<Longrightarrow> inv s"
  by (induction rule: rtranclp_induct) (auto intro: inv_start inv_step)

text \<open>Work runs one piece at a time and in the order it was submitted; nothing is lost or run twice.\<close>

lemma serial_order: "step\<^sup>*\<^sup>* start s \<Longrightarrow> prefix (finished s) (pushed s) \<and> length (running s) \<le> 1"
  using inv_order [OF inv_reach] by (auto simp: prefix_def)

lemma serial_complete: "step\<^sup>*\<^sup>* start s \<Longrightarrow> idle s \<Longrightarrow> finished s = pushed s"
  using inv_order [OF inv_reach] inv_idle [OF inv_reach] by auto

end

section \<open>The hub's queue\<close>

text \<open>
  \<open>sq_owed\<close> counts the goroutines that have pushed and not yet reached the lock in \<^verbatim>\<open>drain\<close>. \<open>sq_in\<close> is
  the goroutine inside the draining loop: between callbacks, or running one.
\<close>

record 'c serial_queue =
  sq_queue :: "'c list"
  sq_draining :: bool
  sq_running :: "'c option"
  sq_owed :: nat
  sq_pushed :: "'c list"
  sq_finished :: "'c list"

definition sq_new :: "'c serial_queue" where
  "sq_new = \<lparr>sq_queue = [], sq_draining = False, sq_running = None, sq_owed = 0, sq_pushed = [], sq_finished = []\<rparr>"

definition sq_push :: "'c \<Rightarrow> 'c serial_queue \<Rightarrow> 'c serial_queue" where
  "sq_push f q = q\<lparr>sq_queue := sq_queue q @ [f], sq_owed := Suc (sq_owed q), sq_pushed := sq_pushed q @ [f]\<rparr>"

text \<open>The head of \<^verbatim>\<open>drain\<close>: return if another goroutine drains, else become the draining one.\<close>

definition sq_drain :: "'c serial_queue \<Rightarrow> 'c serial_queue" where
  "sq_drain q = q\<lparr>sq_draining := True\<rparr>"

text \<open>One turn of the loop of \<^verbatim>\<open>drain\<close>, up to the call; then the return of the callback (or its recovered panic).\<close>

definition sq_take :: "'c serial_queue \<Rightarrow> 'c serial_queue" where
  "sq_take q = (case sq_queue q of [] \<Rightarrow> q\<lparr>sq_draining := False\<rparr>
     | f # fs \<Rightarrow> q\<lparr>sq_queue := fs, sq_running := Some f\<rparr>)"

definition sq_return :: "'c \<Rightarrow> 'c serial_queue \<Rightarrow> 'c serial_queue" where
  "sq_return f q = q\<lparr>sq_running := None, sq_finished := sq_finished q @ [f]\<rparr>"

inductive sq_step :: "'c serial_queue \<Rightarrow> 'c serial_queue \<Rightarrow> bool" where
  Push: "sq_step q (sq_push f q)"
| Drain: "sq_owed q = Suc n \<Longrightarrow> sq_step q (sq_drain (q\<lparr>sq_owed := n\<rparr>))"
| ExtraDrain: "sq_step q (sq_drain q)"
| Take: "sq_draining q \<Longrightarrow> sq_running q = None \<Longrightarrow> sq_step q (sq_take q)"
| Return: "sq_running q = Some f \<Longrightarrow> sq_step q (sq_return f q)"

definition sq_inv :: "'c serial_queue \<Rightarrow> bool" where
  "sq_inv q \<longleftrightarrow> sq_pushed q = sq_finished q @ (case sq_running q of None \<Rightarrow> [] | Some f \<Rightarrow> [f]) @ sq_queue q \<and>
     (sq_running q \<noteq> None \<longrightarrow> sq_draining q) \<and> (sq_queue q \<noteq> [] \<longrightarrow> sq_draining q \<or> sq_owed q > 0)"

definition sq_idle :: "'c serial_queue \<Rightarrow> bool" where
  "sq_idle q \<longleftrightarrow> \<not> sq_draining q \<and> sq_owed q = 0"

interpretation hub_queue: serial_runner sq_step sq_new sq_pushed sq_finished
  "\<lambda>q. case sq_running q of None \<Rightarrow> [] | Some f \<Rightarrow> [f]" sq_queue sq_idle sq_inv
proof
  show "sq_inv q'" if "sq_inv q" "sq_step q q'" for q q' :: "'c serial_queue"
    using that(2,1)
    by cases (auto simp: sq_inv_def sq_push_def sq_drain_def sq_take_def sq_return_def split: list.splits option.splits)
qed (auto simp: sq_inv_def sq_new_def sq_idle_def split: option.splits)

section \<open>The registry's executor\<close>

record 'c serial =
  sr_queue :: "'c list"
  sr_running :: bool
  sr_current :: "'c option"
  sr_pushed :: "'c list"
  sr_finished :: "'c list"

definition sr_new :: "'c serial" where
  "sr_new = \<lparr>sr_queue = [], sr_running = False, sr_current = None, sr_pushed = [], sr_finished = []\<rparr>"

definition serial_Go :: "'c \<Rightarrow> 'c serial \<Rightarrow> 'c serial" where
  "serial_Go f s =
     (let s1 = s\<lparr>sr_queue := sr_queue s @ [f], sr_pushed := sr_pushed s @ [f]\<rparr>
      in if \<not> sr_running s1 then s1\<lparr>sr_running := True\<rparr> else s1)"

text \<open>\<^verbatim>\<open>run\<close>: one turn of the loop up to the call, and the call's return.\<close>

definition serial_run :: "'c serial \<Rightarrow> 'c serial" where
  "serial_run s = (case sr_queue s of [] \<Rightarrow> s\<lparr>sr_running := False\<rparr>
     | f # fs \<Rightarrow> s\<lparr>sr_queue := fs, sr_current := Some f\<rparr>)"

definition serial_return :: "'c \<Rightarrow> 'c serial \<Rightarrow> 'c serial" where
  "serial_return f s = s\<lparr>sr_current := None, sr_finished := sr_finished s @ [f]\<rparr>"

inductive sr_step :: "'c serial \<Rightarrow> 'c serial \<Rightarrow> bool" where
  Go: "sr_step s (serial_Go f s)"
| Run: "sr_running s \<Longrightarrow> sr_current s = None \<Longrightarrow> sr_step s (serial_run s)"
| Done: "sr_current s = Some f \<Longrightarrow> sr_step s (serial_return f s)"

definition sr_inv :: "'c serial \<Rightarrow> bool" where
  "sr_inv s \<longleftrightarrow> sr_pushed s = sr_finished s @ (case sr_current s of None \<Rightarrow> [] | Some f \<Rightarrow> [f]) @ sr_queue s \<and>
     (sr_current s \<noteq> None \<or> sr_queue s \<noteq> [] \<longrightarrow> sr_running s)"

interpretation registry_queue: serial_runner sr_step sr_new sr_pushed sr_finished
  "\<lambda>s. case sr_current s of None \<Rightarrow> [] | Some f \<Rightarrow> [f]" sr_queue "\<lambda>s. \<not> sr_running s" sr_inv
proof
  show "sr_inv s'" if "sr_inv s" "sr_step s s'" for s s' :: "'c serial"
    using that(2,1)
    by cases (auto simp: sr_inv_def serial_Go_def serial_run_def serial_return_def Let_def split: list.splits option.splits)
qed (auto simp: sr_inv_def sr_new_def split: option.splits)

section \<open>Properties\<close>

text \<open>
  The hub's listener callbacks run one at a time and in the order the state changed, whatever the
  interleaving of goroutines: what has run is always a prefix of what was queued. No wake-up is lost: once every
  goroutine that queued work has passed through \<^verbatim>\<open>drain\<close> and nobody is draining, everything has run.
\<close>

theorem hub_callbacks_serial:
  assumes "sq_step\<^sup>*\<^sup>* sq_new q"
  shows "prefix (sq_finished q) (sq_pushed q) \<and> (sq_running q \<noteq> None \<longrightarrow> sq_draining q) \<and>
    (\<not> sq_draining q \<and> sq_owed q = 0 \<longrightarrow> sq_finished q = sq_pushed q)"
  using hub_queue.serial_order [OF assms] hub_queue.serial_complete [OF assms] hub_queue.inv_reach [OF assms]
  by (auto simp: sq_idle_def sq_inv_def)

theorem hub_callbacks_serial_witness:
  "prefix (sq_finished (sq_push (1 :: nat) sq_new)) (sq_pushed (sq_push (1 :: nat) sq_new))"
proof -
  have "sq_step\<^sup>*\<^sup>* sq_new (sq_push (1 :: nat) sq_new)" by (rule r_into_rtranclp, rule sq_step.Push)
  from hub_callbacks_serial [OF this] show ?thesis by blast
qed

text \<open>
  Wire operations on a Dhan feed keep the order in which the coordinator issued them, run one at a time, and
  are all done when the executor's goroutine ends: what has run is a prefix of what was submitted, and all of it
  when no goroutine is running.
\<close>

theorem wire_operations_serial:
  assumes "sr_step\<^sup>*\<^sup>* sr_new s"
  shows "prefix (sr_finished s) (sr_pushed s) \<and> (\<not> sr_running s \<longrightarrow> sr_finished s = sr_pushed s)"
  using registry_queue.serial_order [OF assms] registry_queue.serial_complete [OF assms] by blast

theorem wire_operations_serial_witness:
  "prefix (sr_finished (serial_Go (1 :: nat) sr_new)) (sr_pushed (serial_Go (1 :: nat) sr_new))"
proof -
  have "sr_step\<^sup>*\<^sup>* sr_new (serial_Go (1 :: nat) sr_new)" by (rule r_into_rtranclp, rule sr_step.Go)
  from wire_operations_serial [OF this] show ?thesis by blast
qed

end
