(* ===== verification/TokenSet.thy ===== *)
theory TokenSet
  imports Prelude
begin

text \<open>
  The insertion-ordered token set (\<^verbatim>\<open>tokenSet\<close> of \<^verbatim>\<open>internal/hub/hub.go\<close>, and the same type in
  \<^verbatim>\<open>internal/kite/lanefeed.go\<close>): a map from tokens to sequence numbers. What its clients rely on is
  the locale \<open>ordered_set\<close>: the listing is a list without duplicates, adding a new token puts
  it last, adding a present one changes nothing, and removing keeps the order of the rest.
\<close>

section \<open>The interface\<close>

locale ordered_set =
  fixes new :: 's
    and has :: "'s \<Rightarrow> 't \<Rightarrow> bool"
    and add :: "'t \<Rightarrow> 's \<Rightarrow> 's"
    and remove :: "'t \<Rightarrow> 's \<Rightarrow> 's"
    and elems :: "'s \<Rightarrow> 't list"
    and inv :: "'s \<Rightarrow> bool"
  assumes inv_new: "inv new" and elems_new: "elems new = []"
    and inv_add: "inv s \<Longrightarrow> inv (add t s)"
    and inv_remove: "inv s \<Longrightarrow> inv (remove t s)"
    and has_elems: "inv s \<Longrightarrow> has s t \<longleftrightarrow> t \<in> set (elems s)"
    and distinct_elems: "inv s \<Longrightarrow> distinct (elems s)"
    and elems_add: "inv s \<Longrightarrow> elems (add t s) = (if has s t then elems s else elems s @ [t])"
    and elems_remove: "inv s \<Longrightarrow> elems (remove t s) = filter (\<lambda>u. u \<noteq> t) (elems s)"
begin

lemma inv_fold_add: "inv s \<Longrightarrow> inv (fold add ts s)"
  by (induction ts arbitrary: s) (auto intro: inv_add)

lemma set_fold_add: "inv s \<Longrightarrow> set (elems (fold add ts s)) = set (elems s) \<union> set ts"
proof (induction ts arbitrary: s)
  case (Cons t ts)
  then have "set (elems (fold add ts (add t s))) = set (elems (add t s)) \<union> set ts" by (auto intro: inv_add)
  also have "set (elems (add t s)) = insert t (set (elems s))"
    using Cons.prems by (auto simp: elems_add has_elems)
  finally show ?case by simp
qed simp

text \<open>Adding a list appends its new tokens, each once, in order of first occurrence.\<close>

lemma elems_fold_add: "inv s \<Longrightarrow> elems (fold add ts s) = elems s @ nub_acc (elems s) ts"
proof (induction ts arbitrary: s)
  case (Cons t ts)
  have "nub_acc (xs @ [t]) ts = nub_acc (t # xs) ts" for xs by (rule nub_acc_cong) simp
  moreover have "elems (fold add ts (add t s)) = elems (add t s) @ nub_acc (elems (add t s)) ts"
    using Cons by (auto intro: inv_add)
  ultimately show ?case using Cons.prems by (simp add: elems_add has_elems)
qed simp

lemma inv_fold_remove: "inv s \<Longrightarrow> inv (fold remove ts s)"
  by (induction ts arbitrary: s) (auto intro: inv_remove)

lemma set_fold_remove: "inv s \<Longrightarrow> set (elems (fold remove ts s)) = set (elems s) - set ts"
proof (induction ts arbitrary: s)
  case (Cons t ts)
  then have "set (elems (fold remove ts (remove t s))) = set (elems (remove t s)) - set ts" by (auto intro: inv_remove)
  then show ?case using Cons.prems by (auto simp: elems_remove)
qed simp

end

section \<open>The implementation\<close>

record token_set =
  ts_seq :: "(token \<times> nat) list"
  ts_next :: nat

definition newTokenSet :: token_set where
  "newTokenSet = \<lparr>ts_seq = [], ts_next = 0\<rparr>"

definition ts_has :: "token_set \<Rightarrow> token \<Rightarrow> bool" where
  "ts_has s t \<longleftrightarrow> map_of (ts_seq s) t \<noteq> None"

definition ts_add :: "token \<Rightarrow> token_set \<Rightarrow> token_set" where
  "ts_add t s = (if \<not> ts_has s t then \<lparr>ts_seq = AList.update t (Suc (ts_next s)) (ts_seq s), ts_next = Suc (ts_next s)\<rparr> else s)"

definition ts_remove :: "token \<Rightarrow> token_set \<Rightarrow> token_set" where
  "ts_remove t s = s\<lparr>ts_seq := AList.delete t (ts_seq s)\<rparr>"

definition ts_len :: "token_set \<Rightarrow> nat" where
  "ts_len s = length (ts_seq s)"

text \<open>\<^verbatim>\<open>list\<close>: the keys sorted by sequence number.\<close>

definition ts_list :: "token_set \<Rightarrow> token list" where
  "ts_list s = map fst (sort_key snd (ts_seq s))"

definition ts_inv :: "token_set \<Rightarrow> bool" where
  "ts_inv s \<longleftrightarrow> distinct (map fst (ts_seq s)) \<and> (\<forall>p \<in> set (ts_seq s). snd p \<le> ts_next s)"

lemma insort_append_max: "f x \<le> (f y :: nat) \<Longrightarrow> insort_key f x (zs @ [y]) = insort_key f x zs @ [y]"
  by (induction zs) auto

lemma sort_key_append_max:
  assumes "\<And>x. x \<in> set xs \<Longrightarrow> f x \<le> (f y :: nat)"
  shows "sort_key f (xs @ [y]) = sort_key f xs @ [y]"
proof -
  have "set zs \<subseteq> set xs \<Longrightarrow> foldr (insort_key f) zs [y] = foldr (insort_key f) zs [] @ [y]" for zs
    using assms by (induction zs) (auto simp: insort_append_max)
  then show ?thesis by (simp add: sort_key_def)
qed

interpretation token_set: ordered_set newTokenSet ts_has ts_add ts_remove ts_list ts_inv
proof
  fix s and t :: token assume inv: "ts_inv s"
  have new: "AList.update t n m = m @ [(t, n)]" if "map_of m t = None" for n :: nat and m
    using that by (induction m) (auto split: if_splits)
  show "ts_inv (ts_add t s)"
    using inv new by (auto simp: ts_inv_def ts_add_def ts_has_def map_of_eq_None_iff le_SucI)
  show "ts_inv (ts_remove t s)"
    using inv by (auto simp: ts_inv_def ts_remove_def AList.delete_eq distinct_map_filter)
  show "ts_has s t \<longleftrightarrow> t \<in> set (ts_list s)"
    unfolding ts_has_def ts_list_def map_of_eq_None_iff by simp
  show "distinct (ts_list s)"
  proof -
    have "mset (map fst (sort_key snd (ts_seq s))) = mset (map fst (ts_seq s))" by (simp only: mset_map mset_sort)
    then show ?thesis using inv unfolding ts_list_def ts_inv_def by (metis mset_eq_imp_distinct_iff)
  qed
  show "ts_list (ts_add t s) = (if ts_has s t then ts_list s else ts_list s @ [t])"
  proof (cases "ts_has s t")
    case False
    then have "ts_seq (ts_add t s) = ts_seq s @ [(t, Suc (ts_next s))]" by (simp add: ts_add_def ts_has_def new)
    moreover have "sort_key snd (ts_seq s @ [(t, Suc (ts_next s))]) = sort_key snd (ts_seq s) @ [(t, Suc (ts_next s))]"
      using inv by (intro sort_key_append_max) (auto simp: ts_inv_def le_SucI)
    ultimately show ?thesis using False by (simp add: ts_list_def)
  qed (simp add: ts_add_def)
  show "ts_list (ts_remove t s) = filter (\<lambda>u. u \<noteq> t) (ts_list s)"
    by (simp add: ts_list_def ts_remove_def AList.delete_eq filter_sort [symmetric] filter_map comp_def case_prod_beta' eq_commute)
qed (simp_all add: ts_inv_def newTokenSet_def ts_list_def)

lemma ts_len_list: "ts_len s = length (ts_list s)"
  by (simp add: ts_len_def ts_list_def)

end
