(* ===== verification/Hub.thy ===== *)
theory Hub
  imports Market TokenSet "HOL-Library.Sublist"
begin

text \<open>
  The ticker hub (\<^verbatim>\<open>internal/hub/hub.go\<close>): the caches of latest ticks and order books, the fan-out to
  SSE clients through bounded queues, the tick and connection listeners, and the hub's own Kite socket.

  Every stretch of code under the hub's mutex is one function on the record \<open>hub\<close>. Callbacks to
  listeners are the values pushed on the serial queue (its execution is the subject of
  \<^theory_text>\<open>SerialQueue\<close>), collected here in the order of the pushes; calls on the socket handle are collected
  likewise. A frame is the value it encodes. The fields after \<open>h_events\<close> only record what happened.

  A client's writer goroutine takes frames from its queue one by one; halting a client and the
  writer noticing it are separate steps.
\<close>

section \<open>State\<close>

definition DefaultLadderMaxAgeMs :: int where "DefaultLadderMaxAgeMs = 5000"
definition DefaultClientQueue :: nat where "DefaultClientQueue = 1024"

record creds =
  APIKey :: string
  AccessToken :: string

record ladder =
  ld_Last :: f64
  ld_Bids :: "depth_level list"
  ld_Asks :: "depth_level list"

datatype frame = DataFrame "tick list" | KiteErrorFrame string

datatype event = TickEvent "nat list" "tick list" | ConnEvent "nat list" bool | DeadEvent

datatype sock_call = Connect nat "token list" | Subscribe "token list" | Unsubscribe "token list" | CloseSock

text \<open>
  \<open>c_live\<close>: the client is in the hub's \<^verbatim>\<open>clients\<close> map; \<open>c_halt\<close>: its stop channel is closed; \<open>c_done\<close>: its writer
  has ended; \<open>c_writing\<close>: the frame inside \<^verbatim>\<open>WriteFrame\<close>. \<open>c_written\<close>, \<open>c_sent\<close>, \<open>c_snap\<close> and \<open>c_from\<close> record the frames
  written, the frames queued, the snapshot it started with and how many frames had been broadcast by then.
\<close>

record client =
  c_tokens :: "token list"
  c_frames :: "frame list"
  c_writing :: "frame option"
  c_live :: bool
  c_halt :: bool
  c_dropped :: bool
  c_done :: bool
  c_written :: "frame list"
  c_sent :: "frame list"
  c_snap :: "frame list"
  c_from :: nat

record hub =
  h_queue :: nat
  h_sock :: "nat option"
  h_sockSeq :: nat
  h_clients :: "(nat \<times> client) list"
  h_subscribed :: token_set
  h_retainers :: "nat list"
  h_retainSeq :: nat
  h_tickListeners :: "nat list"
  h_connListeners :: "nat list"
  h_connected :: bool
  h_latest :: "(token \<times> tick) list"
  h_latestAt :: "(token \<times> millis) list"
  h_ladder :: "(token \<times> ladder) list"
  h_ladderAt :: "(token \<times> millis) list"
  h_events :: "event list"
  h_listenerSeq :: nat
  h_wire :: "sock_call list"
  h_up :: "token set"
  h_frames :: "frame list"

definition New :: "int \<Rightarrow> hub" where
  "New clientQueue = \<lparr>h_queue = (if clientQueue \<le> 0 then DefaultClientQueue else nat clientQueue),
     h_sock = None, h_sockSeq = 0, h_clients = [], h_subscribed = newTokenSet, h_retainers = [], h_retainSeq = 0,
     h_tickListeners = [], h_connListeners = [], h_connected = False, h_latest = [], h_latestAt = [], h_ladder = [],
     h_ladderAt = [], h_events = [], h_listenerSeq = 0, h_wire = [], h_up = {}, h_frames = []\<rparr>"

definition live_count :: "hub \<Rightarrow> nat" where
  "live_count h = length (filter (\<lambda>(_, c). c_live c) (h_clients h))"

section \<open>Clients\<close>

definition newClient :: "token list \<Rightarrow> nat \<Rightarrow> client" where
  "newClient tokens from = \<lparr>c_tokens = tokens, c_frames = [], c_writing = None, c_live = True, c_halt = False, c_dropped = False,
     c_done = False, c_written = [], c_sent = [], c_snap = [], c_from = from\<rparr>"

definition client_halt :: "bool \<Rightarrow> client \<Rightarrow> client" where
  "client_halt dropped c = (if c_halt c then c else c\<lparr>c_dropped := dropped, c_halt := True\<rparr>)"

definition send_client :: "nat \<Rightarrow> frame \<Rightarrow> client \<Rightarrow> client" where
  "send_client cap f c =
     (if \<not> c_live c then c
      else if length (c_frames c) < cap then c\<lparr>c_frames := c_frames c @ [f], c_sent := c_sent c @ [f]\<rparr>
      else client_halt True (c\<lparr>c_live := False\<rparr>))"

definition upd_client :: "nat \<Rightarrow> (client \<Rightarrow> client) \<Rightarrow> hub \<Rightarrow> hub" where
  "upd_client i g h = h\<lparr>h_clients := map (\<lambda>(j, c). (j, if j = i then g c else c)) (h_clients h)\<rparr>"

definition sendAllLocked :: "frame \<Rightarrow> hub \<Rightarrow> hub" where
  "sendAllLocked f h = h\<lparr>h_clients := map (\<lambda>(j, c). (j, send_client (h_queue h) f c)) (h_clients h), h_frames := h_frames h @ [f]\<rparr>"

definition snapshot_ticks :: "token list \<Rightarrow> hub \<Rightarrow> tick list" where
  "snapshot_ticks tokens h = List.map_filter (map_of (h_latest h)) tokens"

text \<open>The new client's id is one past the number of clients so far; its snapshot is queued before any later frame.\<close>

definition attachLocked :: "token list \<Rightarrow> hub \<Rightarrow> hub" where
  "attachLocked tokens h =
     (let snap = snapshot_ticks tokens h;
          c = newClient tokens (length (h_frames h));
          c' = (if snap \<noteq> [] then (send_client (h_queue h) (DataFrame snap) c)\<lparr>c_snap := [DataFrame snap]\<rparr> else c)
      in h\<lparr>h_clients := h_clients h @ [(length (h_clients h), c')]\<rparr>)"

definition AttachClient :: "token list \<Rightarrow> hub \<Rightarrow> hub" where
  "AttachClient tokens h = attachLocked tokens h"

text \<open>The writer goroutine: taking a frame (or noticing the halt), and the end of a write.\<close>

definition writer_take :: "client \<Rightarrow> client" where
  "writer_take c =
     (if c_done c \<or> c_writing c \<noteq> None then c
      else case c_frames c of
        [] \<Rightarrow> (if c_halt c then c\<lparr>c_done := True\<rparr> else c)
      | f # fs \<Rightarrow> if c_halt c then c\<lparr>c_frames := fs, c_done := True\<rparr> else c\<lparr>c_frames := fs, c_writing := Some f\<rparr>)"

definition writer_stop :: "client \<Rightarrow> client" where
  "writer_stop c = (if c_writing c = None \<and> c_halt c then c\<lparr>c_done := True\<rparr> else c)"

definition writer_return :: "client \<Rightarrow> client" where
  "writer_return c = (case c_writing c of None \<Rightarrow> c | Some f \<Rightarrow> c\<lparr>c_writing := None, c_written := c_written c @ [f]\<rparr>)"

section \<open>Connection changes and broadcast\<close>

definition notifyLocked :: "bool \<Rightarrow> hub \<Rightarrow> hub" where
  "notifyLocked conn h =
     (if h_connected h = conn then h
      else let h1 = h\<lparr>h_connected := conn\<rparr>
           in if h_connListeners h1 = [] then h1 else h1\<lparr>h_events := h_events h1 @ [ConnEvent (h_connListeners h1) conn]\<rparr>)"

definition slim :: "tick \<Rightarrow> tick" where
  "slim t = zero_tick\<lparr>t_Token := t_Token t, t_LastPrice := t_LastPrice t, t_ClosePrice := t_ClosePrice t, t_OI := t_OI t,
     t_Bid := t_Bid t, t_Ask := t_Ask t, t_Bids := t_Bids t, t_Asks := t_Asks t, t_DepthUpdated := t_DepthUpdated t,
     t_ExchangeTS := (case t_ExchangeTS t of Some ts \<Rightarrow> if ts \<noteq> 0 then Some ts else None | None \<Rightarrow> None)\<rparr>"

definition authoritative :: "tick \<Rightarrow> bool" where
  "authoritative t =
     (let legacyDepth = (t_DepthUpdated t = None \<and> (t_Bids t \<noteq> None \<or> t_Asks t \<noteq> None))
      in t_DepthUpdated t = Some True \<or> legacyDepth)"

definition levels :: "depth_level list option \<Rightarrow> depth_level list" where
  "levels l = (case l of None \<Rightarrow> [] | Some ls \<Rightarrow> ls)"

definition cache_tick :: "millis \<Rightarrow> tick \<Rightarrow> hub \<Rightarrow> hub" where
  "cache_tick now t h =
     (let h1 = h\<lparr>h_latest := AList.update (t_Token t) (slim t) (h_latest h), h_latestAt := AList.update (t_Token t) now (h_latestAt h)\<rparr>;
          bids = levels (t_Bids t); asks = levels (t_Asks t)
      in if \<not> authoritative t then h1
         else if bids \<noteq> [] \<or> asks \<noteq> []
         then h1\<lparr>h_ladder := AList.update (t_Token t) \<lparr>ld_Last = t_LastPrice t, ld_Bids = bids, ld_Asks = asks\<rparr> (h_ladder h1),
                 h_ladderAt := AList.update (t_Token t) now (h_ladderAt h1)\<rparr>
         else h1\<lparr>h_ladder := AList.delete (t_Token t) (h_ladder h1), h_ladderAt := AList.delete (t_Token t) (h_ladderAt h1)\<rparr>)"

definition broadcastLocked :: "millis \<Rightarrow> tick list \<Rightarrow> hub \<Rightarrow> hub" where
  "broadcastLocked now ticks h =
     (let h1 = fold (cache_tick now) ticks h; slims = map slim ticks;
          h2 = (if h_tickListeners h1 \<noteq> [] then h1\<lparr>h_events := h_events h1 @ [TickEvent (h_tickListeners h1) slims]\<rparr> else h1)
      in if live_count h2 > 0 then sendAllLocked (DataFrame slims) h2 else h2)"

definition IngestExternalTicks :: "millis \<Rightarrow> tick list \<Rightarrow> hub \<Rightarrow> hub" where
  "IngestExternalTicks now ticks h = (if ticks = [] then h else broadcastLocked now ticks h)"

definition SetExternalConnected :: "bool \<Rightarrow> hub \<Rightarrow> hub" where
  "SetExternalConnected conn h = notifyLocked conn h"

section \<open>The socket\<close>

definition ensureSocketLocked :: "creds \<Rightarrow> token list \<Rightarrow> hub \<Rightarrow> hub" where
  "ensureSocketLocked cr tokens h =
     (if AccessToken cr = '''' then h
      else
        let fresh = filter (\<lambda>t. \<not> ts_has (h_subscribed h) t) tokens;
            h1 = h\<lparr>h_subscribed := fold ts_add fresh (h_subscribed h)\<rparr>
        in case h_sock h1 of
             None \<Rightarrow>
               let h2 = h1\<lparr>h_sockSeq := Suc (h_sockSeq h1)\<rparr>; tokens' = ts_list (h_subscribed h2)
               in h2\<lparr>h_sock := Some (h_sockSeq h2), h_wire := h_wire h2 @ [Connect (h_sockSeq h2) tokens'], h_up := set tokens'\<rparr>
           | Some _ \<Rightarrow>
               if fresh \<noteq> [] then h1\<lparr>h_wire := h_wire h1 @ [Subscribe fresh], h_up := h_up h1 \<union> set fresh\<rparr> else h1)"

text \<open>Attaching and opening the socket under one lock; neither looks at what the other changes.\<close>

definition AddClient :: "creds \<Rightarrow> token list \<Rightarrow> hub \<Rightarrow> hub" where
  "AddClient cr tokens h = attachLocked tokens (ensureSocketLocked cr tokens h)"

definition Stop :: "hub \<Rightarrow> hub" where
  "Stop h =
     (let h1 = (case h_sock h of None \<Rightarrow> h | Some _ \<Rightarrow> h\<lparr>h_sock := None, h_wire := h_wire h @ [CloseSock], h_up := {}\<rparr>)
      in (notifyLocked False h1)\<lparr>h_subscribed := newTokenSet, h_latest := [], h_ladder := [], h_ladderAt := [], h_latestAt := []\<rparr>)"

definition currentLocked :: "nat \<Rightarrow> hub \<Rightarrow> bool" where
  "currentLocked i h \<longleftrightarrow> h_sock h = Some i"

definition onSocketTick :: "nat \<Rightarrow> millis \<Rightarrow> tick list \<Rightarrow> hub \<Rightarrow> hub" where
  "onSocketTick i now ticks h = (if \<not> currentLocked i h then h else broadcastLocked now ticks h)"

definition onSocketOpen :: "nat \<Rightarrow> hub \<Rightarrow> hub" where
  "onSocketOpen i h = (if \<not> currentLocked i h then h else notifyLocked True h)"

definition onSocketClose :: "nat \<Rightarrow> hub \<Rightarrow> hub" where
  "onSocketClose i h = (if \<not> currentLocked i h then h else notifyLocked False (h\<lparr>h_sock := None, h_up := {}\<rparr>))"

text \<open>\<^verbatim>\<open>fail\<close>: the dead-token callback is queued, then every client gets the error frame, then the hub stops.\<close>

definition fail_dead :: "hub \<Rightarrow> hub" where
  "fail_dead h = h\<lparr>h_events := h_events h @ [DeadEvent]\<rparr>"

definition onSocketError :: "nat \<Rightarrow> hub \<Rightarrow> hub" where
  "onSocketError i h = (if \<not> currentLocked i h then h else fail_dead h)"

definition fail_frames :: "string \<Rightarrow> hub \<Rightarrow> hub" where
  "fail_frames msg h = sendAllLocked (KiteErrorFrame msg) h"

section \<open>Retention and subscriptions\<close>

text \<open>The first half of \<^verbatim>\<open>detach\<close>: out of the map, then halted; and whether the socket must stop (the legacy path).\<close>

definition detach :: "nat \<Rightarrow> bool \<Rightarrow> hub \<Rightarrow> hub \<times> bool" where
  "detach i legacy h =
     (let h1 = upd_client i (\<lambda>c. c\<lparr>c_live := False\<rparr>) h
      in (upd_client i (client_halt False) h1, legacy \<and> live_count h1 = 0 \<and> h_retainers h1 = []))"

definition Seed :: "tick list \<Rightarrow> hub \<Rightarrow> hub" where
  "Seed ticks h = h\<lparr>h_latest := fold (\<lambda>t. AList.update (t_Token t) t) ticks (h_latest h)\<rparr>"

definition retain :: "hub \<Rightarrow> hub \<times> nat" where
  "retain h = (let h1 = h\<lparr>h_retainSeq := Suc (h_retainSeq h)\<rparr> in (h1\<lparr>h_retainers := h_retainSeq h1 # h_retainers h1\<rparr>, h_retainSeq h1))"

definition release :: "nat \<Rightarrow> hub \<Rightarrow> hub \<times> bool" where
  "release k h = (let h1 = h\<lparr>h_retainers := filter (\<lambda>j. j \<noteq> k) (h_retainers h)\<rparr>
     in (h1, live_count h1 = 0 \<and> h_retainers h1 = []))"

definition SubscribeTokens :: "creds \<Rightarrow> token list \<Rightarrow> hub \<Rightarrow> hub" where
  "SubscribeTokens cr tokens h = (if tokens = [] then h else ensureSocketLocked cr tokens h)"

definition still_wanted :: "hub \<Rightarrow> token \<Rightarrow> bool" where
  "still_wanted h t \<longleftrightarrow> list_ex (\<lambda>(_, c). c_live c \<and> t \<in> set (c_tokens c)) (h_clients h)"

definition drop_token :: "token \<Rightarrow> hub \<Rightarrow> hub" where
  "drop_token t h = h\<lparr>h_subscribed := ts_remove t (h_subscribed h), h_latest := AList.delete t (h_latest h),
     h_latestAt := AList.delete t (h_latestAt h), h_ladder := AList.delete t (h_ladder h), h_ladderAt := AList.delete t (h_ladderAt h)\<rparr>"

definition UnsubscribeTokens :: "token list \<Rightarrow> hub \<Rightarrow> hub" where
  "UnsubscribeTokens tokens h =
     (if tokens = [] then h
      else let drops = filter (\<lambda>t. \<not> still_wanted h t \<and> ts_has (h_subscribed h) t) tokens
           in if drops = [] then h
              else let h1 = fold drop_token drops h
                   in case h_sock h1 of None \<Rightarrow> h1
                      | Some _ \<Rightarrow> h1\<lparr>h_wire := h_wire h1 @ [Unsubscribe drops], h_up := h_up h1 - set drops\<rparr>)"

definition AddTickListener :: "hub \<Rightarrow> hub" where
  "AddTickListener h = (let h1 = h\<lparr>h_listenerSeq := Suc (h_listenerSeq h)\<rparr> in h1\<lparr>h_tickListeners := h_tickListeners h1 @ [h_listenerSeq h1]\<rparr>)"

definition AddConnectionListener :: "hub \<Rightarrow> hub" where
  "AddConnectionListener h =
     (let h1 = h\<lparr>h_listenerSeq := Suc (h_listenerSeq h)\<rparr>
      in h1\<lparr>h_connListeners := h_connListeners h1 @ [h_listenerSeq h1], h_events := h_events h1 @ [ConnEvent [h_listenerSeq h1] (h_connected h1)]\<rparr>)"

definition remove_tick_listener :: "nat \<Rightarrow> hub \<Rightarrow> hub" where
  "remove_tick_listener l h = h\<lparr>h_tickListeners := remove1 l (h_tickListeners h)\<rparr>"

definition remove_conn_listener :: "nat \<Rightarrow> hub \<Rightarrow> hub" where
  "remove_conn_listener l h = h\<lparr>h_connListeners := remove1 l (h_connListeners h)\<rparr>"

section \<open>Reading the caches\<close>

definition IsConnected :: "hub \<Rightarrow> bool" where
  "IsConnected h = h_connected h"

definition SubscribedCount :: "hub \<Rightarrow> nat" where
  "SubscribedCount h = ts_len (h_subscribed h)"

definition GetFreshLadder :: "millis \<Rightarrow> token \<Rightarrow> int \<Rightarrow> hub \<Rightarrow> ladder option" where
  "GetFreshLadder now t maxAgeMs h =
     (case (map_of (h_ladder h) t, map_of (h_ladderAt h) t) of
        (Some l, Some received) \<Rightarrow> if now - received > maxAgeMs then None else Some l
      | _ \<Rightarrow> None)"

definition GetLatestTick :: "token \<Rightarrow> hub \<Rightarrow> tick option" where
  "GetLatestTick t h = map_of (h_latest h) t"

definition GetLadderSnapshot :: "token \<Rightarrow> hub \<Rightarrow> (ladder \<times> millis) option" where
  "GetLadderSnapshot t h =
     (case (map_of (h_ladder h) t, map_of (h_ladderAt h) t) of (Some l, Some received) \<Rightarrow> Some (l, received) | _ \<Rightarrow> None)"

section \<open>Runs of the hub\<close>

datatype hub_ev = EAttach "token list" | EAdd creds "token list" | EDetach nat bool | ESeed "tick list" | ERetain | ERelease nat
  | EEnsure creds "token list" | EUnsubscribe "token list" | EAddTick | EAddConn | ERemTick nat | ERemConn nat
  | EExternal millis "tick list" | EExternalConn bool | EStop | ESockTick nat millis "tick list" | ESockOpen nat | ESockError nat
  | EFail string | ESockClose nat | EWriterTake nat | EWriterStop nat | EWriterReturn nat

fun hub_step :: "hub \<Rightarrow> hub_ev \<Rightarrow> hub" where
  "hub_step h (EAttach ts) = AttachClient ts h"
| "hub_step h (EAdd cr ts) = AddClient cr ts h"
| "hub_step h (EDetach i legacy) = fst (detach i legacy h)"
| "hub_step h (ESeed tks) = Seed tks h"
| "hub_step h ERetain = fst (retain h)"
| "hub_step h (ERelease k) = fst (release k h)"
| "hub_step h (EEnsure cr ts) = SubscribeTokens cr ts h"
| "hub_step h (EUnsubscribe ts) = UnsubscribeTokens ts h"
| "hub_step h EAddTick = AddTickListener h"
| "hub_step h EAddConn = AddConnectionListener h"
| "hub_step h (ERemTick l) = remove_tick_listener l h"
| "hub_step h (ERemConn l) = remove_conn_listener l h"
| "hub_step h (EExternal now tks) = IngestExternalTicks now tks h"
| "hub_step h (EExternalConn b) = SetExternalConnected b h"
| "hub_step h EStop = Stop h"
| "hub_step h (ESockTick i now tks) = onSocketTick i now tks h"
| "hub_step h (ESockOpen i) = onSocketOpen i h"
| "hub_step h (ESockError i) = onSocketError i h"
| "hub_step h (EFail msg) = fail_frames msg h"
| "hub_step h (ESockClose i) = onSocketClose i h"
| "hub_step h (EWriterTake i) = upd_client i writer_take h"
| "hub_step h (EWriterStop i) = upd_client i writer_stop h"
| "hub_step h (EWriterReturn i) = upd_client i writer_return h"

lemmas hub_ops = AttachClient_def attachLocked_def AddClient_def detach_def Seed_def retain_def release_def SubscribeTokens_def
  UnsubscribeTokens_def AddTickListener_def AddConnectionListener_def remove_tick_listener_def remove_conn_listener_def
  IngestExternalTicks_def SetExternalConnected_def onSocketTick_def onSocketOpen_def onSocketError_def fail_frames_def fail_dead_def
  onSocketClose_def Stop_def

text \<open>What each helper leaves alone.\<close>

lemma notify_fields [simp]:
  "h_queue (notifyLocked b h) = h_queue h" "h_sock (notifyLocked b h) = h_sock h" "h_clients (notifyLocked b h) = h_clients h"
  "h_subscribed (notifyLocked b h) = h_subscribed h" "h_up (notifyLocked b h) = h_up h" "h_frames (notifyLocked b h) = h_frames h"
  "h_ladder (notifyLocked b h) = h_ladder h" "h_ladderAt (notifyLocked b h) = h_ladderAt h" "h_connListeners (notifyLocked b h) = h_connListeners h"
  "h_listenerSeq (notifyLocked b h) = h_listenerSeq h" "h_latest (notifyLocked b h) = h_latest h" "h_connected (notifyLocked b h) = b"
  by (simp_all add: notifyLocked_def Let_def)

lemma cache_fields [simp]:
  "h_queue (cache_tick n t h) = h_queue h" "h_sock (cache_tick n t h) = h_sock h" "h_clients (cache_tick n t h) = h_clients h"
  "h_subscribed (cache_tick n t h) = h_subscribed h" "h_up (cache_tick n t h) = h_up h" "h_frames (cache_tick n t h) = h_frames h"
  "h_events (cache_tick n t h) = h_events h" "h_connListeners (cache_tick n t h) = h_connListeners h"
  "h_tickListeners (cache_tick n t h) = h_tickListeners h" "h_listenerSeq (cache_tick n t h) = h_listenerSeq h" "h_connected (cache_tick n t h) = h_connected h"
  by (simp_all add: cache_tick_def Let_def)

lemma fold_cache_fields [simp]:
  "h_queue (fold (cache_tick n) ts h) = h_queue h" "h_sock (fold (cache_tick n) ts h) = h_sock h" "h_clients (fold (cache_tick n) ts h) = h_clients h"
  "h_subscribed (fold (cache_tick n) ts h) = h_subscribed h" "h_up (fold (cache_tick n) ts h) = h_up h" "h_frames (fold (cache_tick n) ts h) = h_frames h"
  "h_events (fold (cache_tick n) ts h) = h_events h" "h_connListeners (fold (cache_tick n) ts h) = h_connListeners h"
  "h_tickListeners (fold (cache_tick n) ts h) = h_tickListeners h" "h_listenerSeq (fold (cache_tick n) ts h) = h_listenerSeq h"
  "h_connected (fold (cache_tick n) ts h) = h_connected h"
  by (induction ts arbitrary: h) simp_all

lemma fold_drop_fields [simp]:
  "h_queue (fold drop_token ts h) = h_queue h" "h_sock (fold drop_token ts h) = h_sock h" "h_clients (fold drop_token ts h) = h_clients h"
  "h_up (fold drop_token ts h) = h_up h" "h_frames (fold drop_token ts h) = h_frames h" "h_events (fold drop_token ts h) = h_events h"
  "h_connListeners (fold drop_token ts h) = h_connListeners h" "h_listenerSeq (fold drop_token ts h) = h_listenerSeq h"
  "h_connected (fold drop_token ts h) = h_connected h" "h_subscribed (fold drop_token ts h) = fold ts_remove ts (h_subscribed h)"
  by (induction ts arbitrary: h) (simp_all add: drop_token_def)

lemma sendAll_fields [simp]:
  "h_sock (sendAllLocked f h) = h_sock h" "h_subscribed (sendAllLocked f h) = h_subscribed h" "h_up (sendAllLocked f h) = h_up h"
  "h_events (sendAllLocked f h) = h_events h" "h_connListeners (sendAllLocked f h) = h_connListeners h" "h_listenerSeq (sendAllLocked f h) = h_listenerSeq h"
  "h_connected (sendAllLocked f h) = h_connected h" "h_ladder (sendAllLocked f h) = h_ladder h" "h_ladderAt (sendAllLocked f h) = h_ladderAt h"
  "h_latest (sendAllLocked f h) = h_latest h" "h_queue (sendAllLocked f h) = h_queue h"
  by (simp_all add: sendAllLocked_def)

lemma upd_fields [simp]:
  "h_sock (upd_client i g h) = h_sock h" "h_subscribed (upd_client i g h) = h_subscribed h" "h_up (upd_client i g h) = h_up h"
  "h_events (upd_client i g h) = h_events h" "h_connListeners (upd_client i g h) = h_connListeners h" "h_listenerSeq (upd_client i g h) = h_listenerSeq h"
  "h_connected (upd_client i g h) = h_connected h" "h_ladder (upd_client i g h) = h_ladder h" "h_ladderAt (upd_client i g h) = h_ladderAt h"
  "h_frames (upd_client i g h) = h_frames h" "h_queue (upd_client i g h) = h_queue h"
  by (simp_all add: upd_client_def)

lemma ensure_fields [simp]:
  "h_queue (ensureSocketLocked cr ts h) = h_queue h" "h_clients (ensureSocketLocked cr ts h) = h_clients h" "h_frames (ensureSocketLocked cr ts h) = h_frames h"
  "h_events (ensureSocketLocked cr ts h) = h_events h" "h_connListeners (ensureSocketLocked cr ts h) = h_connListeners h"
  "h_listenerSeq (ensureSocketLocked cr ts h) = h_listenerSeq h" "h_connected (ensureSocketLocked cr ts h) = h_connected h"
  "h_ladder (ensureSocketLocked cr ts h) = h_ladder h" "h_ladderAt (ensureSocketLocked cr ts h) = h_ladderAt h"
  by (simp_all add: ensureSocketLocked_def Let_def split: option.splits)

lemma broadcast_fields [simp]:
  "h_sock (broadcastLocked n ts h) = h_sock h" "h_subscribed (broadcastLocked n ts h) = h_subscribed h" "h_up (broadcastLocked n ts h) = h_up h"
  "h_connListeners (broadcastLocked n ts h) = h_connListeners h" "h_listenerSeq (broadcastLocked n ts h) = h_listenerSeq h"
  "h_connected (broadcastLocked n ts h) = h_connected h" "h_queue (broadcastLocked n ts h) = h_queue h"
  by (simp_all add: broadcastLocked_def Let_def)

section \<open>The socket follows the subscribed set\<close>

definition wire_ok :: "hub \<Rightarrow> bool" where
  "wire_ok h \<longleftrightarrow> ts_inv (h_subscribed h) \<and> h_up h = (if h_sock h = None then {} else set (ts_list (h_subscribed h)))"

lemma wire_ok_cong:
  "h_sock h' = h_sock h \<Longrightarrow> h_subscribed h' = h_subscribed h \<Longrightarrow> h_up h' = h_up h \<Longrightarrow> wire_ok h \<Longrightarrow> wire_ok h'"
  by (simp add: wire_ok_def)

lemma ensure_wire_ok:
  assumes "wire_ok h"
  shows "wire_ok (ensureSocketLocked cr ts h)"
proof -
  let ?fresh = "filter (\<lambda>t. \<not> ts_has (h_subscribed h) t) ts"
  have inv: "ts_inv (h_subscribed h)" using assms by (simp add: wire_ok_def)
  note f = token_set.inv_fold_add [OF inv, of ?fresh] token_set.set_fold_add [OF inv, of ?fresh]
  show ?thesis using assms f
    by (cases "h_sock h") (auto simp: wire_ok_def ensureSocketLocked_def Let_def)
qed

lemma unsubscribe_wire_ok:
  assumes "wire_ok h"
  shows "wire_ok (UnsubscribeTokens ts h)"
proof -
  let ?d = "filter (\<lambda>t. \<not> still_wanted h t \<and> ts_has (h_subscribed h) t) ts"
  have inv: "ts_inv (h_subscribed h)" using assms by (simp add: wire_ok_def)
  note f = token_set.inv_fold_remove [OF inv, of ?d] token_set.set_fold_remove [OF inv, of ?d]
  show ?thesis using assms f
    by (cases "h_sock h") (auto simp: wire_ok_def UnsubscribeTokens_def Let_def)
qed

interpretation hub_wire: step_system hub_step wire_ok
proof
  fix h ev assume ok: "wire_ok h"
  show "wire_ok (hub_step h ev)"
  proof (cases ev)
    case (EAdd cr ts)
    show ?thesis unfolding EAdd hub_step.simps AddClient_def
      by (rule wire_ok_cong [OF _ _ _ ensure_wire_ok [OF ok, of cr ts]]) (simp_all add: attachLocked_def Let_def)
  next
    case (EEnsure cr ts)
    then show ?thesis using ok ensure_wire_ok [OF ok] by (simp add: SubscribeTokens_def)
  next
    case (EUnsubscribe ts)
    then show ?thesis using unsubscribe_wire_ok [OF ok] by simp
  next
    case EStop
    then show ?thesis using ok token_set.inv_new token_set.elems_new
      by (simp add: wire_ok_def Stop_def Let_def split: option.splits)
  next
    case (ESockClose i)
    then show ?thesis using ok by (simp add: wire_ok_def onSocketClose_def)
  qed (use ok in \<open>simp_all add: hub_ops Let_def wire_ok_def\<close>)
qed

section \<open>Every client sees a gapless stream\<close>

definition in_write :: "client \<Rightarrow> frame list" where
  "in_write c = (case c_writing c of None \<Rightarrow> [] | Some f \<Rightarrow> [f])"

definition client_ok :: "nat \<Rightarrow> frame list \<Rightarrow> client \<Rightarrow> bool" where
  "client_ok cap fs c \<longleftrightarrow> length (c_frames c) \<le> cap \<and> c_from c \<le> length fs \<and>
     (c_live c \<longrightarrow> \<not> c_halt c \<and> c_sent c = c_snap c @ drop (c_from c) fs) \<and>
     (\<not> c_done c \<longrightarrow> c_written c @ in_write c @ c_frames c = c_sent c) \<and>
     prefix (c_written c @ in_write c) (c_sent c) \<and> (c_done c \<longrightarrow> c_halt c \<and> c_writing c = None)"

definition clients_ok :: "hub \<Rightarrow> bool" where
  "clients_ok h \<longleftrightarrow> 0 < h_queue h \<and> list_all (\<lambda>(_, c). client_ok (h_queue h) (h_frames h) c) (h_clients h)"

lemma clients_ok_cong:
  "h_queue h' = h_queue h \<Longrightarrow> h_clients h' = h_clients h \<Longrightarrow> h_frames h' = h_frames h \<Longrightarrow> clients_ok h \<Longrightarrow> clients_ok h'"
  by (simp add: clients_ok_def)

lemma send_client_ok:
  assumes "client_ok cap fs c"
  shows "client_ok cap (fs @ [f]) (send_client cap f c)"
proof -
  have "prefix (c_written c @ in_write c) (c_sent c @ [f])" using assms by (auto simp: client_ok_def intro: prefix_prefix)
  then show ?thesis using assms
    by (auto simp: client_ok_def send_client_def client_halt_def in_write_def simp del: append_assoc)
qed

lemma upd_clients_ok:
  assumes "clients_ok h" "\<And>c. client_ok (h_queue h) (h_frames h) c \<Longrightarrow> client_ok (h_queue h) (h_frames h) (g c)"
  shows "clients_ok (upd_client i g h)"
  using assms by (auto simp: clients_ok_def upd_client_def list_all_iff)

lemma client_halt_ok: "client_ok cap fs c \<Longrightarrow> \<not> c_live c \<Longrightarrow> client_ok cap fs (client_halt b c)"
  by (auto simp: client_ok_def client_halt_def in_write_def)

lemma client_out_ok: "client_ok cap fs c \<Longrightarrow> client_ok cap fs (c\<lparr>c_live := False\<rparr>)"
  by (auto simp: client_ok_def in_write_def)

lemma detach_eq: "fst (detach i legacy h) = upd_client i (\<lambda>c. client_halt False (c\<lparr>c_live := False\<rparr>)) h"
  by (auto simp: detach_def upd_client_def Let_def intro!: arg_cong [where f = "\<lambda>x. h\<lparr>h_clients := x\<rparr>"])

lemma writer_take_ok: "client_ok cap fs c \<Longrightarrow> client_ok cap fs (writer_take c)"
  by (auto simp: client_ok_def writer_take_def in_write_def prefix_def split: option.splits list.splits)

lemma writer_stop_ok: "client_ok cap fs c \<Longrightarrow> client_ok cap fs (writer_stop c)"
  by (auto simp: client_ok_def writer_stop_def in_write_def)

lemma writer_return_ok: "client_ok cap fs c \<Longrightarrow> client_ok cap fs (writer_return c)"
  by (auto simp: client_ok_def writer_return_def in_write_def split: option.splits)

lemma newClient_ok: "client_ok cap fs (newClient ts (length fs))"
  by (simp add: client_ok_def newClient_def in_write_def)

lemma snap_ok:
  assumes "0 < cap"
  shows "client_ok cap fs ((send_client cap f (newClient ts (length fs)))\<lparr>c_snap := [f]\<rparr>)"
  using assms by (simp add: client_ok_def newClient_def send_client_def in_write_def)

lemma sendAll_ok: "clients_ok h \<Longrightarrow> clients_ok (sendAllLocked f h)"
  by (auto simp: clients_ok_def sendAllLocked_def list_all_iff intro: send_client_ok)

lemma broadcast_clients_ok:
  assumes "clients_ok h"
  shows "clients_ok (broadcastLocked n ts h)"
proof -
  have "clients_ok (fold (cache_tick n) ts h)" by (rule clients_ok_cong [OF _ _ _ assms]) simp_all
  moreover have "clients_ok (h1\<lparr>h_events := e\<rparr>)" if "clients_ok h1" for h1 e
    by (rule clients_ok_cong [OF _ _ _ that]) simp_all
  ultimately show ?thesis by (auto simp: broadcastLocked_def Let_def intro: sendAll_ok)
qed

lemma attach_ok:
  assumes "clients_ok h"
  shows "clients_ok (attachLocked ts h)"
  using assms newClient_ok snap_ok by (auto simp: clients_ok_def attachLocked_def Let_def)

interpretation hub_clients: step_system hub_step clients_ok
proof
  fix h ev assume ok: "clients_ok h"
  show "clients_ok (hub_step h ev)"
  proof (cases ev)
    case (EAttach ts)
    then show ?thesis using attach_ok [OF ok] by (simp add: AttachClient_def)
  next
    case (EAdd cr ts)
    have "clients_ok (ensureSocketLocked cr ts h)" by (rule clients_ok_cong [OF _ _ _ ok]) simp_all
    then show ?thesis using EAdd attach_ok by (simp add: AddClient_def)
  next
    case (EDetach i legacy)
    then show ?thesis unfolding EDetach hub_step.simps detach_eq
      by (intro upd_clients_ok [OF ok] client_halt_ok client_out_ok) simp_all
  next
    case (EExternal n ts)
    then show ?thesis using ok broadcast_clients_ok [OF ok] by (simp add: IngestExternalTicks_def)
  next
    case (ESockTick i n ts)
    then show ?thesis using ok broadcast_clients_ok [OF ok] by (simp add: onSocketTick_def)
  next
    case (EFail msg)
    then show ?thesis using sendAll_ok [OF ok] by (simp add: fail_frames_def)
  next
    case (EWriterTake i)
    then show ?thesis using upd_clients_ok [OF ok writer_take_ok] by simp
  next
    case (EWriterStop i)
    then show ?thesis using upd_clients_ok [OF ok writer_stop_ok] by simp
  next
    case (EWriterReturn i)
    then show ?thesis using upd_clients_ok [OF ok writer_return_ok] by simp
  qed (use ok in \<open>auto simp: hub_ops Let_def clients_ok_def split: option.splits\<close>)
qed

section \<open>Connection listeners\<close>

fun conn_seen :: "nat \<Rightarrow> event list \<Rightarrow> bool list" where
  "conn_seen l [] = []"
| "conn_seen l (ConnEvent ls b # es) = (if l \<in> set ls then b # conn_seen l es else conn_seen l es)"
| "conn_seen l (_ # es) = conn_seen l es"

lemma conn_seen_append [simp]: "conn_seen l (es @ fs) = conn_seen l es @ conn_seen l fs"
  by (induction l es rule: conn_seen.induct) simp_all

definition conns_ok :: "hub \<Rightarrow> bool" where
  "conns_ok h \<longleftrightarrow> distinct (h_connListeners h) \<and> (\<forall>l \<in> set (h_connListeners h). l \<le> h_listenerSeq h) \<and>
     (\<forall>l > h_listenerSeq h. conn_seen l (h_events h) = []) \<and> (\<forall>l. distinct_adj (conn_seen l (h_events h))) \<and>
     (\<forall>l \<in> set (h_connListeners h). conn_seen l (h_events h) \<noteq> [] \<and> last (conn_seen l (h_events h)) = h_connected h)"

lemma conns_ok_cong:
  "h_connListeners h' = h_connListeners h \<Longrightarrow> h_listenerSeq h' = h_listenerSeq h \<Longrightarrow> h_connected h' = h_connected h \<Longrightarrow>
   (\<And>l. conn_seen l (h_events h') = conn_seen l (h_events h)) \<Longrightarrow> conns_ok h \<Longrightarrow> conns_ok h'"
  by (simp add: conns_ok_def)

lemma notify_conns_ok: "conns_ok h \<Longrightarrow> conns_ok (notifyLocked b h)"
  by (auto simp: conns_ok_def notifyLocked_def Let_def distinct_adj_append_iff)

lemma add_conns_ok:
  assumes "conns_ok h"
  shows "conns_ok (AddConnectionListener h)"
proof -
  have "conn_seen (Suc (h_listenerSeq h)) (h_events h) = []" using assms by (auto simp: conns_ok_def)
  then show ?thesis using assms
    by (auto simp: conns_ok_def AddConnectionListener_def Let_def distinct_adj_append_iff)
qed

lemma remove_conns_ok: "conns_ok h \<Longrightarrow> conns_ok (remove_conn_listener l h)"
  by (auto simp: conns_ok_def remove_conn_listener_def dest: notin_set_remove1 in_set_remove1)

lemma broadcast_conns_ok: "conns_ok h \<Longrightarrow> conns_ok (broadcastLocked n ts h)"
  by (erule conns_ok_cong [rotated 4]) (simp_all add: broadcastLocked_def Let_def)

interpretation hub_conns: step_system hub_step conns_ok
proof
  fix h ev assume ok: "conns_ok h"
  have keep: "conns_ok h'" if "h_connListeners h' = h_connListeners h" "h_listenerSeq h' = h_listenerSeq h"
    "h_connected h' = h_connected h" "h_events h' = h_events h" for h'
    using that ok by (simp add: conns_ok_def)
  show "conns_ok (hub_step h ev)"
  proof (cases ev)
    case (EUnsubscribe ts)
    then show ?thesis by (intro keep) (simp_all add: UnsubscribeTokens_def Let_def split: option.splits)
  next
    case EAddTick
    then show ?thesis using ok by (auto simp: conns_ok_def AddTickListener_def Let_def)
  next
    case EAddConn
    then show ?thesis using add_conns_ok [OF ok] by simp
  next
    case (ERemConn l)
    then show ?thesis using remove_conns_ok [OF ok] by simp
  next
    case (EExternal n ts)
    then show ?thesis using ok broadcast_conns_ok [OF ok] by (simp add: IngestExternalTicks_def)
  next
    case (ESockTick i n ts)
    then show ?thesis using ok broadcast_conns_ok [OF ok] by (simp add: onSocketTick_def)
  next
    case (EExternalConn b)
    then show ?thesis using notify_conns_ok [OF ok] by (simp add: SetExternalConnected_def)
  next
    case (ESockOpen i)
    then show ?thesis using ok notify_conns_ok [OF ok] by (simp add: onSocketOpen_def)
  next
    case (ESockClose i)
    have "conns_ok (h\<lparr>h_sock := None, h_up := {}\<rparr>)" by (rule keep) simp_all
    then show ?thesis using ESockClose ok notify_conns_ok by (simp add: onSocketClose_def)
  next
    case EStop
    have "conns_ok (case h_sock h of None \<Rightarrow> h | Some _ \<Rightarrow> h\<lparr>h_sock := None, h_wire := h_wire h @ [CloseSock], h_up := {}\<rparr>)"
      by (rule keep) (simp_all split: option.splits)
    from notify_conns_ok [OF this, of False] show ?thesis using EStop by (simp add: Stop_def Let_def conns_ok_def)
  next
    case (ESockError i)
    then show ?thesis using ok by (simp add: onSocketError_def fail_dead_def conns_ok_def)
  qed (rule keep; simp add: hub_ops Let_def)+
qed

section \<open>The caches\<close>

definition book_of :: "millis \<Rightarrow> tick \<Rightarrow> (ladder \<times> millis) option" where
  "book_of now t = (if levels (t_Bids t) = [] \<and> levels (t_Asks t) = [] then None
     else Some (\<lparr>ld_Last = t_LastPrice t, ld_Bids = levels (t_Bids t), ld_Asks = levels (t_Asks t)\<rparr>, now))"

definition book_ticks :: "token \<Rightarrow> tick list \<Rightarrow> tick list" where
  "book_ticks t ticks = filter (\<lambda>x. t_Token x = t \<and> authoritative x) ticks"

lemma cache_tick_book:
  "GetLadderSnapshot t (cache_tick now x h) =
     (if t_Token x = t \<and> authoritative x then book_of now x else GetLadderSnapshot t h)"
  by (auto simp: GetLadderSnapshot_def cache_tick_def book_of_def Let_def update_conv' delete_conv'
      split: option.splits)

lemma cache_tick_latest: "GetLatestTick t (cache_tick now x h) = (if t_Token x = t then Some (slim x) else GetLatestTick t h)"
  by (simp add: GetLatestTick_def cache_tick_def Let_def update_conv')

lemma fold_cache_book:
  "GetLadderSnapshot t (fold (cache_tick now) xs h) =
     (if book_ticks t xs = [] then GetLadderSnapshot t h else book_of now (last (book_ticks t xs)))"
proof (induction xs rule: rev_induct)
  case (snoc x xs)
  then show ?case by (simp add: cache_tick_book book_ticks_def)
qed (simp add: book_ticks_def)

lemma fold_cache_latest:
  "GetLatestTick t (fold (cache_tick now) xs h) =
     (case filter (\<lambda>x. t_Token x = t) xs of [] \<Rightarrow> GetLatestTick t h | ys \<Rightarrow> Some (slim (last ys)))"
proof (induction xs rule: rev_induct)
  case (snoc x xs)
  then show ?case by (auto simp: cache_tick_latest split: list.splits)
qed simp

lemma broadcast_book [simp]: "GetLadderSnapshot t (broadcastLocked now xs h) = GetLadderSnapshot t (fold (cache_tick now) xs h)"
  by (simp add: broadcastLocked_def Let_def GetLadderSnapshot_def split: option.split)

lemma broadcast_latest [simp]: "GetLatestTick t (broadcastLocked now xs h) = GetLatestTick t (fold (cache_tick now) xs h)"
  by (simp add: broadcastLocked_def Let_def GetLatestTick_def)

lemma fresh_snapshot:
  "GetFreshLadder now t maxAge h = (case GetLadderSnapshot t h of Some (l, received) \<Rightarrow> if now - received > maxAge then None else Some l | None \<Rightarrow> None)"
  by (simp add: GetFreshLadder_def GetLadderSnapshot_def split: option.splits)

section \<open>Unsubscribing\<close>

lemma drop_token_caches:
  "GetLatestTick t (drop_token u h) = (if t = u then None else GetLatestTick t h)"
  "GetLadderSnapshot t (drop_token u h) = (if t = u then None else GetLadderSnapshot t h)"
  by (simp_all add: GetLatestTick_def GetLadderSnapshot_def drop_token_def delete_conv' split: option.split)

lemma fold_drop_caches:
  "GetLatestTick t (fold drop_token ts h) = (if t \<in> set ts then None else GetLatestTick t h)"
  "GetLadderSnapshot t (fold drop_token ts h) = (if t \<in> set ts then None else GetLadderSnapshot t h)"
  by (induction ts arbitrary: h) (simp_all add: drop_token_caches)

lemma still_wanted_iff: "still_wanted h t \<longleftrightarrow> (\<exists>i c. (i, c) \<in> set (h_clients h) \<and> c_live c \<and> t \<in> set (c_tokens c))"
  by (auto simp: still_wanted_def list_ex_iff)

text \<open>What one call drops: the subscribed tokens of its argument that no attached client asked for.\<close>

lemma unsubscribe_eq:
  "UnsubscribeTokens ts h =
     (let ds = filter (\<lambda>t. \<not> still_wanted h t \<and> ts_has (h_subscribed h) t) ts; h1 = fold drop_token ds h
      in if ds = [] \<or> h_sock h = None then h1 else h1\<lparr>h_wire := h_wire h1 @ [Unsubscribe ds], h_up := h_up h1 - set ds\<rparr>)"
  by (auto simp: UnsubscribeTokens_def Let_def split: option.split)

lemma unsubscribe_caches:
  "GetLatestTick t (UnsubscribeTokens ts h) = GetLatestTick t (fold drop_token (filter (\<lambda>t. \<not> still_wanted h t \<and> ts_has (h_subscribed h) t) ts) h)"
  "GetLadderSnapshot t (UnsubscribeTokens ts h) = GetLadderSnapshot t (fold drop_token (filter (\<lambda>t. \<not> still_wanted h t \<and> ts_has (h_subscribed h) t) ts) h)"
  by (simp_all add: unsubscribe_eq Let_def GetLatestTick_def GetLadderSnapshot_def split: option.split)

lemma unsubscribe_subscribed:
  assumes "wire_ok h"
  shows "ts_has (h_subscribed (UnsubscribeTokens ts h)) t \<longleftrightarrow>
    ts_has (h_subscribed h) t \<and> t \<notin> set (filter (\<lambda>t. \<not> still_wanted h t \<and> ts_has (h_subscribed h) t) ts)"
proof -
  let ?d = "filter (\<lambda>t. \<not> still_wanted h t \<and> ts_has (h_subscribed h) t) ts"
  have inv: "ts_inv (h_subscribed h)" using assms by (simp add: wire_ok_def)
  have "h_subscribed (UnsubscribeTokens ts h) = fold ts_remove ?d (h_subscribed h)" by (simp add: unsubscribe_eq Let_def)
  moreover have "ts_has (fold ts_remove ?d (h_subscribed h)) t \<longleftrightarrow> ts_has (h_subscribed h) t \<and> t \<notin> set ?d"
    using token_set.has_elems [OF token_set.inv_fold_remove [OF inv]] token_set.set_fold_remove [OF inv] token_set.has_elems [OF inv] by simp
  ultimately show ?thesis by simp
qed

lemma unsubscribe_up:
  "h_up (UnsubscribeTokens ts h) = h_up h - (if h_sock h = None then {} else set (filter (\<lambda>t. \<not> still_wanted h t \<and> ts_has (h_subscribed h) t) ts))"
  by (auto simp: unsubscribe_eq Let_def filter_empty_conv)

section \<open>Whole handlers\<close>

text \<open>The handlers that take the lock more than once, run without interleaving.\<close>

definition fail :: "string \<Rightarrow> hub \<Rightarrow> hub" where
  "fail msg h = Stop (fail_frames msg (fail_dead h))"

definition Retain :: "creds \<Rightarrow> token list \<Rightarrow> hub \<Rightarrow> hub \<times> nat" where
  "Retain cr tokens h = (case retain h of (h1, key) \<Rightarrow> (ensureSocketLocked cr tokens h1, key))"

definition Retain_release :: "nat \<Rightarrow> hub \<Rightarrow> hub" where
  "Retain_release key h = (case release key h of (h1, stop) \<Rightarrow> if stop then Stop h1 else h1)"

definition RetainFanout_release :: "nat \<Rightarrow> hub \<Rightarrow> hub" where
  "RetainFanout_release key h = fst (release key h)"

definition detach_client :: "nat \<Rightarrow> bool \<Rightarrow> hub \<Rightarrow> hub" where
  "detach_client i legacy h = (case detach i legacy h of (h1, stop) \<Rightarrow> if stop then Stop h1 else h1)"

lemma Stop_fields [simp]:
  "h_sock (Stop h) = None" "h_connected (Stop h) = False" "h_subscribed (Stop h) = newTokenSet" "h_clients (Stop h) = h_clients h"
  "h_up (Stop h) = (if h_sock h = None then h_up h else {})" "h_frames (Stop h) = h_frames h" "h_retainers (Stop h) = h_retainers h"
  "h_latest (Stop h) = []" "h_ladder (Stop h) = []"
  by (simp_all add: Stop_def Let_def notifyLocked_def split: option.splits)

section \<open>Properties\<close>

text \<open>The hub's invariants hold of a new hub.\<close>

lemma New_ok: "wire_ok (New q)" "clients_ok (New q)" "conns_ok (New q)"
  using token_set.inv_new by (simp_all add: New_def wire_ok_def clients_ok_def conns_ok_def DefaultClientQueue_def)

text \<open>
  C11: After any run of the hub (attachments, broadcasts, failures, writer steps in any interleaving), a client's queue
  never holds more frames than its bound; a client still attached has written, is writing or has queued exactly
  its snapshot followed by every frame broadcast since it attached, in order, none lost and none twice; and the
  writer of a client that was dropped or detached has written a prefix of the frames queued for it.
\<close>

theorem client_stream_is_gapless:
  assumes "h = foldl hub_step (New q) evs" and "(i, c) \<in> set (h_clients h)"
  shows "length (c_frames c) \<le> h_queue h \<and>
     (c_live c \<longrightarrow> c_written c @ in_write c @ c_frames c = c_snap c @ drop (c_from c) (h_frames h)) \<and>
     prefix (c_written c) (c_sent c)"
proof -
  have "clients_ok h" using assms(1) hub_clients.run_inv [OF New_ok(2)] by simp
  then have "client_ok (h_queue h) (h_frames h) c" using assms(2) by (auto simp: clients_ok_def list_all_iff)
  then show ?thesis by (auto simp: client_ok_def dest: append_prefixD)
qed

definition sample_tick :: tick where
  "sample_tick = zero_tick\<lparr>t_Token := 7, t_LastPrice := f_of_int 100, t_Bids := Some [], t_Asks := Some []\<rparr>"

definition sample_hub :: hub where
  "sample_hub = foldl hub_step (New 1) [EAttach [7], EExternal 5 [sample_tick], EWriterTake 0, EExternal 6 [sample_tick]]"

lemma sample_hub_client:
  "h_clients sample_hub = [(0, (newClient [7] 0)\<lparr>c_frames := [DataFrame [slim sample_tick]], c_writing := Some (DataFrame [slim sample_tick]),
     c_sent := [DataFrame [slim sample_tick], DataFrame [slim sample_tick]]\<rparr>)]"
  by (simp add: sample_hub_def New_def AttachClient_def attachLocked_def snapshot_ticks_def List.map_filter_simps newClient_def
      IngestExternalTicks_def broadcastLocked_def live_count_def Let_def sendAllLocked_def send_client_def upd_client_def writer_take_def)

theorem client_stream_is_gapless_witness:
  "length (c_frames (snd (hd (h_clients sample_hub)))) \<le> h_queue sample_hub \<and> c_live (snd (hd (h_clients sample_hub)))"
  using client_stream_is_gapless [OF sample_hub_def, of 0 "snd (hd (h_clients sample_hub))"]
  by (simp add: sample_hub_client newClient_def)

text \<open>
  The serial queue gives every connection listener the state at its registration first and from then on only changes:
  the values it is given strictly alternate, and the last one queued is the hub's current state, whatever the
  order of socket, external-feed and listener events.
\<close>

theorem connection_listener_sees_changes:
  assumes "h = foldl hub_step (New q) evs"
  shows "distinct_adj (conn_seen l (h_events h)) \<and>
     (l \<in> set (h_connListeners h) \<longrightarrow> conn_seen l (h_events h) \<noteq> [] \<and> last (conn_seen l (h_events h)) = IsConnected h)"
  using hub_conns.run_inv [OF New_ok(3) [of q], of evs] assms by (simp add: conns_ok_def IsConnected_def)

definition conn_run :: "hub_ev list" where
  "conn_run = [EAddConn, EExternalConn True, EExternalConn True, EAddConn, EStop]"

theorem connection_listener_sees_changes_witness:
  "last (conn_seen 1 (h_events (foldl hub_step (New 1) conn_run))) = IsConnected (foldl hub_step (New 1) conn_run) \<and>
   conn_seen 1 (h_events (foldl hub_step (New 1) conn_run)) = [False, True, False]"
  using connection_listener_sees_changes [OF refl, of 1 1 conn_run]
  by (simp add: conn_run_def New_def AddConnectionListener_def SetExternalConnected_def Let_def notifyLocked_def Stop_def)

text \<open>
  After any run, the hub's Kite socket, when there is one, is subscribed to exactly the hub's subscribed set (without
  duplicates), and to nothing when there is none.
\<close>

theorem socket_follows_subscribed_set:
  assumes "h = foldl hub_step (New q) evs"
  shows "distinct (ts_list (h_subscribed h)) \<and> h_up h = (if h_sock h = None then {} else set (ts_list (h_subscribed h)))"
proof -
  have "wire_ok h" using assms hub_wire.run_inv [OF New_ok(1)] by simp
  then show ?thesis using token_set.distinct_elems by (simp add: wire_ok_def)
qed

definition wire_run :: "hub_ev list" where
  "wire_run = [EEnsure \<lparr>APIKey = ''k'', AccessToken = ''a''\<rparr> [7, 8], EUnsubscribe [7]]"

theorem socket_follows_subscribed_set_witness:
  "h_up (foldl hub_step (New 1) wire_run) = set (ts_list (h_subscribed (foldl hub_step (New 1) wire_run)))"
proof -
  have "h_sock (foldl hub_step (New 1) wire_run) = Some 1"
    by (simp add: wire_run_def New_def SubscribeTokens_def ensureSocketLocked_def Let_def UnsubscribeTokens_def split: option.splits)
  then show ?thesis using socket_follows_subscribed_set [OF refl, of 1 wire_run] by simp
qed

text \<open>
  A broadcast leaves in the caches, for every token, the last tick of the batch for it (slimmed) and the book of the last
  tick of the batch that carries authoritative depth, stamped with the receive time: an authoritative empty book
  removes the cached one, other tokens and ticks without depth change nothing. \<^verbatim>\<open>GetFreshLadder\<close> is that book while
  it is at most the given age.
\<close>

theorem broadcast_updates_caches:
  "GetLatestTick t (broadcastLocked now ticks h) =
     (case filter (\<lambda>x. t_Token x = t) ticks of [] \<Rightarrow> GetLatestTick t h | xs \<Rightarrow> Some (slim (last xs)))
   \<and> GetLadderSnapshot t (broadcastLocked now ticks h) =
     (if book_ticks t ticks = [] then GetLadderSnapshot t h else book_of now (last (book_ticks t ticks)))
   \<and> GetFreshLadder later t maxAge (broadcastLocked now ticks h) =
     (case GetLadderSnapshot t (broadcastLocked now ticks h) of None \<Rightarrow> None
      | Some (l, received) \<Rightarrow> if later - received > maxAge then None else Some l)"
  by (simp add: fold_cache_latest fold_cache_book fresh_snapshot case_prod_beta' split: option.split)

text \<open>
  Unsubscribing never touches a token an attached client asked for: it stays subscribed and cached. Every other
  subscribed token of the call leaves the subscribed set, both caches and the socket.
\<close>

theorem unsubscribe_spares_wanted_tokens:
  assumes "h = foldl hub_step (New q) evs" and "gone = (t \<in> set tokens \<and> ts_has (h_subscribed h) t \<and> \<not> still_wanted h t)"
  shows "(ts_has (h_subscribed (UnsubscribeTokens tokens h)) t \<longleftrightarrow> ts_has (h_subscribed h) t \<and> \<not> gone) \<and>
    (t \<in> h_up (UnsubscribeTokens tokens h) \<longleftrightarrow> t \<in> h_up h \<and> \<not> gone) \<and>
    GetLatestTick t (UnsubscribeTokens tokens h) = (if gone then None else GetLatestTick t h) \<and>
    GetLadderSnapshot t (UnsubscribeTokens tokens h) = (if gone then None else GetLadderSnapshot t h)"
proof -
  have ok: "wire_ok h" using assms(1) hub_wire.run_inv [OF New_ok(1)] by simp
  let ?d = "filter (\<lambda>t. \<not> still_wanted h t \<and> ts_has (h_subscribed h) t) tokens"
  have gone: "gone \<longleftrightarrow> t \<in> set ?d" using assms(2) by auto
  show ?thesis using ok by (simp add: gone unsubscribe_subscribed unsubscribe_up unsubscribe_caches fold_drop_caches wire_ok_def)
qed

theorem unsubscribe_spares_wanted_tokens_witness:
  "\<not> ts_has (h_subscribed (UnsubscribeTokens [7] (foldl hub_step (New 1) [EEnsure \<lparr>APIKey = [], AccessToken = ''a''\<rparr> [7]]))) 7"
  using unsubscribe_spares_wanted_tokens [OF refl refl, where tokens = "[7]" and t = 7 and q = 1 and evs = "[EEnsure \<lparr>APIKey = [], AccessToken = ''a''\<rparr> [7]]"]
  by (simp add: still_wanted_def New_def SubscribeTokens_def ensureSocketLocked_def Let_def)

text \<open>
  Any failure of the current socket ends with the hub disconnected, without socket, subscriptions or cached
  ticks and books, every attached client sent the error frame or dropped because its queue was full, and nobody detached by it otherwise.
\<close>

theorem fail_stops_hub:
  "h_sock (fail msg h) = None \<and> IsConnected (fail msg h) = False \<and> SubscribedCount (fail msg h) = 0 \<and>
   GetLatestTick t (fail msg h) = None \<and> GetLadderSnapshot t (fail msg h) = None \<and>
   h_clients (fail msg h) = map (\<lambda>(i, c). (i, send_client (h_queue h) (KiteErrorFrame msg) c)) (h_clients h)"
  by (simp add: fail_def fail_frames_def fail_dead_def sendAllLocked_def GetLatestTick_def GetLadderSnapshot_def IsConnected_def SubscribedCount_def
    newTokenSet_def ts_len_def)

end
