(* ===== verification/Wire.thy ===== *)
theory Wire
  imports Prelude Float64
begin

text \<open>
  Reading fixed-width integers and 32-bit floats out of byte buffers, as Go's \<^verbatim>\<open>encoding/binary\<close> and
  \<^verbatim>\<open>math.Float32frombits\<close> do. A byte is an \<open>8 word\<close>; a read is an \<open>int\<close> in the range of its width, and the
  signed conversions wrap as in Go. Lemmas: the ranges, the inverse encoders, and that a read inside a part of a
  buffer sees only that part.
\<close>

type_synonym byte = "8 word"

section \<open>Values of byte strings\<close>

definition be_val :: "byte list \<Rightarrow> int" where
  "be_val bs = foldl (\<lambda>v b. v * 256 + uint b) 0 bs"

definition le_val :: "byte list \<Rightarrow> int" where
  "le_val bs = foldr (\<lambda>b v. uint b + 256 * v) bs 0"

definition field :: "byte list \<Rightarrow> nat \<Rightarrow> nat \<Rightarrow> byte list" where
  "field b off n = take n (drop off b)"

text \<open>Go's \<^verbatim>\<open>int16(u)\<close> and \<^verbatim>\<open>int32(u)\<close> of an unsigned value of the same width.\<close>

definition int16 :: "int \<Rightarrow> int" where
  "int16 u = (if u \<ge> 2 ^ 15 then u - 2 ^ 16 else u)"

definition int32 :: "int \<Rightarrow> int" where
  "int32 u = (if u \<ge> 2 ^ 31 then u - 2 ^ 32 else u)"

text \<open>\<^verbatim>\<open>float64(math.Float32frombits(u))\<close>: every binary32 value is a binary64 value.\<close>

definition float32_of_bits :: "int \<Rightarrow> f64" where
  "float32_of_bits u =
     (let s = (u \<ge> 2 ^ 31); e = u div 2 ^ 23 mod 256; m = u mod 2 ^ 23
      in if e = 255 then (if m = 0 then Inf s else NaN)
         else if e = 0 then f_round s m (pow2 149)
         else f_round s ((2 ^ 23 + m) * pow2 (e - 150)) (pow2 (150 - e)))"

section \<open>Ranges\<close>

lemma uint_byte [simp]: "0 \<le> uint (b :: byte)" "uint (b :: byte) < 256" "uint (b :: byte) \<le> 255"
  using uint_lt2p [of b] by simp_all

lemma le_val_simps [simp]: "le_val [] = 0" "le_val (b # bs) = uint b + 256 * le_val bs"
  by (simp_all add: le_val_def)

lemma be_val_append: "be_val (bs @ [b]) = be_val bs * 256 + uint b"
  by (simp add: be_val_def)

lemma be_val_range: "0 \<le> be_val bs \<and> be_val bs < 256 ^ length bs"
proof (induction bs rule: rev_induct)
  case (snoc b bs)
  have "be_val bs * 256 + uint b < (be_val bs + 1) * 256" using uint_byte(2) [of b] by simp
  also have "\<dots> \<le> 256 ^ length bs * 256" using snoc by simp
  finally show ?case using snoc by (simp add: be_val_append)
qed (simp add: be_val_def)

lemma le_val_range: "0 \<le> le_val bs \<and> le_val bs < 256 ^ length bs"
proof (induction bs)
  case (Cons b bs)
  have "uint b + 256 * le_val bs < 256 * (le_val bs + 1)" using uint_byte(2) [of b] by simp
  also have "\<dots> \<le> 256 * 256 ^ length bs" using Cons by simp
  finally show ?case using Cons by simp
qed simp

lemma int16_range: "0 \<le> u \<Longrightarrow> u < 2 ^ 16 \<Longrightarrow> - (2 ^ 15) \<le> int16 u \<and> int16 u < 2 ^ 15"
  by (simp add: int16_def)

section \<open>Encoders\<close>

text \<open>The byte strings that encode a value, for stating what a well-formed message is.\<close>

definition enc16_be :: "int \<Rightarrow> byte list" where
  "enc16_be v = [word_of_int (v div 256), word_of_int v]"

definition enc16_le :: "int \<Rightarrow> byte list" where
  "enc16_le v = [word_of_int v, word_of_int (v div 256)]"

lemma enc16_length [simp]: "length (enc16_be v) = 2" "length (enc16_le v) = 2"
  by (simp_all add: enc16_be_def enc16_le_def)

lemma uint_byte_of_int [simp]: "uint (word_of_int v :: byte) = v mod 256"
  by (simp add: uint_word_of_int)

lemma enc16_split:
  assumes "0 \<le> v" "v < 2 ^ 16"
  shows "(v div 256 mod 256) * 256 + v mod 256 = (v :: int)"
proof -
  have "v div 256 < 256" "0 \<le> v div 256" using assms by auto
  then show ?thesis by simp
qed

lemma be_val_enc16: "0 \<le> v \<Longrightarrow> v < 2 ^ 16 \<Longrightarrow> be_val (enc16_be v) = v"
  using enc16_split [of v] by (simp add: be_val_def enc16_be_def)

lemma le_val_enc16: "0 \<le> v \<Longrightarrow> v < 2 ^ 16 \<Longrightarrow> le_val (enc16_le v) = v"
  using enc16_split [of v] by (simp add: enc16_le_def mult.commute)

section \<open>Reads inside a part of a buffer\<close>

lemma length_field [simp]: "off + n \<le> length b \<Longrightarrow> length (field b off n) = n"
  by (simp add: field_def)

lemma field_part:
  assumes "off + n \<le> length p"
  shows "field (pre @ p @ post) (length pre + off) n = field p off n"
  using assms by (simp add: field_def)

lemma field_field:
  assumes "off + n \<le> m"
  shows "field (field b base m) off n = field b (base + off) n"
  using assms by (simp add: field_def drop_take min_absorb1 add.commute)

lemma field_self [simp]: "field p 0 (length p) = p"
  by (simp add: field_def)

end
