(* ===== verification/KiteTicker.thy ===== *)
theory KiteTicker
  imports Wire Market "HOL-Library.State_Monad"
begin

text \<open>
  The decoder of Kite's binary messages (\<^verbatim>\<open>internal/kite/ticker/parse.go\<close>). The bounds-checked reader is a state
  monad over its \<^verbatim>\<open>bad\<close> flag: a read outside the message returns 0 and sets the flag, and the decoder throws the
  whole message away when the flag is set at the end of a packet. Lengths are signed, so an offset may go back or
  below 0; the loop still ends because it runs at most \<^verbatim>\<open>numPackets\<close> times.

  \<open>packet_tick\<close> says directly what a packet means, from the documented layout; the decoder yields exactly that
  for every packet of a well-formed message.
\<close>

section \<open>The reader\<close>

definition QuotePacketLen :: int where "QuotePacketLen = 44"
definition FullPacketLen :: int where "FullPacketLen = 184"

abbreviation blen :: "byte list \<Rightarrow> int" where
  "blen b \<equiv> int (length b)"

definition read_be :: "nat \<Rightarrow> byte list \<Rightarrow> int \<Rightarrow> (bool, int) state" where
  "read_be n b off = State (\<lambda>bad. if off < 0 \<or> off + int n > blen b then (0, True) else (be_val (field b (nat off) n), bad))"

definition frame_u32 :: "byte list \<Rightarrow> int \<Rightarrow> (bool, int) state" where
  "frame_u32 b off = read_be 4 b off"

definition frame_u16 :: "byte list \<Rightarrow> int \<Rightarrow> (bool, int) state" where
  "frame_u16 b off = read_be 2 b off"

definition frame_i16 :: "byte list \<Rightarrow> int \<Rightarrow> (bool, int) state" where
  "frame_i16 b off = do { u \<leftarrow> frame_u16 b off; State_Monad.return (int16 u) }"

section \<open>Packets\<close>

definition priceDivisor :: "int \<Rightarrow> f64" where
  "priceDivisor tok = (let seg = tok mod 256 in
     if seg = 3 then f_of_int 10000000 else if seg = 7 then f_of_int 10000 else f_of_int 100)"

definition scaled :: "f64 \<Rightarrow> int \<Rightarrow> f64" where
  "scaled divisor v = f_div (f_of_int v) divisor"

text \<open>One side of one level: its price, and quantity and orders only when the price is positive.\<close>

definition read_level :: "byte list \<Rightarrow> f64 \<Rightarrow> int \<Rightarrow> (bool, depth_level list) state" where
  "read_level b divisor off = do {
     p \<leftarrow> frame_u32 b (off + 4);
     let price = scaled divisor p;
     if f_lt f_zero price then do {
       q \<leftarrow> frame_u32 b off;
       n \<leftarrow> frame_u16 b (off + 8);
       State_Monad.return [\<lparr>dl_Price = price, dl_Qty = f_of_int q, dl_Orders = f_of_int n\<rparr>]
     } else State_Monad.return []
   }"

fun read_levels :: "nat \<Rightarrow> byte list \<Rightarrow> f64 \<Rightarrow> int \<Rightarrow> int \<Rightarrow> depth_level list \<times> depth_level list \<Rightarrow> (bool, depth_level list \<times> depth_level list) state" where
  "read_levels 0 b divisor offset i acc = State_Monad.return acc"
| "read_levels (Suc k) b divisor offset i (bids, asks) = do {
     bs \<leftarrow> read_level b divisor (offset + 64 + i * 12);
     as \<leftarrow> read_level b divisor (offset + 124 + i * 12);
     read_levels k b divisor offset (i + 1) (bids @ bs, asks @ as)
   }"

definition top_price :: "depth_level list \<Rightarrow> f64" where
  "top_price ls = (case ls of [] \<Rightarrow> f_zero | l # _ \<Rightarrow> dl_Price l)"

definition read_packet :: "byte list \<Rightarrow> int \<Rightarrow> int \<Rightarrow> (bool, tick) state" where
  "read_packet b offset plen = do {
     tok \<leftarrow> frame_u32 b offset;
     let divisor = priceDivisor tok;
     lp \<leftarrow> frame_u32 b (offset + 4);
     cp \<leftarrow> (if plen \<ge> QuotePacketLen then do { c \<leftarrow> frame_u32 b (offset + 40); State_Monad.return (scaled divisor c) }
           else State_Monad.return f_zero);
     let base = zero_tick\<lparr>t_Token := tok, t_LastPrice := scaled divisor lp, t_ClosePrice := cp, t_Bids := Some [], t_Asks := Some []\<rparr>;
     if plen \<ge> FullPacketLen then do {
       oi \<leftarrow> frame_u32 b (offset + 48);
       exSec \<leftarrow> frame_u32 b (offset + 60);
       book \<leftarrow> read_levels 5 b divisor offset 0 ([], []);
       State_Monad.return (base\<lparr>t_OI := f_of_int oi, t_Bid := top_price (fst book), t_Ask := top_price (snd book), t_Bids := Some (fst book),
         t_Asks := Some (snd book), t_DepthUpdated := Some True, t_ExchangeTS := (if exSec > 0 then Some (exSec * 1000) else None)\<rparr>)
     } else State_Monad.return (base\<lparr>t_DepthUpdated := Some False\<rparr>)
   }"

section \<open>Messages\<close>

fun parse_packets :: "nat \<Rightarrow> byte list \<Rightarrow> int \<Rightarrow> tick list \<Rightarrow> bool \<Rightarrow> tick list" where
  "parse_packets 0 b offset ticks bad = ticks"
| "parse_packets (Suc n) b offset ticks bad =
     (if offset + 2 > blen b then ticks
      else case run_state (frame_i16 b offset) bad of (plen, bad1) \<Rightarrow>
        if offset + 2 + plen > blen b then ticks
        else case run_state (read_packet b (offset + 2) plen) bad1 of (t, bad2) \<Rightarrow>
          if bad2 then [] else parse_packets n b (offset + 2 + plen) (ticks @ [t]) bad2)"

definition ParseBinary :: "byte list \<Rightarrow> tick list" where
  "ParseBinary b =
     (if blen b < 2 then []
      else case run_state (frame_i16 b 0) False of (numPackets, bad) \<Rightarrow> parse_packets (nat numPackets) b 2 [] bad)"

section \<open>What a packet means\<close>

definition u32_at :: "byte list \<Rightarrow> nat \<Rightarrow> int" where
  "u32_at p off = be_val (field p off 4)"

definition level_at :: "byte list \<Rightarrow> f64 \<Rightarrow> nat \<Rightarrow> depth_level" where
  "level_at p divisor off = \<lparr>dl_Price = scaled divisor (u32_at p (off + 4)), dl_Qty = f_of_int (u32_at p off),
     dl_Orders = f_of_int (be_val (field p (off + 8) 2))\<rparr>"

definition book_side :: "byte list \<Rightarrow> f64 \<Rightarrow> nat \<Rightarrow> depth_level list" where
  "book_side p divisor base = filter (\<lambda>l. f_lt f_zero (dl_Price l)) (map (\<lambda>i. level_at p divisor (base + 12 * i)) [0..<5])"

definition packet_tick :: "byte list \<Rightarrow> tick" where
  "packet_tick p =
     (let tok = u32_at p 0; d = priceDivisor tok; full = (length p \<ge> 184);
          bids = (if full then book_side p d 64 else []); asks = (if full then book_side p d 124 else [])
      in zero_tick\<lparr>t_Token := tok, t_LastPrice := scaled d (u32_at p 4),
           t_ClosePrice := (if length p \<ge> 44 then scaled d (u32_at p 40) else f_zero),
           t_OI := (if full then f_of_int (u32_at p 48) else f_zero),
           t_Bid := top_price bids, t_Ask := top_price asks, t_Bids := Some bids, t_Asks := Some asks, t_DepthUpdated := Some full,
           t_ExchangeTS := (if full \<and> u32_at p 60 > 0 then Some (u32_at p 60 * 1000) else None)\<rparr>)"

text \<open>A message: the packet count and each packet with its length in front.\<close>

definition framed :: "byte list list \<Rightarrow> byte list" where
  "framed ps = concat (map (\<lambda>p. enc16_be (blen p) @ p) ps)"

section \<open>Packets inside a message\<close>

text \<open>A read at offset \<open>k\<close> of the part \<open>p\<close> of a message: in bounds it yields the field and keeps the flag.\<close>

lemma read_part:
  assumes "0 \<le> k" "k + int n \<le> blen p"
  shows "run_state (read_be n (pre @ p @ post) (blen pre + k)) bad = (be_val (field p (nat k) n), bad)"
proof -
  have "nat (blen pre + k) = length pre + nat k" using assms by simp
  then show ?thesis using assms field_part [of "nat k" n p pre post] by (simp add: read_be_def nat_add_distrib)
qed

lemmas part_reads = read_part [where n = 4, simplified] read_part [where n = 2, simplified]

lemma run_read_level:
  assumes "0 \<le> k" "k + 10 \<le> blen p"
  shows "run_state (read_level (pre @ p @ post) d (blen pre + k)) bad =
     (if f_lt f_zero (dl_Price (level_at p d (nat k))) then [level_at p d (nat k)] else [], bad)"
proof -
  have "nat (k + 4) = nat k + 4" "nat (k + 8) = nat k + 8" using assms by simp_all
  then show ?thesis using assms
    part_reads(1) [of "k + 4" p pre post bad] part_reads(1) [of k p pre post bad] part_reads(2) [of "k + 8" p pre post bad]
    by (simp add: read_level_def frame_u32_def frame_u16_def level_at_def u32_at_def Let_def add.assoc)
qed

lemma run_read_levels:
  assumes "i + k = 5" "184 \<le> blen p"
  shows "run_state (read_levels k (pre @ p @ post) d (blen pre) (int i) (bids, asks)) bad =
    ((bids @ filter (\<lambda>l. f_lt f_zero (dl_Price l)) (map (\<lambda>i. level_at p d (64 + 12 * i)) [i..<5]),
      asks @ filter (\<lambda>l. f_lt f_zero (dl_Price l)) (map (\<lambda>i. level_at p d (124 + 12 * i)) [i..<5])), bad)"
  using assms(1)
proof (induction k arbitrary: i bids asks)
  case (Suc k)
  have "nat (64 + int i * 12) = 64 + 12 * i" "nat (124 + int i * 12) = 124 + 12 * i" by (simp_all add: nat_add_distrib nat_mult_distrib)
  then show ?case using Suc.prems Suc.IH [of "Suc i"] assms(2)
    run_read_level [of "64 + int i * 12" p pre post d bad] run_read_level [of "124 + int i * 12" p pre post d bad]
    by (simp add: upt_conv_Cons add.assoc add.commute [of 1])
qed simp

lemma run_read_packet:
  assumes "8 \<le> blen p"
  shows "run_state (read_packet (pre @ p @ post) (blen pre) (blen p)) bad = (packet_tick p, bad)"
proof -
  have reads: "run_state (frame_u32 (pre @ p @ post) (blen pre + k)) bad = (u32_at p (nat k), bad)" if "0 \<le> k" "k + 4 \<le> blen p" for k
    using part_reads(1) [OF that] by (simp add: frame_u32_def u32_at_def)
  note first = reads [of 0, simplified] reads [of 4] 
  show ?thesis
  proof (cases "184 \<le> blen p")
    case True
    then show ?thesis using first reads [of 40] reads [of 48] reads [of 60] run_read_levels [of 0 5 p pre post _ "[]" "[]" bad]
      by (simp add: read_packet_def packet_tick_def Let_def QuotePacketLen_def FullPacketLen_def book_side_def)
  next
    case False
    then show ?thesis using assms first reads [of 40]
      by (auto simp: read_packet_def packet_tick_def Let_def QuotePacketLen_def FullPacketLen_def top_price_def zero_tick_def)
  qed
qed

section \<open>Whole messages\<close>

definition good_packet :: "byte list \<Rightarrow> bool" where
  "good_packet p \<longleftrightarrow> 8 \<le> length p \<and> blen p < 2 ^ 15"

text \<open>The bytes after the last complete packet: nothing, half a length field, or a packet cut short.\<close>

definition cut_short :: "byte list \<Rightarrow> bool" where
  "cut_short rest \<longleftrightarrow> length rest < 2 \<or> int16 (be_val (take 2 rest)) > blen rest - 2"

lemma run_i16_part:
  assumes "2 \<le> length p"
  shows "run_state (frame_i16 (pre @ p @ post) (blen pre)) bad = (int16 (be_val (take 2 p)), bad)"
  using part_reads(2) [of 0 p pre post bad] assms by (simp add: frame_i16_def frame_u16_def field_def)

lemma run_i16_enc:
  assumes "0 \<le> v" "v < 2 ^ 15"
  shows "run_state (frame_i16 (pre @ enc16_be v @ post) (blen pre)) bad = (v, bad)"
  using run_i16_part [of "enc16_be v" pre post bad] assms by (simp add: int16_def be_val_enc16)

lemma parse_packets_framed:
  assumes "list_all good_packet ps" "length ps \<le> n" "length ps = n \<or> cut_short rest"
  shows "parse_packets n (pre @ framed ps @ rest) (blen pre) ticks False = ticks @ map packet_tick ps"
  using assms
proof (induction ps arbitrary: n pre ticks)
  case Nil
  show ?case
  proof (cases "n = 0 \<or> length rest < 2")
    case True
    then show ?thesis by (cases n) (auto simp: framed_def)
  next
    case False
    with Nil.prems have "int16 (be_val (take 2 rest)) > blen rest - 2" by (auto simp: cut_short_def)
    then show ?thesis using False run_i16_part [of rest pre "[]" False] by (cases n) (simp_all add: framed_def)
  qed
next
  case (Cons p ps)
  then obtain m where m: "n = Suc m" by (cases n) simp_all
  have p: "8 \<le> blen p" "blen p < 2 ^ 15" using Cons.prems by (simp_all add: good_packet_def)
  let ?post = "framed ps @ rest" and ?pre = "pre @ enc16_be (blen p)"
  have msg: "pre @ framed (p # ps) @ rest = ?pre @ p @ ?post" "pre @ framed (p # ps) @ rest = pre @ enc16_be (blen p) @ p @ ?post"
    "pre @ framed (p # ps) @ rest = (?pre @ p) @ framed ps @ rest" by (simp_all add: framed_def)
  have len: "run_state (frame_i16 (pre @ framed (p # ps) @ rest) (blen pre)) False = (blen p, False)"
    unfolding msg(2) using p by (intro run_i16_enc) simp_all
  have pkt: "run_state (read_packet (pre @ framed (p # ps) @ rest) (blen pre + 2) (blen p)) False = (packet_tick p, False)"
    unfolding msg(1) using run_read_packet [OF p(1), of ?pre ?post False] by (simp add: add.commute)
  have "parse_packets m (pre @ framed (p # ps) @ rest) (blen (?pre @ p)) (ticks @ [packet_tick p]) False =
      (ticks @ [packet_tick p]) @ map packet_tick ps"
    unfolding msg(3) using Cons.prems m by (intro Cons.IH) auto
  moreover have "blen (?pre @ p) = blen pre + 2 + blen p" by simp
  moreover have "blen (pre @ framed (p # ps) @ rest) \<ge> blen pre + 2 + blen p" unfolding msg(1) by simp
  ultimately show ?case using len pkt by (simp only: m parse_packets.simps prod.case if_False not_less [symmetric] append_assoc append_Cons append_Nil list.map) simp
qed

section \<open>Properties\<close>

text \<open>
  C18: On every well-formed message (a packet count, then each packet of 8 to 32767 bytes behind its length) the decoder
  returns exactly the documented meaning of each packet, in order: big-endian fields at their offsets, prices
  divided by the segment's divisor, depth only from full packets, levels without price left out. When the count
  promises more packets than the message holds, or the last packet is cut short, the complete ones are still
  decoded.
\<close>

theorem ParseBinary_decodes_messages:
  assumes "list_all good_packet ps" and "int (length ps) \<le> n" and "n < 2 ^ 15"
    and "int (length ps) = n \<or> cut_short rest"
  shows "ParseBinary (enc16_be n @ framed ps @ rest) = map packet_tick ps"
proof -
  have n: "0 \<le> n" using assms(2) by linarith
  have "run_state (frame_i16 (enc16_be n @ framed ps @ rest) 0) False = (n, False)"
    using run_i16_enc [of n "[]" "framed ps @ rest" False] n assms(3) by simp
  moreover have "parse_packets (nat n) (enc16_be n @ framed ps @ rest) 2 [] False = map packet_tick ps"
    using parse_packets_framed [of ps "nat n" rest "enc16_be n" "[]"] assms n by auto
  ultimately show ?thesis by (simp add: ParseBinary_def)
qed

definition ltp_packet :: "byte list" where
  "ltp_packet = [0, 0, 1, 2, 0, 0, 48, 57]"

theorem ParseBinary_decodes_messages_witness:
  "ParseBinary (enc16_be 2 @ framed [ltp_packet] @ [0]) = [packet_tick ltp_packet] \<and>
   t_Token (packet_tick ltp_packet) = 258 \<and> t_LastPrice (packet_tick ltp_packet) = f_dec 12345 2"
proof
  have 1: "list_all good_packet [ltp_packet]" by (simp add: good_packet_def ltp_packet_def)
  have 2: "int (length [ltp_packet]) \<le> 2" "(2 :: int) < 2 ^ 15" by simp_all
  have 3: "int (length [ltp_packet]) = 2 \<or> cut_short [0]" by (simp add: cut_short_def)
  show "ParseBinary (enc16_be 2 @ framed [ltp_packet] @ [0]) = [packet_tick ltp_packet]"
    using ParseBinary_decodes_messages [OF 1 2 3] by simp
  have v: "u32_at ltp_packet 0 = 258" "u32_at ltp_packet 4 = 12345"
    by (simp_all add: u32_at_def ltp_packet_def field_def be_val_def)
  have "scaled (f_of_int 100) 12345 = f_dec 12345 2" by code_simp
  then show "t_Token (packet_tick ltp_packet) = 258 \<and> t_LastPrice (packet_tick ltp_packet) = f_dec 12345 2"
    by (simp add: packet_tick_def Let_def v priceDivisor_def)
qed

end
