(* ===== verification/DhanWire.thy ===== *)
theory DhanWire
  imports Wire Market "HOL-Library.Monad_Syntax"
begin

text \<open>
  Dhan's exchange segments (\<^verbatim>\<open>internal/brokers/dhan/segments.go\<close>) and the decoder of its binary market feed
  (\<^verbatim>\<open>feeddecoder.go\<close>). Reads out of the buffer are unchecked in Go and would panic outside it: here they
  are \<open>None\<close>, so that a decoder that returns \<open>Some\<close> is one that does not panic. Error strings are the values they
  are formatted from.
\<close>

section \<open>Segments\<close>

type_synonym segment = string

definition SegmentIdxI :: segment where "SegmentIdxI = ''IDX_I''"
definition SegmentNSEEQ :: segment where "SegmentNSEEQ = ''NSE_EQ''"
definition SegmentNSEFNO :: segment where "SegmentNSEFNO = ''NSE_FNO''"
definition SegmentNSECurrency :: segment where "SegmentNSECurrency = ''NSE_CURRENCY''"
definition SegmentBSEEQ :: segment where "SegmentBSEEQ = ''BSE_EQ''"
definition SegmentBSEFNO :: segment where "SegmentBSEFNO = ''BSE_FNO''"
definition SegmentBSECurrency :: segment where "SegmentBSECurrency = ''BSE_CURRENCY''"
definition SegmentMCXComm :: segment where "SegmentMCXComm = ''MCX_COMM''"

lemmas segment_names = SegmentIdxI_def SegmentNSEEQ_def SegmentNSEFNO_def SegmentNSECurrency_def SegmentBSEEQ_def SegmentBSEFNO_def
  SegmentBSECurrency_def SegmentMCXComm_def

definition SegmentByCode :: "(int \<times> segment) list" where
  "SegmentByCode = [(0, SegmentIdxI), (1, SegmentNSEEQ), (2, SegmentNSEFNO), (3, SegmentNSECurrency), (4, SegmentBSEEQ),
     (5, SegmentMCXComm), (7, SegmentBSECurrency), (8, SegmentBSEFNO)]"

definition CodeBySegment :: "(segment \<times> int) list" where
  "CodeBySegment = [(SegmentIdxI, 0), (SegmentNSEEQ, 1), (SegmentNSEFNO, 2), (SegmentNSECurrency, 3), (SegmentBSEEQ, 4),
     (SegmentMCXComm, 5), (SegmentBSECurrency, 7), (SegmentBSEFNO, 8)]"

definition Segments :: "segment list" where
  "Segments = [SegmentIdxI, SegmentNSEEQ, SegmentNSEFNO, SegmentNSECurrency, SegmentBSEEQ, SegmentMCXComm, SegmentBSECurrency, SegmentBSEFNO]"

definition SegmentFromCode :: "int \<Rightarrow> segment option" where
  "SegmentFromCode code = map_of SegmentByCode code"

definition SegmentCode :: "segment \<Rightarrow> int option" where
  "SegmentCode s = map_of CodeBySegment s"

definition segment_valid :: "segment \<Rightarrow> bool" where
  "segment_valid s \<longleftrightarrow> map_of CodeBySegment s \<noteq> None"

text \<open>The label is trimmed and upper-cased first (on ASCII text, which all labels are).\<close>

definition SegmentFor :: "string \<Rightarrow> bool \<Rightarrow> segment option" where
  "SegmentFor exchange isIndex =
     (let ex = map to_upper (trim_space exchange)
      in if isIndex \<or> ex = ''INDICES'' \<or> ex = ''IDX_I'' \<or> ex = ''IDX'' then Some SegmentIdxI
         else if ex = ''NSE'' \<or> ex = ''NSE_EQ'' then Some SegmentNSEEQ
         else if ex = ''NFO'' \<or> ex = ''NSE_FNO'' then Some SegmentNSEFNO
         else if ex = ''CDS'' \<or> ex = ''NSE_CURRENCY'' then Some SegmentNSECurrency
         else if ex = ''BSE'' \<or> ex = ''BSE_EQ'' then Some SegmentBSEEQ
         else if ex = ''BFO'' \<or> ex = ''BSE_FNO'' then Some SegmentBSEFNO
         else if ex = ''BCD'' \<or> ex = ''BSE_CURRENCY'' then Some SegmentBSECurrency
         else if ex = ''MCX'' \<or> ex = ''MCX_COMM'' then Some SegmentMCXComm
         else None)"

definition InternalExchangeFor :: "segment \<Rightarrow> string" where
  "InternalExchangeFor s =
     (if s = SegmentNSEEQ then ''NSE'' else if s = SegmentNSEFNO then ''NFO'' else if s = SegmentNSECurrency then ''CDS''
      else if s = SegmentBSEEQ then ''BSE'' else if s = SegmentBSEFNO then ''BFO'' else if s = SegmentBSECurrency then ''BCD''
      else if s = SegmentMCXComm then ''MCX'' else if s = SegmentIdxI then ''INDICES'' else '''')"

section \<open>Packets\<close>

definition FeedCodeIndex :: int where "FeedCodeIndex = 1"
definition FeedCodeTicker :: int where "FeedCodeTicker = 2"
definition FeedCodeQuote :: int where "FeedCodeQuote = 4"
definition FeedCodeOI :: int where "FeedCodeOI = 5"
definition FeedCodePrevClose :: int where "FeedCodePrevClose = 6"
definition FeedCodeMarketStatus :: int where "FeedCodeMarketStatus = 7"
definition FeedCodeFull :: int where "FeedCodeFull = 8"
definition FeedCodeDisconnect :: int where "FeedCodeDisconnect = 50"

lemmas feed_codes = FeedCodeIndex_def FeedCodeTicker_def FeedCodeQuote_def FeedCodeOI_def FeedCodePrevClose_def FeedCodeMarketStatus_def
  FeedCodeFull_def FeedCodeDisconnect_def

definition HeaderBytes :: nat where "HeaderBytes = 8"
definition tickerBytes :: int where "tickerBytes = 16"
definition quoteBytes :: int where "quoteBytes = 50"
definition oiBytes :: int where "oiBytes = 12"
definition prevCloseBytes :: int where "prevCloseBytes = 16"
definition fullBytes :: int where "fullBytes = 162"
definition depthLevelBytes :: nat where "depthLevelBytes = 20"
definition depthLevels :: nat where "depthLevels = 5"
definition maxPackets :: nat where "maxPackets = 10000"

lemmas wire_sizes = HeaderBytes_def tickerBytes_def quoteBytes_def oiBytes_def prevCloseBytes_def fullBytes_def depthLevelBytes_def depthLevels_def

record packet =
  p_Code :: int
  p_Segment :: segment
  p_SegmentCode :: int
  p_SecurityID :: int
  p_LastPrice :: "f64 option"
  p_LastQuantity :: "int option"
  p_LastTradeTime :: "int option"
  p_AveragePrice :: "f64 option"
  p_Volume :: "int option"
  p_TotalBuyQuantity :: "int option"
  p_TotalSellQuantity :: "int option"
  p_OI :: "int option"
  p_OIDayHigh :: "int option"
  p_OIDayLow :: "int option"
  p_Open :: "f64 option"
  p_Close :: "f64 option"
  p_High :: "f64 option"
  p_Low :: "f64 option"
  p_PrevClose :: "f64 option"
  p_PrevOI :: "int option"
  p_Bids :: "depth_level list option"
  p_Asks :: "depth_level list option"
  p_DisconnectCode :: "int option"

definition zero_packet :: "int \<Rightarrow> segment \<Rightarrow> int \<Rightarrow> int \<Rightarrow> packet" where
  "zero_packet code seg segCode securityID = \<lparr>p_Code = code, p_Segment = seg, p_SegmentCode = segCode, p_SecurityID = securityID,
     p_LastPrice = None, p_LastQuantity = None, p_LastTradeTime = None, p_AveragePrice = None, p_Volume = None, p_TotalBuyQuantity = None,
     p_TotalSellQuantity = None, p_OI = None, p_OIDayHigh = None, p_OIDayLow = None, p_Open = None, p_Close = None, p_High = None,
     p_Low = None, p_PrevClose = None, p_PrevOI = None, p_Bids = None, p_Asks = None, p_DisconnectCode = None\<rparr>"

datatype packet_kind = TickerPacket | QuotePacket | OIPacket | PrevClosePacket | FullPacket

datatype decode_error =
    ShortFrame nat
  | ImplausibleCount
  | NonPositiveLength nat int
  | TruncatedPacket nat int nat
  | PacketTooShort packet_kind int int
  | UnknownCode int int

record decode_result =
  r_Packets :: "packet list"
  r_Errors :: "decode_error list"

section \<open>Reads\<close>

definition rd :: "nat \<Rightarrow> byte list \<Rightarrow> nat \<Rightarrow> int option" where
  "rd n buf off = (if off + n \<le> length buf then Some (le_val (field buf off n)) else None)"

definition rd_f32 :: "byte list \<Rightarrow> nat \<Rightarrow> f64 option" where
  "rd_f32 buf off = map_option float32_of_bits (rd 4 buf off)"

definition rd_i32 :: "byte list \<Rightarrow> nat \<Rightarrow> int option" where
  "rd_i32 buf off = map_option int32 (rd 4 buf off)"

definition rd_i16 :: "byte list \<Rightarrow> nat \<Rightarrow> int option" where
  "rd_i16 buf off = map_option int16 (rd 2 buf off)"

definition epochSeconds :: "byte list \<Rightarrow> nat \<Rightarrow> int option option" where
  "epochSeconds buf off = do { s \<leftarrow> rd_i32 buf off; Some (if s > 0 then Some (s * 1000) else None) }"

text \<open>\<^verbatim>\<open>math.Max(0, x)\<close> of a converted integer.\<close>

definition clamp0 :: "int \<Rightarrow> f64" where
  "clamp0 v = (if v > 0 then f_of_int v else f_zero)"

definition depth_side :: "f64 \<Rightarrow> int \<Rightarrow> int \<Rightarrow> depth_level list" where
  "depth_side price qty orders = (if f_lt f_zero price then [\<lparr>dl_Price = price, dl_Qty = clamp0 qty, dl_Orders = clamp0 orders\<rparr>] else [])"

fun read_depth_from :: "nat \<Rightarrow> byte list \<Rightarrow> nat \<Rightarrow> nat \<Rightarrow> depth_level list \<times> depth_level list \<Rightarrow> (depth_level list \<times> depth_level list) option" where
  "read_depth_from 0 buf start i acc = Some acc"
| "read_depth_from (Suc k) buf start i (bids, asks) =
     (let off = start + i * depthLevelBytes
      in if off + depthLevelBytes > length buf then Some (bids, asks)
         else do {
           bidQty \<leftarrow> rd_i32 buf off;
           askQty \<leftarrow> rd_i32 buf (off + 4);
           bidOrders \<leftarrow> rd_i16 buf (off + 8);
           askOrders \<leftarrow> rd_i16 buf (off + 10);
           bidPrice \<leftarrow> rd_f32 buf (off + 12);
           askPrice \<leftarrow> rd_f32 buf (off + 16);
           read_depth_from k buf start (Suc i) (bids @ depth_side bidPrice bidQty bidOrders, asks @ depth_side askPrice askQty askOrders)
         })"

definition readDepth :: "byte list \<Rightarrow> nat \<Rightarrow> (depth_level list \<times> depth_level list) option" where
  "readDepth buf start = read_depth_from depthLevels buf start 0 ([], [])"

section \<open>Decoding\<close>

definition quoteCore :: "byte list \<Rightarrow> nat \<Rightarrow> packet \<Rightarrow> packet option" where
  "quoteCore buf off p = do {
     lastPrice \<leftarrow> rd_f32 buf (off + 8);
     lastQty \<leftarrow> rd_i16 buf (off + 12);
     ltt \<leftarrow> epochSeconds buf (off + 14);
     avg \<leftarrow> rd_f32 buf (off + 18);
     volume \<leftarrow> rd_i32 buf (off + 22);
     sell \<leftarrow> rd_i32 buf (off + 26);
     buy \<leftarrow> rd_i32 buf (off + 30);
     Some (p\<lparr>p_LastPrice := Some lastPrice, p_LastQuantity := Some lastQty, p_LastTradeTime := ltt, p_AveragePrice := Some avg,
       p_Volume := Some volume, p_TotalSellQuantity := Some sell, p_TotalBuyQuantity := Some buy\<rparr>)
   }"

definition read_ohlc :: "byte list \<Rightarrow> nat \<Rightarrow> packet \<Rightarrow> packet option" where
  "read_ohlc buf off p = do {
     op \<leftarrow> rd_f32 buf off;
     cl \<leftarrow> rd_f32 buf (off + 4);
     hi \<leftarrow> rd_f32 buf (off + 8);
     lo \<leftarrow> rd_f32 buf (off + 12);
     Some (p\<lparr>p_Open := Some op, p_Close := Some cl, p_High := Some hi, p_Low := Some lo\<rparr>)
   }"

text \<open>The \<^verbatim>\<open>switch\<close> on the response code: a packet, or why it is not one.\<close>

definition decode_body :: "byte list \<Rightarrow> nat \<Rightarrow> int \<Rightarrow> packet \<Rightarrow> (decode_error + packet) option" where
  "decode_body buf off declared p =
     (let code = p_Code p in
      if code = FeedCodeTicker \<or> code = FeedCodeIndex then
        (if declared < tickerBytes then Some (Inl (PacketTooShort TickerPacket declared tickerBytes))
         else do { lp \<leftarrow> rd_f32 buf (off + 8); ltt \<leftarrow> epochSeconds buf (off + 12); Some (Inr (p\<lparr>p_LastPrice := Some lp, p_LastTradeTime := ltt\<rparr>)) })
      else if code = FeedCodeQuote then
        (if declared < quoteBytes then Some (Inl (PacketTooShort QuotePacket declared quoteBytes))
         else do { p1 \<leftarrow> quoteCore buf off p; p2 \<leftarrow> read_ohlc buf (off + 34) p1; Some (Inr p2) })
      else if code = FeedCodeOI then
        (if declared < oiBytes then Some (Inl (PacketTooShort OIPacket declared oiBytes))
         else do { oi \<leftarrow> rd_i32 buf (off + 8); Some (Inr (p\<lparr>p_OI := Some oi\<rparr>)) })
      else if code = FeedCodePrevClose then
        (if declared < prevCloseBytes then Some (Inl (PacketTooShort PrevClosePacket declared prevCloseBytes))
         else do { pc \<leftarrow> rd_f32 buf (off + 8); poi \<leftarrow> rd_i32 buf (off + 12); Some (Inr (p\<lparr>p_PrevClose := Some pc, p_PrevOI := Some poi\<rparr>)) })
      else if code = FeedCodeFull then
        (if declared < fullBytes then Some (Inl (PacketTooShort FullPacket declared fullBytes))
         else do {
           p1 \<leftarrow> quoteCore buf off p;
           oi \<leftarrow> rd_i32 buf (off + 34);
           high \<leftarrow> rd_i32 buf (off + 38);
           low \<leftarrow> rd_i32 buf (off + 42);
           p2 \<leftarrow> read_ohlc buf (off + 46) (p1\<lparr>p_OI := Some oi, p_OIDayHigh := Some high, p_OIDayLow := Some low\<rparr>);
           depth \<leftarrow> readDepth buf (off + 62);
           Some (Inr (p2\<lparr>p_Bids := Some (fst depth), p_Asks := Some (snd depth)\<rparr>))
         })
      else if code = FeedCodeMarketStatus then Some (Inr p)
      else if code = FeedCodeDisconnect then
        (if declared \<ge> 10 then do { dc \<leftarrow> rd_i16 buf (off + 8); Some (Inr (p\<lparr>p_DisconnectCode := Some dc\<rparr>)) }
         else Some (Inr (p\<lparr>p_DisconnectCode := Some 0\<rparr>)))
      else Some (Inl (UnknownCode code declared)))"

text \<open>The header: code, declared length, segment code and security id.\<close>

definition read_header :: "byte list \<Rightarrow> nat \<Rightarrow> (int \<times> packet) option" where
  "read_header buf off = do {
     code \<leftarrow> rd 1 buf off;
     declared \<leftarrow> rd_i16 buf (off + 1);
     segCode \<leftarrow> rd 1 buf (off + 3);
     securityID \<leftarrow> rd_i32 buf (off + 4);
     let seg = (case SegmentFromCode segCode of Some s \<Rightarrow> s | None \<Rightarrow> '''');
     Some (declared, zero_packet code seg segCode securityID)
   }"

definition add_result :: "decode_error + packet \<Rightarrow> decode_result \<Rightarrow> decode_result" where
  "add_result r res = (case r of Inl e \<Rightarrow> res\<lparr>r_Errors := r_Errors res @ [e]\<rparr> | Inr p \<Rightarrow> res\<lparr>r_Packets := r_Packets res @ [p]\<rparr>)"

function decode_loop :: "byte list \<Rightarrow> nat \<Rightarrow> nat \<Rightarrow> decode_result \<Rightarrow> decode_result option" where
  "decode_loop buf offset guard res =
     (if offset + HeaderBytes \<le> length buf then
        if Suc guard > maxPackets then Some (add_result (Inl ImplausibleCount) res)
        else case read_header buf offset of None \<Rightarrow> None
          | Some (declared, p) \<Rightarrow>
              if declared \<le> 0 then Some (add_result (Inl (NonPositiveLength offset declared)) res)
              else if int offset + declared > int (length buf)
              then Some (add_result (Inl (TruncatedPacket offset declared (length buf - offset))) res)
              else case decode_body buf offset declared p of None \<Rightarrow> None
                | Some r \<Rightarrow> decode_loop buf (offset + nat declared) (Suc guard) (add_result r res)
      else Some res)"
  by pat_completeness auto

termination
  by (relation "measure (\<lambda>(buf, offset, guard, res). length buf - offset)") (auto simp: HeaderBytes_def)

declare decode_loop.simps [simp del]

definition DecodeFeed :: "byte list \<Rightarrow> decode_result option" where
  "DecodeFeed buf =
     (let res = \<lparr>r_Packets = [], r_Errors = []\<rparr>
      in if length buf = 0 then Some res
         else if length buf < HeaderBytes then Some (add_result (Inl (ShortFrame (length buf))) res)
         else decode_loop buf 0 0 res)"

section \<open>Reads stay in the packet\<close>

lemma rd_in [simp]: "off + n \<le> length buf \<Longrightarrow> rd n buf off = Some (le_val (field buf off n))"
  by (simp add: rd_def)

lemma read_depth_total: "\<exists>d. read_depth_from k buf start i acc = Some d"
proof (induction k arbitrary: i acc)
  case (Suc k)
  then show ?case by (cases acc) (simp add: Let_def rd_i32_def rd_i16_def rd_f32_def depthLevelBytes_def)
qed simp

lemmas reads = rd_i32_def rd_i16_def rd_f32_def epochSeconds_def

lemma decode_body_total:
  assumes "int off + declared \<le> int (length buf)"
  shows "\<exists>r. decode_body buf off declared p = Some r"
proof -
  have "\<exists>bids asks. readDepth buf (off + 62) = Some (bids, asks)" using read_depth_total by (simp add: readDepth_def)
  then show ?thesis using assms by (auto simp: decode_body_def Let_def quoteCore_def read_ohlc_def reads wire_sizes)
qed

lemma read_header_total: "off + HeaderBytes \<le> length buf \<Longrightarrow> \<exists>d p. read_header buf off = Some (d, p)"
  by (simp add: read_header_def reads HeaderBytes_def Let_def)

lemma decode_loop_total: "\<exists>r. decode_loop buf offset guard res = Some r"
proof (induction buf offset guard res rule: decode_loop.induct)
  case (1 buf offset guard res)
  show ?case
  proof (cases "offset + HeaderBytes \<le> length buf \<and> \<not> Suc guard > maxPackets")
    case True
    then obtain d p where h: "read_header buf offset = Some (d, p)" using read_header_total by blast
    show ?thesis
    proof (cases "d \<le> 0 \<or> int offset + d > int (length buf)")
      case False
      then obtain r where "decode_body buf offset d p = Some r" using decode_body_total [of offset d buf p] by auto
      with False True h 1 show ?thesis by (subst decode_loop.simps) simp
    qed (use True h in \<open>subst decode_loop.simps, auto\<close>)
  qed (subst decode_loop.simps, auto)
qed

lemma rd_part: "k + n \<le> length p \<Longrightarrow> rd n (pre @ p @ post) (length pre + k) = rd n p k"
  using field_part [of k n p pre post] by (simp add: rd_def)

lemma reads_part:
  "k + 4 \<le> length p \<Longrightarrow> rd_i32 (pre @ p @ post) (length pre + k) = rd_i32 p k"
  "k + 2 \<le> length p \<Longrightarrow> rd_i16 (pre @ p @ post) (length pre + k) = rd_i16 p k"
  "k + 4 \<le> length p \<Longrightarrow> rd_f32 (pre @ p @ post) (length pre + k) = rd_f32 p k"
  "k + 4 \<le> length p \<Longrightarrow> epochSeconds (pre @ p @ post) (length pre + k) = epochSeconds p k"
  by (simp_all add: reads rd_part del: rd_in)

lemma read_depth_part:
  assumes "i + k \<le> 5" "162 \<le> length p"
  shows "read_depth_from k (pre @ p @ post) (length pre + 62) i acc = read_depth_from k p 62 i acc"
  using assms(1)
proof (induction k arbitrary: i acc)
  case (Suc k)
  have b: "62 + i * 20 + 20 \<le> length p" using Suc.prems assms(2) by simp
  have at: "length pre + 62 + i * 20 + j = length pre + (62 + i * 20 + j)" for j by simp
  note r = reads_part [of "62 + i * 20 + j" p pre post for j, folded at]
  have IH: "read_depth_from k (pre @ p @ post) (length pre + 62) (Suc i) a = read_depth_from k p 62 (Suc i) a" for a
    using Suc by simp
  show ?case using b r [of 0] r [of 4] r [of 8] r [of 10] r [of 12] r [of 16]
    by (cases acc) (simp add: depthLevelBytes_def IH Let_def)
qed simp

lemma core_part:
  "34 \<le> length p \<Longrightarrow> quoteCore (pre @ p @ post) (length pre) q = quoteCore p 0 q"
  "k + 16 \<le> length p \<Longrightarrow> read_ohlc (pre @ p @ post) (length pre + k) q = read_ohlc p k q"
  using reads_part [of 8 p pre post] reads_part [of 12 p pre post] reads_part [of 14 p pre post] reads_part [of 18 p pre post]
    reads_part [of 22 p pre post] reads_part [of 26 p pre post] reads_part [of 30 p pre post]
    reads_part [of k p pre post] reads_part [of "k + 4" p pre post] reads_part [of "k + 8" p pre post] reads_part [of "k + 12" p pre post]
  by (simp_all add: quoteCore_def read_ohlc_def add.assoc)

lemma decode_body_part: "decode_body (pre @ p @ post) (length pre) (int (length p)) q = decode_body p 0 (int (length p)) q"
proof -
  have depth: "162 \<le> length p \<Longrightarrow> readDepth (pre @ p @ post) (length pre + 62) = readDepth p 62"
    by (simp add: readDepth_def read_depth_part depthLevels_def)
  show ?thesis
    using depth core_part(1) [of p pre post q] core_part(2) [of 34 p pre post] core_part(2) [of 46 p pre post]
      reads_part [of 8 p pre post] reads_part [of 12 p pre post] reads_part [of 34 p pre post] reads_part [of 38 p pre post] reads_part [of 42 p pre post]
    by (simp add: decode_body_def Let_def wire_sizes)
qed

lemma read_header_part: "8 \<le> length p \<Longrightarrow> read_header (pre @ p @ post) (length pre) = read_header p 0"
  using rd_part [of 0 1 p pre post] rd_part [of 3 1 p pre post] reads_part [of 1 p pre post] reads_part [of 4 p pre post]
  by (simp add: read_header_def)

section \<open>Frames of whole packets\<close>

definition self_framed :: "byte list \<Rightarrow> bool" where
  "self_framed p \<longleftrightarrow> 8 \<le> length p \<and> int16 (le_val (field p 1 2)) = int (length p)"

definition empty_result :: decode_result where
  "empty_result = \<lparr>r_Packets = [], r_Errors = []\<rparr>"

definition decode_one :: "byte list \<Rightarrow> decode_error + packet" where
  "decode_one p = the (decode_body p 0 (int (length p)) (snd (the (read_header p 0))))"

lemma decode_step:
  assumes "self_framed p" "guard < maxPackets"
  shows "decode_loop (pre @ p @ post) (length pre) guard res =
    decode_loop (pre @ p @ post) (length (pre @ p)) (Suc guard) (add_result (decode_one p) res)"
proof -
  have len: "8 \<le> length p" and declared: "int16 (le_val (field p 1 2)) = int (length p)" using assms by (auto simp: self_framed_def)
  obtain q where h: "read_header p 0 = Some (int (length p), q)"
    using len declared by (simp add: read_header_def reads Let_def)
  obtain r where r: "decode_body p 0 (int (length p)) q = Some r" using decode_body_total [of 0 "int (length p)" p q] by auto
  have "read_header (pre @ p @ post) (length pre) = Some (int (length p), q)"
    using read_header_part [OF len, of pre post] h by simp
  moreover have "p \<noteq> []" using len by auto
  ultimately show ?thesis using len assms(2) r h
    by (subst decode_loop.simps) (simp add: decode_body_part decode_one_def HeaderBytes_def)
qed

lemma decode_loop_frames:
  assumes "list_all self_framed ps" "length rest < 8" "guard + length ps \<le> maxPackets"
  shows "decode_loop (pre @ concat ps @ rest) (length pre) guard res = Some (fold (add_result \<circ> decode_one) ps res)"
  using assms
proof (induction ps arbitrary: pre guard res)
  case Nil
  then show ?case by (subst decode_loop.simps) (simp add: HeaderBytes_def)
next
  case (Cons p ps)
  then have "decode_loop ((pre @ p) @ concat ps @ rest) (length (pre @ p)) (Suc guard) (add_result (decode_one p) res) =
      Some (fold (add_result \<circ> decode_one) ps (add_result (decode_one p) res))" by (intro Cons.IH) auto
  then show ?case using Cons.prems decode_step [of p guard pre "concat ps @ rest" res] by (simp add: comp_def)
qed

definition one_result :: "byte list \<Rightarrow> decode_result" where
  "one_result p = add_result (decode_one p) empty_result"

lemma decode_alone:
  assumes "self_framed p"
  shows "DecodeFeed p = Some (one_result p)"
proof -
  have "decode_loop ([] @ concat [p] @ []) (length ([] :: byte list)) 0 empty_result = Some (fold (add_result \<circ> decode_one) [p] empty_result)"
    by (rule decode_loop_frames) (use assms in \<open>simp_all add: maxPackets_def\<close>)
  moreover have "8 \<le> length p" using assms by (simp add: self_framed_def)
  ultimately show ?thesis by (auto simp: DecodeFeed_def Let_def HeaderBytes_def one_result_def empty_result_def)
qed

lemma fold_add_result:
  "fold (add_result \<circ> decode_one) ps res =
     \<lparr>r_Packets = r_Packets res @ concat (map (r_Packets \<circ> one_result) ps), r_Errors = r_Errors res @ concat (map (r_Errors \<circ> one_result) ps)\<rparr>"
  by (induction ps arbitrary: res) (auto simp: add_result_def one_result_def empty_result_def split: sum.splits)

section \<open>Segment tables\<close>

lemma segment_valid_iff: "segment_valid s \<longleftrightarrow> s \<in> set Segments"
  by (simp add: segment_valid_def CodeBySegment_def Segments_def)

lemma segment_roundtrip:
  assumes "segment_valid s"
  shows "Option.bind (SegmentCode s) SegmentFromCode = Some s \<and> SegmentFor (InternalExchangeFor s) False = Some s \<and> SegmentFor s False = Some s"
proof -
  consider "s = SegmentIdxI" | "s = SegmentNSEEQ" | "s = SegmentNSEFNO" | "s = SegmentNSECurrency" | "s = SegmentBSEEQ" | "s = SegmentMCXComm"
    | "s = SegmentBSECurrency" | "s = SegmentBSEFNO" using assms by (auto simp: segment_valid_iff Segments_def)
  then show ?thesis
    by cases (simp_all add: SegmentCode_def SegmentFromCode_def CodeBySegment_def SegmentByCode_def segment_names SegmentFor_def InternalExchangeFor_def
      trim_space_def is_space_def to_upper_def Let_def)
qed

lemma SegmentFor_valid: "SegmentFor ex isIndex = Some t \<Longrightarrow> segment_valid t"
  by (auto simp: SegmentFor_def Let_def segment_valid_iff Segments_def split: if_splits)

lemma SegmentFromCode_valid: "SegmentFromCode c = Some t \<Longrightarrow> segment_valid t \<and> SegmentCode t = Some c"
  by (auto simp: SegmentFromCode_def SegmentByCode_def SegmentCode_def segment_valid_def CodeBySegment_def segment_names split: if_splits)

section \<open>Properties\<close>

text \<open>
  C27: The decoder never panics: it returns a result for every byte string, whatever lengths and codes the bytes
  claim.
\<close>

theorem DecodeFeed_never_panics: "\<exists>r. DecodeFeed buf = Some r"
  using decode_loop_total by (simp add: DecodeFeed_def Let_def)

text \<open>
  A frame of up to 10000 packets decodes packet by packet: the packets and the errors are those each packet gives
  alone, in order, whatever precedes or follows it, and fewer than 8 trailing bytes are ignored. No packet can
  read or disturb another.
\<close>

theorem DecodeFeed_packetwise:
  assumes "list_all self_framed ps" "ps \<noteq> []" "length ps \<le> maxPackets" "length rest < 8"
  shows "\<exists>rs. map DecodeFeed ps = map Some rs \<and>
    DecodeFeed (concat ps @ rest) = Some \<lparr>r_Packets = concat (map r_Packets rs), r_Errors = concat (map r_Errors rs)\<rparr>"
proof -
  have long: "8 \<le> length (concat ps @ rest)" using assms(1,2) by (cases ps) (auto simp: self_framed_def)
  have "decode_loop ([] @ concat ps @ rest) (length ([] :: byte list)) 0 empty_result = Some (fold (add_result \<circ> decode_one) ps empty_result)"
    by (rule decode_loop_frames) (use assms in simp_all)
  moreover have "length (concat ps @ rest) \<noteq> 0" "\<not> length (concat ps @ rest) < HeaderBytes" using long unfolding HeaderBytes_def by linarith+
  ultimately have "DecodeFeed (concat ps @ rest) = Some (fold (add_result \<circ> decode_one) ps empty_result)"
    by (simp only: DecodeFeed_def Let_def if_False empty_result_def append_Nil list.size)
  moreover have "map DecodeFeed ps = map Some (map one_result ps)" using assms(1) by (auto simp: list_all_iff decode_alone)
  ultimately show ?thesis by (intro exI [of _ "map one_result ps"]) (simp add: fold_add_result empty_result_def)
qed

definition oi_packet :: "byte list" where
  "oi_packet = [5, 12, 0, 2, 57, 48, 0, 0, 100, 0, 0, 0]"

lemma oi_packet_framed: "self_framed oi_packet"
  by (simp add: self_framed_def oi_packet_def field_def int16_def)

theorem DecodeFeed_packetwise_witness:
  "\<exists>rs. map DecodeFeed [oi_packet, oi_packet] = map Some rs \<and> length rs = 2 \<and>
    DecodeFeed (concat [oi_packet, oi_packet] @ [0]) = Some \<lparr>r_Packets = concat (map r_Packets rs), r_Errors = concat (map r_Errors rs)\<rparr>"
proof -
  have "list_all self_framed [oi_packet, oi_packet]" "[oi_packet, oi_packet] \<noteq> []" "length [oi_packet, oi_packet] \<le> maxPackets" "length [0 :: byte] < 8"
    by (simp_all add: oi_packet_framed maxPackets_def)
  from DecodeFeed_packetwise [OF this] obtain rs where rs: "map DecodeFeed [oi_packet, oi_packet] = map Some rs"
    "DecodeFeed (concat [oi_packet, oi_packet] @ [0]) = Some \<lparr>r_Packets = concat (map r_Packets rs), r_Errors = concat (map r_Errors rs)\<rparr>" by blast
  moreover have "length rs = 2" using arg_cong [OF rs(1), of length] by simp
  ultimately show ?thesis by blast
qed

text \<open>
  Segment names, feed codes and exchange labels convert into each other without loss: every known segment has a
  code that decodes to it, its exchange label (also in lower case or with blanks around it) maps back to it, and
  whatever the conversions return is a known segment.
\<close>

theorem segment_conversions_roundtrip:
  "(segment_valid s \<longleftrightarrow> s \<in> set Segments) \<and> (segment_valid s \<longrightarrow> Option.bind (SegmentCode s) SegmentFromCode = Some s) \<and>
   (segment_valid s \<longrightarrow> SegmentFor (InternalExchangeFor s) False = Some s \<and> SegmentFor s False = Some s) \<and>
   (SegmentFor ex isIndex = Some t \<longrightarrow> segment_valid t) \<and> (SegmentFromCode c = Some t \<longrightarrow> segment_valid t \<and> SegmentCode t = Some c)"
  using segment_valid_iff [of s] segment_roundtrip [of s] SegmentFor_valid [of ex isIndex t] SegmentFromCode_valid [of c t] by blast

theorem segment_conversions_roundtrip_witness:
  "SegmentFor (InternalExchangeFor SegmentBSEFNO) False = Some SegmentBSEFNO"
  using segment_conversions_roundtrip [of SegmentBSEFNO "[]" False SegmentIdxI 0] by (simp add: segment_valid_def CodeBySegment_def segment_names)

end
