(* ===== verification/SessionStore.thy ===== *)
theory SessionStore
  imports Market
begin

text \<open>
  The market-data session store (\<^verbatim>\<open>internal/marketdata/session.go\<close>): token lists that browsers post once and
  then stream by id, bound to the broker and generation they were made for; the idle sweep, the eviction of
  the least recently used idle session at the cap; and the validation of posted token lists.

  Every operation runs under the store's mutex and is one function. The random id and the instants an
  operation reads are arguments. \<^verbatim>\<open>order\<close> is kept as in the code, so that an id drawn twice is modelled too.
\<close>

section \<open>State\<close>

definition DefaultSessionTTL_ms :: int where "DefaultSessionTTL_ms = 5 * 60 * 1000"
definition MaxSessions :: nat where "MaxSessions = 500"
definition MaxSessionTokens :: nat where "MaxSessionTokens = 4000"

record session =
  s_ID :: string
  s_Tokens :: "token list"
  s_Broker :: broker_id
  s_Generation :: int
  s_CreatedAt :: millis
  s_LastUsedAt :: millis
  s_Connections :: nat

datatype rejection = RejectNone | RejectNotFound | RejectStale

record store =
  st_sessions :: "(string \<times> session) list"
  st_order :: "string list"
  st_ttlMs :: int
  st_maxSessions :: nat

definition NewSessionStore :: "int \<Rightarrow> int \<Rightarrow> store" where
  "NewSessionStore ttl maxS = \<lparr>st_sessions = [], st_order = [], st_ttlMs = (if ttl > 0 then ttl else DefaultSessionTTL_ms),
     st_maxSessions = (if maxS > 0 then nat maxS else MaxSessions)\<rparr>"

section \<open>Operations\<close>

abbreviation find_session :: "store \<Rightarrow> string \<Rightarrow> session option" where
  "find_session s i \<equiv> map_of (st_sessions s) i"

definition deleteLocked :: "string \<Rightarrow> store \<Rightarrow> store" where
  "deleteLocked i s = s\<lparr>st_sessions := AList.delete i (st_sessions s), st_order := remove1 i (st_order s)\<rparr>"

definition idle_since :: "millis \<Rightarrow> session \<Rightarrow> bool" where
  "idle_since cutoff sess \<longleftrightarrow> s_Connections sess = 0 \<and> s_LastUsedAt sess < cutoff"

definition sweep_one :: "millis \<Rightarrow> string \<Rightarrow> store \<times> nat \<Rightarrow> store \<times> nat" where
  "sweep_one cutoff i sr = (case sr of (s, removed) \<Rightarrow>
     case find_session s i of None \<Rightarrow> (s, removed)
     | Some sess \<Rightarrow> if idle_since cutoff sess then (deleteLocked i s, Suc removed) else (s, removed))"

definition sweepLocked :: "millis \<Rightarrow> store \<Rightarrow> store \<times> nat" where
  "sweepLocked now s = (let cutoff = now - st_ttlMs s in fold (sweep_one cutoff) (st_order s) (s, 0))"

text \<open>The scan for the least recently used session without a stream; the earlier one on a tie.\<close>

fun oldest_idle :: "store \<Rightarrow> string list \<Rightarrow> session option \<Rightarrow> session option" where
  "oldest_idle s [] oldest = oldest"
| "oldest_idle s (i # is) oldest =
     (case find_session s i of None \<Rightarrow> oldest_idle s is oldest
      | Some sess \<Rightarrow>
          if s_Connections sess > 0 then oldest_idle s is oldest
          else case oldest of None \<Rightarrow> oldest_idle s is (Some sess)
            | Some o1 \<Rightarrow> if s_LastUsedAt sess < s_LastUsedAt o1 then oldest_idle s is (Some sess) else oldest_idle s is oldest)"

definition evictIfFullLocked :: "store \<Rightarrow> store" where
  "evictIfFullLocked s =
     (if length (st_sessions s) < st_maxSessions s then s
      else case oldest_idle s (st_order s) None of None \<Rightarrow> s | Some sess \<Rightarrow> deleteLocked (s_ID sess) s)"

definition Create :: "millis \<Rightarrow> millis \<Rightarrow> string \<Rightarrow> token list \<Rightarrow> broker_id \<Rightarrow> int \<Rightarrow> store \<Rightarrow> store \<times> session" where
  "Create sweepAt now i tokens broker generation s =
     (let s1 = evictIfFullLocked (fst (sweepLocked sweepAt s));
          sess = \<lparr>s_ID = i, s_Tokens = nub tokens, s_Broker = broker, s_Generation = generation, s_CreatedAt = now,
                  s_LastUsedAt = now, s_Connections = 0\<rparr>
      in (s1\<lparr>st_sessions := AList.update i sess (st_sessions s1), st_order := st_order s1 @ [i]\<rparr>, sess))"

definition put_session :: "string \<Rightarrow> session \<Rightarrow> store \<Rightarrow> store" where
  "put_session i sess s = s\<lparr>st_sessions := AList.update i sess (st_sessions s)\<rparr>"

definition Resolve :: "millis \<Rightarrow> millis \<Rightarrow> string \<Rightarrow> broker_id \<Rightarrow> int \<Rightarrow> store \<Rightarrow> store \<times> session option \<times> rejection" where
  "Resolve sweepAt now i broker generation s =
     (let s1 = fst (sweepLocked sweepAt s)
      in case find_session s1 i of None \<Rightarrow> (s1, None, RejectNotFound)
         | Some sess \<Rightarrow>
             if s_Broker sess \<noteq> broker \<or> s_Generation sess \<noteq> generation then (deleteLocked i s1, Some sess, RejectStale)
             else let sess' = sess\<lparr>s_LastUsedAt := now\<rparr> in (put_session i sess' s1, Some sess', RejectNone))"

definition Open :: "millis \<Rightarrow> string \<Rightarrow> store \<Rightarrow> store" where
  "Open now i s = (case find_session s i of None \<Rightarrow> s
     | Some sess \<Rightarrow> put_session i (sess\<lparr>s_Connections := Suc (s_Connections sess), s_LastUsedAt := now\<rparr>) s)"

definition Close :: "millis \<Rightarrow> string \<Rightarrow> store \<Rightarrow> store" where
  "Close now i s = (case find_session s i of None \<Rightarrow> s
     | Some sess \<Rightarrow> put_session i (sess\<lparr>s_Connections := (if s_Connections sess > 0 then s_Connections sess - 1 else s_Connections sess),
         s_LastUsedAt := now\<rparr>) s)"

definition Sweep :: "millis \<Rightarrow> store \<Rightarrow> store \<times> nat" where
  "Sweep now s = sweepLocked now s"

definition DropAll :: "store \<Rightarrow> store \<times> nat" where
  "DropAll s = (s\<lparr>st_sessions := [], st_order := []\<rparr>, length (st_sessions s))"

record session_stats =
  ss_Sessions :: nat
  ss_Connections :: nat
  ss_Tokens :: nat

definition Stats :: "store \<Rightarrow> session_stats" where
  "Stats s = \<lparr>ss_Sessions = length (st_sessions s), ss_Connections = sum_list (map (s_Connections \<circ> snd) (st_sessions s)),
     ss_Tokens = sum_list (map (\<lambda>(_, x). length (s_Tokens x)) (st_sessions s))\<rparr>"

definition Size :: "store \<Rightarrow> nat" where
  "Size s = length (st_sessions s)"

section \<open>Posted token lists\<close>

text \<open>A decoded JSON value, as far as the validation distinguishes: an array, a number, anything else.\<close>

datatype json = JArray "json list" | JNumber f64 | JOther

datatype token_error = NotAList | NoTokens | TooManyTokens nat nat | NotPositiveIntegers

definition token_number :: "json \<Rightarrow> token option" where
  "token_number v = (case v of JNumber f \<Rightarrow>
       if \<not> f_eq f f \<or> f_lt (f_of_int 9007199254740991) f \<or> \<not> f_eq f (f_of_int (f_trunc f)) \<or> f_le f f_zero then None else Some (f_trunc f)
     | _ \<Rightarrow> None)"

fun collect_tokens :: "json list \<Rightarrow> token list \<Rightarrow> token list option" where
  "collect_tokens [] out = Some out"
| "collect_tokens (v # vs) out = (case token_number v of None \<Rightarrow> None
     | Some t \<Rightarrow> if t \<notin> set out then collect_tokens vs (out @ [t]) else collect_tokens vs out)"

definition ParseTokenList :: "json \<Rightarrow> int \<Rightarrow> token_error + token list" where
  "ParseTokenList input limit0 =
     (let limit' = (if limit0 \<le> 0 then MaxSessionTokens else nat limit0)
      in case input of JArray arr \<Rightarrow>
           if length arr = 0 then Inl NoTokens
           else if length arr > limit' then Inl (TooManyTokens (length arr) limit')
           else (case collect_tokens arr [] of None \<Rightarrow> Inl NotPositiveIntegers | Some out \<Rightarrow> Inr out)
         | _ \<Rightarrow> Inl NotAList)"

section \<open>Runs\<close>

datatype sess_ev = ECreate millis millis string "token list" broker_id int | EResolve millis millis string broker_id int
  | EOpen millis string | EClose millis string | ESweep millis | EDropAll

fun sess_step :: "store \<Rightarrow> sess_ev \<Rightarrow> store" where
  "sess_step s (ECreate t1 t2 i ts b g) = fst (Create t1 t2 i ts b g s)"
| "sess_step s (EResolve t1 t2 i b g) = fst (Resolve t1 t2 i b g s)"
| "sess_step s (EOpen t i) = Open t i s"
| "sess_step s (EClose t i) = Close t i s"
| "sess_step s (ESweep t) = fst (Sweep t s)"
| "sess_step s EDropAll = fst (DropAll s)"

section \<open>What the operations do to the stored sessions\<close>

lemma find_delete [simp]: "find_session (deleteLocked i s) = (find_session s)(i := None)"
  by (simp add: deleteLocked_def delete_conv' fun_eq_iff)

lemma find_put [simp]: "find_session (put_session i x s) = (find_session s)(i \<mapsto> x)"
  by (simp add: put_session_def update_conv' fun_eq_iff)

lemma find_sweep_fold:
  "find_session (fst (fold (sweep_one c) is sr)) j =
     (if j \<in> set is \<and> (\<exists>x. find_session (fst sr) j = Some x \<and> idle_since c x) then None else find_session (fst sr) j)"
proof (induction "is" arbitrary: sr)
  case (Cons i "is")
  have "find_session (fst (sweep_one c i sr)) =
      (if \<exists>x. find_session (fst sr) i = Some x \<and> idle_since c x then (find_session (fst sr))(i := None) else find_session (fst sr))"
    by (auto simp: sweep_one_def split: prod.splits option.splits)
  then show ?case by (auto simp: Cons.IH)
qed simp

definition store_inv :: "store \<Rightarrow> bool" where
  "store_inv s \<longleftrightarrow> distinct (map fst (st_sessions s)) \<and> 0 < st_maxSessions s \<and> 0 < st_ttlMs s \<and>
     (\<forall>i x. find_session s i = Some x \<longrightarrow> s_ID x = i \<and> i \<in> set (st_order s) \<and> distinct (s_Tokens x))"

lemma find_sweep:
  assumes "store_inv s"
  shows "find_session (fst (sweepLocked now s)) j =
    (case find_session s j of None \<Rightarrow> None | Some x \<Rightarrow> if idle_since (now - st_ttlMs s) x then None else Some x)"
proof (cases "find_session s j")
  case (Some x)
  then have "j \<in> set (st_order s)" using assms by (auto simp: store_inv_def)
  then show ?thesis using Some by (simp add: sweepLocked_def Let_def find_sweep_fold)
qed (simp add: sweepLocked_def Let_def find_sweep_fold)

lemma store_inv_delete: "store_inv s \<Longrightarrow> store_inv (deleteLocked i s)"
  by (auto simp: store_inv_def deleteLocked_def delete_conv' distinct_delete in_set_remove1 split: if_splits)

lemma store_inv_put:
  "store_inv s \<Longrightarrow> find_session s i = Some y \<Longrightarrow> s_ID x = i \<Longrightarrow> distinct (s_Tokens x) \<Longrightarrow> store_inv (put_session i x s)"
  by (auto simp: store_inv_def put_session_def update_conv' distinct_update split: if_splits)

lemma store_inv_sweep: "store_inv s \<Longrightarrow> store_inv (fst (sweepLocked now s))"
proof -
  have "store_inv (fst sr) \<Longrightarrow> store_inv (fst (fold (sweep_one c) is sr))" for c "is" sr
    by (induction "is" arbitrary: sr) (auto simp: sweep_one_def store_inv_delete split: prod.splits option.splits)
  then show "store_inv s \<Longrightarrow> ?thesis" by (simp add: sweepLocked_def Let_def)
qed

text \<open>The victim is idle and nothing idle was used earlier; there is none only when every session has a stream.\<close>

lemma oldest_idle_spec:
  "(case oldest_idle s js old of
      None \<Rightarrow> old = None \<and> (\<forall>i \<in> set js. \<forall>x. find_session s i = Some x \<longrightarrow> s_Connections x > 0)
    | Some v \<Rightarrow> (old = Some v \<or> (\<exists>i \<in> set js. find_session s i = Some v \<and> s_Connections v = 0)) \<and>
        (\<forall>y. old = Some y \<longrightarrow> s_LastUsedAt v \<le> s_LastUsedAt y) \<and>
        (\<forall>i \<in> set js. \<forall>x. find_session s i = Some x \<and> s_Connections x = 0 \<longrightarrow> s_LastUsedAt v \<le> s_LastUsedAt x))"
proof (induction s js old rule: oldest_idle.induct)
  case (2 s i js old)
  then show ?case by (cases "find_session s i"; cases old) (force split: option.splits if_splits)+
qed (simp split: option.split)

lemma evict_cases:
  assumes "store_inv s"
  obtains (room) "length (st_sessions s) < st_maxSessions s" "evictIfFullLocked s = s"
  | (all_streaming) "st_maxSessions s \<le> length (st_sessions s)" "evictIfFullLocked s = s" "\<And>i x. find_session s i = Some x \<Longrightarrow> s_Connections x > 0"
  | (evicted) v where "st_maxSessions s \<le> length (st_sessions s)" "find_session s (s_ID v) = Some v" "s_Connections v = 0"
      "evictIfFullLocked s = deleteLocked (s_ID v) s" "\<And>i x. find_session s i = Some x \<Longrightarrow> s_Connections x = 0 \<Longrightarrow> s_LastUsedAt v \<le> s_LastUsedAt x"
proof (cases "length (st_sessions s) < st_maxSessions s")
  case True
  then show ?thesis by (intro room) (simp_all add: evictIfFullLocked_def)
next
  case False
  show ?thesis
  proof (cases "oldest_idle s (st_order s) None")
    case None
    then show ?thesis using False assms oldest_idle_spec [where s = s and js = "st_order s" and old = None]
      by (intro all_streaming) (auto simp: evictIfFullLocked_def store_inv_def)
  next
    case (Some v)
    then show ?thesis using False assms oldest_idle_spec [where s = s and js = "st_order s" and old = None]
      by (intro evicted [of v]) (auto simp: evictIfFullLocked_def store_inv_def)
  qed
qed

lemma store_inv_evict: "store_inv s \<Longrightarrow> store_inv (evictIfFullLocked s)"
  by (auto simp: evictIfFullLocked_def store_inv_delete split: option.splits)

lemma store_inv_create: "store_inv s \<Longrightarrow> store_inv (fst (Create t1 t2 i ts b g s))"
  using store_inv_evict [OF store_inv_sweep, of s t1]
  by (auto simp: Create_def Let_def store_inv_def update_conv' distinct_update split: if_splits)

lemma store_inv_touch:
  assumes "store_inv s" "find_session s i = Some x"
  shows "store_inv (put_session i (x\<lparr>s_LastUsedAt := t\<rparr>) s)" "store_inv (put_session i (x\<lparr>s_Connections := n, s_LastUsedAt := t\<rparr>) s)"
proof -
  have "s_ID x = i" "distinct (s_Tokens x)" using assms by (auto simp: store_inv_def)
  then show "store_inv (put_session i (x\<lparr>s_LastUsedAt := t\<rparr>) s)" "store_inv (put_session i (x\<lparr>s_Connections := n, s_LastUsedAt := t\<rparr>) s)"
    using store_inv_put [OF assms] by simp_all
qed

interpretation session_store: step_system sess_step store_inv
proof
  fix s ev assume inv: "store_inv s"
  show "store_inv (sess_step s ev)"
  proof (cases ev)
    case (EResolve t1 t2 i b g)
    show ?thesis unfolding EResolve using store_inv_sweep [OF inv, of t1]
      by (auto simp: Resolve_def Let_def store_inv_delete store_inv_touch split: option.split)
  next
    case EDropAll
    then show ?thesis using inv by (simp add: DropAll_def store_inv_def)
  qed (use inv in \<open>simp_all add: store_inv_create Sweep_def store_inv_sweep Open_def Close_def store_inv_touch split: option.split\<close>)
qed

section \<open>Sizes\<close>

lemma length_delete: "distinct (map fst m) \<Longrightarrow> map_of m k = Some v \<Longrightarrow> length (AList.delete k m) = length m - 1"
proof (induction m)
  case (Cons p m)
  then show ?case
  proof (cases "fst p = k")
    case True
    then have "map_of m k = None" using Cons.prems by (cases p) (auto simp: map_of_eq_None_iff)
    then have "AList.delete k m = m" by (simp add: delete_idem map_of_eq_None_iff)
    then show ?thesis using True by (cases p) simp
  next
    case False
    then have "map_of m k = Some v" using Cons.prems by (cases p) simp
    then have "0 < length m" by (cases m) simp_all
    then show ?thesis using False Cons \<open>map_of m k = Some v\<close> by (cases p) simp
  qed
qed simp

lemma length_update: "length (AList.update k v m) \<le> Suc (length m)"
  by (induction m) (auto split: if_splits)

lemma sweep_shrinks: "length (st_sessions (fst (sweepLocked now s))) \<le> length (st_sessions s)"
proof -
  have "length (st_sessions (fst (fold (sweep_one c) is sr))) \<le> length (st_sessions (fst sr))" for c "is" sr
  proof (induction "is" arbitrary: sr)
    case (Cons i "is")
    have "length (st_sessions (fst (sweep_one c i sr))) \<le> length (st_sessions (fst sr))"
      by (auto simp: sweep_one_def deleteLocked_def length_delete_le split: prod.splits option.splits)
    then show ?case using Cons.IH [of "sweep_one c i sr"] by simp
  qed simp
  from this [of "now - st_ttlMs s" "st_order s" "(s, 0)"] show ?thesis by (simp add: sweepLocked_def Let_def)
qed

lemma sweep_fields [simp]: "st_maxSessions (fst (sweepLocked now s)) = st_maxSessions s"
proof -
  have "st_maxSessions (fst (fold (sweep_one c) is sr)) = st_maxSessions (fst sr)" for c "is" sr
    by (induction "is" arbitrary: sr) (auto simp: sweep_one_def deleteLocked_def split: prod.splits option.splits)
  then show ?thesis by (simp add: sweepLocked_def Let_def)
qed

lemma find_create:
  "find_session (fst (Create t1 t2 i ts b g s)) =
     (find_session (evictIfFullLocked (fst (sweepLocked t1 s))))(i \<mapsto> snd (Create t1 t2 i ts b g s))"
  by (simp add: Create_def Let_def update_conv' fun_eq_iff)

lemma created [simp]:
  "s_Tokens (snd (Create t1 t2 i ts b g s)) = nub ts" "s_Broker (snd (Create t1 t2 i ts b g s)) = b"
  "s_Generation (snd (Create t1 t2 i ts b g s)) = g" "s_ID (snd (Create t1 t2 i ts b g s)) = i"
  by (simp_all add: Create_def Let_def)

text \<open>How a creation can lose another session.\<close>

lemma create_loses:
  assumes inv: "store_inv s" and x: "find_session s j = Some x" and "j \<noteq> i" and gone: "find_session (fst (Create t1 t2 i ts b g s)) j = None"
  shows "s_Connections x = 0 \<and> (idle_since (t1 - st_ttlMs s) x \<or> st_maxSessions s \<le> Size s \<and>
    (\<forall>k y. find_session s k = Some y \<longrightarrow> idle_since (t1 - st_ttlMs s) y \<or> s_Connections y > 0 \<or> s_LastUsedAt x \<le> s_LastUsedAt y))"
proof (cases "idle_since (t1 - st_ttlMs s) x")
  case False
  let ?s1 = "fst (sweepLocked t1 s)"
  note sw = find_sweep [OF inv, of t1]
  have x1: "find_session ?s1 j = Some x" using False x by (simp add: sw)
  have gone': "find_session (evictIfFullLocked ?s1) j = None" using gone \<open>j \<noteq> i\<close> by (simp add: find_create)
  from store_inv_sweep [OF inv, of t1] show ?thesis
  proof (cases rule: evict_cases)
    case (evicted v)
    then have v: "x = v" using gone' x1 by (auto split: if_splits)
    have "s_LastUsedAt x \<le> s_LastUsedAt y" if "find_session s k = Some y" "\<not> idle_since (t1 - st_ttlMs s) y" "s_Connections y = 0" for k y
      using evicted(5) [of k y] that v by (simp add: sw)
    then show ?thesis using evicted(1,3) v sweep_shrinks [of t1 s] by (auto simp: Size_def)
  qed (use gone' x1 in simp_all)
qed (simp add: idle_since_def)

lemma create_size:
  assumes inv: "store_inv s"
  shows "Size (fst (Create t1 t2 i ts b g s)) \<le> max (st_maxSessions s) (Size s) \<or>
    (\<forall>j x. j \<noteq> i \<longrightarrow> find_session (fst (Create t1 t2 i ts b g s)) j = Some x \<longrightarrow> s_Connections x > 0)"
proof -
  let ?s1 = "fst (sweepLocked t1 s)"
  have size: "Size (fst (Create t1 t2 i ts b g s)) \<le> Suc (length (st_sessions (evictIfFullLocked ?s1)))"
    using length_update by (simp add: Create_def Let_def Size_def)
  have inv1: "store_inv ?s1" by (rule store_inv_sweep [OF inv])
  from inv1 show ?thesis
  proof (cases rule: evict_cases)
    case room
    then show ?thesis using size by (simp add: le_max_iff_disj)
  next
    case all_streaming
    then show ?thesis by (auto simp: find_create)
  next
    case (evicted v)
    have "distinct (map fst (st_sessions ?s1))" using inv1 by (simp add: store_inv_def)
    then have "length (st_sessions (evictIfFullLocked ?s1)) = length (st_sessions ?s1) - 1"
      using evicted(2,4) by (simp add: deleteLocked_def length_delete)
    moreover have "st_sessions ?s1 \<noteq> []" using evicted(2) by auto
    ultimately show ?thesis using size sweep_shrinks [of t1 s] by (auto simp: le_max_iff_disj Size_def)
  qed
qed

section \<open>Sessions with a stream\<close>

definition streams :: "string \<Rightarrow> token list \<Rightarrow> broker_id \<Rightarrow> int \<Rightarrow> store \<Rightarrow> bool" where
  "streams i ts b g s \<longleftrightarrow> store_inv s \<and>
     (\<exists>x. find_session s i = Some x \<and> s_Tokens x = ts \<and> s_Broker x = b \<and> s_Generation x = g \<and> s_Connections x > 0)"

text \<open>The events that do not end a stream or the session's validity.\<close>

fun spares :: "string \<Rightarrow> broker_id \<Rightarrow> int \<Rightarrow> sess_ev \<Rightarrow> bool" where
  "spares i b g (ECreate _ _ j _ _ _) \<longleftrightarrow> j \<noteq> i"
| "spares i b g (EResolve _ _ j b' g') \<longleftrightarrow> j = i \<longrightarrow> b' = b \<and> g' = g"
| "spares i b g (EClose _ j) \<longleftrightarrow> j \<noteq> i"
| "spares i b g EDropAll \<longleftrightarrow> False"
| "spares i b g _ \<longleftrightarrow> True"

lemma sweep_spares:
  assumes "store_inv s" "find_session s i = Some x" "s_Connections x > 0"
  shows "find_session (fst (sweepLocked t s)) i = Some x"
  using find_sweep [OF assms(1), of t i] assms by (simp add: idle_since_def)

interpretation streaming: guarded_steps sess_step "streams i ts b g" "spares i b g" for i ts b g
proof
  fix s ev assume st: "streams i ts b g s" and sp: "spares i b g ev"
  then obtain x where inv: "store_inv s" and x: "find_session s i = Some x" "s_Tokens x = ts" "s_Broker x = b" "s_Generation x = g" "s_Connections x > 0"
    by (auto simp: streams_def)
  have inv': "store_inv (sess_step s ev)" by (rule session_store.step_inv [OF inv])
  note sw = sweep_spares [OF inv x(1) x(5)]
  have "\<exists>x. find_session (sess_step s ev) i = Some x \<and> s_Tokens x = ts \<and> s_Broker x = b \<and> s_Generation x = g \<and> s_Connections x > 0"
  proof (cases ev)
    case (ECreate t1 t2 j us b' g')
    then have "find_session (sess_step s ev) i = Some x"
      using create_loses [OF inv x(1), of j t1 t2 us b' g'] sp x sw store_inv_sweep [OF inv, of t1]
      by (auto simp: find_create elim!: evict_cases split: if_splits)
    then show ?thesis using x by blast
  next
    case (EResolve t1 t2 j b' g')
    show ?thesis using EResolve sp x sw [of t1] by (cases "j = i") (auto simp: Resolve_def Let_def split: option.split)
  qed (use sp x sw in \<open>auto simp: Open_def Close_def Sweep_def split: option.split\<close>)
  then show "streams i ts b g (sess_step s ev)" using inv' by (simp add: streams_def)
qed

section \<open>Token numbers\<close>

lemma token_number_iff:
  assumes "f_wf f"
  shows "token_number (JNumber f) = Some t \<longleftrightarrow> 0 < t \<and> t < 2 ^ 53 \<and> f_eq f (f_of_int t)"
proof
  have top: "f_num (f_of_int 9007199254740991)" "f_key (f_of_int 9007199254740991) = 9007199254740991 * 2 ^ 1074"
    using f_of_int_key [of 9007199254740991] by simp_all
  have zero: "f_num f_zero" "f_key f_zero = 0" by (simp_all add: f_zero_def f_num_def)
  have num: "f_num f" if "f_eq f f" using that assms by (auto simp: f_num_def f_eq_def f_le_def is_nan_def)
  assume "token_number (JNumber f) = Some t"
  then have c: "f_eq f f" "\<not> f_lt (f_of_int 9007199254740991) f" "f_eq f (f_of_int (f_trunc f))" "\<not> f_le f f_zero" and t: "t = f_trunc f"
    by (auto simp: token_number_def split: if_splits)
  have k: "f_key f \<le> 9007199254740991 * 2 ^ 1074" "0 < f_key f" using c num top zero by (auto simp: f_lt_num f_le_num)
  have fin: "f_finite f" using k num c(1) by (cases f) (auto simp: f_num_def signed_def split: if_splits)
  have "f_trunc f = f_key f div 2 ^ 1074" using f_trunc_key [OF assms fin] k by simp
  moreover have "f_key f div 2 ^ 1074 \<le> 9007199254740991 * 2 ^ 1074 div 2 ^ 1074" by (rule zdiv_mono1 [OF k(1)]) simp
  ultimately have hi: "f_trunc f \<le> 9007199254740991" "0 \<le> f_trunc f" using k by (simp_all add: pos_imp_zdiv_nonneg_iff)
  have "f_trunc f \<noteq> 0" using c(3) k num [OF c(1)] f_of_int_key [of 0] by (auto simp: f_eq_num)
  then show "0 < t \<and> t < 2 ^ 53 \<and> f_eq f (f_of_int t)" using hi t c(3) by simp
next
  assume h: "0 < t \<and> t < 2 ^ 53 \<and> f_eq f (f_of_int t)"
  then have ft: "f_num (f_of_int t)" "f_key (f_of_int t) = t * 2 ^ 1074" using f_of_int_key [of t] by simp_all
  have num: "f_num f" using h assms by (auto simp: f_num_def f_eq_def f_le_def is_nan_def)
  then have key: "f_key f = t * 2 ^ 1074" using h ft by (simp add: f_eq_num)
  have top: "f_num (f_of_int 9007199254740991)" "f_key (f_of_int 9007199254740991) = 9007199254740991 * 2 ^ 1074"
    using f_of_int_key [of 9007199254740991] by simp_all
  have zero: "f_num f_zero" "f_key f_zero = 0" by (simp_all add: f_zero_def f_num_def)
  have small: "t * 2 ^ 1074 \<le> 9007199254740991 * 2 ^ 1074" using h by (intro mult_right_mono) auto
  have fin: "f_finite f" using key small num h by (cases f) (auto simp: f_num_def signed_def split: if_splits)
  have tr: "f_trunc f = t" using f_trunc_key [OF assms fin] key h by simp
  have "f_eq f f" "\<not> f_lt (f_of_int 9007199254740991) f" "\<not> f_le f f_zero"
    using num top zero key small h by (simp_all add: f_cmp_num not_less)
  then show "token_number (JNumber f) = Some t" using tr h by (simp add: token_number_def)
qed

lemma collect_tokens_iff:
  "collect_tokens vs acc = Some out \<longleftrightarrow> (\<exists>ts. map token_number vs = map Some ts \<and> out = acc @ nub_acc acc ts)"
proof (induction vs acc rule: collect_tokens.induct)
  case (2 v vs acc)
  have c: "nub_acc (acc @ [t]) ts = nub_acc (t # acc) ts" for t ts by (rule nub_acc_cong) simp
  show ?case
  proof (cases "token_number v")
    case (Some t)
    have ex: "(\<exists>ts. map token_number (v # vs) = map Some ts \<and> Q ts) \<longleftrightarrow> (\<exists>ts. map token_number vs = map Some ts \<and> Q (t # ts))" for Q
      using Some by (auto simp: Cons_eq_map_conv)
    show ?thesis unfolding ex using Some 2 c by (cases "t \<in> set acc") simp_all
  qed (auto simp: Cons_eq_map_conv)
qed auto

section \<open>Properties\<close>

lemma NewSessionStore_inv: "store_inv (NewSessionStore ttl mx)"
  by (simp add: store_inv_def NewSessionStore_def DefaultSessionTTL_ms_def MaxSessions_def)

text \<open>
  C28: A session with an open stream keeps resolving, with the tokens it was created with (duplicates dropped), through any
  later traffic: no sweep, eviction or other session's life can take it away, until its stream closes, all
  sessions are dropped, or someone resolves it for another broker or generation.
\<close>

theorem session_with_stream_survives:
  assumes "s = foldl sess_step (NewSessionStore ttl mx) evs"
    and "s1 = Open t3 i (fst (Create t1 t2 i tokens b g s))" and "list_all (spares i b g) later"
  shows "\<exists>s' x. Resolve t4 t5 i b g (foldl sess_step s1 later) = (s', Some x, RejectNone) \<and> s_Tokens x = nub tokens"
proof -
  have inv: "store_inv s" using assms(1) session_store.run_inv [OF NewSessionStore_inv] by simp
  have "store_inv s1" using session_store.step_inv [OF store_inv_create [OF inv], where e = "EOpen t3 i"] assms(2) by simp
  moreover have "find_session (fst (Create t1 t2 i tokens b g s)) i = Some (snd (Create t1 t2 i tokens b g s))" by (simp add: find_create)
  ultimately have "streams i (nub tokens) b g s1" using assms(2) by (auto simp: streams_def Open_def)
  from streaming.guarded_run_inv [OF this assms(3)] show ?thesis
    using sweep_spares by (auto simp: streams_def Resolve_def Let_def)
qed

theorem session_with_stream_survives_witness:
  "\<exists>s' x. Resolve 0 0 ''a'' Dhan 1 (foldl sess_step (Open 0 ''a'' (fst (Create 0 0 ''a'' [7, 8, 7] Dhan 1 (foldl sess_step (NewSessionStore 10 1) []))))
     [ECreate 0 0 ''b'' [9] Dhan 1, ESweep 1000000, ECreate 0 0 ''c'' [9] Dhan 1]) = (s', Some x, RejectNone) \<and> s_Tokens x = nub [7, 8, 7]"
  by (rule session_with_stream_survives [OF refl refl]) simp

text \<open>
  Creating a session keeps the store within its cap unless every other session has an open stream, and costs another
  session only if that one has no stream and either went unused for longer than the TTL or, with the store
  full, was the least recently used of the idle ones.
\<close>

theorem create_respects_cap:
  assumes "s = foldl sess_step (NewSessionStore ttl mx) evs" and "s' = fst (Create t1 t2 i tokens b g s)"
  shows "(Size s' \<le> max (st_maxSessions s) (Size s) \<or> (\<forall>j x. j \<noteq> i \<longrightarrow> find_session s' j = Some x \<longrightarrow> s_Connections x > 0)) \<and>
    (find_session s j = Some x \<and> j \<noteq> i \<and> find_session s' j = None \<longrightarrow>
      s_Connections x = 0 \<and> (idle_since (t1 - st_ttlMs s) x \<or> st_maxSessions s \<le> Size s \<and>
        (\<forall>k y. find_session s k = Some y \<longrightarrow> idle_since (t1 - st_ttlMs s) y \<or> s_Connections y > 0 \<or> s_LastUsedAt x \<le> s_LastUsedAt y)))"
proof -
  have inv: "store_inv s" using assms(1) session_store.run_inv [OF NewSessionStore_inv] by simp
  show ?thesis using create_size [OF inv] create_loses [OF inv] assms(2) by blast
qed

definition full_store :: store where
  "full_store = foldl sess_step (NewSessionStore 10 1) [ECreate 1 1 ''a'' [7] Dhan 1]"

theorem create_respects_cap_witness:
  "find_session (fst (Create 2 2 ''b'' [9] Dhan 1 full_store)) ''a'' = None \<and> s_Connections (the (find_session full_store ''a'')) = 0"
proof -
  have a: "find_session full_store ''a'' \<noteq> None" "find_session (fst (Create 2 2 ''b'' [9] Dhan 1 full_store)) ''a'' = None" by code_simp+
  then obtain x where x: "find_session full_store ''a'' = Some x" by blast
  then show ?thesis
    using create_respects_cap [OF full_store_def refl, where ?t1.0 = 2 and ?t2.0 = 2 and i = "''b''" and tokens = "[9]" and b = Dhan and g = 1 and j = "''a''" and x = x] a
    by simp
qed

text \<open>
  C29: Resolving returns a session as usable only for the broker and generation it was created for; for any other it
  deletes the session, so that asking again reports it as unknown.
\<close>

theorem resolve_enforces_generation:
  assumes "s = foldl sess_step (NewSessionStore ttl mx) evs" and "Resolve t1 t2 i b g s = (s', r, why)"
  shows "(why = RejectNone \<longrightarrow> (\<exists>x. r = Some x \<and> s_ID x = i \<and> s_Broker x = b \<and> s_Generation x = g)) \<and>
    (why = RejectStale \<longrightarrow> (\<exists>x. r = Some x \<and> (s_Broker x \<noteq> b \<or> s_Generation x \<noteq> g)) \<and> snd (Resolve t3 t4 i b' g' s') = (None, RejectNotFound)) \<and>
    (why = RejectNotFound \<longrightarrow> find_session s' i = None)"
proof -
  have inv: "store_inv (fst (sweepLocked t1 s))" using assms(1) session_store.run_inv [OF NewSessionStore_inv] store_inv_sweep by simp
  show ?thesis using assms(2) inv find_sweep [OF store_inv_delete [OF inv], of t3 i i]
    by (auto simp: Resolve_def Let_def store_inv_def split: option.splits if_splits)
qed

theorem resolve_enforces_generation_witness:
  "\<exists>s' x. Resolve 1 1 ''a'' Zerodha 1 full_store = (s', Some x, RejectStale) \<and> snd (Resolve 1 1 ''a'' Dhan 1 s') = (None, RejectNotFound)"
proof -
  have "snd (snd (Resolve 1 1 ''a'' Zerodha 1 full_store)) = RejectStale" by code_simp
  then obtain s' r where r: "Resolve 1 1 ''a'' Zerodha 1 full_store = (s', r, RejectStale)" by (metis prod.collapse)
  from resolve_enforces_generation [OF full_store_def r, of 1 1 Dhan 1] r show ?thesis by auto
qed



end
