(* ===== verification/RateLimiter.thy ===== *)
theory RateLimiter
  imports Prelude
begin

text \<open>
  The fixed-window request limiter (\<^verbatim>\<open>internal/httpx/ratelimit.go\<close>). A request is an address and an instant;
  the map of buckets, the sweep that reclaims expired ones and the verdict are those of the code. Instants are
  those the limiter reads under its mutex, hence in order.

  The reference is one counter per address with no map and no sweep: an address's verdicts depend on its own
  requests alone.
\<close>

section \<open>The limiter\<close>

record bucket =
  bk_count :: nat
  bk_resetAt :: millis

record limiter =
  l_windowMs :: int
  l_max :: int
  l_buckets :: "(string \<times> bucket) list"
  l_lastSweep :: millis

definition NewLimiter :: "int \<Rightarrow> int \<Rightarrow> millis \<Rightarrow> limiter" where
  "NewLimiter window mx now = \<lparr>l_windowMs = window, l_max = mx, l_buckets = [], l_lastSweep = now\<rparr>"

definition limiter_sweep :: "millis \<Rightarrow> limiter \<Rightarrow> limiter" where
  "limiter_sweep now l =
     (if now - l_lastSweep l < l_windowMs l then l
      else l\<lparr>l_lastSweep := now, l_buckets := filter (\<lambda>(_, b). \<not> now > bk_resetAt b) (l_buckets l)\<rparr>)"

text \<open>The \<^verbatim>\<open>Retry-After\<close> seconds: the milliseconds left, rounded up.\<close>

definition retry_after :: "millis \<Rightarrow> bucket \<Rightarrow> int" where
  "retry_after now b = - ((now - bk_resetAt b) div 1000)"

definition Allow :: "millis \<Rightarrow> string \<Rightarrow> limiter \<Rightarrow> limiter \<times> bool \<times> int" where
  "Allow now ip l =
     (let l1 = limiter_sweep now l;
          b0 = (case map_of (l_buckets l1) ip of
                  None \<Rightarrow> \<lparr>bk_count = 0, bk_resetAt = now + l_windowMs l1\<rparr>
                | Some b \<Rightarrow> if now > bk_resetAt b then \<lparr>bk_count = 0, bk_resetAt = now + l_windowMs l1\<rparr> else b);
          b = b0\<lparr>bk_count := Suc (bk_count b0)\<rparr>;
          l2 = l1\<lparr>l_buckets := AList.update ip b (l_buckets l1)\<rparr>
      in if int (bk_count b) > l_max l2 then (l2, False, retry_after now b) else (l2, True, 0))"

fun limiter_run :: "(millis \<times> string) list \<Rightarrow> limiter \<Rightarrow> (bool \<times> int) list" where
  "limiter_run [] l = []"
| "limiter_run ((now, ip) # rs) l = (case Allow now ip l of (l', v) \<Rightarrow> v # limiter_run rs l')"

section \<open>The reference\<close>

text \<open>One address: the window opened by its first request after the last one ended, and the count in it.\<close>

fun window_verdicts :: "int \<Rightarrow> int \<Rightarrow> bucket option \<Rightarrow> millis list \<Rightarrow> (bool \<times> int) list" where
  "window_verdicts w mx b [] = []"
| "window_verdicts w mx b (now # ts) =
     (let b0 = (case b of Some x \<Rightarrow> if now > bk_resetAt x then \<lparr>bk_count = 0, bk_resetAt = now + w\<rparr> else x
                | None \<Rightarrow> \<lparr>bk_count = 0, bk_resetAt = now + w\<rparr>);
          b1 = b0\<lparr>bk_count := Suc (bk_count b0)\<rparr>
      in (if int (bk_count b1) > mx then (False, retry_after now b1) else (True, 0)) # window_verdicts w mx (Some b1) ts)"

definition of_ip :: "string \<Rightarrow> (millis \<times> string) list \<Rightarrow> millis list" where
  "of_ip ip rs = map fst (filter (\<lambda>r. snd r = ip) rs)"

definition verdicts_of :: "string \<Rightarrow> (millis \<times> string) list \<Rightarrow> (bool \<times> int) list \<Rightarrow> (bool \<times> int) list" where
  "verdicts_of ip rs vs = map snd (filter (\<lambda>p. snd (fst p) = ip) (zip rs vs))"

section \<open>Sweeping is unobservable\<close>

text \<open>Buckets agree with the reference up to expired ones, which may be missing.\<close>

definition same_bucket :: "millis \<Rightarrow> bucket option \<Rightarrow> bucket option \<Rightarrow> bool" where
  "same_bucket now b c \<longleftrightarrow> b = c \<or> b = None \<and> (\<exists>x. c = Some x \<and> bk_resetAt x < now)"

lemma same_bucket_later: "same_bucket now b c \<Longrightarrow> now \<le> later \<Longrightarrow> same_bucket later b c"
  by (auto simp: same_bucket_def)

lemma sweep_same:
  assumes "distinct (map fst (l_buckets l))" "same_bucket now (map_of (l_buckets l) ip) c"
  shows "same_bucket now (map_of (l_buckets (limiter_sweep now l)) ip) c"
proof (cases "map_of (l_buckets l) ip")
  case None
  then have "map_of (l_buckets (limiter_sweep now l)) ip = None"
    by (auto simp: limiter_sweep_def map_of_eq_None_iff)
  then show ?thesis using None assms(2) by simp
next
  case (Some b)
  then have "c = Some b" using assms(2) by (auto simp: same_bucket_def)
  moreover have "map_of (filter (\<lambda>(_, b). \<not> now > bk_resetAt b) (l_buckets l)) ip = (if now > bk_resetAt b then None else Some b)"
    using Some map_of_filter_val [OF assms(1), of "\<lambda>b. \<not> now > bk_resetAt b" ip] by simp
  ultimately show ?thesis using Some by (auto simp: limiter_sweep_def same_bucket_def)
qed

lemma sweep_distinct: "distinct (map fst (l_buckets l)) \<Longrightarrow> distinct (map fst (l_buckets (limiter_sweep now l)))"
  by (simp add: limiter_sweep_def distinct_fst_filter)

lemma sweep_keeps [simp]: "l_windowMs (limiter_sweep now l) = l_windowMs l" "l_max (limiter_sweep now l) = l_max l"
  by (simp_all add: limiter_sweep_def)

lemma limiter_run_ref:
  assumes "sorted (map fst rs)" "\<forall>r \<in> set rs. start \<le> fst r" "distinct (map fst (l_buckets l))"
    "same_bucket start (map_of (l_buckets l) ip) c"
  shows "verdicts_of ip rs (limiter_run rs l) = window_verdicts (l_windowMs l) (l_max l) c (of_ip ip rs)"
  using assms
proof (induction rs arbitrary: l c start)
  case (Cons r rs)
  obtain now q where r: "r = (now, q)" by (cases r)
  let ?l1 = "limiter_sweep now l"
  obtain l' v where a: "Allow now q l = (l', v)" by (cases "Allow now q l")
  have now: "sorted (map fst rs)" "\<forall>r \<in> set rs. now \<le> fst r" "start \<le> now" using Cons.prems r by auto
  have d: "distinct (map fst (l_buckets l'))" and keep: "l_windowMs l' = l_windowMs l" "l_max l' = l_max l"
    using a sweep_distinct [OF Cons.prems(3), of now] by (auto simp: Allow_def Let_def distinct_update split: if_splits)
  have same: "same_bucket now (map_of (l_buckets ?l1) ip) c"
    by (rule sweep_same [OF Cons.prems(3) same_bucket_later [OF Cons.prems(4) now(3)]])
  show ?case
  proof (cases "q = ip")
    case False
    then have "map_of (l_buckets l') ip = map_of (l_buckets ?l1) ip"
      using a by (auto simp: Allow_def Let_def update_conv' split: if_splits)
    with Cons.IH [OF now(1,2) d, of c] same have "verdicts_of ip rs (limiter_run rs l') = window_verdicts (l_windowMs l) (l_max l) c (of_ip ip rs)"
      by (simp add: keep)
    then show ?thesis using False r a by (simp add: verdicts_of_def of_ip_def)
  next
    case True
    define b1 where "b1 = (let b0 = (case c of Some x \<Rightarrow> if now > bk_resetAt x then \<lparr>bk_count = 0, bk_resetAt = now + l_windowMs l\<rparr> else x
        | None \<Rightarrow> \<lparr>bk_count = 0, bk_resetAt = now + l_windowMs l\<rparr>) in b0\<lparr>bk_count := Suc (bk_count b0)\<rparr>)"
    have b: "map_of (l_buckets l') ip = Some b1" "v = (if int (bk_count b1) > l_max l then (False, retry_after now b1) else (True, 0))"
      using a True same by (auto simp: Allow_def Let_def update_conv' b1_def same_bucket_def split: if_splits option.splits)
    have "verdicts_of ip rs (limiter_run rs l') = window_verdicts (l_windowMs l) (l_max l) (Some b1) (of_ip ip rs)"
      using Cons.IH [OF now(1,2) d, of "Some b1"] b(1) by (simp add: keep same_bucket_def)
    then show ?thesis using True r a b(2) by (simp add: verdicts_of_def of_ip_def b1_def Let_def)
  qed
qed (simp add: verdicts_of_def of_ip_def)

section \<open>One window\<close>

text \<open>All requests of an address within the window its first one opened.\<close>

lemma verdicts_in_window:
  assumes "\<forall>t \<in> set ts. t \<le> bk_resetAt b"
  shows "map fst (window_verdicts w mx (Some b) ts) = map (\<lambda>i. int (bk_count b + Suc i) \<le> mx) [0..<length ts]"
  using assms
proof (induction ts arbitrary: b)
  case (Cons t ts)
  have "map fst (window_verdicts w mx (Some (b\<lparr>bk_count := Suc (bk_count b)\<rparr>)) ts) =
      map (\<lambda>i. int (Suc (bk_count b) + Suc i) \<le> mx) [0..<length ts]" using Cons by simp
  then show ?case using Cons.prems by (simp add: Let_def upt_conv_Cons map_Suc_upt [symmetric] comp_def not_less del: upt_Suc map_Suc_upt)
qed simp

section \<open>Properties\<close>

text \<open>
  C31: Each address is limited by its own requests alone: whatever other traffic there is and whenever expired buckets
  are swept, its verdicts and retry times are those of a single counter that opens a window at a request
  after the previous window ended.
\<close>

theorem limiter_isolates_addresses:
  assumes "sorted (map fst rs)" and "\<forall>r \<in> set rs. t0 \<le> fst r"
  shows "verdicts_of ip rs (limiter_run rs (NewLimiter w mx t0)) = window_verdicts w mx None (of_ip ip rs)"
  using limiter_run_ref [OF assms, of "NewLimiter w mx t0" ip None] by (simp add: NewLimiter_def same_bucket_def)

definition two_clients :: "(millis \<times> string) list" where
  "two_clients = [(1, ''a''), (2, ''b''), (3, ''a''), (11, ''a''), (12, ''a'')]"

theorem limiter_isolates_addresses_witness:
  "verdicts_of ''a'' two_clients (limiter_run two_clients (NewLimiter 10 1 0)) = [(True, 0), (False, 1), (False, 0), (True, 0)]"
proof -
  have "sorted (map fst two_clients)" "\<forall>r \<in> set two_clients. 0 \<le> fst r" by (simp_all add: two_clients_def)
  from limiter_isolates_addresses [OF this, of "''a''" 10 1] show ?thesis
    by (simp add: of_ip_def two_clients_def Let_def retry_after_def)
qed

text \<open>
  Within one window exactly the first \<open>mx\<close> requests of an address pass, every later one is refused (refused
  requests count too), up to and including the window's last instant.
\<close>

theorem limiter_window_exact:
  assumes "sorted (map fst rs)" and "\<forall>r \<in> set rs. t0 \<le> fst r" and "of_ip ip rs = t # ts" and "\<forall>u \<in> set ts. u \<le> t + w"
  shows "map fst (verdicts_of ip rs (limiter_run rs (NewLimiter w mx t0))) = map (\<lambda>i. int i < mx) [0..<length (t # ts)]"
proof -
  have "map fst (window_verdicts w mx None (t # ts)) = (1 \<le> mx) # map (\<lambda>i. int (1 + Suc i) \<le> mx) [0..<length ts]"
    using verdicts_in_window [of ts "\<lparr>bk_count = 1, bk_resetAt = t + w\<rparr>" w mx] assms(4) by (auto simp: Let_def)
  also have "\<dots> = map (\<lambda>i. int i < mx) [0..<length (t # ts)]" by (auto simp: upt_conv_Cons map_Suc_upt [symmetric] comp_def simp del: upt_Suc map_Suc_upt)
  finally show ?thesis using limiter_run_ref [OF assms(1,2), of "NewLimiter w mx t0" ip None] assms(3) by (simp add: NewLimiter_def same_bucket_def)
qed

theorem limiter_window_exact_witness:
  "map fst (verdicts_of ''a'' two_clients (limiter_run two_clients (NewLimiter 20 2 0))) = [True, True, False, False]"
proof -
  have "sorted (map fst two_clients)" "\<forall>r \<in> set two_clients. 0 \<le> fst r" "of_ip ''a'' two_clients = 1 # [3, 11, 12]"
    "\<forall>u \<in> set [3, 11, 12]. u \<le> 1 + (20 :: int)" by (simp_all add: two_clients_def of_ip_def)
  from limiter_window_exact [OF this, of 2] show ?thesis by (simp add: upt_conv_Cons)
qed

end
