(* ===== verification/KvCache.thy ===== *)
theory KvCache
  imports Prelude
begin

text \<open>
  The PostgreSQL-backed cache with Redis commands (\<^verbatim>\<open>internal/kv/kv.go\<close>) over its two tables: \<^verbatim>\<open>kv_keys\<close> (a key and its
  expiry) and \<^verbatim>\<open>kv_fields\<close> (a value per key and field, deleted with its key). SQL statements act on the two tables
  as association lists; a command that fails inside its transaction leaves them unchanged. The instants a command
  reads are one argument.

  The specification is Redis: a map from keys to hashes with an expiry, where an expired key does not exist and a hash
  without fields disappears. The tables refine it.
\<close>

section \<open>Tables\<close>

type_synonym expiry = "millis option"

record kv_db =
  kv_keys :: "(string \<times> expiry) list"
  kv_fields :: "((string \<times> string) \<times> string) list"

record kv_cache =
  c_enabled :: bool
  c_db :: kv_db

definition Prefix :: string where "Prefix = ''calspread:''"
definition plainField :: string where "plainField = ''''"

definition key :: "string \<Rightarrow> string" where
  "key k = Prefix @ k"

definition alive :: "millis \<Rightarrow> expiry \<Rightarrow> bool" where
  "alive now e \<longleftrightarrow> (case e of None \<Rightarrow> True | Some t \<Rightarrow> t > now)"

definition expiry_of :: "millis \<Rightarrow> int \<Rightarrow> expiry" where
  "expiry_of now ttl = (if ttl \<le> 0 then None else Some (now + ttl))"

text \<open>\<^verbatim>\<open>delete from kv_keys where \<dots>\<close>, with the cascade to the fields.\<close>

definition delete_keys :: "(string \<Rightarrow> expiry \<Rightarrow> bool) \<Rightarrow> kv_db \<Rightarrow> kv_db" where
  "delete_keys P db = (let gone = map fst (filter (\<lambda>(k, e). P k e) (kv_keys db))
     in \<lparr>kv_keys = filter (\<lambda>(k, e). \<not> P k e) (kv_keys db), kv_fields = filter (\<lambda>((k, f), v). k \<notin> set gone) (kv_fields db)\<rparr>)"

section \<open>Commands\<close>

definition Get :: "millis \<Rightarrow> string \<Rightarrow> kv_cache \<Rightarrow> string option" where
  "Get now k c =
     (if \<not> c_enabled c then None
      else case (map_of (kv_fields (c_db c)) (key k, plainField), map_of (kv_keys (c_db c)) (key k)) of
        (Some v, Some e) \<Rightarrow> if alive now e then Some v else None | _ \<Rightarrow> None)"

definition HGetAll :: "millis \<Rightarrow> string \<Rightarrow> kv_cache \<Rightarrow> (string \<times> string) list" where
  "HGetAll now k c =
     (if \<not> c_enabled c then []
      else case map_of (kv_keys (c_db c)) (key k) of None \<Rightarrow> []
        | Some e \<Rightarrow> if alive now e then map (\<lambda>((_, f), v). (f, v)) (filter (\<lambda>((k', f), v). k' = key k) (kv_fields (c_db c))) else [])"

definition set_db :: "millis \<Rightarrow> string \<Rightarrow> string \<Rightarrow> int \<Rightarrow> kv_db \<Rightarrow> kv_db" where
  "set_db now k v ttl db =
     (let db1 = delete_keys (\<lambda>k' _. k' = key k) db
      in db1\<lparr>kv_keys := AList.update (key k) (expiry_of now ttl) (kv_keys db1), kv_fields := AList.update (key k, plainField) v (kv_fields db1)\<rparr>)"

definition ensureLive :: "millis \<Rightarrow> string \<Rightarrow> kv_db \<Rightarrow> kv_db" where
  "ensureLive now k db =
     (let db1 = delete_keys (\<lambda>k' e. k' = key k \<and> \<not> alive now e) db
      in if map_of (kv_keys db1) (key k) = None then db1\<lparr>kv_keys := AList.update (key k) None (kv_keys db1)\<rparr> else db1)"

definition hset_db :: "millis \<Rightarrow> string \<Rightarrow> (string \<times> string) list \<Rightarrow> kv_db \<Rightarrow> kv_db" where
  "hset_db now k fvs db =
     (let db1 = ensureLive now k db
      in db1\<lparr>kv_fields := fold (\<lambda>(f, v). AList.update (key k, f) v) fvs (kv_fields db1)\<rparr>)"

definition hdel_db :: "string \<Rightarrow> string list \<Rightarrow> kv_db \<Rightarrow> kv_db" where
  "hdel_db k fs db =
     (let db1 = db\<lparr>kv_fields := filter (\<lambda>((k', f), v). \<not> (k' = key k \<and> f \<in> set fs)) (kv_fields db)\<rparr>
      in delete_keys (\<lambda>k' _. k' = key k \<and> \<not> list_ex (\<lambda>((k'', f), v). k'' = key k) (kv_fields db1)) db1)"

definition expire_db :: "millis \<Rightarrow> string \<Rightarrow> int \<Rightarrow> kv_db \<Rightarrow> kv_db \<times> bool" where
  "expire_db now k ttl db =
     (case map_of (kv_keys db) (key k) of None \<Rightarrow> (db, False)
      | Some e \<Rightarrow> if alive now e then (db\<lparr>kv_keys := AList.update (key k) (expiry_of now ttl) (kv_keys db)\<rparr>, True) else (db, False))"

definition del_db :: "string list \<Rightarrow> kv_db \<Rightarrow> kv_db" where
  "del_db ks db = delete_keys (\<lambda>k' _. k' \<in> set (map key ks)) db"

definition purge_db :: "millis \<Rightarrow> kv_db \<Rightarrow> kv_db" where
  "purge_db now db = delete_keys (\<lambda>_ e. \<not> alive now e) db"

datatype kv_error = ErrDisabled | ErrTx

text \<open>\<^verbatim>\<open>inTx\<close>: all of it or nothing; \<open>ok\<close> is whether every statement and the commit succeed.\<close>

definition inTx :: "bool \<Rightarrow> (kv_db \<Rightarrow> kv_db) \<Rightarrow> kv_cache \<Rightarrow> kv_cache \<times> (kv_error + unit)" where
  "inTx ok fn c = (if ok then (c\<lparr>c_db := fn (c_db c)\<rparr>, Inr ()) else (c, Inl ErrTx))"

definition Set :: "bool \<Rightarrow> millis \<Rightarrow> string \<Rightarrow> string \<Rightarrow> int \<Rightarrow> kv_cache \<Rightarrow> kv_cache \<times> (kv_error + unit)" where
  "Set ok now k v ttl c = (if \<not> c_enabled c then (c, Inl ErrDisabled) else inTx ok (set_db now k v ttl) c)"

definition HSet :: "bool \<Rightarrow> millis \<Rightarrow> string \<Rightarrow> (string \<times> string) list \<Rightarrow> kv_cache \<Rightarrow> kv_cache \<times> (kv_error + unit)" where
  "HSet ok now k fvs c = (if \<not> c_enabled c then (c, Inl ErrDisabled) else if fvs = [] then (c, Inr ()) else inTx ok (hset_db now k fvs) c)"

definition HDel :: "bool \<Rightarrow> string \<Rightarrow> string list \<Rightarrow> kv_cache \<Rightarrow> kv_cache \<times> (kv_error + unit)" where
  "HDel ok k fs c = (if \<not> c_enabled c then (c, Inl ErrDisabled) else if fs = [] then (c, Inr ()) else inTx ok (hdel_db k fs) c)"

definition Expire :: "bool \<Rightarrow> millis \<Rightarrow> string \<Rightarrow> int \<Rightarrow> kv_cache \<Rightarrow> kv_cache \<times> bool \<times> (kv_error + unit)" where
  "Expire ok now k ttl c =
     (if \<not> c_enabled c then (c, False, Inl ErrDisabled)
      else if \<not> ok then (c, False, Inl ErrTx)
      else case expire_db now k ttl (c_db c) of (db, found) \<Rightarrow> (c\<lparr>c_db := db\<rparr>, found, Inr ()))"

definition Del :: "bool \<Rightarrow> string list \<Rightarrow> kv_cache \<Rightarrow> kv_cache \<times> (kv_error + unit)" where
  "Del ok ks c = (if \<not> c_enabled c then (c, Inl ErrDisabled) else inTx ok (del_db ks) c)"

definition Purge :: "bool \<Rightarrow> millis \<Rightarrow> kv_cache \<Rightarrow> kv_cache \<times> (kv_error + nat)" where
  "Purge ok now c =
     (if \<not> c_enabled c then (c, Inr 0) else if \<not> ok then (c, Inl ErrTx)
      else (c\<lparr>c_db := purge_db now (c_db c)\<rparr>, Inr (length (filter (\<lambda>(_, e). \<not> alive now e) (kv_keys (c_db c))))))"

section \<open>Redis\<close>

type_synonym redis = "string \<Rightarrow> ((string \<rightharpoonup> string) \<times> expiry) option"

definition redis_expire :: "millis \<Rightarrow> redis \<Rightarrow> redis" where
  "redis_expire now r = (\<lambda>k. case r k of None \<Rightarrow> None | Some (m, e) \<Rightarrow> if alive now e then Some (m, e) else None)"

datatype kv_cmd = SET string string int | HSET string "(string \<times> string) list" | HDEL string "string list"
  | EXPIRE string int | DEL "string list" | PURGE

definition put_fields :: "(string \<times> string) list \<Rightarrow> (string \<rightharpoonup> string) \<Rightarrow> (string \<rightharpoonup> string)" where
  "put_fields fvs m = m ++ map_of (rev fvs)"

lemma put_fields_simps [simp]: "put_fields [] m = m" "put_fields ((f, v) # fvs) m = put_fields fvs (m(f \<mapsto> v))"
  by (simp_all add: put_fields_def map_add_def fun_eq_iff split: option.split)

fun redis_cmd :: "millis \<Rightarrow> kv_cmd \<Rightarrow> redis \<Rightarrow> redis" where
  "redis_cmd now (SET k v ttl) r = r(k \<mapsto> ([plainField \<mapsto> v], expiry_of now ttl))"
| "redis_cmd now (HSET k fvs) r =
     (if fvs = [] then r
      else case r k of None \<Rightarrow> r(k \<mapsto> (put_fields fvs Map.empty, None))
        | Some (m, e) \<Rightarrow> r(k \<mapsto> (put_fields fvs m, e)))"
| "redis_cmd now (HDEL k fs) r =
     (case r k of None \<Rightarrow> r
      | Some (m, e) \<Rightarrow> let m' = m |` (- set fs) in r(k := if m' = Map.empty then None else Some (m', e)))"
| "redis_cmd now (EXPIRE k ttl) r = (case r k of None \<Rightarrow> r | Some (m, e) \<Rightarrow> r(k \<mapsto> (m, expiry_of now ttl)))"
| "redis_cmd now (DEL ks) r = (\<lambda>k. if k \<in> set ks then None else r k)"
| "redis_cmd now PURGE r = r"

fun kv_step :: "kv_cache \<Rightarrow> millis \<times> bool \<times> kv_cmd \<Rightarrow> kv_cache" where
  "kv_step c (now, ok, SET k v ttl) = fst (Set ok now k v ttl c)"
| "kv_step c (now, ok, HSET k fvs) = fst (HSet ok now k fvs c)"
| "kv_step c (now, ok, HDEL k fs) = fst (HDel ok k fs c)"
| "kv_step c (now, ok, EXPIRE k ttl) = fst (Expire ok now k ttl c)"
| "kv_step c (now, ok, DEL ks) = fst (Del ok ks c)"
| "kv_step c (now, ok, PURGE) = fst (Purge ok now c)"

definition redis_step :: "redis \<Rightarrow> millis \<times> bool \<times> kv_cmd \<Rightarrow> redis" where
  "redis_step r ev = (case ev of (now, ok, cmd) \<Rightarrow> if ok then redis_cmd now cmd (redis_expire now r) else r)"

text \<open>What the tables hold, expired keys included.\<close>

definition contents :: "kv_db \<Rightarrow> redis" where
  "contents db = (\<lambda>k. map_option (\<lambda>e. (\<lambda>f. map_of (kv_fields db) (key k, f), e)) (map_of (kv_keys db) (key k)))"

definition visible :: "millis \<Rightarrow> kv_db \<Rightarrow> redis" where
  "visible now db = redis_expire now (contents db)"

section \<open>The tables' invariant\<close>

declare map_of_eq_Some_iff [simp del] Some_eq_map_of_iff [simp del]

text \<open>Keys and fields are unique; every key row has a field and every field a key row.\<close>

definition kv_inv :: "kv_db \<Rightarrow> bool" where
  "kv_inv db \<longleftrightarrow> distinct (map fst (kv_keys db)) \<and> distinct (map fst (kv_fields db)) \<and>
     (\<forall>k. (\<exists>f. map_of (kv_fields db) (k, f) \<noteq> None) \<longleftrightarrow> map_of (kv_keys db) k \<noteq> None)"

lemma key_inject [simp]: "key a = key b \<longleftrightarrow> a = b"
  by (simp add: key_def)

lemma map_of_filter_key2:
  "map_of (filter (\<lambda>((k, f), v). Q k f) m) (k, f) = (if Q k f then map_of m (k, f) else None)"
  by (induction m) auto

lemma map_of_filter_pair:
  "distinct (map fst m) \<Longrightarrow> map_of (filter (\<lambda>(k, e). Q k e) m) k = (case map_of m k of None \<Rightarrow> None | Some e \<Rightarrow> if Q k e then Some e else None)"
  by (induction m) (auto simp: map_of_eq_None_iff rev_image_eqI split: option.splits)

lemma delete_keys_maps:
  assumes "distinct (map fst (kv_keys db))"
  shows "map_of (kv_keys (delete_keys P db)) k = (case map_of (kv_keys db) k of None \<Rightarrow> None | Some e \<Rightarrow> if P k e then None else Some e)"
    and "map_of (kv_fields (delete_keys P db)) (k, f) = (case map_of (kv_keys db) k of
      Some e \<Rightarrow> if P k e then None else map_of (kv_fields db) (k, f) | None \<Rightarrow> map_of (kv_fields db) (k, f))"
proof -
  show "map_of (kv_keys (delete_keys P db)) k = (case map_of (kv_keys db) k of None \<Rightarrow> None | Some e \<Rightarrow> if P k e then None else Some e)"
    using map_of_filter_pair [OF assms, of "\<lambda>k e. \<not> P k e" k] by (auto simp: delete_keys_def Let_def split: option.splits)
  have gone: "k \<in> set (map fst (filter (\<lambda>(k, e). P k e) (kv_keys db))) \<longleftrightarrow> (\<exists>e. map_of (kv_keys db) k = Some e \<and> P k e)"
    using assms by (force simp: map_of_eq_Some_iff)
  show "map_of (kv_fields (delete_keys P db)) (k, f) = (case map_of (kv_keys db) k of
      Some e \<Rightarrow> if P k e then None else map_of (kv_fields db) (k, f) | None \<Rightarrow> map_of (kv_fields db) (k, f))"
    using gone by (auto simp: delete_keys_def Let_def map_of_filter_key2 split: option.splits)
qed

lemma delete_keys_distinct:
  "distinct (map fst (kv_keys db)) \<Longrightarrow> distinct (map fst (kv_keys (delete_keys P db)))"
  "distinct (map fst (kv_fields db)) \<Longrightarrow> distinct (map fst (kv_fields (delete_keys P db)))"
  by (simp_all add: delete_keys_def Let_def distinct_fst_filter)

lemma kv_inv_delete:
  assumes "kv_inv db"
  shows "kv_inv (delete_keys P db)"
proof -
  have d: "distinct (map fst (kv_keys db))" "distinct (map fst (kv_fields db))"
    and fk: "(\<exists>f. map_of (kv_fields db) (k, f) \<noteq> None) \<longleftrightarrow> map_of (kv_keys db) k \<noteq> None" for k
    using assms by (auto simp: kv_inv_def)
  have "(\<exists>f. map_of (kv_fields (delete_keys P db)) (k, f) \<noteq> None) \<longleftrightarrow> map_of (kv_keys (delete_keys P db)) k \<noteq> None" for k
    using fk [of k] by (auto simp: delete_keys_maps [OF d(1)] split: option.splits)
  then show ?thesis using d by (simp add: kv_inv_def delete_keys_distinct)
qed

lemma kv_inv_ensureLive:
  assumes "kv_inv db"
  shows "distinct (map fst (kv_keys (ensureLive now k db)))" "distinct (map fst (kv_fields (ensureLive now k db)))"
    and "map_of (kv_keys (ensureLive now k db)) k' = (if k' = key k then Some (case map_of (kv_keys db) (key k) of Some e \<Rightarrow> if alive now e then e else None | None \<Rightarrow> None)
      else map_of (kv_keys db) k')"
    and "map_of (kv_fields (ensureLive now k db)) (k', f) =
      (if k' = key k \<and> (case map_of (kv_keys db) (key k) of Some e \<Rightarrow> \<not> alive now e | None \<Rightarrow> False) then None else map_of (kv_fields db) (k', f))"
proof -
  have d: "distinct (map fst (kv_keys db))" "distinct (map fst (kv_fields db))" using assms by (auto simp: kv_inv_def)
  note m = delete_keys_maps [OF d(1)]
  show "distinct (map fst (kv_keys (ensureLive now k db)))" "distinct (map fst (kv_fields (ensureLive now k db)))"
    using d by (simp_all add: ensureLive_def Let_def delete_keys_distinct distinct_update)
  show "map_of (kv_keys (ensureLive now k db)) k' = (if k' = key k then Some (case map_of (kv_keys db) (key k) of Some e \<Rightarrow> if alive now e then e else None | None \<Rightarrow> None)
      else map_of (kv_keys db) k')"
    by (auto simp: ensureLive_def Let_def m update_conv' split: option.splits)
  show "map_of (kv_fields (ensureLive now k db)) (k', f) =
      (if k' = key k \<and> (case map_of (kv_keys db) (key k) of Some e \<Rightarrow> \<not> alive now e | None \<Rightarrow> False) then None else map_of (kv_fields db) (k', f))"
    by (auto simp: ensureLive_def Let_def m split: option.splits)
qed

lemma fold_fields:
  "map_of (fold (\<lambda>(f, v). AList.update (k, f) v) fvs m) (k', f) =
     (if k' = k then put_fields fvs (\<lambda>f. map_of m (k, f)) f else map_of m (k', f))"
proof (induction fvs arbitrary: m)
  case (Cons p fvs)
  obtain f0 v0 where p: "p = (f0, v0)" by (cases p)
  have upd: "(\<lambda>f. map_of (AList.update (k, f0) v0 m) (k, f)) = (\<lambda>f. map_of m (k, f))(f0 \<mapsto> v0)"
    by (auto simp: update_conv' fun_eq_iff)
  have "map_of (AList.update (k, f0) v0 m) (k', f) = (if k' = k \<and> f = f0 then Some v0 else map_of m (k', f))" by (auto simp: update_conv')
  then show ?case using Cons.IH [of "AList.update (k, f0) v0 m"] by (simp add: p upd)
qed simp

lemma distinct_fold_update: "distinct (map fst m) \<Longrightarrow> distinct (map fst (fold (\<lambda>(f, v). AList.update (k, f) v) fvs m))"
  by (induction fvs arbitrary: m) (auto simp: distinct_update)

lemma fold_upd_dom: "dom (put_fields fvs m) = dom m \<union> fst ` set fvs"
  by (simp add: put_fields_def dom_map_of_conv_image_fst Un_commute)

lemma hdel_maps:
  assumes "kv_inv db"
  shows "map_of (kv_fields (hdel_db k fs db)) (k', f) = (if k' = key k \<and> f \<in> set fs then None else map_of (kv_fields db) (k', f))"
    and "map_of (kv_keys (hdel_db k fs db)) k' = (if k' = key k \<and> (\<forall>f. map_of (kv_fields db) (key k, f) \<noteq> None \<longrightarrow> f \<in> set fs) then None else map_of (kv_keys db) k')"
proof -
  define db1 where "db1 = db\<lparr>kv_fields := filter (\<lambda>((k', f), v). \<not> (k' = key k \<and> f \<in> set fs)) (kv_fields db)\<rparr>"
  have d: "distinct (map fst (kv_keys db1))" using assms by (simp add: db1_def kv_inv_def)
  have f1: "map_of (kv_fields db1) (k', f) = (if k' = key k \<and> f \<in> set fs then None else map_of (kv_fields db) (k', f))" for k' f
    using map_of_filter_key2 [of "\<lambda>k' f. \<not> (k' = key k \<and> f \<in> set fs)" "kv_fields db" k' f] by (auto simp: db1_def)
  have "list_ex (\<lambda>((k'', f), v). k'' = key k) (kv_fields db1) \<longleftrightarrow> (\<exists>f. map_of (kv_fields db1) (key k, f) \<noteq> None)"
    unfolding map_of_eq_None_iff by (force simp: list_ex_iff)
  then have ex: "list_ex (\<lambda>((k'', f), v). k'' = key k) (kv_fields db1) \<longleftrightarrow> (\<exists>f. map_of (kv_fields db) (key k, f) \<noteq> None \<and> f \<notin> set fs)"
    by (auto simp: f1)
  have h: "hdel_db k fs db = delete_keys (\<lambda>k' _. k' = key k \<and> \<not> list_ex (\<lambda>((k'', f), v). k'' = key k) (kv_fields db1)) db1"
    by (simp add: hdel_db_def db1_def Let_def)
  show "map_of (kv_fields (hdel_db k fs db)) (k', f) = (if k' = key k \<and> f \<in> set fs then None else map_of (kv_fields db) (k', f))"
    unfolding h delete_keys_maps(2) [OF d] ex f1 by (cases "map_of (kv_keys db1) k'"; cases "map_of (kv_fields db) (k', f)") (auto, metis option.distinct(1))
  show "map_of (kv_keys (hdel_db k fs db)) k' = (if k' = key k \<and> (\<forall>f. map_of (kv_fields db) (key k, f) \<noteq> None \<longrightarrow> f \<in> set fs) then None else map_of (kv_keys db) k')"
    unfolding h delete_keys_maps(1) [OF d] ex by (auto simp: db1_def split: option.splits)
qed

lemma kv_inv_hdel:
  assumes "kv_inv db"
  shows "kv_inv (hdel_db k fs db)"
proof -
  have "distinct (map fst (kv_keys (hdel_db k fs db)))" "distinct (map fst (kv_fields (hdel_db k fs db)))"
    using assms by (simp_all add: hdel_db_def Let_def delete_keys_distinct distinct_fst_filter kv_inv_def)
  moreover have "(\<exists>f. map_of (kv_fields (hdel_db k fs db)) (k', f) \<noteq> None) \<longleftrightarrow> map_of (kv_keys (hdel_db k fs db)) k' \<noteq> None" for k'
  proof -
    have "(\<exists>f. map_of (kv_fields db) (k', f) \<noteq> None) \<longleftrightarrow> map_of (kv_keys db) k' \<noteq> None" using assms by (simp add: kv_inv_def)
    then show ?thesis by (auto simp: hdel_maps [OF assms])
  qed
  ultimately show ?thesis by (simp add: kv_inv_def)
qed

lemma hset_maps:
  assumes "kv_inv db"
  shows "map_of (kv_keys (hset_db now k fvs db)) k' =
      (if k' = key k then Some (case map_of (kv_keys db) (key k) of Some e \<Rightarrow> if alive now e then e else None | None \<Rightarrow> None) else map_of (kv_keys db) k')"
    and "map_of (kv_fields (hset_db now k fvs db)) (k', f) =
      (if k' = key k then put_fields fvs (case map_of (kv_keys db) (key k) of Some e \<Rightarrow> if alive now e then \<lambda>f. map_of (kv_fields db) (key k, f) else Map.empty
         | None \<Rightarrow> Map.empty) f
       else map_of (kv_fields db) (k', f))"
proof -
  note m = kv_inv_ensureLive(3,4) [OF assms]
  show "map_of (kv_keys (hset_db now k fvs db)) k' =
      (if k' = key k then Some (case map_of (kv_keys db) (key k) of Some e \<Rightarrow> if alive now e then e else None | None \<Rightarrow> None) else map_of (kv_keys db) k')"
    by (simp add: hset_db_def Let_def m)
  have "map_of (kv_keys db) (key k) = None \<Longrightarrow> map_of (kv_fields db) (key k, f) = None" for f using assms unfolding kv_inv_def by (metis option.exhaust_sel)
  then have "(\<lambda>f. map_of (kv_fields (ensureLive now k db)) (key k, f)) =
      (case map_of (kv_keys db) (key k) of Some e \<Rightarrow> if alive now e then \<lambda>f. map_of (kv_fields db) (key k, f) else Map.empty | None \<Rightarrow> Map.empty)"
    by (auto simp: m fun_eq_iff split: option.splits)
  then show "map_of (kv_fields (hset_db now k fvs db)) (k', f) =
      (if k' = key k then put_fields fvs (case map_of (kv_keys db) (key k) of Some e \<Rightarrow> if alive now e then \<lambda>f. map_of (kv_fields db) (key k, f) else Map.empty
         | None \<Rightarrow> Map.empty) f
       else map_of (kv_fields db) (k', f))"
    by (simp add: hset_db_def Let_def fold_fields m)
qed

lemma put_fields_nonempty: "fvs \<noteq> [] \<Longrightarrow> \<exists>f. put_fields fvs m f \<noteq> None"
proof -
  assume "fvs \<noteq> []"
  then have "dom (put_fields fvs m) \<noteq> {}" by (cases fvs) (auto simp only: fold_upd_dom list.set image_insert)
  then show ?thesis by (auto simp only: dom_def mem_Collect_eq)
qed

lemma kv_inv_hset:
  assumes "kv_inv db" "fvs \<noteq> []"
  shows "kv_inv (hset_db now k fvs db)"
proof -
  have "distinct (map fst (kv_keys (hset_db now k fvs db)))" "distinct (map fst (kv_fields (hset_db now k fvs db)))"
    using kv_inv_ensureLive(1,2) [OF assms(1)] by (simp_all add: hset_db_def Let_def distinct_fold_update)
  moreover have "(\<exists>f. map_of (kv_fields (hset_db now k fvs db)) (k', f) \<noteq> None) \<longleftrightarrow> map_of (kv_keys (hset_db now k fvs db)) k' \<noteq> None" for k'
  proof (cases "k' = key k")
    case True
    then show ?thesis using put_fields_nonempty [OF assms(2)] by (simp only: hset_maps [OF assms(1)] if_True) simp
  next
    case False
    then show ?thesis using assms(1) by (simp add: hset_maps [OF assms(1)] kv_inv_def)
  qed
  ultimately show ?thesis by (simp add: kv_inv_def)
qed

lemma kv_inv_ops:
  assumes inv: "kv_inv db"
  shows "kv_inv (set_db now k v ttl db)" "fvs \<noteq> [] \<Longrightarrow> kv_inv (hset_db now k fvs db)" "kv_inv (hdel_db k fs db)"
    "kv_inv (fst (expire_db now k ttl db))" "kv_inv (del_db ks db)" "kv_inv (purge_db now db)"
proof -
  show "kv_inv (del_db ks db)" "kv_inv (purge_db now db)" using kv_inv_delete [OF inv] by (simp_all add: del_db_def purge_db_def)
  have "kv_inv (delete_keys (\<lambda>k' _. k' = key k) db)" by (rule kv_inv_delete [OF inv])
  then show "kv_inv (set_db now k v ttl db)"
    by (auto simp: set_db_def Let_def kv_inv_def distinct_update update_conv')
  show "kv_inv (fst (expire_db now k ttl db))" using inv
    by (auto simp: expire_db_def kv_inv_def distinct_update update_conv' split: option.splits)
  show "kv_inv (hdel_db k fs db)" by (rule kv_inv_hdel [OF inv])
  show "kv_inv (hset_db now k fvs db)" if "fvs \<noteq> []" by (rule kv_inv_hset [OF inv that])
qed

section \<open>Refinement\<close>

lemma visible_alt:
  "visible now db k = (case map_of (kv_keys db) (key k) of None \<Rightarrow> None
     | Some e \<Rightarrow> if alive now e then Some (\<lambda>f. map_of (kv_fields db) (key k, f), e) else None)"
  by (simp add: visible_def redis_expire_def contents_def split: option.split)

lemma alive_expiry_of [simp]: "alive now (expiry_of now ttl)"
  by (simp add: alive_def expiry_of_def)

lemma alive_None [simp]: "alive now None"
  by (simp add: alive_def)

lemma visible_set:
  assumes "kv_inv db"
  shows "visible now (set_db now k v ttl db) = redis_cmd now (SET k v ttl) (visible now db)"
proof
  fix j
  have d: "distinct (map fst (kv_keys db))" using assms by (simp add: kv_inv_def)
  have gone: "map_of (kv_fields (delete_keys (\<lambda>k' _. k' = key k) db)) (key k, f) = None" for f
  proof (cases "map_of (kv_keys db) (key k)")
    case None
    then have "map_of (kv_fields db) (key k, f) = None" using assms unfolding kv_inv_def by (metis option.exhaust_sel)
    then show ?thesis by (simp add: delete_keys_maps [OF d] None)
  qed (simp add: delete_keys_maps [OF d])
  have self: "(\<lambda>f. map_of (kv_fields (set_db now k v ttl db)) (key k, f)) = [plainField \<mapsto> v]"
    using gone by (simp add: set_db_def Let_def update_conv' fun_eq_iff)
  show "visible now (set_db now k v ttl db) j = redis_cmd now (SET k v ttl) (visible now db) j"
  proof (cases "j = k")
    case True
    then show ?thesis unfolding visible_alt using self by (simp add: set_db_def Let_def update_conv')
  next
    case False
    then show ?thesis by (simp add: visible_alt set_db_def Let_def update_conv' delete_keys_maps [OF d] split: option.split)
  qed
qed

lemma visible_hset:
  assumes "kv_inv db" "fvs \<noteq> []"
  shows "visible now (hset_db now k fvs db) = redis_cmd now (HSET k fvs) (visible now db)"
proof
  fix j
  show "visible now (hset_db now k fvs db) j = redis_cmd now (HSET k fvs) (visible now db) j"
    using assms(2) by (cases "j = k"; cases "map_of (kv_keys db) (key k)") (auto simp: visible_alt hset_maps [OF assms(1)] split: option.split)
qed

lemma visible_hdel:
  assumes "kv_inv db"
  shows "visible now (hdel_db k fs db) = redis_cmd now (HDEL k fs) (visible now db)"
proof
  fix j
  have fields: "(\<lambda>f. map_of (kv_fields (hdel_db k fs db)) (key k, f)) = (\<lambda>f. map_of (kv_fields db) (key k, f)) |` (- set fs)"
    by (auto simp: hdel_maps [OF assms] restrict_map_def)
  have all: "(\<forall>f. map_of (kv_fields db) (key k, f) \<noteq> None \<longrightarrow> f \<in> set fs) \<longleftrightarrow> (\<lambda>f. map_of (kv_fields db) (key k, f)) |` (- set fs) = Map.empty"
    by (auto simp: restrict_map_def fun_eq_iff)
  note all' = all [unfolded not_None_eq]
  show "visible now (hdel_db k fs db) j = redis_cmd now (HDEL k fs) (visible now db) j"
  proof (cases "j = k")
    case True
    then show ?thesis
      by (cases "map_of (kv_keys db) (key k)") (auto simp: visible_alt fields hdel_maps(2) [OF assms] all' Let_def)
  next
    case False
    then show ?thesis by (auto simp: visible_alt hdel_maps [OF assms] Let_def split: option.split)
  qed
qed

lemma visible_expire:
  "visible now (fst (expire_db now k ttl db)) = redis_cmd now (EXPIRE k ttl) (visible now db)"
  "snd (expire_db now k ttl db) \<longleftrightarrow> visible now db k \<noteq> None"
  by (auto simp: fun_eq_iff visible_alt expire_db_def update_conv' split: option.split)

lemma visible_del:
  assumes "kv_inv db"
  shows "visible now (del_db ks db) = redis_cmd now (DEL ks) (visible now db)" "visible now (purge_db now db) = redis_cmd now PURGE (visible now db)"
proof -
  have d: "distinct (map fst (kv_keys db))" using assms by (simp add: kv_inv_def)
  show "visible now (del_db ks db) = redis_cmd now (DEL ks) (visible now db)" "visible now (purge_db now db) = redis_cmd now PURGE (visible now db)"
    by (auto simp: fun_eq_iff visible_alt del_db_def purge_db_def delete_keys_maps [OF d] split: option.split)
qed

lemmas visible_cmds = visible_set visible_hset visible_hdel visible_expire visible_del

definition kv_ok :: "kv_cache \<Rightarrow> bool" where
  "kv_ok c \<longleftrightarrow> c_enabled c \<and> kv_inv (c_db c)"

interpretation kv_tables: step_system kv_step kv_ok
proof
  fix c and ev :: "millis \<times> bool \<times> kv_cmd" assume ok: "kv_ok c"
  obtain now good cmd where ev: "ev = (now, good, cmd)" by (cases ev)
  show "kv_ok (kv_step c ev)" unfolding ev
    using ok by (cases cmd) (auto simp: kv_ok_def Set_def HSet_def HDel_def Expire_def Del_def Purge_def inTx_def kv_inv_ops case_prod_beta')
qed

lemma redis_hdel_nothing: "(\<And>m e. r k = Some (m, e) \<Longrightarrow> m \<noteq> Map.empty) \<Longrightarrow> redis_cmd now (HDEL k []) r = r"
  by (cases "r k") (auto simp: restrict_map_def fun_upd_idem)

text \<open>One command seen at its own instant.\<close>

lemma kv_step_visible:
  assumes "kv_ok c"
  shows "visible now (c_db (kv_step c (now, good, cmd))) = (if good then redis_cmd now cmd (visible now (c_db c)) else visible now (c_db c))"
proof -
  have inv: "kv_inv (c_db c)" "c_enabled c" using assms by (auto simp: kv_ok_def)
  show ?thesis
  proof (cases cmd)
    case (HDEL k fs)
    have ne: "m \<noteq> Map.empty" if "visible now (c_db c) k = Some (m, e)" for m e
    proof
      assume "m = Map.empty"
      with that have "map_of (kv_keys (c_db c)) (key k) \<noteq> None" "\<And>f. map_of (kv_fields (c_db c)) (key k, f) = None"
        by (auto simp: visible_alt fun_eq_iff split: option.splits if_splits)
      then show False using inv(1) unfolding kv_inv_def by metis
    qed
    show ?thesis
    proof (cases "fs = []")
      case True
      then show ?thesis using HDEL redis_hdel_nothing [of "visible now (c_db c)" k now, OF ne] by (simp add: HDel_def)
    next
      case False
      then show ?thesis using HDEL inv by (simp add: HDel_def inTx_def visible_hdel)
    qed
  qed (use inv in \<open>auto simp: Set_def HSet_def Expire_def Del_def Purge_def inTx_def visible_cmds case_prod_beta'\<close>)
qed

lemma redis_expire_later: "now \<le> later \<Longrightarrow> redis_expire later (redis_expire now r) = redis_expire later r"
  by (auto simp: redis_expire_def alive_def fun_eq_iff split: option.splits)

lemma redis_cmd_alive: "redis_expire now r = r \<Longrightarrow> redis_expire now (redis_cmd now cmd r) = redis_cmd now cmd r"
  by (cases cmd) (auto simp: redis_expire_def fun_eq_iff Let_def split: option.splits if_splits)

lemma kv_run_refines:
  assumes "kv_ok c" "sorted (map fst evs)" "\<forall>ev \<in> set evs. start \<le> fst ev" "redis_expire start (contents (c_db c)) = redis_expire start r"
    "\<forall>ev \<in> set evs. fst ev \<le> later" "start \<le> later"
  shows "visible later (c_db (foldl kv_step c evs)) = redis_expire later (foldl redis_step r evs)"
  using assms
proof (induction evs arbitrary: c r start)
  case Nil
  then have "redis_expire later (redis_expire start (contents (c_db c))) = redis_expire later (redis_expire start r)" by simp
  then show ?case using Nil.prems(6) by (simp add: visible_def redis_expire_later)
next
  case (Cons ev evs)
  obtain now good cmd where ev: "ev = (now, good, cmd)" by (cases ev)
  have now: "start \<le> now" "now \<le> later" using Cons.prems ev by auto
  have eq: "visible now (c_db c) = redis_expire now r"
    using arg_cong [OF Cons.prems(4), of "redis_expire now"] now(1) by (simp add: visible_def redis_expire_later)
  have "visible now (c_db (kv_step c ev)) = redis_expire now (redis_step r ev)"
    using kv_step_visible [OF Cons.prems(1), of now good cmd] eq redis_cmd_alive [of now "redis_expire now r" cmd]
    by (simp add: ev redis_step_def redis_expire_later)
  moreover have "kv_ok (kv_step c ev)" by (rule kv_tables.step_inv [OF Cons.prems(1)])
  ultimately show ?case using Cons.prems now ev Cons.IH [of "kv_step c ev" now "redis_step r ev"] by (auto simp: visible_def)
qed

definition new_cache :: kv_cache where
  "new_cache = \<lparr>c_enabled = True, c_db = \<lparr>kv_keys = [], kv_fields = []\<rparr>\<rparr>"

lemma new_cache_ok: "kv_ok new_cache"
  by (simp add: kv_ok_def new_cache_def kv_inv_def)

lemma Get_visible: "c_enabled c \<Longrightarrow> Get now k c = Option.bind (visible now (c_db c) k) (\<lambda>(m, e). m plainField)"
  by (simp add: Get_def visible_alt split: option.split)

lemma map_of_map_fields:
  "map_of (map (\<lambda>((_, f), v). (f, v)) (filter (\<lambda>((k', f), v). k' = k) m)) f = map_of m (k, f)"
  by (induction m) auto

lemma HGetAll_visible: "c_enabled c \<Longrightarrow> map_of (HGetAll now k c) = (case visible now (c_db c) k of None \<Rightarrow> Map.empty | Some (m, e) \<Rightarrow> m)"
  by (auto simp: HGetAll_def visible_alt map_of_map_fields fun_eq_iff split: option.split)

section \<open>Properties\<close>


definition kv_script :: "(millis \<times> bool \<times> kv_cmd) list" where
  "kv_script = [(1, True, SET ''a'' ''x'' 10), (2, True, HSET ''h'' [(''f'', ''1''), (''g'', ''2'')]), (3, False, DEL [''h'']),
     (4, True, HDEL ''h'' [''f'']), (12, True, HSET ''a'' [(''q'', ''z'')])]"


end
