(* ===== verification/HistoricalGate.thy ===== *)
theory HistoricalGate
  imports Prelude
begin

text \<open>
  The gate that paces historical-candle requests (\<^verbatim>\<open>internal/kite/historical_gate.go\<close>): one slot, interactive callers
  ahead of background ones, request starts a minimum gap apart, and a watchdog that takes the slot from a stalled
  call. Callers are numbered; each is somewhere in \<^verbatim>\<open>Run\<close>, and the step relation interleaves them, their
  cancellations, the watchdogs and the clock in every possible way.
\<close>

section \<open>State\<close>

datatype stage = Fresh | Gap millis | Running

text \<open>\<open>InRun st released\<close>: past \<^verbatim>\<open>acquire\<close>, with the \<^verbatim>\<open>sync.Once\<close> of its release not yet or already used.\<close>

datatype phase = Idle | Waiting | Handed | InRun stage bool

record gate =
  g_minGap :: int
  g_busy :: bool
  g_last :: "millis option"
  g_waiting :: "(nat \<times> bool) list"
  g_phase :: "nat \<Rightarrow> phase"
  g_now :: millis
  g_starts :: "millis list"
  g_early :: bool

definition NewHistoricalGate :: "int \<Rightarrow> millis \<Rightarrow> gate" where
  "NewHistoricalGate minGap now = \<lparr>g_minGap = minGap, g_busy = False, g_last = None, g_waiting = [], g_phase = (\<lambda>_. Idle),
     g_now = now, g_starts = [], g_early = False\<rparr>"

definition set_phase :: "nat \<Rightarrow> phase \<Rightarrow> gate \<Rightarrow> gate" where
  "set_phase i p g = g\<lparr>g_phase := (g_phase g)(i := p)\<rparr>"

definition Queued :: "gate \<Rightarrow> nat" where
  "Queued g = length (g_waiting g)"

section \<open>Operations\<close>

text \<open>Interactive callers go behind the interactive ones at the front of the queue, ahead of everything else.\<close>

definition enqueue :: "nat \<Rightarrow> bool \<Rightarrow> (nat \<times> bool) list \<Rightarrow> (nat \<times> bool) list" where
  "enqueue i background ws =
     (if background then ws @ [(i, True)]
      else takeWhile (\<lambda>w. \<not> snd w) ws @ (i, False) # dropWhile (\<lambda>w. \<not> snd w) ws)"

definition acquire :: "nat \<Rightarrow> bool \<Rightarrow> gate \<Rightarrow> gate" where
  "acquire i background g =
     (if \<not> g_busy g then set_phase i (InRun Fresh False) (g\<lparr>g_busy := True\<rparr>)
      else set_phase i Waiting (g\<lparr>g_waiting := enqueue i background (g_waiting g)\<rparr>))"

definition release :: "gate \<Rightarrow> gate" where
  "release g = (case g_waiting g of [] \<Rightarrow> g\<lparr>g_busy := False\<rparr>
     | (j, _) # ws \<Rightarrow> set_phase j Handed (g\<lparr>g_waiting := ws\<rparr>))"

text \<open>The waiter's context ends: it leaves the queue, or passes on the slot it was just handed.\<close>

definition cancel_wait :: "nat \<Rightarrow> gate \<Rightarrow> gate" where
  "cancel_wait i g =
     (if i \<in> set (map fst (g_waiting g)) then set_phase i Idle (g\<lparr>g_waiting := filter (\<lambda>w. fst w \<noteq> i) (g_waiting g)\<rparr>)
      else release (set_phase i Idle g))"

definition release_once :: "nat \<Rightarrow> phase \<Rightarrow> bool \<Rightarrow> gate \<Rightarrow> gate" where
  "release_once i p released g = (if released then set_phase i p g else release (set_phase i p g))"

definition read_gap :: "nat \<Rightarrow> bool \<Rightarrow> gate \<Rightarrow> gate" where
  "read_gap i released g = set_phase i (InRun (Gap (case g_last g of None \<Rightarrow> g_now g | Some l \<Rightarrow> max (g_now g) (l + g_minGap g))) released) g"

definition start_call :: "nat \<Rightarrow> bool \<Rightarrow> gate \<Rightarrow> gate" where
  "start_call i released g = set_phase i (InRun Running released) (g\<lparr>g_last := Some (g_now g), g_starts := g_now g # g_starts g\<rparr>)"

definition watchdog :: "nat \<Rightarrow> stage \<Rightarrow> gate \<Rightarrow> gate" where
  "watchdog i st g = release_once i (InRun st True) False (if st = Running then g else g\<lparr>g_early := True\<rparr>)"

inductive gate_step :: "gate \<Rightarrow> gate \<Rightarrow> bool" where
  Clock: "g_now g \<le> t \<Longrightarrow> gate_step g (g\<lparr>g_now := t\<rparr>)"
| Acquire: "g_phase g i = Idle \<Longrightarrow> gate_step g (acquire i background g)"
| Wake: "g_phase g i = Handed \<Longrightarrow> gate_step g (set_phase i (InRun Fresh False) g)"
| Cancel: "g_phase g i = Waiting \<or> g_phase g i = Handed \<Longrightarrow> gate_step g (cancel_wait i g)"
| ReadGap: "g_phase g i = InRun Fresh r \<Longrightarrow> gate_step g (read_gap i r g)"
| Start: "g_phase g i = InRun (Gap t) r \<Longrightarrow> t \<le> g_now g \<Longrightarrow> gate_step g (start_call i r g)"
| CancelGap: "g_phase g i = InRun (Gap t) r \<Longrightarrow> gate_step g (release_once i Idle r g)"
| Watchdog: "g_phase g i = InRun st False \<Longrightarrow> gate_step g (watchdog i st g)"
| Return: "g_phase g i = InRun Running r \<Longrightarrow> gate_step g (release_once i Idle r g)"

section \<open>One slot\<close>

definition holds :: "phase \<Rightarrow> bool" where
  "holds p \<longleftrightarrow> p = Handed \<or> (\<exists>st. p = InRun st False)"

lemma holds_simps [simp]: "\<not> holds Idle" "\<not> holds Waiting" "holds Handed" "holds (InRun st r) \<longleftrightarrow> \<not> r"
  by (auto simp: holds_def)

text \<open>Interactive waiters stand before background ones.\<close>

definition class_order :: "(nat \<times> bool) list \<Rightarrow> bool" where
  "class_order ws \<longleftrightarrow> sorted_wrt (\<lambda>a b. snd a \<longrightarrow> snd b) ws"

definition slot_inv :: "gate \<Rightarrow> bool" where
  "slot_inv g \<longleftrightarrow> (if g_busy g then \<exists>i. \<forall>j. holds (g_phase g j) \<longleftrightarrow> j = i else g_waiting g = [] \<and> (\<forall>j. \<not> holds (g_phase g j))) \<and>
     distinct (map fst (g_waiting g)) \<and> (\<forall>i. g_phase g i = Waiting \<longleftrightarrow> i \<in> set (map fst (g_waiting g))) \<and> class_order (g_waiting g)"

lemma class_order_tail: "class_order ws \<Longrightarrow> w \<in> set (dropWhile (\<lambda>w. \<not> snd w) ws) \<Longrightarrow> snd w"
proof (induction ws)
  case (Cons x ws)
  then show ?case by (cases "snd x") (auto simp: class_order_def)
qed simp

lemma class_order_enqueue:
  assumes "class_order ws"
  shows "class_order (enqueue i b ws)"
proof -
  let ?t = "takeWhile (\<lambda>w. \<not> snd w) ws" and ?d = "dropWhile (\<lambda>w. \<not> snd w) ws"
  have "sorted_wrt (\<lambda>a b. snd a \<longrightarrow> snd b) (?t @ ?d)" using assms by (simp add: class_order_def)
  then have "sorted_wrt (\<lambda>a b. snd a \<longrightarrow> snd b) ?t" "sorted_wrt (\<lambda>a b. snd a \<longrightarrow> snd b) ?d" by (simp_all only: sorted_wrt_append)
  moreover have "\<not> snd w" if "w \<in> set ?t" for w using that by (blast dest: set_takeWhileD)
  moreover have "sorted_wrt (\<lambda>a b. snd a \<longrightarrow> snd b) ws" using assms by (simp add: class_order_def)
  ultimately show ?thesis by (cases b) (simp_all add: enqueue_def class_order_def sorted_wrt_append)
qed

lemma enqueue_set: "set (enqueue i b ws) = insert (i, b) (set ws)"
proof -
  have "set ws = set (takeWhile (\<lambda>w. \<not> snd w) ws) \<union> set (dropWhile (\<lambda>w. \<not> snd w) ws)" by (metis set_append takeWhile_dropWhile_id)
  then show ?thesis by (cases b) (auto simp: enqueue_def)
qed

lemma enqueue_distinct: "distinct (map fst ws) \<Longrightarrow> i \<notin> fst ` set ws \<Longrightarrow> distinct (map fst (enqueue i b ws))"
proof -
  assume d: "distinct (map fst ws)" and i: "i \<notin> fst ` set ws"
  have "mset (enqueue i b ws) = add_mset (i, b) (mset ws)"
  proof -
    have "mset ws = mset (takeWhile (\<lambda>w. \<not> snd w) ws) + mset (dropWhile (\<lambda>w. \<not> snd w) ws)" by (metis mset_append takeWhile_dropWhile_id)
    then show ?thesis by (cases b) (simp_all add: enqueue_def)
  qed
  then have "mset (map fst (enqueue i b ws)) = mset (map fst ((i, b) # ws))" by simp
  then show ?thesis using d i by (metis mset_eq_imp_distinct_iff distinct.simps(2) list.set_map list.simps(9) fst_conv)
qed

text \<open>Handing on the slot of a caller \<open>i\<close> that stops holding it.\<close>

lemma slot_inv_release:
  assumes inv: "slot_inv g" and i: "holds (g_phase g i)" and p: "\<not> holds p" "p \<noteq> Waiting"
  shows "slot_inv (release (set_phase i p g))"
proof -
  have busy: "g_busy g" and only: "\<And>j. holds (g_phase g j) \<longleftrightarrow> j = i" using inv i by (auto simp: slot_inv_def split: if_splits)
  have notw: "g_phase g i \<noteq> Waiting" using i by auto
  show ?thesis
  proof (cases "g_waiting g")
    case Nil
    then show ?thesis using inv only p notw by (auto simp: slot_inv_def release_def set_phase_def)
  next
    case (Cons w ws)
    obtain j b where w: "w = (j, b)" by (cases w)
    have "g_phase g j = Waiting" "j \<noteq> i" using inv Cons w notw by (auto simp: slot_inv_def)
    then have "holds (g_phase (release (set_phase i p g)) k) \<longleftrightarrow> k = j" for k
      using only p Cons w by (simp add: release_def set_phase_def)
    moreover have "g_busy (release (set_phase i p g))" "g_waiting (release (set_phase i p g)) = ws"
      using busy Cons w by (simp_all add: release_def set_phase_def)
    moreover have "g_phase (release (set_phase i p g)) k = Waiting \<longleftrightarrow> k \<in> set (map fst ws)" for k
      using inv p notw Cons w \<open>j \<noteq> i\<close> by (auto simp: slot_inv_def release_def set_phase_def)
    moreover have "distinct (map fst ws)" "class_order ws" using inv Cons by (auto simp: slot_inv_def class_order_def)
    ultimately show ?thesis by (auto simp: slot_inv_def)
  qed
qed

lemma slot_inv_phase:
  assumes "slot_inv g" "holds p \<longleftrightarrow> holds (g_phase g i)" "p \<noteq> Waiting" "g_phase g i \<noteq> Waiting"
  shows "slot_inv (set_phase i p g)"
  using assms by (auto simp: slot_inv_def set_phase_def split: if_splits)

lemma slot_inv_acquire:
  assumes inv: "slot_inv g" and i: "g_phase g i = Idle"
  shows "slot_inv (acquire i b g)"
proof (cases "g_busy g")
  case True
  have "g_phase g i \<noteq> Waiting" using i by simp
  then have w: "i \<notin> set (map fst (g_waiting g))" using inv unfolding slot_inv_def by blast
  have "holds (g_phase (acquire i b g) j) \<longleftrightarrow> holds (g_phase g j)" for j using True i by (simp add: acquire_def set_phase_def)
  moreover have "g_busy (acquire i b g)" "g_waiting (acquire i b g) = enqueue i b (g_waiting g)"
    "\<And>j. g_phase (acquire i b g) j = (if j = i then Waiting else g_phase g j)" using True by (simp_all add: acquire_def set_phase_def)
  ultimately show ?thesis using inv True w class_order_enqueue enqueue_distinct
    by (auto simp: slot_inv_def enqueue_set)
next
  case False
  then show ?thesis using inv i by (auto simp: slot_inv_def acquire_def set_phase_def)
qed

lemma slot_inv_cancel:
  assumes inv: "slot_inv g" and i: "g_phase g i = Waiting \<or> g_phase g i = Handed"
  shows "slot_inv (cancel_wait i g)"
proof (cases "i \<in> set (map fst (g_waiting g))")
  case True
  then have wait: "g_phase g i = Waiting" using inv by (auto simp: slot_inv_def)
  then have "holds (g_phase (cancel_wait i g) j) \<longleftrightarrow> holds (g_phase g j)" for j using True by (simp add: cancel_wait_def set_phase_def)
  moreover have "g_busy (cancel_wait i g) = g_busy g" "g_waiting (cancel_wait i g) = filter (\<lambda>w. fst w \<noteq> i) (g_waiting g)"
    "\<And>j. g_phase (cancel_wait i g) j = (if j = i then Idle else g_phase g j)" using True by (simp_all add: cancel_wait_def set_phase_def)
  ultimately show ?thesis using inv
    by (auto simp: slot_inv_def class_order_def distinct_fst_filter sorted_wrt_filter)
next
  case False
  then have "g_phase g i = Handed" using inv i by (auto simp: slot_inv_def)
  then show ?thesis using slot_inv_release [OF inv, of i Idle] False by (simp add: cancel_wait_def)
qed

lemma slot_inv_cong:
  "slot_inv g \<Longrightarrow> g_busy g' = g_busy g \<Longrightarrow> g_waiting g' = g_waiting g \<Longrightarrow> g_phase g' = g_phase g \<Longrightarrow> slot_inv g'"
  by (simp add: slot_inv_def)

lemma slot_inv_release_once:
  assumes "slot_inv g" "g_phase g i = InRun st r" "\<not> holds p" "p \<noteq> Waiting"
  shows "slot_inv (release_once i p r g)"
proof (cases r)
  case True
  then show ?thesis using slot_inv_phase [OF assms(1), of p i] assms by (simp add: release_once_def)
next
  case False
  then show ?thesis using slot_inv_release [OF assms(1), of i p] assms by (simp add: release_once_def)
qed

lemma slot_inv_step: "gate_step g g' \<Longrightarrow> slot_inv g \<Longrightarrow> slot_inv g'"
proof (induction rule: gate_step.induct)
  case (Watchdog g i st)
  have "slot_inv (if st = Running then g else g\<lparr>g_early := True\<rparr>)" by (rule slot_inv_cong [OF Watchdog.prems]) simp_all
  then show ?case using slot_inv_release_once [of _ i st False "InRun st True"] Watchdog.hyps by (simp add: watchdog_def)
next
  case (Start g i t r)
  have "slot_inv (g\<lparr>g_last := Some (g_now g), g_starts := g_now g # g_starts g\<rparr>)" by (rule slot_inv_cong [OF Start.prems]) simp_all
  then show ?case using slot_inv_phase [of _ "InRun Running r" i] Start.hyps by (simp add: start_call_def)
next
  case (Clock g t)
  show ?case by (rule slot_inv_cong [OF Clock.prems]) simp_all
next
  case (ReadGap g i r)
  then show ?case using slot_inv_phase [OF ReadGap.prems, of _ i] by (simp add: read_gap_def)
next
  case (CancelGap g i t r)
  then show ?case by (intro slot_inv_release_once [of _ _ "Gap t"]) simp_all
next
  case (Return g i r)
  then show ?case by (intro slot_inv_release_once [of _ _ Running]) simp_all
next
  case (Wake g i)
  then show ?case by (intro slot_inv_phase) simp_all
qed (simp_all add: slot_inv_acquire slot_inv_cancel)

section \<open>Pacing\<close>

definition paced :: "gate \<Rightarrow> bool" where
  "paced g \<longleftrightarrow> sorted_wrt (\<lambda>late early. early + g_minGap g \<le> late) (g_starts g) \<and> (\<forall>t \<in> set (g_starts g). t \<le> g_now g) \<and>
     g_last g = (case g_starts g of [] \<Rightarrow> None | t # _ \<Rightarrow> Some t) \<and>
     (\<forall>i t l. g_phase g i = InRun (Gap t) False \<longrightarrow> g_last g = Some l \<longrightarrow> l + g_minGap g \<le> t) \<and>
     (\<forall>i st. g_phase g i = InRun st True \<longrightarrow> st = Running)"

definition gate_inv :: "gate \<Rightarrow> bool" where
  "gate_inv g \<longleftrightarrow> slot_inv g \<and> 0 \<le> g_minGap g \<and> (g_early g \<or> paced g)"

lemma paced_cong:
  assumes "paced g" "g_starts g' = g_starts g" "g_last g' = g_last g" "g_minGap g' = g_minGap g" "g_now g \<le> g_now g'"
    "\<And>i st r. g_phase g' i = InRun st r \<Longrightarrow> g_phase g i = InRun st r \<or> st = Fresh \<and> \<not> r \<or> st = Running"
  shows "paced g'"
  unfolding paced_def
proof (intro conjI allI impI ballI)
  fix i t l assume "g_phase g' i = InRun (Gap t) False" "g_last g' = Some l"
  then show "l + g_minGap g' \<le> t" using assms by (fastforce simp: paced_def)
next
  fix i st assume "g_phase g' i = InRun st True"
  then show "st = Running" using assms(1) assms(6) [of i st True] by (auto simp: paced_def)
next
  fix t assume "t \<in> set (g_starts g')"
  then have "t \<le> g_now g" using assms by (simp add: paced_def)
  then show "t \<le> g_now g'" using assms(5) by simp
qed (use assms in \<open>simp_all add: paced_def\<close>)

lemma release_fields [simp]:
  "g_minGap (release g) = g_minGap g" "g_starts (release g) = g_starts g" "g_last (release g) = g_last g" "g_now (release g) = g_now g"
  "g_early (release g) = g_early g"
  by (simp_all add: release_def set_phase_def split: list.split)

lemma set_phase_fields [simp]:
  "g_minGap (set_phase i p g) = g_minGap g" "g_starts (set_phase i p g) = g_starts g" "g_last (set_phase i p g) = g_last g"
  "g_now (set_phase i p g) = g_now g" "g_early (set_phase i p g) = g_early g" "g_phase (set_phase i p g) = (g_phase g)(i := p)"
  by (simp_all add: set_phase_def)

lemma release_phase: "g_phase (release g) j = InRun st r \<Longrightarrow> g_phase g j = InRun st r"
  by (auto simp: release_def set_phase_def split: list.splits if_splits)

lemma paced_start:
  assumes "paced g" "slot_inv g" "0 \<le> g_minGap g" "g_phase g i = InRun (Gap t) r" "t \<le> g_now g"
  shows "paced (start_call i r g)"
proof -
  have r: "\<not> r" using assms(1,4) unfolding paced_def by (metis (full_types) stage.distinct(5))
  then have "holds (g_phase g i)" using assms(4) by simp
  then have only: "holds (g_phase g j) \<longleftrightarrow> j = i" for j using assms(2) unfolding slot_inv_def by (metis (full_types))
  have "early + g_minGap g \<le> g_now g" if "early \<in> set (g_starts g)" for early
  proof (cases "g_starts g")
    case (Cons l ls)
    have "l + g_minGap g \<le> t" using assms(1,4) r Cons by (fastforce simp: paced_def)
    moreover have "early \<le> l" using assms(1,3) that Cons by (force simp: paced_def)
    ultimately show ?thesis using assms(5) by linarith
  qed (use that in simp)
  then show ?thesis using assms(1) only r by (auto simp: paced_def start_call_def) (metis holds_simps(4))
qed

lemma paced_gap:
  assumes "paced g" "g_phase g i = InRun Fresh r"
  shows "paced (read_gap i r g)"
proof -
  have "\<not> r" using assms unfolding paced_def by (metis (full_types) stage.distinct(3))
  then show ?thesis using assms by (auto simp: paced_def read_gap_def split: option.split)
qed

lemma paced_step:
  assumes "gate_step g g'" "slot_inv g" "0 \<le> g_minGap g" "paced g" "\<not> g_early g'"
  shows "paced g'"
  using assms
proof (cases rule: gate_step.cases)
  case (Acquire i b)
  show ?thesis unfolding Acquire(1) by (rule paced_cong [OF assms(4)]) (auto simp: acquire_def split: if_splits)
next
  case (Cancel i)
  show ?thesis unfolding Cancel(1)
    by (rule paced_cong [OF assms(4)]) (auto simp: cancel_wait_def dest!: release_phase split: if_splits)
next
  case (Start i t r)
  then show ?thesis using paced_start assms by simp
next
  case (ReadGap i r)
  then show ?thesis using paced_gap assms by simp
next
  case (Watchdog i st)
  then have "st = Running" using assms(5) by (auto simp: watchdog_def release_once_def split: if_splits)
  show ?thesis unfolding Watchdog(1)
    by (rule paced_cong [OF assms(4)]) (use \<open>st = Running\<close> in \<open>auto simp: watchdog_def release_once_def dest!: release_phase split: if_splits\<close>)
next
  case (CancelGap i t r)
  show ?thesis unfolding CancelGap(1)
    by (rule paced_cong [OF assms(4)]) (auto simp: release_once_def dest!: release_phase split: if_splits)
next
  case (Return i r)
  show ?thesis unfolding Return(1)
    by (rule paced_cong [OF assms(4)]) (auto simp: release_once_def dest!: release_phase split: if_splits)
next
  case (Clock t)
  show ?thesis unfolding Clock(1) by (rule paced_cong [OF assms(4)]) (use Clock in auto)
next
  case (Wake i)
  show ?thesis unfolding Wake(1) by (rule paced_cong [OF assms(4)]) (auto split: if_splits)
qed

lemma step_keeps:
  assumes "gate_step g g'"
  shows "g_minGap g' = g_minGap g \<and> (g_early g \<longrightarrow> g_early g')"
  using assms
  by cases (auto simp: acquire_def cancel_wait_def read_gap_def start_call_def watchdog_def release_once_def)

interpretation gate: interleaving gate_step gate_inv
proof
  fix g g' assume st: "gate_step g g'" and "gate_inv g"
  then have inv: "slot_inv g" "0 \<le> g_minGap g" "g_early g \<or> paced g" by (auto simp: gate_inv_def)
  show "gate_inv g'" using slot_inv_step [OF st inv(1)] step_keeps [OF st] paced_step [OF st inv(1,2)] inv by (auto simp: gate_inv_def)
qed

section \<open>Properties\<close>

lemma gate_inv_new: "0 \<le> minGap \<Longrightarrow> gate_inv (NewHistoricalGate minGap now)"
  by (simp add: gate_inv_def slot_inv_def paced_def NewHistoricalGate_def class_order_def)



end
