(* ===== verification/Shutdown.thy ===== *)
theory Shutdown
  imports Prelude "HOL-Library.Sublist"
begin

text \<open>
  The shutdown coordinator (\<^verbatim>\<open>internal/lifecycle/shutdown.go\<close>): the first signal starts a goroutine that runs the steps
  one after the other, whatever they return; the caller takes the result when the sequence ends or the timer
  fires, whichever it sees first, while the sequence goes on; later signals wait for that same result. A step's
  outcome (an error, a panic turned into one, or success) is an event of the model, as is its never ending.
\<close>

section \<open>State\<close>

record failure =
  fl_Step :: string
  fl_Err :: string

record result =
  r_Signal :: string
  r_Completed :: "string list"
  r_Failed :: "failure list"
  r_TimedOut :: bool

definition ExitCode :: "result \<Rightarrow> int" where
  "ExitCode r = (if r_TimedOut r then 1 else 0)"

text \<open>
  \<open>sd_done\<close> is the \<^verbatim>\<open>done\<close> channel: \<open>Some signal\<close> once a run has started. \<open>sd_res\<close> is the run's own \<^verbatim>\<open>res\<close>,
  \<open>sd_next\<close> how many steps have returned, \<open>sd_result\<close> the published result, \<open>sd_returned\<close> what callers got so far.
\<close>

record shutdown =
  sd_steps :: "string list"
  sd_done :: "string option"
  sd_res :: result
  sd_next :: nat
  sd_result :: "result option"
  sd_returned :: "result list"
  sd_log :: "(string \<times> string option) list"

definition NewCoordinator :: "string list \<Rightarrow> shutdown" where
  "NewCoordinator steps = \<lparr>sd_steps = steps, sd_done = None, sd_res = \<lparr>r_Signal = '''', r_Completed = [], r_Failed = [], r_TimedOut = False\<rparr>,
     sd_next = 0, sd_result = None, sd_returned = [], sd_log = []\<rparr>"

definition InProgress :: "shutdown \<Rightarrow> bool" where
  "InProgress s \<longleftrightarrow> sd_done s \<noteq> None"

section \<open>Steps\<close>

text \<open>\<^verbatim>\<open>Run\<close> up to the wait: only the first call starts anything.\<close>

definition Run_begin :: "string \<Rightarrow> shutdown \<Rightarrow> shutdown" where
  "Run_begin sig s =
     (if sd_done s \<noteq> None then s
      else s\<lparr>sd_done := Some sig, sd_res := \<lparr>r_Signal = sig, r_Completed = [], r_Failed = [], r_TimedOut = False\<rparr>\<rparr>)"

text \<open>\<^verbatim>\<open>runStep\<close> of the next step has returned (\<open>None\<close> is no error).\<close>

definition step_returns :: "string option \<Rightarrow> shutdown \<Rightarrow> shutdown" where
  "step_returns err s =
     (let name = sd_steps s ! sd_next s; r = sd_res s;
          r' = (case err of Some e \<Rightarrow> r\<lparr>r_Failed := r_Failed r @ [\<lparr>fl_Step = name, fl_Err = e\<rparr>]\<rparr> | None \<Rightarrow> r\<lparr>r_Completed := r_Completed r @ [name]\<rparr>)
      in s\<lparr>sd_res := r', sd_next := Suc (sd_next s), sd_log := sd_log s @ [(name, err)]\<rparr>)"

text \<open>The caller's \<^verbatim>\<open>select\<close> is over: it copies the result so far and publishes it.\<close>

definition publish :: "bool \<Rightarrow> shutdown \<Rightarrow> shutdown" where
  "publish timedOut s = (let out = (sd_res s)\<lparr>r_TimedOut := timedOut\<rparr> in s\<lparr>sd_result := Some out, sd_returned := out # sd_returned s\<rparr>)"

definition Run_again :: "result \<Rightarrow> shutdown \<Rightarrow> shutdown" where
  "Run_again r s = s\<lparr>sd_returned := r # sd_returned s\<rparr>"

text \<open>The names the time-out message lists.\<close>

definition stuck :: "shutdown \<Rightarrow> result \<Rightarrow> string list" where
  "stuck s r = filter (\<lambda>n. n \<notin> set (r_Completed r) \<union> set (map fl_Step (r_Failed r))) (sd_steps s)"

inductive sd_step :: "shutdown \<Rightarrow> shutdown \<Rightarrow> bool" where
  Begin: "sd_step s (Run_begin sig s)"
| Step: "sd_done s \<noteq> None \<Longrightarrow> sd_next s < length (sd_steps s) \<Longrightarrow> sd_step s (step_returns err s)"
| Finished: "sd_done s \<noteq> None \<Longrightarrow> sd_result s = None \<Longrightarrow> sd_next s = length (sd_steps s) \<Longrightarrow> sd_step s (publish False s)"
| TimedOut: "sd_done s \<noteq> None \<Longrightarrow> sd_result s = None \<Longrightarrow> sd_step s (publish True s)"
| Again: "sd_result s = Some r \<Longrightarrow> sd_step s (Run_again r s)"

section \<open>Invariant\<close>

definition oks :: "(string \<times> string option) list \<Rightarrow> string list" where
  "oks l = map fst (filter (\<lambda>x. snd x = None) l)"

definition errs :: "(string \<times> string option) list \<Rightarrow> failure list" where
  "errs l = map (\<lambda>x. \<lparr>fl_Step = fst x, fl_Err = the (snd x)\<rparr>) (filter (\<lambda>x. snd x \<noteq> None) l)"

text \<open>A result reports exactly the steps that had returned when it was taken.\<close>

definition reports :: "(string \<times> string option) list \<Rightarrow> result \<Rightarrow> bool" where
  "reports l r \<longleftrightarrow> r_Completed r = oks l \<and> r_Failed r = errs l"

definition sd_inv :: "shutdown \<Rightarrow> bool" where
  "sd_inv s \<longleftrightarrow> sd_next s = length (sd_log s) \<and> sd_next s \<le> length (sd_steps s) \<and> map fst (sd_log s) = take (sd_next s) (sd_steps s) \<and>
     reports (sd_log s) (sd_res s) \<and> (\<forall>sig. sd_done s = Some sig \<longrightarrow> r_Signal (sd_res s) = sig) \<and> (sd_done s = None \<longrightarrow> sd_log s = [] \<and> sd_result s = None) \<and>
     (\<forall>r \<in> set (sd_returned s). sd_result s = Some r) \<and>
     (\<forall>r. sd_result s = Some r \<longrightarrow> sd_done s = Some (r_Signal r) \<and>
        (\<exists>k \<le> length (sd_log s). reports (take k (sd_log s)) r \<and> (\<not> r_TimedOut r \<longrightarrow> k = length (sd_steps s))))"

lemma oks_errs_append [simp]:
  "oks (l @ [(n, None)]) = oks l @ [n]" "oks (l @ [(n, Some e)]) = oks l"
  "errs (l @ [(n, None)]) = errs l" "errs (l @ [(n, Some e)]) = errs l @ [\<lparr>fl_Step = n, fl_Err = e\<rparr>]"
  by (simp_all add: oks_def errs_def)

lemma sd_inv_step_returns:
  assumes inv: "sd_inv s" and started: "sd_done s \<noteq> None" and more: "sd_next s < length (sd_steps s)"
  shows "sd_inv (step_returns err s)"
proof -
  let ?n = "sd_steps s ! sd_next s"
  have "map fst (sd_log s @ [(?n, err)]) = take (Suc (sd_next s)) (sd_steps s)"
    using inv more by (simp add: sd_inv_def take_Suc_conv_app_nth)
  moreover have "reports (sd_log s @ [(?n, err)]) (sd_res (step_returns err s))"
    using inv by (auto simp: sd_inv_def reports_def step_returns_def Let_def split: option.split)
  moreover have "\<exists>k \<le> length (sd_log s @ [(?n, err)]). reports (take k (sd_log s @ [(?n, err)])) r \<and> (\<not> r_TimedOut r \<longrightarrow> k = length (sd_steps s))"
    if res: "sd_result s = Some r" for r
  proof -
    obtain k where "k \<le> length (sd_log s)" "reports (take k (sd_log s)) r" "\<not> r_TimedOut r \<longrightarrow> k = length (sd_steps s)"
      using inv res unfolding sd_inv_def by blast
    then show ?thesis by (intro exI [of _ k]) simp
  qed
  ultimately show ?thesis using inv started more
    by (auto simp: sd_inv_def step_returns_def Let_def split: option.split)
qed

lemma sd_inv_publish:
  assumes inv: "sd_inv s" and started: "sd_done s \<noteq> None" "sd_result s = None" and all: "\<not> t \<Longrightarrow> sd_next s = length (sd_steps s)"
  shows "sd_inv (publish t s)"
proof -
  have "sd_returned s = []" using inv started(2) by (cases "sd_returned s") (auto simp: sd_inv_def)
  moreover have "\<exists>k \<le> length (sd_log s). reports (take k (sd_log s)) ((sd_res s)\<lparr>r_TimedOut := t\<rparr>) \<and> (\<not> t \<longrightarrow> k = length (sd_steps s))"
    using inv all by (intro exI [of _ "length (sd_log s)"]) (auto simp: sd_inv_def reports_def)
  ultimately show ?thesis using inv started by (auto simp: sd_inv_def publish_def Let_def reports_def)
qed

interpretation shutdown: interleaving sd_step sd_inv
proof
  fix s s' assume "sd_step s s'" and inv: "sd_inv s"
  then show "sd_inv s'"
  proof cases
    case (Begin sig)
    then show ?thesis using inv by (auto simp: Run_begin_def sd_inv_def reports_def oks_def errs_def)
  next
    case (Again r)
    then show ?thesis using inv by (auto simp: Run_again_def sd_inv_def)
  next
    case Step
    then show ?thesis using sd_inv_step_returns [OF inv] by simp
  next
    case Finished
    then show ?thesis using sd_inv_publish [OF inv, of False] by simp
  next
    case TimedOut
    then show ?thesis using sd_inv_publish [OF inv, of True] by simp
  qed
qed

section \<open>Properties\<close>

lemma sd_inv_new: "sd_inv (NewCoordinator steps)"
  by (simp add: sd_inv_def NewCoordinator_def reports_def oks_def errs_def)

lemma sd_steps_const: "sd_step\<^sup>*\<^sup>* s s' \<Longrightarrow> sd_steps s' = sd_steps s"
proof (induction rule: rtranclp_induct)
  case (step y z)
  from step.hyps(2) show ?case using step.IH
    by cases (auto simp: Run_begin_def step_returns_def publish_def Run_again_def Let_def)
qed simp

text \<open>
  C32: Whatever the steps do and however signals and the timer interleave: the steps return in their order, each at most
  once, and a failing one never stops the later ones; every caller of \<^verbatim>\<open>Run\<close> gets the same result, that of the
  first signal; it lists exactly the steps that had returned by then; and without a time-out that is all of
  them.
\<close>

theorem shutdown_runs_once_in_order:
  assumes "sd_step\<^sup>*\<^sup>* (NewCoordinator steps) s"
  shows "prefix (map fst (sd_log s)) steps \<and> (\<forall>r \<in> set (sd_returned s). sd_result s = Some r) \<and>
    (sd_result s = Some r \<longrightarrow> sd_done s = Some (r_Signal r) \<and>
      (\<exists>l. prefix l (sd_log s) \<and> r_Completed r = oks l \<and> r_Failed r = errs l \<and> (ExitCode r = 0 \<longrightarrow> map fst l = steps)))"
proof -
  have inv: "sd_inv s" by (rule shutdown.reach_inv [OF assms sd_inv_new])
  have st: "sd_steps s = steps" using sd_steps_const [OF assms] by (simp add: NewCoordinator_def)
  have log: "map fst (sd_log s) = take (sd_next s) steps" using inv st by (simp add: sd_inv_def)
  have "\<exists>l. prefix l (sd_log s) \<and> r_Completed r = oks l \<and> r_Failed r = errs l \<and> (ExitCode r = 0 \<longrightarrow> map fst l = steps)" if res: "sd_result s = Some r"
  proof -
    obtain k where k: "k \<le> length (sd_log s)" "reports (take k (sd_log s)) r" "\<not> r_TimedOut r \<longrightarrow> k = length steps"
      using inv res st unfolding sd_inv_def by blast
    have "map fst (take k (sd_log s)) = steps" if "ExitCode r = 0"
    proof -
      have "k = length steps" using that k(3) by (auto simp: ExitCode_def split: if_splits)
      moreover have "sd_next s = length (sd_log s)" "length (sd_log s) \<le> length steps" using inv st by (auto simp: sd_inv_def)
      ultimately have "take k (sd_log s) = sd_log s" "take (sd_next s) steps = steps" using k(1) by simp_all
      then show ?thesis using log by simp
    qed
    then show ?thesis using k by (intro exI [of _ "take k (sd_log s)"]) (simp add: take_is_prefix reports_def)
  qed
  then show ?thesis using inv log by (auto simp: sd_inv_def take_is_prefix)
qed

definition sd_run :: shutdown where
  "sd_run = publish False (step_returns None (step_returns (Some ''e'') (Run_begin ''SIGTERM'' (NewCoordinator [''a'', ''b'']))))"

theorem shutdown_runs_once_in_order_witness:
  "prefix (map fst (sd_log sd_run)) [''a'', ''b''] \<and> map r_Completed (sd_returned sd_run) = [[''b'']]"
proof -
  let ?s1 = "Run_begin ''SIGTERM'' (NewCoordinator [''a'', ''b''])"
  let ?s2 = "step_returns (Some ''e'') ?s1"
  have 1: "sd_step (NewCoordinator [''a'', ''b'']) ?s1" by (rule sd_step.Begin)
  have 2: "sd_step ?s1 ?s2" by (rule sd_step.Step) (simp_all add: Run_begin_def NewCoordinator_def)
  have 3: "sd_step ?s2 (step_returns None ?s2)" by (rule sd_step.Step) (simp_all add: Run_begin_def NewCoordinator_def step_returns_def Let_def)
  have 4: "sd_step (step_returns None ?s2) sd_run" unfolding sd_run_def
    by (rule sd_step.Finished) (simp_all add: Run_begin_def NewCoordinator_def step_returns_def Let_def)
  from 1 2 3 4 have "sd_step\<^sup>*\<^sup>* (NewCoordinator [''a'', ''b'']) sd_run" by (meson rtranclp.rtrancl_into_rtrancl rtranclp.rtrancl_refl)
  from shutdown_runs_once_in_order [OF this] show ?thesis
    by (simp add: sd_run_def publish_def Run_begin_def NewCoordinator_def step_returns_def Let_def)
qed

end
