(* ===== verification/AdminAuth.thy ===== *)
theory AdminAuth
  imports Market
begin

text \<open>
  Admin sessions (\<^verbatim>\<open>internal/auth/auth.go\<close>) over their table (\<^verbatim>\<open>internal/store/store.go\<close>). Memory is the read path;
  saving and deleting rows runs in background goroutines, here a bag of pending jobs that may run in any order, fail,
  or be lost in a restart. Tokens and instants are arguments. \<open>au_minted\<close> records what was ever issued.
\<close>

section \<open>State\<close>

datatype role = RoleNone | RoleFull | RoleTrade

definition SessionTTL_ms :: int where "SessionTTL_ms = 24 * 60 * 60 * 1000"

datatype job = SaveAdminSession string role millis | DeleteAdminSession string

record auth =
  au_m :: "(string \<times> (millis \<times> role)) list"
  au_store :: bool
  au_jobs :: "job list"
  au_db :: "(string \<times> (millis \<times> role)) list"
  au_minted :: "(string \<times> (millis \<times> role)) list"

definition NewSessions :: "bool \<Rightarrow> auth" where
  "NewSessions store = \<lparr>au_m = [], au_store = store, au_jobs = [], au_db = [], au_minted = []\<rparr>"

section \<open>Operations\<close>

definition persist :: "job \<Rightarrow> auth \<Rightarrow> auth" where
  "persist j s = s\<lparr>au_jobs := au_jobs s @ [j]\<rparr>"

definition Mint :: "millis \<Rightarrow> string \<Rightarrow> role \<Rightarrow> auth \<Rightarrow> auth" where
  "Mint now tok r s =
     (let expiry = now + SessionTTL_ms;
          s1 = s\<lparr>au_m := AList.update tok (expiry, r) (au_m s), au_minted := (tok, (expiry, r)) # au_minted s\<rparr>
      in if au_store s1 then persist (SaveAdminSession tok r expiry) s1 else s1)"

definition Role :: "millis \<Rightarrow> string \<Rightarrow> auth \<Rightarrow> auth \<times> role" where
  "Role now tok s =
     (if tok = '''' then (s, RoleNone)
      else case map_of (au_m s) tok of
        None \<Rightarrow> (s\<lparr>au_m := AList.delete tok (au_m s)\<rparr>, RoleNone)
      | Some (expiry, r) \<Rightarrow>
          if now > expiry then
            let s1 = s\<lparr>au_m := AList.delete tok (au_m s)\<rparr>
            in (if au_store s1 then persist (DeleteAdminSession tok) s1 else s1, RoleNone)
          else (s, r))"

definition LoadAdminSessions :: "millis \<Rightarrow> auth \<Rightarrow> (string \<times> (millis \<times> role)) list" where
  "LoadAdminSessions now s = filter (\<lambda>(_, (expiry, _)). expiry > now) (au_db s)"

definition Restore :: "bool \<Rightarrow> millis \<Rightarrow> auth \<Rightarrow> auth" where
  "Restore ok now s =
     (if \<not> au_store s \<or> \<not> ok then s
      else s\<lparr>au_m := fold (\<lambda>(tok, v). AList.update tok v) (LoadAdminSessions now s) (au_m s)\<rparr>)"

definition PurgeExpiredAdminSessions :: "millis \<Rightarrow> auth \<Rightarrow> auth" where
  "PurgeExpiredAdminSessions now s = s\<lparr>au_db := filter (\<lambda>(_, (expiry, _)). \<not> expiry \<le> now) (au_db s)\<rparr>"

text \<open>The middleware: which requests reach the handler.\<close>

definition RequireAdmin :: "millis \<Rightarrow> string \<Rightarrow> auth \<Rightarrow> auth \<times> bool" where
  "RequireAdmin now tok s = (case Role now tok s of (s', r) \<Rightarrow> (s', r \<noteq> RoleNone))"

definition RequireFull :: "millis \<Rightarrow> string \<Rightarrow> auth \<Rightarrow> auth \<times> bool" where
  "RequireFull now tok s = (case Role now tok s of (s', r) \<Rightarrow> (s', r = RoleFull))"

text \<open>A background job runs (the \<open>k\<close>-th pending one), with or without success.\<close>

definition apply_job :: "job \<Rightarrow> (string \<times> (millis \<times> role)) list \<Rightarrow> (string \<times> (millis \<times> role)) list" where
  "apply_job j db = (case j of SaveAdminSession tok r expiry \<Rightarrow> AList.update tok (expiry, r) db | DeleteAdminSession tok \<Rightarrow> AList.delete tok db)"

definition run_job :: "nat \<Rightarrow> bool \<Rightarrow> auth \<Rightarrow> auth" where
  "run_job k ok s =
     (if k < length (au_jobs s)
      then s\<lparr>au_jobs := take k (au_jobs s) @ drop (Suc k) (au_jobs s), au_db := (if ok then apply_job (au_jobs s ! k) (au_db s) else au_db s)\<rparr>
      else s)"

text \<open>The process starts again: memory and pending jobs are gone.\<close>

definition restart :: "auth \<Rightarrow> auth" where
  "restart s = s\<lparr>au_m := [], au_jobs := []\<rparr>"

section \<open>Passcodes\<close>

datatype passcode_result = PasscodeOK | PasscodeForbidden | PasscodeNotConfigured

text \<open>\<open>sha256\<close> stands for \<^verbatim>\<open>sha256.Sum256\<close>.\<close>

definition CheckPasscode :: "(string \<Rightarrow> 'h) \<Rightarrow> string \<Rightarrow> string \<Rightarrow> bool \<Rightarrow> passcode_result" where
  "CheckPasscode sha256 configured provided supplied =
     (let secret = trim_space configured
      in if secret = '''' then PasscodeNotConfigured
         else if \<not> supplied \<or> provided = '''' then PasscodeForbidden
         else if sha256 secret = sha256 provided then PasscodeOK else PasscodeForbidden)"

fun join :: "string \<Rightarrow> string list \<Rightarrow> string" where
  "join sep [] = ''''"
| "join sep [x] = x"
| "join sep (x # y # xs) = x @ sep @ join sep (y # xs)"

definition ReadPasscode :: "string list \<Rightarrow> string list \<Rightarrow> string \<times> bool" where
  "ReadPasscode headers queries =
     (if headers \<noteq> [] then (join '', '' headers, True)
      else case queries of [q] \<Rightarrow> (q, True) | _ \<Rightarrow> ('''', False))"

section \<open>Runs\<close>

datatype auth_ev = EMint millis string role | ERole millis string | EJob nat bool | ERestart | ERestore bool millis | EPurge millis

fun auth_step :: "auth \<Rightarrow> auth_ev \<Rightarrow> auth" where
  "auth_step s (EMint now tok r) = Mint now tok r s"
| "auth_step s (ERole now tok) = fst (Role now tok s)"
| "auth_step s (EJob k ok) = run_job k ok s"
| "auth_step s ERestart = restart s"
| "auth_step s (ERestore ok now) = Restore ok now s"
| "auth_step s (EPurge now) = PurgeExpiredAdminSessions now s"

text \<open>Everything in memory, in the table or on its way there was issued.\<close>

definition issued :: "auth \<Rightarrow> bool" where
  "issued s \<longleftrightarrow> set (au_m s) \<subseteq> set (au_minted s) \<and> set (au_db s) \<subseteq> set (au_minted s) \<and>
     (\<forall>tok r e. SaveAdminSession tok r e \<in> set (au_jobs s) \<longrightarrow> (tok, (e, r)) \<in> set (au_minted s))"

lemma set_update_subset: "set (AList.update k v m) \<subseteq> insert (k, v) (set m)"
  by (induction m) auto

lemma set_delete_subset: "set (AList.delete k m) \<subseteq> set m"
  by (auto simp: AList.delete_eq)

lemma set_fold_update: "set rows \<union> set m \<subseteq> A \<Longrightarrow> set (fold (\<lambda>(k, v). AList.update k v) rows m) \<subseteq> A"
proof (induction rows arbitrary: m)
  case (Cons p rows)
  then show ?case using set_update_subset [of "fst p" "snd p" m] by (cases p) (simp, blast)
qed simp

interpretation issued_sessions: step_system auth_step issued
proof
  fix s ev assume inv: "issued s"
  show "issued (auth_step s ev)"
  proof (cases ev)
    case (EMint now tok r)
    then show ?thesis using inv set_update_subset [of tok "(now + SessionTTL_ms, r)" "au_m s"]
      by (auto simp: issued_def Mint_def persist_def Let_def)
  next
    case (ERole now tok)
    then show ?thesis using inv set_delete_subset [of tok "au_m s"]
      by (auto simp: issued_def Role_def persist_def Let_def split: option.split)
  next
    case (EJob k ok)
    show ?thesis
    proof (cases "k < length (au_jobs s)")
      case True
      then have mem: "au_jobs s ! k \<in> set (au_jobs s)" by simp
      have "set (apply_job (au_jobs s ! k) (au_db s)) \<subseteq> set (au_minted s)"
      proof (cases "au_jobs s ! k")
        case (SaveAdminSession tok r e)
        then show ?thesis using inv mem set_update_subset [of tok "(e, r)" "au_db s"] by (force simp: issued_def apply_job_def)
      next
        case (DeleteAdminSession tok)
        then show ?thesis using inv set_delete_subset [of tok "au_db s"] by (auto simp: issued_def apply_job_def)
      qed
      then show ?thesis using inv EJob True
        by (auto simp: issued_def run_job_def dest: in_set_takeD in_set_dropD)
    qed (use inv EJob in \<open>simp add: run_job_def\<close>)
  next
    case (ERestore ok now)
    have "set (LoadAdminSessions now s) \<union> set (au_m s) \<subseteq> set (au_minted s)" using inv by (auto simp: issued_def LoadAdminSessions_def)
    from set_fold_update [OF this] show ?thesis using inv ERestore by (auto simp: issued_def Restore_def)
  qed (use inv in \<open>auto simp: issued_def restart_def PurgeExpiredAdminSessions_def\<close>)
qed

section \<open>A session until it expires\<close>

definition session_valid :: "string \<Rightarrow> millis \<Rightarrow> role \<Rightarrow> auth \<Rightarrow> bool" where
  "session_valid tok e r s \<longleftrightarrow> map_of (au_m s) tok = Some (e, r) \<and> (\<forall>v. (tok, v) \<in> set (au_db s) \<longrightarrow> v = (e, r)) \<and>
     (\<forall>r' e'. SaveAdminSession tok r' e' \<in> set (au_jobs s) \<longrightarrow> r' = r \<and> e' = e)"

fun keeps :: "string \<Rightarrow> millis \<Rightarrow> auth_ev \<Rightarrow> bool" where
  "keeps tok e (EMint _ tok' _) \<longleftrightarrow> tok' \<noteq> tok"
| "keeps tok e (ERole now tok') \<longleftrightarrow> tok' = tok \<longrightarrow> now \<le> e"
| "keeps tok e ERestart \<longleftrightarrow> False"
| "keeps tok e _ \<longleftrightarrow> True"

lemma restore_keeps:
  "map_of m tok = Some v \<Longrightarrow> (\<And>w. (tok, w) \<in> set rows \<Longrightarrow> w = v) \<Longrightarrow> map_of (fold (\<lambda>(k, v). AList.update k v) rows m) tok = Some v"
proof (induction rows arbitrary: m)
  case (Cons p rows)
  obtain k w where p: "p = (k, w)" by (cases p)
  have "map_of (AList.update k w m) tok = Some v" using Cons.prems p by (cases "k = tok") (auto simp: update_conv')
  then show ?case using Cons.IH [of "AList.update k w m"] Cons.prems(2) p by simp
qed simp

interpretation live_session: guarded_steps auth_step "session_valid tok e r" "keeps tok e" for tok e r
proof
  fix s ev assume v: "session_valid tok e r s" and k: "keeps tok e ev"
  show "session_valid tok e r (auth_step s ev)"
  proof (cases ev)
    case (EMint now tok' r')
    then show ?thesis using v k by (auto simp: session_valid_def Mint_def persist_def Let_def update_conv')
  next
    case (ERole now tok')
    then show ?thesis using v k by (auto simp: session_valid_def Role_def persist_def Let_def delete_conv' split: option.split)
  next
    case (EJob i ok)
    show ?thesis
    proof (cases "i < length (au_jobs s)")
      case True
      then have mem: "au_jobs s ! i \<in> set (au_jobs s)" by simp
      have "w = (e, r)" if w: "(tok, w) \<in> set (apply_job (au_jobs s ! i) (au_db s))" for w
      proof (cases "au_jobs s ! i")
        case (SaveAdminSession tok' r' e')
        then have "(tok, w) \<in> insert (tok', (e', r')) (set (au_db s))"
          using w set_update_subset [of tok' "(e', r')" "au_db s"] by (auto simp: apply_job_def)
        then show ?thesis using v mem SaveAdminSession unfolding session_valid_def by (metis insert_iff prod.inject)
      next
        case (DeleteAdminSession tok')
        then have "(tok, w) \<in> set (au_db s)" using w set_delete_subset [of tok' "au_db s"] by (auto simp: apply_job_def)
        then show ?thesis using v by (simp only: session_valid_def)
      qed
      then show ?thesis using v EJob True by (auto simp: session_valid_def run_job_def dest: in_set_takeD in_set_dropD)
    qed (use v EJob in \<open>simp add: run_job_def\<close>)
  next
    case (ERestore ok now)
    then show ?thesis using v restore_keeps [of "au_m s" tok "(e, r)" "LoadAdminSessions now s"]
      by (auto simp: session_valid_def Restore_def LoadAdminSessions_def)
  qed (use v k in \<open>auto simp: session_valid_def PurgeExpiredAdminSessions_def\<close>)
qed

section \<open>Properties\<close>

lemma issued_new: "issued (NewSessions st)"
  by (simp add: issued_def NewSessions_def)

lemma minted_expiry: "auth_step s ev = s' \<Longrightarrow> au_minted s' = au_minted s \<or> (\<exists>now tok r. ev = EMint now tok r \<and> au_minted s' = (tok, (now + SessionTTL_ms, r)) # au_minted s)"
  by (cases ev) (auto simp: Mint_def Role_def run_job_def restart_def Restore_def PurgeExpiredAdminSessions_def persist_def Let_def split: option.split if_splits)

lemma minted_run: "(tok, (e, r)) \<in> set (au_minted (foldl auth_step (NewSessions st) evs)) \<Longrightarrow> EMint (e - SessionTTL_ms) tok r \<in> set evs"
proof (induction evs rule: rev_induct)
  case (snoc ev evs)
  from minted_expiry [OF refl, of "foldl auth_step (NewSessions st) evs" ev] snoc show ?case by auto
qed (simp add: NewSessions_def)

lemma role_from_login:
  assumes "issued s" "snd (Role now tok s) = r" "r \<noteq> RoleNone"
  shows "\<exists>e. (tok, (e, r)) \<in> set (au_minted s) \<and> now \<le> e"
  using assms by (auto simp: Role_def issued_def Let_def not_less intro!: exI split: if_splits option.splits dest!: map_of_SomeD)

text \<open>
  C33: No request passes as admin without a login: whatever the order of logins, checks, background writes, failures,
  restarts and restores, a token has role \<open>r\<close> at an instant only if it was issued with exactly that role at most
  24 hours earlier; in particular a trade login never gets the full role.
\<close>

theorem role_requires_login:
  assumes "s = foldl auth_step (NewSessions st) evs"
  shows "(snd (RequireAdmin now tok s) \<longrightarrow> (\<exists>login. EMint login tok (snd (Role now tok s)) \<in> set evs \<and> now \<le> login + SessionTTL_ms)) \<and>
    (snd (RequireFull now tok s) \<longrightarrow> (\<exists>login. EMint login tok RoleFull \<in> set evs \<and> now \<le> login + SessionTTL_ms))"
proof -
  have issued: "issued s" using assms issued_sessions.run_inv [OF issued_new] by simp
  have "\<exists>login. EMint login tok r \<in> set evs \<and> now \<le> login + SessionTTL_ms" if r: "snd (Role now tok s) = r" "r \<noteq> RoleNone" for r
  proof -
    obtain e where "(tok, (e, r)) \<in> set (au_minted s)" "now \<le> e" using role_from_login [OF issued r] by blast
    then show ?thesis using minted_run assms by (intro exI [of _ "e - SessionTTL_ms"]) auto
  qed
  then show ?thesis by (auto simp: RequireAdmin_def RequireFull_def split: prod.splits)
qed

theorem role_requires_login_witness:
  "\<exists>login. EMint login ''t'' RoleFull \<in> set [EMint 5 ''t'' RoleFull, ERole 6 ''t''] \<and> 10 \<le> login + SessionTTL_ms"
  using role_requires_login [OF refl, where now = 10 and tok = "''t''" and st = True and evs = "[EMint 5 ''t'' RoleFull, ERole 6 ''t'']"]
  by (simp add: RequireFull_def Role_def Mint_def NewSessions_def persist_def SessionTTL_ms_def Let_def)

text \<open>
  A login lasts: a freshly issued token keeps its role at every instant up to its expiry, through other logins,
  checks of this and other tokens, background writes in any order, failed or not, restores and purges, as long as the
  process lives and the random token is not drawn again.
\<close>

theorem login_lasts_until_expiry:
  assumes "s = foldl auth_step (NewSessions st) evs" and "tok \<noteq> ''''" and "\<forall>t r. EMint t tok r \<notin> set evs"
    and "list_all (keeps tok (login + SessionTTL_ms)) later" and "now \<le> login + SessionTTL_ms"
  shows "snd (Role now tok (foldl auth_step (Mint login tok r s) later)) = r"
proof -
  have "issued s" using assms(1) issued_sessions.run_inv [OF issued_new] by simp
  moreover have "(tok, v) \<notin> set (au_minted s)" for v using minted_run assms(1,3) by (cases v) blast
  ultimately have "(tok, v) \<notin> set (au_db s)" "SaveAdminSession tok r' e' \<notin> set (au_jobs s)" for v r' e' unfolding issued_def by blast+
  then have "session_valid tok (login + SessionTTL_ms) r (Mint login tok r s)"
    by (auto simp: session_valid_def Mint_def persist_def Let_def update_conv')
  from live_session.guarded_run_inv [OF this assms(4)] show ?thesis using assms(2,5) by (auto simp: session_valid_def Role_def)
qed

theorem login_lasts_until_expiry_witness:
  "snd (Role 9 ''t'' (foldl auth_step (Mint 5 ''t'' RoleTrade (foldl auth_step (NewSessions True) [EMint 1 ''u'' RoleFull]))
     [ERole 8 ''t'', EJob 1 False, ERestore True 8])) = RoleTrade"
  by (rule login_lasts_until_expiry [OF refl]) (simp_all add: SessionTTL_ms_def)

text \<open>
  A passcode is accepted exactly when one is configured, one was supplied, and the supplied text is the configured
  one with surrounding blanks removed; an unset secret never accepts anything. (The hashes compared are taken
  not to collide on these two strings.)
\<close>

theorem passcode_exact:
  assumes "sha256 (trim_space configured) = sha256 provided \<longrightarrow> trim_space configured = provided"
  shows "(CheckPasscode sha256 configured provided supplied = PasscodeOK \<longleftrightarrow> supplied \<and> provided \<noteq> '''' \<and> provided = trim_space configured) \<and>
    (CheckPasscode sha256 configured provided supplied = PasscodeNotConfigured \<longleftrightarrow> trim_space configured = '''')"
  using assms by (auto simp: CheckPasscode_def Let_def)

theorem passcode_exact_witness:
  "CheckPasscode (\<lambda>s. s) '' s3cret '' ''s3cret'' True = PasscodeOK"
  using passcode_exact [of "\<lambda>s. s" "'' s3cret ''" "''s3cret''" True] by (simp add: trim_space_def is_space_def Let_def)

end
