(* ===== verification/DhanFeed.thy ===== *)
theory DhanFeed
  imports DhanWire
begin

text \<open>
  One Dhan market-data socket (\<^verbatim>\<open>internal/brokers/dhan/feed.go\<close>): the wanted tokens, the connection and its reconnect
  timer, the merged book per token, and the queue through which callbacks are delivered. Every function is one section
  under the feed's lock (or the part of one goroutine between two lock operations); \<open>feed_ev\<close> interleaves them. A socket
  is identified by its epoch, as the comparison \<^verbatim>\<open>f.sock != s\<close> does. The answers of the collaborators (credentials, clock,
  how many socket writes succeed) are an \<open>fenv\<close> per event; \<^verbatim>\<open>Resolve\<close> is the parameter \<open>resolve\<close>.
  \<open>fd_wire\<close> records what was written to each socket, \<open>fd_werr\<close> whether a write to the current one failed, \<open>fd_calls\<close> the
  callbacks made, \<open>fd_seen\<close> the packets merged since the books were last discarded.
\<close>

section \<open>State\<close>

definition requestSubscribeFull :: int where "requestSubscribeFull = 21"
definition requestUnsubscribeFull :: int where "requestUnsubscribeFull = 22"
definition requestDisconnect :: int where "requestDisconnect = 12"
definition SubscribeBatch :: nat where "SubscribeBatch = 100"

type_synonym feed_instrument = "segment \<times> int"

datatype wire_msg = InstrumentRequest int "feed_instrument list" | PlainRequest int

record feed_state =
  fs_Token :: token
  fs_LastPrice :: f64
  fs_ClosePrice :: f64
  fs_OI :: f64
  fs_Volume :: f64
  fs_AveragePrice :: f64
  fs_Bids :: "depth_level list"
  fs_Asks :: "depth_level list"
  fs_ReceivedAt :: millis

datatype feed_event = EvTicks nat "tick list" | EvConnection bool | EvSessionLost int

datatype feed_call = OnTicks "tick list" | OnConnection bool | OnSessionLost int

text \<open>What the draining goroutine is doing between two lock sections.\<close>

datatype delivery = Quiet | Taken feed_event | InCall feed_call

record feed =
  fd_sock :: "(nat \<times> bool) option"
  fd_connected :: bool
  fd_wanted :: "(token \<times> nat) list"
  fd_wantSeq :: nat
  fd_subscribed :: "token list"
  fd_state :: "(token \<times> feed_state) list"
  fd_timer :: "(nat \<times> int) option"
  fd_timerSeq :: nat
  fd_attempts :: int
  fd_disposed :: bool
  fd_lastTickAt :: millis
  fd_generation :: int
  fd_epoch :: nat
  fd_index :: "((int \<times> int) \<times> token) list"
  fd_indexValid :: bool
  fd_events :: "feed_event list"
  fd_draining :: bool
  fd_busy :: delivery
  fd_calls :: "feed_call list"
  fd_wire :: "(nat \<times> wire_msg) list"
  fd_werr :: bool
  fd_seen :: "(token \<times> packet \<times> millis) list"

record fenv =
  fe_token :: string
  fe_client :: string
  fe_urlOk :: bool
  fe_now :: millis
  fe_writes :: nat

definition NewFeed :: feed where
  "NewFeed = \<lparr>fd_sock = None, fd_connected = False, fd_wanted = [], fd_wantSeq = 0, fd_subscribed = [], fd_state = [], fd_timer = None,
     fd_timerSeq = 0, fd_attempts = 0, fd_disposed = False, fd_lastTickAt = 0, fd_generation = 0, fd_epoch = 0, fd_index = [],
     fd_indexValid = False, fd_events = [], fd_draining = False, fd_busy = Quiet, fd_calls = [], fd_wire = [], fd_werr = False, fd_seen = []\<rparr>"

abbreviation wanted_set :: "feed \<Rightarrow> token set" where
  "wanted_set f \<equiv> fst ` set (fd_wanted f)"

section \<open>Helpers\<close>

definition ToTick :: "feed_state \<Rightarrow> bool \<Rightarrow> tick" where
  "ToTick s depthUpdated = zero_tick\<lparr>
     t_Token := fs_Token s, t_LastPrice := fs_LastPrice s, t_ClosePrice := fs_ClosePrice s, t_OI := fs_OI s,
     t_Bid := (case fs_Bids s of [] \<Rightarrow> f_zero | l # _ \<Rightarrow> dl_Price l), t_Ask := (case fs_Asks s of [] \<Rightarrow> f_zero | l # _ \<Rightarrow> dl_Price l),
     t_Bids := Some (fs_Bids s), t_Asks := Some (fs_Asks s), t_DepthUpdated := Some depthUpdated, t_AveragePrice := Some (fs_AveragePrice s)\<rparr>"

definition ReconnectDelay :: "int \<Rightarrow> int" where
  "ReconnectDelay attempt =
     (let e = attempt - 1; e = (if e > 6 then 6 else e); e = (if e < 0 then 0 else e)
      in min 30000 (500 * 2 ^ nat e))"

definition IsAuthClose :: "int \<Rightarrow> bool" where
  "IsAuthClose code \<longleftrightarrow> code = 1008 \<or> code = 4001 \<or> code = 4401 \<or> code = 4403"

definition wantedInOrder :: "feed \<Rightarrow> token list" where
  "wantedInOrder f = map fst (sort_key snd (fd_wanted f))"

definition enqueue :: "feed_event \<Rightarrow> feed \<Rightarrow> feed" where
  "enqueue ev f = f\<lparr>fd_events := fd_events f @ [ev]\<rparr>"

text \<open>Dropping every book (\<^verbatim>\<open>f.state = map[...]\<close>).\<close>

definition clear_books :: "feed \<Rightarrow> feed" where
  "clear_books f = f\<lparr>fd_subscribed := [], fd_state := [], fd_lastTickAt := 0, fd_seen := []\<rparr>"

function chunks :: "nat \<Rightarrow> 'a list \<Rightarrow> 'a list list" where
  "chunks n xs = (if xs = [] \<or> n = 0 then [] else take n xs # chunks n (drop n xs))"
  by pat_completeness auto
termination by (relation "measure (\<lambda>(n, xs). length xs)") auto

declare chunks.simps [simp del]

definition sendInstrumentRequestLocked :: "(token \<Rightarrow> feed_instrument option) \<Rightarrow> fenv \<Rightarrow> int \<Rightarrow> token list \<Rightarrow> feed \<Rightarrow> feed" where
  "sendInstrumentRequestLocked resolve env code tokens f =
     (case fd_sock f of
        Some (e, True) \<Rightarrow>
          if \<not> fd_connected f then f
          else let batches = chunks SubscribeBatch (List.map_filter resolve tokens)
               in f\<lparr>fd_wire := fd_wire f @ map (\<lambda>b. (e, InstrumentRequest code b)) (take (fe_writes env) batches),
                    fd_werr := (fd_werr f \<or> fe_writes env < length batches)\<rparr>
      | _ \<Rightarrow> f)"

definition scheduleReconnectLocked :: "feed \<Rightarrow> feed" where
  "scheduleReconnectLocked f =
     (if fd_disposed f \<or> fd_timer f \<noteq> None then f
      else let n = fd_attempts f + 1; sq = Suc (fd_timerSeq f)
           in f\<lparr>fd_attempts := n, fd_timerSeq := sq, fd_timer := Some (sq, ReconnectDelay n)\<rparr>)"

definition ensureSocketLocked :: "fenv \<Rightarrow> feed \<Rightarrow> feed" where
  "ensureSocketLocked env f =
     (if fd_disposed f \<or> fd_sock f \<noteq> None then f
      else if fe_token env = '''' \<or> fe_client env = '''' then f
      else if \<not> fe_urlOk env then scheduleReconnectLocked f
      else f\<lparr>fd_epoch := Suc (fd_epoch f), fd_sock := Some (Suc (fd_epoch f), False)\<rparr>)"

section \<open>Operations\<close>

definition want :: "token \<Rightarrow> feed \<Rightarrow> feed" where
  "want t f = (if t \<in> wanted_set f then f
     else f\<lparr>fd_wantSeq := Suc (fd_wantSeq f), fd_wanted := AList.update t (Suc (fd_wantSeq f)) (fd_wanted f)\<rparr>)"

definition SubscribeTokens :: "(token \<Rightarrow> feed_instrument option) \<Rightarrow> fenv \<Rightarrow> token list \<Rightarrow> feed \<Rightarrow> feed" where
  "SubscribeTokens resolve env tokens f =
     (let fresh = filter (\<lambda>t. t \<notin> wanted_set f) tokens; f1 = fold want fresh f
      in if fresh = [] then f1
         else let f2 = ensureSocketLocked env (f1\<lparr>fd_indexValid := False\<rparr>)
              in if fd_connected f2 then sendInstrumentRequestLocked resolve env requestSubscribeFull fresh f2 else f2)"

definition unwant :: "token \<Rightarrow> feed \<Rightarrow> feed" where
  "unwant t f = f\<lparr>fd_wanted := AList.delete t (fd_wanted f), fd_subscribed := removeAll t (fd_subscribed f), fd_state := AList.delete t (fd_state f),
     fd_seen := filter (\<lambda>p. fst p \<noteq> t) (fd_seen f)\<rparr>"

definition UnsubscribeTokens :: "(token \<Rightarrow> feed_instrument option) \<Rightarrow> fenv \<Rightarrow> token list \<Rightarrow> feed \<Rightarrow> feed" where
  "UnsubscribeTokens resolve env tokens f =
     (let drop = filter (\<lambda>t. t \<in> wanted_set f) tokens
      in if drop = [] then f
         else let f1 = (fold unwant drop f)\<lparr>fd_indexValid := False\<rparr>
              in if fd_connected f1 then sendInstrumentRequestLocked resolve env requestUnsubscribeFull drop f1 else f1)"

definition RefreshResolutions :: "feed \<Rightarrow> feed" where
  "RefreshResolutions f = f\<lparr>fd_indexValid := False\<rparr>"

text \<open>\<^verbatim>\<open>run\<close> after a successful dial of the socket with epoch \<open>e\<close>.\<close>

definition socket_open :: "(token \<Rightarrow> feed_instrument option) \<Rightarrow> fenv \<Rightarrow> nat \<Rightarrow> feed \<Rightarrow> feed" where
  "socket_open resolve env e f =
     (if fd_sock f \<noteq> Some (e, False) then f
      else let f1 = clear_books (f\<lparr>fd_sock := Some (e, True), fd_connected := True, fd_attempts := 0, fd_generation := fd_generation f + 1, fd_werr := False\<rparr>);
               f2 = (if fd_wanted f1 \<noteq> [] then sendInstrumentRequestLocked resolve env requestSubscribeFull (wantedInOrder f1) f1 else f1)
           in enqueue (EvConnection True) f2)"

text \<open>\<^verbatim>\<open>handleClose\<close>: a failed dial (code 1006), a read error or a close frame of socket \<open>e\<close>.\<close>

definition handleClose :: "nat \<Rightarrow> int \<Rightarrow> feed \<Rightarrow> feed" where
  "handleClose e code f =
     (if map_option fst (fd_sock f) \<noteq> Some e then f
      else let f1 = enqueue (EvConnection False) (clear_books (f\<lparr>fd_sock := None, fd_connected := False\<rparr>))
           in if IsAuthClose code then enqueue (EvSessionLost code) f1 else scheduleReconnectLocked f1)"

text \<open>The lookup from (segment code, security id) to the first wanted token that resolves to it, rebuilt when invalid.\<close>

fun build_index :: "(token \<Rightarrow> feed_instrument option) \<Rightarrow> token list \<Rightarrow> ((int \<times> int) \<times> token) list \<Rightarrow> ((int \<times> int) \<times> token) list" where
  "build_index resolve [] m = m"
| "build_index resolve (t # ts) m = build_index resolve ts
     (case resolve t of None \<Rightarrow> m
      | Some (seg, sid) \<Rightarrow>
          (case map_of CodeBySegment seg of None \<Rightarrow> m
           | Some c \<Rightarrow> if map_of m (c, sid) \<noteq> None then m else AList.update (c, sid) t m))"

definition refresh_index :: "(token \<Rightarrow> feed_instrument option) \<Rightarrow> feed \<Rightarrow> feed" where
  "refresh_index resolve f =
     (if fd_indexValid f then f else f\<lparr>fd_index := build_index resolve (wantedInOrder f) [], fd_indexValid := True\<rparr>)"

definition tokenForLocked :: "(token \<Rightarrow> feed_instrument option) \<Rightarrow> packet \<Rightarrow> feed \<Rightarrow> feed \<times> token option" where
  "tokenForLocked resolve p f =
     (if p_Segment p = '''' then (f, None)
      else let code = (case map_of CodeBySegment (p_Segment p) of Some c \<Rightarrow> c | None \<Rightarrow> 0); f1 = refresh_index resolve f
           in (f1, map_of (fd_index f1) (code, p_SecurityID p)))"

definition fresh_state :: "token \<Rightarrow> millis \<Rightarrow> feed_state" where
  "fresh_state t now = \<lparr>fs_Token = t, fs_LastPrice = f_zero, fs_ClosePrice = f_zero, fs_OI = f_zero, fs_Volume = f_zero,
     fs_AveragePrice = f_zero, fs_Bids = [], fs_Asks = [], fs_ReceivedAt = now\<rparr>"

text \<open>A field the packet carries replaces the accumulated one.\<close>

definition take_over :: "'a option \<Rightarrow> 'a \<Rightarrow> 'a" where
  "take_over new old = (case new of Some v \<Rightarrow> v | None \<Rightarrow> old)"

definition merge :: "packet \<Rightarrow> millis \<Rightarrow> feed_state \<Rightarrow> feed_state" where
  "merge p now s =
     (let close = take_over (p_Close p) (fs_ClosePrice s);
          close = (case p_PrevClose p of Some v \<Rightarrow> if f_eq close f_zero then v else close | None \<Rightarrow> close);
          oi = take_over (map_option f_of_int (p_OI p)) (fs_OI s);
          oi = (case p_PrevOI p of Some v \<Rightarrow> if f_eq oi f_zero then f_of_int v else oi | None \<Rightarrow> oi)
      in s\<lparr>fs_LastPrice := take_over (p_LastPrice p) (fs_LastPrice s), fs_ClosePrice := close, fs_OI := oi,
           fs_Volume := take_over (map_option f_of_int (p_Volume p)) (fs_Volume s),
           fs_AveragePrice := take_over (p_AveragePrice p) (fs_AveragePrice s),
           fs_Bids := take_over (p_Bids p) (fs_Bids s), fs_Asks := take_over (p_Asks p) (fs_Asks s), fs_ReceivedAt := now\<rparr>)"

definition mergeLocked :: "token \<Rightarrow> packet \<Rightarrow> millis \<Rightarrow> feed \<Rightarrow> feed \<times> feed_state" where
  "mergeLocked t p now f =
     (let old = (case map_of (fd_state f) t of Some s \<Rightarrow> s | None \<Rightarrow> fresh_state t now); new = merge p now old
      in (f\<lparr>fd_state := AList.update t new (fd_state f), fd_seen := fd_seen f @ [(t, p, now)]\<rparr>, new))"

definition packet_tick :: "packet \<Rightarrow> feed_state \<Rightarrow> tick" where
  "packet_tick p s = (ToTick s (p_Bids p \<noteq> None \<or> p_Asks p \<noteq> None))
     \<lparr>t_PriceUpdated := Some (p_LastPrice p \<noteq> None), t_AverageUpdated := Some (p_AveragePrice p \<noteq> None)\<rparr>"

fun take_packets :: "(token \<Rightarrow> feed_instrument option) \<Rightarrow> millis \<Rightarrow> packet list \<Rightarrow> feed \<Rightarrow> feed \<times> tick list" where
  "take_packets resolve now [] f = (f, [])"
| "take_packets resolve now (p # ps) f =
     (if p_Code p = FeedCodeDisconnect \<or> p_Code p = FeedCodeMarketStatus then take_packets resolve now ps f
      else case tokenForLocked resolve p f of
        (f1, None) \<Rightarrow> take_packets resolve now ps f1
      | (f1, Some t) \<Rightarrow>
          (let (f2, s) = mergeLocked t p now (f1\<lparr>fd_subscribed := List.insert t (fd_subscribed f1)\<rparr>);
               (f3, ticks) = take_packets resolve now ps f2
           in (f3, packet_tick p s # ticks)))"

definition handleFrameLocked :: "(token \<Rightarrow> feed_instrument option) \<Rightarrow> byte list \<Rightarrow> millis \<Rightarrow> feed \<Rightarrow> feed" where
  "handleFrameLocked resolve buf now f =
     (case DecodeFeed buf of None \<Rightarrow> f
      | Some res \<Rightarrow>
          if r_Packets res = [] then f
          else let (f1, ticks) = take_packets resolve now (r_Packets res) f
               in if ticks = [] then f1
                  else enqueue (EvTicks (case fd_sock f1 of Some (e, _) \<Rightarrow> e | None \<Rightarrow> 0) ticks) (f1\<lparr>fd_lastTickAt := now\<rparr>))"

text \<open>The read loop of \<^verbatim>\<open>run\<close>: a binary frame of socket \<open>e\<close>.\<close>

definition socket_frame :: "(token \<Rightarrow> feed_instrument option) \<Rightarrow> fenv \<Rightarrow> nat \<Rightarrow> byte list \<Rightarrow> feed \<Rightarrow> feed" where
  "socket_frame resolve env e buf f = (if fd_sock f \<noteq> Some (e, True) then f else handleFrameLocked resolve buf (fe_now env) f)"

definition timer_fires :: "fenv \<Rightarrow> nat \<Rightarrow> feed \<Rightarrow> feed" where
  "timer_fires env sq f =
     (if fd_timerSeq f \<noteq> sq \<or> fd_timer f = None then f else ensureSocketLocked env (f\<lparr>fd_timer := None\<rparr>))"

definition stopLocked :: "fenv \<Rightarrow> feed \<Rightarrow> feed" where
  "stopLocked env f =
     (let f1 = (if fd_timer f \<noteq> None then f\<lparr>fd_timer := None, fd_timerSeq := Suc (fd_timerSeq f)\<rparr> else f);
          f2 = clear_books (f1\<lparr>fd_sock := None, fd_connected := False, fd_wanted := [], fd_indexValid := False\<rparr>);
          f3 = (case fd_sock f1 of
                  Some (e, True) \<Rightarrow> f2\<lparr>fd_wire := fd_wire f2 @ (if fe_writes env = 0 then [] else [(e, PlainRequest requestDisconnect)])\<rparr>
                | _ \<Rightarrow> f2)
      in enqueue (EvConnection False) f3)"

definition Stop :: "fenv \<Rightarrow> feed \<Rightarrow> feed" where
  "Stop env f = stopLocked env f"

definition Dispose :: "fenv \<Rightarrow> feed \<Rightarrow> feed" where
  "Dispose env f = stopLocked env (f\<lparr>fd_disposed := True\<rparr>)"

text \<open>Readers.\<close>

definition SubscribedCount :: "feed \<Rightarrow> nat" where "SubscribedCount f = length (fd_subscribed f)"
definition WantedCount :: "feed \<Rightarrow> nat" where "WantedCount f = length (fd_wanted f)"

definition LastTickAtMs :: "feed \<Rightarrow> millis option" where
  "LastTickAtMs f = (if fd_lastTickAt f = 0 then None else Some (fd_lastTickAt f))"

definition FeedAgeMs :: "millis \<Rightarrow> feed \<Rightarrow> millis option" where
  "FeedAgeMs now f = (if fd_lastTickAt f = 0 then None else Some (now - fd_lastTickAt f))"

section \<open>Delivery\<close>

definition drain_begin :: "feed \<Rightarrow> feed" where
  "drain_begin f = (if fd_draining f then f else f\<lparr>fd_draining := True\<rparr>)"

definition drain_take :: "feed \<Rightarrow> feed" where
  "drain_take f =
     (if fd_draining f \<and> fd_busy f = Quiet
      then case fd_events f of [] \<Rightarrow> f\<lparr>fd_draining := False\<rparr> | ev # evs \<Rightarrow> f\<lparr>fd_events := evs, fd_busy := Taken ev\<rparr>
      else f)"

definition call :: "feed_call \<Rightarrow> feed \<Rightarrow> feed" where
  "call c f = f\<lparr>fd_busy := InCall c, fd_calls := fd_calls f @ [c]\<rparr>"

definition deliver :: "feed \<Rightarrow> feed" where
  "deliver f =
     (case fd_busy f of
        Taken (EvTicks epoch ts) \<Rightarrow>
          (let cur = (case fd_sock f of Some (e, _) \<Rightarrow> e | None \<Rightarrow> 0);
               ticks = (if cur = epoch then filter (\<lambda>t. t_Token t \<in> wanted_set f) ts else [])
           in if ticks \<noteq> [] then call (OnTicks ticks) f else f\<lparr>fd_busy := Quiet\<rparr>)
      | Taken (EvConnection b) \<Rightarrow> call (OnConnection b) f
      | Taken (EvSessionLost code) \<Rightarrow> call (OnSessionLost code) f
      | _ \<Rightarrow> f)"

definition deliver_return :: "feed \<Rightarrow> feed" where
  "deliver_return f = (case fd_busy f of InCall _ \<Rightarrow> f\<lparr>fd_busy := Quiet\<rparr> | _ \<Rightarrow> f)"

text \<open>The gate: \<^verbatim>\<open>UnsubscribeTokens\<close>, \<^verbatim>\<open>Stop\<close> and \<^verbatim>\<open>Dispose\<close> wait while ticks are being delivered.\<close>

definition gate_free :: "feed \<Rightarrow> bool" where
  "gate_free f \<longleftrightarrow> (case fd_busy f of InCall (OnTicks _) \<Rightarrow> False | _ \<Rightarrow> True)"

text \<open>Everything that can happen to a feed; events that are not enabled do nothing.\<close>

datatype feed_ev =
    ESubscribe fenv "token list"
  | EUnsubscribe fenv "token list"
  | ERefresh
  | EEnsure fenv
  | EOpen fenv nat
  | EClose nat int
  | EFrame fenv nat "byte list"
  | ETimer fenv nat
  | EStop fenv
  | EDispose fenv
  | EDrain
  | ETake
  | EDeliver
  | EReturn

fun feed_step :: "(token \<Rightarrow> feed_instrument option) \<Rightarrow> feed \<Rightarrow> feed_ev \<Rightarrow> feed" where
  "feed_step resolve f (ESubscribe env ts) = SubscribeTokens resolve env ts f"
| "feed_step resolve f (EUnsubscribe env ts) = (if gate_free f then UnsubscribeTokens resolve env ts f else f)"
| "feed_step resolve f ERefresh = RefreshResolutions f"
| "feed_step resolve f (EEnsure env) = ensureSocketLocked env f"
| "feed_step resolve f (EOpen env e) = socket_open resolve env e f"
| "feed_step resolve f (EClose e code) = handleClose e code f"
| "feed_step resolve f (EFrame env e buf) = socket_frame resolve env e buf f"
| "feed_step resolve f (ETimer env sq) = timer_fires env sq f"
| "feed_step resolve f (EStop env) = (if gate_free f then Stop env f else f)"
| "feed_step resolve f (EDispose env) = (if gate_free f then Dispose env f else f)"
| "feed_step resolve f EDrain = drain_begin f"
| "feed_step resolve f ETake = drain_take f"
| "feed_step resolve f EDeliver = deliver f"
| "feed_step resolve f EReturn = deliver_return f"

section \<open>Helpers at work\<close>

lemma concat_chunks [simp]: "0 < n \<Longrightarrow> concat (chunks n xs) = xs"
  by (induction n xs rule: chunks.induct) (subst chunks.simps, auto)

lemma chunk_size: "b \<in> set (chunks n xs) \<Longrightarrow> length b \<le> n \<and> b \<noteq> []"
  by (induction n xs rule: chunks.induct) (subst (asm) chunks.simps, auto split: if_splits)

lemma fold_want:
  "\<exists>n w. fold want ts f = f\<lparr>fd_wantSeq := n, fd_wanted := w\<rparr> \<and> fst ` set w = wanted_set f \<union> set ts \<and>
     (distinct (map fst (fd_wanted f)) \<longrightarrow> distinct (map fst w))"
proof (induction ts arbitrary: f)
  case Nil
  have "fold want [] f = f\<lparr>fd_wantSeq := fd_wantSeq f, fd_wanted := fd_wanted f\<rparr>" by simp
  then show ?case by (metis list.set(1) sup_bot.right_neutral)
next
  case (Cons t ts)
  from Cons [of "want t f"] obtain n w where
    w: "fold want ts (want t f) = (want t f)\<lparr>fd_wantSeq := n, fd_wanted := w\<rparr>" "fst ` set w = wanted_set (want t f) \<union> set ts"
       "distinct (map fst (fd_wanted (want t f))) \<longrightarrow> distinct (map fst w)" by blast
  have "(want t f)\<lparr>fd_wantSeq := n, fd_wanted := w\<rparr> = f\<lparr>fd_wantSeq := n, fd_wanted := w\<rparr>" by (simp add: want_def)
  moreover have "wanted_set (want t f) = insert t (wanted_set f)" by (auto simp: want_def dom_update)
  moreover have "distinct (map fst (fd_wanted f)) \<longrightarrow> distinct (map fst (fd_wanted (want t f)))" by (simp add: want_def distinct_update)
  ultimately show ?case using w by (intro exI [of _ n] exI [of _ w]) (auto simp: insert_commute)
qed

lemma fold_unwant:
  "fold unwant ts f = f\<lparr>fd_wanted := filter (\<lambda>p. fst p \<notin> set ts) (fd_wanted f), fd_subscribed := filter (\<lambda>t. t \<notin> set ts) (fd_subscribed f),
     fd_state := filter (\<lambda>p. fst p \<notin> set ts) (fd_state f), fd_seen := filter (\<lambda>p. fst p \<notin> set ts) (fd_seen f)\<rparr>"
proof (induction ts arbitrary: f)
  case (Cons t ts)
  have "unwant t f = f\<lparr>fd_wanted := filter (\<lambda>p. fst p \<noteq> t) (fd_wanted f), fd_subscribed := filter (\<lambda>x. x \<noteq> t) (fd_subscribed f),
      fd_state := filter (\<lambda>p. fst p \<noteq> t) (fd_state f), fd_seen := filter (\<lambda>p. fst p \<noteq> t) (fd_seen f)\<rparr>"
    by (simp add: unwant_def AList.delete_eq removeAll_filter_not_eq eq_commute [of t] case_prod_beta')
  with Cons [of "unwant t f"] show ?case by (simp add: conj_commute)
qed simp

lemma wanted_in_order [simp]: "set (wantedInOrder f) = wanted_set f"
  by (simp add: wantedInOrder_def)

lemma build_index_range: "snd ` set (build_index resolve ts m) \<subseteq> snd ` set m \<union> set ts"
proof (induction ts arbitrary: m)
  case (Cons t ts)
  have "snd ` set (AList.update k t m) \<subseteq> insert t (snd ` set m)" for k by (induction m) auto
  then have "snd ` set (case resolve t of None \<Rightarrow> m | Some (seg, sid) \<Rightarrow> (case map_of CodeBySegment seg of None \<Rightarrow> m
       | Some c \<Rightarrow> if map_of m (c, sid) \<noteq> None then m else AList.update (c, sid) t m)) \<subseteq> insert t (snd ` set m)" (is "snd ` set ?m \<subseteq> _")
    by (simp split: option.splits prod.splits) blast
  with Cons [of ?m] show ?case by auto
qed simp

section \<open>Books and reports\<close>

text \<open>The book of a token: its packets merged in order into an empty one.\<close>

definition book_of :: "(token \<times> packet \<times> millis) list \<Rightarrow> token \<Rightarrow> feed_state option" where
  "book_of seen t = (case filter (\<lambda>x. fst x = t) seen of [] \<Rightarrow> None
     | x # xs \<Rightarrow> Some (fold (\<lambda>(_, p, now). merge p now) (x # xs) (fresh_state t (snd (snd x)))))"

lemma book_of_Nil [simp]: "book_of [] t = None"
  by (simp add: book_of_def)

lemma book_of_snoc:
  "book_of (seen @ [(t, p, now)]) t' =
     (if t' = t then Some (merge p now (case book_of seen t of Some s \<Rightarrow> s | None \<Rightarrow> fresh_state t now)) else book_of seen t')"
  by (auto simp: book_of_def split: list.splits)

lemma book_of_filter: "book_of (filter (\<lambda>p. fst p \<notin> S) seen) t = (if t \<in> S then None else book_of seen t)"
proof -
  have "filter (\<lambda>x. fst x = t \<and> fst x \<notin> S) seen = (if t \<in> S then [] else filter (\<lambda>x. fst x = t) seen)"
    by (induction seen) auto
  then show ?thesis by (simp add: book_of_def conj_commute)
qed

lemma fs_Token_merge [simp]: "fs_Token (merge p now s) = fs_Token s" "fs_Token (fresh_state t now) = t"
  by (simp_all add: merge_def Let_def fresh_state_def)

lemma book_of_token: "book_of seen t = Some b \<Longrightarrow> fs_Token b = t"
proof (induction seen arbitrary: b rule: rev_induct)
  case (snoc y ys)
  obtain t' p now where y: "y = (t', p, now)" by (cases y)
  show ?case
  proof (cases "t' = t")
    case True
    show ?thesis using snoc.prems snoc.IH True y by (cases "book_of ys t") (auto simp: book_of_snoc)
  qed (use snoc y in \<open>simp add: book_of_snoc\<close>)
qed simp

text \<open>The connection changes reported so far and still to be reported.\<close>

definition call_report :: "feed_call \<Rightarrow> bool option" where
  "call_report c = (case c of OnConnection b \<Rightarrow> Some b | _ \<Rightarrow> None)"

definition event_report :: "feed_event \<Rightarrow> bool option" where
  "event_report ev = (case ev of EvConnection b \<Rightarrow> Some b | _ \<Rightarrow> None)"

definition conn_reports :: "feed \<Rightarrow> bool list" where
  "conn_reports f = List.map_filter call_report (fd_calls f) @
     (case fd_busy f of Taken ev \<Rightarrow> List.map_filter event_report [ev] | _ \<Rightarrow> []) @ List.map_filter event_report (fd_events f)"

definition feed_inv :: "feed \<Rightarrow> bool" where
  "feed_inv f \<longleftrightarrow>
     (fd_connected f \<longleftrightarrow> (\<exists>e. fd_sock f = Some (e, True))) \<and>
     (\<forall>e. map_option fst (fd_sock f) = Some e \<longrightarrow> 0 < e \<and> e \<le> fd_epoch f) \<and>
     distinct (map fst (fd_wanted f)) \<and>
     (fd_indexValid f \<longrightarrow> snd ` set (fd_index f) \<subseteq> wanted_set f) \<and>
     fst ` set (fd_state f) \<subseteq> wanted_set f \<and> set (fd_subscribed f) \<subseteq> wanted_set f \<and>
     (\<not> fd_connected f \<longrightarrow> fd_state f = [] \<and> fd_seen f = []) \<and>
     (\<forall>e ts. EvTicks e ts \<in> set (fd_events f) \<or> fd_busy f = Taken (EvTicks e ts) \<longrightarrow> 0 < e) \<and>
     (\<forall>ts. fd_busy f = InCall (OnTicks ts) \<longrightarrow> t_Token ` set ts \<subseteq> wanted_set f) \<and>
     (\<forall>t. map_of (fd_state f) t = book_of (fd_seen f) t) \<and>
     last (False # conn_reports f) = fd_connected f"

lemmas mf = List.map_filter_def

lemma feed_inv_new: "feed_inv NewFeed"
  by (simp add: feed_inv_def NewFeed_def conn_reports_def mf)

lemma feed_inv_aux [simp]:
  "feed_inv (f\<lparr>fd_wire := w\<rparr>) = feed_inv f" "feed_inv (f\<lparr>fd_werr := b\<rparr>) = feed_inv f"
  "feed_inv (f\<lparr>fd_timer := tm\<rparr>) = feed_inv f" "feed_inv (f\<lparr>fd_timerSeq := n\<rparr>) = feed_inv f" "feed_inv (f\<lparr>fd_attempts := a\<rparr>) = feed_inv f"
  "feed_inv (f\<lparr>fd_disposed := d\<rparr>) = feed_inv f" "feed_inv (f\<lparr>fd_generation := g\<rparr>) = feed_inv f" "feed_inv (f\<lparr>fd_lastTickAt := la\<rparr>) = feed_inv f"
  "feed_inv (f\<lparr>fd_draining := dr\<rparr>) = feed_inv f"
  by (simp_all add: feed_inv_def conn_reports_def)

lemma send_inv [simp]: "feed_inv (sendInstrumentRequestLocked resolve env code tokens f) = feed_inv f"
  by (simp add: sendInstrumentRequestLocked_def Let_def split: option.splits prod.splits bool.splits)

lemma schedule_inv [simp]: "feed_inv (scheduleReconnectLocked f) = feed_inv f"
  by (simp add: scheduleReconnectLocked_def Let_def)

lemma ensure_inv: "feed_inv f \<Longrightarrow> feed_inv (ensureSocketLocked env f)"
  by (auto simp: ensureSocketLocked_def) (auto simp: feed_inv_def conn_reports_def)

lemma RefreshResolutions_inv: "feed_inv f \<Longrightarrow> feed_inv (f\<lparr>fd_indexValid := False\<rparr>)"
  by (simp add: feed_inv_def conn_reports_def)

lemma want_more_inv:
  "feed_inv f \<Longrightarrow> wanted_set f \<subseteq> fst ` set w \<Longrightarrow> distinct (map fst w) \<Longrightarrow>
   feed_inv (f\<lparr>fd_wantSeq := n, fd_wanted := w, fd_indexValid := False\<rparr>)"
  by (simp add: feed_inv_def conn_reports_def) (meson order_trans)

lemma SubscribeTokens_inv:
  assumes "feed_inv f"
  shows "feed_inv (SubscribeTokens resolve env ts f)"
proof -
  obtain n w where w: "fold want (filter (\<lambda>t. t \<notin> wanted_set f) ts) f = f\<lparr>fd_wantSeq := n, fd_wanted := w\<rparr>"
      "wanted_set f \<subseteq> fst ` set w" "distinct (map fst (fd_wanted f)) \<longrightarrow> distinct (map fst w)"
    using fold_want [of "filter (\<lambda>t. t \<notin> wanted_set f) ts" f] by auto
  have "distinct (map fst w)" using assms w(3) by (simp add: feed_inv_def)
  from ensure_inv [OF want_more_inv [OF assms w(2) this]] show ?thesis using assms
    by (simp add: SubscribeTokens_def w(1) Let_def filter_empty_conv)
qed

lemma map_of_filter_key: "map_of (filter (\<lambda>p. fst p \<notin> S) m) k = (if k \<in> S then None else map_of m k)"
  by (induction m) auto

lemma fst_filter_mono: "fst ` set m \<subseteq> fst ` set m' \<Longrightarrow> fst ` set (filter (\<lambda>p. fst p \<notin> S) m) \<subseteq> fst ` set (filter (\<lambda>p. fst p \<notin> S) m')"
proof -
  have fst_filter: "fst ` set (filter (\<lambda>p. fst p \<notin> S) xs) = fst ` set xs - S" for xs :: "('a \<times> 'd) list" by force
  show "fst ` set m \<subseteq> fst ` set m' \<Longrightarrow> fst ` set (filter (\<lambda>p. fst p \<notin> S) m) \<subseteq> fst ` set (filter (\<lambda>p. fst p \<notin> S) m')"
    unfolding fst_filter by blast
qed

lemma unwant_inv:
  assumes "feed_inv f" and "gate_free f"
  shows "feed_inv ((fold unwant ts f)\<lparr>fd_indexValid := False\<rparr>)"
proof -
  have "fd_busy f \<noteq> InCall (OnTicks tks)" for tks using assms(2) by (auto simp: gate_free_def)
  moreover have "set (filter (\<lambda>t. t \<notin> set ts) (fd_subscribed f)) \<subseteq> fst ` set (filter (\<lambda>p. fst p \<notin> set ts) (fd_wanted f))"
    using fst_filter_mono [of "map (\<lambda>t. (t, ())) (fd_subscribed f)" "fd_wanted f" "set ts"] assms(1)
    by (simp add: feed_inv_def image_image filter_map o_def del: set_filter)
  moreover have "fst ` set (filter (\<lambda>p. fst p \<notin> set ts) (fd_state f)) \<subseteq> fst ` set (filter (\<lambda>p. fst p \<notin> set ts) (fd_wanted f))"
    by (rule fst_filter_mono) (use assms(1) in \<open>simp add: feed_inv_def\<close>)
  ultimately show ?thesis using assms(1) unfolding fold_unwant feed_inv_def conn_reports_def
    by (simp add: distinct_fst_filter map_of_filter_key book_of_filter del: set_filter)
qed

lemma UnsubscribeTokens_inv: "feed_inv f \<Longrightarrow> gate_free f \<Longrightarrow> feed_inv (UnsubscribeTokens resolve env ts f)"
  by (simp add: UnsubscribeTokens_def Let_def unwant_inv)

lemma conn_reports_enqueue:
  "conn_reports (enqueue ev f) = conn_reports f @ List.map_filter event_report [ev]"
  by (simp add: conn_reports_def enqueue_def mf)

lemma enqueue_send: "enqueue ev (sendInstrumentRequestLocked resolve env code tokens f) = sendInstrumentRequestLocked resolve env code tokens (enqueue ev f)"
  by (simp add: enqueue_def sendInstrumentRequestLocked_def Let_def split: option.splits prod.splits bool.splits)

lemma event_reports [simp]:
  "event_report (EvConnection b) = Some b" "event_report (EvSessionLost code) = None" "event_report (EvTicks e ts) = None"
  "List.map_filter g [] = []"
  by (simp_all add: mf event_report_def)

lemma conn_reports_set [simp]:
  "conn_reports (f\<lparr>fd_sock := s\<rparr>) = conn_reports f" "conn_reports (f\<lparr>fd_connected := c\<rparr>) = conn_reports f"
  "conn_reports (f\<lparr>fd_subscribed := x\<rparr>) = conn_reports f" "conn_reports (f\<lparr>fd_state := y\<rparr>) = conn_reports f"
  "conn_reports (f\<lparr>fd_lastTickAt := la\<rparr>) = conn_reports f" "conn_reports (f\<lparr>fd_seen := z\<rparr>) = conn_reports f"
  "conn_reports (f\<lparr>fd_index := ix\<rparr>) = conn_reports f" "conn_reports (f\<lparr>fd_indexValid := iv\<rparr>) = conn_reports f"
  by (simp_all add: conn_reports_def)

lemma opened_inv:
  "feed_inv f \<Longrightarrow> fd_sock f = Some (e, False) \<Longrightarrow>
   feed_inv (enqueue (EvConnection True) (clear_books (f\<lparr>fd_sock := Some (e, True), fd_connected := True\<rparr>)))"
  unfolding feed_inv_def conn_reports_enqueue by (simp add: enqueue_def clear_books_def)

lemma closed_inv: "feed_inv f \<Longrightarrow> feed_inv (enqueue (EvConnection False) (clear_books (f\<lparr>fd_sock := None, fd_connected := False\<rparr>)))"
  unfolding feed_inv_def conn_reports_enqueue by (simp add: enqueue_def clear_books_def)

lemma lost_inv: "feed_inv f \<Longrightarrow> feed_inv (enqueue (EvSessionLost code) f)"
  unfolding feed_inv_def conn_reports_enqueue by (simp add: enqueue_def)

lemma clear_books_more: "clear_books (f\<lparr>fd_sock := s, fd_connected := c, fd_attempts := a, fd_generation := g, fd_werr := w\<rparr>) =
    (clear_books (f\<lparr>fd_sock := s, fd_connected := c\<rparr>))\<lparr>fd_attempts := a, fd_generation := g, fd_werr := w\<rparr>"
  by (simp add: clear_books_def)

lemma enqueue_more: "enqueue ev (f\<lparr>fd_attempts := a, fd_generation := g, fd_werr := w\<rparr>) = (enqueue ev f)\<lparr>fd_attempts := a, fd_generation := g, fd_werr := w\<rparr>"
  by (simp add: enqueue_def)

lemma socket_open_inv: "feed_inv f \<Longrightarrow> feed_inv (socket_open resolve env e f)"
  by (simp add: socket_open_def Let_def enqueue_send clear_books_more enqueue_more opened_inv)

lemma handleClose_inv: "feed_inv f \<Longrightarrow> feed_inv (handleClose e code f)"
  by (simp add: handleClose_def Let_def closed_inv lost_inv)

lemma refresh_index_inv: "feed_inv f \<Longrightarrow> feed_inv (refresh_index resolve f)"
  using build_index_range [of resolve "wantedInOrder f" "[]"] by (cases "conn_reports f = []") (clarsimp simp: refresh_index_def feed_inv_def)+

text \<open>Merging a frame's packets touches nothing but the index and the books.\<close>

definition link_part :: "feed \<Rightarrow> feed" where
  "link_part f = f\<lparr>fd_index := [], fd_indexValid := False, fd_subscribed := [], fd_state := [], fd_seen := []\<rparr>"

lemma token_link: "link_part (fst (tokenForLocked resolve p f)) = link_part f"
  by (simp add: tokenForLocked_def Let_def refresh_index_def link_part_def)

lemma merge_link: "link_part (fst (mergeLocked t p now (f\<lparr>fd_subscribed := l\<rparr>))) = link_part f"
  by (simp add: mergeLocked_def Let_def link_part_def)

lemma take_packets_link: "link_part (fst (take_packets resolve now ps f)) = link_part f"
proof (induction ps arbitrary: f)
  case (Cons p ps)
  obtain f1 ot where t: "tokenForLocked resolve p f = (f1, ot)" by fastforce
  then have f1: "link_part f1 = link_part f" using token_link [of resolve p f] by simp
  show ?case
  proof (cases ot)
    case None
    with t f1 Cons show ?thesis by simp
  next
    case (Some tok)
    obtain f2 s where m: "mergeLocked tok p now (f1\<lparr>fd_subscribed := List.insert tok (fd_subscribed f1)\<rparr>) = (f2, s)" by fastforce
    then have "link_part f2 = link_part f" using merge_link [of tok p now "List.insert tok (fd_subscribed f1)" f1] f1 by simp
    with Some t m Cons [of f] Cons [of f2] show ?thesis by (simp add: Let_def case_prod_beta')
  qed
qed simp

lemma link_partD:
  assumes "link_part f = link_part g"
  shows "fd_sock f = fd_sock g" "fd_connected f = fd_connected g" "fd_wanted f = fd_wanted g" "fd_events f = fd_events g" "fd_busy f = fd_busy g"
    "fd_wire f = fd_wire g" "fd_werr f = fd_werr g" "fd_epoch f = fd_epoch g" "fd_calls f = fd_calls g" "fd_timer f = fd_timer g"
  using arg_cong [OF assms, of fd_sock] arg_cong [OF assms, of fd_connected] arg_cong [OF assms, of fd_wanted] arg_cong [OF assms, of fd_events]
    arg_cong [OF assms, of fd_busy] arg_cong [OF assms, of fd_wire] arg_cong [OF assms, of fd_werr] arg_cong [OF assms, of fd_epoch]
    arg_cong [OF assms, of fd_calls] arg_cong [OF assms, of fd_timer] by (simp_all add: link_part_def)

lemma token_wanted:
  assumes "feed_inv f" and "tokenForLocked resolve p f = (f1, ot)"
  shows "feed_inv f1 \<and> (\<forall>t. ot = Some t \<longrightarrow> t \<in> wanted_set f1)"
proof (cases "p_Segment p = ''''")
  case True
  with assms show ?thesis by (auto simp: tokenForLocked_def)
next
  case False
  with assms have f1: "f1 = refresh_index resolve f" "\<exists>k. ot = map_of (fd_index f1) k" by (auto simp: tokenForLocked_def Let_def)
  then have inv: "feed_inv f1" using assms(1) refresh_index_inv by blast
  have "fd_indexValid f1" using f1 by (simp add: refresh_index_def)
  with inv have "snd ` set (fd_index f1) \<subseteq> wanted_set f1" by (simp add: feed_inv_def)
  with f1 inv show ?thesis by (metis image_eqI map_of_SomeD snd_conv subsetD)
qed

lemma merge_inv:
  assumes "feed_inv f" and "t \<in> wanted_set f" and "fd_connected f"
    and "mergeLocked t p now (f\<lparr>fd_subscribed := List.insert t (fd_subscribed f)\<rparr>) = (f2, s)"
  shows "feed_inv f2 \<and> fs_Token s = t"
proof -
  have book: "map_of (fd_state f) x = book_of (fd_seen f) x" for x using assms(1) by (simp add: feed_inv_def)
  from assms(4) have s: "s = merge p now (case book_of (fd_seen f) t of Some s \<Rightarrow> s | None \<Rightarrow> fresh_state t now)"
    and f2: "f2 = f\<lparr>fd_subscribed := List.insert t (fd_subscribed f), fd_state := AList.update t s (fd_state f), fd_seen := fd_seen f @ [(t, p, now)]\<rparr>"
    by (auto simp: mergeLocked_def Let_def book)
  have "fs_Token s = t" using book_of_token by (simp add: s split: option.split)
  moreover have "map_of (fd_state f2) x = book_of (fd_seen f2) x" for x by (simp add: f2 book_of_snoc update_conv' book s)
  moreover have "fst ` set (fd_state f2) = insert t (fst ` set (fd_state f))" by (simp add: f2 dom_update)
  moreover have "conn_reports f2 = conn_reports f" by (simp add: f2)
  ultimately show ?thesis using assms(1-3) unfolding feed_inv_def by (clarsimp simp: f2)
qed

lemma take_packets_inv:
  "feed_inv f \<Longrightarrow> fd_connected f \<Longrightarrow> feed_inv (fst (take_packets resolve now ps f))"
proof (induction ps arbitrary: f)
  case (Cons p ps)
  obtain f1 ot where t: "tokenForLocked resolve p f = (f1, ot)" by fastforce
  then have f1: "feed_inv f1" "\<And>x. ot = Some x \<Longrightarrow> x \<in> wanted_set f1" "fd_connected f1"
    using token_wanted [OF Cons.prems(1)] link_partD(2) [OF token_link [of resolve p f]] Cons.prems(2) by auto
  show ?case
  proof (cases ot)
    case None
    with t f1 Cons show ?thesis by simp
  next
    case (Some tok)
    obtain f2 s where m: "mergeLocked tok p now (f1\<lparr>fd_subscribed := List.insert tok (fd_subscribed f1)\<rparr>) = (f2, s)" by fastforce
    then have "fd_connected f2" using link_partD(2) [OF merge_link [of tok p now "List.insert tok (fd_subscribed f1)" f1]] f1(3) by simp
    moreover have "feed_inv f2" using merge_inv [OF f1(1) f1(2) f1(3) m] Some by blast
    ultimately show ?thesis using Some t m Cons by (simp add: Let_def case_prod_beta')
  qed
qed simp

lemma ticks_inv: "feed_inv f \<Longrightarrow> fd_sock f = Some (e, True) \<Longrightarrow> feed_inv (enqueue (EvTicks e ts) f)"
  unfolding feed_inv_def conn_reports_enqueue by (clarsimp simp: enqueue_def)

lemma socket_frame_inv:
  assumes "feed_inv f"
  shows "feed_inv (socket_frame resolve env e buf f)"
proof (cases "fd_sock f = Some (e, True)")
  case True
  then have c: "fd_connected f" using assms by (auto simp: feed_inv_def)
  have "feed_inv (let (f1, ticks) = take_packets resolve (fe_now env) ps f in if ticks = [] then f1
      else enqueue (EvTicks (case fd_sock f1 of Some (e, _) \<Rightarrow> e | None \<Rightarrow> 0) ticks) (f1\<lparr>fd_lastTickAt := fe_now env\<rparr>))" for ps
  proof -
    obtain f1 ticks where r: "take_packets resolve (fe_now env) ps f = (f1, ticks)" by fastforce
    have "feed_inv f1" using take_packets_inv [OF assms c, of resolve "fe_now env" ps] r by simp
    moreover have "fd_sock f1 = Some (e, True)"
      using link_partD(1) [OF take_packets_link [of resolve "fe_now env" ps f]] r True by simp
    ultimately show ?thesis by (simp add: r ticks_inv)
  qed
  then show ?thesis using True assms by (simp add: socket_frame_def handleFrameLocked_def split: option.split)
qed (simp add: socket_frame_def assms)

lemma stopped_inv:
  assumes "feed_inv f" and "gate_free f"
  shows "feed_inv (enqueue (EvConnection False) (clear_books (f\<lparr>fd_sock := None, fd_connected := False, fd_wanted := [], fd_indexValid := False\<rparr>)))"
proof -
  have "fd_busy f \<noteq> InCall (OnTicks tks)" for tks using assms(2) by (auto simp: gate_free_def)
  then show ?thesis using assms(1) unfolding feed_inv_def conn_reports_enqueue by (clarsimp simp: enqueue_def clear_books_def conn_reports_def)
qed

lemma enqueue_wire: "enqueue ev (f\<lparr>fd_wire := w\<rparr>) = (enqueue ev f)\<lparr>fd_wire := w\<rparr>"
  by (simp add: enqueue_def)

lemma stopLocked_inv:
  assumes "feed_inv f" and "gate_free f"
  shows "feed_inv (stopLocked env f)"
proof -
  define f1 where "f1 = (if fd_timer f \<noteq> None then f\<lparr>fd_timer := None, fd_timerSeq := Suc (fd_timerSeq f)\<rparr> else f)"
  have "feed_inv f1" "gate_free f1" using assms by (simp_all add: f1_def gate_free_def)
  note stopped_inv [OF this]
  then show ?thesis unfolding stopLocked_def Let_def f1_def [symmetric]
    by (simp add: enqueue_wire split: option.split prod.split bool.split)
qed

lemma deliver_inv: "feed_inv f \<Longrightarrow> feed_inv (deliver f)"
  unfolding deliver_def
  by (cases "fd_busy f"; simp; cases "case fd_busy f of Taken ev \<Rightarrow> ev")
    (auto simp: feed_inv_def call_def conn_reports_def call_report_def Let_def mf split: feed_event.split)

lemma drain_begin_inv: "feed_inv f \<Longrightarrow> feed_inv (drain_begin f)"
  by (simp add: drain_begin_def)

lemma drain_take_inv: "feed_inv f \<Longrightarrow> feed_inv (drain_take f)"
  by (auto simp: drain_take_def feed_inv_def conn_reports_def mf split: list.split)

lemma deliver_return_inv: "feed_inv f \<Longrightarrow> feed_inv (deliver_return f)"
  by (auto simp: deliver_return_def feed_inv_def conn_reports_def split: delivery.split)

section \<open>The upstream subscription\<close>

text \<open>What the broker is subscribed to after the requests written to a socket.\<close>

fun apply_msg :: "wire_msg \<Rightarrow> feed_instrument set \<Rightarrow> feed_instrument set" where
  "apply_msg (InstrumentRequest code l) S =
     (if code = requestSubscribeFull then S \<union> set l else if code = requestUnsubscribeFull then S - set l else S)"
| "apply_msg (PlainRequest code) S = S"

definition upstream :: "nat \<Rightarrow> (nat \<times> wire_msg) list \<Rightarrow> feed_instrument set" where
  "upstream e w = fold apply_msg (map snd (filter (\<lambda>m. fst m = e) w)) {}"

definition instruments :: "(token \<Rightarrow> feed_instrument option) \<Rightarrow> token set \<Rightarrow> feed_instrument set" where
  "instruments resolve T = {i. \<exists>t \<in> T. resolve t = Some i}"

text \<open>Tokens encode their instrument: no two resolve to the same one.\<close>

definition resolve_inj :: "(token \<Rightarrow> feed_instrument option) \<Rightarrow> bool" where
  "resolve_inj resolve \<longleftrightarrow> (\<forall>t t' i. resolve t = Some i \<longrightarrow> resolve t' = Some i \<longrightarrow> t = t')"

definition wire_inv :: "(token \<Rightarrow> feed_instrument option) \<Rightarrow> feed \<Rightarrow> bool" where
  "wire_inv resolve f \<longleftrightarrow>
     (\<forall>m \<in> set (fd_wire f). fst m \<le> fd_epoch f) \<and>
     (\<forall>e. fd_sock f = Some (e, False) \<longrightarrow> (\<forall>m \<in> set (fd_wire f). fst m \<noteq> e)) \<and>
     (\<forall>e. fd_sock f = Some (e, True) \<longrightarrow> \<not> fd_werr f \<longrightarrow> upstream e (fd_wire f) = instruments resolve (wanted_set f))"

lemma wire_inv_cong:
  "wire_inv resolve f \<Longrightarrow> fd_wire f' = fd_wire f \<Longrightarrow> fd_epoch f' = fd_epoch f \<Longrightarrow> fd_sock f' = fd_sock f \<Longrightarrow> fd_werr f' = fd_werr f \<Longrightarrow>
   fd_wanted f' = fd_wanted f \<Longrightarrow> wire_inv resolve f'"
  by (simp add: wire_inv_def)

lemma set_map_filter_resolve: "set (List.map_filter resolve ts) = instruments resolve (set ts)"
  by (induction ts) (auto simp: instruments_def split: option.split)

lemma fold_requests:
  "fold apply_msg (map (InstrumentRequest requestSubscribeFull) bs) S = S \<union> set (concat bs)"
  "fold apply_msg (map (InstrumentRequest requestUnsubscribeFull) bs) S = S - set (concat bs)"
  by (induction bs arbitrary: S) (auto simp: requestSubscribeFull_def requestUnsubscribeFull_def)

lemma send_upstream:
  assumes "fd_sock f = Some (e, True)" and "fd_connected f" and "\<not> fd_werr (sendInstrumentRequestLocked resolve env code ts f)"
    and "code = requestSubscribeFull \<or> code = requestUnsubscribeFull"
  shows "\<not> fd_werr f \<and> upstream e (fd_wire (sendInstrumentRequestLocked resolve env code ts f)) =
    (if code = requestSubscribeFull then upstream e (fd_wire f) \<union> instruments resolve (set ts) else upstream e (fd_wire f) - instruments resolve (set ts))"
proof -
  define bs where "bs = chunks SubscribeBatch (List.map_filter resolve ts)"
  have cat: "set (concat bs) = instruments resolve (set ts)" by (simp add: bs_def SubscribeBatch_def set_map_filter_resolve)
  from assms(1-3) have *: "\<not> fd_werr f" "length bs \<le> fe_writes env"
      "fd_wire (sendInstrumentRequestLocked resolve env code ts f) = fd_wire f @ map (\<lambda>b. (e, InstrumentRequest code b)) (take (fe_writes env) bs)"
    by (auto simp: sendInstrumentRequestLocked_def Let_def bs_def)
  then have "map snd (filter (\<lambda>m. fst m = e) (fd_wire (sendInstrumentRequestLocked resolve env code ts f))) =
      map snd (filter (\<lambda>m. fst m = e) (fd_wire f)) @ map (InstrumentRequest code) bs"
    by (simp add: filter_map o_def)
  then have "upstream e (fd_wire (sendInstrumentRequestLocked resolve env code ts f)) = fold apply_msg (map (InstrumentRequest code) bs) (upstream e (fd_wire f))"
    by (simp add: upstream_def)
  with *(1) assms(4) fold_requests [of bs] cat show ?thesis by (auto simp: requestSubscribeFull_def requestUnsubscribeFull_def)
qed

lemma send_fields [simp]:
  "fd_sock (sendInstrumentRequestLocked resolve env code ts f) = fd_sock f"
  "fd_epoch (sendInstrumentRequestLocked resolve env code ts f) = fd_epoch f"
  "fd_wanted (sendInstrumentRequestLocked resolve env code ts f) = fd_wanted f"
  by (simp_all add: sendInstrumentRequestLocked_def Let_def split: option.split prod.split bool.split)

lemma send_bound:
  "\<forall>m \<in> set (fd_wire f). fst m \<le> n \<Longrightarrow> (\<And>e. fd_sock f = Some (e, True) \<Longrightarrow> e \<le> n) \<Longrightarrow>
   \<forall>m \<in> set (fd_wire (sendInstrumentRequestLocked resolve env code ts f)). fst m \<le> n"
  by (auto simp: sendInstrumentRequestLocked_def Let_def split: option.split prod.split bool.split)

text \<open>A request that announces exactly the change of the wanted set keeps upstream and wanted in step.\<close>

lemma send_wire_inv:
  assumes "fd_sock f = Some (e, True)" and "fd_connected f" and "e \<le> fd_epoch f" and "\<forall>m \<in> set (fd_wire f). fst m \<le> fd_epoch f"
    and "code = requestSubscribeFull \<or> code = requestUnsubscribeFull"
    and "\<not> fd_werr f \<Longrightarrow> instruments resolve (wanted_set f) =
      (if code = requestSubscribeFull then upstream e (fd_wire f) \<union> instruments resolve (set ts) else upstream e (fd_wire f) - instruments resolve (set ts))"
  shows "wire_inv resolve (sendInstrumentRequestLocked resolve env code ts f)"
proof -
  let ?f = "sendInstrumentRequestLocked resolve env code ts f"
  have "\<forall>m \<in> set (fd_wire ?f). fst m \<le> fd_epoch f" using assms(1,3,4) by (intro send_bound) auto
  moreover have "upstream e (fd_wire ?f) = instruments resolve (wanted_set f)" if "\<not> fd_werr ?f"
    using send_upstream [OF assms(1,2) that assms(5)] assms(6) by simp
  ultimately show ?thesis using assms(1) by (simp add: wire_inv_def)
qed

lemma instruments_Un [simp]: "instruments resolve (A \<union> B) = instruments resolve A \<union> instruments resolve B"
  by (auto simp: instruments_def)

lemma instruments_Diff:
  "resolve_inj resolve \<Longrightarrow> instruments resolve (A - B) = instruments resolve A - instruments resolve B"
  unfolding instruments_def resolve_inj_def by blast

lemma ensure_wire:
  assumes "feed_inv f" and "wire_inv resolve f"
  shows "wire_inv resolve (ensureSocketLocked env f)"
  using assms(2)
  by (fastforce simp: ensureSocketLocked_def scheduleReconnectLocked_def Let_def wire_inv_def)

lemma ensure_connected: "feed_inv f \<Longrightarrow> fd_connected (ensureSocketLocked env f) = fd_connected f \<and> (fd_connected f \<longrightarrow> ensureSocketLocked env f = f)"
  by (auto simp: ensureSocketLocked_def scheduleReconnectLocked_def Let_def feed_inv_def)

lemma SubscribeTokens_wire:
  assumes inv: "feed_inv f" and w: "wire_inv resolve f"
  shows "wire_inv resolve (SubscribeTokens resolve env ts f)"
proof -
  define fresh where "fresh = filter (\<lambda>t. t \<notin> wanted_set f) ts"
  obtain n wl where f1: "fold want fresh f = f\<lparr>fd_wantSeq := n, fd_wanted := wl\<rparr>" "fst ` set wl = wanted_set f \<union> set fresh"
      "distinct (map fst (fd_wanted f)) \<longrightarrow> distinct (map fst wl)" using fold_want [of fresh f] by auto
  define f2 where "f2 = f\<lparr>fd_wantSeq := n, fd_wanted := wl, fd_indexValid := False\<rparr>"
  have inv2: "feed_inv f2" unfolding f2_def using f1(2,3) inv by (intro want_more_inv) (auto simp: feed_inv_def)
  show ?thesis
  proof (cases "fresh = [] \<or> \<not> fd_connected f")
    case True
    then show ?thesis
    proof (cases "fresh = []")
      case False
      with True have nc: "\<not> fd_connected f" by simp
      then have "wire_inv resolve f2" using w inv by (simp add: f2_def wire_inv_def feed_inv_def)
      with False nc ensure_connected [OF inv2] ensure_wire [OF inv2] show ?thesis
        by (simp add: SubscribeTokens_def f1(1) f2_def fresh_def [symmetric] Let_def)
    qed (simp add: SubscribeTokens_def fresh_def [symmetric] Let_def w)
  next
    case False
    then obtain e where e: "fd_sock f = Some (e, True)" using inv by (auto simp: feed_inv_def)
    have eq: "SubscribeTokens resolve env ts f = sendInstrumentRequestLocked resolve env requestSubscribeFull fresh f2"
      using False ensure_connected [OF inv2, of env] by (simp add: SubscribeTokens_def f1(1) f2_def fresh_def [symmetric] Let_def)
    show ?thesis unfolding eq
      by (rule send_wire_inv) (use False e inv w f1(2) in \<open>auto simp: f2_def feed_inv_def wire_inv_def\<close>)
  qed
qed

lemma UnsubscribeTokens_wire:
  assumes inv: "feed_inv f" and w: "wire_inv resolve f" and inj: "resolve_inj resolve"
  shows "wire_inv resolve (UnsubscribeTokens resolve env ts f)"
proof -
  define dp where "dp = filter (\<lambda>t. t \<in> wanted_set f) ts"
  define f1 where "f1 = (fold unwant dp f)\<lparr>fd_indexValid := False\<rparr>"
  have f1: "fd_sock f1 = fd_sock f" "fd_connected f1 = fd_connected f" "fd_epoch f1 = fd_epoch f" "fd_wire f1 = fd_wire f" "fd_werr f1 = fd_werr f"
    by (simp_all add: f1_def fold_unwant)
  have want1: "wanted_set f1 = wanted_set f - set dp" by (auto simp: f1_def fold_unwant)
  consider (none) "dp = []" | (idle) "dp \<noteq> []" "\<not> fd_connected f" | (live) "dp \<noteq> []" "fd_connected f" by blast
  then show ?thesis
  proof cases
    case none
    then show ?thesis using w by (simp add: UnsubscribeTokens_def dp_def [symmetric] Let_def)
  next
    case idle
    then have "wire_inv resolve f1" using w inv by (simp add: f1 wire_inv_def feed_inv_def)
    with idle f1 show ?thesis by (simp add: UnsubscribeTokens_def dp_def [symmetric] f1_def [symmetric] Let_def)
  next
    case live
    then obtain e where e: "fd_sock f = Some (e, True)" using inv by (auto simp: feed_inv_def)
    have eq: "UnsubscribeTokens resolve env ts f = sendInstrumentRequestLocked resolve env requestUnsubscribeFull dp f1"
      using live f1 by (simp add: UnsubscribeTokens_def dp_def [symmetric] f1_def [symmetric] Let_def)
    show ?thesis unfolding eq
      by (rule send_wire_inv)
        (use live e inv w inj in \<open>auto simp: f1 want1 instruments_Diff feed_inv_def wire_inv_def requestSubscribeFull_def requestUnsubscribeFull_def\<close>)
  qed
qed

lemma socket_open_wire:
  assumes inv: "feed_inv f" and w: "wire_inv resolve f"
  shows "wire_inv resolve (socket_open resolve env e f)"
proof (cases "fd_sock f = Some (e, False)")
  case True
  define f1 where "f1 = clear_books (f\<lparr>fd_sock := Some (e, True), fd_connected := True, fd_attempts := 0, fd_generation := fd_generation f + 1, fd_werr := False\<rparr>)"
  have f1: "fd_sock f1 = Some (e, True)" "fd_connected f1" "fd_epoch f1 = fd_epoch f" "fd_wire f1 = fd_wire f" "wanted_set f1 = wanted_set f" "fd_wanted f1 = fd_wanted f"
    by (simp_all add: f1_def clear_books_def)
  have "filter (\<lambda>m. fst m = e) (fd_wire f) = []" using w True by (auto simp: wire_inv_def filter_empty_conv)
  then have no: "upstream e (fd_wire f) = {}" by (simp add: upstream_def)
  have "e \<le> fd_epoch f" using inv True by (auto simp: feed_inv_def)
  have "wire_inv resolve (if fd_wanted f1 \<noteq> [] then sendInstrumentRequestLocked resolve env requestSubscribeFull (wantedInOrder f1) f1 else f1)"
  proof (cases "fd_wanted f = []")
    case True
    then show ?thesis using f1 no w by (simp add: wire_inv_def instruments_def)
  next
    case False
    have "wire_inv resolve (sendInstrumentRequestLocked resolve env requestSubscribeFull (wantedInOrder f1) f1)"
      by (rule send_wire_inv [OF f1(1,2)]) (use f1 no w \<open>e \<le> fd_epoch f\<close> in \<open>auto simp: wire_inv_def\<close>)
    then show ?thesis using False f1 by simp
  qed
  then have "wire_inv resolve (enqueue (EvConnection True) (if fd_wanted f1 \<noteq> [] then sendInstrumentRequestLocked resolve env requestSubscribeFull (wantedInOrder f1) f1 else f1))"
    by (rule wire_inv_cong) (simp_all add: enqueue_def)
  then show ?thesis using True by (simp add: socket_open_def Let_def f1_def [symmetric])
qed (simp add: socket_open_def w)

lemma handleClose_wire: "feed_inv f \<Longrightarrow> wire_inv resolve f \<Longrightarrow> wire_inv resolve (handleClose e code f)"
  by (auto simp: handleClose_def Let_def wire_inv_def enqueue_def clear_books_def scheduleReconnectLocked_def)

lemma socket_frame_wire:
  assumes "wire_inv resolve f"
  shows "wire_inv resolve (socket_frame resolve env e buf f)"
proof -
  have "wire_inv resolve (fst (take_packets resolve now ps f))" for now ps
    using link_partD [OF take_packets_link [of resolve now ps f]] by (intro wire_inv_cong [OF assms]) auto
  moreover have "wire_inv resolve g \<Longrightarrow> wire_inv resolve (enqueue ev (g\<lparr>fd_lastTickAt := t\<rparr>))" for g ev t
    by (erule wire_inv_cong) (simp_all add: enqueue_def)
  ultimately show ?thesis using assms by (simp add: socket_frame_def handleFrameLocked_def case_prod_beta' Let_def split: option.split)
qed

lemma stopLocked_wire: "feed_inv f \<Longrightarrow> wire_inv resolve f \<Longrightarrow> wire_inv resolve (stopLocked env f)"
  by (auto simp: stopLocked_def Let_def wire_inv_def enqueue_def clear_books_def feed_inv_def split: option.split prod.split bool.split)

definition feed_ok :: "(token \<Rightarrow> feed_instrument option) \<Rightarrow> feed \<Rightarrow> bool" where
  "feed_ok resolve f \<longleftrightarrow> feed_inv f \<and> (resolve_inj resolve \<longrightarrow> wire_inv resolve f)"

lemma delivery_wire:
  "wire_inv resolve f \<Longrightarrow> wire_inv resolve (drain_begin f)" "wire_inv resolve f \<Longrightarrow> wire_inv resolve (drain_take f)"
  "wire_inv resolve f \<Longrightarrow> wire_inv resolve (deliver f)" "wire_inv resolve f \<Longrightarrow> wire_inv resolve (deliver_return f)"
  by (simp_all add: wire_inv_def drain_begin_def drain_take_def deliver_def deliver_return_def call_def Let_def split: list.split delivery.split feed_event.split)

lemma feed_step_ok: "feed_ok resolve f \<Longrightarrow> feed_ok resolve (feed_step resolve f ev)"
proof (cases ev)
  case (EDispose env)
  assume "feed_ok resolve f"
  then have "feed_inv (f\<lparr>fd_disposed := True\<rparr>)" "resolve_inj resolve \<longrightarrow> wire_inv resolve (f\<lparr>fd_disposed := True\<rparr>)"
    by (auto simp: feed_ok_def wire_inv_def)
  then show ?thesis using EDispose \<open>feed_ok resolve f\<close>
    by (auto simp: feed_ok_def Dispose_def gate_free_def intro!: stopLocked_inv stopLocked_wire)
next
  case (ETimer env sq)
  assume "feed_ok resolve f"
  then have "feed_inv (f\<lparr>fd_timer := None\<rparr>)" "resolve_inj resolve \<longrightarrow> wire_inv resolve (f\<lparr>fd_timer := None\<rparr>)"
    by (auto simp: feed_ok_def wire_inv_def)
  then show ?thesis using ETimer \<open>feed_ok resolve f\<close> by (auto simp: feed_ok_def timer_fires_def intro!: ensure_inv ensure_wire)
next
  case ERefresh
  assume "feed_ok resolve f"
  then show ?thesis using ERefresh by (auto simp: feed_ok_def RefreshResolutions_def RefreshResolutions_inv wire_inv_def)
qed (auto simp: feed_ok_def Stop_def intro: drain_begin_inv SubscribeTokens_inv SubscribeTokens_wire UnsubscribeTokens_inv UnsubscribeTokens_wire
  ensure_inv ensure_wire socket_open_inv socket_open_wire handleClose_inv handleClose_wire socket_frame_inv socket_frame_wire
  stopLocked_inv stopLocked_wire drain_take_inv deliver_inv deliver_return_inv delivery_wire)

interpretation feed_run: step_system "feed_step resolve" "feed_ok resolve" for resolve
  by unfold_locales (rule feed_step_ok)

lemma feed_ok_new: "feed_ok resolve NewFeed"
  by (simp add: feed_ok_def feed_inv_new) (simp add: wire_inv_def NewFeed_def)

lemmas feed_reachable = feed_run.run_inv [OF feed_ok_new, unfolded feed_ok_def]

section \<open>Reconnecting\<close>

lemma ReconnectDelay_bounds: "500 \<le> ReconnectDelay n \<and> ReconnectDelay n \<le> 30000"
  using one_le_power [of "2::int" "nat (min 6 (max 0 (n - 1)))"] by (auto simp: ReconnectDelay_def Let_def)

definition timer_inv :: "feed \<Rightarrow> bool" where
  "timer_inv f \<longleftrightarrow> (\<forall>sq d. fd_timer f = Some (sq, d) \<longrightarrow> sq = fd_timerSeq f \<and> 500 \<le> d \<and> d \<le> 30000)"

lemma timer_inv_cong: "timer_inv f \<Longrightarrow> fd_timer g = fd_timer f \<Longrightarrow> fd_timerSeq g = fd_timerSeq f \<Longrightarrow> timer_inv g"
  by (simp add: timer_inv_def)

lemma send_timer [simp]:
  "fd_timer (sendInstrumentRequestLocked resolve env code ts f) = fd_timer f"
  "fd_timerSeq (sendInstrumentRequestLocked resolve env code ts f) = fd_timerSeq f"
  by (simp_all add: sendInstrumentRequestLocked_def Let_def split: option.split prod.split bool.split)

lemma schedule_timer: "timer_inv f \<Longrightarrow> timer_inv (scheduleReconnectLocked f)"
  by (auto simp: timer_inv_def scheduleReconnectLocked_def Let_def ReconnectDelay_bounds)

lemma ensure_timer: "timer_inv f \<Longrightarrow> timer_inv (ensureSocketLocked env f)"
  using schedule_timer [of f] by (simp add: ensureSocketLocked_def) (simp add: timer_inv_def)

lemma SubscribeTokens_timer:
  assumes "timer_inv f"
  shows "timer_inv (SubscribeTokens resolve env ts f)"
proof -
  define fresh where "fresh = filter (\<lambda>t. t \<notin> wanted_set f) ts"
  obtain n wl where f1: "fold want fresh f = f\<lparr>fd_wantSeq := n, fd_wanted := wl\<rparr>" using fold_want [of fresh f] by blast
  have "timer_inv (ensureSocketLocked env (f\<lparr>fd_wantSeq := n, fd_wanted := wl, fd_indexValid := False\<rparr>))"
    by (rule ensure_timer) (use assms in \<open>simp add: timer_inv_def\<close>)
  then show ?thesis using assms unfolding SubscribeTokens_def fresh_def [symmetric] Let_def f1
    by (simp add: timer_inv_def)
qed

lemma socket_frame_timer: "timer_inv f \<Longrightarrow> timer_inv (socket_frame resolve env e buf f)"
proof (erule timer_inv_cong)
  have "fd_timerSeq (fst (take_packets resolve now ps f)) = fd_timerSeq f" for now ps
    using arg_cong [OF take_packets_link [of resolve now ps f], of fd_timerSeq] by (simp add: link_part_def)
  then show "fd_timerSeq (socket_frame resolve env e buf f) = fd_timerSeq f"
    by (simp add: socket_frame_def handleFrameLocked_def enqueue_def case_prod_beta' Let_def split: option.split)
  show "fd_timer (socket_frame resolve env e buf f) = fd_timer f"
    using link_partD(10) [OF take_packets_link [of resolve _ _ f]]
    by (simp add: socket_frame_def handleFrameLocked_def enqueue_def case_prod_beta' Let_def split: option.split)
qed

lemma handleClose_timer:
  assumes "timer_inv f"
  shows "timer_inv (handleClose e code f)"
proof -
  have "timer_inv (enqueue (EvConnection False) (clear_books (f\<lparr>fd_sock := None, fd_connected := False\<rparr>)))"
    using assms by (simp add: timer_inv_def enqueue_def clear_books_def)
  from schedule_timer [OF this] this assms show ?thesis by (auto simp: handleClose_def Let_def) (simp add: timer_inv_def enqueue_def)
qed

lemma delivery_timer:
  "timer_inv f \<Longrightarrow> timer_inv (RefreshResolutions f)" "timer_inv f \<Longrightarrow> timer_inv (drain_begin f)" "timer_inv f \<Longrightarrow> timer_inv (drain_take f)"
  "timer_inv f \<Longrightarrow> timer_inv (deliver f)" "timer_inv f \<Longrightarrow> timer_inv (deliver_return f)"
  by (simp_all add: timer_inv_def RefreshResolutions_def drain_begin_def drain_take_def deliver_def deliver_return_def call_def Let_def
      split: list.split delivery.split feed_event.split)

lemma feed_step_timer: "timer_inv f \<Longrightarrow> timer_inv (feed_step resolve f ev)"
proof (cases ev)
  case (ETimer env sq)
  have "timer_inv (f\<lparr>fd_timer := None\<rparr>)" by (simp add: timer_inv_def)
  moreover assume "timer_inv f"
  ultimately show ?thesis using ETimer ensure_timer by (simp add: timer_fires_def)
next
  case (EUnsubscribe env ts)
  moreover assume "timer_inv f"
  ultimately show ?thesis by (simp add: UnsubscribeTokens_def Let_def fold_unwant timer_inv_def)
next
  case (EOpen env e)
  moreover assume "timer_inv f"
  ultimately show ?thesis by (simp add: socket_open_def Let_def enqueue_def clear_books_def timer_inv_def)
next
  case (EStop env)
  moreover assume "timer_inv f"
  ultimately show ?thesis by (simp add: Stop_def stopLocked_def Let_def enqueue_def clear_books_def timer_inv_def split: option.split prod.split bool.split)
next
  case (EDispose env)
  moreover assume "timer_inv f"
  ultimately show ?thesis by (simp add: Dispose_def stopLocked_def Let_def enqueue_def clear_books_def timer_inv_def split: option.split prod.split bool.split)
qed (simp_all add: SubscribeTokens_timer ensure_timer handleClose_timer socket_frame_timer delivery_timer)

interpretation feed_timer: step_system "feed_step resolve" timer_inv for resolve
  by unfold_locales (rule feed_step_timer)

section \<open>Properties\<close>

text \<open>The last value a token's packets carried for a field.\<close>

definition latest :: "(packet \<Rightarrow> 'a option) \<Rightarrow> 'a \<Rightarrow> token \<Rightarrow> (token \<times> packet \<times> millis) list \<Rightarrow> 'a" where
  "latest g d t seen = last (d # List.map_filter (\<lambda>(t', p, _). if t' = t then g p else None) seen)"

lemma latest_snoc [simp]: "latest g d t (seen @ [(t', p, now)]) = (if t' = t then take_over (g p) (latest g d t seen) else latest g d t seen)"
  by (simp add: latest_def mf take_over_def split: option.split)

lemma latest_Nil [simp]: "latest g d t [] = d"
  by (simp add: latest_def)

lemma latest_unseen: "book_of seen t = None \<Longrightarrow> latest g d t seen = d"
  by (induction seen rule: rev_induct) (auto simp: book_of_snoc split: if_splits)

lemma book_latest:
  "book_of seen t = Some b \<Longrightarrow> fs_LastPrice b = latest p_LastPrice f_zero t seen \<and> fs_AveragePrice b = latest p_AveragePrice f_zero t seen \<and>
     fs_Bids b = latest p_Bids [] t seen \<and> fs_Asks b = latest p_Asks [] t seen"
proof (induction seen arbitrary: b rule: rev_induct)
  case (snoc y ys)
  obtain t' p now where y: "y = (t', p, now)" by (cases y)
  show ?case
  proof (cases "t' = t")
    case True
    show ?thesis using snoc.prems snoc.IH True y
      by (cases "book_of ys t") (auto simp: book_of_snoc merge_def Let_def latest_unseen fresh_state_def)
  qed (use snoc y in \<open>simp add: book_of_snoc\<close>)
qed simp

text \<open>
  C6: Whatever the interleaving of subscriptions, connections, closes, timers, frames and deliveries, what an open socket is
  subscribed to upstream is exactly the instruments of the wanted tokens, as long as no write to that socket failed. (Tokens
  encode their instrument, so no two resolve to the same one.)
\<close>

theorem feed_upstream_follows_wanted:
  assumes "resolve_inj resolve" and "f = foldl (feed_step resolve) NewFeed evs" and "fd_sock f = Some (e, True)" and "\<not> fd_werr f"
  shows "upstream e (fd_wire f) = instruments resolve (wanted_set f)"
  using feed_reachable [of resolve evs] assms by (simp add: wire_inv_def)

definition one_instrument :: "token \<Rightarrow> feed_instrument option" where
  "one_instrument t = (if t = 5 then Some (SegmentNSEFNO, 7) else None)"

definition live_env :: fenv where
  "live_env = \<lparr>fe_token = ''t'', fe_client = ''c'', fe_urlOk = True, fe_now = 1000, fe_writes = 9\<rparr>"

text \<open>A ticker packet of instrument 7 at price 100.\<close>

definition tick_frame :: "byte list" where
  "tick_frame = [2, 16, 0, 2, 7, 0, 0, 0, 0, 0, 200, 66, 0, 0, 0, 0]"

definition open_run :: "feed_ev list" where
  "open_run = [ESubscribe live_env [5], EOpen live_env 1, EFrame live_env 1 tick_frame]"

lemma one_instrument_inj: "resolve_inj one_instrument"
  by (simp add: resolve_inj_def one_instrument_def)

theorem feed_upstream_follows_wanted_witness:
  "upstream 1 (fd_wire (foldl (feed_step one_instrument) NewFeed open_run)) =
     instruments one_instrument (wanted_set (foldl (feed_step one_instrument) NewFeed open_run))"
  by (rule feed_upstream_follows_wanted [OF one_instrument_inj refl]) code_simp+



text \<open>
  A book only holds data of the open connection: it exists only while connected, for a wanted token, and its last price,
  average and both ladders are those last carried by the token's packets since the socket opened and the token was
  last subscribed.
\<close>

theorem feed_books_current:
  assumes "f = foldl (feed_step resolve) NewFeed evs" and "map_of (fd_state f) t = Some b"
  shows "fd_connected f \<and> t \<in> wanted_set f \<and> fs_LastPrice b = latest p_LastPrice f_zero t (fd_seen f) \<and>
    fs_AveragePrice b = latest p_AveragePrice f_zero t (fd_seen f) \<and> fs_Bids b = latest p_Bids [] t (fd_seen f) \<and> fs_Asks b = latest p_Asks [] t (fd_seen f)"
proof -
  have inv: "feed_inv f" using feed_reachable [of resolve evs] assms(1) by simp
  then have "book_of (fd_seen f) t = Some b" using assms(2) by (simp add: feed_inv_def)
  moreover have "t \<in> fst ` set (fd_state f)" using assms(2) by (metis image_eqI map_of_SomeD fst_conv)
  moreover have "fd_connected f" using inv assms(2) by (auto simp: feed_inv_def)
  ultimately show ?thesis using inv book_latest [of "fd_seen f" t b] by (auto simp: feed_inv_def)
qed

theorem feed_books_current_witness:
  "\<exists>b. map_of (fd_state (foldl (feed_step one_instrument) NewFeed open_run)) 5 = Some b \<and>
     fs_LastPrice b = latest p_LastPrice f_zero 5 (fd_seen (foldl (feed_step one_instrument) NewFeed open_run))"
proof -
  have "map_of (fd_state (foldl (feed_step one_instrument) NewFeed open_run)) 5 \<noteq> None" by code_simp
  then obtain b where "map_of (fd_state (foldl (feed_step one_instrument) NewFeed open_run)) 5 = Some b" by blast
  with feed_books_current [OF refl this] show ?thesis by blast
qed

text \<open>
  C34: A lost connection comes back. When the current socket of a feed that is not disposed closes with anything but an
  authentication code, a reconnect timer is pending with a delay between half a second and thirty seconds, and when it fires
  with credentials at hand a new socket is being dialled; and once every queued callback is delivered, the consumer's last
  word on the connection is the truth.
\<close>

theorem feed_recovers:
  assumes "f = foldl (feed_step resolve) NewFeed evs"
  shows "(map_option fst (fd_sock f) = Some e \<and> \<not> IsAuthClose code \<and> \<not> fd_disposed f \<longrightarrow>
      (\<exists>sq d. fd_timer (handleClose e code f) = Some (sq, d) \<and> 500 \<le> d \<and> d \<le> 30000 \<and>
        (fe_token env \<noteq> '''' \<and> fe_client env \<noteq> '''' \<and> fe_urlOk env \<longrightarrow> fd_sock (timer_fires env sq (handleClose e code f)) = Some (Suc (fd_epoch f), False)))) \<and>
    (fd_events f = [] \<and> fd_busy f = Quiet \<longrightarrow> last (False # List.map_filter call_report (fd_calls f)) = fd_connected f)"
proof (intro conjI impI)
  assume h: "map_option fst (fd_sock f) = Some e \<and> \<not> IsAuthClose code \<and> \<not> fd_disposed f"
  define f1 where "f1 = enqueue (EvConnection False) (clear_books (f\<lparr>fd_sock := None, fd_connected := False\<rparr>))"
  have c: "handleClose e code f = scheduleReconnectLocked f1" using h by (simp add: handleClose_def f1_def Let_def)
  have f1: "fd_sock f1 = None" "fd_epoch f1 = fd_epoch f" "\<not> fd_disposed f1" using h by (simp_all add: f1_def enqueue_def clear_books_def)
  have "timer_inv (handleClose e code f)"
    unfolding assms by (intro handleClose_timer feed_timer.run_inv) (simp add: timer_inv_def NewFeed_def)
  moreover obtain sq d where t: "fd_timer (handleClose e code f) = Some (sq, d)"
    using f1 by (cases "fd_timer f1") (auto simp: c scheduleReconnectLocked_def Let_def)
  ultimately have b: "sq = fd_timerSeq (handleClose e code f)" "500 \<le> d" "d \<le> 30000" by (auto simp: timer_inv_def)
  have k: "fd_sock (handleClose e code f) = None" "fd_epoch (handleClose e code f) = fd_epoch f" "\<not> fd_disposed (handleClose e code f)"
    using f1 by (simp_all add: c scheduleReconnectLocked_def Let_def)
  have "fe_token env \<noteq> '''' \<and> fe_client env \<noteq> '''' \<and> fe_urlOk env \<longrightarrow> fd_sock (timer_fires env sq (handleClose e code f)) = Some (Suc (fd_epoch f), False)"
    using t b(1) k by (simp add: timer_fires_def ensureSocketLocked_def)
  with t b show "\<exists>sq d. fd_timer (handleClose e code f) = Some (sq, d) \<and> 500 \<le> d \<and> d \<le> 30000 \<and>
        (fe_token env \<noteq> '''' \<and> fe_client env \<noteq> '''' \<and> fe_urlOk env \<longrightarrow> fd_sock (timer_fires env sq (handleClose e code f)) = Some (Suc (fd_epoch f), False))"
    by blast
next
  assume "fd_events f = [] \<and> fd_busy f = Quiet"
  then show "last (False # List.map_filter call_report (fd_calls f)) = fd_connected f"
    using feed_reachable [of resolve evs] assms unfolding feed_inv_def conn_reports_def by simp
qed

theorem feed_recovers_witness:
  "\<exists>sq d. fd_timer (handleClose 1 1006 (foldl (feed_step one_instrument) NewFeed open_run)) = Some (sq, d) \<and> 500 \<le> d \<and> d \<le> 30000 \<and>
     fd_sock (timer_fires live_env sq (handleClose 1 1006 (foldl (feed_step one_instrument) NewFeed open_run))) = Some (2, False)"
proof -
  have "map_option fst (fd_sock (foldl (feed_step one_instrument) NewFeed open_run)) = Some 1 \<and> fd_epoch (foldl (feed_step one_instrument) NewFeed open_run) = 1 \<and>
      \<not> fd_disposed (foldl (feed_step one_instrument) NewFeed open_run)" by code_simp
  moreover have "\<not> IsAuthClose 1006" "fe_token live_env \<noteq> '''' \<and> fe_client live_env \<noteq> '''' \<and> fe_urlOk live_env"
    by (simp_all add: IsAuthClose_def live_env_def)
  ultimately show ?thesis using feed_recovers [OF refl, of one_instrument open_run 1 1006 live_env] by (auto simp: numeral_2_eq_2)
qed

end
