(* ===== verification/BrokerRegistry.thy ===== *)
theory BrokerRegistry
  imports Subscriptions IstTime Market
begin

text \<open>
  The broker registry (\<^verbatim>\<open>internal/brokers/registry\<close>: \<^verbatim>\<open>registry.go\<close>, \<^verbatim>\<open>switch.go\<close>, \<^verbatim>\<open>spikefeed.go\<close>, \<^verbatim>\<open>dhansession.go\<close>,
  \<^verbatim>\<open>store.go\<close>): which broker is active, the three subscription lanes and the feed each lane's calls are routed to, the
  broker switch, and the Dhan session with its restarts and losses. A feed is the set of tokens the registry has asked
  it for since it was built or last stopped (what the feed does with them is the matter of the hub and the Dhan feed);
  operations on a Dhan feed go through its serial queue, which keeps their order. Calls into other components (hooks,
  universe loads) are marks in \<open>rg_marks\<close>. Clock, environment and database outcomes are arguments.
\<close>

section \<open>State\<close>

datatype feed_id = HubFeed | DhanFutures | DhanBox | ZerodhaBox | DhanSpike

datatype mark =
    StopScanner | LanesStopped | DropMarketDataSessions nat nat | ClearDhanInstruments | InvalidateUniverse | InvalidateBooks
  | Adopted broker_id int | LoadUniverse broker_id | ReloadUniverse | FeedStarted | OnRuntimeReady | Publish | OnSessionLost
  | VerifyStaticIP

record dhan_meta =
  dm_clientID :: string
  dm_clientName :: string
  dm_clientUcc :: string
  dm_powerOfAttorney :: bool
  dm_loginDay :: string
  dm_loginAt :: millis
  dm_source :: string

record dhan_row =
  dr_AccessToken :: string
  dr_ClientID :: string
  dr_ClientName :: string
  dr_ClientUcc :: string
  dr_PowerOfAttorney :: bool
  dr_ExpiryTime :: "millis option"
  dr_LoginAt :: "millis option"
  dr_LoginDate :: string
  dr_UpdatedAt :: "millis option"
  dr_Source :: string

text \<open>A database call is not attempted (no database), fails, or takes effect.\<close>

datatype db_outcome = DbDisabled | DbError | DbDone

record registry =
  rg_active :: broker_id
  rg_gen :: int
  rg_transitioning :: bool
  rg_lastTick :: "millis option"
  rg_futures :: coord
  rg_box :: coord
  rg_spike :: coord
  rg_feeds :: "feed_id \<Rightarrow> token set option"
  rg_token :: "string option"
  rg_expiry :: "millis option"
  rg_meta :: "dhan_meta option"
  rg_brokerRow :: "(broker_id \<times> int option) option"
  rg_dhanRow :: "dhan_row option"
  rg_marks :: "mark list"

definition spikeLane :: lane where "spikeLane = LaneNamed ''spike''"

text \<open>\<^verbatim>\<open>New\<close>: \<open>defaultBroker\<close> is the value of \<^verbatim>\<open>DEFAULT_BROKER\<close>; the database rows are what is stored already.\<close>

definition New :: "string \<Rightarrow> (broker_id \<times> int option) option \<Rightarrow> dhan_row option \<Rightarrow> registry" where
  "New defaultBroker brow drow =
     \<lparr>rg_active = (case Parse (Some defaultBroker) of Some b \<Rightarrow> b | None \<Rightarrow> Dhan), rg_gen = 1, rg_transitioning = False, rg_lastTick = None,
      rg_futures = NewCoordinator LaneFutures, rg_box = NewCoordinator LaneBox, rg_spike = NewCoordinator spikeLane,
      rg_feeds = (\<lambda>_. None)(HubFeed := Some {}), rg_token = None, rg_expiry = None, rg_meta = None,
      rg_brokerRow = brow, rg_dhanRow = drow, rg_marks = []\<rparr>"

definition note_mark :: "mark \<Rightarrow> registry \<Rightarrow> registry" where
  "note_mark m r = r\<lparr>rg_marks := rg_marks r @ [m]\<rparr>"

definition NoteTick :: "millis \<Rightarrow> registry \<Rightarrow> registry" where
  "NoteTick now r = r\<lparr>rg_lastTick := Some now\<rparr>"

definition Namespace :: "registry \<Rightarrow> namespace" where
  "Namespace r = \<lparr>ns_Broker = rg_active r, ns_Generation = rg_gen r\<rparr>"

text \<open>\<^verbatim>\<open>namespaceFor\<close>: \<open>expected\<close> is the namespace a background reader carries, if any.\<close>

definition namespaceFor :: "namespace option \<Rightarrow> registry \<Rightarrow> namespace option" where
  "namespaceFor expected r =
     (case expected of Some e \<Rightarrow> if e \<noteq> Namespace r \<or> rg_transitioning r then None else Some (Namespace r) | None \<Rightarrow> Some (Namespace r))"

section \<open>Routing subscriptions to feeds\<close>

definition asked :: "feed_id \<Rightarrow> registry \<Rightarrow> token set" where
  "asked i r = (case rg_feeds r i of Some S \<Rightarrow> S | None \<Rightarrow> {})"

text \<open>The \<^verbatim>\<open>ensure...Feed\<close> functions build a missing feed.\<close>

definition ensure_feed :: "feed_id \<Rightarrow> registry \<Rightarrow> registry" where
  "ensure_feed i r = r\<lparr>rg_feeds := (rg_feeds r)(i := Some (asked i r))\<rparr>"

definition feed_subscribe :: "feed_id \<Rightarrow> token list \<Rightarrow> registry \<Rightarrow> registry" where
  "feed_subscribe i tokens r = r\<lparr>rg_feeds := (rg_feeds r)(i := Some (asked i r \<union> set tokens))\<rparr>"

definition feed_unsubscribe :: "feed_id \<Rightarrow> token list \<Rightarrow> registry \<Rightarrow> registry" where
  "feed_unsubscribe i tokens r = r\<lparr>rg_feeds := (rg_feeds r)(i := map_option (\<lambda>S. S - set tokens) (rg_feeds r i))\<rparr>"

definition futures_feed :: "registry \<Rightarrow> feed_id" where
  "futures_feed r = (if rg_active r = Zerodha then HubFeed else DhanFutures)"

definition box_feed :: "registry \<Rightarrow> feed_id" where
  "box_feed r = (if rg_active r = Zerodha then ZerodhaBox else DhanBox)"

definition subscribeUpstream :: "lane \<Rightarrow> token list \<Rightarrow> registry \<Rightarrow> registry" where
  "subscribeUpstream lane tokens r =
     (if tokens = [] then r
      else if lane = LaneBox then feed_subscribe (box_feed r) tokens r
      else feed_subscribe (futures_feed r) tokens r)"

definition unsubscribeUpstream :: "lane \<Rightarrow> token list \<Rightarrow> registry \<Rightarrow> registry" where
  "unsubscribeUpstream lane tokens r =
     (if tokens = [] then r
      else if lane = LaneBox then feed_unsubscribe (box_feed r) tokens r
      else feed_unsubscribe (futures_feed r) tokens r)"

text \<open>\<^verbatim>\<open>laneTransport\<close> and \<^verbatim>\<open>spikeTransport\<close>: the calls a coordinator makes.\<close>

fun lane_call :: "lane \<Rightarrow> tcall \<Rightarrow> registry \<Rightarrow> registry" where
  "lane_call lane (SubscribeTokens ts) r = subscribeUpstream lane ts r"
| "lane_call lane (UnsubscribeTokens ts) r = unsubscribeUpstream lane ts r"

fun spike_call :: "tcall \<Rightarrow> registry \<Rightarrow> registry" where
  "spike_call (SubscribeTokens ts) r = (if rg_active r = Dhan then feed_subscribe DhanSpike ts r else r)"
| "spike_call (UnsubscribeTokens ts) r = feed_unsubscribe DhanSpike ts r"

definition AcquireBrowserTokens :: "yield_handler \<Rightarrow> token list \<Rightarrow> registry \<Rightarrow> lease_id \<times> registry" where
  "AcquireBrowserTokens h tokens r =
     (let (i, c, out) = Acquire h OwnerBrowser tokens (rg_futures r) in (i, fold (lane_call LaneFutures) out (r\<lparr>rg_futures := c\<rparr>)))"

definition ReleaseBrowserTokens :: "lease_id \<Rightarrow> registry \<Rightarrow> registry" where
  "ReleaseBrowserTokens i r = (let (c, out) = releaseLease i (rg_futures r) in fold (lane_call LaneFutures) out (r\<lparr>rg_futures := c\<rparr>))"

definition SetSyntheticTokens :: "token list \<Rightarrow> registry \<Rightarrow> registry" where
  "SetSyntheticTokens tokens r =
     (let (c, out) = SetOwnerTokens None OwnerScanner tokens (rg_box r) in fold (lane_call LaneBox) out (r\<lparr>rg_box := c\<rparr>))"

definition SetAnalyticsTokens :: "yield_handler \<Rightarrow> token list \<Rightarrow> registry \<Rightarrow> registry" where
  "SetAnalyticsTokens h tokens r =
     (let (c, out) = SetOwnerTokens h OwnerAnalytics tokens (rg_futures r) in fold (lane_call LaneFutures) out (r\<lparr>rg_futures := c\<rparr>))"

definition SetSpikeTokens :: "token list \<Rightarrow> registry \<Rightarrow> registry" where
  "SetSpikeTokens tokens r =
     (let (c, out) = SetOwnerTokens None OwnerStrategy tokens (rg_spike r) in fold spike_call out (r\<lparr>rg_spike := c\<rparr>))"

definition AnalyticsTokenBudget :: "registry \<Rightarrow> int" where
  "AnalyticsTokenBudget r =
     (let priority = length (filter (\<lambda>t. case CountsFor t (rg_futures r) of Some e \<Rightarrow> Total e > Analytics e | None \<Rightarrow> False) (ActiveTokens (rg_futures r)))
      in max 0 (2800 - int priority))"

section \<open>Feeds\<close>

definition recycleSpikeFeed :: "registry \<Rightarrow> registry" where
  "recycleSpikeFeed r = r\<lparr>rg_feeds := (rg_feeds r)(DhanSpike := None)\<rparr>"

definition stop_futures_dhan :: "registry \<Rightarrow> registry" where
  "stop_futures_dhan r = r\<lparr>rg_feeds := (rg_feeds r)(DhanFutures := map_option (\<lambda>_. {}) (rg_feeds r DhanFutures))\<rparr>"

definition stopAllLanes :: "registry \<Rightarrow> registry" where
  "stopAllLanes r =
     (let r1 = recycleSpikeFeed r; r2 = r1\<lparr>rg_feeds := (rg_feeds r1)(ZerodhaBox := None, DhanBox := None, HubFeed := Some {})\<rparr>
      in note_mark LanesStopped (stop_futures_dhan r2))"

definition StartActiveFeed :: "registry \<Rightarrow> registry" where
  "StartActiveFeed r = (if rg_active r = Dhan then note_mark FeedStarted (ensure_feed DhanFutures r) else r)"

definition replaySpikeFeed :: "registry \<Rightarrow> registry" where
  "replaySpikeFeed r =
     (let tokens = ActiveTokens (rg_spike r) in if tokens \<noteq> [] \<and> rg_active r = Dhan then feed_subscribe DhanSpike tokens r else r)"

definition StopFeeds :: "registry \<Rightarrow> registry" where
  "StopFeeds r = stopAllLanes r"

section \<open>The durable rows\<close>

definition SaveActiveBroker :: "db_outcome \<Rightarrow> broker_id \<Rightarrow> registry \<Rightarrow> registry \<times> int option" where
  "SaveActiveBroker out broker r =
     (case out of
        DbDone \<Rightarrow> (let g = (case rg_brokerRow r of None \<Rightarrow> 1 | Some (_, gen) \<Rightarrow> (case gen of Some n \<Rightarrow> n | None \<Rightarrow> 0) + 1)
                   in (r\<lparr>rg_brokerRow := Some (broker, Some g)\<rparr>, Some g))
      | _ \<Rightarrow> (r, None))"

definition LoadActiveBroker :: "db_outcome \<Rightarrow> registry \<Rightarrow> (broker_id \<times> int) option" where
  "LoadActiveBroker out r =
     (case out of
        DbDone \<Rightarrow> (case rg_brokerRow r of None \<Rightarrow> None
                   | Some (b, gen) \<Rightarrow> if b = '''' then None else Some (b, case gen of Some n \<Rightarrow> n | None \<Rightarrow> 1))
      | _ \<Rightarrow> None)"

definition SaveDhanSession :: "db_outcome \<Rightarrow> millis \<Rightarrow> dhan_row \<Rightarrow> registry \<Rightarrow> registry" where
  "SaveDhanSession out now rec r = (if out = DbDone then r\<lparr>rg_dhanRow := Some (rec\<lparr>dr_LoginAt := Some now, dr_UpdatedAt := Some now\<rparr>)\<rparr> else r)"

definition LoadDhanSession :: "db_outcome \<Rightarrow> registry \<Rightarrow> dhan_row option" where
  "LoadDhanSession out r = (if out = DbDone then rg_dhanRow r else None)"

definition ClearDhanSession :: "db_outcome \<Rightarrow> registry \<Rightarrow> registry" where
  "ClearDhanSession out r = (if out = DbDone then r\<lparr>rg_dhanRow := None\<rparr> else r)"

section \<open>The switch\<close>

text \<open>\<open>cid\<close> is the trimmed \<^verbatim>\<open>DHAN_CLIENT_ID\<close>.\<close>

datatype blocker = BrokerNotConfigured

definition DhanCredentials :: "string \<Rightarrow> bool" where
  "DhanCredentials cid \<longleftrightarrow> cid \<noteq> ''''"

definition SwitchBlockers :: "string \<Rightarrow> broker_id \<Rightarrow> blocker list" where
  "SwitchBlockers cid target = (if target = Dhan \<and> \<not> DhanCredentials cid then [BrokerNotConfigured] else [])"

text \<open>The sections of \<^verbatim>\<open>SwitchTo\<close>, between which other goroutines may run.\<close>

definition switch_begin :: "registry \<Rightarrow> registry" where
  "switch_begin r = note_mark StopScanner (r\<lparr>rg_transitioning := True\<rparr>)"

definition switch_reset :: "registry \<Rightarrow> registry" where
  "switch_reset r =
     (let (ft, fl, fc) = ResetForBrokerSwitch (rg_futures r); (bt, bl, bc) = ResetForBrokerSwitch (rg_box r); (_, _, sc) = ResetForBrokerSwitch (rg_spike r)
      in note_mark (DropMarketDataSessions (ft + bt) (fl + bl)) (r\<lparr>rg_futures := fc, rg_box := bc, rg_spike := sc\<rparr>))"

definition switch_invalidate :: "broker_id \<Rightarrow> registry \<Rightarrow> registry" where
  "switch_invalidate previous r =
     (let r1 = (if previous = Dhan then note_mark ClearDhanInstruments r else r); r2 = note_mark InvalidateUniverse r1
      in note_mark InvalidateBooks (r2\<lparr>rg_lastTick := None\<rparr>))"

definition switch_adopt :: "db_outcome \<Rightarrow> broker_id \<Rightarrow> int \<Rightarrow> registry \<Rightarrow> registry" where
  "switch_adopt out target gen r =
     (let (r1, persisted) = SaveActiveBroker out target r; next = (case persisted of Some p \<Rightarrow> max (gen + 1) p | None \<Rightarrow> gen + 1)
      in note_mark (Adopted target next) (r1\<lparr>rg_active := target, rg_gen := next\<rparr>))"

definition loadNewUniverse :: "bool \<Rightarrow> broker_id \<Rightarrow> registry \<Rightarrow> registry" where
  "loadNewUniverse masterOk target r =
     (if target = Dhan then if masterOk then note_mark (LoadUniverse target) (note_mark VerifyStaticIP r) else r
      else note_mark (LoadUniverse target) r)"

definition switch_start :: "bool \<Rightarrow> broker_id \<Rightarrow> registry \<Rightarrow> registry" where
  "switch_start masterOk target r = StartActiveFeed (note_mark ReloadUniverse (loadNewUniverse masterOk target r))"

definition switch_end :: "registry \<Rightarrow> registry" where
  "switch_end r = note_mark Publish (note_mark OnRuntimeReady (r\<lparr>rg_transitioning := False\<rparr>))"

definition SwitchTo :: "string \<Rightarrow> db_outcome \<Rightarrow> bool \<Rightarrow> broker_id \<Rightarrow> registry \<Rightarrow> registry \<times> (blocker list + broker_id)" where
  "SwitchTo cid out masterOk target r =
     (if target = rg_active r then (r, Inr (rg_active r))
      else if SwitchBlockers cid target \<noteq> [] then (r, Inl (SwitchBlockers cid target))
      else (switch_end (switch_start masterOk target (switch_adopt out target (rg_gen r)
              (switch_invalidate (rg_active r) (switch_reset (stopAllLanes (switch_begin r)))))), Inr target))"

section \<open>The Dhan session\<close>

definition IsTokenExpired :: "millis option \<Rightarrow> millis \<Rightarrow> bool" where
  "IsTokenExpired expiry now = (case expiry of None \<Rightarrow> False | Some e \<Rightarrow> e \<le> now)"

definition usableDhanToken :: "millis \<Rightarrow> registry \<Rightarrow> string" where
  "usableDhanToken now r =
     (case rg_token r of None \<Rightarrow> '''' | Some t \<Rightarrow> if t = '''' then '''' else if IsTokenExpired (rg_expiry r) now then '''' else t)"

definition setDhanSession :: "string option \<Rightarrow> millis option \<Rightarrow> dhan_meta option \<Rightarrow> registry \<Rightarrow> registry" where
  "setDhanSession token expiry meta r = r\<lparr>rg_token := token, rg_expiry := expiry, rg_meta := meta\<rparr>"

definition token_based :: "dhan_meta option \<Rightarrow> bool" where
  "token_based meta = (case meta of Some m \<Rightarrow> dm_source m \<noteq> '''' | None \<Rightarrow> False)"

definition recycle_dhan_box :: "registry \<Rightarrow> registry" where
  "recycle_dhan_box r = r\<lparr>rg_feeds := (rg_feeds r)(DhanBox := None)\<rparr>"

text \<open>The first half of \<^verbatim>\<open>restartDhanRuntime\<close>: the feeds on the old token are dropped.\<close>

definition restart_drop :: "bool \<Rightarrow> registry \<Rightarrow> registry" where
  "restart_drop bothLanes r =
     (let r1 = recycleSpikeFeed r;
          r2 = (if rg_feeds r1 DhanFutures \<noteq> None then r1\<lparr>rg_feeds := (rg_feeds r1)(DhanFutures := None), rg_lastTick := None\<rparr> else r1)
      in note_mark VerifyStaticIP (if bothLanes then recycle_dhan_box r2 else r2))"

definition restartDhanRuntime :: "bool \<Rightarrow> registry \<Rightarrow> registry" where
  "restartDhanRuntime bothLanes r =
     (let r3 = restart_drop bothLanes r
      in if rg_active r3 = Dhan then
           let r4 = StartActiveFeed (note_mark (LoadUniverse Dhan) r3);
               wanted = ActiveTokens (rg_futures r4); wantedBox = ActiveTokens (rg_box r4);
               r5 = (if wanted \<noteq> [] \<or> wantedBox \<noteq> [] then subscribeUpstream LaneBox wantedBox (subscribeUpstream LaneFutures wanted r4) else r4)
           in note_mark OnRuntimeReady (replaySpikeFeed (note_mark Publish r5))
         else r3)"

text \<open>What \<^verbatim>\<open>ConsumeConsent\<close> returns.\<close>

record dhan_login =
  lg_AccessToken :: string
  lg_ClientID :: string
  lg_ClientName :: string
  lg_ClientUcc :: string
  lg_PowerOfAttorney :: bool
  lg_ExpiryTime :: "millis option"

definition CompleteDhanLogin :: "db_outcome \<Rightarrow> millis \<Rightarrow> dhan_login \<Rightarrow> registry \<Rightarrow> registry" where
  "CompleteDhanLogin out now s r =
     (let day = IstDayKey now;
          meta = \<lparr>dm_clientID = lg_ClientID s, dm_clientName = lg_ClientName s, dm_clientUcc = lg_ClientUcc s, dm_powerOfAttorney = lg_PowerOfAttorney s,
            dm_loginDay = day, dm_loginAt = now, dm_source = ''''\<rparr>;
          r1 = setDhanSession (Some (lg_AccessToken s)) (lg_ExpiryTime s) (Some meta) r;
          r2 = SaveDhanSession out now \<lparr>dr_AccessToken = lg_AccessToken s, dr_ClientID = lg_ClientID s, dr_ClientName = lg_ClientName s, dr_ClientUcc = lg_ClientUcc s,
            dr_PowerOfAttorney = lg_PowerOfAttorney s, dr_ExpiryTime = lg_ExpiryTime s, dr_LoginAt = None, dr_LoginDate = day, dr_UpdatedAt = None, dr_Source = ''''\<rparr> r1
      in restartDhanRuntime False r2)"

definition LogoutDhan :: "db_outcome \<Rightarrow> registry \<Rightarrow> registry" where
  "LogoutDhan out r =
     (let meta = rg_meta r; r1 = stop_futures_dhan (recycleSpikeFeed (setDhanSession None None None r));
          r2 = (if token_based meta then recycle_dhan_box r1 else r1);
          r3 = ClearDhanSession out (note_mark ClearDhanInstruments r2)
      in if rg_active r3 = Dhan then note_mark Publish (note_mark InvalidateBooks r3) else r3)"

definition onDhanSessionLost :: "db_outcome \<Rightarrow> registry \<Rightarrow> registry" where
  "onDhanSessionLost out r =
     (let r1 = (recycleSpikeFeed r)\<lparr>rg_token := None, rg_expiry := None\<rparr>;
          r2 = (if token_based (rg_meta r) then recycle_dhan_box r1 else r1);
          r3 = ClearDhanSession out (stop_futures_dhan r2)
      in if rg_active r3 = Dhan then note_mark Publish (note_mark OnSessionLost (note_mark InvalidateBooks r3)) else r3)"

text \<open>\<open>isCurrent\<close>: the feed that lost its session is still one of the registry's.\<close>

definition onDhanFeedSessionLost :: "bool \<Rightarrow> db_outcome \<Rightarrow> registry \<Rightarrow> registry" where
  "onDhanFeedSessionLost isCurrent out r = (if isCurrent then onDhanSessionLost out r else r)"

section \<open>Boot\<close>

definition adopt_saved :: "(broker_id \<times> int) option \<Rightarrow> registry \<Rightarrow> registry" where
  "adopt_saved saved r =
     (case saved of None \<Rightarrow> r
      | Some (b, g) \<Rightarrow> (let r1 = (if IsID b then r\<lparr>rg_active := b\<rparr> else r) in if g > rg_gen r1 then r1\<lparr>rg_gen := g\<rparr> else r1))"

definition Restore :: "db_outcome \<Rightarrow> db_outcome \<Rightarrow> db_outcome \<Rightarrow> string \<Rightarrow> millis \<Rightarrow> registry \<Rightarrow> registry" where
  "Restore o1 o2 o3 cid now r =
     (let r1 = adopt_saved (LoadActiveBroker o1 r) r
      in case LoadDhanSession o2 r1 of
           None \<Rightarrow> r1
         | Some s \<Rightarrow>
             if dr_Source s \<noteq> '''' \<and> dr_ClientID s \<noteq> cid then r1
             else if IsTokenExpired (dr_ExpiryTime s) now then ClearDhanSession o3 r1
             else setDhanSession (Some (dr_AccessToken s)) (dr_ExpiryTime s)
               (Some \<lparr>dm_clientID = dr_ClientID s, dm_clientName = dr_ClientName s, dm_clientUcc = dr_ClientUcc s, dm_powerOfAttorney = dr_PowerOfAttorney s,
                  dm_loginDay = dr_LoginDate s, dm_loginAt = (case dr_LoginAt s of Some t \<Rightarrow> t | None \<Rightarrow> now), dm_source = dr_Source s\<rparr>) r1)"

text \<open>\<open>authed\<close>: the active broker has a session.\<close>

definition StartActiveRuntime :: "bool \<Rightarrow> registry \<Rightarrow> registry" where
  "StartActiveRuntime authed r =
     (if \<not> authed then r
      else let r1 = (if rg_active r = Dhan then note_mark VerifyStaticIP r else r) in StartActiveFeed (note_mark (LoadUniverse (rg_active r1)) r1))"

section \<open>Runs\<close>

text \<open>Operations one after the other; \<open>h\<close> is the analytics-yield handler of the futures lane.\<close>

datatype reg_op =
    OAcquire "token list"
  | ORelease lease_id
  | OSynthetic "token list"
  | OAnalytics "token list"
  | OSpike "token list"
  | OTick millis
  | OSwitch string db_outcome bool broker_id
  | OLogin db_outcome millis dhan_login
  | ORestart bool
  | OLogout db_outcome
  | OLost bool db_outcome
  | OStart bool
  | OStop

fun reg_step :: "yield_handler \<Rightarrow> registry \<Rightarrow> reg_op \<Rightarrow> registry" where
  "reg_step h r (OAcquire ts) = snd (AcquireBrowserTokens h ts r)"
| "reg_step h r (ORelease i) = ReleaseBrowserTokens i r"
| "reg_step h r (OSynthetic ts) = SetSyntheticTokens ts r"
| "reg_step h r (OAnalytics ts) = SetAnalyticsTokens h ts r"
| "reg_step h r (OSpike ts) = SetSpikeTokens ts r"
| "reg_step h r (OTick now) = NoteTick now r"
| "reg_step h r (OSwitch cid out masterOk target) = fst (SwitchTo cid out masterOk target r)"
| "reg_step h r (OLogin out now s) = CompleteDhanLogin out now s r"
| "reg_step h r (ORestart bothLanes) = restartDhanRuntime bothLanes r"
| "reg_step h r (OLogout out) = LogoutDhan out r"
| "reg_step h r (OLost isCurrent out) = onDhanFeedSessionLost isCurrent out r"
| "reg_step h r (OStart authed) = StartActiveRuntime authed r"
| "reg_step h r OStop = StopFeeds r"

text \<open>Only known brokers are selected (the callers parse the target).\<close>

fun known_target :: "reg_op \<Rightarrow> bool" where
  "known_target (OSwitch cid out masterOk target) = IsID target"
| "known_target _ = True"

section \<open>Feeds follow the lanes\<close>

abbreviation lane_tokens :: "coord \<Rightarrow> token set" where
  "lane_tokens c \<equiv> tokens_of (co_counts c)"

text \<open>The feeds of the active broker are asked for nothing outside their lane's table; the other broker's for nothing.\<close>

definition feeds_within :: "registry \<Rightarrow> bool" where
  "feeds_within r \<longleftrightarrow> IsID (rg_active r) \<and> coord_ok (rg_futures r) \<and> coord_ok (rg_box r) \<and> coord_ok (rg_spike r) \<and> rg_feeds r HubFeed \<noteq> None \<and>
     asked (futures_feed r) r \<subseteq> lane_tokens (rg_futures r) \<and> asked (box_feed r) r \<subseteq> lane_tokens (rg_box r) \<and>
     (rg_active r = Dhan \<longrightarrow> asked DhanSpike r \<subseteq> lane_tokens (rg_spike r) \<and> asked HubFeed r = {} \<and> asked ZerodhaBox r = {}) \<and>
     (rg_active r = Zerodha \<longrightarrow> asked DhanSpike r = {} \<and> asked DhanFutures r = {} \<and> asked DhanBox r = {})"

definition feeds_exact :: "registry \<Rightarrow> bool" where
  "feeds_exact r \<longleftrightarrow> feeds_within r \<and> lane_tokens (rg_futures r) \<subseteq> asked (futures_feed r) r \<and> lane_tokens (rg_box r) \<subseteq> asked (box_feed r) r \<and>
     (rg_active r = Dhan \<longrightarrow> lane_tokens (rg_spike r) \<subseteq> asked DhanSpike r)"

lemma broker_cases: "IsID b \<longleftrightarrow> b = Zerodha \<or> b = Dhan" and broker_neq [simp]: "Zerodha \<noteq> Dhan" "Dhan \<noteq> Zerodha"
  by (auto simp: IsID_def Zerodha_def Dhan_def)

text \<open>What a sequence of transport calls does to a feed that was asked for \<open>A\<close>.\<close>

fun ask_set :: "tcall \<Rightarrow> token set \<Rightarrow> token set" where
  "ask_set (SubscribeTokens ts) A = A \<union> set ts"
| "ask_set (UnsubscribeTokens ts) A = A - set ts"

lemma ask_set_run:
  "wire_run S out = Some S' \<Longrightarrow> A \<subseteq> S \<Longrightarrow> fold ask_set out A \<subseteq> S' \<and> (S \<subseteq> A \<longrightarrow> S' \<subseteq> fold ask_set out A)"
proof (induction S out arbitrary: A rule: wire_run.induct)
  case (2 S ts cs)
  then have c: "ts \<noteq> [] \<and> distinct ts \<and> set ts \<inter> S = {}" "wire_run (S \<union> set ts) cs = Some S'" by (simp_all split: if_splits)
  have "A \<union> set ts \<subseteq> S \<union> set ts" "S \<subseteq> A \<longrightarrow> S \<union> set ts \<subseteq> A \<union> set ts" using "2.prems"(2) by auto
  with "2.IH" [OF c this(1)] show ?case by simp
next
  case (3 S ts cs)
  then have c: "ts \<noteq> [] \<and> distinct ts \<and> set ts \<subseteq> S" "wire_run (S - set ts) cs = Some S'" by (simp_all split: if_splits)
  have "A - set ts \<subseteq> S - set ts" "S \<subseteq> A \<longrightarrow> S - set ts \<subseteq> A - set ts" using "3.prems"(2) by auto
  with "3.IH" [OF c this(1)] show ?case by simp
qed auto

lemma feed_ops [simp]:
  "asked j (feed_subscribe i ts r) = (if j = i then asked i r \<union> set ts else asked j r)"
  "asked j (feed_unsubscribe i ts r) = (if j = i then asked i r - set ts else asked j r)"
  "asked j (ensure_feed i r) = asked j r"
  by (auto simp: asked_def feed_subscribe_def feed_unsubscribe_def ensure_feed_def split: option.split)

text \<open>Calls of one lane change the feed of that lane alone.\<close>

definition lane_target :: "lane \<Rightarrow> registry \<Rightarrow> feed_id" where
  "lane_target lane r = (if lane = LaneBox then box_feed r else futures_feed r)"

lemma lane_call_simps [simp]:
  "rg_active (lane_call lane c r) = rg_active r" "rg_feeds r HubFeed \<noteq> None \<Longrightarrow> rg_feeds (lane_call lane c r) HubFeed \<noteq> None"
  "(lane_call lane c r)\<lparr>rg_feeds := F\<rparr> = r\<lparr>rg_feeds := F\<rparr>"
  "asked j (lane_call lane c r) = (if j = lane_target lane r then ask_set c (asked j r) else asked j r)"
  by (cases c; simp add: subscribeUpstream_def unsubscribeUpstream_def feed_subscribe_def feed_unsubscribe_def; fail)+
    (cases c; simp add: subscribeUpstream_def unsubscribeUpstream_def lane_target_def)

lemma lane_target_cong: "rg_active r' = rg_active r \<Longrightarrow> lane_target lane r' = lane_target lane r"
  by (simp add: lane_target_def box_feed_def futures_feed_def)

lemma lane_calls_effect:
  "rg_active (fold (lane_call lane) out r) = rg_active r"
  "(fold (lane_call lane) out r)\<lparr>rg_feeds := F\<rparr> = r\<lparr>rg_feeds := F\<rparr>"
  by (induction out arbitrary: r) simp_all

lemma lane_calls_hub: "rg_feeds r HubFeed \<noteq> None \<Longrightarrow> rg_feeds (fold (lane_call lane) out r) HubFeed \<noteq> None"
  by (induction out arbitrary: r) (simp_all del: not_None_eq)

lemma lane_calls_asked:
  "asked j (fold (lane_call lane) out r) = (if j = lane_target lane r then fold ask_set out (asked j r) else asked j r)"
proof (induction out arbitrary: r)
  case (Cons c out)
  show ?case unfolding fold.simps o_apply Cons lane_target_cong [OF lane_call_simps(1)] by simp
qed simp

lemma spike_call_simps [simp]:
  "rg_active (spike_call c r) = rg_active r" "rg_feeds (spike_call c r) HubFeed = rg_feeds r HubFeed" "(spike_call c r)\<lparr>rg_feeds := F\<rparr> = r\<lparr>rg_feeds := F\<rparr>"
  "j \<noteq> DhanSpike \<Longrightarrow> asked j (spike_call c r) = asked j r" "rg_active r = Dhan \<Longrightarrow> asked DhanSpike (spike_call c r) = ask_set c (asked DhanSpike r)"
  by (cases c; simp add: feed_subscribe_def feed_unsubscribe_def; fail)+ (cases c; simp)+

lemma spike_call_inactive: "rg_active r \<noteq> Dhan \<Longrightarrow> asked DhanSpike (spike_call c r) \<subseteq> asked DhanSpike r"
  by (cases c) auto

lemma spike_calls_effect:
  "rg_active (fold spike_call out r) = rg_active r" "rg_feeds (fold spike_call out r) HubFeed = rg_feeds r HubFeed"
  "(fold spike_call out r)\<lparr>rg_feeds := F\<rparr> = r\<lparr>rg_feeds := F\<rparr>" "j \<noteq> DhanSpike \<Longrightarrow> asked j (fold spike_call out r) = asked j r"
  "rg_active r = Dhan \<Longrightarrow> asked DhanSpike (fold spike_call out r) = fold ask_set out (asked DhanSpike r)"
  by (induction out arbitrary: r) simp_all

lemma spike_calls_inactive: "rg_active r \<noteq> Dhan \<Longrightarrow> asked DhanSpike (fold spike_call out r) \<subseteq> asked DhanSpike r"
proof (induction out arbitrary: r)
  case (Cons c out)
  have "asked DhanSpike (fold spike_call out (spike_call c r)) \<subseteq> asked DhanSpike (spike_call c r)" by (rule Cons.IH) (simp add: Cons.prems)
  also have "\<dots> \<subseteq> asked DhanSpike r" by (rule spike_call_inactive [OF Cons.prems])
  finally show ?case by simp
qed simp

lemma calls_fields:
  "rg_futures (fold (lane_call lane) out r) = rg_futures r" "rg_box (fold (lane_call lane) out r) = rg_box r" "rg_spike (fold (lane_call lane) out r) = rg_spike r"
  "rg_futures (fold spike_call out r) = rg_futures r" "rg_box (fold spike_call out r) = rg_box r" "rg_spike (fold spike_call out r) = rg_spike r"
  using arg_cong [OF lane_calls_effect(2) [where lane = lane and out = out and r = r and F = undefined], of rg_futures] arg_cong [OF lane_calls_effect(2) [where lane = lane and out = out and r = r and F = undefined], of rg_box]
    arg_cong [OF lane_calls_effect(2) [where lane = lane and out = out and r = r and F = undefined], of rg_spike] arg_cong [OF spike_calls_effect(3) [where out = out and r = r and F = undefined], of rg_futures]
    arg_cong [OF spike_calls_effect(3) [where out = out and r = r and F = undefined], of rg_box] arg_cong [OF spike_calls_effect(3) [where out = out and r = r and F = undefined], of rg_spike]
  by simp_all

lemma feeds_cong:
  assumes "rg_active r' = rg_active r"
  shows "futures_feed r' = futures_feed r" "box_feed r' = box_feed r"
  using assms by (simp_all add: futures_feed_def box_feed_def)

lemma asked_coord [simp]:
  "asked i (r\<lparr>rg_futures := c\<rparr>) = asked i r" "asked i (r\<lparr>rg_box := c\<rparr>) = asked i r" "asked i (r\<lparr>rg_spike := c\<rparr>) = asked i r"
  by (simp_all add: asked_def)

lemma distinct_feeds [simp]:
  "futures_feed r \<noteq> box_feed r" "box_feed r \<noteq> futures_feed r" "futures_feed r \<noteq> DhanSpike" "DhanSpike \<noteq> futures_feed r" "box_feed r \<noteq> DhanSpike" "DhanSpike \<noteq> box_feed r"
  by (simp_all add: futures_feed_def box_feed_def)

lemma active_feeds:
  "rg_active r = Zerodha \<Longrightarrow> futures_feed r = HubFeed" "rg_active r = Dhan \<Longrightarrow> futures_feed r = DhanFutures"
  "rg_active r = Zerodha \<Longrightarrow> box_feed r = ZerodhaBox" "rg_active r = Dhan \<Longrightarrow> box_feed r = DhanBox"
  by (simp_all add: futures_feed_def box_feed_def)

lemma feeds_within_broker: "feeds_within r \<Longrightarrow> rg_active r = Zerodha \<or> rg_active r = Dhan"
  by (simp add: feeds_within_def broker_cases)

lemma futures_lane_op:
  assumes "feeds_within r" and "coord_ok c" and "wire_run (lane_tokens (rg_futures r)) out = Some (lane_tokens c)"
  shows "feeds_within (fold (lane_call LaneFutures) out (r\<lparr>rg_futures := c\<rparr>)) \<and> (feeds_exact r \<longrightarrow> feeds_exact (fold (lane_call LaneFutures) out (r\<lparr>rg_futures := c\<rparr>)))"
proof -
  let ?r = "fold (lane_call LaneFutures) out (r\<lparr>rg_futures := c\<rparr>)"
  have act: "rg_active ?r = rg_active r" by (simp add: lane_calls_effect)
  have tgt: "lane_target LaneFutures (r\<lparr>rg_futures := c\<rparr>) = futures_feed r" by (simp add: lane_target_def futures_feed_def)
  have ask: "asked j ?r = (if j = futures_feed r then fold ask_set out (asked j r) else asked j r)" for j
    by (simp add: lane_calls_asked tgt)
  have "rg_feeds ?r HubFeed \<noteq> None" by (rule lane_calls_hub) (use assms(1) in \<open>simp add: feeds_within_def\<close>)
  moreover have "asked (futures_feed r) r \<subseteq> lane_tokens (rg_futures r)" using assms(1) by (simp add: feeds_within_def)
  note ask_set_run [OF assms(3) this]
  ultimately show ?thesis using assms(1,2) feeds_within_broker [OF assms(1)] unfolding feeds_exact_def feeds_within_def
    by (elim disjE) (simp_all add: act feeds_cong [OF act] calls_fields ask active_feeds del: not_None_eq)
qed

lemma box_lane_op:
  assumes "feeds_within r" and "coord_ok c" and "wire_run (lane_tokens (rg_box r)) out = Some (lane_tokens c)"
  shows "feeds_within (fold (lane_call LaneBox) out (r\<lparr>rg_box := c\<rparr>)) \<and> (feeds_exact r \<longrightarrow> feeds_exact (fold (lane_call LaneBox) out (r\<lparr>rg_box := c\<rparr>)))"
proof -
  let ?r = "fold (lane_call LaneBox) out (r\<lparr>rg_box := c\<rparr>)"
  have act: "rg_active ?r = rg_active r" by (simp add: lane_calls_effect)
  have tgt: "lane_target LaneBox (r\<lparr>rg_box := c\<rparr>) = box_feed r" by (simp add: lane_target_def box_feed_def)
  have ask: "asked j ?r = (if j = box_feed r then fold ask_set out (asked j r) else asked j r)" for j
    by (simp add: lane_calls_asked tgt)
  have "rg_feeds ?r HubFeed \<noteq> None" by (rule lane_calls_hub) (use assms(1) in \<open>simp add: feeds_within_def\<close>)
  moreover have "asked (box_feed r) r \<subseteq> lane_tokens (rg_box r)" using assms(1) by (simp add: feeds_within_def)
  note ask_set_run [OF assms(3) this]
  ultimately show ?thesis using assms(1,2) feeds_within_broker [OF assms(1)] unfolding feeds_exact_def feeds_within_def
    by (elim disjE) (simp_all add: act feeds_cong [OF act] calls_fields ask active_feeds del: not_None_eq)
qed

lemma spike_lane_op:
  assumes "feeds_within r" and "coord_ok c" and "wire_run (lane_tokens (rg_spike r)) out = Some (lane_tokens c)"
  shows "feeds_within (fold spike_call out (r\<lparr>rg_spike := c\<rparr>)) \<and> (feeds_exact r \<longrightarrow> feeds_exact (fold spike_call out (r\<lparr>rg_spike := c\<rparr>)))"
proof -
  let ?r = "fold spike_call out (r\<lparr>rg_spike := c\<rparr>)"
  have act: "rg_active ?r = rg_active r" by (simp add: spike_calls_effect)
  have ask: "\<And>j. j \<noteq> DhanSpike \<Longrightarrow> asked j ?r = asked j r" by (simp add: spike_calls_effect)
  have hub: "rg_feeds ?r HubFeed = rg_feeds r HubFeed" by (simp add: spike_calls_effect)
  show ?thesis
  proof (cases "rg_active r = Dhan")
    case True
    then have sp: "asked DhanSpike ?r = fold ask_set out (asked DhanSpike r)" by (simp add: spike_calls_effect)
    have "asked DhanSpike r \<subseteq> lane_tokens (rg_spike r)" using assms(1) True by (simp add: feeds_within_def)
    note ask_set_run [OF assms(3) this]
    then show ?thesis using assms(1,2) True unfolding feeds_exact_def feeds_within_def
      by (simp add: act feeds_cong [OF act] calls_fields ask sp hub)
  next
    case False
    then have "asked DhanSpike ?r \<subseteq> asked DhanSpike r" using spike_calls_inactive [of "r\<lparr>rg_spike := c\<rparr>" out] by simp
    then show ?thesis using assms(1,2) feeds_within_broker [OF assms(1)] False unfolding feeds_exact_def feeds_within_def
      by (simp add: act feeds_cong [OF act] calls_fields ask hub)
  qed
qed

lemma note_mark_simps [simp]:
  "rg_active (note_mark m r) = rg_active r" "rg_gen (note_mark m r) = rg_gen r" "rg_feeds (note_mark m r) = rg_feeds r" "rg_futures (note_mark m r) = rg_futures r"
  "rg_box (note_mark m r) = rg_box r" "rg_spike (note_mark m r) = rg_spike r" "rg_token (note_mark m r) = rg_token r" "rg_expiry (note_mark m r) = rg_expiry r"
  "rg_brokerRow (note_mark m r) = rg_brokerRow r" "rg_meta (note_mark m r) = rg_meta r" "asked i (note_mark m r) = asked i r"
  by (simp_all add: note_mark_def asked_def)

text \<open>What the two invariants depend on.\<close>

lemma feeds_state_cong:
  assumes "rg_active r' = rg_active r" "rg_feeds r' = rg_feeds r" "rg_futures r' = rg_futures r" "rg_box r' = rg_box r" "rg_spike r' = rg_spike r"
  shows "feeds_within r' = feeds_within r" "feeds_exact r' = feeds_exact r"
proof -
  have "asked i r' = asked i r" for i using assms by (simp add: asked_def)
  then show "feeds_within r' = feeds_within r" "feeds_exact r' = feeds_exact r"
    using assms by (simp_all add: feeds_within_def feeds_exact_def feeds_cong [OF assms(1)])
qed

lemma note_mark_feeds [simp]: "feeds_within (note_mark m r) = feeds_within r" "feeds_exact (note_mark m r) = feeds_exact r"
  by (rule feeds_state_cong; simp)+

text \<open>Feeds of a registry with empty lanes and all feeds stopped.\<close>

lemma stopped_exact:
  assumes "IsID (rg_active r)" and "\<And>i. asked i r = {}" and "rg_feeds r HubFeed \<noteq> None"
    and "coord_ok (rg_futures r)" "coord_ok (rg_box r)" "coord_ok (rg_spike r)" and "lane_tokens (rg_futures r) = {}" "lane_tokens (rg_box r) = {}" "lane_tokens (rg_spike r) = {}"
  shows "feeds_exact r"
  using assms by (auto simp: feeds_exact_def feeds_within_def)

lemma asked_stopAllLanes [simp]: "asked i (stopAllLanes r) = {}" "rg_feeds (stopAllLanes r) HubFeed = Some {}"
  by (cases i; auto simp: stopAllLanes_def asked_def recycleSpikeFeed_def stop_futures_dhan_def note_mark_def Let_def split: option.split)
    (simp add: stopAllLanes_def recycleSpikeFeed_def stop_futures_dhan_def note_mark_def Let_def)

lemma stopAllLanes_simps [simp]:
  "rg_active (stopAllLanes r) = rg_active r" "rg_gen (stopAllLanes r) = rg_gen r" "rg_futures (stopAllLanes r) = rg_futures r" "rg_box (stopAllLanes r) = rg_box r" "rg_spike (stopAllLanes r) = rg_spike r"
  by (simp_all add: stopAllLanes_def recycleSpikeFeed_def stop_futures_dhan_def Let_def)

lemma StopFeeds_within: "feeds_within r \<Longrightarrow> feeds_within (StopFeeds r)"
  by (simp add: feeds_within_def StopFeeds_def futures_feed_def box_feed_def)

lemma StartActiveFeed_simps [simp]:
  "rg_active (StartActiveFeed r) = rg_active r" "rg_gen (StartActiveFeed r) = rg_gen r" "asked i (StartActiveFeed r) = asked i r" "rg_feeds (StartActiveFeed r) HubFeed = rg_feeds r HubFeed"
  "rg_futures (StartActiveFeed r) = rg_futures r" "rg_box (StartActiveFeed r) = rg_box r" "rg_spike (StartActiveFeed r) = rg_spike r"
  by (simp_all add: StartActiveFeed_def) (simp_all add: ensure_feed_def)

lemma StartActiveFeed_feeds [simp]: "feeds_within (StartActiveFeed r) = feeds_within r" "feeds_exact (StartActiveFeed r) = feeds_exact r"
  by (simp_all add: feeds_within_def feeds_exact_def feeds_cong [of "StartActiveFeed r" r])

lemma StartActiveRuntime_feeds: "feeds_within (StartActiveRuntime a r) = feeds_within r" "feeds_exact (StartActiveRuntime a r) = feeds_exact r"
  by (simp_all add: StartActiveRuntime_def Let_def)

lemma loadNewUniverse_simps [simp]:
  "feeds_exact (loadNewUniverse ok b r) = feeds_exact r" "rg_active (loadNewUniverse ok b r) = rg_active r" "rg_gen (loadNewUniverse ok b r) = rg_gen r"
  by (simp_all add: loadNewUniverse_def)

lemma switch_sections [simp]:
  "feeds_exact (switch_end r) = feeds_exact r" "feeds_exact (switch_start ok b r) = feeds_exact r"
  "rg_active (switch_end r) = rg_active r" "rg_gen (switch_end r) = rg_gen r" "rg_active (switch_start ok b r) = rg_active r" "rg_gen (switch_start ok b r) = rg_gen r"
  "rg_active (switch_begin r) = rg_active r" "rg_gen (switch_begin r) = rg_gen r" "rg_active (switch_reset r) = rg_active r" "rg_gen (switch_reset r) = rg_gen r"
  "rg_active (switch_invalidate p r) = rg_active r" "rg_gen (switch_invalidate p r) = rg_gen r" "rg_active (switch_adopt out target g r) = target"
proof -
  show "feeds_exact (switch_end r) = feeds_exact r" unfolding switch_end_def note_mark_feeds by (rule feeds_state_cong) simp_all
qed (simp_all add: switch_start_def switch_end_def switch_begin_def switch_reset_def switch_invalidate_def switch_adopt_def ResetForBrokerSwitch_def Let_def case_prod_beta')

lemma switch_adopt_gen: "gen < rg_gen (switch_adopt out target gen r)"
  by (simp add: switch_adopt_def Let_def case_prod_beta' less_max_iff_disj split: option.split)

lemma SaveActiveBroker_simps [simp]:
  "rg_feeds (fst (SaveActiveBroker out b r)) = rg_feeds r" "rg_futures (fst (SaveActiveBroker out b r)) = rg_futures r" "rg_box (fst (SaveActiveBroker out b r)) = rg_box r"
  "rg_spike (fst (SaveActiveBroker out b r)) = rg_spike r"
  by (simp_all add: SaveActiveBroker_def Let_def split: db_outcome.split)

lemma SwitchTo_exact:
  assumes "IsID target" and "SwitchTo cid out ok target r = (r', Inr b)" and "target \<noteq> rg_active r"
  shows "feeds_exact r' \<and> rg_active r' = target \<and> rg_gen r < rg_gen r'"
proof -
  let ?s = "switch_adopt out target (rg_gen r) (switch_invalidate (rg_active r) (switch_reset (stopAllLanes (switch_begin r))))"
  have r': "r' = switch_end (switch_start ok target ?s)" using assms(2,3) by (auto simp: SwitchTo_def split: if_splits)
  have F: "rg_feeds ?s = rg_feeds (stopAllLanes (switch_begin r))"
    by (simp add: switch_adopt_def switch_invalidate_def switch_reset_def ResetForBrokerSwitch_def Let_def case_prod_beta')
  have "feeds_exact ?s"
  proof (rule stopped_exact)
    show "IsID (rg_active ?s)" using assms(1) by simp
    show "asked i ?s = {}" for i using asked_stopAllLanes(1) [of i "switch_begin r"] unfolding asked_def F .
    show "rg_feeds ?s HubFeed \<noteq> None" unfolding F by simp
  qed (simp_all add: switch_adopt_def switch_invalidate_def switch_reset_def ResetForBrokerSwitch_def Let_def case_prod_beta' coord_ok_empty)
  then show ?thesis using switch_adopt_gen by (simp add: r')
qed

lemma feed_drop_simps [simp]:
  "rg_active (recycleSpikeFeed r) = rg_active r" "asked i (recycleSpikeFeed r) = (if i = DhanSpike then {} else asked i r)" "rg_feeds (recycleSpikeFeed r) HubFeed = rg_feeds r HubFeed"
  "rg_futures (recycleSpikeFeed r) = rg_futures r" "rg_box (recycleSpikeFeed r) = rg_box r" "rg_spike (recycleSpikeFeed r) = rg_spike r" "rg_gen (recycleSpikeFeed r) = rg_gen r"
  "rg_active (stop_futures_dhan r) = rg_active r" "asked i (stop_futures_dhan r) = (if i = DhanFutures then {} else asked i r)" "rg_feeds (stop_futures_dhan r) HubFeed = rg_feeds r HubFeed"
  "rg_futures (stop_futures_dhan r) = rg_futures r" "rg_box (stop_futures_dhan r) = rg_box r" "rg_spike (stop_futures_dhan r) = rg_spike r" "rg_gen (stop_futures_dhan r) = rg_gen r"
  "rg_active (recycle_dhan_box r) = rg_active r" "asked i (recycle_dhan_box r) = (if i = DhanBox then {} else asked i r)" "rg_feeds (recycle_dhan_box r) HubFeed = rg_feeds r HubFeed"
  "rg_futures (recycle_dhan_box r) = rg_futures r" "rg_box (recycle_dhan_box r) = rg_box r" "rg_spike (recycle_dhan_box r) = rg_spike r" "rg_gen (recycle_dhan_box r) = rg_gen r"
  by (auto simp: recycleSpikeFeed_def stop_futures_dhan_def recycle_dhan_box_def asked_def split: option.split)

text \<open>Dropping what Dhan feeds were asked for never breaks the bound, nor anything of a Zerodha registry.\<close>

lemma drop_dhan_feeds:
  assumes "feeds_within r" and "rg_active r' = rg_active r" "rg_feeds r' HubFeed = rg_feeds r HubFeed" "rg_futures r' = rg_futures r" "rg_box r' = rg_box r" "rg_spike r' = rg_spike r"
    and "\<And>i. asked i r' \<subseteq> asked i r" and "asked HubFeed r' = asked HubFeed r" "asked ZerodhaBox r' = asked ZerodhaBox r"
  shows "feeds_within r' \<and> (rg_active r = Zerodha \<longrightarrow> feeds_exact r \<longrightarrow> feeds_exact r')"
proof -
  have "feeds_within r'" using assms(1) assms(7) [of "futures_feed r"] assms(7) [of "box_feed r"] assms(7) [of DhanSpike] assms(7) [of HubFeed] assms(7) [of ZerodhaBox]
      assms(7) [of DhanFutures] assms(7) [of DhanBox]
    unfolding feeds_within_def by (auto simp: assms(2-6) feeds_cong [OF assms(2)])
  moreover have "rg_active r = Zerodha \<longrightarrow> feeds_exact r \<longrightarrow> feeds_exact r'"
    using \<open>feeds_within r'\<close> by (simp add: feeds_exact_def assms(2-6,8,9) active_feeds)
  ultimately show ?thesis by blast
qed

lemma sessions_simps [simp]:
  "rg_active (setDhanSession t e m r) = rg_active r" "rg_feeds (setDhanSession t e m r) = rg_feeds r" "rg_futures (setDhanSession t e m r) = rg_futures r"
  "rg_box (setDhanSession t e m r) = rg_box r" "rg_spike (setDhanSession t e m r) = rg_spike r" "rg_gen (setDhanSession t e m r) = rg_gen r" "asked i (setDhanSession t e m r) = asked i r"
  "rg_active (ClearDhanSession out r) = rg_active r" "rg_feeds (ClearDhanSession out r) = rg_feeds r" "rg_futures (ClearDhanSession out r) = rg_futures r"
  "rg_box (ClearDhanSession out r) = rg_box r" "rg_spike (ClearDhanSession out r) = rg_spike r" "rg_gen (ClearDhanSession out r) = rg_gen r" "asked i (ClearDhanSession out r) = asked i r"
  "rg_active (SaveDhanSession out now w r) = rg_active r" "rg_feeds (SaveDhanSession out now w r) = rg_feeds r" "rg_futures (SaveDhanSession out now w r) = rg_futures r"
  "rg_box (SaveDhanSession out now w r) = rg_box r" "rg_spike (SaveDhanSession out now w r) = rg_spike r" "rg_gen (SaveDhanSession out now w r) = rg_gen r"
  "asked i (r\<lparr>rg_token := tk, rg_expiry := ex\<rparr>) = asked i r" "asked i (r\<lparr>rg_lastTick := lt\<rparr>) = asked i r"
  by (simp_all add: setDhanSession_def ClearDhanSession_def SaveDhanSession_def asked_def)

lemma LogoutDhan_within:
  assumes "feeds_within r"
  shows "feeds_within (LogoutDhan out r)"
  by (rule conjunct1 [OF drop_dhan_feeds [OF assms]]) (auto simp: LogoutDhan_def Let_def split: if_splits)

lemma onDhanSessionLost_within:
  assumes "feeds_within r"
  shows "feeds_within (onDhanFeedSessionLost c out r)"
  by (rule conjunct1 [OF drop_dhan_feeds [OF assms]]) (auto simp: onDhanFeedSessionLost_def onDhanSessionLost_def Let_def split: if_splits)

text \<open>Replaying a lane's table onto its feed makes the feed exact again.\<close>

lemma subscribeUpstream_simps [simp]:
  "rg_active (subscribeUpstream l ts r) = rg_active r" "rg_futures (subscribeUpstream l ts r) = rg_futures r" "rg_box (subscribeUpstream l ts r) = rg_box r"
  "rg_spike (subscribeUpstream l ts r) = rg_spike r" "rg_gen (subscribeUpstream l ts r) = rg_gen r" "rg_feeds r HubFeed \<noteq> None \<Longrightarrow> rg_feeds (subscribeUpstream l ts r) HubFeed \<noteq> None"
  "asked i (subscribeUpstream l ts r) = (if i = lane_target l r then asked i r \<union> set ts else asked i r)"
  by (auto simp: subscribeUpstream_def lane_target_def) (auto simp: feed_subscribe_def split: if_splits)

lemma replaySpikeFeed_simps [simp]:
  "rg_active (replaySpikeFeed r) = rg_active r" "rg_futures (replaySpikeFeed r) = rg_futures r" "rg_box (replaySpikeFeed r) = rg_box r" "rg_spike (replaySpikeFeed r) = rg_spike r"
  "rg_gen (replaySpikeFeed r) = rg_gen r" "rg_feeds (replaySpikeFeed r) HubFeed = rg_feeds r HubFeed"
  "asked i (replaySpikeFeed r) = (if i = DhanSpike \<and> rg_active r = Dhan then asked i r \<union> lane_tokens (rg_spike r) else asked i r)"
  by (auto simp: replaySpikeFeed_def Let_def set_ActiveTokens [symmetric]) (auto simp: feed_subscribe_def)

lemma restart_drop_simps [simp]:
  "rg_active (restart_drop b r) = rg_active r" "rg_futures (restart_drop b r) = rg_futures r" "rg_box (restart_drop b r) = rg_box r" "rg_spike (restart_drop b r) = rg_spike r"
  "rg_gen (restart_drop b r) = rg_gen r" "rg_feeds (restart_drop b r) HubFeed = rg_feeds r HubFeed"
  "asked i (restart_drop b r) = (if i = DhanSpike \<or> i = DhanFutures \<or> b \<and> i = DhanBox then {} else asked i r)"
proof -
  have "asked i (r\<lparr>rg_feeds := (rg_feeds r)(DhanFutures := None), rg_lastTick := None\<rparr>) = (if i = DhanFutures then {} else asked i r)" for i and r :: registry
    by (simp add: asked_def)
  moreover have "rg_feeds r DhanFutures = None \<Longrightarrow> asked DhanFutures r = {}" for r :: registry by (simp add: asked_def)
  ultimately show "asked i (restart_drop b r) = (if i = DhanSpike \<or> i = DhanFutures \<or> b \<and> i = DhanBox then {} else asked i r)"
    by (auto simp: restart_drop_def Let_def)
qed (auto simp: restart_drop_def Let_def)

lemma restart_drop_within: "feeds_within r \<Longrightarrow> feeds_within (restart_drop b r) \<and> (rg_active r = Zerodha \<longrightarrow> feeds_exact r \<longrightarrow> feeds_exact (restart_drop b r))"
  by (rule drop_dhan_feeds) auto

lemma restart_Dhan_exact:
  assumes "feeds_within r" and "rg_active r = Dhan"
  shows "feeds_exact (restartDhanRuntime b r)"
proof -
  define d where "d = StartActiveFeed (note_mark (LoadUniverse Dhan) (restart_drop b r))"
  define r5 where "r5 = subscribeUpstream LaneBox (ActiveTokens (rg_box r)) (subscribeUpstream LaneFutures (ActiveTokens (rg_futures r)) d)"
  have d: "rg_active d = Dhan" "rg_futures d = rg_futures r" "rg_box d = rg_box r" "rg_spike d = rg_spike r" "rg_feeds d HubFeed = rg_feeds r HubFeed"
      "\<And>i. asked i d = asked i (restart_drop b r)" using assms(2) by (simp_all add: d_def del: restart_drop_simps(7))
  have eq: "restartDhanRuntime b r = note_mark OnRuntimeReady (replaySpikeFeed (note_mark Publish r5))"
    using assms(2) by (simp add: restartDhanRuntime_def Let_def d_def r5_def subscribeUpstream_def)
  have t: "lane_target LaneFutures d = DhanFutures" "lane_target LaneBox (subscribeUpstream LaneFutures x d) = DhanBox" for x
    using d(1) by (simp_all add: lane_target_def active_feeds box_feed_def)
  have "rg_feeds r5 HubFeed \<noteq> None" unfolding r5_def using assms(1) d(5) by (intro subscribeUpstream_simps) (simp add: feeds_within_def)
  moreover have "asked i r5 = (if i = DhanBox then asked i d \<union> lane_tokens (rg_box r) else if i = DhanFutures then asked i d \<union> lane_tokens (rg_futures r) else asked i d)" for i
    by (simp add: r5_def t set_ActiveTokens)
  moreover have "rg_active r5 = Dhan" "rg_futures r5 = rg_futures r" "rg_box r5 = rg_box r" "rg_spike r5 = rg_spike r" by (simp_all add: r5_def d)
  ultimately show ?thesis using assms unfolding eq
    by (simp add: feeds_exact_def feeds_within_def d(6) active_feeds futures_feed_def box_feed_def del: not_None_eq)
qed

lemma restart_within: "feeds_within r \<Longrightarrow> feeds_within (restartDhanRuntime b r) \<and> (feeds_exact r \<longrightarrow> feeds_exact (restartDhanRuntime b r))"
proof (cases "rg_active r = Dhan")
  case True
  assume "feeds_within r"
  with restart_Dhan_exact [OF this True] show ?thesis by (simp add: feeds_exact_def)
next
  case False
  assume w: "feeds_within r"
  with False have "rg_active r = Zerodha" using feeds_within_broker by blast
  with w restart_drop_within [OF w] False show ?thesis by (simp add: restartDhanRuntime_def Let_def)
qed

text \<open>Operations that do not cut the Dhan feeds from their lanes.\<close>

fun keeps_feeds :: "reg_op \<Rightarrow> bool" where
  "keeps_feeds (OLogout out) = False"
| "keeps_feeds (OLost c out) = False"
| "keeps_feeds OStop = False"
| "keeps_feeds op = known_target op"

lemma keeps_known: "keeps_feeds op \<Longrightarrow> known_target op"
  by (cases op) simp_all

lemma reg_step_within: "feeds_within r \<Longrightarrow> known_target op \<Longrightarrow> feeds_within (reg_step h r op)"
  and reg_step_exact: "feeds_exact r \<Longrightarrow> keeps_feeds op \<Longrightarrow> feeds_exact (reg_step h r op)"
proof -
  have main: "feeds_within (reg_step h r op) \<and> (feeds_exact r \<longrightarrow> keeps_feeds op \<longrightarrow> feeds_exact (reg_step h r op))"
    if w: "feeds_within r" and k: "known_target op"
  proof (cases op)
    case (OAcquire ts)
    obtain i c out where a: "Acquire h OwnerBrowser ts (rg_futures r) = (i, c, out)" by (cases "Acquire h OwnerBrowser ts (rg_futures r)")
    have "coord_ok (rg_futures r)" using w by (simp add: feeds_within_def)
    from Acquire_ok [OF this a] futures_lane_op [OF w, of c out] show ?thesis by (simp add: OAcquire AcquireBrowserTokens_def a)
  next
    case (ORelease i)
    obtain c out where a: "releaseLease i (rg_futures r) = (c, out)" by fastforce
    have "coord_ok (rg_futures r)" using w by (simp add: feeds_within_def)
    from release_ok [OF this a] futures_lane_op [OF w, of c out] show ?thesis by (simp add: ORelease ReleaseBrowserTokens_def a)
  next
    case (OSynthetic ts)
    obtain c out where a: "SetOwnerTokens None OwnerScanner ts (rg_box r) = (c, out)" by fastforce
    have "coord_ok (rg_box r)" using w by (simp add: feeds_within_def)
    from SetOwnerTokens_ok [OF this a] box_lane_op [OF w, of c out] show ?thesis by (simp add: OSynthetic SetSyntheticTokens_def a)
  next
    case (OAnalytics ts)
    obtain c out where a: "SetOwnerTokens h OwnerAnalytics ts (rg_futures r) = (c, out)" by fastforce
    have "coord_ok (rg_futures r)" using w by (simp add: feeds_within_def)
    from SetOwnerTokens_ok [OF this a] futures_lane_op [OF w, of c out] show ?thesis by (simp add: OAnalytics SetAnalyticsTokens_def a)
  next
    case (OSpike ts)
    obtain c out where a: "SetOwnerTokens None OwnerStrategy ts (rg_spike r) = (c, out)" by fastforce
    have "coord_ok (rg_spike r)" using w by (simp add: feeds_within_def)
    from SetOwnerTokens_ok [OF this a] spike_lane_op [OF w, of c out] show ?thesis by (simp add: OSpike SetSpikeTokens_def a)
  next
    case (OTick now)
    have "feeds_within (NoteTick now r) = feeds_within r" "feeds_exact (NoteTick now r) = feeds_exact r"
      by (rule feeds_state_cong; simp add: NoteTick_def)+
    with w OTick show ?thesis by simp
  next
    case (OSwitch cid out ok target)
    show ?thesis
    proof (cases "target = rg_active r \<or> SwitchBlockers cid target \<noteq> []")
      case True
      then show ?thesis using w by (auto simp: OSwitch SwitchTo_def)
    next
      case False
      then obtain r' where "SwitchTo cid out ok target r = (r', Inr target)" by (auto simp: SwitchTo_def)
      with SwitchTo_exact [of target cid out ok r r' target] False k show ?thesis by (simp add: OSwitch feeds_exact_def)
    qed
  next
    case (OLogin out now s)
    define m where "m = SaveDhanSession out now \<lparr>dr_AccessToken = lg_AccessToken s, dr_ClientID = lg_ClientID s, dr_ClientName = lg_ClientName s, dr_ClientUcc = lg_ClientUcc s,
            dr_PowerOfAttorney = lg_PowerOfAttorney s, dr_ExpiryTime = lg_ExpiryTime s, dr_LoginAt = None, dr_LoginDate = IstDayKey now, dr_UpdatedAt = None, dr_Source = ''''\<rparr>
        (setDhanSession (Some (lg_AccessToken s)) (lg_ExpiryTime s) (Some \<lparr>dm_clientID = lg_ClientID s, dm_clientName = lg_ClientName s, dm_clientUcc = lg_ClientUcc s, dm_powerOfAttorney = lg_PowerOfAttorney s,
            dm_loginDay = IstDayKey now, dm_loginAt = now, dm_source = ''''\<rparr>) r)"
    have "feeds_within m = feeds_within r" "feeds_exact m = feeds_exact r" by (rule feeds_state_cong; simp add: m_def)+
    with w restart_within [of m False] show ?thesis by (simp add: OLogin CompleteDhanLogin_def Let_def m_def)
  qed (use w in \<open>simp_all add: restart_within LogoutDhan_within onDhanSessionLost_within StopFeeds_within StartActiveRuntime_feeds\<close>)
  show "feeds_within r \<Longrightarrow> known_target op \<Longrightarrow> feeds_within (reg_step h r op)" using main by blast
  show "feeds_exact r \<Longrightarrow> keeps_feeds op \<Longrightarrow> feeds_exact (reg_step h r op)"
    using main keeps_known by (auto simp: feeds_exact_def)
qed

interpretation lanes_bounded: guarded_steps "reg_step h" feeds_within known_target for h
  by unfold_locales (rule reg_step_within)

interpretation lanes_exact: guarded_steps "reg_step h" feeds_exact keeps_feeds for h
  by unfold_locales (rule reg_step_exact)

lemma coord_ok_new: "coord_ok (NewCoordinator l)"
  using sys_ok_new [of l] by (simp add: sys_ok_def)

lemma feeds_exact_boot: "feeds_exact (Restore o1 o2 o3 cid now (New db brow drow))"
proof (rule stopped_exact)
  let ?n = "New db brow drow"
  have n: "IsID (rg_active ?n)" using Parse_IsID by (auto simp: New_def broker_cases split: option.split)
  have F: "rg_feeds (Restore o1 o2 o3 cid now ?n) = rg_feeds ?n" "rg_futures (Restore o1 o2 o3 cid now ?n) = rg_futures ?n" "rg_box (Restore o1 o2 o3 cid now ?n) = rg_box ?n"
      "rg_spike (Restore o1 o2 o3 cid now ?n) = rg_spike ?n" "rg_active (Restore o1 o2 o3 cid now ?n) = rg_active (adopt_saved (LoadActiveBroker o1 ?n) ?n)"
    by (simp_all add: Restore_def adopt_saved_def Let_def split: option.split)
  show "IsID (rg_active (Restore o1 o2 o3 cid now ?n))" unfolding F using n by (auto simp: adopt_saved_def Let_def split: option.split)
  show "asked i (Restore o1 o2 o3 cid now ?n) = {}" for i unfolding asked_def F by (simp add: New_def)
  show "rg_feeds (Restore o1 o2 o3 cid now ?n) HubFeed \<noteq> None" unfolding F by (simp add: New_def)
  show "coord_ok (rg_futures (Restore o1 o2 o3 cid now ?n))" "coord_ok (rg_box (Restore o1 o2 o3 cid now ?n))" "coord_ok (rg_spike (Restore o1 o2 o3 cid now ?n))"
    unfolding F by (simp_all add: New_def coord_ok_new)
  show "lane_tokens (rg_futures (Restore o1 o2 o3 cid now ?n)) = {}" "lane_tokens (rg_box (Restore o1 o2 o3 cid now ?n)) = {}" "lane_tokens (rg_spike (Restore o1 o2 o3 cid now ?n)) = {}"
    unfolding F by (simp_all add: New_def NewCoordinator_def)
qed

section \<open>Interleaved switches\<close>

text \<open>
  A switch as its sections, with the other operations in between. While it runs, \<^verbatim>\<open>opMu\<close> keeps other switches, logins,
  logouts and session losses out; subscriptions, ticks and the shutdown's stop do not take it.
\<close>

record switching =
  sw_target :: broker_id
  sw_previous :: broker_id
  sw_gen :: int
  sw_section :: nat

datatype reg_ev = IOp reg_op | IBegin string broker_id | INext db_outcome bool

fun needs_opMu :: "reg_op \<Rightarrow> bool" where
  "needs_opMu (OSwitch cid out ok target) = True"
| "needs_opMu (OLogin out now s) = True"
| "needs_opMu (ORestart b) = True"
| "needs_opMu (OLogout out) = True"
| "needs_opMu (OLost c out) = True"
| "needs_opMu _ = False"

definition switch_next :: "db_outcome \<Rightarrow> bool \<Rightarrow> switching \<Rightarrow> registry \<Rightarrow> registry" where
  "switch_next out ok s r =
     (if sw_section s = 0 then stopAllLanes r
      else if sw_section s = 1 then switch_reset r
      else if sw_section s = 2 then switch_invalidate (sw_previous s) r
      else if sw_section s = 3 then switch_adopt out (sw_target s) (sw_gen s) r
      else if sw_section s = 4 then switch_start ok (sw_target s) r
      else switch_end r)"

fun reg_istep :: "yield_handler \<Rightarrow> registry \<times> switching option \<Rightarrow> reg_ev \<Rightarrow> registry \<times> switching option" where
  "reg_istep h (r, s) (IOp op) = (if s \<noteq> None \<and> needs_opMu op then (r, s) else (reg_step h r op, s))"
| "reg_istep h (r, s) (IBegin cid target) =
     (if s \<noteq> None \<or> target = rg_active r \<or> SwitchBlockers cid target \<noteq> [] then (r, s)
      else (switch_begin r, Some \<lparr>sw_target = target, sw_previous = rg_active r, sw_gen = rg_gen r, sw_section = 0\<rparr>))"
| "reg_istep h (r, None) (INext out ok) = (r, None)"
| "reg_istep h (r, Some s) (INext out ok) =
     (switch_next out ok s r, if sw_section s < 5 then Some (s\<lparr>sw_section := Suc (sw_section s)\<rparr>) else None)"

text \<open>Without anything in between, the sections are \<^verbatim>\<open>SwitchTo\<close>.\<close>

lemma switch_sections_run:
  assumes "target \<noteq> rg_active r" and "SwitchBlockers cid target = []"
  shows "foldl (reg_istep h) (r, None) (IBegin cid target # replicate 6 (INext out ok)) = (fst (SwitchTo cid out ok target r), None)"
  using assms by (simp add: SwitchTo_def switch_next_def numeral_eq_Suc)

definition section_ok :: "registry \<times> switching option \<Rightarrow> bool" where
  "section_ok s = (case snd s of None \<Rightarrow> True | Some w \<Rightarrow> sw_section w \<le> 3 \<longrightarrow> sw_gen w = rg_gen (fst s))"

definition gen_le :: "registry \<Rightarrow> registry \<Rightarrow> bool" where
  "gen_le r r' \<longleftrightarrow> rg_gen r \<le> rg_gen r' \<and> (rg_gen r = rg_gen r' \<longrightarrow> rg_active r = rg_active r')"

lemma gen_le_refl [simp]: "gen_le r r"
  by (simp add: gen_le_def)

lemma gen_le_trans: "gen_le r r' \<Longrightarrow> gen_le r' r'' \<Longrightarrow> gen_le r r''"
  by (auto simp: gen_le_def)

lemma gen_same: "rg_gen r' = rg_gen r \<Longrightarrow> rg_active r' = rg_active r \<Longrightarrow> gen_le r r'"
  by (simp add: gen_le_def)

lemma calls_gen: "rg_gen (fold (lane_call lane) out r) = rg_gen r" "rg_gen (fold spike_call out r) = rg_gen r"
  using arg_cong [OF lane_calls_effect(2) [where lane = lane and out = out and r = r and F = undefined], of rg_gen]
    arg_cong [OF spike_calls_effect(3) [where out = out and r = r and F = undefined], of rg_gen] by simp_all

lemma restart_gen: "rg_gen (restartDhanRuntime b r) = rg_gen r \<and> rg_active (restartDhanRuntime b r) = rg_active r"
  by (simp add: restartDhanRuntime_def Let_def)

lemma reg_step_gen: "gen_le r (reg_step h r op) \<and> (\<not> needs_opMu op \<longrightarrow> rg_gen (reg_step h r op) = rg_gen r \<and> rg_active (reg_step h r op) = rg_active r)"
proof (cases op)
  case (OSwitch cid out ok target)
  show ?thesis
    by (simp add: OSwitch SwitchTo_def gen_le_def) (use switch_adopt_gen in \<open>metis less_imp_neq less_imp_le\<close>)
qed (auto intro!: gen_same simp: AcquireBrowserTokens_def ReleaseBrowserTokens_def SetSyntheticTokens_def SetAnalyticsTokens_def SetSpikeTokens_def NoteTick_def case_prod_beta'
   CompleteDhanLogin_def LogoutDhan_def onDhanFeedSessionLost_def onDhanSessionLost_def StartActiveRuntime_def StopFeeds_def Let_def calls_gen restart_gen
   lane_calls_effect spike_calls_effect)

lemma reg_istep_gen:
  assumes "section_ok s"
  shows "section_ok (reg_istep h s e) \<and> gen_le (fst s) (fst (reg_istep h s e))"
proof -
  obtain r w where s: "s = (r, w)" by fastforce
  show ?thesis
  proof (cases e)
    case (IOp op)
    then show ?thesis using assms reg_step_gen [of r h op] by (auto simp: s section_ok_def split: option.splits)
  next
    case (IBegin cid target)
    then show ?thesis using assms by (auto simp: s section_ok_def gen_le_def split: option.splits)
  next
    case (INext out ok)
    show ?thesis
    proof (cases w)
      case (Some v)
      have "sw_section v = 3 \<Longrightarrow> rg_gen r < rg_gen (switch_next out ok v r)"
        using switch_adopt_gen [of "sw_gen v" out "sw_target v" r] assms by (simp add: switch_next_def s Some section_ok_def)
      moreover have "sw_section v \<noteq> 3 \<Longrightarrow> rg_gen (switch_next out ok v r) = rg_gen r \<and> rg_active (switch_next out ok v r) = rg_active r"
        by (simp add: switch_next_def)
      ultimately show ?thesis using assms by (cases "sw_section v = 3") (auto simp: s Some INext section_ok_def gen_le_def)
    qed (use assms in \<open>simp add: s INext\<close>)
  qed
qed

interpretation switch_run: step_system "reg_istep h" section_ok for h
  by unfold_locales (rule conjunct1 [OF reg_istep_gen])

lemma run_gen_le: "section_ok s \<Longrightarrow> gen_le (fst s) (fst (foldl (reg_istep h) s evs))"
proof (induction evs arbitrary: s)
  case (Cons e evs)
  have "section_ok (reg_istep h s e)" "gen_le (fst s) (fst (reg_istep h s e))" using reg_istep_gen [OF Cons.prems] by auto
  with Cons.IH [OF this(1)] show ?case using gen_le_trans by (metis foldl_Cons)
qed simp

section \<open>Properties\<close>


definition switch_ops :: "reg_op list" where
  "switch_ops = [OAcquire [7], OSwitch ''c'' DbDone True Zerodha, OAcquire [8], OSynthetic [9]]"


text \<open>
  C12: Within one process the generation identifies the broker: however switches, subscriptions and sessions interleave, the
  generation never goes back, and two moments with the same generation have the same active broker.
\<close>

theorem generation_identifies_broker:
  assumes "s = foldl (reg_istep h) (r, None) evs" and "s' = foldl (reg_istep h) s later"
  shows "rg_gen (fst s) \<le> rg_gen (fst s') \<and> (rg_gen (fst s) = rg_gen (fst s') \<longrightarrow> rg_active (fst s) = rg_active (fst s'))"
proof -
  have "section_ok s" using switch_run.run_inv assms(1) by (simp add: section_ok_def)
  from run_gen_le [OF this] assms(2) show ?thesis by (simp add: gen_le_def)
qed

theorem generation_identifies_broker_witness:
  "rg_gen (New '''' None None) < rg_gen (fst (foldl (reg_istep None) (foldl (reg_istep None) (New '''' None None, None) []) (IBegin ''c'' Zerodha # replicate 6 (INext DbError True))))"
proof -
  let ?s = "foldl (reg_istep None) (New '''' None None, None) []"
  let ?s' = "foldl (reg_istep None) ?s (IBegin ''c'' Zerodha # replicate 6 (INext DbError True))"
  have "rg_active (fst ?s) = Dhan" by code_simp
  moreover have "rg_active (fst ?s') = Zerodha" by code_simp
  ultimately show ?thesis using generation_identifies_broker [OF refl refl, of None "New '''' None None" "[]" "IBegin ''c'' Zerodha # replicate 6 (INext DbError True)"]
    by (auto simp del: foldl_Cons)
qed



end
