(* ===== verification/FloatOps.thy ===== *)
theory FloatOps
  imports Float64
begin

text \<open>
  The functions of Go's \<^verbatim>\<open>math\<close> package the program uses (\<open>Abs\<close>, \<open>Floor\<close>, \<open>Trunc\<close>, \<open>Min\<close>,
  \<open>Max\<close>) on the numbers of \<^theory_text>\<open>Float64\<close>, and the reasoning principle for computed
  prices: \<open>rnd v x\<close> says that \<open>x\<close> is the exact real \<open>v\<close> rounded once. Every arithmetic operation
  rounds its exact result; rounding never crosses a representable number and keeps the
  numbers that are representable. Signs and bounds of long computations follow from
  these three facts.
\<close>

section \<open>Operations\<close>

fun f_abs :: "f64 \<Rightarrow> f64" where
  "f_abs NaN = NaN"
| "f_abs (Inf s) = Inf False"
| "f_abs (Fin s m e) = Fin False m e"

fun f_floor :: "f64 \<Rightarrow> f64" where
  "f_floor (Fin s m e) =
     (if 0 \<le> e then Fin s m e
      else let i = signed s m div pow2 (- e) in if i = 0 then Fin s 0 (- 1074) else f_of_int i)"
| "f_floor x = x"

text \<open>\<^verbatim>\<open>math.Trunc\<close>, which keeps the sign of zero.\<close>

fun f_truncate :: "f64 \<Rightarrow> f64" where
  "f_truncate (Fin s m e) = (if 0 \<le> e then Fin s m e else f_round s (m div pow2 (- e)) 1)"
| "f_truncate x = x"

fun f_signbit :: "f64 \<Rightarrow> bool" where
  "f_signbit NaN = False"
| "f_signbit (Inf s) = s"
| "f_signbit (Fin s m e) = s"

definition f_max :: "f64 \<Rightarrow> f64 \<Rightarrow> f64" where
  "f_max x y =
     (if x = Inf False \<or> y = Inf False then Inf False
      else if is_nan x \<or> is_nan y then NaN
      else if f_eq x f_zero \<and> f_eq y f_zero then (if f_signbit x then y else x)
      else if f_lt y x then x else y)"

definition f_min :: "f64 \<Rightarrow> f64 \<Rightarrow> f64" where
  "f_min x y =
     (if x = Inf True \<or> y = Inf True then Inf True
      else if is_nan x \<or> is_nan y then NaN
      else if f_eq x f_zero \<and> f_eq y f_zero then (if f_signbit x then x else y)
      else if f_lt x y then x else y)"

abbreviation f_pos :: "f64 \<Rightarrow> bool" where
  "f_pos x \<equiv> f_lt f_zero x"

section \<open>Values\<close>

definition quantum :: real where
  "quantum = 2 powi (- 1074)"

lemma quantum_pos [simp]: "0 < quantum" "quantum \<noteq> 0" "\<not> quantum < 0" "\<not> quantum \<le> 0" "0 \<le> quantum"
  by (simp_all add: quantum_def)

definition f_val :: "f64 \<Rightarrow> real" where
  "f_val x = real_of_int (f_key x) * quantum"

lemma f_val_cmp: "f_val x \<le> f_val y \<longleftrightarrow> f_key x \<le> f_key y" "f_val x < f_val y \<longleftrightarrow> f_key x < f_key y"
    "f_val x = f_val y \<longleftrightarrow> f_key x = f_key y"
  by (simp_all add: f_val_def)

lemma f_val_0 [simp]: "f_val x = 0 \<longleftrightarrow> f_key x = 0" "0 \<le> f_val x \<longleftrightarrow> 0 \<le> f_key x" "0 < f_val x \<longleftrightarrow> 0 < f_key x"
    "f_val x \<le> 0 \<longleftrightarrow> f_key x \<le> 0" "f_val x < 0 \<longleftrightarrow> f_key x < 0"
  by (simp_all add: f_val_def zero_le_mult_iff zero_less_mult_iff mult_le_0_iff mult_less_0_iff)

lemma f_val_neg [simp]: "f_val (f_neg x) = - f_val x"
  by (simp add: f_val_def)

lemma f_val_Fin:
  assumes "f_wf (Fin s m e)"
  shows "f_val (Fin s m e) = real_of_int (signed s m) * 2 powi e"
proof -
  have "0 \<le> e + 1074" using assms by simp
  then have "real_of_int (pow2 (e + 1074)) = 2 powi (e + 1074)" by (simp add: pow2_eq power_int_def)
  moreover have "(2 :: real) powi (e + 1074) * 2 powi (- 1074) = 2 powi (e + 1074 + - 1074)"
    by (rule power_int_add [symmetric]) simp
  ultimately have "real_of_int (pow2 (e + 1074)) * quantum = 2 powi (e + 1074 + - 1074)"
    unfolding quantum_def by (simp only:)
  then have "real_of_int (pow2 (e + 1074)) * quantum = 2 powi e" by simp
  then show ?thesis by (simp add: f_val_def signed_mult mult.assoc)
qed

section \<open>Rounding\<close>

definition rnd :: "real \<Rightarrow> f64 \<Rightarrow> bool" where
  "rnd v x \<longleftrightarrow> (\<exists>s n d. 0 \<le> n \<and> 0 < d \<and> x = f_round s n d \<and> v = real_of_int (signed s n) / real_of_int d)"

lemma rndI: "0 \<le> n \<Longrightarrow> 0 < d \<Longrightarrow> v = real_of_int (signed s n) / real_of_int d \<Longrightarrow> rnd v (f_round s n d)"
  by (auto simp: rnd_def)

lemma rnd_num: "rnd v x \<Longrightarrow> f_num x"
  by (auto simp: rnd_def)

lemma pack_neg: "pack (\<not> s) m e = f_neg (pack s m e)"
  by (simp add: pack_def Let_def)

lemma f_round_neg: "f_round (\<not> s) n d = f_neg (f_round s n d)"
  by (simp add: f_round_def pack_neg Let_def)

lemma rnd_neg: "rnd v x \<Longrightarrow> rnd (- v) (f_neg x)"
proof -
  assume "rnd v x"
  then obtain s n d where x: "0 \<le> n" "0 < d" "x = f_round s n d" "v = real_of_int (signed s n) / real_of_int d"
    by (auto simp: rnd_def)
  then show ?thesis
    unfolding rnd_def by (intro exI [of _ "\<not> s"] exI [of _ n] exI [of _ d]) (simp add: f_round_neg signed_neg)
qed

lemma f_wf_mono_val:
  assumes "f_wf (Fin s m e)" "f_wf (Fin t n g)" "e < g"
  shows "real_of_int m * 2 powi e < 2 ^ 52 * 2 powi g" "2 ^ 52 \<le> n"
proof -
  have "real_of_int m * 2 powi e < 2 ^ 53 * 2 powi e" using assms(1) by (intro mult_strict_right_mono) auto
  also have "\<dots> \<le> 2 ^ 52 * 2 powi g" using powi_double [OF assms(3)] by simp
  finally show "real_of_int m * 2 powi e < 2 ^ 52 * 2 powi g" .
  show "2 ^ 52 \<le> n" using assms by auto
qed

text \<open>The value of a packed significand does not depend on the carry.\<close>

lemma f_val_pack:
  assumes "0 \<le> m" "m \<le> 2 ^ 53" "e = - 1074 \<or> 2 ^ 52 \<le> m" "- 1074 \<le> e"
  shows "pack False m e = Inf False \<or> f_val (pack False m e) = real_of_int m * 2 powi e \<and> f_finite (pack False m e)"
proof (cases "m = 2 ^ 53")
  case True
  show ?thesis
  proof (cases "e + 1 > 971")
    case False
    then have "f_wf (Fin False (2 ^ 52) (e + 1))" using assms by simp
    from f_val_Fin [OF this] False True show ?thesis by (simp add: pack_def power_int_add)
  qed (simp add: True pack_def)
next
  case False
  show ?thesis
  proof (cases "e > 971")
    case ne: False
    then have "f_wf (Fin False m e)" using assms False by auto
    from f_val_Fin [OF this] ne False assms(2) show ?thesis by (simp add: pack_def)
  qed (use False assms(2) in \<open>simp add: pack_def\<close>)
qed

lemma f_key_abs_le:
  assumes "f_num x"
  shows "\<bar>f_key x\<bar> \<le> f_key (Inf False)"
proof (cases x)
  case (Fin s m e)
  then have "m * pow2 (e + 1074) < 2 ^ 3000" "0 \<le> m * pow2 (e + 1074)"
    using assms key_bound [of s m e] by (auto simp: f_num_def)
  then show ?thesis by (simp add: Fin signed_def)
qed (use assms in \<open>auto simp: f_num_def signed_def\<close>)

lemma f_round_pos_cases:
  assumes "0 < n" "0 < d" "e = exp_of n d" "q = round_sig n d e"
  shows "f_round False n d = Inf False \<or>
    f_val (f_round False n d) = real_of_int q * 2 powi e \<and> f_finite (f_round False n d)"
proof -
  have "f_round False n d = pack False q e" using assms by (simp add: f_round_def Let_def)
  then show ?thesis
    using f_val_pack [of q e] round_sig_bounds [OF assms(1-3)] round_sig_nonneg [of d n e]
      exp_of_bounds(1) [OF assms(1,2)] assms by simp
qed

lemma f_round_ge:
  assumes "0 < n" "0 < d" and wf: "f_wf (Fin False m g)" and le: "f_val (Fin False m g) \<le> real_of_int n / real_of_int d"
  shows "f_key (Fin False m g) \<le> f_key (f_round False n d)"
proof -
  define e where "e = exp_of n d"
  define q where "q = round_sig n d e"
  note b = exp_of_bounds [OF assms(1,2), folded e_def] and rb = round_sig_bounds [OF assms(1,2) e_def, folded q_def]
  have P: "(0 :: real) < 2 powi e" by simp
  note v = le [unfolded f_val_Fin [OF wf] signed_simps]
  have near: "\<bar>real_of_int q * 2 powi e - real_of_int n / real_of_int d\<bar> \<le> 2 powi e / 2"
    unfolding q_def by (rule round_sig_nearest [OF assms(2)])
  have "real_of_int m * 2 powi g \<le> real_of_int q * 2 powi e"
  proof (cases g e rule: linorder_cases)
    case less
    then have "real_of_int m * 2 powi g < 2 ^ 53 * 2 powi g" using wf by (intro mult_strict_right_mono) auto
    also have "\<dots> \<le> 2 ^ 52 * 2 powi e" using powi_double [OF less] by simp
    also have "\<dots> \<le> real_of_int q * 2 powi e" using rb(2) less wf by (intro mult_right_mono) auto
    finally show ?thesis by simp
  next
    case equal
    have "real_of_int m * 2 powi e \<le> (real_of_int q + 1 / 2) * 2 powi e"
      using v near unfolding equal distrib_right by linarith
    then have "real_of_int m \<le> real_of_int q + 1 / 2" using P by (simp add: mult_le_cancel_right)
    then have "m \<le> q" by (rule int_le_of_real_half)
    then show ?thesis unfolding equal by (intro mult_right_mono) auto
  next
    case greater
    then have "2 ^ 52 * 2 powi g \<le> real_of_int m * 2 powi g" using wf b(1) by (intro mult_right_mono) auto
    moreover have "2 ^ 53 * 2 powi e \<le> 2 ^ 52 * (2 :: real) powi g" using powi_double [OF greater] by simp
    ultimately show ?thesis using v b(2) by linarith
  qed
  then have "f_round False n d = Inf False \<or> f_val (Fin False m g) \<le> f_val (f_round False n d)"
    using f_round_pos_cases [OF assms(1,2) e_def q_def] by (auto simp: f_val_Fin [OF wf])
  then show ?thesis using f_key_abs_le [of "Fin False m g"] wf unfolding f_val_cmp by (auto simp: f_num_def)
qed

lemma f_round_le:
  assumes "0 < n" "0 < d" and wf: "f_wf (Fin False m g)" and le: "real_of_int n / real_of_int d \<le> f_val (Fin False m g)"
  shows "f_key (f_round False n d) \<le> f_key (Fin False m g)"
proof -
  define e where "e = exp_of n d"
  define q where "q = round_sig n d e"
  note b = exp_of_bounds [OF assms(1,2), folded e_def] and rb = round_sig_bounds [OF assms(1,2) e_def, folded q_def]
  have P: "(0 :: real) < 2 powi e" by simp
  note v = le [unfolded f_val_Fin [OF wf] signed_simps]
  have near: "\<bar>real_of_int q * 2 powi e - real_of_int n / real_of_int d\<bar> \<le> 2 powi e / 2"
    unfolding q_def by (rule round_sig_nearest [OF assms(2)])
  have m: "real_of_int m \<le> 2 ^ 53 - 1" "0 \<le> m" using wf by auto
  have ge: "e \<le> g"
  proof (rule ccontr)
    assume "\<not> e \<le> g"
    then have "2 * 2 powi g \<le> (2 :: real) powi e" "e \<noteq> - 1074" using powi_double [of g e] wf by auto
    then have "2 ^ 52 * 2 powi e \<le> real_of_int m * 2 powi g" using b(3) v by linarith
    also have "\<dots> < 2 ^ 53 * 2 powi g" using wf by (intro mult_strict_right_mono) auto
    also have "\<dots> \<le> 2 ^ 52 * 2 powi e" using \<open>2 * 2 powi g \<le> 2 powi e\<close> by simp
    finally show False by simp
  qed
  have le: "real_of_int q * 2 powi e \<le> real_of_int m * 2 powi g"
  proof (cases "e = g")
    case True
    have "real_of_int q * 2 powi e \<le> (real_of_int m + 1 / 2) * 2 powi e"
      using v near unfolding True distrib_right by linarith
    then have "real_of_int q \<le> real_of_int m + 1 / 2" using P by (simp add: mult_le_cancel_right)
    then have "q \<le> m" by (rule int_le_of_real_half)
    then show ?thesis unfolding True by (intro mult_right_mono) auto
  next
    case False
    then have "e < g" using ge by simp
    have "real_of_int q * 2 powi e \<le> 2 ^ 53 * 2 powi e" using rb(1) by (intro mult_right_mono) auto
    also have "\<dots> \<le> 2 ^ 52 * 2 powi g" using powi_double [OF \<open>e < g\<close>] by simp
    also have "\<dots> \<le> real_of_int m * 2 powi g" using wf \<open>e < g\<close> b(1) by (intro mult_right_mono) auto
    finally show ?thesis .
  qed
  have "pack False q e \<noteq> Inf False"
  proof
    assume "pack False q e = Inf False"
    then have "e = 971 \<and> 2 ^ 53 \<le> q \<or> 971 < e" by (auto simp: pack_def split: if_splits)
    then have "e = 971" "g = 971" "2 ^ 53 \<le> q" using ge wf by auto
    moreover have "real_of_int q \<le> real_of_int m" using le calculation by simp
    ultimately have "2 ^ 53 \<le> m" by simp
    then show False using wf by simp
  qed
  moreover have "f_round False n d = pack False q e" using assms by (simp add: f_round_def Let_def e_def q_def)
  ultimately have "f_val (f_round False n d) \<le> f_val (Fin False m g)"
    using f_round_pos_cases [OF assms(1,2) e_def q_def] le by (auto simp: f_val_Fin [OF wf])
  then show ?thesis unfolding f_val_cmp .
qed

text \<open>Rounding does not cross a finite number.\<close>

lemma rnd_le:
  assumes "rnd v x" "f_wf c" "f_finite c" "v \<le> f_val c"
  shows "f_key x \<le> f_key c"
proof -
  from assms(1) obtain s n d where x: "0 \<le> n" "0 < d" "x = f_round s n d" "v = real_of_int (signed s n) / real_of_int d"
    by (auto simp: rnd_def)
  obtain t m g where c: "c = Fin t m g" using assms(3) by (cases c) auto
  have m: "0 \<le> m" using assms(2) c by simp
  have mc: "f_val (Fin False m g) = \<bar>f_val c\<bar>" "f_key (Fin False m g) = \<bar>f_key c\<bar>" "f_wf (Fin False m g)"
    using assms(2) m by (simp_all add: c f_val_def signed_def abs_mult)
  show ?thesis
  proof (cases "n = 0")
    case True
    then show ?thesis using x assms(4) by (simp add: f_round_def)
  next
    case False
    then have n: "0 < n" using x by simp
    show ?thesis
    proof (cases s)
      case s: False
      then have "0 < v" using n x by simp
      then have c0: "0 < f_val c" using assms(4) by linarith
      moreover have "real_of_int n / real_of_int d \<le> f_val (Fin False m g)" using assms(4) s x mc(1) c0 by simp
      ultimately have "0 < f_key c" "real_of_int n / real_of_int d \<le> f_val (Fin False m g)" by simp_all
      then show ?thesis using f_round_le [OF n x(2) mc(3)] x s mc(2) by simp
    next
      case s: True
      have kx: "f_key x = - f_key (f_round False n d)" using x s f_round_neg [of False n d] by simp
      have "0 \<le> f_key (f_round False n d)" using f_key_round_sign [of d n False] x by simp
      moreover have "f_key (f_round False n d) \<ge> - f_key c" if "f_key c < 0"
      proof -
        have "f_val (Fin False m g) \<le> real_of_int n / real_of_int d" using assms(4) s x mc that by simp
        from f_round_ge [OF n x(2) mc(3) this] show ?thesis using mc(2) that by simp
      qed
      ultimately show ?thesis using kx by (cases "f_key c < 0") auto
    qed
  qed
qed

lemma rnd_ge:
  assumes "rnd v x" "f_wf c" "f_finite c" "f_val c \<le> v"
  shows "f_key c \<le> f_key x"
  using rnd_le [OF rnd_neg [OF assms(1)], of "f_neg c"] assms(2-) by simp

lemma rnd_exact: "rnd v x \<Longrightarrow> f_wf c \<Longrightarrow> f_finite c \<Longrightarrow> v = f_val c \<Longrightarrow> f_key x = f_key c"
  by (intro antisym rnd_le rnd_ge) auto

lemma f_num_finite: "f_wf x \<Longrightarrow> f_finite x \<Longrightarrow> f_num x"
  by (cases x) (auto simp: f_num_def)

lemma f_key_finite: "f_wf c \<Longrightarrow> f_finite c \<Longrightarrow> \<bar>f_key c\<bar> < f_key (Inf False)"
  using key_bound by (cases c) (auto simp: signed_def)

lemma rnd_finite:
  assumes "rnd v x" "f_wf c" "f_finite c" "v = f_val c"
  shows "f_finite x"
  using rnd_exact [OF assms] f_key_finite [OF assms(2,3)] rnd_num [OF assms(1)] by (cases x) (auto simp: f_num_def signed_def split: if_splits)

lemma rnd_nonneg: "rnd v x \<Longrightarrow> 0 \<le> v \<Longrightarrow> 0 \<le> f_key x"
  using rnd_ge [of v x f_zero] by (simp add: f_val_def)

lemma rnd_nonpos: "rnd v x \<Longrightarrow> v \<le> 0 \<Longrightarrow> f_key x \<le> 0"
  using rnd_le [of v x f_zero] by (simp add: f_val_def)

text \<open>The operations round their exact results.\<close>

lemma pow2_quot: "real_of_int (pow2 e) / real_of_int (pow2 (- e)) = 2 powi e"
  using pow2_real [of "- e"] by simp

lemma rnd_zero: "rnd 0 (Fin s 0 (- 1074))"
  using rndI [of 0 1 0 s] by (simp add: f_round_def)

lemma rnd_self:
  assumes "f_wf a" "f_finite a"
  shows "rnd (f_val a) a"
proof -
  obtain s m e where a: "a = Fin s m e" using assms(2) by (cases a) auto
  note v = f_val_Fin [OF assms(1) [unfolded a]]
  show ?thesis
  proof (cases "m = 0")
    case True
    then show ?thesis using rnd_zero [of s] assms(1) by (simp add: a f_val_def)
  next
    case False
    then have m: "0 < m" using assms(1) a by simp
    have q: "real_of_int (m * pow2 e) / real_of_int (pow2 (- e)) = real_of_int m * 2 powi e"
      unfolding of_int_mult times_divide_eq_right [symmetric] pow2_quot ..
    have "a = f_round s (m * pow2 e) (pow2 (- e))"
      unfolding a by (rule f_round_exact [symmetric, OF assms(1) [unfolded a] m _ _ q]) (use m in auto)
    moreover have "f_val a = real_of_int (signed s (m * pow2 e)) / real_of_int (pow2 (- e))"
      unfolding a v using q by (simp add: signed_def)
    ultimately show ?thesis using m rndI [of "m * pow2 e" "pow2 (- e)" "f_val a" s] by simp
  qed
qed

lemma rnd_add:
  assumes "f_wf a" "f_wf b" "f_finite a" "f_finite b"
  shows "rnd (f_val a + f_val b) (f_add a b)"
proof -
  obtain s m e t n g where a: "a = Fin s m e" and b: "b = Fin t n g"
    using assms(3,4) by (cases a; cases b) auto
  show ?thesis
  proof (cases "(n = 0 \<and> m \<noteq> 0) \<or> (m = 0 \<and> n \<noteq> 0)")
    case True
    then show ?thesis using assms rnd_self [OF assms(1,3)] rnd_self [OF assms(2,4)] by (auto simp: a b f_val_def)
  next
    case proper: False
    define k where "k = min e g"
    define v where "v = signed s (m * pow2 (e - k)) + signed t (n * pow2 (g - k))"
    have sc: "real_of_int (pow2 (h - k)) * 2 powi k = 2 powi h" if "k \<le> h" for h
    proof -
      have "real_of_int (pow2 (h - k)) = 2 powi (h - k)" using that by (simp add: pow2_eq power_int_def)
      then show ?thesis by (simp add: power_int_add [symmetric])
    qed
    have "real_of_int v * 2 powi k =
        real_of_int (signed s m) * (real_of_int (pow2 (e - k)) * 2 powi k) + real_of_int (signed t n) * (real_of_int (pow2 (g - k)) * 2 powi k)"
      by (simp add: v_def signed_mult algebra_simps)
    also have "\<dots> = real_of_int (signed s m) * 2 powi e + real_of_int (signed t n) * 2 powi g"
      using sc [of e] sc [of g] by (simp add: k_def)
    also have "\<dots> = f_val a + f_val b" using assms(1,2) by (simp only: a b f_val_Fin)
    finally have val: "real_of_int v * 2 powi k = f_val a + f_val b" .
    have add: "f_add a b = (if v = 0 then Fin (s \<and> t) 0 (- 1074) else f_round (v < 0) (\<bar>v\<bar> * pow2 k) (pow2 (- k)))"
      using proper by (auto simp: a b k_def v_def Let_def)
    show ?thesis
    proof (cases "v = 0")
      case True
      then show ?thesis using val rnd_zero by (simp add: add)
    next
      case False
      have "signed (v < 0) (\<bar>v\<bar> * pow2 k) = v * pow2 k" by (simp add: signed_def)
      then have "f_val a + f_val b = real_of_int (signed (v < 0) (\<bar>v\<bar> * pow2 k)) / real_of_int (pow2 (- k))"
        unfolding val [symmetric] by (simp add: pow2_quot [symmetric])
      then show ?thesis using False by (simp add: add rndI)
    qed
  qed
qed

lemma rnd_sub:
  assumes "f_wf a" "f_wf b" "f_finite a" "f_finite b"
  shows "rnd (f_val a - f_val b) (f_sub a b)"
  using rnd_add [of a "f_neg b"] assms by (simp add: f_sub_def)

lemma rnd_mul:
  assumes "f_wf a" "f_wf b" "f_finite a" "f_finite b"
  shows "rnd (f_val a * f_val b) (f_mul a b)"
proof -
  obtain s m e t n g where a: "a = Fin s m e" and b: "b = Fin t n g"
    using assms(3,4) by (cases a; cases b) auto
  have "f_val a * f_val b = real_of_int (signed (s \<noteq> t) (m * n)) * 2 powi (e + g)"
    using assms by (simp add: a b f_val_Fin power_int_add) (simp add: signed_def)
  also have "\<dots> = real_of_int (signed (s \<noteq> t) (m * n * pow2 (e + g))) / real_of_int (pow2 (- (e + g)))"
    by (simp add: signed_mult pow2_quot [symmetric])
  finally show ?thesis using assms by (simp add: a b rndI)
qed

lemma rnd_div:
  assumes "f_wf a" "f_wf b" "f_finite a" "f_finite b" "f_key b \<noteq> 0"
  shows "rnd (f_val a / f_val b) (f_div a b)"
proof -
  obtain s m e t n g where a: "a = Fin s m e" and b: "b = Fin t n g"
    using assms(3,4) by (cases a; cases b) auto
  have n: "0 < n" using assms(2,5) by (auto simp: b)
  have q: "real_of_int (pow2 (e - g)) / real_of_int (pow2 (g - e)) = 2 powi e / 2 powi g"
    using pow2_quot [of "e - g"] by (simp add: power_int_diff)
  have "f_val a / f_val b = real_of_int (signed (s \<noteq> t) m) / real_of_int n * (2 powi e / 2 powi g)"
    using assms by (simp add: a b f_val_Fin) (simp add: signed_def)
  also have "\<dots> = real_of_int (signed (s \<noteq> t) (m * pow2 (e - g))) / real_of_int (n * pow2 (g - e))"
    unfolding q [symmetric] by (simp add: signed_mult)
  finally show ?thesis using assms n by (simp add: a b rndI)
qed

section \<open>Numbers that are not negative\<close>

text \<open>
  Not negative, or NaN (which an overflow to infinity can lead to). The operations that
  price charges stay within these numbers.
\<close>

definition f_nn :: "f64 \<Rightarrow> bool" where
  "f_nn x \<longleftrightarrow> f_wf x \<and> (x = NaN \<or> 0 \<le> f_key x)"

lemma f_nn_not_lt: "f_nn x \<Longrightarrow> \<not> f_lt x f_zero"
  by (cases "x = NaN") (auto simp: f_nn_def f_lt_num [of x f_zero] f_num_def [of x])

lemma f_nn_NaN [simp]: "f_nn NaN"
  by (simp add: f_nn_def)

lemma f_nn_Inf [simp]: "f_nn (Inf s) \<longleftrightarrow> \<not> s"
  by (simp add: f_nn_def signed_def)

lemma f_nn_zero [simp]: "f_nn f_zero"
  by (simp add: f_nn_def)

lemma f_nn_finite: "f_finite x \<Longrightarrow> f_nn x \<longleftrightarrow> f_wf x \<and> 0 \<le> f_key x"
  by (cases x) (auto simp: f_nn_def)

lemma f_nn_rnd: "rnd v x \<Longrightarrow> 0 \<le> v \<Longrightarrow> f_nn x"
  using rnd_num [of v x] rnd_nonneg [of v x] by (auto simp: f_nn_def f_num_def)

lemma f64_class: obtains "x = NaN" | s where "x = Inf s" | "f_finite x"
  by (cases x) auto

lemma f_add_special [simp]: "f_add NaN x = NaN" "f_add x NaN = NaN" "f_finite x \<Longrightarrow> f_add (Inf s) x = Inf s"
    "f_finite x \<Longrightarrow> f_add x (Inf s) = Inf s"
  by (cases x; simp)+

lemma f_mul_special [simp]: "f_mul NaN x = NaN" "f_mul x NaN = NaN"
  by (cases x; simp)+

lemma f_nn_add [simp]:
  assumes "f_nn a" "f_nn b"
  shows "f_nn (f_add a b)"
proof (cases "f_finite a \<and> f_finite b")
  case True
  then show ?thesis using assms f_nn_rnd [OF rnd_add [of a b]] by (simp add: f_nn_finite)
qed (use assms in \<open>cases a rule: f64_class; cases b rule: f64_class; auto\<close>)

lemma f_mul_Inf_nn: "f_nn x \<Longrightarrow> f_nn (f_mul (Inf False) x) \<and> f_nn (f_mul x (Inf False))"
  by (cases x) (auto simp: f_nn_def signed_def mult_le_0_iff split: if_splits)

lemma f_nn_mul [simp]:
  assumes "f_nn a" "f_nn b"
  shows "f_nn (f_mul a b)"
proof (cases "f_finite a \<and> f_finite b")
  case True
  then show ?thesis using assms f_nn_rnd [OF rnd_mul [of a b]] by (simp add: f_nn_finite)
next
  case False
  then consider "a = NaN" | "b = NaN" | "a = Inf False" | "b = Inf False"
    using assms by (cases a rule: f64_class; cases b rule: f64_class) auto
  then show ?thesis using f_mul_Inf_nn assms by cases auto
qed

lemma f_nn_div [simp]:
  assumes "f_nn a" "f_finite b" "f_wf b" "0 < f_key b"
  shows "f_nn (f_div a b)"
proof (cases a rule: f64_class)
  case 3
  then show ?thesis using assms f_nn_rnd [OF rnd_div [of a b]] by (simp add: f_nn_finite)
next
  case (2 s)
  with assms(1) have "\<not> s" by simp
  with assms 2 show ?thesis by (cases b) (auto simp: signed_def mult_less_0_iff)
qed (cases b; simp)

lemma f_nn_min [simp]: "f_nn a \<Longrightarrow> f_nn b \<Longrightarrow> f_nn (f_min a b)"
  by (auto simp: f_min_def)

lemma f_nn_max [simp]: "f_nn a \<Longrightarrow> f_nn b \<Longrightarrow> f_nn (f_max a b)"
  by (auto simp: f_max_def)

lemma f_wf_ops [simp]:
  "f_wf a \<Longrightarrow> f_wf b \<Longrightarrow> f_wf (f_add a b)" "f_wf a \<Longrightarrow> f_wf b \<Longrightarrow> f_wf (f_sub a b)"
  "f_wf a \<Longrightarrow> f_wf b \<Longrightarrow> f_wf (f_mul a b)" "f_wf a \<Longrightarrow> f_wf b \<Longrightarrow> f_wf (f_div a b)"
proof -
  show add: "f_wf (f_add a b)" if "f_wf a" "f_wf b" for a b
    using that rnd_num [OF rnd_add [OF that]] by (cases a; cases b) (auto simp: f_num_def)
  show "f_wf a \<Longrightarrow> f_wf b \<Longrightarrow> f_wf (f_sub a b)" by (simp add: f_sub_def add)
  show "f_wf a \<Longrightarrow> f_wf b \<Longrightarrow> f_wf (f_mul a b)" by (cases a; cases b) auto
  show "f_wf a \<Longrightarrow> f_wf b \<Longrightarrow> f_wf (f_div a b)" by (cases a; cases b) (auto intro!: f_wf_round)
qed

section \<open>Integers and the floor\<close>

lemma f_val_of_int:
  assumes "\<bar>i\<bar> < 2 ^ 53"
  shows "f_val (f_of_int i) = real_of_int i"
proof -
  have "rnd (real_of_int i) (f_of_int i)" unfolding f_of_int_def by (rule rndI) (auto simp: signed_def)
  have q: "real_of_int (2 ^ 1074) * quantum = 2 powi (int 1074 + - 1074)"
    unfolding quantum_def of_int_power of_int_numeral by (simp only: powi_shift)
  have "f_val (f_of_int i) = real_of_int i * (real_of_int (2 ^ 1074) * quantum)"
    unfolding f_val_def f_of_int_key(3) [OF assms] of_int_mult by (rule mult.assoc)
  then show ?thesis unfolding q by simp
qed

lemma f_of_int_good: "f_wf (f_of_int i)" "f_num (f_of_int i)"
  unfolding f_of_int_def by simp_all

lemma f_val_powi_nonneg: "0 \<le> e \<Longrightarrow> real_of_int m * 2 powi e = real_of_int (m * pow2 e)"
  by (simp add: pow2_eq power_int_def)

lemma f_val_powi_neg: "e < 0 \<Longrightarrow> real_of_int m * 2 powi e = real_of_int m / real_of_int (pow2 (- e))"
  using pow2_quot [of e] by (simp flip: times_divide_eq_right add: divide_inverse)

lemma pow2_ge_2: "e < 0 \<Longrightarrow> 2 \<le> pow2 (- e)"
proof -
  assume "e < 0"
  then have "pow2 1 \<le> pow2 (- e)" by (intro pow2_mono) auto
  then show ?thesis by (simp add: pow2_eq)
qed

lemma div_small_abs:
  fixes k p :: int
  assumes "2 \<le> p" "\<bar>k\<bar> < 2 ^ 53"
  shows "\<bar>k div p\<bar> < 2 ^ 53"
proof -
  define q where "q = k div p"
  have "k = q * p + k mod p" "0 \<le> k mod p" "k mod p < p" using assms(1) by (simp_all add: q_def)
  then have b: "q * p \<le> k" "k < (q + 1) * p" unfolding distrib_right by linarith+
  have "q \<le> max k 0"
    using b(1) assms(1) mult_left_mono [of 1 p q] by (cases "0 \<le> q") auto
  moreover have "min k 0 \<le> q"
    using b(2) assms(1) mult_left_mono_neg [of 1 p "q + 1"] by (cases "0 \<le> q") auto
  ultimately show ?thesis using assms(2) unfolding q_def by linarith
qed

lemma f_floor_val:
  assumes "f_wf x" "f_finite x"
  shows "f_val (f_floor x) = of_int \<lfloor>f_val x\<rfloor>" "f_wf (f_floor x)" "f_finite (f_floor x)"
proof -
  obtain s m e where x: "x = Fin s m e" using assms(2) by (cases x) auto
  note v = f_val_Fin [OF assms(1) [unfolded x]]
  have "f_val (f_floor x) = of_int \<lfloor>f_val x\<rfloor> \<and> f_wf (f_floor x) \<and> f_finite (f_floor x)"
  proof (cases "0 \<le> e")
    case True
    then show ?thesis using assms v f_val_powi_nonneg [OF True] by (simp add: x)
  next
    case False
    define i where "i = signed s m div pow2 (- e)"
    have fl: "\<lfloor>f_val x\<rfloor> = i"
      using False unfolding x v i_def by (simp add: f_val_powi_neg floor_divide_of_int_eq)
    have "\<bar>signed s m\<bar> < 2 ^ 53" using assms x by (auto simp: signed_def)
    then have i: "\<bar>i\<bar> < 2 ^ 53" unfolding i_def using False by (intro div_small_abs pow2_ge_2) auto
    have z: "f_val (Fin s 0 (- 1074)) = 0" by simp
    show ?thesis
      using False f_val_of_int [OF i] f_of_int_key(1) [OF i] f_of_int_good z unfolding fl
      by (auto simp: x Let_def i_def [symmetric])
  qed
  then show "f_val (f_floor x) = of_int \<lfloor>f_val x\<rfloor>" "f_wf (f_floor x)" "f_finite (f_floor x)" by blast+
qed

text \<open>A number other than zero is determined by its value.\<close>

lemma f_key_inject:
  assumes "f_wf a" "f_wf b" "f_finite a" "f_finite b" "f_key a = f_key b" "f_key a \<noteq> 0"
  shows "a = b"
proof -
  obtain s m e t n g where ab: "a = Fin s m e" "b = Fin t n g" using assms(3,4) by (cases a; cases b) auto
  have "m \<noteq> 0" "n \<noteq> 0" using assms(5,6) by (auto simp: ab)
  then have mn: "0 < m" "0 < n" using assms(1,2) by (auto simp: ab)
  have st: "s = t"
  proof (rule ccontr)
    assume "s \<noteq> t"
    then have "m * pow2 (e + 1074) = - (n * pow2 (g + 1074))" using assms(5) ab by (auto simp: signed_def)
    moreover have "0 < m * pow2 (e + 1074)" "0 < n * pow2 (g + 1074)" using mn by simp_all
    ultimately show False by linarith
  qed
  have va: "real_of_int (m * pow2 e) / real_of_int (pow2 (- e)) = real_of_int m * 2 powi e"
    unfolding of_int_mult times_divide_eq_right [symmetric] pow2_quot ..
  have "real_of_int (signed s m) * 2 powi e = real_of_int (signed s n) * 2 powi g"
    using assms ab st f_val_Fin [of s m e] f_val_Fin [of t n g] by (simp add: f_val_def)
  then have vb: "real_of_int (m * pow2 e) / real_of_int (pow2 (- e)) = real_of_int n * 2 powi g"
    unfolding va by (auto simp: signed_def split: if_splits)
  have wf: "f_wf (Fin s m e)" "f_wf (Fin s n g)" using assms(1,2) unfolding ab st .
  have P: "0 < m * pow2 e" "0 < pow2 (- e)" using mn by simp_all
  show ?thesis
    using f_round_exact [OF wf(1) mn(1) P va] f_round_exact [OF wf(2) mn(2) P vb] unfolding ab st [symmetric] by (simp only:)
qed

lemma f_pos_key: "f_wf x \<Longrightarrow> f_pos x \<longleftrightarrow> 0 < f_key x \<and> x \<noteq> NaN"
  by (cases "x = NaN") (auto simp: f_lt_num [of f_zero x] f_num_def [of x])

lemma f_eq_pos: "f_wf a \<Longrightarrow> f_wf b \<Longrightarrow> f_finite a \<Longrightarrow> f_finite b \<Longrightarrow> f_pos a \<Longrightarrow> f_eq a b \<longleftrightarrow> a = b"
  using f_key_inject [of a b] by (auto simp: f_eq_num f_num_finite f_pos_key)

section \<open>Evaluation\<close>

lemma f_floor_code [code]:
  "f_floor NaN = NaN"
  "f_floor (Inf s) = Inf s"
  "f_floor (Fin s m e) =
     (if 0 \<le> e then Fin s m e else if m = 0 then Fin s 0 (- 1074)
      else let i = signed s m div pow2 (- e) in if i = 0 then Fin s 0 (- 1074) else f_of_int i)"
  by (auto simp: Let_def)

lemma f_truncate_code [code]:
  "f_truncate NaN = NaN"
  "f_truncate (Inf s) = Inf s"
  "f_truncate (Fin s m e) = (if 0 \<le> e then Fin s m e else if m = 0 then Fin s 0 (- 1074) else f_round s (m div pow2 (- e)) 1)"
  by (auto simp: f_round_def)

section \<open>The sign of a difference\<close>

lemma quantum_le: "f_key a < f_key b \<Longrightarrow> f_val a + quantum \<le> f_val b"
proof -
  assume "f_key a < f_key b"
  then have "real_of_int (f_key a) + 1 \<le> real_of_int (f_key b)" by linarith
  then have "(real_of_int (f_key a) + 1) * quantum \<le> real_of_int (f_key b) * quantum" by (intro mult_right_mono) simp_all
  then show ?thesis by (simp add: f_val_def distrib_right)
qed

lemma f_sub_sign:
  assumes "f_num a" "f_num b" "f_key a \<noteq> f_key b"
  shows "f_lt (f_sub b a) f_zero \<longleftrightarrow> f_key b < f_key a"
proof (cases "f_finite a \<and> f_finite b")
  case True
  have wf: "f_wf a" "f_wf b" using assms by (simp_all add: f_num_def)
  have r: "rnd (f_val b - f_val a) (f_sub b a)" using rnd_sub wf True by simp
  have lt: "f_lt (f_sub b a) f_zero \<longleftrightarrow> f_key (f_sub b a) < 0" using rnd_num [OF r] by (simp add: f_lt_num)
  show ?thesis
  proof (cases "f_key b < f_key a")
    case True
    have "f_val (Fin True 1 (- 1074)) = - quantum" by (simp add: f_val_def)
    then have "f_key (f_sub b a) \<le> f_key (Fin True 1 (- 1074))" using quantum_le [OF True] by (intro rnd_le [OF r]) auto
    then show ?thesis using True lt by simp
  next
    case False
    then have "0 \<le> f_val b - f_val a" using f_val_cmp(1) [of a b] by simp
    then show ?thesis using rnd_nonneg [OF r] lt False by simp
  qed
next
  case False
  have fin: "\<And>x. f_num x \<Longrightarrow> f_finite x \<Longrightarrow> \<bar>f_key x\<bar> < f_key (Inf False)" by (simp only: f_key_finite f_num_def)
  from False consider s where "a = Inf s" "f_finite b" | s where "b = Inf s" "f_finite a" | s t where "a = Inf s" "b = Inf t"
    using assms(1,2) by (cases a rule: f64_class; cases b rule: f64_class) (auto simp: f_num_def)
  then show ?thesis
  proof cases
    case (1 s)
    then show ?thesis using fin [OF assms(2)] by (cases b; cases s) (auto simp: f_sub_def f_zero_def)
  next
    case (2 s)
    then show ?thesis using fin [OF assms(1)] by (cases a; cases s) (auto simp: f_sub_def f_zero_def)
  next
    case (3 s t)
    then show ?thesis using assms(3) by (cases s; cases t) (auto simp: f_sub_def f_zero_def)
  qed
qed

end
