(* ===== verification/JsNum.thy ===== *)
theory JsNum
  imports FloatOps IstTime "HOL-Library.Product_Lexorder"
begin

text \<open>
  The JavaScript-compatible helpers (\<^verbatim>\<open>internal/jsx\<close>) that pricing and ordering rest on:
  \<^verbatim>\<open>Round\<close> and \<^verbatim>\<open>Round2\<close>, with the theorem that \<open>Round\<close> is the floor of \<open>x + 1/2\<close>
  although it is computed with one rounded subtraction, and \<^verbatim>\<open>LocaleCompare\<close>, with the
  theorem that it is the comparison of a pair of lists, hence a linear preorder. Strings are
  lists of bytes; \<open>decode_rune\<close> is \<^verbatim>\<open>utf8.DecodeRuneInString\<close>.
\<close>

section \<open>Rounding to integers and to paise\<close>

definition f_half :: f64 where
  "f_half = f_dec 5 1"

definition Round :: "f64 \<Rightarrow> f64" where
  "Round x =
     (if \<not> f_finite x \<or> f_le (f_of_int (2 ^ 52)) (f_abs x) then f_add x f_zero
      else let r = f_floor x; r = (if f_le f_half (f_sub x r) then f_add r (f_of_int 1) else r)
        in f_add r f_zero)"

definition Round2 :: "f64 \<Rightarrow> f64" where
  "Round2 x = f_div (Round (f_mul x (f_of_int 100))) (f_of_int 100)"

definition Finite :: "f64 \<Rightarrow> bool" where
  "Finite x \<longleftrightarrow> \<not> is_nan x \<and> f_finite x"

definition NullIfNotFinite :: "f64 \<Rightarrow> f64 option" where
  "NullIfNotFinite x = (if Finite x then Some x else None)"

lemma f_half_eq: "f_half = Fin False (2 ^ 52) (- 53)"
  by code_simp

lemma f_half_facts [simp]: "f_wf f_half" "f_finite f_half" "f_num f_half"
  by (simp_all add: f_half_eq f_num_def)

lemma f_val_half: "f_val f_half = 1 / 2"
  using f_val_Fin [of False "2 ^ 52" "- 53"] unfolding f_half_eq by (simp add: power_int_minus)

lemma f_val_abs: "f_wf x \<Longrightarrow> f_val (f_abs x) = \<bar>f_val x\<bar>" "f_wf (f_abs x) = f_wf x" "f_finite (f_abs x) = f_finite x"
  by (cases x; auto simp: f_val_def signed_def abs_mult)+

lemma representable:
  assumes "0 \<le> k" "k < 2 ^ 53" "- 1074 \<le> e" "e \<le> 971"
  shows "\<exists>c. f_wf c \<and> f_finite c \<and> f_val c = real_of_int k * 2 powi e"
proof (cases "k = 0")
  case True
  then show ?thesis by (intro exI [of _ f_zero]) simp
next
  case False
  with assms small_normal [of k] obtain j where j: "2 ^ 52 \<le> k * 2 ^ j" "k * 2 ^ j < 2 ^ 53" by auto
  define i where "i = min j (nat (e + 1074))"
  have "k * 2 ^ i \<le> k * 2 ^ j" using assms(1) by (intro mult_left_mono power_increasing) (auto simp: i_def)
  then have wf: "f_wf (Fin False (k * 2 ^ i) (e - int i))" using j assms by (auto simp: i_def min_def)
  have "real_of_int (k * 2 ^ i) * 2 powi (e - int i) = real_of_int k * 2 powi e" by (simp add: power_int_diff)
  then show ?thesis using wf f_val_Fin [OF wf] by (intro exI [of _ "Fin False (k * 2 ^ i) (e - int i)"]) simp
qed

text \<open>Below one half, the fraction of a number is itself a number, so the subtraction that computes it is exact.\<close>

lemma fraction_representable:
  assumes "f_wf x" "f_finite x" "f_val x - of_int \<lfloor>f_val x\<rfloor> < 1 / 2"
  shows "\<exists>c. f_wf c \<and> f_finite c \<and> f_val c = f_val x - of_int \<lfloor>f_val x\<rfloor>"
proof -
  obtain s m e where x: "x = Fin s m e" using assms(2) by (cases x) auto
  note wf = assms(1) [unfolded x] and v = f_val_Fin [OF assms(1) [unfolded x]]
  show ?thesis
  proof (cases "0 \<le> e")
    case True
    then show ?thesis by (intro exI [of _ f_zero]) (simp add: x v f_val_powi_nonneg [OF True])
  next
    case False
    define p where "p = pow2 (- e)"
    define k where "k = signed s m mod p"
    have p: "0 < p" "real_of_int p = 1 / 2 powi e" using False pow2_quot [of e] by (simp_all add: p_def field_simps)
    have "real_of_int (signed s m) = real_of_int (signed s m div p) * real_of_int p + real_of_int k"
      unfolding k_def by (metis div_mult_mod_eq of_int_add of_int_mult)
    moreover have fl: "\<lfloor>f_val x\<rfloor> = signed s m div p"
      using False by (simp add: x v f_val_powi_neg floor_divide_of_int_eq p_def)
    ultimately have fr: "f_val x - of_int \<lfloor>f_val x\<rfloor> = real_of_int k * 2 powi e"
      unfolding x v fl [unfolded x v] using p by (simp add: field_simps)
    have k: "0 \<le> k" using p by (simp add: k_def)
    have "k < 2 ^ 53"
    proof (cases "s \<and> m \<noteq> 0")
      case neg: True
      show ?thesis
      proof (cases "- e \<le> 54")
        case True
        have "p \<le> pow2 54" unfolding p_def using True by (rule pow2_mono)
        moreover have "real_of_int k * 2 powi e < real_of_int p / 2 * 2 powi e" using assms(3) fr p(2) by simp
        then have "real_of_int k < real_of_int p / 2" by (rule mult_right_less_imp_less) simp
        then have "2 * k < p" by linarith
        ultimately show ?thesis by (simp add: pow2_eq)
      next
        case big: False
        have "real_of_int m * 2 powi e < 2 ^ 53 * 2 powi e" using wf by (intro mult_strict_right_mono) auto
        also have "\<dots> \<le> 2 ^ 53 * 2 powi (- 55)" using big by (intro mult_left_mono power_int_increasing) auto
        also have "\<dots> = 1 / 4" by (simp add: power_int_minus)
        finally have "real_of_int m * 2 powi e < 1 / 4" .
        moreover have "f_val x = - (real_of_int m * 2 powi e)" unfolding x v using neg by (simp add: signed_def)
        moreover have "0 < real_of_int m * 2 powi e" using neg wf by (simp add: zero_less_mult_iff)
        ultimately have "- 1 / 4 < f_val x" "f_val x < 0" by linarith+
        moreover from this have "\<lfloor>f_val x\<rfloor> = - 1" by linarith
        ultimately show ?thesis using assms(3) by simp
      qed
    next
      case False
      then have "k \<le> m" using wf p by (auto simp: k_def signed_def zmod_le_nonneg_dividend)
      then show ?thesis using wf by simp
    qed
    with representable [OF k this] wf False fr show ?thesis by simp
  qed
qed

lemma half_test:
  assumes "f_wf x" "f_finite x"
  shows "f_le f_half (f_sub x (f_floor x)) \<longleftrightarrow> 1 / 2 \<le> f_val x - of_int \<lfloor>f_val x\<rfloor>"
proof -
  note fl = f_floor_val [OF assms]
  have r: "rnd (f_val x - of_int \<lfloor>f_val x\<rfloor>) (f_sub x (f_floor x))"
    using rnd_sub [of x "f_floor x"] assms fl by simp
  have le: "f_le f_half (f_sub x (f_floor x)) \<longleftrightarrow> f_key f_half \<le> f_key (f_sub x (f_floor x))"
    using rnd_num [OF r] by (simp add: f_le_num)
  show ?thesis
  proof (cases "1 / 2 \<le> f_val x - of_int \<lfloor>f_val x\<rfloor>")
    case True
    then show ?thesis using rnd_ge [OF r, of f_half] by (simp add: le f_val_half)
  next
    case False
    with fraction_representable [OF assms] obtain c where
      c: "f_wf c" "f_finite c" "f_val c = f_val x - of_int \<lfloor>f_val x\<rfloor>" by auto
    then have "f_key (f_sub x (f_floor x)) = f_key c" using rnd_exact [OF r] by simp
    moreover have "f_val c < f_val f_half" using False c by (simp add: f_val_half)
    ultimately show ?thesis using False by (simp add: le f_val_cmp)
  qed
qed

lemma f_add_of_int:
  assumes "f_wf x" "f_finite x" "f_val x = of_int i" "\<bar>i + j\<bar> < 2 ^ 53" "\<bar>j\<bar> < 2 ^ 53"
  shows "f_val (f_add x (f_of_int j)) = of_int (i + j)" "f_wf (f_add x (f_of_int j))" "f_finite (f_add x (f_of_int j))"
proof -
  have j: "f_wf (f_of_int j)" "f_finite (f_of_int j)" "f_val (f_of_int j) = of_int j"
    using f_of_int_key [OF assms(5)] f_val_of_int [OF assms(5)] by (auto simp: f_num_def)
  have c: "f_wf (f_of_int (i + j))" "f_finite (f_of_int (i + j))" "f_val (f_of_int (i + j)) = of_int (i + j)"
    using f_of_int_key [OF assms(4)] f_val_of_int [OF assms(4)] by (auto simp: f_num_def)
  have r: "rnd (of_int (i + j)) (f_add x (f_of_int j))" using rnd_add [OF assms(1) j(1) assms(2) j(2)] assms(3) j(3) by simp
  then show "f_wf (f_add x (f_of_int j))" using rnd_num by (simp add: f_num_def)
  have k: "f_key (f_add x (f_of_int j)) = f_key (f_of_int (i + j))" using rnd_exact [OF r c(1,2)] c(3) by simp
  then show "f_val (f_add x (f_of_int j)) = of_int (i + j)" using c(3) by (simp add: f_val_def)
  show "f_finite (f_add x (f_of_int j))" using rnd_finite [OF r c(1,2)] c(3) by simp
qed

text \<open>
  \<open>Round\<close> is JavaScript's \<^verbatim>\<open>Math.round\<close>: the floor of \<open>x + 1/2\<close>, computed without forming the
  sum, and never minus zero.
\<close>

lemma Round_small:
  assumes "f_wf x" "f_finite x" "\<bar>f_val x\<bar> < 2 ^ 52"
  shows "f_val (Round x) = of_int \<lfloor>f_val x + 1 / 2\<rfloor>" "f_wf (Round x)" "f_finite (Round x)"
    "f_key (Round x) = 0 \<Longrightarrow> Round x = f_zero"
proof -
  define i where "i = \<lfloor>f_val x\<rfloor>"
  define up where "up = f_le f_half (f_sub x (f_floor x))"
  define r where "r = (if up then f_add (f_floor x) (f_of_int 1) else f_floor x)"
  define k where "k = (if up then i + 1 else i)"
  have "f_num (f_of_int (2 ^ 52))" "f_val (f_of_int (2 ^ 52)) = 2 ^ 52" "f_num (f_abs x)"
    using f_of_int_good(2) f_val_of_int [of "2 ^ 52"] assms f_val_abs [of x] by (auto simp: f_num_def)
  then have "\<not> f_le (f_of_int (2 ^ 52)) (f_abs x)"
    using assms f_val_abs [of x] by (simp add: f_le_num not_le flip: f_val_cmp)
  then have R: "Round x = f_add r f_zero" using assms(2) by (simp add: Round_def r_def up_def)
  note fl = f_floor_val [OF assms(1,2), folded i_def]
  have b: "- (2 ^ 52) \<le> i" "i < 2 ^ 52" using assms(3) by (simp_all add: i_def le_floor_iff floor_less_iff)
  have r: "f_val r = of_int k" "f_wf r" "f_finite r" "\<bar>k\<bar> < 2 ^ 53"
    using fl b f_add_of_int [OF fl(2,3,1), of 1] by (auto simp: r_def k_def)
  have k: "k = \<lfloor>f_val x + 1 / 2\<rfloor>"
  proof (cases up)
    case True
    then have "1 / 2 \<le> f_val x - of_int \<lfloor>f_val x\<rfloor>" using half_test [OF assms(1,2)] unfolding up_def by blast
    then have "\<lfloor>f_val x\<rfloor> + 1 = \<lfloor>f_val x + 1 / 2\<rfloor>" by linarith
    then show ?thesis using True by (simp only: k_def i_def if_True)
  next
    case False
    then have "\<not> 1 / 2 \<le> f_val x - of_int \<lfloor>f_val x\<rfloor>" using half_test [OF assms(1,2)] unfolding up_def by blast
    then have "\<lfloor>f_val x\<rfloor> = \<lfloor>f_val x + 1 / 2\<rfloor>" by linarith
    then show ?thesis using False by (simp only: k_def i_def if_False)
  qed
  have z: "f_zero = f_of_int 0" by code_simp
  note a = f_add_of_int [OF r(2,3,1), of 0, folded z]
  show "f_val (Round x) = of_int \<lfloor>f_val x + 1 / 2\<rfloor>" "f_wf (Round x)" "f_finite (Round x)"
    using a r(4) k R by auto
  show "Round x = f_zero" if "f_key (Round x) = 0"
  proof -
    have "f_val (Round x) = 0" unfolding f_val_def that by simp
    moreover have "f_val (Round x) = of_int k" using a(1) r(4) R by simp
    ultimately have "f_val r = 0" by (simp only: r(1))
    then show ?thesis using r(3) unfolding R by (cases r) (auto simp: f_zero_def Let_def)
  qed
qed

lemma Round_nn [simp]:
  assumes "f_nn x"
  shows "f_nn (Round x)"
proof (cases "\<not> f_finite x \<or> f_le (f_of_int (2 ^ 52)) (f_abs x)")
  case True
  then show ?thesis using assms by (simp add: Round_def)
next
  case False
  then have x: "f_wf x" "f_finite x" "0 \<le> f_key x" using assms by (auto simp: f_nn_finite)
  have "f_num (f_of_int (2 ^ 52))" "f_val (f_of_int (2 ^ 52)) = 2 ^ 52" "f_num (f_abs x)" "f_finite (f_abs x)"
    using f_of_int_good(2) f_val_of_int [of "2 ^ 52"] x f_val_abs [of x] by (auto simp: f_num_def)
  then have "\<bar>f_val x\<bar> < 2 ^ 52"
    using False x(2) f_val_abs(1) [OF x(1)] by (simp add: f_le_num not_le flip: f_val_cmp)
  from Round_small [OF x(1,2) this] x(3) show ?thesis by (simp add: f_nn_finite flip: f_val_0(2))
qed

lemma f_wf_of_int [simp]: "f_wf (f_of_int i)"
  by (rule f_of_int_good)

lemma f_hundred [simp]: "f_finite (f_of_int 100)" "0 < f_key (f_of_int 100)" "f_nn (f_of_int 100)"
  using f_of_int_key [of 100] by (simp_all add: f_nn_finite)

lemma Round2_nn [simp]: "f_nn x \<Longrightarrow> f_nn (Round2 x)"
  unfolding Round2_def by (intro f_nn_div Round_nn f_nn_mul) simp_all

lemma f_wf_Round [simp]: "f_wf x \<Longrightarrow> f_wf (Round x)"
proof -
  assume "f_wf x"
  moreover from this have "f_wf (f_floor x)" using f_floor_val(2) [of x] by (cases x rule: f64_class) auto
  ultimately show ?thesis by (simp add: Round_def Let_def)
qed

lemma f_wf_Round2 [simp]: "f_wf x \<Longrightarrow> f_wf (Round2 x)"
  by (simp add: Round2_def)

text \<open>
  \<^verbatim>\<open>jsx.Round\<close> is JavaScript's \<^verbatim>\<open>Math.round\<close>: for every finite number below \<open>2 ^ 52\<close> in
  magnitude the result is the floor of the exact \<open>x + 1/2\<close> (halves go up, also for negative numbers),
  although the code only tests one rounded difference, and a zero result is never minus zero.
\<close>

theorem round_is_floor_half:
  assumes "f_wf x" "f_finite x" "\<bar>f_val x\<bar> < 2 ^ 52"
  shows "f_finite (Round x) \<and>
    f_val (Round x) = of_int \<lfloor>f_val x + 1 / 2\<rfloor> \<and>
    (f_val (Round x) = 0 \<longrightarrow> Round x = f_zero)"
  using Round_small [OF assms] f_val_0(1) [of "Round x"] by (intro conjI) blast+

theorem round_is_floor_half_witness: "f_val (Round (f_dec (- 25) 1)) = - 2"
proof -
  have h: "f_dec (- 25) 1 = Fin True (5 * 2 ^ 50) (- 51)" by code_simp
  have wf: "f_wf (Fin True (5 * 2 ^ 50) (- 51))" "f_finite (Fin True (5 * 2 ^ 50) (- 51))" by simp_all
  have v: "f_val (Fin True (5 * 2 ^ 50) (- 51)) = - 5 / 2" unfolding f_val_Fin [OF wf(1)] by (simp add: power_int_minus)
  have "\<lfloor>- 5 / 2 + 1 / 2 :: real\<rfloor> = - 2" by (simp add: floor_eq_iff)
  then show ?thesis using round_is_floor_half [OF wf, THEN conjunct2, THEN conjunct1] unfolding h v by simp
qed

section \<open>Collation\<close>

text \<open>\<^verbatim>\<open>utf8.DecodeRuneInString\<close>: the rune and its width; an invalid sequence is U+FFFD of width one.\<close>

definition byte_at :: "string \<Rightarrow> nat \<Rightarrow> int" where
  "byte_at s i = (if i < length s then int (of_char (s ! i)) else - 1)"

definition cont_byte :: "int \<Rightarrow> bool" where
  "cont_byte b \<longleftrightarrow> 128 \<le> b \<and> b \<le> 191"

definition decode_rune :: "string \<Rightarrow> int \<times> nat" where
  "decode_rune s =
     (let b0 = byte_at s 0; b1 = byte_at s 1; b2 = byte_at s 2; b3 = byte_at s 3;
          bad = (65533, if s = [] then 0 else 1)
      in if s = [] then bad
         else if b0 < 128 then (b0, 1)
         else if 194 \<le> b0 \<and> b0 \<le> 223 \<and> cont_byte b1 then ((b0 - 192) * 64 + (b1 - 128), 2)
         else if 224 \<le> b0 \<and> b0 \<le> 239 \<and> cont_byte b1 \<and> cont_byte b2 \<and> (b0 = 224 \<longrightarrow> 160 \<le> b1) \<and> (b0 = 237 \<longrightarrow> b1 \<le> 159)
           then ((b0 - 224) * 4096 + (b1 - 128) * 64 + (b2 - 128), 3)
         else if 240 \<le> b0 \<and> b0 \<le> 244 \<and> cont_byte b1 \<and> cont_byte b2 \<and> cont_byte b3 \<and> (b0 = 240 \<longrightarrow> 144 \<le> b1) \<and> (b0 = 244 \<longrightarrow> b1 \<le> 143)
           then ((b0 - 240) * 262144 + (b1 - 128) * 4096 + (b2 - 128) * 64 + (b3 - 128), 4)
         else bad)"

lemma decode_rune_width: "s \<noteq> [] \<Longrightarrow> 0 < snd (decode_rune s)"
  by (simp add: decode_rune_def Let_def)

function runes :: "string \<Rightarrow> int list" where
  "runes s = (if s = [] then [] else let (r, size) = decode_rune s in r # runes (drop size s))"
  by auto

termination
proof (relation "measure length", goal_cases)
  case (2 s x r size)
  then have "0 < size" using decode_rune_width [of s] by (metis snd_conv)
  then show ?case using 2(1) by simp
qed simp

declare runes.simps [simp del]

text \<open>The primary order of the ASCII characters, as byte values: whitespace, punctuation, digits; letters follow.\<close>

definition collationOrder :: "int list" where
  "collationOrder =
     [9, 10, 11, 12, 13] @ map (\<lambda>c. int (of_char c)) '' _-,;:!?.'' @ [39, 34] @
     map (\<lambda>c. int (of_char c)) ''()[]{}@*/'' @ [92] @ map (\<lambda>c. int (of_char c)) ''&#%`^+<=>|~$0123456789''"

fun index_from :: "int \<Rightarrow> int \<Rightarrow> int list \<Rightarrow> int" where
  "index_from i c [] = 0"
| "index_from i c (x # xs) = (if x = c then i else index_from (i + 1) c xs)"

definition asciiPrimary :: "int \<Rightarrow> int" where
  "asciiPrimary r =
     (let base = int (length collationOrder) + 1
      in if 97 \<le> r \<and> r \<le> 122 then base + (r - 97)
         else if 65 \<le> r \<and> r \<le> 90 then base + (r - 65)
         else index_from 1 r collationOrder)"

definition collationKey :: "int \<Rightarrow> int \<times> int" where
  "collationKey r = (if r < 128 then (asciiPrimary r, if 65 \<le> r \<and> r \<le> 90 then 1 else 0) else (1000 + r, 0))"

definition weights :: "string \<Rightarrow> (int \<times> int) list" where
  "weights s = filter (\<lambda>w. fst w \<noteq> 0) (map collationKey (runes s))"

fun cmp_primary :: "(int \<times> int) list \<Rightarrow> (int \<times> int) list \<Rightarrow> int" where
  "cmp_primary (x # xs) (y # ys) = (if fst x \<noteq> fst y then (if fst x < fst y then - 1 else 1) else cmp_primary xs ys)"
| "cmp_primary _ _ = 0"

fun cmp_tertiary :: "(int \<times> int) list \<Rightarrow> (int \<times> int) list \<Rightarrow> int" where
  "cmp_tertiary (x # xs) (y # ys) = (if snd x \<noteq> snd y then (if snd x < snd y then - 1 else 1) else cmp_tertiary xs ys)"
| "cmp_tertiary _ _ = 0"

definition LocaleCompare :: "string \<Rightarrow> string \<Rightarrow> int" where
  "LocaleCompare a b =
     (let wa = weights a; wb = weights b; p = cmp_primary wa wb
      in if p \<noteq> 0 then p
         else if length wa \<noteq> length wb then (if length wa < length wb then - 1 else 1)
         else cmp_tertiary wa wb)"

text \<open>The collation key: the primary weights, then the tertiary ones, compared lexicographically.\<close>

definition collation :: "string \<Rightarrow> int list \<times> int list" where
  "collation s = (map fst (weights s), map snd (weights s))"

definition cmp3 :: "'a :: linorder \<Rightarrow> 'a \<Rightarrow> int" where
  "cmp3 a b = (if a < b then - 1 else if b < a then 1 else 0)"

lemma Nil_less_map: "([] < map f xs) = (xs \<noteq> [])"
  by (cases xs) simp_all

lemma cmp_primary_lex:
  "(if cmp_primary a b \<noteq> 0 then cmp_primary a b else if length a \<noteq> length b then (if length a < length b then - 1 else 1) else 0) =
   cmp3 (map fst a) (map fst b)"
proof (induction a b rule: cmp_primary.induct)
  case (1 x xs y ys)
  show ?case
  proof (cases "fst x = fst y")
    case True
    then have "cmp3 (map fst (x # xs)) (map fst (y # ys)) = cmp3 (map fst xs) (map fst ys)" by (simp add: cmp3_def)
    with 1 True show ?thesis by (simp split: if_splits)
  qed (auto simp: cmp3_def)
next
  case "2_1"
  then show ?case by (simp add: cmp3_def Nil_less_map)
next
  case "2_2"
  then show ?case by (simp add: cmp3_def Nil_less_map)
qed

lemma cmp_tertiary_lex: "length a = length b \<Longrightarrow> cmp_tertiary a b = cmp3 (map snd a) (map snd b)"
  by (induction a b rule: cmp_tertiary.induct) (auto simp: cmp3_def)

lemma LocaleCompare_key:
  "LocaleCompare a b = (if cmp3 (fst (collation a)) (fst (collation b)) \<noteq> 0 then cmp3 (fst (collation a)) (fst (collation b))
     else cmp3 (snd (collation a)) (snd (collation b)))"
proof -
  let ?a = "weights a" and ?b = "weights b"
  note p = cmp_primary_lex [of ?a ?b]
  show ?thesis
  proof (cases "cmp_primary ?a ?b \<noteq> 0 \<or> length ?a \<noteq> length ?b")
    case True
    then show ?thesis using p by (auto simp: LocaleCompare_def Let_def collation_def split: if_splits)
  next
    case False
    then show ?thesis using p cmp_tertiary_lex [of ?a ?b] by (simp add: LocaleCompare_def Let_def collation_def)
  qed
qed

lemma LocaleCompare_collation:
  "LocaleCompare a b < 0 \<longleftrightarrow> collation a < collation b" "LocaleCompare a b = 0 \<longleftrightarrow> collation a = collation b"
proof -
  obtain p t q u where c: "collation a = (p, t)" "collation b = (q, u)" by fastforce
  show "LocaleCompare a b < 0 \<longleftrightarrow> collation a < collation b"
    unfolding LocaleCompare_key c fst_conv snd_conv less_prod_simp cmp3_def
    by (cases p q rule: linorder_cases; cases t u rule: linorder_cases) (auto dest: less_asym)
  show "LocaleCompare a b = 0 \<longleftrightarrow> collation a = collation b"
    unfolding LocaleCompare_key c fst_conv snd_conv prod.inject cmp3_def
    by (cases p q rule: linorder_cases; cases t u rule: linorder_cases) (auto dest: less_asym)
qed

end
