(* ===== verification/JsFmt.thy ===== *)
theory JsFmt
  imports JsNum
begin

text \<open>
  Text helpers of the synthetic scanner (\<^verbatim>\<open>internal/synthetic/jsfmt.go\<close>): JavaScript's
  formatting of a number, whole rupees with Indian grouping, and the settlement instant of an
  expiry day. \<^verbatim>\<open>strconv.FormatFloat\<close> with precision \<open>-1\<close> is the search for the shortest
  decimal that reads back as the same number (the closer one where two of that length do;
  seventeen digits always suffice).
\<close>

section \<open>Decimal digits\<close>

function dec_string :: "int \<Rightarrow> string" where
  "dec_string n = (if n < 10 then [digit n] else dec_string (n div 10) @ [digit n])"
  by auto

termination
  by (relation "measure nat") auto

declare dec_string.simps [simp del]

text \<open>The decimal exponent \<open>p\<close> with \<open>10 ^ (p - 1) \<le> n / d < 10 ^ p\<close>.\<close>

function dec_up :: "int \<Rightarrow> int \<Rightarrow> int \<Rightarrow> int" where
  "dec_up n d p = (if n < d \<or> d \<le> 0 then p else dec_up n (10 * d) (p + 1))"
  by auto

termination
  by (relation "measure (\<lambda>(n, d, p). nat (n + 1 - d))") auto

function dec_down :: "int \<Rightarrow> int \<Rightarrow> int \<Rightarrow> int" where
  "dec_down n d p = (if d \<le> 10 * n \<or> n \<le> 0 then p else dec_down (10 * n) d (p - 1))"
  by auto

termination
  by (relation "measure (\<lambda>(n, d, p). nat (d - n))") auto

declare dec_up.simps [simp del] dec_down.simps [simp del]

definition dec_exp :: "int \<Rightarrow> int \<Rightarrow> int" where
  "dec_exp n d = (if d \<le> n then dec_up n d 0 else dec_down n d 0)"

text \<open>The number nearest to \<open>c * 10 ^ q\<close>.\<close>

definition read_dec :: "int \<Rightarrow> int \<Rightarrow> f64" where
  "read_dec c q = (if 0 \<le> q then f_round False (c * 10 ^ nat q) 1 else f_round False c (10 ^ nat (- q)))"

text \<open>The \<open>k\<close>-digit decimals around \<open>n / d\<close>, the closer first; \<open>p\<close> is the decimal exponent.\<close>

definition candidates :: "int \<Rightarrow> int \<Rightarrow> int \<Rightarrow> nat \<Rightarrow> int list" where
  "candidates n d p k =
     (let q = int k - p; n' = n * 10 ^ nat q; d' = d * 10 ^ nat (- q); lo = n' div d'; r = n' mod d'
      in if 2 * r < d' \<or> (2 * r = d' \<and> even lo) then [lo, lo + 1] else [lo + 1, lo])"

fun search_digits :: "f64 \<Rightarrow> int \<Rightarrow> int \<Rightarrow> int \<Rightarrow> nat list \<Rightarrow> int \<times> int" where
  "search_digits x n d p [] = (hd (candidates n d p 17), p - 17)"
| "search_digits x n d p (k # ks) =
     (case filter (\<lambda>c. read_dec c (p - int k) = x) (candidates n d p k) of
        c # _ \<Rightarrow> (c, p - int k)
      | [] \<Rightarrow> search_digits x n d p ks)"

function strip_zeros :: "int \<Rightarrow> int \<Rightarrow> int \<times> int" where
  "strip_zeros c q = (if c \<le> 0 \<or> c mod 10 \<noteq> 0 then (c, q) else strip_zeros (c div 10) (q + 1))"
  by auto

termination
  by (relation "measure (\<lambda>(c, q). nat c)") auto

declare strip_zeros.simps [simp del]

text \<open>The significand and exponent of the shortest decimal: \<open>|x|\<close> is printed as \<open>c * 10 ^ q\<close>.\<close>

fun shortest :: "f64 \<Rightarrow> int \<times> int" where
  "shortest (Fin s m e) =
     (let n = m * pow2 e; d = pow2 (- e); p = dec_exp n d
      in (\<lambda>(c, q). strip_zeros c q) (search_digits (Fin False m e) n d p [1..<18]))"
| "shortest _ = (0, 0)"

text \<open>Digits and the position of the decimal point: \<open>|x| = 0.d1d2\<dots> * 10 ^ n\<close>.\<close>

definition shortestDigits :: "f64 \<Rightarrow> string \<times> int" where
  "shortestDigits x = (let (c, q) = shortest x; ds = dec_string c in (ds, int (length ds) + q))"

definition signed_string :: "int \<Rightarrow> string" where
  "signed_string e = (if e < 0 then ''-'' @ dec_string (- e) else dec_string e)"

definition jsNumberString :: "f64 \<Rightarrow> string" where
  "jsNumberString x =
     (if is_nan x then ''NaN''
      else if x = Inf False then ''Infinity''
      else if x = Inf True then ''-Infinity''
      else if f_eq x f_zero then ''0''
      else let sign = (if f_lt x f_zero then ''-'' else '''');
               (digits, n) = shortestDigits x;
               k = int (length digits)
        in if k \<le> n \<and> n \<le> 21 then sign @ digits @ replicate (nat (n - k)) (CHR ''0'')
           else if 0 < n \<and> n \<le> 21 then sign @ take (nat n) digits @ ''.'' @ drop (nat n) digits
           else if - 6 < n \<and> n \<le> 0 then sign @ ''0.'' @ replicate (nat (- n)) (CHR ''0'') @ digits
           else let e = n - 1; es = (if e < 0 then signed_string e else ''+'' @ signed_string e)
             in if k = 1 then sign @ digits @ ''e'' @ es
                else sign @ take 1 digits @ ''.'' @ drop 1 digits @ ''e'' @ es)"

section \<open>Whole rupees\<close>

function group_pairs :: "string \<Rightarrow> string list \<Rightarrow> string list" where
  "group_pairs head groups =
     (if 2 < length head then group_pairs (take (length head - 2) head) (drop (length head - 2) head # groups)
      else if head \<noteq> '''' then head # groups else groups)"
  by auto

termination
  by (relation "measure (\<lambda>(h, g). length h)") auto

declare group_pairs.simps [simp del]

fun join :: "string \<Rightarrow> string list \<Rightarrow> string" where
  "join sep [] = ''''"
| "join sep [x] = x"
| "join sep (x # y # xs) = x @ sep @ join sep (y # xs)"

definition infinity_sign :: string where
  "infinity_sign = [CHR 0xE2, CHR 0x88, CHR 0x9E]"

definition formatRoundedENIN :: "f64 \<Rightarrow> string" where
  "formatRoundedENIN x =
     (if is_nan x then ''NaN''
      else if x = Inf False then infinity_sign
      else if x = Inf True then ''-'' @ infinity_sign
      else let r = Round x;
               neg = (f_lt r f_zero \<or> f_eq r f_zero \<and> (f_lt x f_zero \<or> f_signbit x))
        in if f_eq r f_zero then (if neg then ''-0'' else ''0'')
           else let (digits, n) = shortestDigits r;
                    digits = (if int (length digits) < n then digits @ replicate (nat (n - int (length digits))) (CHR ''0'') else digits);
                    out = (if length digits \<le> 3 then digits
                      else join '','' (group_pairs (take (length digits - 3) digits) []) @ '','' @ drop (length digits - 3) digits)
             in if neg then ''-'' @ out else out)"

section \<open>The settlement instant\<close>

definition is_digit :: "char \<Rightarrow> bool" where
  "is_digit c \<longleftrightarrow> CHR ''0'' \<le> c \<and> c \<le> CHR ''9''"

definition digits_value :: "string \<Rightarrow> int option" where
  "digits_value s = (if list_all is_digit s then Some (foldl (\<lambda>n c. n * 10 + (int (of_char c) - 48)) 0 s) else None)"

definition jsDateParseDayAt10Z :: "string \<Rightarrow> millis option" where
  "jsDateParseDayAt10Z day =
     (if length day \<noteq> 10 \<or> day ! 4 \<noteq> CHR ''-'' \<or> day ! 7 \<noteq> CHR ''-'' then None
      else case (digits_value (take 4 day), digits_value (take 2 (drop 5 day)), digits_value (drop 8 day)) of
          (Some y, Some m, Some d) \<Rightarrow>
            if m < 1 \<or> m > 12 \<or> d < 1 \<or> d > 31 then None
            else Some (day_of_date y m d * dayMs + 10 * hourMs)
        | _ \<Rightarrow> None)"

end
