(* ===== verification/RateCard.thy ===== *)
theory RateCard
  imports JsNum Market
begin

text \<open>
  The charge calculator (\<^verbatim>\<open>internal/ratecard\<close>): one rate card, the rounding of the
  transaction tax, the investor-protection charge and the contract note of one order.
  Loading the card from the environment is left to the configuration package. The
  theorem shows that with rates and a turnover that are not negative no head of a
  note is ever a credit and that the tax of the other side is exactly zero.
\<close>

section \<open>Cards, orders and notes\<close>

datatype side = Buy | Sell

record rates =
  BrokeragePerOrder :: f64
  BrokerageMaxPct :: f64
  SttSellPct :: f64
  SttRoundNearestRupee :: bool
  ExchangeTxnPct :: f64
  IpftPerCrore :: f64
  IpftPct :: f64
  SebiPct :: f64
  StampDutyBuyPct :: f64
  GstPct :: f64
  SttType :: string
  RateVersion :: string

record order =
  o_Side :: side
  o_Tradingsymbol :: string
  o_Quantity :: f64
  o_Price :: f64

record leg_note =
  n_Side :: side
  n_Tradingsymbol :: string
  n_Quantity :: f64
  n_Price :: f64
  n_Value :: f64
  n_Brokerage :: f64
  n_Stt :: f64
  n_SttType :: string
  n_ExchangeTxn :: f64
  n_Sebi :: f64
  n_StampDuty :: f64
  n_Gst :: f64
  n_Total :: f64

section \<open>Charges\<close>

definition pct :: "f64 \<Rightarrow> f64 \<Rightarrow> f64" where
  "pct value percent = f_div (f_mul value percent) (f_of_int 100)"

definition RoundStt :: "f64 \<Rightarrow> rates \<Rightarrow> f64" where
  "RoundStt value r = (if SttRoundNearestRupee r then Round value else Round2 value)"

definition IPFT :: "f64 \<Rightarrow> rates \<Rightarrow> f64" where
  "IPFT value r =
     (let perCrore = f_div (f_mul value (IpftPerCrore r)) (f_of_int 10000000)
      in Round2 (f_add perCrore (pct value (IpftPct r))))"

definition LegCharges :: "order \<Rightarrow> rates \<Rightarrow> leg_note" where
  "LegCharges ord r =
     (let value = Round2 (f_mul (o_Quantity ord) (o_Price ord));
          cap = (if f_pos (BrokerageMaxPct r) then pct value (BrokerageMaxPct r) else Inf False);
          brokerage = Round2 (f_min (BrokeragePerOrder r) cap);
          stt = (if o_Side ord = Sell then RoundStt (pct value (SttSellPct r)) r else f_zero);
          sttType = (if o_Side ord = Sell then SttType r else '''');
          exchange = Round2 (f_add (pct value (ExchangeTxnPct r)) (IPFT value r));
          sebi = Round2 (pct value (SebiPct r));
          stamp = (if o_Side ord = Buy then Round2 (pct value (StampDutyBuyPct r)) else f_zero);
          gst = Round2 (pct (f_add (f_add brokerage exchange) sebi) (GstPct r))
      in \<lparr>n_Side = o_Side ord, n_Tradingsymbol = o_Tradingsymbol ord, n_Quantity = o_Quantity ord,
          n_Price = Round2 (o_Price ord), n_Value = value, n_Brokerage = brokerage, n_Stt = stt,
          n_SttType = sttType, n_ExchangeTxn = exchange, n_Sebi = sebi, n_StampDuty = stamp, n_Gst = gst,
          n_Total = Round2 (f_add (f_add (f_add (f_add (f_add brokerage stt) exchange) sebi) stamp) gst)\<rparr>)"

section \<open>Charges are never credits\<close>

definition rates_nn :: "rates \<Rightarrow> bool" where
  "rates_nn r \<longleftrightarrow> f_nn (BrokeragePerOrder r) \<and> f_nn (BrokerageMaxPct r) \<and> f_nn (SttSellPct r) \<and> f_nn (ExchangeTxnPct r) \<and>
     f_nn (IpftPerCrore r) \<and> f_nn (IpftPct r) \<and> f_nn (SebiPct r) \<and> f_nn (StampDutyBuyPct r) \<and> f_nn (GstPct r)"

lemma f_crore [simp]: "f_finite (f_of_int 10000000)" "0 < f_key (f_of_int 10000000)"
  using f_of_int_key [of 10000000] by simp_all

lemma pct_nn [simp]: "f_nn v \<Longrightarrow> f_nn p \<Longrightarrow> f_nn (pct v p)"
  by (simp add: pct_def)

lemma RoundStt_nn [simp]: "f_nn v \<Longrightarrow> f_nn (RoundStt v r)"
  by (simp add: RoundStt_def)

lemma IPFT_nn [simp]: "f_nn v \<Longrightarrow> rates_nn r \<Longrightarrow> f_nn (IPFT v r)"
  by (simp add: IPFT_def Let_def rates_nn_def)

lemma LegCharges_heads:
  assumes "rates_nn r" "f_nn (o_Quantity ord)" "f_nn (o_Price ord)"
  shows "f_nn (n_Value (LegCharges ord r))" "f_nn (n_Brokerage (LegCharges ord r))" "f_nn (n_Stt (LegCharges ord r))"
    "f_nn (n_ExchangeTxn (LegCharges ord r))" "f_nn (n_Sebi (LegCharges ord r))" "f_nn (n_StampDuty (LegCharges ord r))"
    "f_nn (n_Gst (LegCharges ord r))" "f_nn (n_Total (LegCharges ord r))"
  using assms by (simp_all add: LegCharges_def Let_def rates_nn_def)

text \<open>
  With rates, quantity and price that are not negative, no head of a contract note is ever a
  credit (nor is the total), a buy pays no transaction tax and a sell no stamp duty.
\<close>

theorem legCharges_no_credit:
  assumes "rates_nn r" "f_nn (o_Quantity ord)" "f_nn (o_Price ord)"
  shows "\<forall>head \<in> {n_Value, n_Brokerage, n_Stt, n_ExchangeTxn, n_Sebi, n_StampDuty, n_Gst, n_Total}. \<not> f_lt (head (LegCharges ord r)) f_zero"
    and "n_Side (LegCharges ord r) = Buy \<longrightarrow> n_Stt (LegCharges ord r) = f_zero"
    and "n_Side (LegCharges ord r) = Sell \<longrightarrow> n_StampDuty (LegCharges ord r) = f_zero"
  using LegCharges_heads [OF assms, THEN f_nn_not_lt] by (auto simp: LegCharges_def Let_def)

definition demo_rates :: rates where
  "demo_rates = \<lparr>BrokeragePerOrder = f_of_int 20, BrokerageMaxPct = f_zero, SttSellPct = f_dec 15 2, SttRoundNearestRupee = True,
     ExchangeTxnPct = f_dec 3503 5, IpftPerCrore = f_of_int 50, IpftPct = f_zero, SebiPct = f_dec 1 4, StampDutyBuyPct = f_dec 3 3,
     GstPct = f_of_int 18, SttType = ''stt'', RateVersion = ''zerodha-nse-options-2026-04-01''\<rparr>"

definition f_nn_code :: "f64 \<Rightarrow> bool" where
  "f_nn_code x \<longleftrightarrow> f_wf x \<and> (x = NaN \<or> 0 \<le> f_key x)"

lemma f_nn_code: "f_nn x = f_nn_code x"
  by (simp add: f_nn_def f_nn_code_def)

lemma demo_rates_nn: "rates_nn demo_rates"
  unfolding rates_nn_def f_nn_code by code_simp

theorem legCharges_no_credit_witness:
  "f_eq (n_Stt (LegCharges \<lparr>o_Side = Sell, o_Tradingsymbol = ''X'', o_Quantity = f_of_int 75, o_Price = f_dec 10005 2\<rparr> demo_rates)) (f_of_int 11) \<and>
   n_StampDuty (LegCharges \<lparr>o_Side = Sell, o_Tradingsymbol = ''X'', o_Quantity = f_of_int 75, o_Price = f_dec 10005 2\<rparr> demo_rates) = f_zero"
proof -
  let ?o = "\<lparr>o_Side = Sell, o_Tradingsymbol = ''X'', o_Quantity = f_of_int 75, o_Price = f_dec 10005 2\<rparr>"
  have "f_nn (o_Quantity ?o)" "f_nn (o_Price ?o)" unfolding f_nn_code by code_simp+
  from legCharges_no_credit(3) [OF demo_rates_nn this] have "n_StampDuty (LegCharges ?o demo_rates) = f_zero"
    by (simp add: LegCharges_def Let_def)
  moreover have "f_eq (n_Stt (LegCharges ?o demo_rates)) (f_of_int 11)" by code_simp
  ultimately show ?thesis by blast
qed

end
