(* ===== verification/QuoteBook.thy ===== *)
theory QuoteBook
  imports JsNum Market
begin

text \<open>
  The executable order-book store (\<^verbatim>\<open>internal/quotes\<close>): the newest book per token, its
  sanitised ladders, the counters, listeners and the invalidations, the spot store, and the
  strike-window helpers. The store's map is an association list with one entry per token. A
  listener is the identity of its subscription; a batch returns the listeners it
  notifies, in order, with what they are told.

  The properties: in every reachable store each book has at most five levels a side, all with
  a positive finite price and a positive whole quantity, best first, and at least one level;
  versions are unique; and what a batch leaves for a token is decided by the last
  authoritative tick of that token alone.
\<close>

section \<open>Books and the store\<close>

record quote =
  q_Token :: token
  q_Bid :: f64
  q_BidQty :: f64
  q_Ask :: f64
  q_AskQty :: f64
  q_Last :: f64
  q_Bids :: "depth_level list"
  q_Asks :: "depth_level list"
  q_Version :: int
  q_At :: millis
  q_ExchangeAt :: "millis option"
  q_Source :: string

record diagnostics =
  AuthoritativeObservations :: nat
  UsableBookUpdates :: nat
  DepthlessIgnored :: nat
  EmptyInvalidations :: nat
  MalformedLevelsDropped :: nat
  GenerationInvalidations :: nat
  ReadyBooks :: nat

record store =
  st_quotes :: "(token \<times> quote) list"
  st_updates :: nat
  st_lastUpdate :: "millis option"
  st_nextVersion :: int
  st_listeners :: "nat list"
  st_nextListener :: nat
  st_diag :: diagnostics

definition NewStore :: store where
  "NewStore = \<lparr>st_quotes = [], st_updates = 0, st_lastUpdate = None, st_nextVersion = 1, st_listeners = [],
     st_nextListener = 0, st_diag = \<lparr>AuthoritativeObservations = 0, UsableBookUpdates = 0, DepthlessIgnored = 0,
       EmptyInvalidations = 0, MalformedLevelsDropped = 0, GenerationInvalidations = 0, ReadyBooks = 0\<rparr>\<rparr>"

definition store_Size :: "store \<Rightarrow> nat" where
  "store_Size s = length (st_quotes s)"

definition UpdateCount :: "store \<Rightarrow> nat" where
  "UpdateCount s = st_updates s"

definition LastUpdateAt :: "store \<Rightarrow> millis option" where
  "LastUpdateAt s = st_lastUpdate s"

definition book_get :: "store \<Rightarrow> token \<Rightarrow> quote option" where
  "book_get s t = map_of (st_quotes s) t"

definition store_View :: "store \<Rightarrow> (token \<times> quote) list" where
  "store_View s = st_quotes s"

definition Subscribe :: "store \<Rightarrow> store \<times> nat" where
  "Subscribe s = (s\<lparr>st_listeners := st_listeners s @ [st_nextListener s], st_nextListener := st_nextListener s + 1\<rparr>, st_nextListener s)"

definition unsubscribe :: "store \<Rightarrow> nat \<Rightarrow> store" where
  "unsubscribe s l = s\<lparr>st_listeners := remove1 l (st_listeners s)\<rparr>"

definition ListenerCount :: "store \<Rightarrow> nat" where
  "ListenerCount s = length (st_listeners s)"

definition store_Diagnostics :: "store \<Rightarrow> diagnostics" where
  "store_Diagnostics s = (st_diag s)\<lparr>ReadyBooks := length (st_quotes s)\<rparr>"

definition book_IsFresh :: "store \<Rightarrow> token \<Rightarrow> int \<Rightarrow> millis \<Rightarrow> bool" where
  "book_IsFresh s t maxAgeMs nowMs = (case book_get s t of None \<Rightarrow> False | Some q \<Rightarrow> nowMs - q_At q \<le> maxAgeMs)"

section \<open>Sanitising a ladder\<close>

definition safeInteger :: "f64 \<Rightarrow> bool" where
  "safeInteger x \<longleftrightarrow> f_eq x (f_truncate x) \<and> f_le (f_abs x) (f_of_int 9007199254740991)"

definition level_ok :: "depth_level \<Rightarrow> bool" where
  "level_ok l \<longleftrightarrow> \<not> (\<not> f_finite (dl_Price l) \<or> f_le (dl_Price l) f_zero \<or> \<not> f_finite (dl_Qty l) \<or>
     \<not> safeInteger (dl_Qty l) \<or> f_le (dl_Qty l) f_zero)"

definition clean_level :: "depth_level \<Rightarrow> depth_level" where
  "clean_level l = \<lparr>dl_Price = dl_Price l, dl_Qty = dl_Qty l,
     dl_Orders = (if f_finite (dl_Orders l) \<and> f_le f_zero (dl_Orders l) then f_floor (dl_Orders l) else f_zero)\<rparr>"

definition better :: "bool \<Rightarrow> depth_level \<Rightarrow> depth_level \<Rightarrow> bool" where
  "better isBid a b = (if isBid then f_lt (dl_Price b) (dl_Price a) else f_lt (dl_Price a) (dl_Price b))"

definition sanitize :: "depth_level list option \<Rightarrow> bool \<Rightarrow> depth_level list \<times> nat" where
  "sanitize levels isBid =
     (let ls = (case levels of None \<Rightarrow> [] | Some ls \<Rightarrow> ls);
          valid = map clean_level (filter level_ok ls)
      in (take 5 (sort_lt (better isBid) valid), length (filter (\<lambda>l. \<not> level_ok l) ls)))"

section \<open>Applying ticks\<close>

definition authoritative :: "tick \<Rightarrow> bool" where
  "authoritative t \<longleftrightarrow>
     (let supplied = (t_Bids t \<noteq> None \<or> t_Asks t \<noteq> None)
      in t_DepthUpdated t = Some True \<or> t_DepthUpdated t = None \<and> supplied)"

definition top_price :: "depth_level list \<Rightarrow> f64" where
  "top_price ls = (case ls of [] \<Rightarrow> f_zero | l # _ \<Rightarrow> dl_Price l)"

definition qty_at :: "f64 \<Rightarrow> depth_level list \<Rightarrow> f64" where
  "qty_at p ls = foldl (\<lambda>q l. if f_eq (dl_Price l) p then f_add q (dl_Qty l) else q) f_zero ls"

definition book_of :: "tick \<Rightarrow> depth_level list \<Rightarrow> depth_level list \<Rightarrow> int \<Rightarrow> millis \<Rightarrow> quote" where
  "book_of t bids asks version atMs =
     \<lparr>q_Token = t_Token t, q_Bid = top_price bids, q_BidQty = qty_at (top_price bids) bids,
      q_Ask = top_price asks, q_AskQty = qty_at (top_price asks) asks,
      q_Last = (if f_finite (t_LastPrice t) then t_LastPrice t else f_zero),
      q_Bids = bids, q_Asks = asks, q_Version = version, q_At = atMs,
      q_ExchangeAt = (case t_ExchangeTS t of Some x \<Rightarrow> if x > 0 then Some x else None | None \<Rightarrow> None),
      q_Source = ''ws''\<rparr>"

definition count_dropped :: "nat \<Rightarrow> store \<Rightarrow> store" where
  "count_dropped n s = s\<lparr>st_diag := (st_diag s)\<lparr>MalformedLevelsDropped := MalformedLevelsDropped (st_diag s) + n\<rparr>\<rparr>"

text \<open>One tick of the batch: the store and the tokens changed so far.\<close>

definition apply_tick :: "millis \<Rightarrow> tick \<Rightarrow> store \<times> token list \<Rightarrow> store \<times> token list" where
  "apply_tick atMs t sc =
     (let (s, changed) = sc
      in if \<not> authoritative t
         then (s\<lparr>st_diag := (st_diag s)\<lparr>DepthlessIgnored := DepthlessIgnored (st_diag s) + 1\<rparr>\<rparr>, changed)
         else
           let (bids, d1) = sanitize (t_Bids t) True;
               (asks, d2) = sanitize (t_Asks t) False;
               s = s\<lparr>st_diag := (st_diag s)\<lparr>AuthoritativeObservations := AuthoritativeObservations (st_diag s) + 1\<rparr>\<rparr>;
               s = count_dropped (d1 + d2) s;
               s = s\<lparr>st_updates := st_updates s + 1, st_lastUpdate := Some atMs\<rparr>;
               changed = changed @ [t_Token t]
           in if bids = [] \<and> asks = []
              then (s\<lparr>st_quotes := AList.delete (t_Token t) (st_quotes s),
                      st_diag := (st_diag s)\<lparr>EmptyInvalidations := EmptyInvalidations (st_diag s) + 1\<rparr>,
                      st_nextVersion := st_nextVersion s + 1\<rparr>, changed)
              else (s\<lparr>st_quotes := AList.update (t_Token t) (book_of t bids asks (st_nextVersion s) atMs) (st_quotes s),
                      st_nextVersion := st_nextVersion s + 1,
                      st_diag := (st_diag s)\<lparr>UsableBookUpdates := UsableBookUpdates (st_diag s) + 1\<rparr>\<rparr>, changed))"

text \<open>The batch: the store, the changed tokens, and the listeners called (a snapshot, each guarded by \<^verbatim>\<open>recover\<close>).\<close>

definition ApplyTicks :: "store \<Rightarrow> tick list \<Rightarrow> millis \<Rightarrow> store \<times> token list \<times> (nat \<times> token list \<times> millis) list" where
  "ApplyTicks s ticks atMs =
     (let (s', changed) = fold (apply_tick atMs) ticks (s, [])
      in (s', changed, if changed \<noteq> [] then map (\<lambda>l. (l, changed, atMs)) (st_listeners s') else []))"

definition Forget :: "store \<Rightarrow> token list \<Rightarrow> store" where
  "Forget s tokens = s\<lparr>st_quotes := fold AList.delete tokens (st_quotes s)\<rparr>"

definition store_Clear :: "store \<Rightarrow> store" where
  "store_Clear s = s\<lparr>st_quotes := [], st_lastUpdate := None\<rparr>"

definition InvalidateGeneration :: "store \<Rightarrow> store" where
  "InvalidateGeneration s =
     store_Clear (s\<lparr>st_diag := (st_diag s)\<lparr>GenerationInvalidations := GenerationInvalidations (st_diag s) + 1\<rparr>\<rparr>)"

section \<open>Spots\<close>

record spot =
  sp_Value :: f64
  sp_At :: millis

type_synonym spot_store = "(token \<times> spot) list"

definition spot_Set :: "spot_store \<Rightarrow> token \<Rightarrow> f64 \<Rightarrow> millis \<Rightarrow> spot_store" where
  "spot_Set s t value atMs = (if \<not> f_pos value then s else AList.update t \<lparr>sp_Value = value, sp_At = atMs\<rparr> s)"

definition spot_Get :: "spot_store \<Rightarrow> token \<Rightarrow> spot option" where
  "spot_Get s t = map_of s t"

definition spot_IsFresh :: "spot_store \<Rightarrow> token \<Rightarrow> int \<Rightarrow> millis \<Rightarrow> bool" where
  "spot_IsFresh s t maxAgeMs nowMs = (case spot_Get s t of None \<Rightarrow> False | Some v \<Rightarrow> nowMs - sp_At v \<le> maxAgeMs)"

definition spot_Clear :: "spot_store \<Rightarrow> spot_store" where
  "spot_Clear s = []"

section \<open>Strike windows\<close>

text \<open>\<^verbatim>\<open>sort.Float64s\<close> puts NaN first.\<close>

definition float_less :: "f64 \<Rightarrow> f64 \<Rightarrow> bool" where
  "float_less a b \<longleftrightarrow> f_lt a b \<or> is_nan a \<and> \<not> is_nan b"

fun unique_acc :: "f64 list \<Rightarrow> f64 list \<Rightarrow> f64 list" where
  "unique_acc out [] = out"
| "unique_acc out (s # ss) = unique_acc (if list_ex (f_eq s) out then out else out @ [s]) ss"

definition uniqueSorted :: "f64 list \<Rightarrow> f64 list" where
  "uniqueSorted strikes = sort_lt float_less (unique_acc [] strikes)"

definition nearer :: "f64 \<Rightarrow> f64 \<Rightarrow> f64 \<times> f64 \<Rightarrow> f64 \<times> f64" where
  "nearer spot s bd = (let d = f_abs (f_sub s spot) in if f_lt d (snd bd) then (s, d) else bd)"

definition AtmStrike :: "f64 list \<Rightarrow> f64 \<Rightarrow> f64 option" where
  "AtmStrike strikes spot =
     (case sort_lt float_less strikes of
        [] \<Rightarrow> None
      | s0 # ss \<Rightarrow> Some (fst (fold (nearer spot) (s0 # ss) (s0, f_abs (f_sub s0 spot)))))"

fun gaps :: "f64 list \<Rightarrow> f64 list" where
  "gaps (a # b # xs) = f_sub b a # gaps (b # xs)"
| "gaps _ = []"

definition StrikeStep :: "f64 list \<Rightarrow> f64" where
  "StrikeStep strikes =
     (let sorted = uniqueSorted strikes
      in if length sorted < 2 then f_zero
         else let g = sort_lt float_less (gaps sorted) in g ! (length g div 2))"

text \<open>\<^verbatim>\<open>sort.SearchFloat64s\<close> on a sorted slice: the first index whose element is not below the target.\<close>

definition SearchFloat64s :: "f64 list \<Rightarrow> f64 \<Rightarrow> nat" where
  "SearchFloat64s xs v = length (takeWhile (\<lambda>x. \<not> f_le v x) xs)"

definition SelectStrikeWindow :: "f64 list \<Rightarrow> f64 \<Rightarrow> nat \<Rightarrow> (f64 \<times> f64 list) option" where
  "SelectStrikeWindow strikes spot eachSide =
     (let sorted = uniqueSorted strikes
      in case AtmStrike sorted spot of
           None \<Rightarrow> None
         | Some atm \<Rightarrow>
             let idx = SearchFloat64s sorted atm; lo = idx - eachSide; hi = min (length sorted - 1) (idx + eachSide)
             in Some (atm, take (hi + 1 - lo) (drop lo sorted)))"

definition ShouldRecentreWindow :: "f64 \<Rightarrow> f64 \<Rightarrow> f64 \<Rightarrow> f64 \<Rightarrow> bool" where
  "ShouldRecentreWindow currentAtm spot strikeStep hysteresis =
     (if \<not> f_pos strikeStep then False
      else f_lt (f_mul strikeStep (f_add f_half hysteresis)) (f_abs (f_sub spot currentAtm)))"

section \<open>Ladders are best first\<close>

definition price_rank :: "bool \<Rightarrow> depth_level \<Rightarrow> int" where
  "price_rank isBid l = (if isBid then - f_key (dl_Price l) else f_key (dl_Price l))"

definition level_wf :: "depth_level \<Rightarrow> bool" where
  "level_wf l \<longleftrightarrow> f_wf (dl_Price l) \<and> f_wf (dl_Qty l)"

text \<open>A usable level: a positive finite price and a positive quantity that is a safe integer.\<close>

definition level_good :: "depth_level \<Rightarrow> bool" where
  "level_good l \<longleftrightarrow> f_wf (dl_Price l) \<and> f_finite (dl_Price l) \<and> f_pos (dl_Price l) \<and>
     f_wf (dl_Qty l) \<and> f_finite (dl_Qty l) \<and> safeInteger (dl_Qty l) \<and> f_pos (dl_Qty l)"

definition ladder_ok :: "bool \<Rightarrow> depth_level list \<Rightarrow> bool" where
  "ladder_ok isBid ls \<longleftrightarrow> length ls \<le> 5 \<and> list_all level_good ls \<and> sorted_wrt (\<lambda>a b. price_rank isBid a \<le> price_rank isBid b) ls"

definition tick_wf :: "tick \<Rightarrow> bool" where
  "tick_wf t \<longleftrightarrow> (\<forall>ls. t_Bids t = Some ls \<longrightarrow> list_all level_wf ls) \<and> (\<forall>ls. t_Asks t = Some ls \<longrightarrow> list_all level_wf ls)"

lemma not_f_le_zero: "f_finite x \<Longrightarrow> \<not> f_le x f_zero \<longleftrightarrow> f_pos x"
  by (cases x) (auto simp: f_le_def is_nan_def f_zero_def)

lemma clean_level_good: "level_wf l \<Longrightarrow> level_ok l \<Longrightarrow> level_good (clean_level l)"
  by (auto simp: level_wf_def level_ok_def level_good_def clean_level_def not_f_le_zero)

lemma better_rank:
  "level_good a \<Longrightarrow> level_good b \<Longrightarrow> better isBid a b \<longleftrightarrow> price_rank isBid a < price_rank isBid b"
  by (auto simp: better_def price_rank_def level_good_def f_lt_num f_num_finite)

lemma sorted_wrt_takeI: "sorted_wrt R xs \<Longrightarrow> sorted_wrt R (take n xs)"
  by (metis append_take_drop_id sorted_wrt_append)

lemma sanitize_eq:
  "fst (sanitize levels isBid) = take 5 (sort_lt (better isBid) (map clean_level (filter level_ok (case levels of None \<Rightarrow> [] | Some ls \<Rightarrow> ls))))"
  by (simp add: sanitize_def Let_def)

lemma sanitize_ladder:
  assumes "\<forall>ls. levels = Some ls \<longrightarrow> list_all level_wf ls"
  shows "ladder_ok isBid (fst (sanitize levels isBid))"
proof -
  let ?v = "map clean_level (filter level_ok (case levels of None \<Rightarrow> [] | Some ls \<Rightarrow> ls))"
  have good: "\<forall>l \<in> set ?v. level_good l" using assms by (auto simp: list_all_iff clean_level_good split: option.splits)
  then have "sorted_wrt (\<lambda>a b. price_rank isBid a \<le> price_rank isBid b) (sort_lt (better isBid) ?v)"
    by (intro sorted_sort_lt) (auto simp: better_rank)
  moreover have "\<forall>l \<in> set (take 5 (sort_lt (better isBid) ?v)). level_good l"
    using good by (metis in_set_takeD set_sort_lt)
  ultimately show ?thesis by (simp add: ladder_ok_def sanitize_eq list_all_iff sorted_wrt_takeI)
qed

text \<open>What is cut off beyond the fifth level is no better than what is kept.\<close>

lemma sanitize_keeps_best:
  assumes "list_all level_wf ls" "l \<in> set ls" "level_ok l" "clean_level l \<notin> set (fst (sanitize (Some ls) isBid))"
    "k \<in> set (fst (sanitize (Some ls) isBid))"
  shows "price_rank isBid k \<le> price_rank isBid (clean_level l)"
proof -
  let ?v = "map clean_level (filter level_ok ls)" and ?s = "sort_lt (better isBid) (map clean_level (filter level_ok ls))"
  have "\<forall>l \<in> set ?v. level_good l" using assms(1) by (auto simp: list_all_iff clean_level_good)
  then have "sorted_wrt (\<lambda>a b. price_rank isBid a \<le> price_rank isBid b) ?s"
    by (intro sorted_sort_lt) (auto simp: better_rank)
  moreover have "clean_level l \<in> set (drop 5 ?s)"
    using assms(2-4) by (auto simp: sanitize_eq) (metis (no_types, lifting) Un_iff append_take_drop_id set_append set_sort_lt image_eqI list.set_map mem_Collect_eq set_filter)
  ultimately show ?thesis using assms(5) by (auto simp: sanitize_eq intro: sorted_wrt_take_drop)
qed

section \<open>The invariant of the store\<close>

definition book_ok :: "token \<Rightarrow> quote \<Rightarrow> bool" where
  "book_ok t q \<longleftrightarrow> q_Token q = t \<and> ladder_ok True (q_Bids q) \<and> ladder_ok False (q_Asks q) \<and> (q_Bids q \<noteq> [] \<or> q_Asks q \<noteq> []) \<and>
     q_Bid q = top_price (q_Bids q) \<and> q_Ask q = top_price (q_Asks q) \<and>
     q_BidQty q = qty_at (q_Bid q) (q_Bids q) \<and> q_AskQty q = qty_at (q_Ask q) (q_Asks q) \<and> f_finite (q_Last q)"

definition store_inv :: "store \<Rightarrow> bool" where
  "store_inv s \<longleftrightarrow> distinct (map fst (st_quotes s)) \<and>
     (\<forall>t q. map_of (st_quotes s) t = Some q \<longrightarrow> book_ok t q \<and> q_Version q < st_nextVersion s) \<and>
     (\<forall>t t' q q'. map_of (st_quotes s) t = Some q \<longrightarrow> map_of (st_quotes s) t' = Some q' \<longrightarrow> q_Version q = q_Version q' \<longrightarrow> t = t') \<and>
     distinct (st_listeners s) \<and> (\<forall>l \<in> set (st_listeners s). l < st_nextListener s)"

datatype store_op = OTicks "tick list" millis | OForget "token list" | OClear | OInvalidate | OSubscribe | OUnsubscribe nat

fun store_step :: "store \<Rightarrow> store_op \<Rightarrow> store" where
  "store_step s (OTicks ticks atMs) = fst (ApplyTicks s ticks atMs)"
| "store_step s (OForget tokens) = Forget s tokens"
| "store_step s OClear = store_Clear s"
| "store_step s OInvalidate = InvalidateGeneration s"
| "store_step s OSubscribe = fst (Subscribe s)"
| "store_step s (OUnsubscribe l) = unsubscribe s l"

fun op_wf :: "store_op \<Rightarrow> bool" where
  "op_wf (OTicks ticks atMs) = list_all tick_wf ticks"
| "op_wf _ = True"

lemma book_of_ok:
  assumes "tick_wf t" "bids = fst (sanitize (t_Bids t) True)" "asks = fst (sanitize (t_Asks t) False)" "bids \<noteq> [] \<or> asks \<noteq> []"
  shows "book_ok (t_Token t) (book_of t bids asks v a)"
  using assms sanitize_ladder [of "t_Bids t" True] sanitize_ladder [of "t_Asks t" False]
  by (simp add: book_ok_def book_of_def tick_wf_def)

text \<open>The effect of one tick on the books, in one equation per field.\<close>

definition new_book :: "millis \<Rightarrow> int \<Rightarrow> tick \<Rightarrow> quote option" where
  "new_book atMs v t =
     (let bids = fst (sanitize (t_Bids t) True); asks = fst (sanitize (t_Asks t) False)
      in if bids = [] \<and> asks = [] then None else Some (book_of t bids asks v atMs))"

lemma apply_tick_effect:
  assumes "apply_tick atMs t (s, ch) = (s', ch')"
  shows "map_of (st_quotes s') = (if authoritative t then (map_of (st_quotes s))(t_Token t := new_book atMs (st_nextVersion s) t) else map_of (st_quotes s))"
    "distinct (map fst (st_quotes s)) \<Longrightarrow> distinct (map fst (st_quotes s'))"
    "st_nextVersion s' = (if authoritative t then st_nextVersion s + 1 else st_nextVersion s)"
    "st_listeners s' = st_listeners s" "st_nextListener s' = st_nextListener s"
    "ch' = (if authoritative t then ch @ [t_Token t] else ch)"
  using assms
  by (auto simp: apply_tick_def Let_def case_prod_beta' new_book_def count_dropped_def update_conv' delete_conv' distinct_update distinct_delete
      split: if_splits)

lemma new_book_ok: "tick_wf t \<Longrightarrow> new_book a v t = Some q \<Longrightarrow> book_ok (t_Token t) q \<and> q_Version q = v"
  by (auto simp: new_book_def Let_def book_of_ok split: if_splits) (auto simp: book_of_def)

lemma apply_tick_inv:
  assumes "store_inv s" "tick_wf t" "apply_tick atMs t (s, ch) = (s', ch')"
  shows "store_inv s'"
proof (cases "authoritative t")
  case True
  note e = apply_tick_effect [OF assms(3), unfolded if_P [OF True]] and nb = new_book_ok [OF assms(2), of atMs "st_nextVersion s"]
  have i: "distinct (map fst (st_quotes s))" "\<And>t q. map_of (st_quotes s) t = Some q \<Longrightarrow> book_ok t q \<and> q_Version q < st_nextVersion s"
    "\<And>t t' q q'. map_of (st_quotes s) t = Some q \<Longrightarrow> map_of (st_quotes s) t' = Some q' \<Longrightarrow> q_Version q = q_Version q' \<Longrightarrow> t = t'"
    "distinct (st_listeners s)" "\<forall>l \<in> set (st_listeners s). l < st_nextListener s"
    using assms(1) unfolding store_inv_def by blast+
  show ?thesis
    unfolding store_inv_def e(1,3,4,5)
  proof (intro conjI allI impI)
    fix k q assume "((map_of (st_quotes s))(t_Token t := new_book atMs (st_nextVersion s) t)) k = Some q"
    then show "book_ok k q" "q_Version q < st_nextVersion s + 1" using nb i(2) [of k q] by (auto split: if_splits)
  next
    fix k k' q q'
    assume "((map_of (st_quotes s))(t_Token t := new_book atMs (st_nextVersion s) t)) k = Some q"
      "((map_of (st_quotes s))(t_Token t := new_book atMs (st_nextVersion s) t)) k' = Some q'" "q_Version q = q_Version q'"
    then show "k = k'" using nb i(2,3) by (metis fun_upd_apply less_irrefl)
  qed (use e(2) i in auto)
next
  case False
  note e = apply_tick_effect [OF assms(3), unfolded if_not_P [OF False]]
  show ?thesis using assms(1) e(2) unfolding store_inv_def e(1,3,4,5) by blast
qed

lemma apply_ticks_inv:
  "store_inv s \<Longrightarrow> list_all tick_wf ticks \<Longrightarrow> fold (apply_tick atMs) ticks (s, ch) = (s', ch') \<Longrightarrow> store_inv s'"
proof (induction ticks arbitrary: s ch)
  case (Cons t ticks)
  obtain s1 ch1 where "apply_tick atMs t (s, ch) = (s1, ch1)" by (cases "apply_tick atMs t (s, ch)")
  with Cons apply_tick_inv [OF Cons.prems(1), of t atMs ch s1 ch1] show ?case by auto
qed simp

lemma map_of_fold_delete: "map_of (fold AList.delete ks m) = map_of m |` (- set ks)"
  by (induction ks arbitrary: m) (auto simp: delete_conv' restrict_map_def fun_eq_iff)

lemma distinct_fold_delete: "distinct (map fst m) \<Longrightarrow> distinct (map fst (fold AList.delete ks m))"
  by (induction ks arbitrary: m) (auto simp: distinct_delete)

lemma store_step_inv: "store_inv s \<Longrightarrow> op_wf e \<Longrightarrow> store_inv (store_step s e)"
proof (cases e)
  case (OTicks ticks atMs)
  assume "store_inv s" "op_wf e"
  then show ?thesis using apply_ticks_inv [of s ticks atMs "[]"] OTicks
    by (cases "fold (apply_tick atMs) ticks (s, [])") (simp add: ApplyTicks_def)
next
  case (OForget tokens)
  assume "store_inv s"
  then show ?thesis unfolding OForget store_step.simps Forget_def store_inv_def
    by (auto simp: map_of_fold_delete distinct_fold_delete restrict_map_def split: if_splits)
qed (auto simp: store_inv_def store_Clear_def InvalidateGeneration_def Subscribe_def unsubscribe_def less_SucI dest: notin_set_remove1)

interpretation quotes: guarded_steps store_step store_inv op_wf
  by unfold_locales (rule store_step_inv)

lemma NewStore_inv: "store_inv NewStore"
  by (simp add: store_inv_def NewStore_def)

text \<open>
  C10: In every store reachable by batches of ticks, forgetting, clearing, generation changes and
  subscriptions, a stored book belongs to its token, has one to five levels a side at least on one side, all
  with positive finite prices and positive whole quantities, best price first; the quoted bid and ask
  are the first levels, and no two books have the same version.
\<close>

theorem books_best_first:
  assumes "list_all op_wf ops" "s = foldl store_step NewStore ops" "book_get s t = Some q"
  shows "q_Token q = t \<and>
    (q_Bids q \<noteq> [] \<or> q_Asks q \<noteq> []) \<and>
    length (q_Bids q) \<le> 5 \<and>
    length (q_Asks q) \<le> 5 \<and>
    (\<forall>l \<in> set (q_Bids q @ q_Asks q). f_finite (dl_Price l) \<and> f_pos (dl_Price l) \<and> safeInteger (dl_Qty l) \<and> f_pos (dl_Qty l)) \<and>
    sorted_wrt (\<lambda>a b. f_le (dl_Price b) (dl_Price a)) (q_Bids q) \<and>
    sorted_wrt (\<lambda>a b. f_le (dl_Price a) (dl_Price b)) (q_Asks q) \<and>
    (q_Bids q \<noteq> [] \<longrightarrow> q_Bid q = dl_Price (hd (q_Bids q))) \<and>
    (q_Asks q \<noteq> [] \<longrightarrow> q_Ask q = dl_Price (hd (q_Asks q))) \<and>
    (book_get s t' = Some q' \<and> t' \<noteq> t \<longrightarrow> q_Version q' \<noteq> q_Version q)"
proof (intro conjI)
  have inv: "store_inv s" unfolding assms(2) by (rule quotes.guarded_run_inv [OF NewStore_inv assms(1)])
  then have ok: "book_ok t q" using assms(3) by (simp add: store_inv_def book_get_def)
  then have l: "ladder_ok True (q_Bids q)" "ladder_ok False (q_Asks q)" by (simp_all add: book_ok_def)
  show "q_Token q = t" "q_Bids q \<noteq> [] \<or> q_Asks q \<noteq> []" using ok by (simp_all add: book_ok_def)
  show "length (q_Bids q) \<le> 5" "length (q_Asks q) \<le> 5" using l by (simp_all add: ladder_ok_def)
  show "\<forall>l \<in> set (q_Bids q @ q_Asks q). f_finite (dl_Price l) \<and> f_pos (dl_Price l) \<and> safeInteger (dl_Qty l) \<and> f_pos (dl_Qty l)"
    using l by (auto simp: ladder_ok_def list_all_iff level_good_def)
  show "sorted_wrt (\<lambda>a b. f_le (dl_Price b) (dl_Price a)) (q_Bids q)" "sorted_wrt (\<lambda>a b. f_le (dl_Price a) (dl_Price b)) (q_Asks q)"
    using l by (auto simp: ladder_ok_def list_all_iff level_good_def price_rank_def f_le_num f_num_finite elim!: sorted_wrt_mono_rel [rotated])
  show "q_Bids q \<noteq> [] \<longrightarrow> q_Bid q = dl_Price (hd (q_Bids q))" "q_Asks q \<noteq> [] \<longrightarrow> q_Ask q = dl_Price (hd (q_Asks q))"
    using ok by (auto simp: book_ok_def top_price_def neq_Nil_conv)
  show "book_get s t' = Some q' \<and> t' \<noteq> t \<longrightarrow> q_Version q' \<noteq> q_Version q"
    using inv assms(3) unfolding store_inv_def book_get_def by blast
qed

definition demo_level :: "int \<Rightarrow> int \<Rightarrow> depth_level" where
  "demo_level p n = \<lparr>dl_Price = f_of_int p, dl_Qty = f_of_int n, dl_Orders = f_of_int 1\<rparr>"

definition demo_depth :: tick where
  "demo_depth = zero_tick\<lparr>t_Token := 7, t_LastPrice := f_of_int 101,
     t_Bids := Some [demo_level 99 50, demo_level 100 75, demo_level 0 5], t_Asks := Some [demo_level 102 25, demo_level 103 50]\<rparr>"

definition demo_store :: store where
  "demo_store = foldl store_step NewStore [OSubscribe, OTicks [demo_depth] 5000]"

lemma demo_depth_wf: "list_all op_wf [OSubscribe, OTicks [demo_depth] 5000]"
  by (simp add: tick_wf_def demo_depth_def demo_level_def level_wf_def)

theorem books_best_first_witness:
  "\<exists>q. book_get demo_store 7 = Some q \<and> map dl_Price (q_Bids q) = [f_of_int 100, f_of_int 99] \<and> q_Bid q = f_of_int 100"
proof -
  have "map_option (\<lambda>q. map dl_Price (q_Bids q)) (book_get demo_store 7) = Some [f_of_int 100, f_of_int 99]"
    by code_simp
  then obtain q where q: "book_get demo_store 7 = Some q" "map dl_Price (q_Bids q) = [f_of_int 100, f_of_int 99]" by auto
  have "q_Bids q \<noteq> [] \<longrightarrow> q_Bid q = dl_Price (hd (q_Bids q))"
    using books_best_first [OF demo_depth_wf refl q(1) [unfolded demo_store_def], of 7 q] by (elim conjE)
  then have "q_Bid q = f_of_int 100" using q(2) by (cases "q_Bids q") auto
  with q show ?thesis by (intro exI [of _ q] conjI)
qed

section \<open>The last authoritative tick decides\<close>

definition unversioned :: "quote option \<Rightarrow> quote option" where
  "unversioned = map_option (\<lambda>q. q\<lparr>q_Version := 0\<rparr>)"

definition deciding :: "token \<Rightarrow> tick list \<Rightarrow> tick list" where
  "deciding t ticks = filter (\<lambda>k. authoritative k \<and> t_Token k = t) ticks"

lemma unversioned_new_book: "unversioned (new_book a v k) = new_book a 0 k"
  by (simp add: unversioned_def new_book_def Let_def book_of_def)

lemma new_book_version: "new_book a v k = Some q \<Longrightarrow> q_Version q = v"
  by (auto simp: new_book_def Let_def book_of_def split: if_splits)

lemma apply_ticks_effect:
  assumes "fold (apply_tick atMs) ticks (s, ch) = (s', ch')"
  shows "unversioned (map_of (st_quotes s') t) =
      (if deciding t ticks = [] then unversioned (map_of (st_quotes s) t) else new_book atMs 0 (last (deciding t ticks)))"
    and "ch' = ch @ map t_Token (filter authoritative ticks)"
    and "st_nextVersion s' = st_nextVersion s + int (length (filter authoritative ticks))"
    and "st_listeners s' = st_listeners s"
    and "map_of (st_quotes s') t = Some q \<Longrightarrow> map_of (st_quotes s) t = Some q \<or> st_nextVersion s \<le> q_Version q"
  using assms
proof (induction ticks arbitrary: s ch)
  case (Cons k ticks)
  case 1
  obtain s1 ch1 where k: "apply_tick atMs k (s, ch) = (s1, ch1)" by (cases "apply_tick atMs k (s, ch)")
  note e = apply_tick_effect [OF k]
  from 1 k have "fold (apply_tick atMs) ticks (s1, ch1) = (s', ch')" by simp
  note IH = Cons.IH(1) [OF this]
  show ?case unfolding IH by (auto simp: deciding_def e unversioned_new_book)
next
  case (Cons k ticks)
  case 2
  obtain s1 ch1 where k: "apply_tick atMs k (s, ch) = (s1, ch1)" by (cases "apply_tick atMs k (s, ch)")
  from 2 k have "fold (apply_tick atMs) ticks (s1, ch1) = (s', ch')" by simp
  from Cons.IH(2) [OF this] show ?case by (simp add: apply_tick_effect [OF k])
next
  case (Cons k ticks)
  case 3
  obtain s1 ch1 where k: "apply_tick atMs k (s, ch) = (s1, ch1)" by (cases "apply_tick atMs k (s, ch)")
  from 3 k have "fold (apply_tick atMs) ticks (s1, ch1) = (s', ch')" by simp
  from Cons.IH(3) [OF this] show ?case by (simp add: apply_tick_effect [OF k])
next
  case (Cons k ticks)
  case 4
  obtain s1 ch1 where k: "apply_tick atMs k (s, ch) = (s1, ch1)" by (cases "apply_tick atMs k (s, ch)")
  from 4 k have "fold (apply_tick atMs) ticks (s1, ch1) = (s', ch')" by simp
  from Cons.IH(4) [OF this] show ?case by (simp add: apply_tick_effect [OF k])
next
  case (Cons k ticks)
  case 5
  obtain s1 ch1 where k: "apply_tick atMs k (s, ch) = (s1, ch1)" by (cases "apply_tick atMs k (s, ch)")
  note e = apply_tick_effect [OF k]
  from 5 k have "fold (apply_tick atMs) ticks (s1, ch1) = (s', ch')" by simp
  from Cons.IH(5) [OF 5(1) this] show ?case by (auto simp: e dest: new_book_version split: if_splits)
qed (simp_all add: deciding_def)

text \<open>
  After a batch the book of a token is the one made from the last authoritative tick of that
  token (none when its sanitised ladders are empty), and unchanged when there is no such tick; the changed
  tokens are those of the authoritative ticks in order, every listener is called once with them, each of
  them consumes one version, and a new book has a version newer than every earlier one.
\<close>

theorem applyTicks_last_tick_decides:
  assumes "ApplyTicks s ticks atMs = (s', changed, calls)"
  shows "unversioned (book_get s' t) =
      (if deciding t ticks = [] then unversioned (book_get s t) else new_book atMs 0 (last (deciding t ticks))) \<and>
    changed = map t_Token (filter authoritative ticks) \<and>
    calls = (if changed = [] then [] else map (\<lambda>l. (l, changed, atMs)) (st_listeners s)) \<and>
    st_nextVersion s' = st_nextVersion s + int (length changed) \<and>
    (book_get s' t = Some q \<and> book_get s t \<noteq> Some q \<longrightarrow> st_nextVersion s \<le> q_Version q)"
proof (intro conjI)
  obtain s1 ch where f: "fold (apply_tick atMs) ticks (s, []) = (s1, ch)" by (cases "fold (apply_tick atMs) ticks (s, [])")
  then have a: "s' = s1" "changed = ch" "calls = (if ch \<noteq> [] then map (\<lambda>l. (l, ch, atMs)) (st_listeners s1) else [])"
    using assms by (auto simp: ApplyTicks_def)
  note e = apply_ticks_effect [OF f]
  show "unversioned (book_get s' t) = (if deciding t ticks = [] then unversioned (book_get s t) else new_book atMs 0 (last (deciding t ticks)))"
    unfolding book_get_def a by (rule e(1))
  show ch: "changed = map t_Token (filter authoritative ticks)" using e(2) a by simp
  show "calls = (if changed = [] then [] else map (\<lambda>l. (l, changed, atMs)) (st_listeners s))" using a e(4) by simp
  show "st_nextVersion s' = st_nextVersion s + int (length changed)" using e(3) a(1) by (simp add: ch)
  show "book_get s' t = Some q \<and> book_get s t \<noteq> Some q \<longrightarrow> st_nextVersion s \<le> q_Version q"
    using apply_ticks_effect(5) [OF f, of t q] a by (auto simp: book_get_def)
qed

theorem applyTicks_last_tick_decides_witness:
  "book_get (fst (ApplyTicks demo_store [demo_depth, demo_depth\<lparr>t_Bids := Some [], t_Asks := None\<rparr>] 6000)) 7 = None \<and>
   fst (snd (ApplyTicks demo_store [demo_depth, demo_depth\<lparr>t_Bids := Some [], t_Asks := None\<rparr>] 6000)) = [7, 7]"
proof -
  let ?ts = "[demo_depth, demo_depth\<lparr>t_Bids := Some [], t_Asks := None\<rparr>]"
  obtain s' ch calls where a: "ApplyTicks demo_store ?ts 6000 = (s', ch, calls)"
    by (cases "ApplyTicks demo_store ?ts 6000") auto
  have au: "authoritative demo_depth" "authoritative (demo_depth\<lparr>t_Bids := Some [], t_Asks := None\<rparr>)" "t_Token demo_depth = 7"
    by (simp_all add: authoritative_def demo_depth_def zero_tick_def)
  have "unversioned (book_get s' 7) = new_book 6000 0 (demo_depth\<lparr>t_Bids := Some [], t_Asks := None\<rparr>)"
    using applyTicks_last_tick_decides [OF a, of 7, THEN conjunct1] au by (simp add: deciding_def)
  then have "book_get s' 7 = None" by (simp add: new_book_def sanitize_def unversioned_def)
  moreover have "ch = [7, 7]" using applyTicks_last_tick_decides [OF a, THEN conjunct2, THEN conjunct1] au by simp
  ultimately show ?thesis by (simp add: a)
qed

section \<open>Strike windows are sound\<close>

definition good_strike :: "f64 \<Rightarrow> bool" where
  "good_strike s \<longleftrightarrow> f_wf s \<and> f_finite s \<and> f_pos s"

lemma good_strike_num: "good_strike s \<Longrightarrow> f_num s"
  by (simp add: good_strike_def f_num_finite)

lemma good_strike_eq: "good_strike a \<Longrightarrow> good_strike b \<Longrightarrow> f_eq a b \<longleftrightarrow> a = b"
  by (simp add: good_strike_def f_eq_pos)

lemma good_strike_key: "good_strike a \<Longrightarrow> good_strike b \<Longrightarrow> f_key a = f_key b \<longleftrightarrow> a = b"
  using good_strike_eq [of a b] by (simp add: f_eq_num good_strike_num)

lemma unique_acc_good:
  assumes "list_all good_strike out" "list_all good_strike ss" "distinct out"
  shows "set (unique_acc out ss) = set out \<union> set ss" "distinct (unique_acc out ss)"
proof -
  have "set (unique_acc out ss) = set out \<union> set ss \<and> distinct (unique_acc out ss)"
    using assms
  proof (induction ss arbitrary: out)
    case (Cons s ss)
    have ex: "list_ex (f_eq s) out \<longleftrightarrow> s \<in> set out"
      using Cons.prems by (auto simp: list_ex_iff list_all_iff good_strike_eq)
    show ?case using Cons.IH [of "if s \<in> set out then out else out @ [s]"] Cons.prems by (simp add: ex split: if_splits) blast
  qed simp
  then show "set (unique_acc out ss) = set out \<union> set ss" "distinct (unique_acc out ss)" by blast+
qed

lemma float_less_good: "good_strike a \<Longrightarrow> good_strike b \<Longrightarrow> float_less a b \<longleftrightarrow> f_key a < f_key b"
  by (auto simp: float_less_def f_lt_num good_strike_num is_nan_def) (simp add: good_strike_def)

lemma sorted_good: "list_all good_strike ss \<Longrightarrow> sorted_wrt (\<lambda>a b. f_key a \<le> f_key b) (sort_lt float_less ss)"
  by (rule sorted_sort_lt) (simp add: list_all_iff float_less_good)

lemma uniqueSorted_good:
  assumes "list_all good_strike ss"
  shows "set (uniqueSorted ss) = set ss" "distinct (uniqueSorted ss)" "sorted_wrt (\<lambda>a b. f_key a < f_key b) (uniqueSorted ss)"
proof -
  note u = unique_acc_good [of "[]" ss, OF _ assms]
  show s: "set (uniqueSorted ss) = set ss" and d: "distinct (uniqueSorted ss)" using u by (simp_all add: uniqueSorted_def)
  have "sorted_wrt (\<lambda>a b. f_key a \<le> f_key b) (uniqueSorted ss)"
    unfolding uniqueSorted_def using u(1) assms by (intro sorted_good) (simp add: list_all_iff)
  then have "sorted_wrt (\<lambda>a b. f_key a \<le> f_key b \<and> a \<noteq> b) (uniqueSorted ss)"
    using d by (simp add: sorted_wrt_iff_nth_less nth_eq_iff_index_eq)
  then show "sorted_wrt (\<lambda>a b. f_key a < f_key b) (uniqueSorted ss)"
    using assms s by (elim sorted_wrt_mono_rel [rotated]) (auto simp: list_all_iff good_strike_key less_le)
qed

definition strike_dist :: "f64 \<Rightarrow> f64 \<Rightarrow> int" where
  "strike_dist spot s = f_key (f_abs (f_sub s spot))"

lemma dist_num: "good_strike s \<Longrightarrow> f_wf spot \<Longrightarrow> f_finite spot \<Longrightarrow> f_num (f_abs (f_sub s spot))"
  using rnd_num [OF rnd_sub [of s spot]] by (cases "f_sub s spot") (auto simp: good_strike_def f_num_def)

lemma fold_nearer:
  assumes "f_wf spot" "f_finite spot" "list_all good_strike (b # ss)" "sorted_wrt (\<lambda>a b. f_key a \<le> f_key b) (b # ss)"
  shows "\<exists>r. fold (nearer spot) ss (b, f_abs (f_sub b spot)) = (r, f_abs (f_sub r spot)) \<and> r \<in> set (b # ss) \<and>
     (\<forall>s \<in> set (b # ss). strike_dist spot r \<le> strike_dist spot s \<and> (strike_dist spot r = strike_dist spot s \<longrightarrow> f_key r \<le> f_key s))"
  using assms(3,4)
proof (induction ss arbitrary: b)
  case (Cons s ss)
  let ?b = "if f_lt (f_abs (f_sub s spot)) (f_abs (f_sub b spot)) then s else b"
  have good: "good_strike s" "good_strike b" "list_all good_strike ss" using Cons.prems by auto
  have lt: "f_lt (f_abs (f_sub s spot)) (f_abs (f_sub b spot)) \<longleftrightarrow> strike_dist spot s < strike_dist spot b"
    using good assms(1,2) by (simp add: f_lt_num dist_num strike_dist_def)
  have pre: "list_all good_strike (?b # ss)" "sorted_wrt (\<lambda>a b. f_key a \<le> f_key b) (?b # ss)" using Cons.prems by auto
  from Cons.IH [OF pre] obtain r where
    r: "fold (nearer spot) ss (?b, f_abs (f_sub ?b spot)) = (r, f_abs (f_sub r spot))" "r \<in> set (?b # ss)"
      "\<forall>s \<in> set (?b # ss). strike_dist spot r \<le> strike_dist spot s \<and> (strike_dist spot r = strike_dist spot s \<longrightarrow> f_key r \<le> f_key s)"
    by blast
  have step: "nearer spot s (b, f_abs (f_sub b spot)) = (?b, f_abs (f_sub ?b spot))" by (simp add: nearer_def Let_def)
  have order: "f_key b \<le> f_key s" "\<forall>x \<in> set ss. f_key s \<le> f_key x" using Cons.prems by auto
  have "strike_dist spot r \<le> strike_dist spot x \<and> (strike_dist spot r = strike_dist spot x \<longrightarrow> f_key r \<le> f_key x)"
    if x: "x \<in> set (b # s # ss)" for x
  proof (cases "x \<in> set (?b # ss)")
    case True
    then show ?thesis using r(3) by blast
  next
    case False
    have "strike_dist spot r \<le> strike_dist spot ?b" "strike_dist spot r = strike_dist spot ?b \<longrightarrow> f_key r \<le> f_key ?b"
      using r(3) by simp_all
    then show ?thesis using False x lt order by (auto split: if_splits)
  qed
  then show ?case using r(1,2) step by (intro exI [of _ r]) (auto split: if_splits)
qed simp

lemma AtmStrike_sound:
  assumes "f_wf spot" "f_finite spot" "list_all good_strike ss" "AtmStrike ss spot = Some atm"
  shows "atm \<in> set ss \<and> (\<forall>s \<in> set ss. strike_dist spot atm \<le> strike_dist spot s \<and>
    (strike_dist spot atm = strike_dist spot s \<longrightarrow> f_key atm \<le> f_key s))"
proof -
  obtain b bs where L: "sort_lt float_less ss = b # bs" using assms(4) by (auto simp: AtmStrike_def split: list.splits)
  have good: "list_all good_strike (b # bs)" and set: "set (b # bs) = set ss"
    using assms(3) set_sort_lt [of float_less ss] unfolding L list_all_iff by simp_all
  have sorted: "sorted_wrt (\<lambda>a b. f_key a \<le> f_key b) (b # bs)" using sorted_good [OF assms(3)] unfolding L .
  have g2: "list_all good_strike (b # b # bs)" "sorted_wrt (\<lambda>a b. f_key a \<le> f_key b) (b # b # bs)"
    using good sorted by auto
  from fold_nearer [OF assms(1,2) g2] assms(4) show ?thesis
    by (auto simp: AtmStrike_def L set [symmetric])
qed

lemma AtmStrike_None: "AtmStrike ss spot = None \<longleftrightarrow> ss = []"
proof -
  have "sort_lt float_less ss = [] \<longleftrightarrow> ss = []" by (metis set_sort_lt set_empty)
  then show ?thesis by (auto simp: AtmStrike_def split: list.splits)
qed

lemma Search_index:
  assumes "sorted_wrt (\<lambda>a b. f_key a < f_key b) xs" "\<forall>x \<in> set xs. f_num x" "v \<in> set xs"
  shows "SearchFloat64s xs v < length xs \<and> xs ! SearchFloat64s xs v = v"
  using assms
proof (induction xs)
  case (Cons x xs)
  show ?case
  proof (cases "x = v")
    case True
    then show ?thesis using Cons.prems by (simp add: SearchFloat64s_def f_le_num)
  next
    case False
    then have "f_key x < f_key v" "v \<in> set xs" "f_num x" "f_num v" using Cons.prems by auto
    then have "\<not> f_le v x" by (simp add: f_le_num)
    then show ?thesis using Cons \<open>v \<in> set xs\<close> by (simp add: SearchFloat64s_def)
  qed
qed simp

lemma set_slice: "x \<in> set (take n (drop lo xs)) \<longleftrightarrow> (\<exists>i. lo \<le> i \<and> i < lo + n \<and> i < length xs \<and> xs ! i = x)"
proof
  assume "x \<in> set (take n (drop lo xs))"
  then obtain j where "j < n" "lo + j < length xs" "xs ! (lo + j) = x" by (auto simp: in_set_conv_nth)
  then show "\<exists>i. lo \<le> i \<and> i < lo + n \<and> i < length xs \<and> xs ! i = x" by (intro exI [of _ "lo + j"]) simp
next
  assume "\<exists>i. lo \<le> i \<and> i < lo + n \<and> i < length xs \<and> xs ! i = x"
  then obtain i where "lo \<le> i" "i < lo + n" "i < length xs" "xs ! i = x" by blast
  then have "i - lo < length (take n (drop lo xs))" "take n (drop lo xs) ! (i - lo) = x" by auto
  then show "x \<in> set (take n (drop lo xs))" by (metis nth_mem)
qed

lemma sorted_nth_less:
  "sorted_wrt (\<lambda>a b. f_key a < f_key b) xs \<Longrightarrow> i < length xs \<Longrightarrow> j < length xs \<Longrightarrow> f_key (xs ! i) \<le> f_key (xs ! j) \<Longrightarrow> i \<le> j"
  by (metis not_le sorted_wrt_nth_less)

lemma window_convex:
  assumes "sorted_wrt (\<lambda>a b. f_key a < f_key b) xs" "s \<in> set xs" "a \<in> set (take n (drop lo xs))" "b \<in> set (take n (drop lo xs))"
    "f_key a \<le> f_key s" "f_key s \<le> f_key b"
  shows "s \<in> set (take n (drop lo xs))"
proof -
  obtain k i j where k: "k < length xs" "xs ! k = s" and i: "lo \<le> i" "i < length xs" "xs ! i = a"
    and j: "j < lo + n" "j < length xs" "xs ! j = b"
    using assms(2-4) unfolding set_slice by (auto simp: in_set_conv_nth)
  have "i \<le> k" "k \<le> j" using sorted_nth_less [OF assms(1)] k i j assms(5,6) by metis+
  then show ?thesis unfolding set_slice using k i j by (intro exI [of _ k]) simp
qed

lemma strike_window_facts:
  assumes "f_wf spot" "f_finite spot" "list_all good_strike strikes" "SelectStrikeWindow strikes spot n = Some (atm, w)"
  shows "atm \<in> set w" "set w \<subseteq> set strikes" "length w \<le> 2 * n + 1" "sorted_wrt f_lt w"
    and "\<forall>s \<in> set strikes. \<not> f_lt (f_abs (f_sub s spot)) (f_abs (f_sub atm spot)) \<and>
      (f_eq (f_abs (f_sub s spot)) (f_abs (f_sub atm spot)) \<longrightarrow> f_le atm s)"
    and "\<forall>s \<in> set strikes. \<forall>a \<in> set w. \<forall>b \<in> set w. f_le a s \<and> f_le s b \<longrightarrow> s \<in> set w"
proof -
  let ?u = "uniqueSorted strikes" and ?idx = "SearchFloat64s (uniqueSorted strikes) atm"
  note u = uniqueSorted_good [OF assms(3)]
  have atm: "AtmStrike ?u spot = Some atm" and
    w: "w = take (min (length ?u - 1) (?idx + n) + 1 - (?idx - n)) (drop (?idx - n) ?u)"
    using assms(4) by (auto simp: SelectStrikeWindow_def Let_def split: option.splits)
  have good: "list_all good_strike ?u" using assms(3) u(1) by (simp add: list_all_iff)
  note A = AtmStrike_sound [OF assms(1,2) good atm]
  have num: "\<forall>s \<in> set ?u. f_num s" using good by (simp add: list_all_iff good_strike_num)
  note ix = Search_index [OF u(3) num conjunct1 [OF A]]
  show "atm \<in> set w" unfolding w set_slice using ix by (intro exI [of _ ?idx]) auto
  show sub: "set w \<subseteq> set strikes" unfolding w using u(1) by (auto dest: in_set_takeD in_set_dropD)
  show "length w \<le> 2 * n + 1" 
  proof -
    have "length w \<le> min (length ?u - 1) (?idx + n) + 1 - (?idx - n)" unfolding w by simp
    also have "\<dots> \<le> ?idx + n + 1 - (?idx - n)" by (intro diff_le_mono add_le_mono) simp_all
    also have "\<dots> \<le> 2 * n + 1" by linarith
    finally show ?thesis .
  qed
  have g: "\<And>s. s \<in> set strikes \<Longrightarrow> good_strike s \<and> f_num s \<and> f_num (f_abs (f_sub s spot))"
    using assms by (auto simp: list_all_iff good_strike_num dist_num)
  have sw: "sorted_wrt (\<lambda>a b. f_key a < f_key b) w" unfolding w by (intro sorted_wrt_takeI sorted_wrt_drop u(3))
  have lt: "f_lt x y" if "x \<in> set w" "y \<in> set w" "f_key x < f_key y" for x y
    using that sub g [of x] g [of y] by (simp add: f_lt_num subsetD)
  show "sorted_wrt f_lt w" by (rule sorted_wrt_mono_rel [OF lt sw])
  have "atm \<in> set strikes" using A u(1) by simp
  then show "\<forall>s \<in> set strikes. \<not> f_lt (f_abs (f_sub s spot)) (f_abs (f_sub atm spot)) \<and>
      (f_eq (f_abs (f_sub s spot)) (f_abs (f_sub atm spot)) \<longrightarrow> f_le atm s)"
    using A g u(1) by (auto simp: f_cmp_num strike_dist_def not_less)
  show "\<forall>s \<in> set strikes. \<forall>a \<in> set w. \<forall>b \<in> set w. f_le a s \<and> f_le s b \<longrightarrow> s \<in> set w"
  proof (intro ballI impI)
    fix s a b assume s: "s \<in> set strikes" and ab: "a \<in> set w" "b \<in> set w" and le: "f_le a s \<and> f_le s b"
    have "f_num s" "f_num a" "f_num b" using g [of s] g [of a] g [of b] s ab sub by auto
    then have "f_key a \<le> f_key s" "f_key s \<le> f_key b" using le by (simp_all add: f_le_num)
    then show "s \<in> set w" using window_convex [OF u(3)] s u(1) ab unfolding w by blast
  qed
qed

text \<open>
  The strike window contains the strike nearest to the spot (the lower one on a tie), consists of
  listed strikes in ascending order without gaps and has at most \<open>2 * n + 1\<close> of them.
\<close>

theorem strike_window_sound:
  assumes "f_wf spot" "f_finite spot" "list_all good_strike strikes" "SelectStrikeWindow strikes spot n = Some (atm, w)"
  shows "atm \<in> set w" "set w \<subseteq> set strikes" "length w \<le> 2 * n + 1" "sorted_wrt f_lt w"
    and "\<forall>s \<in> set strikes. \<not> f_lt (f_abs (f_sub s spot)) (f_abs (f_sub atm spot)) \<and>
      (f_eq (f_abs (f_sub s spot)) (f_abs (f_sub atm spot)) \<longrightarrow> f_le atm s)"
    and "\<forall>s \<in> set strikes. \<forall>a \<in> set w. \<forall>b \<in> set w. f_le a s \<and> f_le s b \<longrightarrow> s \<in> set w"
  by (rule strike_window_facts [OF assms])+

theorem strike_window_sound_witness:
  "\<exists>w. SelectStrikeWindow (map f_of_int [300, 100, 200, 100, 400, 500]) (f_of_int 250) 1 = Some (f_of_int 200, w) \<and>
     w = map f_of_int [100, 200, 300] \<and> sorted_wrt f_lt w"
proof -
  let ?ss = "map f_of_int [300, 100, 200, 100, 400, 500]"
  have e: "SelectStrikeWindow ?ss (f_of_int 250) 1 = Some (f_of_int 200, map f_of_int [100, 200, 300])" by code_simp
  have g: "list_all good_strike ?ss" unfolding good_strike_def by code_simp
  have s: "f_wf (f_of_int 250)" "f_finite (f_of_int 250)" by code_simp+
  from strike_window_sound(4) [OF s g e] e show ?thesis by (intro exI [of _ "map f_of_int [100, 200, 300]"] conjI refl)
qed

end
