(* ===== verification/SynthMath.thy ===== *)
theory SynthMath
  imports JsFmt RateCard QuoteBook
begin

text \<open>
  The pure core of the synthetic-futures scanner (\<^verbatim>\<open>internal/synthetic/math.go\<close> and the records of
  \<^verbatim>\<open>trade.go\<close>): chains and windows, the evaluation of one strike in one direction, the
  ranking of opportunities, and the paper trade from entry to exit. Prices are \<open>f64\<close>;
  every operation is the code's, in the code's order.

  Go maps keyed by a strike are association lists compared by value. A string enumeration whose empty value is
  \<^verbatim>\<open>null\<close> is an option of a datatype.
\<close>

section \<open>Directions, roles and contracts\<close>

datatype direction = Conversion | Reversal

datatype leg_role = RoleFut | RoleCE | RolePE

definition LegRoles :: "leg_role list" where
  "LegRoles = [RoleFut, RoleCE, RolePE]"

definition EntrySide :: "direction \<Rightarrow> leg_role \<Rightarrow> side" where
  "EntrySide d role =
     (let buyFutures = (d = Conversion)
      in if role = RoleFut \<or> role = RolePE then (if buyFutures then Buy else Sell)
         else if buyFutures then Sell else Buy)"

definition flipSide :: "side \<Rightarrow> side" where
  "flipSide s = (if s = Buy then Sell else Buy)"

record contract =
  c_Token :: token
  c_Tradingsymbol :: string
  c_Exchange :: string
  c_Strike :: f64
  c_InstrumentType :: string
  c_Expiry :: string
  c_LotSize :: f64
  c_TickSize :: "f64 option"

definition zero_contract :: contract where
  "zero_contract = \<lparr>c_Token = 0, c_Tradingsymbol = '''', c_Exchange = '''', c_Strike = f_zero, c_InstrumentType = '''',
     c_Expiry = '''', c_LotSize = f_zero, c_TickSize = None\<rparr>"

text \<open>A map keyed by a float: keys are compared by value.\<close>

type_synonym 'a fmap = "(f64 \<times> 'a) list"

fun fm_get :: "'a fmap \<Rightarrow> f64 \<Rightarrow> 'a option" where
  "fm_get [] k = None"
| "fm_get ((j, v) # m) k = (if f_eq j k then Some v else fm_get m k)"

fun fm_put :: "f64 \<Rightarrow> 'a \<Rightarrow> 'a fmap \<Rightarrow> 'a fmap" where
  "fm_put k v [] = [(k, v)]"
| "fm_put k v ((j, w) # m) = (if f_eq j k then (j, v) # m else (j, w) # fm_put k v m)"

definition fm_at :: "contract fmap \<Rightarrow> f64 \<Rightarrow> contract" where
  "fm_at m k = (case fm_get m k of Some c \<Rightarrow> c | None \<Rightarrow> zero_contract)"

record chain_index =
  ci_Underlying :: string
  ci_Expiry :: string
  ci_LotSize :: f64
  ci_StrikeStep :: f64
  ci_Future :: contract
  ci_Strikes :: "f64 list"
  ci_CE :: "contract fmap"
  ci_PE :: "contract fmap"

record board_item =
  bi_Symbol :: string
  bi_Name :: string
  bi_IsIndex :: bool

record window =
  w_Underlying :: string
  w_Name :: string
  w_IsIndex :: bool
  w_Expiry :: string
  w_LotSize :: f64
  w_StrikeStep :: f64
  w_AtmStrike :: f64
  w_Strikes :: "f64 list"
  w_Future :: contract
  w_CE :: "contract fmap"
  w_PE :: "contract fmap"
  w_RefPrice :: f64
  w_WindowAt :: millis

record quote_like =
  ql_Bid :: f64
  ql_BidQty :: f64
  ql_Ask :: f64
  ql_AskQty :: f64
  ql_Last :: f64
  ql_At :: millis

section \<open>Chains\<close>

definition toContract :: "instrument \<Rightarrow> string \<Rightarrow> contract" where
  "toContract i typ =
     \<lparr>c_Token = i_InstrumentToken i, c_Tradingsymbol = i_Tradingsymbol i, c_Exchange = i_Exchange i,
      c_Strike = (if typ = ''FUT'' then f_zero else i_Strike i), c_InstrumentType = typ, c_Expiry = i_Expiry i,
      c_LotSize = i_LotSize i, c_TickSize = (if f_pos (i_TickSize i) then Some (i_TickSize i) else None)\<rparr>"

definition push :: "'k \<Rightarrow> 'v \<Rightarrow> ('k \<times> 'v list) list \<Rightarrow> ('k \<times> 'v list) list" where
  "push k v m = AList.update k (the_default [] (map_of m k) @ [v]) m"

type_synonym listed = "(string \<times> instrument list) list"

definition live_nfo :: "string \<Rightarrow> instrument \<Rightarrow> bool" where
  "live_nfo today i \<longleftrightarrow> \<not> (i_Exchange i \<noteq> ''NFO'' \<or> i_Name i = '''' \<or> i_Expiry i = '''' \<or> i_Expiry i < today)"

definition classify :: "string \<Rightarrow> instrument \<Rightarrow> listed \<times> (string \<times> listed) list \<Rightarrow> listed \<times> (string \<times> listed) list" where
  "classify today i acc =
     (let (futures, options) = acc
      in if \<not> live_nfo today i then acc
         else if i_InstrumentType i = ''FUT'' then (push (i_Name i) i futures, options)
         else if (i_InstrumentType i = ''CE'' \<or> i_InstrumentType i = ''PE'') \<and> f_pos (i_Strike i)
           then (futures, AList.update (i_Name i) (push (i_Expiry i) i (the_default [] (map_of options (i_Name i)))) options)
         else acc)"

record pair_acc =
  pa_ce :: "contract fmap"
  pa_pe :: "contract fmap"
  pa_ceOrder :: "f64 list"
  pa_lotMismatch :: bool

definition add_option :: "instrument \<Rightarrow> instrument \<Rightarrow> pair_acc \<Rightarrow> pair_acc" where
  "add_option fut c acc =
     (let acc = (if f_pos (i_LotSize c) \<and> \<not> f_eq (i_LotSize c) (i_LotSize fut) then acc\<lparr>pa_lotMismatch := True\<rparr> else acc)
      in if i_InstrumentType c = ''CE''
         then acc\<lparr>pa_ceOrder := (if fm_get (pa_ce acc) (i_Strike c) = None then pa_ceOrder acc @ [i_Strike c] else pa_ceOrder acc),
                  pa_ce := fm_put (i_Strike c) (toContract c ''CE'') (pa_ce acc)\<rparr>
         else acc\<lparr>pa_pe := fm_put (i_Strike c) (toContract c ''PE'') (pa_pe acc)\<rparr>)"

definition pair_up :: "instrument \<Rightarrow> instrument list \<Rightarrow> pair_acc" where
  "pair_up fut contracts = fold (add_option fut) contracts \<lparr>pa_ce = [], pa_pe = [], pa_ceOrder = [], pa_lotMismatch = False\<rparr>"

fun pick_future :: "string \<Rightarrow> listed \<Rightarrow> instrument list \<Rightarrow> chain_index option" where
  "pick_future underlying byExpiry [] = None"
| "pick_future underlying byExpiry (fut # futs) =
     (if \<not> f_pos (i_LotSize fut) then pick_future underlying byExpiry futs
      else case map_of byExpiry (i_Expiry fut) of
          None \<Rightarrow> pick_future underlying byExpiry futs
        | Some contracts \<Rightarrow>
            let p = pair_up fut contracts
            in if pa_lotMismatch p then None
               else let strikes = sort_lt f_lt (filter (\<lambda>s. fm_get (pa_pe p) s \<noteq> None) (pa_ceOrder p))
                 in if strikes = [] then pick_future underlying byExpiry futs
                    else Some \<lparr>ci_Underlying = underlying, ci_Expiry = i_Expiry fut, ci_LotSize = i_LotSize fut,
                      ci_StrikeStep = StrikeStep strikes, ci_Future = toContract fut ''FUT'', ci_Strikes = strikes,
                      ci_CE = pa_ce p, ci_PE = pa_pe p\<rparr>)"

definition expiry_before :: "instrument \<Rightarrow> instrument \<Rightarrow> bool" where
  "expiry_before a b \<longleftrightarrow> LocaleCompare (i_Expiry a) (i_Expiry b) < 0"

definition chain_for :: "(string \<times> listed) list \<Rightarrow> string \<times> instrument list \<Rightarrow> (string \<times> chain_index) list" where
  "chain_for options nf =
     (case map_of options (fst nf) of
        None \<Rightarrow> []
      | Some byExpiry \<Rightarrow>
          case pick_future (fst nf) byExpiry (sort_lt expiry_before (snd nf)) of
            None \<Rightarrow> []
          | Some ci \<Rightarrow> [(fst nf, ci)])"

definition IndexSyntheticChains :: "instrument list \<Rightarrow> string \<Rightarrow> (string \<times> chain_index) list" where
  "IndexSyntheticChains all today =
     (let (futures, options) = fold (classify today) all ([], [])
      in concat (map (chain_for options) futures))"

section \<open>Windows\<close>

definition window_put :: "chain_index \<Rightarrow> f64 \<Rightarrow> contract fmap \<times> contract fmap \<Rightarrow> contract fmap \<times> contract fmap" where
  "window_put chain s m = (case m of (ce, pe) \<Rightarrow> case (fm_get (ci_CE chain) s, fm_get (ci_PE chain) s) of
     (Some c, Some p) \<Rightarrow> (fm_put s c ce, fm_put s p pe) | _ \<Rightarrow> (ce, pe))"

definition BuildWindow :: "board_item \<Rightarrow> chain_index \<Rightarrow> f64 \<Rightarrow> nat \<Rightarrow> millis \<Rightarrow> window option" where
  "BuildWindow board chain ref eachSide now =
     (if \<not> f_pos ref then None
      else case SelectStrikeWindow (ci_Strikes chain) ref eachSide of
          None \<Rightarrow> None
        | Some (atm, picked) \<Rightarrow>
            let (ce, pe) = fold (window_put chain) picked ([], []);
                strikes = filter (\<lambda>s. fm_get ce s \<noteq> None) picked
            in Some \<lparr>w_Underlying = ci_Underlying chain, w_Name = bi_Name board, w_IsIndex = bi_IsIndex board,
                 w_Expiry = ci_Expiry chain, w_LotSize = ci_LotSize chain, w_StrikeStep = ci_StrikeStep chain,
                 w_AtmStrike = atm, w_Strikes = strikes, w_Future = ci_Future chain, w_CE = ce, w_PE = pe,
                 w_RefPrice = ref, w_WindowAt = now\<rparr>)"

definition WindowNeedsRebuild :: "window \<Rightarrow> f64 \<Rightarrow> millis \<Rightarrow> f64 \<Rightarrow> f64 \<Rightarrow> bool" where
  "WindowNeedsRebuild w ref now hysteresis minIntervalMs =
     (if \<not> f_pos ref then False
      else if f_lt (f_of_int (now - w_WindowAt w)) minIntervalMs then False
      else ShouldRecentreWindow (w_AtmStrike w) ref (w_StrikeStep w) hysteresis)"

definition WindowTokens :: "window \<Rightarrow> token list" where
  "WindowTokens w = c_Token (w_Future w) # concat (map (\<lambda>s. [c_Token (fm_at (w_CE w) s), c_Token (fm_at (w_PE w) s)]) (w_Strikes w))"

definition TokensFor :: "int \<Rightarrow> int" where
  "TokensFor eachSide = 1 + 2 * (2 * eachSide + 1)"

section \<open>Pricing one leg\<close>

definition YearsToExpiry :: "string \<Rightarrow> millis \<Rightarrow> f64" where
  "YearsToExpiry expiry now =
     (case jsDateParseDayAt10Z expiry of
        None \<Rightarrow> f_zero
      | Some settle \<Rightarrow> f_div (f_max f_zero (f_of_int (settle - now))) (f_of_int (365 * 24 * 60 * 60 * 1000)))"

definition direction_string :: "direction \<Rightarrow> string" where
  "direction_string d = (case d of Conversion \<Rightarrow> ''CONVERSION'' | Reversal \<Rightarrow> ''REVERSAL'')"

definition CandidateKey :: "string \<Rightarrow> string \<Rightarrow> f64 \<Rightarrow> direction \<Rightarrow> string" where
  "CandidateKey underlying expiry strike d =
     underlying @ ''|'' @ expiry @ ''|'' @ jsNumberString strike @ ''|'' @ direction_string d"

datatype reject = NoQuote | StaleQuote | MissingBid | MissingAsk | InsufficientQty | BelowNet | MarketClosed | NoClose | CrossedBook

datatype status = StatusEligible | StatusOpen | StatusWatching | StatusRejected | StatusIndicative

fun statusRank :: "status \<Rightarrow> int" where
  "statusRank StatusEligible = 0"
| "statusRank StatusOpen = 1"
| "statusRank StatusWatching = 2"
| "statusRank StatusIndicative = 3"
| "statusRank StatusRejected = 4"

record leg_eval =
  le_Role :: leg_role
  le_Side :: side
  le_Token :: token
  le_Tradingsymbol :: string
  le_Strike :: f64
  le_InstrumentType :: string
  le_Price :: "f64 option"
  le_QtyAtTouch :: f64
  le_Bid :: f64
  le_BidQty :: f64
  le_Ask :: f64
  le_AskQty :: f64
  le_Last :: f64
  le_AgeMs :: "int option"
  le_Fresh :: bool
  le_Executable :: bool

definition touchOf :: "quote_like \<Rightarrow> side \<Rightarrow> f64 \<times> f64" where
  "touchOf q s = (if s = Buy then (ql_Ask q, ql_AskQty q) else (ql_Bid q, ql_BidQty q))"

definition blank_leg :: "leg_role \<Rightarrow> side \<Rightarrow> contract \<Rightarrow> leg_eval" where
  "blank_leg role s inst =
     \<lparr>le_Role = role, le_Side = s, le_Token = c_Token inst, le_Tradingsymbol = c_Tradingsymbol inst,
      le_Strike = c_Strike inst, le_InstrumentType = c_InstrumentType inst, le_Price = None, le_QtyAtTouch = f_zero,
      le_Bid = f_zero, le_BidQty = f_zero, le_Ask = f_zero, le_AskQty = f_zero, le_Last = f_zero, le_AgeMs = None,
      le_Fresh = False, le_Executable = False\<rparr>"

definition leg_reject :: "quote_like \<Rightarrow> side \<Rightarrow> f64 \<Rightarrow> bool \<Rightarrow> reject option" where
  "leg_reject q s quantity fresh =
     (let (price, qty) = touchOf q s
      in if \<not> f_pos price then Some (if s = Buy then MissingAsk else MissingBid)
         else if f_pos (ql_Bid q) \<and> f_pos (ql_Ask q) \<and> f_le (ql_Ask q) (ql_Bid q) then Some CrossedBook
         else if f_lt qty quantity then Some InsufficientQty
         else if \<not> fresh then Some StaleQuote
         else None)"

definition quote_age :: "quote_like \<Rightarrow> millis \<Rightarrow> int" where
  "quote_age q now = (let age = now - ql_At q in if age < 0 then 0 else age)"

definition evaluateLeg ::
  "leg_role \<Rightarrow> side \<Rightarrow> contract \<Rightarrow> quote_like option \<Rightarrow> f64 \<Rightarrow> millis \<Rightarrow> f64 \<Rightarrow> leg_eval \<times> reject option" where
  "evaluateLeg role s inst qo quantity now maxAgeMs =
     (case qo of
        None \<Rightarrow> (blank_leg role s inst, Some NoQuote)
      | Some q \<Rightarrow>
          let age = quote_age q now;
              fresh = f_le (f_of_int age) maxAgeMs;
              (price, qty) = touchOf q s;
              reject = leg_reject q s quantity fresh
          in ((blank_leg role s inst)\<lparr>le_Price := (if f_pos price then Some price else None), le_QtyAtTouch := qty,
                le_Bid := ql_Bid q, le_BidQty := ql_BidQty q, le_Ask := ql_Ask q, le_AskQty := ql_AskQty q, le_Last := ql_Last q,
                le_AgeMs := Some age, le_Fresh := fresh, le_Executable := (reject = None)\<rparr>, reject))"

definition mid :: "quote_like option \<Rightarrow> f64 option" where
  "mid qo = (case qo of None \<Rightarrow> None
     | Some q \<Rightarrow> if \<not> f_pos (ql_Bid q) \<or> \<not> f_pos (ql_Ask q) then None else Some (f_div (f_add (ql_Bid q) (ql_Ask q)) (f_of_int 2)))"

section \<open>Charges of a set of orders\<close>

record charge_order =
  co_Role :: leg_role
  co_Side :: side
  co_Tradingsymbol :: string
  co_Price :: f64

definition add_charge :: "f64 \<Rightarrow> rates \<Rightarrow> rates \<Rightarrow> f64 \<Rightarrow> charge_order \<Rightarrow> f64" where
  "add_charge quantity optionRates futuresRates acc ord =
     f_add acc (n_Total (LegCharges
        \<lparr>o_Side = co_Side ord, o_Tradingsymbol = co_Tradingsymbol ord, o_Quantity = quantity, o_Price = Round2 (co_Price ord)\<rparr>
        (if co_Role ord = RoleFut then futuresRates else optionRates)))"

definition OrderCharges :: "charge_order list \<Rightarrow> f64 \<Rightarrow> rates \<Rightarrow> rates \<Rightarrow> f64" where
  "OrderCharges orders quantity optionRates futuresRates =
     Round2 (foldl (add_charge quantity optionRates futuresRates) f_zero orders)"

definition Charges :: "charge_order list \<Rightarrow> f64 \<Rightarrow> rates \<Rightarrow> rates \<Rightarrow> f64 \<times> f64" where
  "Charges legs quantity optionRates futuresRates =
     (OrderCharges legs quantity optionRates futuresRates,
      OrderCharges (map (\<lambda>l. l\<lparr>co_Side := flipSide (co_Side l)\<rparr>) legs) quantity optionRates futuresRates)"

section \<open>Evaluating one strike in one direction\<close>

record eval_params =
  ep_Quantity :: f64
  ep_Now :: millis
  ep_QuoteMaxAgeMs :: f64
  ep_RfPct :: f64
  ep_IncludeCarry :: bool
  ep_MinExpectedNetProfit :: f64
  ep_SafetyBuffer :: f64
  ep_ExpectedSlippage :: f64
  ep_OptionRates :: rates
  ep_FuturesRates :: rates
  ep_Indicative :: bool

record opportunity =
  op_Key :: string
  op_Underlying :: string
  op_Name :: string
  op_IsIndex :: bool
  op_Expiry :: string
  op_DaysToExpiry :: f64
  op_Strike :: f64
  op_AtmStrike :: f64
  op_AtmOffset :: f64
  op_StrikeStep :: f64
  op_LotSize :: f64
  op_Quantity :: f64
  op_Direction :: direction
  op_FuturePrice :: "f64 option"
  op_SyntheticPrice :: "f64 option"
  op_MidBasis :: "f64 option"
  op_MispricingPerUnit :: "f64 option"
  op_CarryPerUnit :: f64
  op_GrossPerUnit :: "f64 option"
  op_GrossEdge :: "f64 option"
  op_EntryCharges :: "f64 option"
  op_EstimatedExitCharges :: "f64 option"
  op_ExpectedSlippage :: f64
  op_SafetyBuffer :: f64
  op_ExpectedNetProfit :: "f64 option"
  op_MinExpectedNetProfit :: f64
  op_RfPct :: f64
  op_DepthOK :: bool
  op_LiquidityOK :: bool
  op_WorstAgeMs :: "int option"
  op_PriceSource :: string
  op_Status :: status
  op_Reject :: "reject option"
  op_EntryBlocked :: "string option"
  op_PositionID :: "string option"
  op_Legs :: "leg_eval list"
  op_UpdatedAt :: millis

definition leg_contract :: "window \<Rightarrow> f64 \<Rightarrow> leg_role \<Rightarrow> contract" where
  "leg_contract w strike role = (case role of RoleFut \<Rightarrow> w_Future w | RoleCE \<Rightarrow> fm_at (w_CE w) strike | RolePE \<Rightarrow> fm_at (w_PE w) strike)"

text \<open>One leg of the evaluation, from the last close when indicative, else at the touch.\<close>

definition eval_leg ::
  "window \<Rightarrow> f64 \<Rightarrow> direction \<Rightarrow> (token \<Rightarrow> quote_like option) \<Rightarrow> eval_params \<Rightarrow> leg_role \<Rightarrow> leg_eval \<times> reject option" where
  "eval_leg w strike d quoteFor p role =
     (let inst = leg_contract w strike role; s = EntrySide d role; q = quoteFor (c_Token inst)
      in if ep_Indicative p
         then let l = (case q of None \<Rightarrow> f_zero | Some x \<Rightarrow> ql_Last x)
           in if f_pos l then ((blank_leg role s inst)\<lparr>le_Last := l, le_Price := Some l\<rparr>, None)
              else ((blank_leg role s inst)\<lparr>le_Last := l\<rparr>, Some NoClose)
         else evaluateLeg role s inst q (ep_Quantity p) (ep_Now p) (ep_QuoteMaxAgeMs p))"

definition first_reject :: "(leg_eval \<times> reject option) list \<Rightarrow> reject option" where
  "first_reject rs = foldl (\<lambda>r x. if r = None then snd x else r) None rs"

definition worst_age :: "leg_eval list \<Rightarrow> int option" where
  "worst_age legs = foldl (\<lambda>w l. case le_AgeMs l of None \<Rightarrow> w | Some a \<Rightarrow> Some (max (the_default 0 w) a)) None legs"

fun indexOf :: "f64 list \<Rightarrow> f64 \<Rightarrow> int" where
  "indexOf [] v = - 1"
| "indexOf (x # xs) v = (if f_eq x v then 0 else let i = indexOf xs v in if i < 0 then - 1 else i + 1)"

definition mid_of :: "bool \<Rightarrow> quote_like option \<Rightarrow> f64 option" where
  "mid_of indicative q =
     (if indicative
      then (case q of Some x \<Rightarrow> if \<not> f_eq (ql_Last x) f_zero \<and> \<not> is_nan (ql_Last x) then Some (ql_Last x) else None | None \<Rightarrow> None)
      else mid q)"

text \<open>Synthetic price, mispricing and carry per unit from the three leg prices.\<close>

definition lock_per_unit :: "direction \<Rightarrow> f64 \<Rightarrow> eval_params \<Rightarrow> f64 \<Rightarrow> f64 \<Rightarrow> f64 \<Rightarrow> f64 \<Rightarrow> f64 \<times> f64 \<times> f64" where
  "lock_per_unit d strike p years fut ce pe =
     (let netPremium = f_sub ce pe;
          s = f_add strike netPremium;
          m = (if d \<noteq> Conversion then f_sub fut s else f_sub s fut);
          carry = (if ep_IncludeCarry p \<and> \<not> f_eq (ep_RfPct p) f_zero
            then let interest = f_mul (f_mul netPremium (f_div (ep_RfPct p) (f_of_int 100))) years
              in if d \<noteq> Conversion then f_neg interest else interest
            else f_zero)
      in (s, m, carry))"

definition decide_status :: "eval_params \<Rightarrow> reject option \<Rightarrow> f64 option \<Rightarrow> status \<times> reject option" where
  "decide_status p reject expectedNet =
     (if ep_Indicative p then (StatusIndicative, if reject = None then Some MarketClosed else reject)
      else if reject \<noteq> None then (StatusRejected, reject)
      else if (case expectedNet of Some n \<Rightarrow> f_le (ep_MinExpectedNetProfit p) n | None \<Rightarrow> False) then (StatusEligible, reject)
      else (StatusWatching, Some BelowNet))"

definition leg_quote :: "window \<Rightarrow> f64 \<Rightarrow> (token \<Rightarrow> quote_like option) \<Rightarrow> leg_role \<Rightarrow> quote_like option" where
  "leg_quote w strike quoteFor role = quoteFor (c_Token (leg_contract w strike role))"

definition leg_price :: "window \<Rightarrow> f64 \<Rightarrow> direction \<Rightarrow> (token \<Rightarrow> quote_like option) \<Rightarrow> eval_params \<Rightarrow> leg_role \<Rightarrow> f64 option" where
  "leg_price w strike d quoteFor p role = le_Price (fst (eval_leg w strike d quoteFor p role))"

definition leg_deep :: "f64 \<Rightarrow> leg_eval \<Rightarrow> bool" where
  "leg_deep quantity l \<longleftrightarrow> le_Price l \<noteq> None \<and> f_le quantity (le_QtyAtTouch l)"

definition EvaluateSynthetic ::
  "window \<Rightarrow> f64 \<Rightarrow> direction \<Rightarrow> (token \<Rightarrow> quote_like option) \<Rightarrow> eval_params \<Rightarrow> opportunity" where
  "EvaluateSynthetic w strike d quoteFor p =
     (let inst = leg_contract w strike;
          q = leg_quote w strike quoteFor;
          rs = map (eval_leg w strike d quoteFor p) LegRoles;
          legs = map fst rs;
          price = leg_price w strike d quoteFor p;
          years = YearsToExpiry (w_Expiry w) (ep_Now p);
          lock = (case (price RoleFut, price RoleCE, price RolePE) of
              (Some fut, Some ce, Some pe) \<Rightarrow> Some (lock_per_unit d strike p years fut ce pe)
            | _ \<Rightarrow> None);
          carry = (case lock of Some (s, m, c) \<Rightarrow> c | None \<Rightarrow> f_zero);
          midBasis = (case (mid_of (ep_Indicative p) (q RoleFut), mid_of (ep_Indicative p) (q RoleCE), mid_of (ep_Indicative p) (q RolePE)) of
              (Some f, Some c, Some x) \<Rightarrow> Some (Round2 (f_sub f (f_sub (f_add strike c) x)))
            | _ \<Rightarrow> None);
          gross = (case lock of Some (s, m, c) \<Rightarrow> Some (f_add m c) | None \<Rightarrow> None);
          grossEdge = (case gross of Some g \<Rightarrow> Some (Round2 (f_mul g (ep_Quantity p))) | None \<Rightarrow> None);
          charges = (case (price RoleFut, price RoleCE, price RolePE) of
              (Some fut, Some ce, Some pe) \<Rightarrow> Some (Charges
                [\<lparr>co_Role = RoleFut, co_Side = EntrySide d RoleFut, co_Tradingsymbol = c_Tradingsymbol (inst RoleFut), co_Price = fut\<rparr>,
                 \<lparr>co_Role = RoleCE, co_Side = EntrySide d RoleCE, co_Tradingsymbol = c_Tradingsymbol (inst RoleCE), co_Price = ce\<rparr>,
                 \<lparr>co_Role = RolePE, co_Side = EntrySide d RolePE, co_Tradingsymbol = c_Tradingsymbol (inst RolePE), co_Price = pe\<rparr>]
                (ep_Quantity p) (ep_OptionRates p) (ep_FuturesRates p))
            | _ \<Rightarrow> None);
          expectedNet = (case (grossEdge, charges) of
              (Some g, Some (en, ex)) \<Rightarrow> Some (Round2 (f_sub (f_sub (f_sub (f_sub g en) ex) (ep_ExpectedSlippage p)) (ep_SafetyBuffer p)))
            | _ \<Rightarrow> None);
          (st, reject) = decide_status p (first_reject rs) expectedNet;
          atmIdx = indexOf (w_Strikes w) (w_AtmStrike w); idx = indexOf (w_Strikes w) strike
      in \<lparr>op_Key = CandidateKey (w_Underlying w) (w_Expiry w) strike d, op_Underlying = w_Underlying w, op_Name = w_Name w,
          op_IsIndex = w_IsIndex w, op_Expiry = w_Expiry w, op_DaysToExpiry = Round2 (f_mul years (f_of_int 365)), op_Strike = strike,
          op_AtmStrike = w_AtmStrike w, op_AtmOffset = (if atmIdx \<ge> 0 \<and> idx \<ge> 0 then f_of_int (idx - atmIdx) else f_zero),
          op_StrikeStep = w_StrikeStep w, op_LotSize = w_LotSize w, op_Quantity = ep_Quantity p, op_Direction = d,
          op_FuturePrice = price RoleFut,
          op_SyntheticPrice = (case lock of Some (s, m, c) \<Rightarrow> Some (Round2 s) | None \<Rightarrow> None),
          op_MidBasis = midBasis,
          op_MispricingPerUnit = (case lock of Some (s, m, c) \<Rightarrow> Some (Round2 m) | None \<Rightarrow> None),
          op_CarryPerUnit = Round2 carry,
          op_GrossPerUnit = (case gross of Some g \<Rightarrow> Some (Round2 g) | None \<Rightarrow> None),
          op_GrossEdge = grossEdge, op_EntryCharges = map_option fst charges, op_EstimatedExitCharges = map_option snd charges,
          op_ExpectedSlippage = ep_ExpectedSlippage p, op_SafetyBuffer = ep_SafetyBuffer p, op_ExpectedNetProfit = expectedNet,
          op_MinExpectedNetProfit = ep_MinExpectedNetProfit p, op_RfPct = ep_RfPct p,
          op_DepthOK = (\<not> ep_Indicative p \<and> list_all (leg_deep (ep_Quantity p)) legs),
          op_LiquidityOK = (\<not> ep_Indicative p \<and> list_all le_Executable legs),
          op_WorstAgeMs = (if ep_Indicative p then None else worst_age legs),
          op_PriceSource = (if ep_Indicative p then ''last_close'' else ''touch''),
          op_Status = st, op_Reject = reject, op_EntryBlocked = None, op_PositionID = None, op_Legs = legs, op_UpdatedAt = ep_Now p\<rparr>)"

section \<open>Ranking\<close>

definition net_rank :: "opportunity \<Rightarrow> f64" where
  "net_rank o1 = (case op_ExpectedNetProfit o1 of None \<Rightarrow> Inf True | Some n \<Rightarrow> n)"

definition compareOpportunities :: "opportunity \<Rightarrow> opportunity \<Rightarrow> int" where
  "compareOpportunities a b =
     (let r = statusRank (op_Status a) - statusRank (op_Status b); an = net_rank a; bn = net_rank b
      in if r \<noteq> 0 then r
         else if \<not> f_eq an bn then (if f_lt (f_sub bn an) f_zero then - 1 else 1)
         else LocaleCompare (op_Key a) (op_Key b))"

definition SortOpportunities :: "opportunity list \<Rightarrow> opportunity list" where
  "SortOpportunities os = sort_lt (\<lambda>a b. compareOpportunities a b < 0) os"

section \<open>Paper trades\<close>

datatype exit_reason = ExitEdgeConverged | ExitProfitCapture | ExitExpirySafety | ExitExpired | ExitManual

datatype blocked = BlockedUnpriced | BlockedNetBelow | BlockedExitLiquidity

record depth2 =
  d2_Bids :: "(f64 \<times> f64) list"
  d2_Asks :: "(f64 \<times> f64) list"

definition DepthOf :: "depth_level list \<Rightarrow> depth_level list \<Rightarrow> bool \<Rightarrow> depth2 option" where
  "DepthOf bids asks present =
     (if \<not> present then None
      else let pick = (\<lambda>levels. map (\<lambda>l. (dl_Price l, dl_Qty l)) (take 5 levels)) in Some \<lparr>d2_Bids = pick bids, d2_Asks = pick asks\<rparr>)"

text \<open>An optional field of a stored leg: absent, null or a value.\<close>

type_synonym opt_num = "f64 option option"
type_synonym opt_depth = "depth2 option option"

record trade_leg =
  tl_Role :: leg_role
  tl_Side :: side
  tl_InstrumentType :: string
  tl_Strike :: f64
  tl_Tradingsymbol :: string
  tl_Token :: token
  tl_EntryPrice :: f64
  tl_EntryBid :: f64
  tl_EntryAsk :: f64
  tl_EntryBidQty :: opt_num
  tl_EntryAskQty :: opt_num
  tl_EntryQtyAtTouch :: opt_num
  tl_EntryAgeMs :: opt_num
  tl_EntryDepth :: opt_depth
  tl_ExitPrice :: "f64 option"
  tl_ExitBid :: "f64 option"
  tl_ExitAsk :: "f64 option"
  tl_ExitBidQty :: opt_num
  tl_ExitAskQty :: opt_num
  tl_ExitQtyAtTouch :: opt_num
  tl_ExitAgeMs :: opt_num
  tl_ExitDepth :: opt_depth

definition fill_null :: "'a option option \<Rightarrow> 'a option option" where
  "fill_null x = Some (the_default None x)"

definition withStoredDefaults :: "trade_leg \<Rightarrow> trade_leg" where
  "withStoredDefaults l =
     l\<lparr>tl_EntryBidQty := fill_null (tl_EntryBidQty l), tl_EntryAskQty := fill_null (tl_EntryAskQty l),
       tl_EntryQtyAtTouch := fill_null (tl_EntryQtyAtTouch l), tl_EntryAgeMs := fill_null (tl_EntryAgeMs l),
       tl_ExitBidQty := fill_null (tl_ExitBidQty l), tl_ExitAskQty := fill_null (tl_ExitAskQty l),
       tl_ExitQtyAtTouch := fill_null (tl_ExitQtyAtTouch l), tl_ExitAgeMs := fill_null (tl_ExitAgeMs l),
       tl_EntryDepth := fill_null (tl_EntryDepth l), tl_ExitDepth := fill_null (tl_ExitDepth l)\<rparr>"

datatype trade_status = TOpen | TClosed

record trade =
  tr_ID :: string
  tr_Status :: trade_status
  tr_Key :: string
  tr_Broker :: string
  tr_ExecutionMode :: string
  tr_OrderType :: string
  tr_Underlying :: string
  tr_Name :: string
  tr_IsIndex :: bool
  tr_Expiry :: string
  tr_Strike :: f64
  tr_AtmStrike :: f64
  tr_AtmOffset :: f64
  tr_Direction :: direction
  tr_LotSize :: f64
  tr_Quantity :: f64
  tr_OpenedAt :: millis
  tr_OpenedDay :: string
  tr_Legs :: "trade_leg list"
  tr_EntryFuturePrice :: f64
  tr_EntrySyntheticPrice :: f64
  tr_EntryLockPerUnit :: f64
  tr_EntryCarryPerUnit :: f64
  tr_EntryEdge :: f64
  tr_EntryGrossEdge :: f64
  tr_EntryCharges :: f64
  tr_EstimatedExitCharges :: f64
  tr_EntryNetEdge :: f64
  tr_ExpectedNetProfit :: f64
  tr_MinExpectedNetProfit :: f64
  tr_SafetyBuffer :: f64
  tr_ExpectedSlippage :: f64
  tr_RfPct :: f64
  tr_OptionRateVersion :: string
  tr_FuturesRateVersion :: string
  tr_ClosedAt :: "millis option"
  tr_ClosedDay :: "string option"
  tr_ExitReason :: "exit_reason option"
  tr_GrossPnl :: "f64 option"
  tr_ExitCharges :: "f64 option"
  tr_TotalCharges :: "f64 option"
  tr_NetPnl :: "f64 option"
  tr_ExitNote :: "string option"
  tr_Margin :: "f64 option"
  tr_MarginSource :: "string option"
  tr_MarginHedgeBenefit :: "f64 option"
  tr_MarginAt :: "millis option"
  tr_MarginError :: "string option"

record margin_patch =
  mp_Margin :: "f64 option"
  mp_MarginSource :: "string option"
  mp_MarginHedgeBenefit :: "f64 option"
  mp_MarginAt :: "millis option"
  mp_MarginError :: "string option"

definition marginOf :: "trade \<Rightarrow> margin_patch" where
  "marginOf t = \<lparr>mp_Margin = tr_Margin t, mp_MarginSource = tr_MarginSource t, mp_MarginHedgeBenefit = tr_MarginHedgeBenefit t,
     mp_MarginAt = tr_MarginAt t, mp_MarginError = tr_MarginError t\<rparr>"

definition applyMargin :: "margin_patch \<Rightarrow> trade \<Rightarrow> trade" where
  "applyMargin p t = t\<lparr>tr_Margin := mp_Margin p, tr_MarginSource := mp_MarginSource p, tr_MarginHedgeBenefit := mp_MarginHedgeBenefit p,
     tr_MarginAt := mp_MarginAt p, tr_MarginError := mp_MarginError p\<rparr>"

type_synonym depth_func = "(token \<Rightarrow> depth2 option) option"

definition depth_at :: "depth_func \<Rightarrow> token \<Rightarrow> depth2 option" where
  "depth_at depthFor t = (case depthFor of None \<Rightarrow> None | Some f \<Rightarrow> f t)"

definition entry_leg :: "depth_func \<Rightarrow> leg_eval \<Rightarrow> trade_leg option" where
  "entry_leg depthFor l =
     (case le_Price l of
        None \<Rightarrow> None
      | Some price \<Rightarrow>
          if \<not> f_pos price \<or> \<not> le_Executable l then None
          else Some \<lparr>tl_Role = le_Role l, tl_Side = le_Side l, tl_InstrumentType = le_InstrumentType l, tl_Strike = le_Strike l,
            tl_Tradingsymbol = le_Tradingsymbol l, tl_Token = le_Token l, tl_EntryPrice = price, tl_EntryBid = le_Bid l,
            tl_EntryAsk = le_Ask l, tl_EntryBidQty = Some (Some (le_BidQty l)), tl_EntryAskQty = Some (Some (le_AskQty l)),
            tl_EntryQtyAtTouch = Some (Some (le_QtyAtTouch l)), tl_EntryAgeMs = Some (map_option f_of_int (le_AgeMs l)),
            tl_EntryDepth = Some (depth_at depthFor (le_Token l)), tl_ExitPrice = None, tl_ExitBid = None, tl_ExitAsk = None,
            tl_ExitBidQty = None, tl_ExitAskQty = None, tl_ExitQtyAtTouch = None, tl_ExitAgeMs = None, tl_ExitDepth = None\<rparr>)"

fun all_some :: "'a option list \<Rightarrow> 'a list option" where
  "all_some [] = Some []"
| "all_some (None # xs) = None"
| "all_some (Some x # xs) = map_option (Cons x) (all_some xs)"

definition OpenTradeFromOpportunity ::
  "opportunity \<Rightarrow> string \<Rightarrow> string \<Rightarrow> millis \<Rightarrow> string \<Rightarrow> string \<Rightarrow> string \<Rightarrow> depth_func \<Rightarrow> trade option" where
  "OpenTradeFromOpportunity opp tid broker now day optionRateVersion futuresRateVersion depthFor =
     (if op_PriceSource opp \<noteq> ''touch'' then None
      else case (op_FuturePrice opp, op_SyntheticPrice opp, op_MispricingPerUnit opp, op_GrossEdge opp, op_EntryCharges opp,
          op_EstimatedExitCharges opp, op_ExpectedNetProfit opp) of
        (Some fut, Some syn, Some mis, Some grossEdge, Some en, Some ex, Some net) \<Rightarrow>
          (case all_some (map (entry_leg depthFor) (op_Legs opp)) of
             None \<Rightarrow> None
           | Some legs \<Rightarrow>
               let entryEdge = Round2 (f_mul mis (op_Quantity opp))
               in Some \<lparr>tr_ID = tid, tr_Status = TOpen, tr_Key = op_Key opp, tr_Broker = broker, tr_ExecutionMode = ''paper_touch'',
                 tr_OrderType = ''LIMIT'', tr_Underlying = op_Underlying opp, tr_Name = op_Name opp, tr_IsIndex = op_IsIndex opp,
                 tr_Expiry = op_Expiry opp, tr_Strike = op_Strike opp, tr_AtmStrike = op_AtmStrike opp, tr_AtmOffset = op_AtmOffset opp,
                 tr_Direction = op_Direction opp, tr_LotSize = op_LotSize opp, tr_Quantity = op_Quantity opp, tr_OpenedAt = now,
                 tr_OpenedDay = day, tr_Legs = legs, tr_EntryFuturePrice = fut, tr_EntrySyntheticPrice = syn, tr_EntryLockPerUnit = mis,
                 tr_EntryCarryPerUnit = op_CarryPerUnit opp, tr_EntryEdge = entryEdge, tr_EntryGrossEdge = grossEdge, tr_EntryCharges = en,
                 tr_EstimatedExitCharges = ex, tr_EntryNetEdge = Round2 (f_sub (f_sub entryEdge en) ex), tr_ExpectedNetProfit = net,
                 tr_MinExpectedNetProfit = op_MinExpectedNetProfit opp, tr_SafetyBuffer = op_SafetyBuffer opp,
                 tr_ExpectedSlippage = op_ExpectedSlippage opp, tr_RfPct = op_RfPct opp, tr_OptionRateVersion = optionRateVersion,
                 tr_FuturesRateVersion = futuresRateVersion, tr_ClosedAt = None, tr_ClosedDay = None, tr_ExitReason = None,
                 tr_GrossPnl = None, tr_ExitCharges = None, tr_TotalCharges = None, tr_NetPnl = None, tr_ExitNote = None,
                 tr_Margin = None, tr_MarginSource = None, tr_MarginHedgeBenefit = None, tr_MarginAt = None, tr_MarginError = None\<rparr>)
      | _ \<Rightarrow> None)"

section \<open>Exits\<close>

record exit_rules =
  xr_ConvergenceFloor :: f64
  xr_ConvergencePct :: f64
  xr_MinExitNetPnl :: f64
  xr_ProfitCapturePct :: f64
  xr_MinCapturedPct :: f64

record exit_leg =
  xl_Role :: leg_role
  xl_Side :: side
  xl_Tradingsymbol :: string
  xl_Token :: token
  xl_EntryPrice :: f64
  xl_Price :: "f64 option"
  xl_QtyAtTouch :: f64
  xl_Bid :: f64
  xl_BidQty :: f64
  xl_Ask :: f64
  xl_AskQty :: f64
  xl_Ltp :: "f64 option"
  xl_AgeMs :: "int option"
  xl_Fresh :: bool
  xl_Executable :: bool
  xl_Reject :: "reject option"

record exit_metrics =
  xm_Legs :: "exit_leg list"
  xm_Executable :: bool
  xm_MtmLtp :: "f64 option"
  xm_GrossPnl :: "f64 option"
  xm_ExitCharges :: "f64 option"
  xm_TotalCharges :: "f64 option"
  xm_NetPnl :: "f64 option"
  xm_RemainingEdge :: "f64 option"
  xm_CapturedEdge :: "f64 option"
  xm_CapturedPct :: "f64 option"
  xm_ConvergenceThreshold :: f64
  xm_ProfitCaptureTarget :: f64
  xm_MinExitNetPnl :: f64
  xm_ExpirySafety :: bool
  xm_ShouldExit :: bool
  xm_Reason :: "exit_reason option"
  xm_RuleReason :: "exit_reason option"
  xm_BlockedReason :: "blocked option"

record exit_params =
  xp_Now :: millis
  xp_QuoteMaxAgeMs :: f64
  xp_ExpirySafety :: bool
  xp_Rules :: exit_rules
  xp_OptionRates :: rates
  xp_FuturesRates :: rates

definition exit_contract :: "trade \<Rightarrow> trade_leg \<Rightarrow> contract" where
  "exit_contract t leg = \<lparr>c_Token = tl_Token leg, c_Tradingsymbol = tl_Tradingsymbol leg, c_Exchange = ''NFO'', c_Strike = tl_Strike leg,
     c_InstrumentType = tl_InstrumentType leg, c_Expiry = tr_Expiry t, c_LotSize = tr_LotSize t, c_TickSize = None\<rparr>"

definition price_exit_leg :: "trade \<Rightarrow> (token \<Rightarrow> quote_like option) \<Rightarrow> (token \<Rightarrow> f64 option) \<Rightarrow> exit_params \<Rightarrow> trade_leg \<Rightarrow> exit_leg" where
  "price_exit_leg t quoteFor ltpFor p leg =
     (let s = flipSide (tl_Side leg);
          (r, reject) = evaluateLeg (tl_Role leg) s (exit_contract t leg) (quoteFor (tl_Token leg)) (tr_Quantity t) (xp_Now p) (xp_QuoteMaxAgeMs p)
      in \<lparr>xl_Role = tl_Role leg, xl_Side = s, xl_Tradingsymbol = tl_Tradingsymbol leg, xl_Token = tl_Token leg, xl_EntryPrice = tl_EntryPrice leg,
          xl_Price = le_Price r, xl_QtyAtTouch = le_QtyAtTouch r, xl_Bid = le_Bid r, xl_BidQty = le_BidQty r, xl_Ask = le_Ask r,
          xl_AskQty = le_AskQty r, xl_Ltp = ltpFor (tl_Token leg), xl_AgeMs = le_AgeMs r, xl_Fresh = le_Fresh r, xl_Executable = le_Executable r,
          xl_Reject = reject\<rparr>)"

text \<open>A long leg gains when its price rises, a short leg when it falls. The closing side of a leg entered BUY is SELL.\<close>

definition exit_sign :: "exit_leg \<Rightarrow> f64" where
  "exit_sign l = (if xl_Side l = Sell then f_of_int 1 else f_of_int (- 1))"

definition add_gross :: "f64 \<Rightarrow> exit_leg \<Rightarrow> f64" where
  "add_gross g l = (case xl_Price l of None \<Rightarrow> g | Some x \<Rightarrow> f_add g (f_mul (exit_sign l) (f_sub x (xl_EntryPrice l))))"

definition gross_per_unit :: "exit_leg list \<Rightarrow> f64" where
  "gross_per_unit legs = foldl add_gross f_zero legs"

definition ltp_marked :: "exit_leg \<Rightarrow> bool" where
  "ltp_marked l = (case xl_Ltp l of None \<Rightarrow> False | Some x \<Rightarrow> f_pos x)"

definition add_mtm :: "f64 \<Rightarrow> exit_leg \<Rightarrow> f64" where
  "add_mtm g l = (case xl_Ltp l of None \<Rightarrow> g | Some x \<Rightarrow> if f_pos x then f_add g (f_mul (exit_sign l) (f_sub x (xl_EntryPrice l))) else g)"

definition mtm_per_unit :: "exit_leg list \<Rightarrow> f64" where
  "mtm_per_unit legs = foldl add_mtm f_zero legs"

definition closing_order :: "exit_leg \<Rightarrow> charge_order list" where
  "closing_order l = (case xl_Price l of None \<Rightarrow> []
     | Some x \<Rightarrow> [\<lparr>co_Role = xl_Role l, co_Side = xl_Side l, co_Tradingsymbol = xl_Tradingsymbol l, co_Price = x\<rparr>])"

definition closing_orders :: "exit_leg list \<Rightarrow> charge_order list" where
  "closing_orders legs = concat (map closing_order legs)"

definition exit_decision :: "exit_rules \<Rightarrow> f64 \<Rightarrow> f64 \<Rightarrow> f64 option \<Rightarrow> f64 option \<Rightarrow> f64 option \<Rightarrow> exit_reason option \<times> blocked option" where
  "exit_decision rules threshold captureTarget netPnl remaining capturedPct =
     (case netPnl of
        None \<Rightarrow> (None, Some BlockedUnpriced)
      | Some net \<Rightarrow>
          (case remaining of
             Some rem \<Rightarrow>
               if f_pos net
               then let clearsFloor = f_le (xr_MinExitNetPnl rules) net;
                        converged = f_le rem threshold;
                        capturedEnough = (f_le captureTarget net \<or> (case capturedPct of Some c \<Rightarrow> f_le (xr_MinCapturedPct rules) c | None \<Rightarrow> False))
                 in if converged \<and> clearsFloor then (Some ExitEdgeConverged, None)
                    else if clearsFloor \<and> capturedEnough then (Some ExitProfitCapture, None)
                    else if converged \<or> capturedEnough then (None, Some BlockedNetBelow)
                    else (None, None)
               else if f_le rem threshold then (None, Some BlockedNetBelow)
               else (None, None)
           | None \<Rightarrow> (None, None)))"

definition EvaluateExit :: "trade \<Rightarrow> (token \<Rightarrow> quote_like option) \<Rightarrow> (token \<Rightarrow> f64 option) \<Rightarrow> exit_params \<Rightarrow> exit_metrics" where
  "EvaluateExit t quoteFor ltpFor p =
     (let rules = xp_Rules p;
          legs = map (price_exit_leg t quoteFor ltpFor p) (tr_Legs t);
          priced = list_all (\<lambda>l. xl_Price l \<noteq> None) legs;
          marked = list_all ltp_marked legs;
          grossPnl = (if priced then Some (Round2 (f_mul (gross_per_unit legs) (tr_Quantity t))) else None);
          exitCharges = (if priced then Some (OrderCharges (closing_orders legs) (tr_Quantity t) (xp_OptionRates p) (xp_FuturesRates p)) else None);
          totalCharges = map_option (\<lambda>x. Round2 (f_add (tr_EntryCharges t) x)) exitCharges;
          netPnl = (case (grossPnl, totalCharges) of (Some g, Some c) \<Rightarrow> Some (Round2 (f_sub g c)) | _ \<Rightarrow> None);
          remaining = map_option (\<lambda>g. Round2 (f_sub (tr_EntryEdge t) g)) grossPnl;
          capturedPct = (case grossPnl of Some g \<Rightarrow> if f_pos (f_abs (tr_EntryEdge t)) then Some (Round2 (f_div g (f_abs (tr_EntryEdge t)))) else None
            | None \<Rightarrow> None);
          threshold = Round2 (f_max (xr_ConvergenceFloor rules) (f_mul (xr_ConvergencePct rules) (tr_EntryNetEdge t)));
          captureTarget = Round2 (f_mul (xr_ProfitCapturePct rules) (tr_EntryNetEdge t));
          executable = (length legs = 3 \<and> list_all xl_Executable legs);
          (ruleReason, blocked) = exit_decision rules threshold captureTarget netPnl remaining capturedPct;
          reason = (if executable then (if ruleReason = None \<and> xp_ExpirySafety p then Some ExitExpirySafety else ruleReason) else None);
          blocked = (if (ruleReason \<noteq> None \<or> xp_ExpirySafety p) \<and> \<not> executable then Some BlockedExitLiquidity else blocked)
      in \<lparr>xm_Legs = legs, xm_Executable = executable,
          xm_MtmLtp = (if marked then Some (Round2 (f_mul (mtm_per_unit legs) (tr_Quantity t))) else None),
          xm_GrossPnl = grossPnl, xm_ExitCharges = exitCharges, xm_TotalCharges = totalCharges, xm_NetPnl = netPnl, xm_RemainingEdge = remaining,
          xm_CapturedEdge = grossPnl, xm_CapturedPct = capturedPct, xm_ConvergenceThreshold = threshold, xm_ProfitCaptureTarget = captureTarget,
          xm_MinExitNetPnl = xr_MinExitNetPnl rules, xm_ExpirySafety = xp_ExpirySafety p, xm_ShouldExit = (reason \<noteq> None), xm_Reason = reason,
          xm_RuleReason = ruleReason, xm_BlockedReason = blocked\<rparr>)"

definition close_leg :: "exit_leg list \<Rightarrow> depth_func \<Rightarrow> trade_leg \<Rightarrow> trade_leg" where
  "close_leg exits depthFor leg =
     (case map_of (rev (map (\<lambda>l. (xl_Role l, l)) exits)) (tl_Role leg) of
        None \<Rightarrow> leg\<lparr>tl_ExitPrice := None, tl_ExitBid := None, tl_ExitAsk := None, tl_ExitBidQty := Some None, tl_ExitAskQty := Some None,
          tl_ExitQtyAtTouch := Some None, tl_ExitAgeMs := Some None, tl_ExitDepth := Some None\<rparr>
      | Some ex \<Rightarrow> leg\<lparr>tl_ExitPrice := xl_Price ex, tl_ExitBid := Some (xl_Bid ex), tl_ExitAsk := Some (xl_Ask ex),
          tl_ExitBidQty := Some (Some (xl_BidQty ex)), tl_ExitAskQty := Some (Some (xl_AskQty ex)),
          tl_ExitQtyAtTouch := Some (Some (xl_QtyAtTouch ex)), tl_ExitAgeMs := Some (map_option f_of_int (xl_AgeMs ex)),
          tl_ExitDepth := Some (depth_at depthFor (xl_Token ex))\<rparr>)"

definition CloseTradeAtTouch :: "trade \<Rightarrow> exit_metrics \<Rightarrow> exit_reason option \<Rightarrow> millis \<Rightarrow> string \<Rightarrow> depth_func \<Rightarrow> trade option" where
  "CloseTradeAtTouch t m reason now day depthFor =
     (case (xm_Executable m, xm_GrossPnl m, xm_ExitCharges m) of
        (True, Some gross, Some charges) \<Rightarrow>
          Some (t\<lparr>tr_Legs := map (close_leg (xm_Legs m) depthFor) (tr_Legs t), tr_Status := TClosed, tr_ClosedAt := Some now,
            tr_ClosedDay := Some day, tr_ExitReason := reason, tr_GrossPnl := Some gross, tr_ExitCharges := Some charges,
            tr_TotalCharges := Some (Round2 (f_add (tr_EntryCharges t) charges)),
            tr_NetPnl := Some (Round2 (f_sub (f_sub gross (tr_EntryCharges t)) charges)), tr_ExitNote := None\<rparr>)
      | _ \<Rightarrow> None)"

definition settleNote :: string where
  "settleNote = ''Held to expiry and settled at the parity lock. Exit charges are the unwind estimate recorded at entry; exercise and delivery charges are not modelled.''"

definition SettleTradeAtExpiry :: "trade \<Rightarrow> millis \<Rightarrow> string \<Rightarrow> trade" where
  "SettleTradeAtExpiry t now day =
     (let exitCharges = tr_EstimatedExitCharges t; total = Round2 (f_add (tr_EntryCharges t) exitCharges)
      in t\<lparr>tr_Status := TClosed, tr_ClosedAt := Some now, tr_ClosedDay := Some day, tr_ExitReason := Some ExitExpired,
           tr_GrossPnl := Some (tr_EntryEdge t), tr_ExitCharges := Some exitCharges, tr_TotalCharges := Some total,
           tr_NetPnl := Some (Round2 (f_sub (tr_EntryEdge t) total)), tr_ExitNote := Some settleNote\<rparr>)"

definition InExpirySafetyWindow :: "string \<Rightarrow> string \<Rightarrow> millis \<Rightarrow> f64 \<Rightarrow> bool" where
  "InExpirySafetyWindow expiry today now minutes \<longleftrightarrow>
     expiry = today \<and> f_le (f_sub (f_of_int ISTCloseMinutes) minutes) (f_of_int (ISTMinutesOfDay now))"

section \<open>The day's profit and loss\<close>

record day_pnl =
  dp_Day :: string
  dp_OpenCount :: nat
  dp_OpenMtmLtp :: f64
  dp_OpenUnmarkedCount :: nat
  dp_OpenRunningGrossPnl :: f64
  dp_OpenRunningNetPnl :: f64
  dp_OpenUnpricedCount :: nat
  dp_ClosedCount :: nat
  dp_ClosedRealisedGrossPnl :: f64
  dp_ClosedCharges :: f64
  dp_ClosedRealisedNetPnl :: f64
  dp_TotalNetPnl :: f64
  dp_TotalGrossPnl :: f64
  dp_OpenMargin :: f64
  dp_OpenMarginUnknown :: nat
  dp_ClosedMargin :: f64
  dp_ClosedMarginUnknown :: nat

record open_mark =
  om_MtmLtp :: "f64 option"
  om_GrossPnl :: "f64 option"
  om_NetPnl :: "f64 option"
  om_Margin :: "f64 option"

definition sum_known :: "('a \<Rightarrow> f64 option) \<Rightarrow> 'a list \<Rightarrow> f64" where
  "sum_known f xs = foldl (\<lambda>s x. case f x of None \<Rightarrow> s | Some v \<Rightarrow> f_add s v) f_zero xs"

definition count_unknown :: "('a \<Rightarrow> f64 option) \<Rightarrow> 'a list \<Rightarrow> nat" where
  "count_unknown f xs = length (filter (\<lambda>x. f x = None) xs)"

text \<open>The gross of an open mark counts only when gross and net are both known; likewise the net.\<close>

definition both_gross :: "open_mark \<Rightarrow> f64 option" where
  "both_gross m = (if om_NetPnl m = None then None else om_GrossPnl m)"

definition both_net :: "open_mark \<Rightarrow> f64 option" where
  "both_net m = (if om_GrossPnl m = None then None else om_NetPnl m)"

definition ComputeDayPnl :: "string \<Rightarrow> open_mark list \<Rightarrow> trade list \<Rightarrow> day_pnl" where
  "ComputeDayPnl day open_marks closedToday =
     (let deref = (\<lambda>f t. Some (the_default f_zero (f t)));
          openGross = sum_known both_gross open_marks; openNet = sum_known both_net open_marks;
          gross = sum_known (deref tr_GrossPnl) closedToday; charges = sum_known (deref tr_TotalCharges) closedToday;
          net = sum_known (deref tr_NetPnl) closedToday
      in \<lparr>dp_Day = day, dp_OpenCount = length open_marks, dp_OpenMtmLtp = Round2 (sum_known om_MtmLtp open_marks),
          dp_OpenUnmarkedCount = count_unknown om_MtmLtp open_marks, dp_OpenRunningGrossPnl = Round2 openGross,
          dp_OpenRunningNetPnl = Round2 openNet, dp_OpenUnpricedCount = count_unknown both_gross open_marks,
          dp_ClosedCount = length closedToday, dp_ClosedRealisedGrossPnl = Round2 gross, dp_ClosedCharges = Round2 charges,
          dp_ClosedRealisedNetPnl = Round2 net, dp_TotalNetPnl = Round2 (f_add openNet net), dp_TotalGrossPnl = Round2 (f_add openGross gross),
          dp_OpenMargin = Round (sum_known om_Margin open_marks), dp_OpenMarginUnknown = count_unknown om_Margin open_marks,
          dp_ClosedMargin = Round (sum_known tr_Margin closedToday), dp_ClosedMarginUnknown = count_unknown tr_Margin closedToday\<rparr>)"

section \<open>Margin orders and leg keys\<close>

record margin_order =
  mo_Exchange :: string
  mo_Tradingsymbol :: string
  mo_TransactionType :: side
  mo_Variety :: string
  mo_Product :: string
  mo_OrderType :: string
  mo_Quantity :: f64
  mo_Price :: f64
  mo_ReferencePrice :: "f64 option"

definition MarginOrders :: "trade \<Rightarrow> margin_order list" where
  "MarginOrders t = map (\<lambda>l. let price = Round2 (tl_EntryPrice l)
     in \<lparr>mo_Exchange = ''NFO'', mo_Tradingsymbol = tl_Tradingsymbol l, mo_TransactionType = tl_Side l, mo_Variety = ''regular'',
         mo_Product = ''NRML'', mo_OrderType = ''LIMIT'', mo_Quantity = tr_Quantity t, mo_Price = price, mo_ReferencePrice = Some price\<rparr>) (tr_Legs t)"

definition legKey :: "string \<Rightarrow> string \<Rightarrow> string \<Rightarrow> f64 \<Rightarrow> string" where
  "legKey underlying expiry typ strike =
     join ''|'' [underlying, expiry, typ, jsNumberString (if typ = ''FUT'' then f_zero else strike)]"

end
