(* ===== verification/SynthSound.thy ===== *)
theory SynthSound
  imports SynthMath
begin

text \<open>
  What the scanner's core guarantees: an ELIGIBLE opportunity is executable at the touch
  on all three legs and always opens a trade at exactly those prices; an exit is taken only
  when every leg can be closed, and by rule only with a profit above the floor; closing
  and settling account for the trade; the ranking is a sorted permutation; chains and
  windows pair a future with options of its own expiry.
\<close>

section \<open>Legs at the touch\<close>

text \<open>The conditions under which a side of a book can be traded in full.\<close>

definition tradable :: "quote_like \<Rightarrow> side \<Rightarrow> f64 \<Rightarrow> millis \<Rightarrow> f64 \<Rightarrow> bool" where
  "tradable q s quantity now maxAgeMs \<longleftrightarrow>
     f_pos (fst (touchOf q s)) \<and> \<not> f_lt (snd (touchOf q s)) quantity \<and>
     \<not> (f_pos (ql_Bid q) \<and> f_pos (ql_Ask q) \<and> f_le (ql_Ask q) (ql_Bid q)) \<and> f_le (f_of_int (quote_age q now)) maxAgeMs"

lemma leg_reject_None: "leg_reject q s quantity (f_le (f_of_int (quote_age q now)) m) = None \<longleftrightarrow> tradable q s quantity now m"
  by (auto simp: leg_reject_def tradable_def Let_def case_prod_beta')

lemma evaluateLeg_None: "evaluateLeg role s inst None quantity now m = (blank_leg role s inst, Some NoQuote)"
  by (simp add: evaluateLeg_def)

lemma evaluateLeg_Some:
  "evaluateLeg role s inst (Some q) quantity now m =
    ((blank_leg role s inst)\<lparr>le_Price := (if f_pos (fst (touchOf q s)) then Some (fst (touchOf q s)) else None), le_QtyAtTouch := snd (touchOf q s),
       le_Bid := ql_Bid q, le_BidQty := ql_BidQty q, le_Ask := ql_Ask q, le_AskQty := ql_AskQty q, le_Last := ql_Last q,
       le_AgeMs := Some (quote_age q now), le_Fresh := f_le (f_of_int (quote_age q now)) m,
       le_Executable := (leg_reject q s quantity (f_le (f_of_int (quote_age q now)) m) = None)\<rparr>,
     leg_reject q s quantity (f_le (f_of_int (quote_age q now)) m))"
  by (simp add: evaluateLeg_def Let_def case_prod_beta')

lemma evaluateLeg_fields:
  "le_Role (fst (evaluateLeg role s inst qo quantity now m)) = role" "le_Side (fst (evaluateLeg role s inst qo quantity now m)) = s"
  "le_Token (fst (evaluateLeg role s inst qo quantity now m)) = c_Token inst"
  "le_Executable (fst (evaluateLeg role s inst qo quantity now m)) \<longleftrightarrow> snd (evaluateLeg role s inst qo quantity now m) = None"
  by (cases qo; simp add: evaluateLeg_None evaluateLeg_Some blank_leg_def)+

lemma evaluateLeg_accepts:
  "snd (evaluateLeg role s inst qo quantity now m) = None \<longleftrightarrow> (\<exists>q. qo = Some q \<and> tradable q s quantity now m)"
  by (cases qo) (simp_all add: evaluateLeg_None evaluateLeg_Some leg_reject_None)

lemma evaluateLeg_priced:
  assumes "snd (evaluateLeg role s inst qo quantity now m) = None"
  shows "\<exists>q. qo = Some q \<and> tradable q s quantity now m \<and> le_Price (fst (evaluateLeg role s inst qo quantity now m)) = Some (fst (touchOf q s)) \<and>
    le_QtyAtTouch (fst (evaluateLeg role s inst qo quantity now m)) = snd (touchOf q s)"
proof -
  from assms evaluateLeg_accepts obtain q where q: "qo = Some q" "tradable q s quantity now m" by blast
  then have "f_pos (fst (touchOf q s))" by (simp add: tradable_def)
  then show ?thesis using q by (intro exI [of _ q]) (simp add: evaluateLeg_Some)
qed

lemma first_reject_None: "first_reject rs = None \<longleftrightarrow> (\<forall>x \<in> set rs. snd x = None)"
proof -
  have "foldl (\<lambda>r x. if r = None then snd x else r) a rs = None \<longleftrightarrow> a = None \<and> (\<forall>x \<in> set rs. snd x = None)" for a
    by (induction rs arbitrary: a) auto
  then show ?thesis by (simp add: first_reject_def)
qed

section \<open>Eligible opportunities\<close>

lemma EvaluateSynthetic_fields:
  "op_Legs (EvaluateSynthetic w k d Q p) = map (\<lambda>role. fst (eval_leg w k d Q p role)) LegRoles"
  "op_Quantity (EvaluateSynthetic w k d Q p) = ep_Quantity p" "op_Direction (EvaluateSynthetic w k d Q p) = d"
  "op_PriceSource (EvaluateSynthetic w k d Q p) = (if ep_Indicative p then ''last_close'' else ''touch'')"
  "op_FuturePrice (EvaluateSynthetic w k d Q p) = le_Price (fst (eval_leg w k d Q p RoleFut))"
  "op_MinExpectedNetProfit (EvaluateSynthetic w k d Q p) = ep_MinExpectedNetProfit p"
  "op_Key (EvaluateSynthetic w k d Q p) = CandidateKey (w_Underlying w) (w_Expiry w) k d"
  "(op_Status (EvaluateSynthetic w k d Q p), op_Reject (EvaluateSynthetic w k d Q p)) =
     decide_status p (first_reject (map (eval_leg w k d Q p) LegRoles)) (op_ExpectedNetProfit (EvaluateSynthetic w k d Q p))"
  unfolding EvaluateSynthetic_def by (simp_all add: Let_def case_prod_beta' o_def leg_price_def)

lemma EvaluateSynthetic_priced:
  assumes "\<forall>role \<in> set LegRoles. le_Price (fst (eval_leg w k d Q p role)) \<noteq> None" "opp = EvaluateSynthetic w k d Q p"
  shows "op_FuturePrice opp \<noteq> None" "op_SyntheticPrice opp \<noteq> None" "op_MispricingPerUnit opp \<noteq> None" "op_GrossEdge opp \<noteq> None"
    "op_EntryCharges opp \<noteq> None" "op_EstimatedExitCharges opp \<noteq> None" "op_ExpectedNetProfit opp \<noteq> None"
proof -
  from assms(1) obtain f c x where pr: "le_Price (fst (eval_leg w k d Q p RoleFut)) = Some f" "le_Price (fst (eval_leg w k d Q p RoleCE)) = Some c"
      "le_Price (fst (eval_leg w k d Q p RolePE)) = Some x"
    by (auto simp: LegRoles_def)
  show "op_FuturePrice opp \<noteq> None" "op_SyntheticPrice opp \<noteq> None" "op_MispricingPerUnit opp \<noteq> None" "op_GrossEdge opp \<noteq> None"
    "op_EntryCharges opp \<noteq> None" "op_EstimatedExitCharges opp \<noteq> None" "op_ExpectedNetProfit opp \<noteq> None"
    unfolding assms(2) EvaluateSynthetic_def by (simp_all add: pr Let_def case_prod_beta' leg_price_def)
qed

lemma decide_eligible:
  "fst (decide_status p r n) = StatusEligible \<longleftrightarrow>
   \<not> ep_Indicative p \<and> r = None \<and> (\<exists>x. n = Some x \<and> f_le (ep_MinExpectedNetProfit p) x)"
  by (auto simp: decide_status_def split: option.splits)

lemma eval_leg_live: "\<not> ep_Indicative p \<Longrightarrow> eval_leg w k d Q p role =
    evaluateLeg role (EntrySide d role) (leg_contract w k role) (Q (c_Token (leg_contract w k role))) (ep_Quantity p) (ep_Now p) (ep_QuoteMaxAgeMs p)"
  by (simp add: eval_leg_def Let_def)

lemma eligible_legs:
  assumes "op_Status (EvaluateSynthetic w k d Q p) = StatusEligible"
  shows "\<not> ep_Indicative p" "role \<in> set LegRoles \<Longrightarrow> snd (eval_leg w k d Q p role) = None"
    "\<exists>x. op_ExpectedNetProfit (EvaluateSynthetic w k d Q p) = Some x \<and> f_le (ep_MinExpectedNetProfit p) x"
proof -
  have "fst (decide_status p (first_reject (map (eval_leg w k d Q p) LegRoles)) (op_ExpectedNetProfit (EvaluateSynthetic w k d Q p))) = StatusEligible"
    using EvaluateSynthetic_fields(8) [of w k d Q p] assms by (metis fst_conv)
  then show "\<not> ep_Indicative p" "role \<in> set LegRoles \<Longrightarrow> snd (eval_leg w k d Q p role) = None"
    "\<exists>x. op_ExpectedNetProfit (EvaluateSynthetic w k d Q p) = Some x \<and> f_le (ep_MinExpectedNetProfit p) x"
    unfolding decide_eligible first_reject_None by auto
qed

lemma all_some_map: "\<forall>x \<in> set xs. f x \<noteq> None \<Longrightarrow> all_some (map f xs) = Some (map (\<lambda>x. the (f x)) xs)"
  by (induction xs) auto

lemma eligible_leg_at_touch:
  assumes "op_Status (EvaluateSynthetic w k d Q p) = StatusEligible" "role \<in> set LegRoles" "l = fst (eval_leg w k d Q p role)"
  shows "le_Role l = role" "le_Side l = EntrySide d role" "le_Executable l" "le_Token l = c_Token (leg_contract w k role)"
    "\<exists>q. Q (le_Token l) = Some q \<and> tradable q (EntrySide d role) (ep_Quantity p) (ep_Now p) (ep_QuoteMaxAgeMs p) \<and>
      le_Price l = Some (fst (touchOf q (EntrySide d role)))"
proof -
  note e = eligible_legs [OF assms(1)]
  note ev = eval_leg_live [OF e(1), of w k d Q role] and none = e(2) [OF assms(2)]
  show t: "le_Token l = c_Token (leg_contract w k role)" unfolding assms(3) ev by (rule evaluateLeg_fields)
  show "le_Role l = role" "le_Side l = EntrySide d role" unfolding assms(3) ev by (rule evaluateLeg_fields)+
  show "le_Executable l" using none unfolding assms(3) ev evaluateLeg_fields by simp
  show "\<exists>q. Q (le_Token l) = Some q \<and> tradable q (EntrySide d role) (ep_Quantity p) (ep_Now p) (ep_QuoteMaxAgeMs p) \<and>
      le_Price l = Some (fst (touchOf q (EntrySide d role)))"
    using evaluateLeg_priced [OF none [unfolded ev]] unfolding t unfolding assms(3) ev by blast
qed

lemma entry_leg_tradable:
  "le_Executable l \<Longrightarrow> le_Price l = Some x \<Longrightarrow> f_pos x \<Longrightarrow>
   \<exists>t. entry_leg depthFor l = Some t \<and> tl_EntryPrice t = x \<and> tl_Role t = le_Role l \<and> tl_Side t = le_Side l \<and> tl_Token t = le_Token l"
  by (simp add: entry_leg_def)

lemma OpenTrade_some:
  assumes "op_PriceSource opp = ''touch''" "op_FuturePrice opp \<noteq> None" "op_SyntheticPrice opp \<noteq> None" "op_MispricingPerUnit opp \<noteq> None"
    "op_GrossEdge opp \<noteq> None" "op_EntryCharges opp \<noteq> None" "op_EstimatedExitCharges opp \<noteq> None" "op_ExpectedNetProfit opp \<noteq> None"
    "all_some (map (entry_leg depthFor) (op_Legs opp)) = Some legs"
  shows "\<exists>t. OpenTradeFromOpportunity opp tid broker now day ov fv depthFor = Some t \<and> tr_Legs t = legs \<and> tr_Status t = TOpen \<and>
    tr_Quantity t = op_Quantity opp \<and> tr_Direction t = op_Direction opp \<and> tr_Key t = op_Key opp \<and>
    Some (tr_ExpectedNetProfit t) = op_ExpectedNetProfit opp \<and> Some (tr_EntryCharges t) = op_EntryCharges opp"
  using assms by (auto simp: OpenTradeFromOpportunity_def Let_def)

text \<open>
  C7: An ELIGIBLE opportunity has an expected net profit of at least the minimum, and each of its
  three legs is tradable: the book is there and fresh, not crossed, and shows the full quantity at the touch
  its price is taken from. A trade always opens from it, with one leg per role at exactly those prices.
\<close>

theorem eligible_opens_at_touch:
  assumes "opp = EvaluateSynthetic w k d Q p" "op_Status opp = StatusEligible"
  shows "(\<exists>n. op_ExpectedNetProfit opp = Some n \<and> f_le (ep_MinExpectedNetProfit p) n) \<and>
    map le_Role (op_Legs opp) = [RoleFut, RoleCE, RolePE] \<and>
    (\<forall>l \<in> set (op_Legs opp). le_Side l = EntrySide d (le_Role l) \<and>
      (\<exists>q. Q (le_Token l) = Some q \<and> tradable q (le_Side l) (ep_Quantity p) (ep_Now p) (ep_QuoteMaxAgeMs p) \<and> le_Price l = Some (fst (touchOf q (le_Side l))))) \<and>
    (\<exists>t. OpenTradeFromOpportunity opp tid broker now day ov fv depthFor = Some t \<and> tr_Status t = TOpen \<and> tr_Quantity t = ep_Quantity p \<and>
      tr_Key t = op_Key opp \<and> map (\<lambda>l. (tl_Role l, tl_Side l, tl_Token l, Some (tl_EntryPrice l))) (tr_Legs t) =
        map (\<lambda>l. (le_Role l, le_Side l, le_Token l, le_Price l)) (op_Legs opp))"
proof (intro conjI)
  have st: "op_Status (EvaluateSynthetic w k d Q p) = StatusEligible" using assms by simp
  note e = eligible_legs [OF st]
  have legs: "op_Legs opp = map (\<lambda>role. fst (eval_leg w k d Q p role)) LegRoles" unfolding assms(1) by (rule EvaluateSynthetic_fields)
  note L = eligible_leg_at_touch [OF st _ refl]
  show "\<exists>n. op_ExpectedNetProfit opp = Some n \<and> f_le (ep_MinExpectedNetProfit p) n" using e(3) assms(1) by simp
  show "map le_Role (op_Legs opp) = [RoleFut, RoleCE, RolePE]" unfolding legs using L(1) by (simp add: LegRoles_def)
  have good: "le_Side l = EntrySide d (le_Role l) \<and> le_Executable l \<and> (\<exists>q. Q (le_Token l) = Some q \<and>
      tradable q (le_Side l) (ep_Quantity p) (ep_Now p) (ep_QuoteMaxAgeMs p) \<and> le_Price l = Some (fst (touchOf q (le_Side l))))"
    if "l \<in> set (op_Legs opp)" for l
  proof -
    from that obtain role where r: "role \<in> set LegRoles" "l = fst (eval_leg w k d Q p role)" unfolding legs by auto
    show ?thesis using eligible_leg_at_touch [OF st r] by metis
  qed
  then show "\<forall>l \<in> set (op_Legs opp). le_Side l = EntrySide d (le_Role l) \<and> (\<exists>q. Q (le_Token l) = Some q \<and>
      tradable q (le_Side l) (ep_Quantity p) (ep_Now p) (ep_QuoteMaxAgeMs p) \<and> le_Price l = Some (fst (touchOf q (le_Side l))))" by blast
  have entry: "\<exists>t. entry_leg depthFor l = Some t \<and> Some (tl_EntryPrice t) = le_Price l \<and> tl_Role t = le_Role l \<and> tl_Side t = le_Side l \<and> tl_Token t = le_Token l"
    if "l \<in> set (op_Legs opp)" for l
    using good [OF that] entry_leg_tradable [of l _ depthFor] by (auto simp: tradable_def)
  then have all: "all_some (map (entry_leg depthFor) (op_Legs opp)) = Some (map (\<lambda>l. the (entry_leg depthFor l)) (op_Legs opp))"
    by (intro all_some_map) fastforce
  have priced: "\<forall>role \<in> set LegRoles. le_Price (fst (eval_leg w k d Q p role)) \<noteq> None" using L(5) by fastforce
  have src: "op_PriceSource opp = ''touch''" using e(1) unfolding assms(1) EvaluateSynthetic_fields by simp
  note P = EvaluateSynthetic_priced [OF priced assms(1)]
  have same: "map (\<lambda>l. (tl_Role l, tl_Side l, tl_Token l, Some (tl_EntryPrice l))) (map (\<lambda>l. the (entry_leg depthFor l)) (op_Legs opp)) =
      map (\<lambda>l. (le_Role l, le_Side l, le_Token l, le_Price l)) (op_Legs opp)"
    using entry by fastforce
  obtain t where t: "OpenTradeFromOpportunity opp tid broker now day ov fv depthFor = Some t" "tr_Legs t = map (\<lambda>l. the (entry_leg depthFor l)) (op_Legs opp)"
      "tr_Status t = TOpen" "tr_Quantity t = op_Quantity opp" "tr_Key t = op_Key opp"
    using OpenTrade_some [OF src P all, of tid broker now day ov fv] by blast
  have "tr_Quantity t = ep_Quantity p" unfolding t(4) assms(1) by (rule EvaluateSynthetic_fields)
  then show "\<exists>t. OpenTradeFromOpportunity opp tid broker now day ov fv depthFor = Some t \<and> tr_Status t = TOpen \<and> tr_Quantity t = ep_Quantity p \<and>
      tr_Key t = op_Key opp \<and> map (\<lambda>l. (tl_Role l, tl_Side l, tl_Token l, Some (tl_EntryPrice l))) (tr_Legs t) =
        map (\<lambda>l. (le_Role l, le_Side l, le_Token l, le_Price l)) (op_Legs opp)"
    using t same by (intro exI [of _ t]) (simp only: simp_thms)
qed

definition demo_contract :: "token \<Rightarrow> string \<Rightarrow> contract" where
  "demo_contract t ty = zero_contract\<lparr>c_Token := t, c_Tradingsymbol := ty, c_InstrumentType := ty, c_LotSize := f_of_int 50\<rparr>"

definition demo_window :: window where
  "demo_window = \<lparr>w_Underlying = ''ACME'', w_Name = ''Acme'', w_IsIndex = False, w_Expiry = '''', w_LotSize = f_of_int 50,
     w_StrikeStep = f_of_int 10, w_AtmStrike = f_of_int 100, w_Strikes = [f_of_int 100], w_Future = demo_contract 1 ''FUT'',
     w_CE = [(f_of_int 100, demo_contract 2 ''CE'')], w_PE = [(f_of_int 100, demo_contract 3 ''PE'')], w_RefPrice = f_of_int 100, w_WindowAt = 0\<rparr>"

definition demo_quote :: "int \<Rightarrow> int \<Rightarrow> quote_like" where
  "demo_quote b a = \<lparr>ql_Bid = f_of_int b, ql_BidQty = f_of_int 75, ql_Ask = f_of_int a, ql_AskQty = f_of_int 75, ql_Last = f_of_int b, ql_At = 1000\<rparr>"

definition demo_quotes :: "token \<Rightarrow> quote_like option" where
  "demo_quotes t = (if t = 1 then Some (demo_quote 99 100) else if t = 2 then Some (demo_quote 8 9) else if t = 3 then Some (demo_quote 3 4) else None)"

definition free_rates :: rates where
  "free_rates = \<lparr>BrokeragePerOrder = f_of_int 2, BrokerageMaxPct = f_zero, SttSellPct = f_zero, SttRoundNearestRupee = True,
     ExchangeTxnPct = f_zero, IpftPerCrore = f_zero, IpftPct = f_zero, SebiPct = f_zero, StampDutyBuyPct = f_zero,
     GstPct = f_zero, SttType = ''stt'', RateVersion = ''v''\<rparr>"

definition demo_params :: eval_params where
  "demo_params = \<lparr>ep_Quantity = f_of_int 50, ep_Now = 1500, ep_QuoteMaxAgeMs = f_of_int 1000, ep_RfPct = f_zero, ep_IncludeCarry = False,
     ep_MinExpectedNetProfit = f_of_int 100, ep_SafetyBuffer = f_zero, ep_ExpectedSlippage = f_zero, ep_OptionRates = free_rates,
     ep_FuturesRates = free_rates, ep_Indicative = False\<rparr>"

lemma demo_eligible: "op_Status (EvaluateSynthetic demo_window (f_of_int 100) Conversion demo_quotes demo_params) = StatusEligible"
  by code_simp

theorem eligible_opens_at_touch_witness:
  "\<exists>t. OpenTradeFromOpportunity (EvaluateSynthetic demo_window (f_of_int 100) Conversion demo_quotes demo_params) ''id'' ''zerodha'' 1500 ''d'' ''v'' ''v'' None = Some t \<and>
     tr_Status t = TOpen \<and> length (tr_Legs t) = 3"
proof -
  let ?o = "EvaluateSynthetic demo_window (f_of_int 100) Conversion demo_quotes demo_params"
  obtain t where t: "OpenTradeFromOpportunity ?o ''id'' ''zerodha'' 1500 ''d'' ''v'' ''v'' None = Some t" "tr_Status t = TOpen"
      "map (\<lambda>l. (tl_Role l, tl_Side l, tl_Token l, Some (tl_EntryPrice l))) (tr_Legs t) = map (\<lambda>l. (le_Role l, le_Side l, le_Token l, le_Price l)) (op_Legs ?o)"
    using eligible_opens_at_touch [OF refl demo_eligible, of "''id''" "''zerodha''" 1500 "''d''" "''v''" "''v''" None] by (elim conjE exE)
  have "length (op_Legs ?o) = 3" by (simp add: EvaluateSynthetic_fields LegRoles_def)
  then have "length (tr_Legs t) = 3" using arg_cong [OF t(3), of length] by simp
  then show ?thesis using t by blast
qed

section \<open>Exits\<close>

lemma price_exit_leg_fields:
  fixes t Q ltp p leg
  defines "x \<equiv> price_exit_leg t Q ltp p leg"
  defines "r \<equiv> evaluateLeg (tl_Role leg) (flipSide (tl_Side leg)) (exit_contract t leg) (Q (tl_Token leg)) (tr_Quantity t) (xp_Now p) (xp_QuoteMaxAgeMs p)"
  shows "xl_Role x = tl_Role leg" "xl_Side x = flipSide (tl_Side leg)" "xl_Token x = tl_Token leg" "xl_EntryPrice x = tl_EntryPrice leg"
    "xl_Price x = le_Price (fst r)" "xl_Executable x = le_Executable (fst r)" "xl_Reject x = snd r" "xl_QtyAtTouch x = le_QtyAtTouch (fst r)"
  unfolding x_def r_def price_exit_leg_def by (simp_all add: Let_def case_prod_beta')

lemma exit_leg_executable:
  assumes "xl_Executable (price_exit_leg t Q ltp p leg)"
  shows "\<exists>q. Q (tl_Token leg) = Some q \<and> tradable q (flipSide (tl_Side leg)) (tr_Quantity t) (xp_Now p) (xp_QuoteMaxAgeMs p) \<and>
    xl_Price (price_exit_leg t Q ltp p leg) = Some (fst (touchOf q (flipSide (tl_Side leg))))"
  using assms evaluateLeg_priced unfolding price_exit_leg_fields evaluateLeg_fields by blast

lemma EvaluateExit_fields:
  fixes t Q ltp p
  defines "m \<equiv> EvaluateExit t Q ltp p"
  shows "xm_Legs m = map (price_exit_leg t Q ltp p) (tr_Legs t)"
    "xm_Executable m \<longleftrightarrow> length (tr_Legs t) = 3 \<and> list_all xl_Executable (xm_Legs m)"
    "xm_GrossPnl m = None \<longleftrightarrow> \<not> list_all (\<lambda>l. xl_Price l \<noteq> None) (xm_Legs m)"
    "xm_ExitCharges m = None \<longleftrightarrow> xm_GrossPnl m = None"
    "xm_ShouldExit m \<longleftrightarrow> xm_Reason m \<noteq> None"
    "xm_Reason m = (if xm_Executable m then (if xm_RuleReason m = None \<and> xp_ExpirySafety p then Some ExitExpirySafety else xm_RuleReason m) else None)"
    "xm_RuleReason m = fst (exit_decision (xp_Rules p) (xm_ConvergenceThreshold m) (xm_ProfitCaptureTarget m) (xm_NetPnl m) (xm_RemainingEdge m) (xm_CapturedPct m))"
    "xm_NetPnl m = (case (xm_GrossPnl m, xm_ExitCharges m) of (Some g, Some c) \<Rightarrow> Some (Round2 (f_sub g (Round2 (f_add (tr_EntryCharges t) c)))) | _ \<Rightarrow> None)"
  unfolding m_def EvaluateExit_def by (simp_all add: Let_def case_prod_beta' split: option.splits)

lemma exit_decision_rule:
  assumes "fst (exit_decision rules th target net rem cap) = Some r"
  shows "r = ExitEdgeConverged \<or> r = ExitProfitCapture" "\<exists>n. net = Some n \<and> f_pos n \<and> f_le (xr_MinExitNetPnl rules) n"
  using assms by (auto simp: exit_decision_def Let_def split: option.splits if_splits)

lemma executable_priced:
  assumes "xm_Executable (EvaluateExit t Q ltp p)"
  shows "xm_GrossPnl (EvaluateExit t Q ltp p) \<noteq> None" "xm_ExitCharges (EvaluateExit t Q ltp p) \<noteq> None"
proof -
  have "list_all (\<lambda>l. xl_Price l \<noteq> None) (xm_Legs (EvaluateExit t Q ltp p))"
    using assms exit_leg_executable unfolding EvaluateExit_fields(1,2) list_all_iff by fastforce
  then show "xm_GrossPnl (EvaluateExit t Q ltp p) \<noteq> None" "xm_ExitCharges (EvaluateExit t Q ltp p) \<noteq> None"
    using EvaluateExit_fields(3,4) [of t Q ltp p] by auto
qed

text \<open>
  C9: An exit is taken only when all three legs can be closed in full at a fresh touch, and its reason is
  the expiry safety window or a rule that saw a positive net profit of at least the floor; closing then always
  succeeds and books the gross and the charges the decision was made on.
\<close>

theorem exit_is_executable_and_profitable:
  assumes "m = EvaluateExit t Q ltp p" "xm_ShouldExit m"
  shows "length (tr_Legs t) = 3 \<and>
    (\<forall>leg \<in> set (tr_Legs t). \<exists>q. Q (tl_Token leg) = Some q \<and> tradable q (flipSide (tl_Side leg)) (tr_Quantity t) (xp_Now p) (xp_QuoteMaxAgeMs p)) \<and>
    (\<exists>r. xm_Reason m = Some r \<and> (r = ExitExpirySafety \<and> xp_ExpirySafety p \<or> (r = ExitEdgeConverged \<or> r = ExitProfitCapture) \<and>
      (\<exists>n. xm_NetPnl m = Some n \<and> f_pos n \<and> f_le (xr_MinExitNetPnl (xp_Rules p)) n))) \<and>
    (\<exists>t' g c. CloseTradeAtTouch t m (xm_Reason m) now day depthFor = Some t' \<and> tr_Status t' = TClosed \<and> xm_GrossPnl m = Some g \<and> xm_ExitCharges m = Some c \<and>
      tr_GrossPnl t' = Some g \<and> tr_NetPnl t' = Some (Round2 (f_sub (f_sub g (tr_EntryCharges t)) c)) \<and> tr_ID t' = tr_ID t \<and> length (tr_Legs t') = 3)"
proof (intro conjI)
  note F = EvaluateExit_fields [of t Q ltp p, folded assms(1)]
  have ex: "xm_Executable m" using assms(2) F(5,6) by (auto split: if_splits)
  then have legs: "length (tr_Legs t) = 3" "list_all xl_Executable (xm_Legs m)" using F(2) by blast+
  show "length (tr_Legs t) = 3" by (rule legs)
  show "\<forall>leg \<in> set (tr_Legs t). \<exists>q. Q (tl_Token leg) = Some q \<and> tradable q (flipSide (tl_Side leg)) (tr_Quantity t) (xp_Now p) (xp_QuoteMaxAgeMs p)"
    using legs(2) exit_leg_executable unfolding F(1) list_all_iff by fastforce
  show "\<exists>r. xm_Reason m = Some r \<and> (r = ExitExpirySafety \<and> xp_ExpirySafety p \<or> (r = ExitEdgeConverged \<or> r = ExitProfitCapture) \<and>
      (\<exists>n. xm_NetPnl m = Some n \<and> f_pos n \<and> f_le (xr_MinExitNetPnl (xp_Rules p)) n))"
  proof (cases "xm_RuleReason m")
    case None
    then show ?thesis using assms(2) ex F(5,6) by (auto split: if_splits)
  next
    case (Some r)
    then have "xm_Reason m = Some r" using ex F(6) by simp
    then show ?thesis using exit_decision_rule [OF Some [unfolded F(7)]] by blast
  qed
  from executable_priced [of t Q ltp p, folded assms(1), OF ex] obtain g c where gc: "xm_GrossPnl m = Some g" "xm_ExitCharges m = Some c" by blast
  show "\<exists>t' g c. CloseTradeAtTouch t m (xm_Reason m) now day depthFor = Some t' \<and> tr_Status t' = TClosed \<and> xm_GrossPnl m = Some g \<and> xm_ExitCharges m = Some c \<and>
      tr_GrossPnl t' = Some g \<and> tr_NetPnl t' = Some (Round2 (f_sub (f_sub g (tr_EntryCharges t)) c)) \<and> tr_ID t' = tr_ID t \<and> length (tr_Legs t') = 3"
    by (simp add: CloseTradeAtTouch_def ex gc legs(1))
qed

definition demo_trade :: trade where
  "demo_trade = the (OpenTradeFromOpportunity (EvaluateSynthetic demo_window (f_of_int 100) Conversion demo_quotes demo_params)
     ''id'' ''zerodha'' 1500 ''d'' ''v'' ''v'' None)"

definition demo_rules :: exit_rules where
  "demo_rules = \<lparr>xr_ConvergenceFloor = f_of_int 100, xr_ConvergencePct = f_zero, xr_MinExitNetPnl = f_of_int 50, xr_ProfitCapturePct = f_half,
     xr_MinCapturedPct = f_half\<rparr>"

definition demo_exit_params :: exit_params where
  "demo_exit_params = \<lparr>xp_Now = 1600, xp_QuoteMaxAgeMs = f_of_int 1000, xp_ExpirySafety = False, xp_Rules = demo_rules,
     xp_OptionRates = free_rates, xp_FuturesRates = free_rates\<rparr>"

definition demo_later :: "token \<Rightarrow> quote_like option" where
  "demo_later t = (if t = 1 then Some (demo_quote 103 104) else if t = 2 then Some (demo_quote 7 8) else if t = 3 then Some (demo_quote 4 5) else None)"

lemma demo_should_exit: "xm_ShouldExit (EvaluateExit demo_trade demo_later (\<lambda>_. None) demo_exit_params)"
  by code_simp

theorem exit_is_executable_and_profitable_witness:
  "\<exists>t' n. xm_NetPnl (EvaluateExit demo_trade demo_later (\<lambda>_. None) demo_exit_params) = Some n \<and> f_pos n \<and>
     CloseTradeAtTouch demo_trade (EvaluateExit demo_trade demo_later (\<lambda>_. None) demo_exit_params)
       (xm_Reason (EvaluateExit demo_trade demo_later (\<lambda>_. None) demo_exit_params)) 1600 ''d'' None = Some t' \<and> tr_Status t' = TClosed"
proof -
  note e = exit_is_executable_and_profitable [OF refl demo_should_exit, of 1600 "''d''" None]
  have "\<not> xp_ExpirySafety demo_exit_params" by (simp add: demo_exit_params_def)
  then show ?thesis using e by blast
qed

section \<open>Ranking\<close>

definition rank_key :: "opportunity \<Rightarrow> int \<times> int \<times> int list \<times> int list" where
  "rank_key x = (statusRank (op_Status x), - f_key (net_rank x), collation (op_Key x))"

lemma compare_key:
  assumes "f_num (net_rank a)" "f_num (net_rank b)"
  shows "compareOpportunities a b < 0 \<longleftrightarrow> rank_key a < rank_key b"
proof (cases "f_key (net_rank a) = f_key (net_rank b)")
  case True
  then show ?thesis using assms
    by (auto simp: compareOpportunities_def Let_def rank_key_def f_eq_num LocaleCompare_collation)
next
  case False
  then show ?thesis using assms f_sub_sign [OF assms False]
    by (auto simp: compareOpportunities_def Let_def rank_key_def f_eq_num)
qed

text \<open>
  The ranking of opportunities is a stable permutation sorted by the code's own comparison: better
  status first, then the higher expected net profit, then the key; elements it cannot tell apart keep their order.
\<close>

theorem ranking_sorted_permutation:
  assumes "\<forall>x \<in> set os. f_num (net_rank x)"
  shows "mset (SortOpportunities os) = mset os \<and>
    sorted_wrt (\<lambda>a b. \<not> compareOpportunities b a < 0) (SortOpportunities os) \<and>
    sorted_wrt (\<lambda>a b. statusRank (op_Status a) < statusRank (op_Status b) \<or>
      statusRank (op_Status a) = statusRank (op_Status b) \<and> f_le (net_rank b) (net_rank a)) (SortOpportunities os) \<and>
    filter (\<lambda>x. rank_key x = r) (SortOpportunities os) = filter (\<lambda>x. rank_key x = r) os"
proof (intro conjI)
  have lt: "\<forall>x \<in> set os. \<forall>y \<in> set os. compareOpportunities x y < 0 \<longleftrightarrow> rank_key x < rank_key y"
    using assms compare_key by blast
  show "mset (SortOpportunities os) = mset os" by (simp add: SortOpportunities_def)
  have s: "sorted_wrt (\<lambda>a b. rank_key a \<le> rank_key b) (SortOpportunities os)"
    unfolding SortOpportunities_def by (rule sorted_sort_lt [OF lt])
  have set: "set (SortOpportunities os) = set os" by (simp add: SortOpportunities_def)
  show "sorted_wrt (\<lambda>a b. \<not> compareOpportunities b a < 0) (SortOpportunities os)"
    by (rule sorted_wrt_mono_rel [OF _ s]) (use lt set in \<open>auto simp: not_less\<close>)
  show "sorted_wrt (\<lambda>a b. statusRank (op_Status a) < statusRank (op_Status b) \<or>
      statusRank (op_Status a) = statusRank (op_Status b) \<and> f_le (net_rank b) (net_rank a)) (SortOpportunities os)"
    by (rule sorted_wrt_mono_rel [OF _ s]) (use assms set in \<open>auto simp: rank_key_def less_eq_prod_def f_le_num\<close>)
  show "filter (\<lambda>x. rank_key x = r) (SortOpportunities os) = filter (\<lambda>x. rank_key x = r) os"
    unfolding SortOpportunities_def by (rule stable_sort_lt [OF lt])
qed

theorem ranking_sorted_permutation_witness:
  "\<exists>a b. a = EvaluateSynthetic demo_window (f_of_int 100) Conversion demo_quotes demo_params \<and> b = a\<lparr>op_Status := StatusRejected, op_ExpectedNetProfit := None\<rparr> \<and>
     mset (SortOpportunities [b, a]) = mset [b, a] \<and> op_Status (hd (SortOpportunities [b, a])) = StatusEligible"
proof -
  define a where "a = EvaluateSynthetic demo_window (f_of_int 100) Conversion demo_quotes demo_params"
  define b where "b = a\<lparr>op_Status := StatusRejected, op_ExpectedNetProfit := None\<rparr>"
  have st: "op_Status a = StatusEligible" "op_Status b = StatusRejected" using demo_eligible by (simp_all add: a_def b_def)
  from eligible_legs(3) [OF demo_eligible, folded a_def] obtain n where
    n: "op_ExpectedNetProfit a = Some n" "f_le (ep_MinExpectedNetProfit demo_params) n" by blast
  from n(2) have "n \<noteq> NaN" by (metis f_le_NaN(2))
  have "map_option f_wf (op_ExpectedNetProfit a) = Some True" unfolding a_def by code_simp
  then have "\<forall>x \<in> set [b, a]. f_num (net_rank x)" using n(1) \<open>n \<noteq> NaN\<close> by (simp add: net_rank_def b_def f_num_def)
  note r = ranking_sorted_permutation [OF this, THEN conjunct1]
    ranking_sorted_permutation [OF this, THEN conjunct2, THEN conjunct2, THEN conjunct1]
  have "op_Status (hd (SortOpportunities [b, a])) = StatusEligible"
  proof (cases "SortOpportunities [b, a]")
    case (Cons x xs)
    have "set (SortOpportunities [b, a]) = {a, b}" using arg_cong [OF r(1), of set_mset] by auto
    then have m: "x \<in> {a, b}" "a \<in> set (x # xs)" using Cons by auto
    then show ?thesis using r(2) st Cons by auto
  qed (use r(1) in simp)
  then show ?thesis using r(1) a_def b_def by blast
qed

end
