(* ===== verification/SynthChains.thy ===== *)
theory SynthChains
  imports SynthMath
begin

text \<open>
  Chains and windows of the synthetic scanner: the chain of an underlying pairs a live future
  with the calls and puts of that very expiry and lot, and the window built on it stays
  inside the chain, contains the strike at the money and fits the token budget.
\<close>

section \<open>Maps keyed by a strike\<close>

lemma fm_get_map_of: "good_strike k \<Longrightarrow> \<forall>j \<in> fst ` set m. good_strike j \<Longrightarrow> fm_get m k = map_of m k"
  by (induction m) (auto simp: good_strike_eq)

lemma fm_put_update: "good_strike k \<Longrightarrow> \<forall>j \<in> fst ` set m. good_strike j \<Longrightarrow> fm_put k v m = AList.update k v m"
  by (induction m) (auto simp: good_strike_eq)

lemma ball_update: "\<forall>x \<in> set m. P x \<Longrightarrow> P (k, v) \<Longrightarrow> \<forall>x \<in> set (AList.update k v m). P x"
  by (induction m) auto

lemma map_fst_update: "map fst (AList.update k v m) = (if k \<in> fst ` set m then map fst m else map fst m @ [k])"
  by (induction m) auto

section \<open>Sorting the instruments into futures and options\<close>

definition listed_future :: "instrument list \<Rightarrow> string \<Rightarrow> string \<Rightarrow> instrument \<Rightarrow> bool" where
  "listed_future all today u i \<longleftrightarrow> i \<in> set all \<and> live_nfo today i \<and> i_InstrumentType i = ''FUT'' \<and> i_Name i = u"

definition listed_option :: "instrument list \<Rightarrow> string \<Rightarrow> string \<Rightarrow> string \<Rightarrow> instrument \<Rightarrow> bool" where
  "listed_option all today u e i \<longleftrightarrow> i \<in> set all \<and> live_nfo today i \<and> (i_InstrumentType i = ''CE'' \<or> i_InstrumentType i = ''PE'') \<and>
     f_pos (i_Strike i) \<and> i_Name i = u \<and> i_Expiry i = e"

definition classified :: "instrument list \<Rightarrow> string \<Rightarrow> listed \<times> (string \<times> listed) list \<Rightarrow> bool" where
  "classified all today acc \<longleftrightarrow> distinct (map fst (fst acc)) \<and> (\<forall>(u, is) \<in> set (fst acc). \<forall>i \<in> set is. listed_future all today u i) \<and>
     (\<forall>(u, m) \<in> set (snd acc). \<forall>(e, cs) \<in> set m. \<forall>i \<in> set cs. listed_option all today u e i)"

lemma push_sound:
  assumes "\<forall>(u, is) \<in> set m. \<forall>i \<in> set is. P u i" "P k x"
  shows "\<forall>(u, is) \<in> set (push k x m). \<forall>i \<in> set is. P u i"
proof -
  have "\<forall>i \<in> set (the_default [] (map_of m k) @ [x]). P k i"
    using assms by (cases "map_of m k") (auto dest: map_of_SomeD)
  then show ?thesis unfolding push_def by (intro ball_update assms(1)) simp
qed

lemma classify_sound:
  assumes "classified all today acc" "i \<in> set all"
  shows "classified all today (classify today i acc)"
proof -
  obtain fs os where acc: "acc = (fs, os)" by (cases acc)
  have f: "\<forall>(u, is) \<in> set fs. \<forall>i \<in> set is. listed_future all today u i" "distinct (map fst fs)"
    and o: "\<forall>(u, m) \<in> set os. \<forall>(e, cs) \<in> set m. \<forall>i \<in> set cs. listed_option all today u e i"
    using assms(1) by (auto simp: classified_def acc)
  consider "live_nfo today i" "i_InstrumentType i = ''FUT''"
    | "live_nfo today i" "i_InstrumentType i \<noteq> ''FUT''" "(i_InstrumentType i = ''CE'' \<or> i_InstrumentType i = ''PE'') \<and> f_pos (i_Strike i)"
    | "classify today i acc = acc"
    by (cases "live_nfo today i"; cases "i_InstrumentType i = ''FUT''";
        cases "(i_InstrumentType i = ''CE'' \<or> i_InstrumentType i = ''PE'') \<and> f_pos (i_Strike i)") (auto simp: classify_def acc)
  then show ?thesis
  proof cases
    case 1
    then have "\<forall>(u, is) \<in> set (push (i_Name i) i fs). \<forall>i \<in> set is. listed_future all today u i"
      using assms(2) f(1) by (intro push_sound) (auto simp: listed_future_def)
    moreover have "distinct (map fst (push (i_Name i) i fs))" unfolding push_def using f(2) by (simp add: map_fst_update)
    ultimately show ?thesis using 1 o by (simp add: classify_def acc classified_def)
  next
    case 2
    let ?m = "the_default [] (map_of os (i_Name i))"
    have "\<forall>(e, cs) \<in> set ?m. \<forall>i' \<in> set cs. listed_option all today (i_Name i) e i'"
    proof (cases "map_of os (i_Name i)")
      case (Some m)
      then show ?thesis using bspec [OF o map_of_SomeD [OF Some]] by simp
    qed simp
    then have "\<forall>(e, cs) \<in> set (push (i_Expiry i) i ?m). \<forall>i' \<in> set cs. listed_option all today (i_Name i) e i'"
      using 2 assms(2) by (intro push_sound) (auto simp: listed_option_def)
    then have "\<forall>(u, m) \<in> set (AList.update (i_Name i) (push (i_Expiry i) i ?m) os). \<forall>(e, cs) \<in> set m. \<forall>i \<in> set cs. listed_option all today u e i"
      by (intro ball_update o) simp
    then show ?thesis using 2 f by (simp add: classify_def acc classified_def)
  qed (simp add: assms(1))
qed

lemma fold_classify_sound:
  "set is \<subseteq> set all \<Longrightarrow> classified all today acc \<Longrightarrow> classified all today (fold (classify today) is acc)"
  by (induction "is" arbitrary: acc) (auto simp: classify_sound)

section \<open>Pairing calls and puts\<close>

definition lot_ok :: "instrument \<Rightarrow> instrument \<Rightarrow> bool" where
  "lot_ok fut c \<longleftrightarrow> \<not> (f_pos (i_LotSize c) \<and> \<not> f_eq (i_LotSize c) (i_LotSize fut))"

definition paired :: "instrument \<Rightarrow> instrument list \<Rightarrow> pair_acc \<Rightarrow> bool" where
  "paired fut cs a \<longleftrightarrow>
     (\<forall>(k, v) \<in> set (pa_ce a). \<exists>c \<in> set cs. i_InstrumentType c = ''CE'' \<and> i_Strike c = k \<and> v = toContract c ''CE'') \<and>
     (\<forall>(k, v) \<in> set (pa_pe a). \<exists>c \<in> set cs. i_InstrumentType c \<noteq> ''CE'' \<and> i_Strike c = k \<and> v = toContract c ''PE'') \<and>
     pa_ceOrder a = map fst (pa_ce a) \<and> distinct (map fst (pa_ce a))"

lemma paired_keys: "paired fut cs a \<Longrightarrow> \<forall>c \<in> set cs. good_strike (i_Strike c) \<Longrightarrow> \<forall>k \<in> fst ` set (pa_ce a) \<union> fst ` set (pa_pe a). good_strike k"
  unfolding paired_def by fastforce

lemma add_option_CE:
  assumes "i_InstrumentType c = ''CE''"
  shows "pa_ce (add_option fut c a) = fm_put (i_Strike c) (toContract c ''CE'') (pa_ce a)" "pa_pe (add_option fut c a) = pa_pe a"
    "pa_ceOrder (add_option fut c a) = (if fm_get (pa_ce a) (i_Strike c) = None then pa_ceOrder a @ [i_Strike c] else pa_ceOrder a)"
  using assms by (simp_all add: add_option_def Let_def)

lemma add_option_PE:
  assumes "i_InstrumentType c \<noteq> ''CE''"
  shows "pa_pe (add_option fut c a) = fm_put (i_Strike c) (toContract c ''PE'') (pa_pe a)" "pa_ce (add_option fut c a) = pa_ce a"
    "pa_ceOrder (add_option fut c a) = pa_ceOrder a"
  using assms by (simp_all add: add_option_def Let_def)

lemma add_option_sound:
  assumes "paired fut cs a" "\<forall>c \<in> set cs. good_strike (i_Strike c)" "c \<in> set cs"
  shows "paired fut cs (add_option fut c a)"
proof -
  note k = paired_keys [OF assms(1,2)]
  have g: "good_strike (i_Strike c)" using assms(2,3) by simp
  have gc: "\<forall>j \<in> fst ` set (pa_ce a). good_strike j" and gp: "\<forall>j \<in> fst ` set (pa_pe a). good_strike j" using k by auto
  note ce = fm_get_map_of [OF g gc] fm_put_update [OF g gc] and pe = fm_put_update [OF g gp]
  show ?thesis
  proof (cases "i_InstrumentType c = ''CE''")
    case True
    then have "\<forall>(k, v) \<in> set (AList.update (i_Strike c) (toContract c ''CE'') (pa_ce a)). \<exists>c \<in> set cs. i_InstrumentType c = ''CE'' \<and> i_Strike c = k \<and> v = toContract c ''CE''"
      using assms(1,3) by (intro ball_update) (auto simp: paired_def)
    moreover have "map fst (AList.update (i_Strike c) (toContract c ''CE'') (pa_ce a)) =
        (if map_of (pa_ce a) (i_Strike c) = None then map fst (pa_ce a) @ [i_Strike c] else map fst (pa_ce a))"
      by (simp add: map_fst_update map_of_eq_None_iff)
    ultimately show ?thesis using assms(1) unfolding paired_def add_option_CE [OF True] ce
      by (simp add: map_of_eq_None_iff split: if_splits)
  next
    case False
    then have "\<forall>(k, v) \<in> set (AList.update (i_Strike c) (toContract c ''PE'') (pa_pe a)). \<exists>c \<in> set cs. i_InstrumentType c \<noteq> ''CE'' \<and> i_Strike c = k \<and> v = toContract c ''PE''"
      using assms(1,3) by (intro ball_update) (auto simp: paired_def)
    then show ?thesis using assms(1) unfolding paired_def add_option_PE [OF False] pe by simp
  qed
qed

lemma add_option_mismatch: "pa_lotMismatch (add_option fut c a) \<longleftrightarrow> pa_lotMismatch a \<or> \<not> lot_ok fut c"
  by (auto simp: add_option_def Let_def lot_ok_def)

lemma pair_up_sound:
  assumes "\<forall>c \<in> set cs. good_strike (i_Strike c)"
  shows "paired fut cs (pair_up fut cs)" "\<not> pa_lotMismatch (pair_up fut cs) \<longleftrightarrow> (\<forall>c \<in> set cs. lot_ok fut c)"
proof -
  have "set xs \<subseteq> set cs \<Longrightarrow> paired fut cs a \<Longrightarrow> paired fut cs (fold (add_option fut) xs a)" for xs a
    by (induction xs arbitrary: a) (auto intro: add_option_sound [OF _ assms])
  then show "paired fut cs (pair_up fut cs)" unfolding pair_up_def by (simp add: paired_def [of _ _ "\<lparr>pa_ce = _, pa_pe = _, pa_ceOrder = _, pa_lotMismatch = _\<rparr>"])
  have "pa_lotMismatch (fold (add_option fut) xs a) \<longleftrightarrow> pa_lotMismatch a \<or> (\<exists>c \<in> set xs. \<not> lot_ok fut c)" for xs a
    by (induction xs arbitrary: a) (auto simp: add_option_mismatch)
  then show "\<not> pa_lotMismatch (pair_up fut cs) \<longleftrightarrow> (\<forall>c \<in> set cs. lot_ok fut c)" by (simp add: pair_up_def)
qed

section \<open>Chains\<close>

text \<open>A chain of an underlying: one listed future and, per strike, a listed call and put of the future's expiry and lot.\<close>

definition chain_sound :: "instrument list \<Rightarrow> string \<Rightarrow> string \<Rightarrow> chain_index \<Rightarrow> bool" where
  "chain_sound all today u ci \<longleftrightarrow>
     (\<exists>fut. listed_future all today u fut \<and> f_pos (i_LotSize fut) \<and> ci_Underlying ci = u \<and> ci_Future ci = toContract fut ''FUT'' \<and>
       ci_Expiry ci = i_Expiry fut \<and> ci_LotSize ci = i_LotSize fut \<and>
       (\<forall>s \<in> set (ci_Strikes ci). \<exists>c p. listed_option all today u (ci_Expiry ci) c \<and> listed_option all today u (ci_Expiry ci) p \<and>
          i_InstrumentType c = ''CE'' \<and> i_InstrumentType p = ''PE'' \<and> i_Strike c = s \<and> i_Strike p = s \<and> lot_ok fut c \<and> lot_ok fut p \<and>
          fm_get (ci_CE ci) s = Some (toContract c ''CE'') \<and> fm_get (ci_PE ci) s = Some (toContract p ''PE''))) \<and>
     ci_Strikes ci \<noteq> [] \<and> list_all good_strike (ci_Strikes ci) \<and> distinct (ci_Strikes ci) \<and> sorted_wrt (\<lambda>a b. f_key a \<le> f_key b) (ci_Strikes ci)"

lemma listed_option_good:
  "listed_option all today u e i \<Longrightarrow> \<forall>i \<in> set all. f_wf (i_Strike i) \<and> f_finite (i_Strike i) \<Longrightarrow> good_strike (i_Strike i)"
  by (simp add: listed_option_def good_strike_def)

lemma pick_future_sound:
  assumes fin: "\<forall>i \<in> set all. f_wf (i_Strike i) \<and> f_finite (i_Strike i)"
    and opts: "\<forall>(e, cs) \<in> set byE. \<forall>i \<in> set cs. listed_option all today u e i"
    and futs: "\<forall>i \<in> set futs. listed_future all today u i"
    and pick: "pick_future u byE futs = Some ci"
  shows "chain_sound all today u ci"
  using futs pick
proof (induction futs)
  case (Cons fut futs)
  show ?case
  proof (cases "pick_future u byE futs = Some ci")
    case True
    then show ?thesis using Cons by simp
  next
    case False
    then obtain cs where lot: "f_pos (i_LotSize fut)" and cs: "map_of byE (i_Expiry fut) = Some cs" and mis: "\<not> pa_lotMismatch (pair_up fut cs)"
      using Cons.prems(2) by (auto simp: Let_def split: if_splits option.splits)
    define p where "p = pair_up fut cs"
    define strikes where "strikes = sort_lt f_lt (filter (\<lambda>s. fm_get (pa_pe p) s \<noteq> None) (pa_ceOrder p))"
    have ne: "strikes \<noteq> []" and ci: "ci = \<lparr>ci_Underlying = u, ci_Expiry = i_Expiry fut, ci_LotSize = i_LotSize fut,
        ci_StrikeStep = StrikeStep strikes, ci_Future = toContract fut ''FUT'', ci_Strikes = strikes, ci_CE = pa_ce p, ci_PE = pa_pe p\<rparr>"
      using Cons.prems(2) False lot cs mis by (auto simp: Let_def p_def strikes_def split: if_splits)
    have lo: "\<forall>c \<in> set cs. listed_option all today u (i_Expiry fut) c" using bspec [OF opts map_of_SomeD [OF cs]] by simp
    then have good: "\<forall>c \<in> set cs. good_strike (i_Strike c)" using listed_option_good [OF _ fin] by blast
    note P = pair_up_sound(1) [OF good, of fut, folded p_def] and lots = pair_up_sound(2) [OF good, of fut, THEN iffD1, OF mis]
    have gk: "\<forall>k \<in> fst ` set (pa_ce p). good_strike k" "\<forall>k \<in> fst ` set (pa_pe p). good_strike k" using paired_keys [OF P good] by auto
    have ord: "pa_ceOrder p = map fst (pa_ce p)" "distinct (map fst (pa_ce p))" using P by (simp_all add: paired_def)
    have sg: "\<forall>s \<in> set strikes. good_strike s" using gk(1) by (auto simp: strikes_def ord)
    have num: "\<forall>s \<in> set (filter (\<lambda>s. fm_get (pa_pe p) s \<noteq> None) (pa_ceOrder p)). f_num s"
      using gk(1) good_strike_num by (auto simp: ord)
    have srt: "sorted_wrt (\<lambda>a b. f_key a \<le> f_key b) strikes"
      unfolding strikes_def by (rule sorted_sort_lt) (use num f_lt_num in blast)
    have st: "\<exists>c q. listed_option all today u (i_Expiry fut) c \<and> listed_option all today u (i_Expiry fut) q \<and>
          i_InstrumentType c = ''CE'' \<and> i_InstrumentType q = ''PE'' \<and> i_Strike c = s \<and> i_Strike q = s \<and> lot_ok fut c \<and> lot_ok fut q \<and>
          fm_get (pa_ce p) s = Some (toContract c ''CE'') \<and> fm_get (pa_pe p) s = Some (toContract q ''PE'')"
      if "s \<in> set strikes" for s
    proof -
      have s: "s \<in> fst ` set (pa_ce p)" "fm_get (pa_pe p) s \<noteq> None" "good_strike s" using that sg by (auto simp: strikes_def ord)
      then obtain v x where v: "map_of (pa_ce p) s = Some v" "map_of (pa_pe p) s = Some x"
        using fm_get_map_of [OF s(3) gk(2)] by (metis map_of_eq_None_iff not_None_eq)
      obtain c where c: "c \<in> set cs" "i_InstrumentType c = ''CE''" "i_Strike c = s" "v = toContract c ''CE''"
        using map_of_SomeD [OF v(1)] P by (auto simp: paired_def)
      obtain q where q: "q \<in> set cs" "i_InstrumentType q \<noteq> ''CE''" "i_Strike q = s" "x = toContract q ''PE''"
        using map_of_SomeD [OF v(2)] P by (auto simp: paired_def)
      have "i_InstrumentType q = ''PE''" using lo q(1,2) by (auto simp: listed_option_def)
      then show ?thesis using c q v lo lots fm_get_map_of [OF s(3) gk(1)] fm_get_map_of [OF s(3) gk(2)]
        by (intro exI [of _ c] exI [of _ q]) simp
    qed
    have d: "distinct strikes" using ord by (simp add: strikes_def)
    have fut: "listed_future all today u fut" using Cons.prems(1) by simp
    have "ci_Strikes ci = strikes" "ci_CE ci = pa_ce p" "ci_PE ci = pa_pe p" "ci_Expiry ci = i_Expiry fut" "ci_Underlying ci = u"
      "ci_Future ci = toContract fut ''FUT''" "ci_LotSize ci = i_LotSize fut" by (simp_all add: ci)
    note f = this
    show ?thesis
      unfolding chain_sound_def f
      by (intro conjI exI [of _ fut] ballI refl fut lot ne d srt st) (use sg in \<open>simp_all add: list_all_iff\<close>)
  qed
qed simp

lemma index_chains_sound:
  assumes "\<forall>i \<in> set all. f_wf (i_Strike i) \<and> f_finite (i_Strike i)" "(u, ci) \<in> set (IndexSyntheticChains all today)"
  shows "chain_sound all today u ci"
proof -
  obtain fs os where f: "fold (classify today) all ([], []) = (fs, os)" by (cases "fold (classify today) all ([], [])")
  have c: "classified all today (fs, os)"
    using fold_classify_sound [of all all today "([], [])"] f by (simp add: classified_def)
  from assms(2) f obtain nf where nf: "nf \<in> set fs" "(u, ci) \<in> set (chain_for os nf)" by (auto simp: IndexSyntheticChains_def)
  from nf(2) obtain byE0 where b0: "map_of os (fst nf) = Some byE0" by (cases "map_of os (fst nf)") (simp_all add: chain_for_def)
  with nf(2) obtain ci0 where c0: "pick_future (fst nf) byE0 (sort_lt expiry_before (snd nf)) = Some ci0"
    by (cases "pick_future (fst nf) byE0 (sort_lt expiry_before (snd nf))") (simp_all add: chain_for_def)
  then have "fst nf = u" "ci0 = ci" using nf(2) b0 by (simp_all add: chain_for_def)
  then obtain byE where byE: "map_of os u = Some byE" "fst nf = u"
      "pick_future u byE (sort_lt expiry_before (snd nf)) = Some ci"
    using b0 c0 by simp
  have futs: "\<forall>i \<in> set (snd nf). listed_future all today u i" and opts: "\<forall>(u, m) \<in> set os. \<forall>(e, cs) \<in> set m. \<forall>i \<in> set cs. listed_option all today u e i"
    using c nf(1) byE(2) unfolding classified_def by auto
  have "\<forall>(e, cs) \<in> set byE. \<forall>i \<in> set cs. listed_option all today u e i" using bspec [OF opts map_of_SomeD [OF byE(1)]] by simp
  from pick_future_sound [OF assms(1) this _ byE(3)] futs show ?thesis by simp
qed

section \<open>Windows\<close>

lemma window_maps:
  assumes "\<forall>s \<in> set picked. good_strike s \<and> fm_get (ci_CE chain) s \<noteq> None \<and> fm_get (ci_PE chain) s \<noteq> None"
    "\<forall>k \<in> fst ` set (fst m) \<union> fst ` set (snd m). good_strike k"
    "\<forall>k c. map_of (fst m) k = Some c \<longrightarrow> fm_get (ci_CE chain) k = Some c" "\<forall>k c. map_of (snd m) k = Some c \<longrightarrow> fm_get (ci_PE chain) k = Some c"
    "m' = fold (window_put chain) picked m"
  shows "(\<forall>k \<in> fst ` set (fst m') \<union> fst ` set (snd m'). good_strike k) \<and>
    (\<forall>k c. map_of (fst m') k = Some c \<longrightarrow> fm_get (ci_CE chain) k = Some c) \<and> (\<forall>k c. map_of (snd m') k = Some c \<longrightarrow> fm_get (ci_PE chain) k = Some c) \<and>
    set picked \<union> dom (map_of (fst m)) \<subseteq> dom (map_of (fst m')) \<and> set picked \<union> dom (map_of (snd m)) \<subseteq> dom (map_of (snd m'))"
  using assms
proof (induction picked arbitrary: m)
  case (Cons s ss)
  obtain c x where cx: "fm_get (ci_CE chain) s = Some c" "fm_get (ci_PE chain) s = Some x" using Cons.prems(1) by auto
  have s: "good_strike s" using Cons.prems(1) by simp
  have gm: "\<forall>k \<in> fst ` set (fst m). good_strike k" "\<forall>k \<in> fst ` set (snd m). good_strike k" using Cons.prems(2) by auto
  define m1 where "m1 = window_put chain s m"
  have m1: "m1 = (AList.update s c (fst m), AList.update s x (snd m))"
    by (cases m) (use cx fm_put_update [OF s gm(1)] fm_put_update [OF s gm(2)] in \<open>simp add: m1_def window_put_def\<close>)
  have "(\<forall>k \<in> fst ` set (fst m') \<union> fst ` set (snd m'). good_strike k) \<and>
    (\<forall>k c. map_of (fst m') k = Some c \<longrightarrow> fm_get (ci_CE chain) k = Some c) \<and> (\<forall>k c. map_of (snd m') k = Some c \<longrightarrow> fm_get (ci_PE chain) k = Some c) \<and>
    set ss \<union> dom (map_of (fst m1)) \<subseteq> dom (map_of (fst m')) \<and> set ss \<union> dom (map_of (snd m1)) \<subseteq> dom (map_of (snd m'))"
  proof (rule Cons.IH)
    show "\<forall>k \<in> fst ` set (fst m1) \<union> fst ` set (snd m1). good_strike k" using gm s by (auto simp: m1 dom_update)
    show "\<forall>k c. map_of (fst m1) k = Some c \<longrightarrow> fm_get (ci_CE chain) k = Some c" using Cons.prems(3) cx by (auto simp: m1 update_conv')
    show "\<forall>k c. map_of (snd m1) k = Some c \<longrightarrow> fm_get (ci_PE chain) k = Some c" using Cons.prems(4) cx by (auto simp: m1 update_conv')
  qed (use Cons.prems(1,5) in \<open>simp_all add: m1_def\<close>)
  then show ?case by (auto simp: m1 update_conv')
qed auto

lemma filter_all: "(\<And>x. x \<in> set xs \<Longrightarrow> P x) \<Longrightarrow> filter P xs = xs"
  by (induction xs) auto

text \<open>On a sound chain the window keeps every picked strike, with the contracts of the chain.\<close>

lemma BuildWindow_sound:
  assumes "chain_sound all today u ci" "BuildWindow board ci ref n now = Some w"
  shows "\<exists>picked. SelectStrikeWindow (ci_Strikes ci) ref n = Some (w_AtmStrike w, picked) \<and> w_Strikes w = picked \<and> f_pos ref \<and>
    w_Underlying w = u \<and> w_Expiry w = ci_Expiry ci \<and> w_Future w = ci_Future ci \<and> w_LotSize w = ci_LotSize ci \<and>
    (set picked \<subseteq> set (ci_Strikes ci) \<longrightarrow> (\<forall>s \<in> set picked. Some (fm_at (w_CE w) s) = fm_get (ci_CE ci) s \<and> Some (fm_at (w_PE w) s) = fm_get (ci_PE ci) s))"
proof -
  obtain atm picked where sel: "f_pos ref" "SelectStrikeWindow (ci_Strikes ci) ref n = Some (atm, picked)"
    using assms(2) by (auto simp: BuildWindow_def split: if_splits option.splits)
  define m where "m = fold (window_put ci) picked ([], [])"
  have w: "w_AtmStrike w = atm" "w_Strikes w = filter (\<lambda>s. fm_get (fst m) s \<noteq> None) picked" "w_CE w = fst m" "w_PE w = snd m"
      "w_Underlying w = ci_Underlying ci" "w_Expiry w = ci_Expiry ci" "w_Future w = ci_Future ci" "w_LotSize w = ci_LotSize ci"
    using assms(2) sel by (auto simp: BuildWindow_def Let_def case_prod_beta' m_def)
  have cs: "list_all good_strike (ci_Strikes ci)" "ci_Underlying ci = u"
      "\<forall>s \<in> set (ci_Strikes ci). fm_get (ci_CE ci) s \<noteq> None \<and> fm_get (ci_PE ci) s \<noteq> None"
    using assms(1) by (fastforce simp: chain_sound_def)+
  have sub: "set picked \<subseteq> set (ci_Strikes ci)"
    using sel(2) uniqueSorted_good(1) [OF cs(1)] by (auto simp: SelectStrikeWindow_def Let_def split: option.splits dest: in_set_takeD in_set_dropD)
  have g: "\<forall>s \<in> set picked. good_strike s \<and> fm_get (ci_CE ci) s \<noteq> None \<and> fm_get (ci_PE ci) s \<noteq> None"
    using sub cs by (auto simp: list_all_iff)
  note M = window_maps [OF g, of "([], [])" m, simplified, folded m_def]
  have get: "fm_get (fst m) s = fm_get (ci_CE ci) s \<and> fm_get (snd m) s = fm_get (ci_PE ci) s \<and> fm_get (fst m) s \<noteq> None \<and> fm_get (snd m) s \<noteq> None"
    if s: "s \<in> set picked" for s
  proof -
    have gs: "good_strike s" "\<forall>j \<in> fst ` set (fst m). good_strike j" "\<forall>j \<in> fst ` set (snd m). good_strike j" using g s M by auto
    have "s \<in> dom (map_of (fst m))" "s \<in> dom (map_of (snd m))" using M s by blast+
    then obtain c x where "map_of (fst m) s = Some c" "map_of (snd m) s = Some x" by blast
    moreover from this have "fm_get (ci_CE ci) s = Some c" "fm_get (ci_PE ci) s = Some x" using M by blast+
    ultimately show ?thesis using fm_get_map_of [OF gs(1,2)] fm_get_map_of [OF gs(1,3)] by simp
  qed
  have "w_Strikes w = picked" unfolding w using get by (intro filter_all) blast
  moreover have "Some (fm_at (w_CE w) s) = fm_get (ci_CE ci) s \<and> Some (fm_at (w_PE w) s) = fm_get (ci_PE ci) s" if "s \<in> set picked" for s
  proof -
    from get [OF that] obtain c x where "fm_get (fst m) s = Some c" "fm_get (snd m) s = Some x" "fm_get (ci_CE ci) s = Some c" "fm_get (ci_PE ci) s = Some x"
      by (metis not_None_eq)
    then show ?thesis by (simp add: w fm_at_def)
  qed
  ultimately show ?thesis using sel w cs(2) by blast
qed

lemma length_WindowTokens: "length (WindowTokens w) = 1 + 2 * length (w_Strikes w)"
proof -
  have "length (concat (map (\<lambda>s. [f s, g s]) xs)) = 2 * length xs" for f g :: "f64 \<Rightarrow> token" and xs by (induction xs) auto
  then show ?thesis by (simp add: WindowTokens_def)
qed


definition demo_listed :: "string \<Rightarrow> token \<Rightarrow> int \<Rightarrow> instrument" where
  "demo_listed ty t k = zero_instrument\<lparr>i_InstrumentToken := t, i_Name := ''ACME'', i_Expiry := ''2026-10-27'', i_Strike := f_of_int k,
     i_LotSize := f_of_int 50, i_InstrumentType := ty, i_Exchange := ''NFO''\<rparr>"

definition demo_listing :: "instrument list" where
  "demo_listing = [demo_listed ''FUT'' 1 0, demo_listed ''CE'' 2 110, demo_listed ''CE'' 3 100, demo_listed ''PE'' 4 100, demo_listed ''PE'' 5 110, demo_listed ''PE'' 6 120]"

definition demo_chain :: chain_index where
  "demo_chain = snd (hd (IndexSyntheticChains demo_listing ''2026-10-01''))"


end
