(* ===== verification/JsParse.thy ===== *)
theory JsParse
  imports JsFmt
begin

text \<open>
  Reading numbers and text the way JavaScript does: \<^verbatim>\<open>jsx.ParseNumber\<close>
  (\<^verbatim>\<open>internal/jsx/jsx.go\<close>) with the parts of \<^verbatim>\<open>strconv\<close> it uses, and \<^verbatim>\<open>String.prototype.trim\<close>,
  \<^verbatim>\<open>Number\<close>, \<^verbatim>\<open>String\<close> and UTF-16 slicing of \<^verbatim>\<open>internal/synthetic/jsfmt.go\<close>.

  A string is a list of bytes; trimming works on its runes. \<^verbatim>\<open>strconv.ParseFloat\<close> on the
  characters that reach it is the number nearest to the decimal written (ties to even), an infinity
  where that overflows; its exponent accumulator stops growing at \<open>10000\<close>, as in \<^verbatim>\<open>readFloat\<close>.
\<close>

section \<open>Trimming\<close>

text \<open>The string cut into its runes, each with its bytes.\<close>

function chunks :: "string \<Rightarrow> (int \<times> string) list" where
  "chunks s = (if s = [] then [] else let (r, size) = decode_rune s in (r, take size s) # chunks (drop size s))"
  by auto

termination
proof (relation "measure length", goal_cases)
  case (2 s x r size)
  then have "0 < size" using decode_rune_width [of s] by (metis snd_conv)
  then show ?case using 2(1) by simp
qed simp

declare chunks.simps [simp del]

definition trim_func :: "(int \<Rightarrow> bool) \<Rightarrow> string \<Rightarrow> string" where
  "trim_func white s = concat (map snd (rev (dropWhile (\<lambda>c. white (fst c)) (rev (dropWhile (\<lambda>c. white (fst c)) (chunks s))))))"

text \<open>\<^verbatim>\<open>unicode.IsSpace\<close>.\<close>

definition is_space :: "int \<Rightarrow> bool" where
  "is_space r \<longleftrightarrow> 9 \<le> r \<and> r \<le> 13 \<or> 8192 \<le> r \<and> r \<le> 8202 \<or>
     r \<in> set [32, 133, 160, 5760, 8232, 8233, 8239, 8287, 12288]"

definition TrimSpace :: "string \<Rightarrow> string" where
  "TrimSpace s = trim_func is_space s"

definition isJSWhite :: "int \<Rightarrow> bool" where
  "isJSWhite r \<longleftrightarrow> r \<in> set [9, 10, 11, 12, 13, 32, 160, 5760, 8232, 8233, 8239, 8287, 12288, 65279] \<or>
     8192 \<le> r \<and> r \<le> 8202"

definition jsTrim :: "string \<Rightarrow> string" where
  "jsTrim s = trim_func isJSWhite s"

section \<open>Numbers\<close>

definition digit_in :: "int \<Rightarrow> char \<Rightarrow> int option" where
  "digit_in base c =
     (let b = int (of_char c);
          v = (if 48 \<le> b \<and> b \<le> 57 then b - 48 else if 97 \<le> b \<and> b \<le> 122 then b - 97 + 10 else if 65 \<le> b \<and> b \<le> 90 then b - 65 + 10 else 99)
      in if v < base then Some v else None)"

text \<open>\<^verbatim>\<open>strconv.ParseUint\<close> with an explicit base: no sign, no underscores, no overflow of 64 bits.\<close>

fun uint_acc :: "int \<Rightarrow> int \<Rightarrow> string \<Rightarrow> int option" where
  "uint_acc base n [] = Some n"
| "uint_acc base n (c # cs) =
     (case digit_in base c of
        None \<Rightarrow> None
      | Some d \<Rightarrow> let n' = n * base + d in if 2 ^ 64 \<le> n' then None else uint_acc base n' cs)"

definition ParseUint :: "string \<Rightarrow> int \<Rightarrow> int option" where
  "ParseUint s base = (if s = [] then None else uint_acc base 0 s)"

text \<open>The mantissa: digits with at most one point. The value read is \<open>n / 10 ^ k\<close>; \<open>seen\<close> says that a digit occurred.\<close>

fun read_mantissa :: "bool \<Rightarrow> bool \<Rightarrow> int \<Rightarrow> nat \<Rightarrow> string \<Rightarrow> bool \<times> int \<times> nat \<times> string" where
  "read_mantissa dot seen n k [] = (seen, n, k, [])"
| "read_mantissa dot seen n k (c # cs) =
     (if c = CHR ''.'' then (if dot then (seen, n, k, c # cs) else read_mantissa True seen n k cs)
      else if is_digit c then read_mantissa dot True (n * 10 + (int (of_char c) - 48)) (if dot then k + 1 else k) cs
      else (seen, n, k, c # cs))"

fun read_exponent :: "int \<Rightarrow> string \<Rightarrow> int option" where
  "read_exponent e [] = Some e"
| "read_exponent e (c # cs) =
     (if is_digit c then read_exponent (if e < 10000 then e * 10 + (int (of_char c) - 48) else e) cs else None)"

definition exponent_of :: "string \<Rightarrow> int option" where
  "exponent_of s =
     (let (neg, ds) = (case s of c # cs \<Rightarrow> if c = CHR ''+'' then (False, cs) else if c = CHR ''-'' then (True, cs) else (False, s) | [] \<Rightarrow> (False, []))
      in case ds of [] \<Rightarrow> None | _ \<Rightarrow> map_option (\<lambda>e. if neg then - e else e) (read_exponent 0 ds))"

definition dec_value :: "bool \<Rightarrow> int \<Rightarrow> int \<Rightarrow> f64" where
  "dec_value neg n q = (if 0 \<le> q then f_round neg (n * 10 ^ nat q) 1 else f_round neg n (10 ^ nat (- q)))"

definition ParseFloat :: "string \<Rightarrow> f64 option" where
  "ParseFloat s =
     (let (neg, body) = (case s of c # cs \<Rightarrow> if c = CHR ''+'' then (False, cs) else if c = CHR ''-'' then (True, cs) else (False, s) | [] \<Rightarrow> (False, []));
          (seen, n, k, rest) = read_mantissa False False 0 0 body
      in if \<not> seen then None
         else case rest of
             [] \<Rightarrow> Some (dec_value neg n (- int k))
           | c # cs \<Rightarrow> if c = CHR ''e'' \<or> c = CHR ''E''
               then map_option (\<lambda>e. dec_value neg n (e - int k)) (exponent_of cs)
               else None)"

definition number_char :: "char \<Rightarrow> bool" where
  "number_char c \<longleftrightarrow> is_digit c \<or> c \<in> set ''.eE+-''"

definition radix_of :: "string \<Rightarrow> int" where
  "radix_of s =
     (case s of
        c # d # _ # _ \<Rightarrow>
          if c = CHR ''0'' then (if d \<in> set ''xX'' then 16 else if d \<in> set ''oO'' then 8 else if d \<in> set ''bB'' then 2 else 0) else 0
      | _ \<Rightarrow> 0)"

definition ParseNumber :: "string \<Rightarrow> f64 \<times> bool" where
  "ParseNumber s0 =
     (let s = TrimSpace s0
      in if s = [] then (f_zero, True)
         else if radix_of s \<noteq> 0
         then (case ParseUint (drop 2 s) (radix_of s) of None \<Rightarrow> (NaN, False) | Some n \<Rightarrow> (f_of_int n, True))
         else if \<not> list_all number_char s
         then (if s = ''Infinity'' \<or> s = ''+Infinity'' then (Inf False, True) else if s = ''-Infinity'' then (Inf True, True) else (NaN, False))
         else case ParseFloat s of None \<Rightarrow> (NaN, False) | Some x \<Rightarrow> (x, True))"

definition jsNumberFromString :: "string \<Rightarrow> f64" where
  "jsNumberFromString s =
     (let t = jsTrim s in if t = [] then f_zero else let (n, ok) = ParseNumber t in if ok then n else NaN)"

section \<open>Decoded JSON values\<close>

datatype jvalue = JNull | JBool bool | JNum f64 | JStr string | JArr "jvalue list" | JObj "(string \<times> jvalue) list"

fun jsString :: "jvalue \<Rightarrow> string" where
  "jsString JNull = ''null''"
| "jsString (JBool b) = (if b then ''true'' else ''false'')"
| "jsString (JNum x) = jsNumberString x"
| "jsString (JStr s) = s"
| "jsString (JArr xs) = join '','' (map (\<lambda>e. if e = JNull then '''' else jsString e) xs)"
| "jsString (JObj _) = ''[object Object]''"

fun jsNumber :: "jvalue \<Rightarrow> f64" where
  "jsNumber JNull = f_zero"
| "jsNumber (JBool b) = (if b then f_of_int 1 else f_zero)"
| "jsNumber (JNum x) = x"
| "jsNumber (JStr s) = jsNumberFromString s"
| "jsNumber (JArr xs) = jsNumberFromString (jsString (JArr xs))"
| "jsNumber (JObj _) = NaN"

section \<open>UTF-16 slicing\<close>

definition utf16_encode :: "int \<Rightarrow> int list" where
  "utf16_encode r = (if r < 65536 then [r] else [55296 + (r - 65536) div 1024, 56320 + (r - 65536) mod 1024])"

fun utf16_decode :: "int list \<Rightarrow> int list" where
  "utf16_decode [] = []"
| "utf16_decode [u] = [if 55296 \<le> u \<and> u < 57344 then 65533 else u]"
| "utf16_decode (u # v # us) =
     (if 55296 \<le> u \<and> u < 56320 \<and> 56320 \<le> v \<and> v < 57344 then ((u - 55296) * 1024 + (v - 56320) + 65536) # utf16_decode us
      else (if 55296 \<le> u \<and> u < 57344 then 65533 else u) # utf16_decode (v # us))"

definition byte :: "int \<Rightarrow> char" where
  "byte b = char_of (nat b)"

definition utf8_encode :: "int \<Rightarrow> string" where
  "utf8_encode r =
     (if r < 128 then [byte r]
      else if r < 2048 then [byte (192 + r div 64), byte (128 + r mod 64)]
      else if r < 65536 then [byte (224 + r div 4096), byte (128 + r div 64 mod 64), byte (128 + r mod 64)]
      else [byte (240 + r div 262144), byte (128 + r div 4096 mod 64), byte (128 + r div 64 mod 64), byte (128 + r mod 64)])"

definition utf16Prefix :: "string \<Rightarrow> nat \<Rightarrow> string" where
  "utf16Prefix s n =
     (let units = concat (map utf16_encode (runes s))
      in if length units \<le> n then s else concat (map utf8_encode (utf16_decode (take n units))))"

end
