(* ===== verification/SynthConfig.thy ===== *)
theory SynthConfig
  imports SynthMath JsParse
begin

text \<open>
  Configuration: the environment helpers (\<^verbatim>\<open>internal/config\<close>), the rate cards read through them
  (\<^verbatim>\<open>ratecard.Load\<close>, \<^verbatim>\<open>LoadFuturesChargeRates\<close>) and the synthetic scanner's own
  configuration and admin-tunable settings (\<^verbatim>\<open>internal/synthetic/config.go\<close>). The environment is a
  function from names to values, empty where unset.

  The theorem gives the type of a settings value: whatever JSON value an admin sends,
  \<open>ParseSetting\<close> either refuses it with a message or returns a finite number inside the key's limits, never minus
  zero, and a whole one for the number of positions.
\<close>

section \<open>Environment helpers\<close>

type_synonym getter = "string \<Rightarrow> string"

definition Str :: "getter \<Rightarrow> string \<Rightarrow> string \<Rightarrow> string" where
  "Str get key def = (let v = TrimSpace (get key) in if v \<noteq> [] then v else def)"

definition NumAny :: "getter \<Rightarrow> string \<Rightarrow> f64 option" where
  "NumAny get key =
     (let raw = TrimSpace (get key)
      in if raw = [] then None else let (v, ok) = ParseNumber raw in if \<not> ok \<or> \<not> f_finite v then None else Some v)"

definition Num :: "getter \<Rightarrow> string \<Rightarrow> f64 \<Rightarrow> f64" where
  "Num get key def = (case NumAny get key of None \<Rightarrow> def | Some v \<Rightarrow> if f_lt v f_zero then def else v)"

text \<open>\<^verbatim>\<open>strings.ToLower\<close> matters here only on the words compared with, which are ASCII. The one other rune whose
  lower case is ASCII is the Kelvin sign, and no word contains a \<open>k\<close>.\<close>

definition ascii_lower :: "char \<Rightarrow> char" where
  "ascii_lower c = (let b = of_char c :: nat in if 65 \<le> b \<and> b \<le> 90 then char_of (b + 32) else c)"

definition Bool :: "getter \<Rightarrow> string \<Rightarrow> bool \<Rightarrow> bool" where
  "Bool get key def =
     (let v = map ascii_lower (TrimSpace (get key))
      in if v \<in> set [''1'', ''true'', ''yes''] then True else if v \<in> set [''0'', ''false'', ''no''] then False else def)"

section \<open>Rate cards\<close>

definition Load_rates :: "getter \<Rightarrow> rates" where
  "Load_rates get =
     \<lparr>BrokeragePerOrder = Num get ''BOX_BROKERAGE_PER_ORDER'' (f_of_int 20),
      BrokerageMaxPct = Num get ''BOX_BROKERAGE_MAX_PCT'' f_zero,
      SttSellPct = Num get ''BOX_STT_SELL_PCT'' (f_dec 15 2),
      SttRoundNearestRupee = Bool get ''BOX_STT_ROUND_NEAREST_RUPEE'' True,
      ExchangeTxnPct = Num get ''BOX_EXCHANGE_TXN_PCT'' (f_dec 3503 5),
      IpftPerCrore = Num get ''BOX_IPFT_PER_CRORE'' (f_of_int 50),
      IpftPct = Num get ''BOX_IPFT_PCT'' f_zero,
      SebiPct = Num get ''BOX_SEBI_PCT'' (f_dec 1 4),
      StampDutyBuyPct = Num get ''BOX_STAMP_DUTY_BUY_PCT'' (f_dec 3 3),
      GstPct = Num get ''BOX_GST_PCT'' (f_of_int 18),
      SttType = Str get ''BOX_STT_TYPE'' ''stt'',
      RateVersion = Str get ''BOX_CHARGE_RATE_VERSION'' ''zerodha-nse-options-2026-04-01''\<rparr>"

definition LoadFuturesChargeRates :: "getter \<Rightarrow> rates \<Rightarrow> rates" where
  "LoadFuturesChargeRates get base =
     base\<lparr>SttSellPct := Num get ''SYNTH_FUT_STT_SELL_PCT'' (f_dec 5 2),
       ExchangeTxnPct := Num get ''SYNTH_FUT_EXCHANGE_TXN_PCT'' (f_dec 173 5),
       IpftPerCrore := Num get ''SYNTH_FUT_IPFT_PER_CRORE'' (f_of_int 10),
       IpftPct := f_zero,
       StampDutyBuyPct := Num get ''SYNTH_FUT_STAMP_DUTY_BUY_PCT'' (f_dec 2 3),
       RateVersion := Str get ''SYNTH_FUT_CHARGE_RATE_VERSION'' ''nse-futures-2026-04-01''\<rparr>"

section \<open>Scanner configuration\<close>

definition ClampStrikeLevel :: "jvalue \<Rightarrow> nat option" where
  "ClampStrikeLevel v =
     (let n = jsNumber v
      in if f_eq n (f_of_int 1) then Some 1 else if f_eq n (f_of_int 2) then Some 2 else if f_eq n (f_of_int 3) then Some 3 else None)"

record config =
  StrikeLevel :: nat
  QuoteMaxAgeMs :: f64
  FeedMaxAgeMs :: f64
  AtmHysteresis :: f64
  WindowMinIntervalMs :: f64
  EvalIntervalMs :: f64
  PublishIntervalMs :: f64
  UniverseRefreshMs :: f64
  MaxTokens :: f64
  ShareBoxBudget :: bool
  LaneTokenLimit :: f64
  MaxUnderlyings :: f64
  MaxPublishedOpportunities :: f64
  MinExpectedNetProfit :: f64
  SafetyBuffer :: f64
  ExpectedSlippage :: f64
  IncludeCarry :: bool
  DefaultRfPct :: f64
  EnableConversion :: bool
  EnableReversal :: bool
  SkipExpiryDay :: bool
  PaperTrading :: bool
  MaxOpenPositions :: f64
  SignalConfirmations :: f64
  ReentryCooldownMs :: f64
  ConvergenceFloor :: f64
  ConvergencePct :: f64
  MinExitNetPnl :: f64
  ProfitCapturePct :: f64
  MinCapturedPct :: f64
  ExpirySafetyMinutes :: f64
  OptionRates :: rates
  FuturesRates :: rates

definition LoadConfig :: "getter \<Rightarrow> config" where
  "LoadConfig get =
     (let num = Num get; flag = Bool get;
          level = (case ClampStrikeLevel (JNum (num ''SYNTH_STRIKE_LEVEL'' (f_of_int 3))) of Some l \<Rightarrow> l | None \<Rightarrow> 3);
          optionRates = Load_rates get
      in \<lparr>StrikeLevel = level,
          QuoteMaxAgeMs = num ''SYNTH_QUOTE_MAX_AGE_MS'' (f_of_int 15000),
          FeedMaxAgeMs = num ''SYNTH_FEED_MAX_AGE_MS'' (f_of_int 10000),
          AtmHysteresis = num ''SYNTH_ATM_HYSTERESIS'' (f_dec 15 2),
          WindowMinIntervalMs = num ''SYNTH_WINDOW_MIN_INTERVAL_MS'' (f_of_int 15000),
          EvalIntervalMs = f_max (f_of_int 100) (num ''SYNTH_EVAL_INTERVAL_MS'' (f_of_int 500)),
          PublishIntervalMs = f_max (f_of_int 200) (num ''SYNTH_PUBLISH_INTERVAL_MS'' (f_of_int 1000)),
          UniverseRefreshMs = f_max (f_of_int 60000) (num ''SYNTH_UNIVERSE_REFRESH_MS'' (f_of_int (15 * 60000))),
          MaxTokens = num ''SYNTH_MAX_TOKENS'' (f_of_int 750),
          ShareBoxBudget = flag ''SYNTH_SHARE_BOX_BUDGET'' True,
          LaneTokenLimit = num ''SYNTH_LANE_TOKEN_LIMIT'' (f_of_int 3000),
          MaxUnderlyings = num ''SYNTH_MAX_UNDERLYINGS'' f_zero,
          MaxPublishedOpportunities = f_max (f_of_int 10) (num ''SYNTH_MAX_PUBLISHED_OPPORTUNITIES'' (f_of_int 150)),
          MinExpectedNetProfit = num ''SYNTH_MIN_EXPECTED_NET_PROFIT'' (f_of_int 500),
          SafetyBuffer = num ''SYNTH_SAFETY_BUFFER'' (f_of_int 100),
          ExpectedSlippage = num ''SYNTH_EXPECTED_SLIPPAGE'' f_zero,
          IncludeCarry = flag ''SYNTH_INCLUDE_CARRY'' True,
          DefaultRfPct = num ''SYNTH_DEFAULT_RF_PCT'' f_zero,
          EnableConversion = flag ''SYNTH_ENABLE_CONVERSION'' True,
          EnableReversal = flag ''SYNTH_ENABLE_REVERSAL'' True,
          SkipExpiryDay = flag ''SYNTH_SKIP_EXPIRY_DAY'' False,
          PaperTrading = flag ''SYNTH_PAPER_TRADING'' True,
          MaxOpenPositions = f_floor (num ''SYNTH_MAX_OPEN_POSITIONS'' f_zero),
          SignalConfirmations = f_max (f_of_int 1) (f_floor (num ''SYNTH_SIGNAL_CONFIRMATIONS'' (f_of_int 2))),
          ReentryCooldownMs = num ''SYNTH_REENTRY_COOLDOWN_MS'' (f_of_int 60000),
          ConvergenceFloor = num ''SYNTH_CONVERGENCE_FLOOR'' (f_of_int 100),
          ConvergencePct = num ''SYNTH_CONVERGENCE_PCT'' (f_dec 2 1),
          MinExitNetPnl = num ''SYNTH_MIN_EXIT_NET_PNL'' (f_of_int 250),
          ProfitCapturePct = num ''SYNTH_PROFIT_CAPTURE_PCT'' (f_dec 75 2),
          MinCapturedPct = num ''SYNTH_MIN_CAPTURED_PCT'' (f_dec 75 2),
          ExpirySafetyMinutes = num ''SYNTH_EXPIRY_SAFETY_MINUTES'' (f_of_int 45),
          OptionRates = optionRates,
          FuturesRates = LoadFuturesChargeRates get optionRates\<rparr>)"

section \<open>Runtime settings\<close>

datatype setting_key = SettingMinExpectedNetProfit | SettingSafetyBuffer | SettingMaxOpenPositions

definition SettingKeys :: "setting_key list" where
  "SettingKeys = [SettingMinExpectedNetProfit, SettingSafetyBuffer, SettingMaxOpenPositions]"

fun key_name :: "setting_key \<Rightarrow> string" where
  "key_name SettingMinExpectedNetProfit = ''min_expected_net_profit''"
| "key_name SettingSafetyBuffer = ''safety_buffer''"
| "key_name SettingMaxOpenPositions = ''max_open_positions''"

record limit =
  l_Min :: f64
  l_Max :: f64

fun limitFor :: "setting_key \<Rightarrow> limit" where
  "limitFor SettingMinExpectedNetProfit = \<lparr>l_Min = f_zero, l_Max = f_of_int 100000\<rparr>"
| "limitFor SettingSafetyBuffer = \<lparr>l_Min = f_zero, l_Max = f_of_int 50000\<rparr>"
| "limitFor SettingMaxOpenPositions = \<lparr>l_Min = f_zero, l_Max = f_of_int 10000\<rparr>"

record settings =
  s_MinExpectedNetProfit :: f64
  s_SafetyBuffer :: f64
  s_MaxOpenPositions :: f64

fun settings_get :: "settings \<Rightarrow> setting_key \<Rightarrow> f64" where
  "settings_get s SettingMinExpectedNetProfit = s_MinExpectedNetProfit s"
| "settings_get s SettingSafetyBuffer = s_SafetyBuffer s"
| "settings_get s SettingMaxOpenPositions = s_MaxOpenPositions s"

fun settings_set :: "setting_key \<Rightarrow> f64 \<Rightarrow> settings \<Rightarrow> settings" where
  "settings_set SettingMinExpectedNetProfit v s = s\<lparr>s_MinExpectedNetProfit := v\<rparr>"
| "settings_set SettingSafetyBuffer v s = s\<lparr>s_SafetyBuffer := v\<rparr>"
| "settings_set SettingMaxOpenPositions v s = s\<lparr>s_MaxOpenPositions := v\<rparr>"

definition setting_number :: "jvalue \<Rightarrow> f64 option" where
  "setting_number raw =
     (case raw of
        JStr s \<Rightarrow> if jsTrim s \<noteq> [] then Some (jsNumberFromString s) else None
      | JNum n \<Rightarrow> Some n
      | _ \<Rightarrow> None)"

definition range_message :: "setting_key \<Rightarrow> string" where
  "range_message key =
     (let bounds = jsNumberString (l_Min (limitFor key)) @ '' to '' @ jsNumberString (l_Max (limitFor key))
      in if key = SettingMaxOpenPositions
         then ''max_open_positions must be a whole number from '' @ bounds @ '' (0 = no limit)''
         else key_name key @ '' must be a number from '' @ bounds)"

definition ParseSetting :: "setting_key \<Rightarrow> jvalue \<Rightarrow> string + f64" where
  "ParseSetting key raw =
     (case setting_number raw of
        None \<Rightarrow> Inl (range_message key)
      | Some n \<Rightarrow>
          if \<not> f_finite n \<or> f_lt n (l_Min (limitFor key)) \<or> f_lt (l_Max (limitFor key)) n then Inl (range_message key)
          else if key = SettingMaxOpenPositions \<and> \<not> f_eq n (f_truncate n)
          then Inl ''max_open_positions must be a whole number (0 = no limit)''
          else Inr (f_add n f_zero))"

section \<open>A parsed setting is in range\<close>

lemma f_add_zero:
  assumes "f_wf n" "f_finite n" "\<not> f_lt n f_zero"
  shows "f_add n f_zero = (if f_eq n f_zero then f_zero else n)" "\<not> f_signbit (f_add n f_zero)"
proof -
  obtain s m e where n: "n = Fin s m e" using assms(2) by (cases n) auto
  have m: "0 \<le> m" "m = 0 \<Longrightarrow> e = - 1074" using assms(1) by (auto simp: n)
  have num: "f_num n" using assms(1,2) by (simp add: f_num_finite)
  have s: "\<not> s" if "0 < m" using assms(3) that num by (auto simp: f_lt_num n signed_def mult_less_0_iff split: if_splits)
  have "f_eq n f_zero \<longleftrightarrow> m = 0"
    using num unfolding f_eq_num [OF num f_num_zero(1)] f_num_zero(2) by (simp add: n signed_def)
  then show a: "f_add n f_zero = (if f_eq n f_zero then f_zero else n)"
    using m by (cases "m = 0") (simp_all add: n f_zero_def signed_def)
  show "\<not> f_signbit (f_add n f_zero)"
    unfolding a \<open>f_eq n f_zero \<longleftrightarrow> m = 0\<close> using s m(1) by (cases "m = 0") (simp_all add: n f_zero_def)
qed

lemma read_mantissa_nonneg:
  assumes "0 \<le> n" "read_mantissa dot seen n k s = (seen', n', k', rest)"
  shows "0 \<le> n'"
  using assms
proof (induction s arbitrary: dot seen n k)
  case (Cons c cs)
  have "48 \<le> int (of_char c)" if "is_digit c" using that by (simp add: is_digit_def less_eq_char_def)
  then have "0 \<le> n * 10 + (int (of_char c) - 48)" if "is_digit c" using that Cons.prems(1) by auto
  then show ?case using Cons.prems Cons.IH by (simp split: if_splits)
qed simp

lemma dec_value_wf: "0 \<le> n \<Longrightarrow> f_wf (dec_value neg n q)"
  by (simp add: dec_value_def)

lemma ParseFloat_wf: "ParseFloat s = Some x \<Longrightarrow> f_wf x"
  unfolding ParseFloat_def Let_def
  by (auto split: prod.splits list.splits if_splits simp del: read_mantissa.simps dest: read_mantissa_nonneg [rotated] intro: dec_value_wf)

lemma uint_acc_nonneg: "uint_acc base n s = Some v \<Longrightarrow> 0 \<le> n \<Longrightarrow> 0 \<le> base \<Longrightarrow> 0 \<le> v"
  by (induction base n s rule: uint_acc.induct) (auto simp: digit_in_def Let_def split: option.splits if_splits)

lemma ParseNumber_wf: "f_wf (fst (ParseNumber s))"
  unfolding ParseNumber_def Let_def
  by (auto split: option.splits dest: ParseFloat_wf simp: f_of_int_def)

lemma jsNumberFromString_wf: "f_wf (jsNumberFromString s)"
  using ParseNumber_wf [of "jsTrim s"] by (auto simp: jsNumberFromString_def Let_def case_prod_beta)

lemma limits: "l_Min (limitFor key) = f_zero" "f_num (l_Max (limitFor key))" "0 \<le> f_key (l_Max (limitFor key))"
  by (cases key; simp add: f_of_int_key)+

text \<open>
  C38: Whatever JSON value is sent for a setting, \<open>ParseSetting\<close> either refuses it with a message or returns a finite
  number between the key's limits that is not minus zero and, for the number of open positions, is whole; and a number
  that is already such a value is accepted as it is.
\<close>

theorem ParseSetting_typed:
  assumes "\<forall>n. raw = JNum n \<longrightarrow> f_wf n"
  shows "case ParseSetting key raw of
      Inl msg \<Rightarrow> msg \<noteq> []
    | Inr v \<Rightarrow> f_wf v \<and> f_finite v \<and> f_le (l_Min (limitFor key)) v \<and> f_le v (l_Max (limitFor key)) \<and> \<not> f_signbit v \<and>
        (key = SettingMaxOpenPositions \<longrightarrow> f_eq v (f_truncate v)) \<and> ParseSetting key (JNum v) = Inr v"
proof (cases "ParseSetting key raw")
  case (Inl msg)
  have "range_message key \<noteq> []" by (cases key) (simp_all add: range_message_def Let_def)
  then show ?thesis using Inl by (auto simp: ParseSetting_def split: option.splits if_splits)
next
  case (Inr v)
  then obtain n where n: "setting_number raw = Some n" "f_finite n" "\<not> f_lt n f_zero" "\<not> f_lt (l_Max (limitFor key)) n"
      "key = SettingMaxOpenPositions \<Longrightarrow> f_eq n (f_truncate n)" "v = f_add n f_zero"
    by (auto simp: ParseSetting_def limits split: option.splits if_splits)
  have wf: "f_wf n" using n(1) assms jsNumberFromString_wf by (auto simp: setting_number_def split: jvalue.splits if_splits)
  have v: "v = f_zero \<or> v = n" "\<not> f_signbit v" unfolding n(6) using f_add_zero [OF wf n(2,3)] by auto
  have num: "f_num n" using wf n(2) by (simp add: f_num_finite)
  have wfv: "f_wf v" "f_finite v" "f_num v" using v(1) wf n(2) num by auto
  have low: "\<not> f_lt v f_zero" using v(1) n(3) by (auto simp: f_lt_num)
  have high: "\<not> f_lt (l_Max (limitFor key)) v" using v(1) n(4) limits [of key] by (auto simp: f_lt_num)
  have whole: "f_eq v (f_truncate v)" if "key = SettingMaxOpenPositions"
    using v(1) n(5) [OF that] by (elim disjE) (simp_all add: f_zero_def f_round_def f_eq_num f_num_def)
  have "f_add v f_zero = v" using f_add_zero(1) [OF wfv(1,2) low] v(1) by (auto simp: n(6) f_add_zero [OF wf n(2,3)] split: if_splits)
  then have "ParseSetting key (JNum v) = Inr v"
    using wfv low high whole by (simp add: ParseSetting_def setting_number_def limits)
  moreover have "f_le f_zero v" "f_le v (l_Max (limitFor key))"
    using low high wfv limits [of key] by (simp_all add: f_lt_num f_le_num)
  ultimately show ?thesis using Inr wfv v(2) whole by (simp add: limits)
qed

theorem ParseSetting_typed_witness:
  "\<exists>v. ParseSetting SettingMaxOpenPositions (JStr '' 12 '') = Inr v \<and> f_eq v (f_of_int 12) \<and> f_le v (l_Max (limitFor SettingMaxOpenPositions))"
proof -
  have "(case ParseSetting SettingMaxOpenPositions (JStr '' 12 '') of Inr v \<Rightarrow> f_eq v (f_of_int 12) | Inl _ \<Rightarrow> False)" by code_simp
  then obtain v where v: "ParseSetting SettingMaxOpenPositions (JStr '' 12 '') = Inr v" "f_eq v (f_of_int 12)"
    by (auto split: sum.splits)
  have "f_le v (l_Max (limitFor SettingMaxOpenPositions))"
    using ParseSetting_typed [of "JStr '' 12 ''" SettingMaxOpenPositions] by (simp add: v(1))
  with v show ?thesis by (intro exI [of _ v] conjI)
qed

end
