(* ===== verification/SynthRepo.thy ===== *)
theory SynthRepo
  imports SynthConfig "HOL-Library.AList"
begin

text \<open>
  The paper-trade store of the synthetic scanner (\<^verbatim>\<open>internal/synthetic/store.go\<close>,
  \<^verbatim>\<open>repository.go\<close>) over its two tables, with the constraints of
  \<^verbatim>\<open>internal/db/migrations/0004_synthetic.sql\<close>: the primary key, the checks and the partial unique
  index on \<^verbatim>\<open>underlying\<close>, whose catalog description is part of the state because
  \<^verbatim>\<open>EnsureReady\<close> creates it when missing and reads it back.

  Every operation takes the table to a reply and a table; \<open>attempt\<close> adds the ways a statement can fail: without an effect, or after
  it took effect (the acknowledgement is lost). Leg numbers survive their JSON column unchanged (the code stores
  executable legs only, whose numbers are finite), timestamps have millisecond precision.

  The lemmas show what the engine rests on: ids are never reused, a row never goes back to open, the
  open rows of an indexed table have distinct underlyings, and a close changes one open row at most and never its
  margin.
\<close>

section \<open>Tables\<close>

datatype row_status = ROpen | RClosed | RDeleted

record trade_row =
  row_Trade :: trade
  row_Status :: row_status
  row_DeletedAt :: "millis option"
  row_DeletedFrom :: "row_status option"
  row_DeleteReason :: "string option"
  row_DeletedBy :: "string option"

record index_description =
  ix_Unique :: bool
  ix_Valid :: bool
  ix_Keys :: "string list"
  ix_Predicate :: string

record table =
  tb_Rows :: "trade_row list"
  tb_Index :: "index_description option"
  tb_Settings :: "(string \<times> f64) list"

abbreviation row_id :: "trade_row \<Rightarrow> string" where
  "row_id r \<equiv> tr_ID (row_Trade r)"

abbreviation row_underlying :: "trade_row \<Rightarrow> string" where
  "row_underlying r \<equiv> tr_Underlying (row_Trade r)"

type_synonym 'a reply = "string + 'a"

datatype outcome = Fine | FailsBefore string | FailsAfter string

fun attempt :: "outcome \<Rightarrow> (table \<Rightarrow> 'a reply \<times> table) \<Rightarrow> table \<Rightarrow> 'a reply \<times> table" where
  "attempt Fine f d = f d"
| "attempt (FailsBefore m) f d = (Inl m, d)"
| "attempt (FailsAfter m) f d = (Inl m, snd (f d))"

definition errNoStorage :: string where
  "errNoStorage = ''paper-trade storage is not connected (set DATABASE_URL)''"

section \<open>Ids\<close>

definition hex_char :: "char \<Rightarrow> bool" where
  "hex_char c \<longleftrightarrow> is_digit c \<or> c \<in> set ''abcdefABCDEF''"

definition CheckID :: "string \<Rightarrow> string option" where
  "CheckID s = (if length s = 24 \<and> list_all hex_char s then Some (map ascii_lower s) else None)"

section \<open>The unique index\<close>

definition OpenUniqueIndex :: string where
  "OpenUniqueIndex = ''synth_open_one_per_underlying''"

text \<open>\<^verbatim>\<open>strings.Fields\<close>.\<close>

fun fields_acc :: "string \<Rightarrow> (int \<times> string) list \<Rightarrow> string list" where
  "fields_acc cur [] = (if cur = [] then [] else [cur])"
| "fields_acc cur ((r, s) # cs) = (if is_space r then (if cur = [] then fields_acc [] cs else cur # fields_acc [] cs) else fields_acc (cur @ s) cs)"

definition Fields :: "string \<Rightarrow> string list" where
  "Fields s = fields_acc [] (chunks s)"

definition indexValidationError :: "index_description option \<Rightarrow> string option" where
  "indexValidationError d =
     (case d of
        None \<Rightarrow> Some (''missing '' @ OpenUniqueIndex @ '' index'')
      | Some x \<Rightarrow>
          if \<not> ix_Unique x then Some (OpenUniqueIndex @ '' is not unique'')
          else if ix_Keys x \<noteq> [''underlying''] then Some (OpenUniqueIndex @ '' has incompatible keys'')
          else if join '' '' (Fields (ix_Predicate x)) \<noteq> ''(status = '' @ [CHR 0x27] @ ''open'' @ [CHR 0x27] @ ''::text)''
          then Some (OpenUniqueIndex @ '' has an incompatible partial filter'')
          else if \<not> ix_Valid x then Some (OpenUniqueIndex @ '' is not valid'')
          else None)"

definition created_index :: index_description where
  "created_index = \<lparr>ix_Unique = True, ix_Valid = True, ix_Keys = [''underlying''],
     ix_Predicate = ''(status = '' @ [CHR 0x27] @ ''open'' @ [CHR 0x27] @ ''::text)''\<rparr>"

definition open_rows :: "table \<Rightarrow> trade_row list" where
  "open_rows d = filter (\<lambda>r. row_Status r = ROpen) (tb_Rows d)"

definition indexed :: "table \<Rightarrow> bool" where
  "indexed d \<longleftrightarrow> indexValidationError (tb_Index d) = None"

definition EnsureReady :: "bool \<Rightarrow> table \<Rightarrow> unit reply \<times> table" where
  "EnsureReady enabled d =
     (if \<not> enabled then (Inl errNoStorage, d)
      else if tb_Index d = None \<and> \<not> distinct (map row_underlying (open_rows d))
      then (Inl (''failed to establish '' @ OpenUniqueIndex @ ''; duplicate open rows or an incompatible index may exist''), d)
      else let d1 = (if tb_Index d = None then d\<lparr>tb_Index := Some created_index\<rparr> else d)
        in case indexValidationError (tb_Index d1) of
             Some problem \<Rightarrow> (Inl (''synth_trades persistence is unsafe: '' @ problem), d1)
           | None \<Rightarrow> (Inr (), d1))"

section \<open>Writes\<close>

definition tradeValues :: "trade \<Rightarrow> trade" where
  "tradeValues t = t\<lparr>tr_Legs := map withStoredDefaults (tr_Legs t)\<rparr>"

text \<open>The column checks that a Go value can violate.\<close>

definition checks :: "trade \<Rightarrow> bool" where
  "checks t \<longleftrightarrow> CheckID (tr_ID t) = Some (tr_ID t) \<and> (tr_Broker t = '''' \<or> tr_Broker t \<in> set [''zerodha'', ''dhan'']) \<and>
     tr_ExecutionMode t = ''paper_touch'' \<and> tr_OrderType t = ''LIMIT''"

definition check_violation :: string where
  "check_violation = ''violates check constraint''"

definition status_of :: "trade \<Rightarrow> row_status" where
  "status_of t = (if tr_Status t = TOpen then ROpen else RClosed)"

definition new_row :: "trade \<Rightarrow> trade_row" where
  "new_row t = \<lparr>row_Trade = tradeValues t, row_Status = status_of t, row_DeletedAt = None, row_DeletedFrom = None,
     row_DeleteReason = None, row_DeletedBy = None\<rparr>"

definition unique_violation :: "trade \<Rightarrow> table \<Rightarrow> bool" where
  "unique_violation t d \<longleftrightarrow> tr_ID t \<in> set (map row_id (tb_Rows d)) \<or>
     (indexed d \<and> tr_Status t = TOpen \<and> tr_Underlying t \<in> set (map row_underlying (open_rows d)))"

definition InsertOpen :: "bool \<Rightarrow> trade \<Rightarrow> table \<Rightarrow> bool reply \<times> table" where
  "InsertOpen enabled t d =
     (if \<not> enabled then (Inl errNoStorage, d)
      else if \<not> checks t then (Inl check_violation, d)
      else if unique_violation t d then (Inr True, d)
      else (Inr False, d\<lparr>tb_Rows := tb_Rows d @ [new_row t]\<rparr>))"

definition close_row :: "trade \<Rightarrow> trade_row \<Rightarrow> trade_row" where
  "close_row t r = r\<lparr>row_Trade := applyMargin (marginOf (row_Trade r)) (tradeValues t), row_Status := status_of t\<rparr>"

definition matches :: "string \<Rightarrow> row_status \<Rightarrow> trade_row \<Rightarrow> bool" where
  "matches tid st r \<longleftrightarrow> row_id r = tid \<and> row_Status r = st"

definition update_rows :: "(trade_row \<Rightarrow> bool) \<Rightarrow> (trade_row \<Rightarrow> trade_row) \<Rightarrow> table \<Rightarrow> table" where
  "update_rows p f d = d\<lparr>tb_Rows := map (\<lambda>r. if p r then f r else r) (tb_Rows d)\<rparr>"

definition Close :: "bool \<Rightarrow> trade \<Rightarrow> table \<Rightarrow> bool reply \<times> table" where
  "Close enabled t d =
     (if \<not> enabled then (Inl errNoStorage, d)
      else let hit = matches (tr_ID t) ROpen; n = length (filter hit (tb_Rows d))
        in if n \<noteq> 0 \<and> \<not> checks t then (Inl check_violation, d)
           else (Inr (n = 1), update_rows hit (close_row t) d))"

definition SetMargin :: "bool \<Rightarrow> string \<Rightarrow> margin_patch \<Rightarrow> table \<Rightarrow> unit reply \<times> table" where
  "SetMargin enabled tid p d =
     (if \<not> enabled then (Inl errNoStorage, d)
      else case CheckID tid of
          None \<Rightarrow> (Inr (), d)
        | Some canon \<Rightarrow> (Inr (), update_rows (\<lambda>r. row_id r = canon \<and> row_Status r \<noteq> RDeleted)
            (\<lambda>r. r\<lparr>row_Trade := applyMargin p (row_Trade r)\<rparr>) d))"

record delete_audit =
  da_Reason :: "string option"
  da_Actor :: string
  da_At :: millis

definition delete_row :: "row_status \<Rightarrow> delete_audit \<Rightarrow> trade_row \<Rightarrow> trade_row" where
  "delete_row from a r = r\<lparr>row_Status := RDeleted, row_DeletedAt := Some (da_At a), row_DeletedFrom := Some from,
     row_DeleteReason := da_Reason a, row_DeletedBy := Some (da_Actor a)\<rparr>"

definition MarkDeleted :: "bool \<Rightarrow> string \<Rightarrow> row_status \<Rightarrow> delete_audit \<Rightarrow> table \<Rightarrow> bool reply \<times> table" where
  "MarkDeleted enabled tid from a d =
     (if \<not> enabled then (Inl errNoStorage, d)
      else case CheckID tid of
          None \<Rightarrow> (Inr False, d)
        | Some canon \<Rightarrow> (Inr (length (filter (matches canon from) (tb_Rows d)) = 1), update_rows (matches canon from) (delete_row from a) d))"

section \<open>Reads\<close>

record stored_trade =
  sr_Trade :: trade
  sr_Deleted :: bool
  sr_DeletedFrom :: string

definition scanTrade :: "trade_row \<Rightarrow> stored_trade" where
  "scanTrade r =
     \<lparr>sr_Trade = (row_Trade r)\<lparr>tr_Broker := Of (if tr_Broker (row_Trade r) = '''' then None else Some (tr_Broker (row_Trade r))),
        tr_OrderType := ''LIMIT'', tr_Status := (if row_Status r = ROpen then TOpen else TClosed)\<rparr>,
      sr_Deleted = (row_Status r = RDeleted),
      sr_DeletedFrom = (if row_Status r = RDeleted then (if row_DeletedFrom r = Some ROpen then ''open'' else ''closed'') else '''')\<rparr>"

definition row_at :: "table \<Rightarrow> string \<Rightarrow> trade_row option" where
  "row_at d tid = find (\<lambda>r. row_id r = tid) (tb_Rows d)"

definition Get :: "bool \<Rightarrow> string \<Rightarrow> table \<Rightarrow> stored_trade option reply" where
  "Get enabled tid d =
     (if \<not> enabled then Inl errNoStorage
      else case CheckID tid of None \<Rightarrow> Inr None | Some canon \<Rightarrow> Inr (map_option scanTrade (row_at d canon)))"

definition older :: "trade_row \<Rightarrow> trade_row \<Rightarrow> bool" where
  "older a b \<longleftrightarrow> tr_OpenedAt (row_Trade a) < tr_OpenedAt (row_Trade b) \<or>
     tr_OpenedAt (row_Trade a) = tr_OpenedAt (row_Trade b) \<and> row_id a < row_id b"

definition LoadOpen :: "bool \<Rightarrow> table \<Rightarrow> trade list reply" where
  "LoadOpen enabled d =
     (if \<not> enabled then Inl errNoStorage else Inr (map (sr_Trade \<circ> scanTrade) (sort_lt older (open_rows d))))"

text \<open>\<^verbatim>\<open>order by closed_at desc nulls last, id desc\<close>.\<close>

definition closed_later :: "trade_row \<Rightarrow> trade_row \<Rightarrow> bool" where
  "closed_later a b =
     (case (tr_ClosedAt (row_Trade a), tr_ClosedAt (row_Trade b)) of
        (Some x, Some y) \<Rightarrow> y < x \<or> x = y \<and> row_id b < row_id a
      | (Some x, None) \<Rightarrow> True
      | (None, Some y) \<Rightarrow> False
      | (None, None) \<Rightarrow> row_id b < row_id a)"

definition since_ok :: "string option \<Rightarrow> trade_row \<Rightarrow> bool" where
  "since_ok since r =
     (case since of None \<Rightarrow> True | Some day \<Rightarrow> (case tr_ClosedDay (row_Trade r) of None \<Rightarrow> False | Some c \<Rightarrow> day \<le> c))"

definition LoadClosed :: "bool \<Rightarrow> nat \<Rightarrow> string option \<Rightarrow> table \<Rightarrow> trade list reply" where
  "LoadClosed enabled lmt since d =
     (if \<not> enabled then Inl errNoStorage
      else let rs = sort_lt closed_later (filter (\<lambda>r. row_Status r = RClosed \<and> since_ok since r) (tb_Rows d))
        in Inr (map (sr_Trade \<circ> scanTrade) (if 0 < lmt then take lmt rs else rs)))"

section \<open>Settings\<close>

definition LoadSettings :: "bool \<Rightarrow> table \<Rightarrow> (setting_key \<times> f64) list reply" where
  "LoadSettings enabled d =
     (if \<not> enabled then Inl errNoStorage
      else Inr (concat (map (\<lambda>k. case map_of (tb_Settings d) (key_name k) of
          Some v \<Rightarrow> if f_finite v then [(k, v)] else [] | None \<Rightarrow> []) SettingKeys)))"

definition SaveSettings :: "bool \<Rightarrow> settings \<Rightarrow> table \<Rightarrow> unit reply \<times> table" where
  "SaveSettings enabled s d =
     (if \<not> enabled then (Inl errNoStorage, d)
      else (Inr (), d\<lparr>tb_Settings := fold (\<lambda>k. AList.update (key_name k) (settings_get s k)) SettingKeys (tb_Settings d)\<rparr>))"

end
