(* ===== verification/SynthTable.thy ===== *)
theory SynthTable
  imports SynthRepo
begin

text \<open>
  What the paper-trade table guarantees, whoever writes to it: ids are unique and never
  disappear, a row that is no longer open stays so, and an index that \<^verbatim>\<open>EnsureReady\<close> accepts keeps at most
  one open row per underlying.
\<close>

definition row_ids :: "table \<Rightarrow> string set" where
  "row_ids d = row_id ` set (tb_Rows d)"

definition settled :: "string \<Rightarrow> table \<Rightarrow> bool" where
  "settled tid d \<longleftrightarrow> list_ex (\<lambda>r. row_id r = tid \<and> row_Status r \<noteq> ROpen) (tb_Rows d)"

definition is_open :: "string \<Rightarrow> table \<Rightarrow> bool" where
  "is_open tid d \<longleftrightarrow> list_ex (\<lambda>r. row_id r = tid \<and> row_Status r = ROpen) (tb_Rows d)"

definition table_ok :: "table \<Rightarrow> bool" where
  "table_ok d \<longleftrightarrow> distinct (map row_id (tb_Rows d)) \<and> list_all (\<lambda>r. CheckID (row_id r) = Some (row_id r)) (tb_Rows d) \<and>
     (indexed d \<longrightarrow> distinct (map row_underlying (open_rows d)))"

definition grows :: "table \<Rightarrow> table \<Rightarrow> bool" where
  "grows d d' \<longleftrightarrow> row_ids d \<subseteq> row_ids d' \<and> (\<forall>tid. settled tid d \<longrightarrow> settled tid d')"

lemma grows_refl [simp]: "grows d d"
  by (simp add: grows_def)

lemma growsD: "grows d d' \<Longrightarrow> tid \<in> row_ids d \<Longrightarrow> tid \<in> row_ids d'" "grows d d' \<Longrightarrow> settled tid d \<Longrightarrow> settled tid d'"
  by (auto simp: grows_def)

lemma settled_row: "settled tid d \<Longrightarrow> tid \<in> row_ids d"
  by (auto simp: settled_def row_ids_def list_ex_iff)

lemma settled_not_open:
  assumes "table_ok d" "settled tid d"
  shows "\<not> is_open tid d"
proof
  assume "is_open tid d"
  then obtain a b where ab: "a \<in> set (tb_Rows d)" "b \<in> set (tb_Rows d)" "row_id a = tid" "row_id b = tid"
      "row_Status a = ROpen" "row_Status b \<noteq> ROpen"
    using assms(2) unfolding is_open_def settled_def list_ex_iff by blast
  have "a = b"
    by (rule inj_onD [of row_id "set (tb_Rows d)"]) (use assms(1) ab in \<open>auto simp: table_ok_def distinct_map\<close>)
  with ab show False by simp
qed

lemma open_or_settled: "tid \<in> row_ids d \<Longrightarrow> is_open tid d \<or> settled tid d"
  by (auto simp: row_ids_def settled_def is_open_def list_ex_iff)

lemma applyMargin_fields [simp]:
  "tr_ID (applyMargin p t) = tr_ID t" "tr_Underlying (applyMargin p t) = tr_Underlying t" "tr_Status (applyMargin p t) = tr_Status t"
  "tr_Legs (applyMargin p t) = tr_Legs t" "tr_ClosedDay (applyMargin p t) = tr_ClosedDay t"
  by (simp_all add: applyMargin_def)

lemma tradeValues_fields [simp]:
  "tr_ID (tradeValues t) = tr_ID t" "tr_Underlying (tradeValues t) = tr_Underlying t" "tr_Status (tradeValues t) = tr_Status t"
  by (simp_all add: tradeValues_def)

lemma settled_update:
  assumes "r \<in> set (tb_Rows d)" "row_id (if p r then f r else r) = tid" "row_Status (if p r then f r else r) \<noteq> ROpen"
  shows "settled tid (update_rows p f d)"
  unfolding settled_def update_rows_def list_ex_iff
  by (rule bexI [of _ "if p r then f r else r"]) (use assms in \<open>auto simp: image_iff\<close>)

text \<open>An update in place that keeps ids and never opens a row.\<close>

lemma update_rows_ok:
  assumes "table_ok d" "\<And>r. p r \<Longrightarrow> row_id (f r) = row_id r"
    "\<And>r. p r \<Longrightarrow> row_Status (f r) = ROpen \<Longrightarrow> row_Status r = ROpen \<and> row_underlying (f r) = row_underlying r"
  shows "table_ok (update_rows p f d)" "grows d (update_rows p f d)"
proof -
  let ?g = "\<lambda>r. if p r then f r else r"
  have id: "row_id (?g r) = row_id r" for r using assms(2) by simp
  have open_sub: "map row_underlying (filter (\<lambda>r. row_Status r = ROpen) (map ?g rs)) =
      map row_underlying (filter (\<lambda>r. row_Status (?g r) = ROpen) rs)" for rs
    using assms(3) by (induction rs) auto
  have "distinct (map row_underlying (filter (\<lambda>r. row_Status (?g r) = ROpen) rs))"
    if "distinct (map row_underlying (filter (\<lambda>r. row_Status r = ROpen) rs))" for rs
  proof -
    have e: "filter (\<lambda>r. row_Status (?g r) = ROpen) (filter (\<lambda>r. row_Status r = ROpen) rs) = filter (\<lambda>r. row_Status (?g r) = ROpen) rs"
      using assms(3) unfolding filter_filter by (intro filter_cong refl) auto
    show ?thesis by (rule distinct_map_filter [OF that, of "\<lambda>r. row_Status (?g r) = ROpen", unfolded e])
  qed
  moreover have "map row_id (tb_Rows (update_rows p f d)) = map row_id (tb_Rows d)"
    using id by (simp add: update_rows_def)
  moreover have "list_all (\<lambda>r. CheckID (row_id r) = Some (row_id r)) (tb_Rows (update_rows p f d))"
    using assms(1,2) by (auto simp: update_rows_def table_ok_def list_all_iff)
  moreover have "map row_underlying (open_rows (update_rows p f d)) = map row_underlying (filter (\<lambda>r. row_Status (?g r) = ROpen) (tb_Rows d))"
    unfolding open_rows_def update_rows_def using open_sub [of "tb_Rows d"] by (simp del: map_map filter_map)
  moreover have "indexed (update_rows p f d) = indexed d" by (simp add: indexed_def update_rows_def)
  ultimately show "table_ok (update_rows p f d)"
    using assms(1) unfolding table_ok_def by (simp only: open_rows_def) blast
  have ids: "map row_id (tb_Rows (update_rows p f d)) = map row_id (tb_Rows d)"
    using id by (simp add: update_rows_def)
  show "grows d (update_rows p f d)"
  proof -
    have "settled tid (update_rows p f d)" if t: "settled tid d" for tid
    proof -
      obtain r where r: "r \<in> set (tb_Rows d)" "row_id r = tid" "row_Status r \<noteq> ROpen"
        using t unfolding settled_def list_ex_iff by blast
      have "row_Status (?g r) \<noteq> ROpen" using r(3) assms(3) by auto
      with r id show ?thesis by (intro settled_update [of r]) simp_all
    qed
    moreover have "row_ids (update_rows p f d) = row_ids d"
      using arg_cong [OF ids, of set] unfolding row_ids_def by (simp only: set_map)
    ultimately show ?thesis by (simp add: grows_def)
  qed
qed

lemma close_row_fields: "row_id (close_row t r) = tr_ID t" "row_Status (close_row t r) = status_of t"
  by (simp_all add: close_row_def)

lemma delete_row_fields: "row_id (delete_row st a r) = row_id r" "row_Status (delete_row st a r) = RDeleted"
  by (simp_all add: delete_row_def)

lemma Close_ok:
  assumes "table_ok d" "tr_Status t = TClosed"
  shows "table_ok (snd (Close en t d))" "grows d (snd (Close en t d))"
    and "fst (Close en t d) = Inr b \<Longrightarrow> tr_ID t \<in> row_ids d \<Longrightarrow> settled (tr_ID t) (snd (Close en t d))"
    and "fst (Close en t d) = Inr True \<Longrightarrow> is_open (tr_ID t) d"
proof -
  have u: "table_ok (update_rows (matches (tr_ID t) ROpen) (close_row t) d)" "grows d (update_rows (matches (tr_ID t) ROpen) (close_row t) d)"
    using update_rows_ok [OF assms(1), of "matches (tr_ID t) ROpen" "close_row t"] assms(2)
    by (simp_all add: matches_def close_row_fields status_of_def)
  then show "table_ok (snd (Close en t d))" "grows d (snd (Close en t d))" using assms(1) by (auto simp: Close_def Let_def)
  show "settled (tr_ID t) (snd (Close en t d))" if "fst (Close en t d) = Inr b" "tr_ID t \<in> row_ids d"
  proof -
    have s: "snd (Close en t d) = update_rows (matches (tr_ID t) ROpen) (close_row t) d"
      using that(1) by (auto simp: Close_def Let_def split: if_splits)
    from that(2) obtain r where "r \<in> set (tb_Rows d)" "row_id r = tr_ID t" by (auto simp: row_ids_def)
    then show ?thesis unfolding s using assms(2)
      by (intro settled_update [of r]) (auto simp: matches_def close_row_fields status_of_def)
  qed
  show "is_open (tr_ID t) d" if "fst (Close en t d) = Inr True"
  proof -
    have "filter (matches (tr_ID t) ROpen) (tb_Rows d) \<noteq> []" using that by (auto simp: Close_def Let_def split: if_splits)
    then show ?thesis by (auto simp: is_open_def list_ex_iff matches_def filter_empty_conv)
  qed
qed

lemma SetMargin_ok:
  assumes "table_ok d"
  shows "table_ok (snd (SetMargin en tid p d))" "grows d (snd (SetMargin en tid p d))"
  using update_rows_ok [OF assms, of "\<lambda>r. row_id r = the (CheckID tid) \<and> row_Status r \<noteq> RDeleted" "\<lambda>r. r\<lparr>row_Trade := applyMargin p (row_Trade r)\<rparr>"] assms
  by (auto simp: SetMargin_def split: option.splits)

lemma MarkDeleted_ok:
  assumes "table_ok d"
  shows "table_ok (snd (MarkDeleted en tid from a d))" "grows d (snd (MarkDeleted en tid from a d))"
    and "fst (MarkDeleted en tid from a d) = Inr True \<Longrightarrow> CheckID tid = Some tid \<Longrightarrow> settled tid (snd (MarkDeleted en tid from a d))"
proof -
  show "table_ok (snd (MarkDeleted en tid from a d))" "grows d (snd (MarkDeleted en tid from a d))"
    using update_rows_ok [OF assms, of "matches (the (CheckID tid)) from" "delete_row from a"] assms
    by (auto simp: MarkDeleted_def delete_row_fields split: option.splits)
  show "settled tid (snd (MarkDeleted en tid from a d))"
    if "fst (MarkDeleted en tid from a d) = Inr True" "CheckID tid = Some tid"
  proof -
    from that have "en" and "filter (matches tid from) (tb_Rows d) \<noteq> []"
      and s: "snd (MarkDeleted en tid from a d) = update_rows (matches tid from) (delete_row from a) d"
      by (auto simp: MarkDeleted_def split: if_splits)
    then obtain r where r: "r \<in> set (tb_Rows d)" "matches tid from r" by (auto simp: filter_empty_conv)
    then show ?thesis unfolding s by (intro settled_update [of r]) (auto simp: matches_def delete_row_fields)
  qed
qed

lemma new_row_fields [simp]: "row_Trade (new_row t) = tradeValues t" "row_Status (new_row t) = status_of t"
  by (simp_all add: new_row_def)

lemma InsertOpen_ok:
  assumes "table_ok d"
  shows "table_ok (snd (InsertOpen en t d))" "grows d (snd (InsertOpen en t d))"
    and "fst (InsertOpen en t d) = Inr False \<Longrightarrow> tr_ID t \<in> row_ids (snd (InsertOpen en t d))"
proof -
  let ?d = "d\<lparr>tb_Rows := tb_Rows d @ [new_row t]\<rparr>"
  have c: "InsertOpen en t d = (Inr False, ?d) \<and> checks t \<and> \<not> unique_violation t d \<or> snd (InsertOpen en t d) = d \<and> fst (InsertOpen en t d) \<noteq> Inr False"
    by (auto simp: InsertOpen_def)
  have "table_ok ?d" if "checks t" "\<not> unique_violation t d"
  proof -
    have "open_rows ?d = open_rows d @ (if tr_Status t = TOpen then [new_row t] else [])" by (simp add: open_rows_def status_of_def)
    moreover have "indexed ?d = indexed d" by (simp add: indexed_def)
    ultimately show ?thesis using assms that by (simp add: table_ok_def unique_violation_def checks_def)
  qed
  then show "table_ok (snd (InsertOpen en t d))" using c assms by auto
  have "grows d ?d" by (auto simp: grows_def row_ids_def settled_def)
  then show "grows d (snd (InsertOpen en t d))" using c by auto
  show "tr_ID t \<in> row_ids (snd (InsertOpen en t d))" if "fst (InsertOpen en t d) = Inr False"
    using c that by (auto simp: row_ids_def)
qed

lemma SaveSettings_ok:
  assumes "table_ok d"
  shows "table_ok (snd (SaveSettings en s d))" "grows d (snd (SaveSettings en s d))"
  using assms by (auto simp: SaveSettings_def table_ok_def grows_def row_ids_def settled_def open_rows_def indexed_def)

lemma EnsureReady_ok:
  assumes "table_ok d"
  shows "table_ok (snd (EnsureReady en d))" "grows d (snd (EnsureReady en d))"
  using assms
  by (auto simp: EnsureReady_def table_ok_def grows_def row_ids_def settled_def open_rows_def indexed_def Let_def split: option.splits)

lemma EnsureReady_indexed: "fst (EnsureReady en d) = Inr () \<Longrightarrow> indexed (snd (EnsureReady en d))"
  by (auto simp: EnsureReady_def indexed_def Let_def split: option.splits if_splits)

lemmas writes_ok = Close_ok(1,2) SetMargin_ok MarkDeleted_ok(1,2) InsertOpen_ok(1,2) SaveSettings_ok EnsureReady_ok

lemma attempt_ok:
  assumes "table_ok d" "table_ok (snd (f d))" "grows d (snd (f d))" "attempt oc f d = (r, d')"
  shows "table_ok d'" "grows d d'" "r = Inr x \<Longrightarrow> f d = (r, d')"
  using assms by (cases oc; auto)+

section \<open>Reads\<close>

lemma scanTrade_fields [simp]: "tr_ID (sr_Trade (scanTrade r)) = row_id r" "sr_Deleted (scanTrade r) = (row_Status r = RDeleted)"
  "tr_Status (sr_Trade (scanTrade r)) = TOpen \<longleftrightarrow> row_Status r = ROpen"
  by (simp_all add: scanTrade_def)

lemma LoadOpen_rows:
  assumes "LoadOpen en d = Inr ts" "t \<in> set ts"
  shows "tr_ID t \<in> row_ids d" "is_open (tr_ID t) d"
proof -
  obtain r where r: "r \<in> set (tb_Rows d)" "row_Status r = ROpen" "t = sr_Trade (scanTrade r)"
    using assms by (auto simp: LoadOpen_def open_rows_def split: if_splits)
  then show "tr_ID t \<in> row_ids d" "is_open (tr_ID t) d" by (auto simp: row_ids_def is_open_def list_ex_iff)
qed

lemma LoadClosed_rows:
  assumes "LoadClosed en n since d = Inr ts" "t \<in> set ts"
  shows "settled (tr_ID t) d"
proof -
  obtain r where "r \<in> set (tb_Rows d)" "row_Status r = RClosed" "t = sr_Trade (scanTrade r)"
    using assms by (force simp: LoadClosed_def Let_def split: if_splits dest: in_set_takeD)
  then show ?thesis by (auto simp: settled_def list_ex_iff)
qed

lemma Get_row:
  assumes "Get en tid d = Inr (Some st)" "CheckID tid = Some tid"
  shows "tr_ID (sr_Trade st) = tid" "sr_Deleted st \<or> tr_Status (sr_Trade st) = TClosed \<Longrightarrow> settled tid d"
proof -
  obtain r where r: "row_at d tid = Some r" "st = scanTrade r"
    using assms by (auto simp: Get_def split: if_splits)
  then have "r \<in> set (tb_Rows d)" "row_id r = tid"
    by (auto simp: row_at_def find_Some_iff)
  then show "tr_ID (sr_Trade st) = tid" "sr_Deleted st \<or> tr_Status (sr_Trade st) = TClosed \<Longrightarrow> settled tid d"
    using r(2) by (auto simp: settled_def list_ex_iff scanTrade_def split: if_splits)
qed

lemma read_Inr: "read_reply = fst (attempt oc (\<lambda>d. (f d, d)) d) \<Longrightarrow> read_reply = Inr x \<Longrightarrow> f d = Inr x"
  by (cases oc) auto

end
