(* ===== verification/SynthEngine.thy ===== *)
theory SynthEngine
  imports SynthRepo
begin

text \<open>
  The synthetic paper-trading engine (\<^verbatim>\<open>internal/synthetic/engine.go\<close>). Its fields are one
  record; a Go map is an association list or, where only its keys matter, a set. Every
  stretch of code between \<^verbatim>\<open>e.lock()\<close> and \<^verbatim>\<open>e.unlock()\<close> is one function on that record.

  A goroutine that waits for a store or REST call, a turn or a signal between two such stretches is a \<open>job\<close>: a constructor per
  place it can wait at, holding its local variables. The side effects a section queues
  (\<^verbatim>\<open>SetTokens\<close> calls and new goroutines) are the list \<open>y_effects\<close>, as in the code. What the
  engine asks its dependencies for under the lock is the environment record: the clock is read
  once per section, and sections that follow each other with nothing in between are one. Trade ids come from a function of the number of ids allocated so far.

  Trades are values here and pointers in the code. Only the legs' tokens (re-linking) and the margin fields of a trade are ever
  assigned; the one place that reads such a field through an older pointer, the margin copied
  onto a closed trade, looks the open trade up again (\<open>current_open\<close>). The text of stream snapshots is not modelled, only which
  events are pushed to which streams.
\<close>

section \<open>Dependencies\<close>

record box_lane =
  bl_Running :: bool
  bl_HeldTokens :: f64
  bl_Budget :: f64

definition IdleBoxLane :: "getter \<Rightarrow> box_lane" where
  "IdleBoxLane get =
     \<lparr>bl_Running = False, bl_HeldTokens = f_zero,
      bl_Budget = (if Bool get ''BOX_DEDICATED_MARKET_FEED'' True
        then (case NumAny get ''BOX_MAX_SUBSCRIBED_TOKENS'' of Some v \<Rightarrow> v | None \<Rightarrow> f_of_int 2200)
        else f_zero)\<rparr>"

definition IDResolver :: "instrument list \<Rightarrow> (token \<times> string) list" where
  "IDResolver all = rev (map (\<lambda>i. (i_InstrumentToken i, i_Exchange i @ '':'' @ i_Tradingsymbol i)) all)"

record env =
  v_now :: millis
  v_today :: string
  v_marketOpen :: bool
  v_switching :: bool
  v_authenticated :: bool
  v_generation :: int
  v_broker :: string
  v_lane :: "box_lane option"
  v_enabled :: bool
  v_margins :: bool
  v_rfPct :: "f64 option"

record rest_quote =
  rq_Token :: token
  rq_LastPrice :: f64
  rq_LastTradeTime :: string

record basket_margin =
  bm_Total :: f64
  bm_Source :: string
  bm_HedgeBenefit :: "f64 option"

definition positionTokens :: int where "positionTokens = 3"
definition firstRefreshRetryMs :: int where "firstRefreshRetryMs = 10000"
definition refreshDebounceMs :: int where "refreshDebounceMs = 5000"
definition unbuiltRetryMs :: int where "unbuiltRetryMs = 60000"
definition closeRetryMs :: int where "closeRetryMs = 5000"
definition loadRetryMs :: int where "loadRetryMs = 30000"
definition relinkRetryMs :: int where "relinkRetryMs = 10000"
definition marginAttempts :: nat where "marginAttempts = 3"
definition marginBackfillMs :: int where "marginBackfillMs = 60000"
definition maxMarginBackfills :: int where "maxMarginBackfills = 3"
definition closedTodayLoadLimit :: nat where "closedTodayLoadLimit = 2000"
definition sseMaxBacklog :: nat where "sseMaxBacklog = 128"

section \<open>Jobs and state\<close>

text \<open>The epoch and the broker generation a piece of work began under.\<close>

type_synonym stamp = "int \<times> int"

record refresh_plan =
  rp_ordered :: nat
  rp_picked :: "string list"
  rp_resolve :: "(token \<times> string) list"

datatype finish = Booted | Starting

datatype (plugins only: code size) job =
    JLoadSettings finish nat
  | JAskSettings finish nat
  | JLoadSettingsRet finish nat "(setting_key \<times> f64) list reply"
  | JSaveLoaded finish nat settings
  | JSaveLoadedRet finish nat "unit reply"
  | JLoadOpen finish
  | JLoadOpenRet finish "trade list reply"
  | JLoadClosed finish string
  | JLoadClosedRet finish string "trade list reply"
  | JNeedIndex finish
  | JEnsure finish
  | JEnsureRet finish "unit reply"
  | JLoadEnd finish "string option"
  | JStartWait
  | JStartRefresh "nat option"
  | JStartEnd nat
  | JReloadRefresh "nat option"
  | JReloadEnd nat
  | JRefresh nat stamp string
  | JRefreshNothing nat
  | JRefreshLoaded nat stamp string "(instrument list \<times> board_item list) reply"
  | JRefreshSeed nat stamp refresh_plan "string list" "(token \<times> string) list"
  | JRefreshSeeded nat stamp refresh_plan "(token \<times> string) list" "rest_quote list reply"
  | JRefreshCloses nat stamp "string list"
  | JRefreshClosed nat stamp "rest_quote list reply"
  | JFlightEnd nat "string option"
  | JAwaitFlight nat
  | JRelink stamp
  | JRelinkRet stamp "instrument list reply"
  | JEnter trade string int
  | JEnterRet trade string int "bool reply"
  | JEnterLoad string
  | JEnterLoadRet string "trade list reply"
  | JClose trade trade nat
  | JCloseRet trade trade nat "bool reply"
  | JCloseGet string nat
  | JCloseGetRet string nat "stored_trade option reply"
  | JMarginAsk string margin_patch nat
  | JMarginRet string margin_patch nat "basket_margin reply"
  | JMarginAgain string margin_patch nat
  | JMarginFail string margin_patch string
  | JMarginSet string margin_patch
  | JMarginPublish string
  | JMarginEnd string
  | JSettings nat "setting_key \<Rightarrow> jvalue option"
  | JSettingsSave nat settings settings
  | JSettingsRet nat settings settings bool "unit reply"
  | JDeleteMark trade delete_audit
  | JDeleteBack trade delete_audit "string option"
  | JDeleteEnd trade "string option" "string reply"
  | JDeleteGet string delete_audit string
  | JDeleteAlready string stored_trade "string option"
  | JDeleteClosed string stored_trade delete_audit
  | JDeleteClosedBack string stored_trade delete_audit "string option"
  | JDeleteClosedEnd string stored_trade "string option" "string reply"

datatype effect = ESetTokens "token list" | ESpawn job

datatype frame = FSnapshot | FEntry trade | FExit trade | FDeleted string string

record sse_client =
  sc_queue :: "frame list"
  sc_ended :: bool

datatype close_outcome = Closed_ok trade | Close_failed string

record synth =
  y_cfg :: config
  y_effects :: "effect list"
  y_nextTurn :: nat
  y_turnsDone :: nat
  y_running :: bool
  y_booted :: bool
  y_loaded :: bool
  y_indexReady :: bool
  y_loading :: bool
  y_lastLoadAttemptAt :: millis
  y_strikeLevel :: nat
  y_settings :: settings
  y_settingsLoaded :: bool
  y_settingsDirty :: bool
  y_board :: "(string \<times> board_item) list"
  y_chains :: "(string \<times> chain_index) list"
  y_windows :: "(string \<times> window) list"
  y_selection :: "string list"
  y_watched :: "token list"
  y_quotes :: store
  y_closes :: "(token \<times> f64) list"
  y_seededRef :: "(string \<times> f64) list"
  y_closeSessionDay :: "string option"
  y_universeAt :: "millis option"
  y_lastRefreshAttemptAt :: millis
  y_refreshing :: "nat option"
  y_nextFlight :: nat
  y_landed :: "(nat \<times> string option) list"
  y_skippedForBudget :: int
  y_reservedCount :: int
  y_unbuiltCount :: int
  y_budgetGrowPending :: bool
  y_closeViewPending :: bool
  y_namespaceEpoch :: int
  y_namespaceStale :: bool
  y_lastRawTickAt :: "millis option"
  y_lastMarketOpen :: "bool option"
  y_opportunities :: "opportunity list"
  y_eligibleStreak :: "(string \<times> int) list"
  y_eligibleSig :: "(string \<times> string) list"
  y_evaluatedAt :: "millis option"
  y_positions :: "(string \<times> trade) list"
  y_metrics :: "(string \<times> exit_metrics) list"
  y_unlinked :: "string set"
  y_exitStreak :: "(string \<times> int) list"
  y_exitSig :: "(string \<times> string) list"
  y_closedIDs :: "string set"
  y_deletedIDs :: "string set"
  y_marginInFlight :: "string set"
  y_marginBackfills :: "(string \<times> int) list"
  y_lastMarginSweepAt :: millis
  y_relinking :: bool
  y_lastRelinkAt :: millis
  y_pendingEntries :: "string set"
  y_closing :: "string set"
  y_retryAt :: "(string \<times> millis) list"
  y_cooldownUntil :: "(string \<times> f64) list"
  y_closedToday :: "trade list"
  y_closedDay :: string
  y_lastError :: "string option"
  y_loopOn :: bool
  y_publishOn :: bool
  y_streams :: "(nat \<times> sse_client) list"
  y_nextStream :: nat
  y_nextOp :: nat
  y_ops :: "(nat \<times> close_outcome) list"
  y_idsUsed :: nat

definition newEngine :: "config \<Rightarrow> string \<Rightarrow> synth" where
  "newEngine cfg today =
     \<lparr>y_cfg = cfg, y_effects = [], y_nextTurn = 0, y_turnsDone = 0, y_running = False, y_booted = False, y_loaded = False,
      y_indexReady = False, y_loading = False, y_lastLoadAttemptAt = 0, y_strikeLevel = StrikeLevel cfg,
      y_settings = \<lparr>s_MinExpectedNetProfit = MinExpectedNetProfit cfg, s_SafetyBuffer = SafetyBuffer cfg, s_MaxOpenPositions = MaxOpenPositions cfg\<rparr>,
      y_settingsLoaded = False, y_settingsDirty = False, y_board = [], y_chains = [], y_windows = [], y_selection = [], y_watched = [],
      y_quotes = NewStore, y_closes = [], y_seededRef = [], y_closeSessionDay = None, y_universeAt = None, y_lastRefreshAttemptAt = 0,
      y_refreshing = None, y_nextFlight = 0, y_landed = [], y_skippedForBudget = 0, y_reservedCount = 0, y_unbuiltCount = 0,
      y_budgetGrowPending = False, y_closeViewPending = False, y_namespaceEpoch = 0, y_namespaceStale = False, y_lastRawTickAt = None,
      y_lastMarketOpen = None, y_opportunities = [], y_eligibleStreak = [], y_eligibleSig = [], y_evaluatedAt = None, y_positions = [],
      y_metrics = [], y_unlinked = {}, y_exitStreak = [], y_exitSig = [], y_closedIDs = {}, y_deletedIDs = {}, y_marginInFlight = {},
      y_marginBackfills = [], y_lastMarginSweepAt = 0, y_relinking = False, y_lastRelinkAt = 0, y_pendingEntries = {}, y_closing = {},
      y_retryAt = [], y_cooldownUntil = [], y_closedToday = [], y_closedDay = today, y_lastError = None, y_loopOn = False,
      y_publishOn = False, y_streams = [], y_nextStream = 0, y_nextOp = 0, y_ops = [], y_idsUsed = 0\<rparr>"

section \<open>Helpers\<close>

definition setLastError :: "string \<Rightarrow> synth \<Rightarrow> synth" where
  "setLastError msg e = e\<lparr>y_lastError := Some msg\<rparr>"

definition storeReady :: "synth \<Rightarrow> bool" where
  "storeReady e \<longleftrightarrow> y_settingsLoaded e \<and> y_loaded e \<and> y_indexReady e"

definition active :: "synth \<Rightarrow> bool" where
  "active e \<longleftrightarrow> y_running e \<or> y_positions e \<noteq> []"

definition openCount :: "synth \<Rightarrow> int" where
  "openCount e = int (length (y_positions e))"

definition trades :: "synth \<Rightarrow> trade list" where
  "trades e = map snd (y_positions e)"

definition goLocked :: "job \<Rightarrow> synth \<Rightarrow> synth" where
  "goLocked j e = e\<lparr>y_effects := y_effects e @ [ESpawn j]\<rparr>"

definition setTokensLocked :: "token list \<Rightarrow> synth \<Rightarrow> synth" where
  "setTokensLocked ts e = e\<lparr>y_effects := y_effects e @ [ESetTokens ts]\<rparr>"

definition stampOf :: "env \<Rightarrow> synth \<Rightarrow> stamp" where
  "stampOf v e = (y_namespaceEpoch e, v_generation v)"

definition superseded :: "env \<Rightarrow> stamp \<Rightarrow> synth \<Rightarrow> bool" where
  "superseded v st e \<longleftrightarrow> stampOf v e \<noteq> st"

definition underMaxOpen :: "synth \<Rightarrow> bool" where
  "underMaxOpen e \<longleftrightarrow> f_le (s_MaxOpenPositions (y_settings e)) f_zero \<or>
     f_lt (f_of_int (openCount e + int (card (y_pendingEntries e)))) (s_MaxOpenPositions (y_settings e))"

definition roomForAnotherPosition :: "f64 \<Rightarrow> synth \<Rightarrow> bool" where
  "roomForAnotherPosition budget e \<longleftrightarrow> f_le (f_of_int ((openCount e + int (card (y_pendingEntries e)) + 1) * positionTokens)) budget"

definition push_frame :: "frame \<Rightarrow> sse_client \<Rightarrow> sse_client" where
  "push_frame f c = (if sseMaxBacklog \<le> length (sc_queue c) then c\<lparr>sc_ended := True\<rparr> else c\<lparr>sc_queue := sc_queue c @ [f]\<rparr>)"

definition broadcast :: "frame \<Rightarrow> synth \<Rightarrow> synth" where
  "broadcast f e = e\<lparr>y_streams := map (\<lambda>(n, c). (n, push_frame f c)) (y_streams e)\<rparr>"

definition publish :: "synth \<Rightarrow> synth" where
  "publish e = broadcast FSnapshot e"

definition addSSEClient :: "synth \<Rightarrow> synth \<times> nat" where
  "addSSEClient e =
     (e\<lparr>y_streams := y_streams e @ [(y_nextStream e, push_frame FSnapshot \<lparr>sc_queue = [], sc_ended = False\<rparr>)],
        y_nextStream := y_nextStream e + 1, y_publishOn := True\<rparr>, y_nextStream e)"

definition removeSSEClient :: "nat \<Rightarrow> synth \<Rightarrow> synth" where
  "removeSSEClient n e =
     (let cs = AList.delete n (y_streams e) in e\<lparr>y_streams := cs, y_publishOn := y_publishOn e \<and> cs \<noteq> []\<rparr>)"

definition takeFrames :: "nat \<Rightarrow> synth \<Rightarrow> synth \<times> frame list" where
  "takeFrames n e =
     (case map_of (y_streams e) n of
        None \<Rightarrow> (e, [])
      | Some c \<Rightarrow> (e\<lparr>y_streams := AList.map_default n c (\<lambda>c. c\<lparr>sc_queue := []\<rparr>) (y_streams e)\<rparr>, sc_queue c))"

section \<open>Subscriptions and the token budget\<close>

definition linked_tokens :: "synth \<Rightarrow> token list" where
  "linked_tokens e = concat (map (\<lambda>t. if tr_ID t \<in> y_unlinked e then [] else map tl_Token (tr_Legs t)) (trades e))"

definition window_tokens :: "synth \<Rightarrow> token list" where
  "window_tokens e = concat (map (\<lambda>u. case map_of (y_windows e) u of None \<Rightarrow> [] | Some w \<Rightarrow> WindowTokens w) (y_selection e))"

text \<open>The insertion-ordered token set built from a list is the list without later duplicates.\<close>

definition wanted :: "synth \<Rightarrow> token list" where
  "wanted e = nub (linked_tokens e @ window_tokens e)"

definition same_tokens :: "token list \<Rightarrow> token list \<Rightarrow> bool" where
  "same_tokens a b \<longleftrightarrow> length a = length b \<and> list_all (\<lambda>t. t \<in> set b) a"

definition applySubscriptions :: "synth \<Rightarrow> synth" where
  "applySubscriptions e =
     (if y_namespaceStale e then e
      else let next = wanted e
        in if same_tokens next (y_watched e) then e
           else let dropped = filter (\<lambda>t. t \<notin> set next) (y_watched e);
                    e1 = e\<lparr>y_watched := next\<rparr>;
                    e2 = (if dropped \<noteq> [] then e1\<lparr>y_quotes := Forget (y_quotes e1) dropped, y_closes := fold AList.delete dropped (y_closes e1)\<rparr> else e1)
             in setTokensLocked next e2)"

definition tokenBudget :: "env \<Rightarrow> f64 option \<Rightarrow> synth \<Rightarrow> f64" where
  "tokenBudget v boxIncoming e =
     (let base = MaxTokens (y_cfg e)
      in case v_lane v of
          None \<Rightarrow> base
        | Some lane \<Rightarrow>
            let held = (case boxIncoming of Some n \<Rightarrow> n | None \<Rightarrow> bl_HeldTokens lane);
                reserve = (if bl_Running lane then f_max held (bl_Budget lane) else held);
                budget = (if ShareBoxBudget (y_cfg e) \<and> \<not> bl_Running lane
                  then f_add base (f_max f_zero (f_sub (bl_Budget lane) held)) else base)
            in f_max f_zero (f_min budget (f_sub (LaneTokenLimit (y_cfg e)) reserve)))"

definition underlyingCap :: "synth \<Rightarrow> f64" where
  "underlyingCap e = (if f_lt f_zero (MaxUnderlyings (y_cfg e)) then MaxUnderlyings (y_cfg e) else Inf False)"

definition perWindow :: "synth \<Rightarrow> f64" where
  "perWindow e = f_of_int (TokensFor (int (y_strikeLevel e)))"

fun pick_loop :: "f64 \<Rightarrow> f64 \<Rightarrow> f64 \<Rightarrow> f64 \<Rightarrow> string list \<Rightarrow> string list \<Rightarrow> string list" where
  "pick_loop lmt per budget used out [] = out"
| "pick_loop lmt per budget used out (u # us) =
     (if f_le lmt (f_of_int (int (length out))) \<or> f_lt budget (f_add used per) then out
      else pick_loop lmt per budget (f_add used per) (out @ [u]) us)"

definition pickWithinBudget :: "string list \<Rightarrow> f64 \<Rightarrow> synth \<Rightarrow> string list" where
  "pickWithinBudget order budget e =
     pick_loop (underlyingCap e) (perWindow e) budget (f_of_int (openCount e * positionTokens)) [] order"

definition dropWindows :: "string list \<Rightarrow> synth \<Rightarrow> synth" where
  "dropWindows keep e =
     e\<lparr>y_windows := fold AList.delete (drop (length keep) (y_selection e)) (y_windows e), y_selection := keep,
       y_skippedForBudget := y_skippedForBudget e + (int (length (y_selection e)) - int (length keep)) + y_unbuiltCount e,
       y_reservedCount := int (length keep), y_unbuiltCount := 0\<rparr>"

definition mayGrow :: "f64 \<Rightarrow> synth \<Rightarrow> bool" where
  "mayGrow budget e \<longleftrightarrow> y_running e \<and> 0 < y_skippedForBudget e \<and>
     f_le (f_add (f_of_int (openCount e * positionTokens)) (f_mul (f_of_int (y_reservedCount e + 1)) (perWindow e))) budget \<and>
     f_lt (f_of_int (y_reservedCount e)) (underlyingCap e)"

definition fitToBudget :: "f64 \<Rightarrow> bool \<Rightarrow> synth \<Rightarrow> synth" where
  "fitToBudget budget forceApply e =
     (let keep = pickWithinBudget (y_selection e) budget e;
          fewer = length keep < length (y_selection e);
          e1 = (if fewer then dropWindows keep e else if mayGrow budget e then e\<lparr>y_budgetGrowPending := True\<rparr> else e)
      in if fewer \<or> forceApply then applySubscriptions e1 else e1)"

definition YieldToBox :: "env \<Rightarrow> f64 \<Rightarrow> synth \<Rightarrow> synth" where
  "YieldToBox v boxTokens e =
     (if \<not> active e \<or> y_namespaceStale e then e else fitToBudget (tokenBudget v (Some boxTokens) e) False e)"

section \<open>Prices\<close>

definition quoteLikeOf :: "quote \<Rightarrow> quote_like" where
  "quoteLikeOf q = \<lparr>ql_Bid = q_Bid q, ql_BidQty = q_BidQty q, ql_Ask = q_Ask q, ql_AskQty = q_AskQty q, ql_Last = q_Last q, ql_At = q_At q\<rparr>"

definition liveQuote :: "synth \<Rightarrow> token \<Rightarrow> quote_like option" where
  "liveQuote e t = map_option quoteLikeOf (book_get (y_quotes e) t)"

definition refPriceFor :: "synth \<Rightarrow> window \<Rightarrow> f64" where
  "refPriceFor e w =
     (let fallback = (case map_of (y_seededRef e) (w_Underlying w) of Some r \<Rightarrow> r | None \<Rightarrow> w_RefPrice w)
      in case book_get (y_quotes e) (c_Token (w_Future w)) of
          None \<Rightarrow> fallback
        | Some q \<Rightarrow>
            if f_pos (q_Bid q) \<and> f_pos (q_Ask q) then f_div (f_add (q_Bid q) (q_Ask q)) (f_of_int 2)
            else if f_pos (q_Last q) then q_Last q
            else fallback)"

definition ltpFor :: "synth \<Rightarrow> token \<Rightarrow> f64 option" where
  "ltpFor e t =
     (let close = (case map_of (y_closes e) t of Some c \<Rightarrow> if f_pos c then Some c else None | None \<Rightarrow> None)
      in case book_get (y_quotes e) t of Some q \<Rightarrow> if f_pos (q_Last q) then Some (q_Last q) else close | None \<Rightarrow> close)"

definition depthFor :: "synth \<Rightarrow> token \<Rightarrow> depth2 option" where
  "depthFor e t = (case book_get (y_quotes e) t of None \<Rightarrow> None | Some q \<Rightarrow> DepthOf (q_Bids q) (q_Asks q) True)"

definition OnTicks :: "env \<Rightarrow> tick list \<Rightarrow> synth \<Rightarrow> synth" where
  "OnTicks v ticks e =
     (if ticks = [] \<or> \<not> active e then e
      else let e1 = e\<lparr>y_lastRawTickAt := Some (v_now v)\<rparr>;
               mine = filter (\<lambda>t. t_Token t \<in> set (y_watched e)) ticks
        in if mine = [] then e1 else e1\<lparr>y_quotes := fst (ApplyTicks (y_quotes e1) mine (v_now v))\<rparr>)"

section \<open>Evaluation\<close>

definition feedHealthy :: "env \<Rightarrow> synth \<Rightarrow> bool" where
  "feedHealthy v e \<longleftrightarrow> v_marketOpen v \<and>
     (case y_lastRawTickAt e of None \<Rightarrow> False | Some at_ms \<Rightarrow> f_le (f_of_int (v_now v - at_ms)) (FeedMaxAgeMs (y_cfg e)))"

definition rfPct :: "env \<Rightarrow> synth \<Rightarrow> f64" where
  "rfPct v e = (case v_rfPct v of Some rf \<Rightarrow> if Finite rf then rf else DefaultRfPct (y_cfg e) | None \<Rightarrow> DefaultRfPct (y_cfg e))"

definition directions :: "synth \<Rightarrow> direction list" where
  "directions e = filter (\<lambda>d. d = Conversion \<and> EnableConversion (y_cfg e) \<or> d = Reversal \<and> EnableReversal (y_cfg e)) [Conversion, Reversal]"

definition exitRules :: "synth \<Rightarrow> exit_rules" where
  "exitRules e = \<lparr>xr_ConvergenceFloor = ConvergenceFloor (y_cfg e), xr_ConvergencePct = ConvergencePct (y_cfg e),
     xr_MinExitNetPnl = MinExitNetPnl (y_cfg e), xr_ProfitCapturePct = ProfitCapturePct (y_cfg e), xr_MinCapturedPct = MinCapturedPct (y_cfg e)\<rparr>"

definition rebuilt :: "env \<Rightarrow> f64 \<Rightarrow> string \<Rightarrow> synth \<Rightarrow> window option" where
  "rebuilt v ref u e =
     (case (map_of (y_chains e) u, map_of (y_board e) u) of
        (Some chain, Some b) \<Rightarrow> BuildWindow b chain ref (y_strikeLevel e) (v_now v)
      | _ \<Rightarrow> None)"

definition recentre :: "env \<Rightarrow> string \<Rightarrow> synth \<times> bool \<Rightarrow> synth \<times> bool" where
  "recentre v u s = (case s of (e, moved) \<Rightarrow>
     (case map_of (y_windows e) u of
        None \<Rightarrow> (e, moved)
      | Some w \<Rightarrow>
          let ref = refPriceFor e w
          in if WindowNeedsRebuild w ref (v_now v) (AtmHysteresis (y_cfg e)) (WindowMinIntervalMs (y_cfg e))
             then (case rebuilt v ref u e of Some next \<Rightarrow> (e\<lparr>y_windows := AList.update u next (y_windows e)\<rparr>, True) | None \<Rightarrow> (e, moved))
             else (e, moved)))"

definition recentreAll :: "env \<Rightarrow> synth \<Rightarrow> synth" where
  "recentreAll v e = (let (e1, moved) = fold (recentre v) (y_selection e) (e, False) in if moved then applySubscriptions e1 else e1)"

definition quoteSource :: "env \<Rightarrow> synth \<Rightarrow> token \<Rightarrow> quote_like option" where
  "quoteSource v e t =
     (if v_marketOpen v then liveQuote e t
      else map_option (\<lambda>last. \<lparr>ql_Bid = f_zero, ql_BidQty = f_zero, ql_Ask = f_zero, ql_AskQty = f_zero, ql_Last = last, ql_At = v_now v\<rparr>)
        (map_of (y_closes e) t))"

definition evalParams :: "env \<Rightarrow> synth \<Rightarrow> f64 \<Rightarrow> eval_params" where
  "evalParams v e quantity =
     \<lparr>ep_Quantity = quantity, ep_Now = v_now v, ep_QuoteMaxAgeMs = QuoteMaxAgeMs (y_cfg e), ep_RfPct = rfPct v e,
      ep_IncludeCarry = IncludeCarry (y_cfg e), ep_MinExpectedNetProfit = s_MinExpectedNetProfit (y_settings e),
      ep_SafetyBuffer = s_SafetyBuffer (y_settings e), ep_ExpectedSlippage = ExpectedSlippage (y_cfg e),
      ep_OptionRates = OptionRates (y_cfg e), ep_FuturesRates = FuturesRates (y_cfg e), ep_Indicative = \<not> v_marketOpen v\<rparr>"

definition priceWindow :: "env \<Rightarrow> synth \<Rightarrow> window \<Rightarrow> opportunity list" where
  "priceWindow v e w =
     concat (map (\<lambda>strike. map (\<lambda>d. EvaluateSynthetic w strike d (quoteSource v e) (evalParams v e (w_LotSize w))) (directions e)) (w_Strikes w))"

definition priceAll :: "env \<Rightarrow> synth \<Rightarrow> opportunity list" where
  "priceAll v e = concat (map (\<lambda>u. case map_of (y_windows e) u of None \<Rightarrow> [] | Some w \<Rightarrow> priceWindow v e w) (y_selection e))"

definition bookSig :: "synth \<Rightarrow> token list \<Rightarrow> string" where
  "bookSig e tokens = join '':'' (map (\<lambda>t. signed_string (case book_get (y_quotes e) t of Some q \<Rightarrow> q_Version q | None \<Rightarrow> 0)) tokens)"

definition bookSigLegs :: "synth \<Rightarrow> leg_eval list \<Rightarrow> string" where
  "bookSigLegs e legs = bookSig e (map le_Token legs)"

definition confirm :: "synth \<Rightarrow> opportunity \<Rightarrow> (string \<times> int) list \<times> (string \<times> string) list \<Rightarrow> (string \<times> int) list \<times> (string \<times> string) list" where
  "confirm e opp acc = (case acc of (streak, sigs) \<Rightarrow>
     let sig = bookSigLegs e (op_Legs opp);
         prev = the_default 0 (map_of (y_eligibleStreak e) (op_Key opp));
         n = (if map_of (y_eligibleSig e) (op_Key opp) = Some sig then max prev 1 else prev + 1)
     in (AList.update (op_Key opp) n streak, AList.update (op_Key opp) sig sigs))"

definition observeStreaks :: "opportunity list \<Rightarrow> synth \<Rightarrow> synth" where
  "observeStreaks out e =
     (let (streak, sigs) = fold (confirm e) (filter (\<lambda>opp. op_Status opp = StatusEligible) out) ([], [])
      in e\<lparr>y_eligibleStreak := streak, y_eligibleSig := sigs\<rparr>)"

definition hasOpen :: "synth \<Rightarrow> string \<Rightarrow> bool" where
  "hasOpen e u \<longleftrightarrow> list_ex (\<lambda>t. tr_Underlying t = u) (trades e)"

definition entryBlock :: "env \<Rightarrow> synth \<Rightarrow> opportunity \<Rightarrow> string option" where
  "entryBlock v e opp =
     (if \<not> PaperTrading (y_cfg e) then Some ''paper_off''
      else if \<not> (v_enabled v \<and> storeReady e) then Some ''no_db''
      else if \<not> feedHealthy v e then Some ''feed_stale''
      else if hasOpen e (op_Underlying opp) then Some ''position_open''
      else if op_Underlying opp \<in> y_pendingEntries e then Some ''entering''
      else if f_lt (f_of_int (v_now v)) (the_default f_zero (map_of (y_cooldownUntil e) (op_Underlying opp))) then Some ''cooldown''
      else if InExpirySafetyWindow (op_Expiry opp) (v_today v) (v_now v) (ExpirySafetyMinutes (y_cfg e)) then Some ''expiry_cutoff''
      else if \<not> underMaxOpen e then Some ''max_open''
      else if \<not> roomForAnotherPosition (tokenBudget v None e) e then Some ''token_budget''
      else if f_lt (f_of_int (the_default 0 (map_of (y_eligibleStreak e) (op_Key opp)))) (SignalConfirmations (y_cfg e)) then Some ''confirming''
      else None)"

definition openByKey :: "synth \<Rightarrow> (string \<times> string) list" where
  "openByKey e = rev (map (\<lambda>t. (tr_Key t, tr_ID t)) (trades e))"

definition annotate :: "env \<Rightarrow> synth \<Rightarrow> opportunity \<Rightarrow> opportunity" where
  "annotate v e opp =
     (case map_of (openByKey e) (op_Key opp) of
        Some pid \<Rightarrow> opp\<lparr>op_Status := StatusOpen, op_PositionID := Some pid\<rparr>
      | None \<Rightarrow> if op_Status opp \<noteq> StatusEligible then opp else opp\<lparr>op_EntryBlocked := entryBlock v e opp\<rparr>)"

definition evaluate :: "env \<Rightarrow> bool \<Rightarrow> synth \<Rightarrow> synth" where
  "evaluate v observe e =
     (if \<not> y_running e \<or> y_namespaceStale e then e\<lparr>y_opportunities := [], y_eligibleStreak := []\<rparr>
      else let e1 = (if v_marketOpen v then recentreAll v e else e);
               out = priceAll v e1;
               e2 = (if observe then observeStreaks out e1 else e1)
        in e2\<lparr>y_opportunities := SortOpportunities (map (annotate v e2) out), y_evaluatedAt := Some (v_now v)\<rparr>)"

definition refreshRows :: "env \<Rightarrow> synth \<Rightarrow> synth" where
  "refreshRows v e = (if y_running e then evaluate v False e else e)"

section \<open>Entries\<close>

definition cooldown :: "env \<Rightarrow> string \<Rightarrow> synth \<Rightarrow> synth" where
  "cooldown v u e = e\<lparr>y_cooldownUntil := AList.update u (f_add (f_of_int (v_now v)) (ReentryCooldownMs (y_cfg e))) (y_cooldownUntil e)\<rparr>"

definition enter :: "(nat \<Rightarrow> string) \<Rightarrow> env \<Rightarrow> opportunity \<Rightarrow> synth \<Rightarrow> synth" where
  "enter newID v opp e =
     (let e1 = e\<lparr>y_idsUsed := y_idsUsed e + 1\<rparr>
      in case OpenTradeFromOpportunity opp (newID (y_idsUsed e)) (v_broker v) (v_now v) (v_today v)
          (RateVersion (OptionRates (y_cfg e))) (RateVersion (FuturesRates (y_cfg e))) (Some (depthFor e)) of
          None \<Rightarrow> e1\<lparr>y_pendingEntries := y_pendingEntries e - {op_Underlying opp}\<rparr>
        | Some t \<Rightarrow> goLocked (JEnter t (op_Key opp) (y_namespaceEpoch e)) (e1\<lparr>y_pendingEntries := insert (op_Underlying opp) (y_pendingEntries e)\<rparr>))"

fun enter_loop :: "(nat \<Rightarrow> string) \<Rightarrow> env \<Rightarrow> f64 \<Rightarrow> opportunity list \<Rightarrow> synth \<Rightarrow> synth" where
  "enter_loop newID v budget [] e = e"
| "enter_loop newID v budget (opp # opps) e =
     (if op_Status opp \<noteq> StatusEligible then e
      else if op_EntryBlocked opp \<noteq> None then enter_loop newID v budget opps e
      else if \<not> underMaxOpen e \<or> \<not> roomForAnotherPosition budget e then e
      else if op_Underlying opp \<in> y_pendingEntries e \<or> hasOpen e (op_Underlying opp) then enter_loop newID v budget opps e
      else enter_loop newID v budget opps (enter newID v opp e))"

definition autoEnter :: "(nat \<Rightarrow> string) \<Rightarrow> env \<Rightarrow> synth \<Rightarrow> synth" where
  "autoEnter newID v e =
     (if \<not> y_running e \<or> \<not> PaperTrading (y_cfg e) \<or> \<not> v_marketOpen v \<or> y_namespaceStale e then e
      else if \<not> v_enabled v \<or> \<not> storeReady e \<or> \<not> feedHealthy v e then e
      else enter_loop newID v (tokenBudget v None e) (y_opportunities e) e)"

definition adopt_row :: "trade \<Rightarrow> synth \<Rightarrow> synth" where
  "adopt_row t e =
     (if tr_Status t \<noteq> TOpen \<or> tr_ID t \<in> y_closedIDs e \<or> map_of (y_positions e) (tr_ID t) \<noteq> None \<or> tr_ID t \<in> y_deletedIDs e then e
      else e\<lparr>y_positions := AList.update (tr_ID t) t (y_positions e), y_unlinked := insert (tr_ID t) (y_unlinked e)\<rparr>)"

definition adopt :: "trade list \<Rightarrow> synth \<Rightarrow> synth" where
  "adopt rows e =
     (let e1 = fold adopt_row rows e
      in if length (y_positions e) < length (y_positions e1) then e1\<lparr>y_lastRelinkAt := 0\<rparr> else e1)"

section \<open>Margin\<close>

definition captureMargin :: "env \<Rightarrow> string \<Rightarrow> synth \<Rightarrow> synth" where
  "captureMargin v tid e =
     (if \<not> v_margins v \<or> tid \<in> y_marginInFlight e then e
      else case map_of (y_positions e) tid of
          None \<Rightarrow> e
        | Some t \<Rightarrow>
            if tr_Margin t \<noteq> None \<or> tr_Broker t \<noteq> v_broker v \<or> \<not> v_authenticated v \<or> tid \<in> y_deletedIDs e then e
            else goLocked (JMarginAsk tid (marginOf t) 1) (e\<lparr>y_marginInFlight := insert tid (y_marginInFlight e)\<rparr>))"

fun patch_first :: "string \<Rightarrow> margin_patch \<Rightarrow> trade list \<Rightarrow> trade list" where
  "patch_first tid p [] = []"
| "patch_first tid p (c # cs) = (if tr_ID c = tid then applyMargin p c # cs else c # patch_first tid p cs)"

definition applyMarginLocked :: "string \<Rightarrow> margin_patch \<Rightarrow> synth \<Rightarrow> synth" where
  "applyMarginLocked tid p e =
     e\<lparr>y_positions := (case map_of (y_positions e) tid of None \<Rightarrow> y_positions e | Some t \<Rightarrow> AList.update tid (applyMargin p t) (y_positions e)),
       y_closedToday := patch_first tid p (y_closedToday e)\<rparr>"

definition marginPatch :: "env \<Rightarrow> basket_margin \<Rightarrow> margin_patch" where
  "marginPatch v res =
     \<lparr>mp_Margin = Some (f_max f_zero (Round (bm_Total res))), mp_MarginSource = Some (bm_Source res),
      mp_MarginHedgeBenefit = (case bm_HedgeBenefit res of Some h \<Rightarrow> if Finite h then Some (Round h) else None | None \<Rightarrow> None),
      mp_MarginAt = Some (v_now v), mp_MarginError = None\<rparr>"

definition margin_error :: "basket_margin reply \<Rightarrow> string option" where
  "margin_error r =
     (case r of
        Inl m \<Rightarrow> Some m
      | Inr res \<Rightarrow> if bm_Source res = ''unavailable'' \<or> \<not> Finite (bm_Total res)
          then Some ''the broker's margin calculator returned no figure'' else None)"

text \<open>One answer of the margin calculator; a failed attempt sleeps before the next.\<close>

definition margin_answer :: "env \<Rightarrow> string \<Rightarrow> margin_patch \<Rightarrow> nat \<Rightarrow> basket_margin reply \<Rightarrow> synth \<Rightarrow> synth \<times> job" where
  "margin_answer v tid snap n r e =
     (case (margin_error r, r) of
        (None, Inr res) \<Rightarrow>
          if tid \<in> y_deletedIDs e then (e, JMarginEnd tid)
          else (applyMarginLocked tid (marginPatch v res) e, JMarginSet tid (marginPatch v res))
      | (err, _) \<Rightarrow> (e, if n < marginAttempts then JMarginAgain tid snap (n + 1) else JMarginFail tid snap (the_default '''' err)))"

definition margin_again :: "string \<Rightarrow> margin_patch \<Rightarrow> nat \<Rightarrow> synth \<Rightarrow> job" where
  "margin_again tid snap n e = (if tid \<in> y_deletedIDs e then JMarginEnd tid else JMarginAsk tid snap n)"

definition margin_failed :: "string \<Rightarrow> margin_patch \<Rightarrow> string \<Rightarrow> synth \<Rightarrow> synth \<times> job" where
  "margin_failed tid snap err e =
     (if tid \<in> y_deletedIDs e then (e, JMarginEnd tid)
      else let failed = snap\<lparr>mp_Margin := None, mp_MarginError := Some err\<rparr>
        in (applyMarginLocked tid failed e, JMarginSet tid failed))"

definition margin_done :: "string \<Rightarrow> synth \<Rightarrow> synth" where
  "margin_done tid e = e\<lparr>y_marginInFlight := y_marginInFlight e - {tid}\<rparr>"

definition backfill_one :: "env \<Rightarrow> trade \<Rightarrow> synth \<Rightarrow> synth" where
  "backfill_one v t e =
     (if tr_Margin t \<noteq> None \<or> tr_ID t \<in> y_marginInFlight e then e
      else if tr_Broker t \<noteq> v_broker v
      then (if tr_MarginError t = None
        then e\<lparr>y_positions := AList.update (tr_ID t)
          (t\<lparr>tr_MarginError := Some (''Opened on '' @ tr_Broker t @ ''; margin is only asked from the broker a trade was opened on.'')\<rparr>) (y_positions e)\<rparr>
        else e)
      else if \<not> v_authenticated v \<or> y_namespaceStale e then e
      else let tries = the_default 0 (map_of (y_marginBackfills e) (tr_ID t))
        in if maxMarginBackfills \<le> tries then e
           else captureMargin v (tr_ID t) (e\<lparr>y_marginBackfills := AList.update (tr_ID t) (tries + 1) (y_marginBackfills e)\<rparr>))"

definition backfillMargins :: "env \<Rightarrow> synth \<Rightarrow> synth" where
  "backfillMargins v e =
     (if \<not> v_margins v \<or> v_now v - y_lastMarginSweepAt e < marginBackfillMs then e
      else fold (backfill_one v) (trades e) (e\<lparr>y_lastMarginSweepAt := v_now v\<rparr>))"

text \<open>The insert of an entry has returned.\<close>

definition entry_failed :: "env \<Rightarrow> string \<Rightarrow> string \<Rightarrow> synth \<Rightarrow> synth" where
  "entry_failed v u err e = setLastError (''Paper entry on '' @ u @ '' failed: '' @ err) (cooldown v u e)"

definition pending_done :: "string \<Rightarrow> synth \<Rightarrow> synth" where
  "pending_done u e = e\<lparr>y_pendingEntries := y_pendingEntries e - {u}\<rparr>"

definition entry_open :: "env \<Rightarrow> trade \<Rightarrow> string \<Rightarrow> int \<Rightarrow> synth \<Rightarrow> synth" where
  "entry_open v t key epoch e =
     (let e1 = e\<lparr>y_positions := AList.update (tr_ID t) t (y_positions e)\<rparr>;
          e2 = (if epoch \<noteq> y_namespaceEpoch e1 then e1\<lparr>y_unlinked := insert (tr_ID t) (y_unlinked e1), y_lastRelinkAt := 0\<rparr> else e1);
          e3 = e2\<lparr>y_eligibleStreak := AList.delete key (y_eligibleStreak e2)\<rparr>;
          e4 = fitToBudget (tokenBudget v None e3) True e3
      in captureMargin v (tr_ID t) (publish (refreshRows v (broadcast (FEntry t) e4))))"

definition finishEnter :: "env \<Rightarrow> trade \<Rightarrow> string \<Rightarrow> int \<Rightarrow> bool reply \<Rightarrow> synth \<Rightarrow> synth \<times> job option" where
  "finishEnter v t key epoch r e =
     (let u = tr_Underlying t
      in case r of
          Inl err \<Rightarrow> (pending_done u (entry_failed v u err e), None)
        | Inr True \<Rightarrow> (cooldown v u e, Some (JEnterLoad u))
        | Inr False \<Rightarrow> (pending_done u (entry_open v t key epoch (cooldown v u e)), None))"

definition enterLoaded :: "env \<Rightarrow> string \<Rightarrow> trade list reply \<Rightarrow> synth \<Rightarrow> synth" where
  "enterLoaded v u r e = pending_done u (case r of Inl err \<Rightarrow> entry_failed v u err e | Inr rows \<Rightarrow> adopt rows e)"

section \<open>Exits\<close>

definition finishOp :: "nat \<Rightarrow> close_outcome \<Rightarrow> synth \<Rightarrow> synth" where
  "finishOp op res e = e\<lparr>y_ops := (op, res) # y_ops e\<rparr>"

definition closeFailed :: "env \<Rightarrow> trade \<Rightarrow> string \<Rightarrow> synth \<Rightarrow> synth" where
  "closeFailed v t msg e =
     setLastError (''Closing '' @ tr_Underlying t @ '' failed: '' @ msg)
       (e\<lparr>y_retryAt := AList.update (tr_ID t) (v_now v + closeRetryMs) (y_retryAt e)\<rparr>)"

definition storage_unavailable :: string where
  "storage_unavailable = ''paper-trade storage is unavailable, so the close cannot be recorded''"

definition finalize :: "env \<Rightarrow> trade \<Rightarrow> trade \<Rightarrow> synth \<Rightarrow> synth \<times> nat" where
  "finalize v t cl e =
     (let op = y_nextOp e; e0 = e\<lparr>y_nextOp := op + 1\<rparr>
      in (if tr_ID t \<in> y_closing e then finishOp op (Close_failed ''This position is already closing.'') e0
          else if \<not> v_enabled v then finishOp op (Close_failed storage_unavailable) (closeFailed v t storage_unavailable e0)
          else goLocked (JClose t cl op) (e0\<lparr>y_closing := insert (tr_ID t) (y_closing e0)\<rparr>), op))"

definition priceExit :: "env \<Rightarrow> trade \<Rightarrow> bool \<Rightarrow> synth \<Rightarrow> exit_metrics" where
  "priceExit v t linked e =
     EvaluateExit t
       (\<lambda>tok. if linked \<and> v_marketOpen v then liveQuote e tok else None)
       (\<lambda>tok. if linked then ltpFor e tok else None)
       \<lparr>xp_Now = v_now v, xp_QuoteMaxAgeMs = QuoteMaxAgeMs (y_cfg e),
        xp_ExpirySafety = InExpirySafetyWindow (tr_Expiry t) (v_today v) (v_now v) (ExpirySafetyMinutes (y_cfg e)),
        xp_Rules = exitRules e, xp_OptionRates = OptionRates (y_cfg e), xp_FuturesRates = FuturesRates (y_cfg e)\<rparr>"

definition isLinked :: "synth \<Rightarrow> string \<Rightarrow> bool" where
  "isLinked e tid \<longleftrightarrow> \<not> y_namespaceStale e \<and> tid \<notin> y_unlinked e"

definition exitStreak :: "trade \<Rightarrow> exit_metrics \<Rightarrow> synth \<Rightarrow> synth" where
  "exitStreak t m e =
     (if xm_RuleReason m \<noteq> None \<and> xm_Executable m
      then let sig = bookSig e (map tl_Token (tr_Legs t))
        in if map_of (y_exitSig e) (tr_ID t) \<noteq> Some sig
           then e\<lparr>y_exitStreak := AList.update (tr_ID t) (the_default 0 (map_of (y_exitStreak e) (tr_ID t)) + 1) (y_exitStreak e),
                  y_exitSig := AList.update (tr_ID t) sig (y_exitSig e)\<rparr>
           else e
      else e\<lparr>y_exitStreak := AList.delete (tr_ID t) (y_exitStreak e), y_exitSig := AList.delete (tr_ID t) (y_exitSig e)\<rparr>)"

definition monitor_one :: "env \<Rightarrow> trade \<Rightarrow> synth \<Rightarrow> synth" where
  "monitor_one v t e =
     (if tr_ID t \<in> y_closing e \<or> v_now v < the_default 0 (map_of (y_retryAt e) (tr_ID t)) then e
      else if IsPastSettlement (tr_Expiry t) (v_today v) (v_now v) (v_marketOpen v)
      then fst (finalize v t (SettleTradeAtExpiry t (v_now v) (v_today v)) e)
      else let linked = isLinked e (tr_ID t);
               m = priceExit v t linked e;
               e1 = exitStreak t m (e\<lparr>y_metrics := AList.update (tr_ID t) m (y_metrics e)\<rparr>);
               streak = the_default 0 (map_of (y_exitStreak e1) (tr_ID t))
        in if \<not> v_marketOpen v \<or> \<not> feedHealthy v e \<or> \<not> linked \<or> \<not> xm_ShouldExit m \<or> xm_Reason m = None then e1
           else if xm_Reason m \<noteq> Some ExitExpirySafety \<and> f_lt (f_of_int streak) (SignalConfirmations (y_cfg e)) then e1
           else case CloseTradeAtTouch t m (xm_Reason m) (v_now v) (v_today v) (Some (depthFor e1)) of
               Some cl \<Rightarrow> fst (finalize v t cl e1)
             | None \<Rightarrow> e1)"

definition monitorPositions :: "env \<Rightarrow> synth \<Rightarrow> synth" where
  "monitorPositions v e = fold (monitor_one v) (trades e) e"

definition current_open :: "synth \<Rightarrow> trade \<Rightarrow> trade" where
  "current_open e t = (case map_of (y_positions e) (tr_ID t) of Some t' \<Rightarrow> t' | None \<Rightarrow> t)"

definition forget_position :: "string \<Rightarrow> synth \<Rightarrow> synth" where
  "forget_position tid e =
     e\<lparr>y_closedIDs := insert tid (y_closedIDs e), y_positions := AList.delete tid (y_positions e),
       y_metrics := AList.delete tid (y_metrics e), y_exitStreak := AList.delete tid (y_exitStreak e),
       y_exitSig := AList.delete tid (y_exitSig e), y_retryAt := AList.delete tid (y_retryAt e), y_unlinked := y_unlinked e - {tid}\<rparr>"

definition closing_done :: "string \<Rightarrow> synth \<Rightarrow> synth" where
  "closing_done tid e = e\<lparr>y_closing := y_closing e - {tid}\<rparr>"

definition with_margin :: "trade \<Rightarrow> trade \<Rightarrow> trade" where
  "with_margin t cl = (if tr_Margin cl = None \<and> tr_Margin t \<noteq> None then applyMargin (marginOf t) cl else cl)"

definition book_today :: "trade \<Rightarrow> synth \<Rightarrow> synth" where
  "book_today c e = e\<lparr>y_closedToday := c # y_closedToday e\<rparr>"

definition closed_won :: "env \<Rightarrow> trade \<Rightarrow> synth \<Rightarrow> synth" where
  "closed_won v cl e =
     (let e1 = (if tr_ClosedDay cl = Some (y_closedDay e) then book_today cl e else e)
      in publish (refreshRows v (broadcast (FExit cl) (applySubscriptions e1))))"

definition finishFinalize :: "env \<Rightarrow> trade \<Rightarrow> trade \<Rightarrow> nat \<Rightarrow> bool reply \<Rightarrow> synth \<Rightarrow> synth \<times> job option" where
  "finishFinalize v t cl op r e =
     (let tid = tr_ID t
      in case r of
          Inl err \<Rightarrow> (closing_done tid (finishOp op (Close_failed err) (closeFailed v t err e)), None)
        | Inr won \<Rightarrow>
            let e1 = cooldown v (tr_Underlying t) (forget_position tid e)
            in if \<not> won then (applySubscriptions e1, Some (JCloseGet tid op))
               else let c = with_margin (current_open e t) cl
                 in (closing_done tid (finishOp op (Closed_ok c) (closed_won v c e1)), None))"

definition inClosedToday :: "string \<Rightarrow> synth \<Rightarrow> bool" where
  "inClosedToday tid e \<longleftrightarrow> list_ex (\<lambda>c. tr_ID c = tid) (y_closedToday e)"

definition finishElsewhere :: "string \<Rightarrow> nat \<Rightarrow> stored_trade option reply \<Rightarrow> synth \<Rightarrow> synth" where
  "finishElsewhere tid op r e =
     (let e1 = (case r of
          Inr (Some st) \<Rightarrow>
            if \<not> sr_Deleted st \<and> tr_Status (sr_Trade st) = TClosed \<and> tr_ClosedDay (sr_Trade st) = Some (y_closedDay e) \<and>
               \<not> inClosedToday (tr_ID (sr_Trade st)) e then book_today (sr_Trade st) e else e
        | _ \<Rightarrow> e)
      in closing_done tid (finishOp op (Close_failed ''This position was already closed.'') e1))"

definition leg_fault :: "exit_leg \<Rightarrow> string" where
  "leg_fault l =
     xl_Tradingsymbol l @ '' ('' @
     (if xl_Price l = None then (if xl_Side l = Buy then ''no ask'' else ''no bid'')
      else if xl_Reject l = Some CrossedBook then ''crossed book: best bid '' @ utf8_encode 8805 @ '' best ask''
      else if \<not> xl_Fresh l then ''stale book''
      else ''under one lot at the touch'') @ '')''"

definition thin_legs :: "exit_metrics \<Rightarrow> string" where
  "thin_legs m =
     (let list = join '', '' (map leg_fault (filter (\<lambda>l. \<not> xl_Executable l) (xm_Legs m)))
      in if list = [] then ''legs are not executable'' else list)"

definition CloseManually :: "env \<Rightarrow> string \<Rightarrow> synth \<Rightarrow> synth \<times> (nat \<times> string + nat)" where
  "CloseManually v tid e =
     (case map_of (y_positions e) tid of
        None \<Rightarrow> (e, Inl (404, ''No open paper position with that id.''))
      | Some t \<Rightarrow>
          if \<not> v_marketOpen v then (e, Inl (409, ''The market is closed. A paper position can only be closed at a live touch.''))
          else if \<not> isLinked e tid then (e, Inl (409, ''This position's contracts are not resolved on the active broker yet.''))
          else let m = priceExit v t True e; e1 = e\<lparr>y_metrics := AList.update tid m (y_metrics e)\<rparr>
            in case CloseTradeAtTouch t m (Some ExitManual) (v_now v) (v_today v) (Some (depthFor e1)) of
                 None \<Rightarrow> (e1, Inl (409, ''Cannot close at the touch right now: '' @ thin_legs m @ ''. No fill is invented; the position stays open.''))
               | Some cl \<Rightarrow> (let (e2, op) = finalize v t cl e1 in (e2, Inr op)))"

definition close_answer :: "nat \<Rightarrow> synth \<Rightarrow> (nat \<times> string + trade) option" where
  "close_answer op e = map_option (\<lambda>r. case r of Closed_ok t \<Rightarrow> Inr t | Close_failed m \<Rightarrow> Inl (409, m)) (map_of (y_ops e) op)"

section \<open>Deleting trades\<close>

datatype delete_result = Deleted_ok string bool | Delete_refused nat string | Delete_error string

definition forgetOpen :: "env \<Rightarrow> trade \<Rightarrow> synth \<Rightarrow> synth" where
  "forgetOpen v t e =
     (let e1 = forget_position (tr_ID t) (e\<lparr>y_deletedIDs := insert (tr_ID t) (y_deletedIDs e)\<rparr>);
          e2 = e1\<lparr>y_marginBackfills := AList.delete (tr_ID t) (y_marginBackfills e1)\<rparr>
      in applySubscriptions (cooldown v (tr_Underlying t) e2))"

definition forgetClosed :: "string \<Rightarrow> synth \<Rightarrow> synth \<times> bool" where
  "forgetClosed tid e =
     (let kept = filter (\<lambda>c. tr_ID c \<noteq> tid) (y_closedToday e)
      in (e\<lparr>y_deletedIDs := insert tid (y_deletedIDs e), y_closedToday := kept\<rparr>, length kept \<noteq> length (y_closedToday e)))"

definition afterDelete :: "env \<Rightarrow> string \<Rightarrow> string \<Rightarrow> synth \<Rightarrow> synth" where
  "afterDelete v tid from e = publish (refreshRows v (broadcast (FDeleted tid from) e))"

text \<open>The first section: refuse, hold an open position and mark it, or read the stored row.\<close>

definition DeleteTrade :: "env \<Rightarrow> string \<Rightarrow> string option \<Rightarrow> string \<Rightarrow> string \<Rightarrow> synth \<Rightarrow> synth \<times> (delete_result + job)" where
  "DeleteTrade v tid reason actor expected e =
     (if \<not> v_enabled v then (e, Inl (Delete_refused 503 ''Paper-trade storage is not connected.''))
      else let audit = \<lparr>da_Reason = reason, da_Actor = actor, da_At = v_now v\<rparr>
        in case map_of (y_positions e) tid of
             Some t \<Rightarrow>
               if expected = ''closed'' then (e, Inl (Delete_refused 409 ''This trade is open, not closed. Reload the page and try again.''))
               else if tid \<in> y_closing e
               then (e, Inl (Delete_refused 409 ''This position is being closed right now. Wait for the exit, then delete it.''))
               else (e\<lparr>y_closing := insert tid (y_closing e)\<rparr>, Inr (JDeleteMark t audit))
           | None \<Rightarrow> (e, Inr (JDeleteGet tid audit expected)))"

text \<open>\<^verbatim>\<open>markDeletedReconciled\<close>: the write, and the read that tells what it did when it reported a failure or matched no row.\<close>

definition mark_settled :: "bool reply \<Rightarrow> bool" where
  "mark_settled r = (case r of Inr True \<Rightarrow> True | _ \<Rightarrow> False)"

definition write_error :: "bool reply \<Rightarrow> string option" where
  "write_error r = (case r of Inl m \<Rightarrow> Some m | Inr _ \<Rightarrow> None)"

definition status_name :: "trade_status \<Rightarrow> string" where
  "status_name s = (if s = TOpen then ''open'' else ''closed'')"

definition reconciled :: "string option \<Rightarrow> stored_trade option reply \<Rightarrow> string reply" where
  "reconciled werr r =
     (case r of
        Inl err \<Rightarrow> Inl (the_default err werr)
      | Inr st \<Rightarrow>
          if (case st of Some x \<Rightarrow> sr_Deleted x | None \<Rightarrow> False) then Inr ''deleted''
          else case werr of
              Some m \<Rightarrow> Inl m
            | None \<Rightarrow> Inr (case st of Some x \<Rightarrow> status_name (tr_Status (sr_Trade x)) | None \<Rightarrow> ''missing''))"

definition deleteOpen_end :: "env \<Rightarrow> trade \<Rightarrow> string reply \<Rightarrow> synth \<Rightarrow> synth \<times> delete_result" where
  "deleteOpen_end v t outc e =
     (let e1 = (if outc = Inr ''deleted'' then forgetOpen v t e else e);
          e2 = closing_done (tr_ID t) e1
      in case outc of
          Inl err \<Rightarrow> (e2, Delete_error err)
        | Inr what \<Rightarrow>
            if what = ''closed''
            then (e2, Delete_refused 409 (''This position closed while the delete was in flight. Nothing was deleted: it is '' @
              ''under Closed trades now, and can be deleted there.''))
            else if what \<noteq> ''deleted'' then (e2, Delete_refused 409 ''The trade could not be deleted.'')
            else (afterDelete v (tr_ID t) ''open'' e2, Deleted_ok ''open'' False))"

fun reason_name :: "exit_reason \<Rightarrow> string" where
  "reason_name ExitEdgeConverged = ''EDGE_CONVERGED''"
| "reason_name ExitProfitCapture = ''PROFIT_CAPTURE''"
| "reason_name ExitExpirySafety = ''EXPIRY_SAFETY''"
| "reason_name ExitExpired = ''EXPIRED''"
| "reason_name ExitManual = ''MANUAL''"

definition closed_meanwhile :: "trade \<Rightarrow> string" where
  "closed_meanwhile t =
     ''This position closed while the confirmation was open ('' @ (case tr_ExitReason t of Some r \<Rightarrow> reason_name r | None \<Rightarrow> ''closed'') @
     '', net '' @ utf8_encode 8377 @ formatRoundedENIN (the_default f_zero (tr_NetPnl t)) @ '' after charges). '' @
     ''Nothing was deleted: it is under Closed trades now, and can be deleted there if you still want to.''"

text \<open>What the stored row decides for a trade that is not open in memory.\<close>

definition deleteStored :: "string \<Rightarrow> delete_audit \<Rightarrow> string \<Rightarrow> stored_trade option reply \<Rightarrow> delete_result + job" where
  "deleteStored tid audit expected r =
     (case r of
        Inl err \<Rightarrow> Inl (Delete_error err)
      | Inr None \<Rightarrow> Inl (Delete_refused 404 ''No such paper trade.'')
      | Inr (Some st) \<Rightarrow>
          if sr_Deleted st then Inr (JDeleteAlready tid st (da_Reason audit))
          else if tr_Status (sr_Trade st) = TOpen
          then Inl (Delete_refused 409 ''This position is open but not managed by this server process; it cannot be deleted here.'')
          else if expected = ''open'' then Inl (Delete_refused 409 (closed_meanwhile (sr_Trade st)))
          else Inr (JDeleteClosed tid st audit))"

definition deleteAlready_end :: "env \<Rightarrow> string \<Rightarrow> stored_trade \<Rightarrow> synth \<Rightarrow> synth \<times> delete_result" where
  "deleteAlready_end v tid st e =
     (let (e1, listed) = forgetClosed tid e
      in (if listed then afterDelete v tid ''closed'' e1 else e1,
          Deleted_ok (if sr_DeletedFrom st = '''' then ''closed'' else sr_DeletedFrom st) True))"

definition deleteClosed_end :: "env \<Rightarrow> string \<Rightarrow> string reply \<Rightarrow> synth \<Rightarrow> synth \<times> delete_result" where
  "deleteClosed_end v tid outc e =
     (case outc of
        Inl err \<Rightarrow> (e, Delete_error err)
      | Inr what \<Rightarrow>
          if what \<noteq> ''deleted'' then (e, Delete_refused 409 ''The trade could not be deleted.'')
          else (afterDelete v tid ''closed'' (fst (forgetClosed tid e)), Deleted_ok ''closed'' False))"

section \<open>Universe\<close>

definition beginRefresh :: "env \<Rightarrow> bool \<Rightarrow> nat \<Rightarrow> synth \<Rightarrow> synth \<times> job" where
  "beginRefresh v allowDuringSwitch f e =
     (if \<not> active e \<or> \<not> v_authenticated v \<or> (\<not> allowDuringSwitch \<and> v_switching v) then (e, JRefreshNothing f)
      else (e\<lparr>y_lastRefreshAttemptAt := v_now v\<rparr>, JRefresh f (stampOf v e) (v_today v)))"

definition refreshUniverse :: "env \<Rightarrow> bool \<Rightarrow> synth \<Rightarrow> synth \<times> nat" where
  "refreshUniverse v allowDuringSwitch e =
     (case y_refreshing e of
        Some f \<Rightarrow> (e, f)
      | None \<Rightarrow>
          let f = y_nextFlight e;
              (e1, j) = beginRefresh v allowDuringSwitch f (e\<lparr>y_refreshing := Some f, y_nextFlight := f + 1\<rparr>)
          in (goLocked j e1, f))"

definition flight_end :: "nat \<Rightarrow> string option \<Rightarrow> synth \<Rightarrow> synth" where
  "flight_end f err e =
     e\<lparr>y_refreshing := (if y_refreshing e = Some f then None else y_refreshing e), y_landed := (f, err) # y_landed e\<rparr>"

definition found_tokens :: "trade list \<Rightarrow> instrument list \<Rightarrow> (string \<times> token) list" where
  "found_tokens ts all =
     (let wanted_keys = concat (map (\<lambda>t. map (\<lambda>l. legKey (tr_Underlying t) (tr_Expiry t) (tl_InstrumentType l) (tl_Strike l)) (tr_Legs t)) ts);
          listed = filter (\<lambda>i. i_Exchange i = ''NFO'' \<and> i_Name i \<noteq> '''' \<and> i_Expiry i \<noteq> '''' \<and> i_InstrumentType i \<in> set [''FUT'', ''CE'', ''PE'']) all;
          ks = map (\<lambda>i. (legKey (i_Name i) (i_Expiry i) (i_InstrumentType i) (i_Strike i), i_InstrumentToken i)) listed
      in rev (filter (\<lambda>k. fst k \<in> set wanted_keys) ks))"

definition relink_leg :: "(string \<times> token) list \<Rightarrow> trade \<Rightarrow> trade_leg \<Rightarrow> trade_leg" where
  "relink_leg found t l =
     (case map_of found (legKey (tr_Underlying t) (tr_Expiry t) (tl_InstrumentType l) (tl_Strike l)) of
        Some tok \<Rightarrow> l\<lparr>tl_Token := tok\<rparr> | None \<Rightarrow> l)"

definition leg_found :: "(string \<times> token) list \<Rightarrow> trade \<Rightarrow> trade_leg \<Rightarrow> bool" where
  "leg_found found t l \<longleftrightarrow> map_of found (legKey (tr_Underlying t) (tr_Expiry t) (tl_InstrumentType l) (tl_Strike l)) \<noteq> None"

definition relinkPositions :: "instrument list \<Rightarrow> synth \<Rightarrow> synth" where
  "relinkPositions all e =
     (let found = found_tokens (trades e) all;
          ok = (\<lambda>t. list_all (leg_found found t) (tr_Legs t))
      in e\<lparr>y_positions := map (\<lambda>(i, t). (i, t\<lparr>tr_Legs := map (relink_leg found t) (tr_Legs t)\<rparr>)) (y_positions e),
           y_unlinked := (y_unlinked e - tr_ID ` set (filter ok (trades e))) \<union> tr_ID ` set (filter (\<lambda>t. \<not> ok t) (trades e))\<rparr>)"

definition relink :: "env \<Rightarrow> synth \<Rightarrow> synth" where
  "relink v e =
     (if y_relinking e then e else goLocked (JRelink (stampOf v e)) (e\<lparr>y_relinking := True, y_lastRelinkAt := v_now v\<rparr>))"

definition relink_end :: "env \<Rightarrow> stamp \<Rightarrow> instrument list reply \<Rightarrow> synth \<Rightarrow> synth" where
  "relink_end v st r e =
     (let e1 = (case r of
          Inl _ \<Rightarrow> e
        | Inr all \<Rightarrow> if superseded v st e \<or> y_namespaceStale e \<or> v_switching v then e else applySubscriptions (relinkPositions all e))
      in e1\<lparr>y_relinking := False\<rparr>)"

definition board_before :: "board_item \<Rightarrow> board_item \<Rightarrow> bool" where
  "board_before a b = (if bi_IsIndex a = bi_IsIndex b then LocaleCompare (bi_Symbol a) (bi_Symbol b) < 0 else bi_IsIndex a)"

definition ordered_board :: "string \<Rightarrow> board_item list \<Rightarrow> synth \<Rightarrow> board_item list" where
  "ordered_board today board e =
     (if \<not> y_running e then []
      else sort_lt board_before (filter (\<lambda>b. case map_of (y_chains e) (bi_Symbol b) of
          None \<Rightarrow> False | Some chain \<Rightarrow> \<not> (SkipExpiryDay (y_cfg e) \<and> ci_Expiry chain = today)) board))"

definition seed_tokens :: "string list \<Rightarrow> synth \<Rightarrow> (token \<times> string) list" where
  "seed_tokens us e = fold (\<lambda>u m. case map_of (y_chains e) u of None \<Rightarrow> m | Some chain \<Rightarrow> AList.update (c_Token (ci_Future chain)) u m) us []"

definition resolve_ids :: "(token \<times> string) list \<Rightarrow> token list \<Rightarrow> string list" where
  "resolve_ids res ts = List.map_filter (map_of res) ts"

definition store_seed :: "(token \<times> string) list \<Rightarrow> rest_quote \<Rightarrow> (string \<times> f64) list \<Rightarrow> (string \<times> f64) list" where
  "store_seed byToken q m =
     (case map_of byToken (rq_Token q) of
        Some u \<Rightarrow> if f_pos (rq_LastPrice q) then AList.update u (rq_LastPrice q) m else m
      | None \<Rightarrow> m)"

definition plan_ref :: "synth \<Rightarrow> string \<Rightarrow> chain_index \<Rightarrow> f64" where
  "plan_ref e u chain =
     (let ref = (case map_of (y_windows e) u of
          Some w \<Rightarrow> if c_Token (w_Future w) = c_Token (ci_Future chain) then refPriceFor e w else f_zero
        | None \<Rightarrow> f_zero)
      in if f_eq ref f_zero \<or> is_nan ref then the_default f_zero (map_of (y_seededRef e) u) else ref)"

definition plan_window :: "env \<Rightarrow> synth \<Rightarrow> string \<Rightarrow> (string \<times> window) option" where
  "plan_window v e u =
     (case (map_of (y_chains e) u, map_of (y_board e) u) of
        (Some chain, Some b) \<Rightarrow> map_option (Pair u) (BuildWindow b chain (plan_ref e u chain) (y_strikeLevel e) (v_now v))
      | _ \<Rightarrow> None)"

definition install_windows :: "env \<Rightarrow> refresh_plan \<Rightarrow> synth \<Rightarrow> synth" where
  "install_windows v p e =
     (let ws = (if y_running e then List.map_filter (plan_window v e) (rp_picked p) else []);
          e1 = e\<lparr>y_windows := fold (\<lambda>(u, w). AList.update u w) ws [], y_selection := map fst ws,
            y_skippedForBudget := int (rp_ordered p) - int (length (rp_picked p)),
            y_reservedCount := (if y_running e then int (length (rp_picked p)) else 0),
            y_unbuiltCount := (if y_running e then int (length (rp_picked p)) - int (length ws) else 0),
            y_namespaceStale := False, y_budgetGrowPending := False\<rparr>
      in fitToBudget (tokenBudget v None e1) True e1)"

text \<open>The end of a refresh, from the windows on; with the market shut it asks for the last closes first.\<close>

definition refresh_windows :: "env \<Rightarrow> nat \<Rightarrow> stamp \<Rightarrow> refresh_plan \<Rightarrow> synth \<Rightarrow> synth \<times> job" where
  "refresh_windows v f st p e =
     (let e1 = install_windows v p e; ids = resolve_ids (rp_resolve p) (y_watched e1)
      in if v_marketOpen v then (e1\<lparr>y_universeAt := Some (v_now v)\<rparr>, JFlightEnd f None)
         else if ids = [] then (e1\<lparr>y_closeViewPending := False, y_universeAt := Some (v_now v)\<rparr>, JFlightEnd f None)
         else (e1, JRefreshCloses f st ids))"

definition refresh_loaded :: "env \<Rightarrow> nat \<Rightarrow> stamp \<Rightarrow> string \<Rightarrow> (instrument list \<times> board_item list) reply \<Rightarrow> synth \<Rightarrow> synth \<times> job" where
  "refresh_loaded v f st today r e =
     (case r of
        Inl err \<Rightarrow> (e, JFlightEnd f (Some err))
      | Inr (all, board) \<Rightarrow>
          if superseded v st e \<or> \<not> active e then (e, JFlightEnd f None)
          else let e1 = relinkPositions all (e\<lparr>y_chains := IndexSyntheticChains all today,
                     y_board := fold (\<lambda>b. AList.update (bi_Symbol b) b) board []\<rparr>);
                   ordered = ordered_board today board e1;
                   picked = pickWithinBudget (map bi_Symbol ordered) (tokenBudget v None e1) e1;
                   unseeded = filter (\<lambda>u. map_of (y_windows e1) u = None) picked;
                   p = \<lparr>rp_ordered = length ordered, rp_picked = picked, rp_resolve = IDResolver all\<rparr>;
                   byToken = seed_tokens unseeded e1;
                   ids = resolve_ids (rp_resolve p) (map fst byToken)
            in if ids = [] then refresh_windows v f st p e1 else (e1, JRefreshSeed f st p ids byToken))"

definition refresh_seeded :: "env \<Rightarrow> nat \<Rightarrow> stamp \<Rightarrow> refresh_plan \<Rightarrow> (token \<times> string) list \<Rightarrow> rest_quote list reply \<Rightarrow> synth \<Rightarrow> synth \<times> job" where
  "refresh_seeded v f st p byToken r e =
     (let e1 = (case r of
          Inl _ \<Rightarrow> setLastError ''Could not fetch futures prices to centre the strike windows.'' e
        | Inr qs \<Rightarrow> if superseded v st e then e else e\<lparr>y_seededRef := fold (store_seed byToken) qs (y_seededRef e)\<rparr>)
      in if superseded v st e1 \<or> \<not> active e1 then (e1, JFlightEnd f None) else refresh_windows v f st p e1)"

definition session_day :: "rest_quote list \<Rightarrow> string" where
  "session_day qs = fold (\<lambda>q d. let x = utf16Prefix (rq_LastTradeTime q) 10 in if d < x then x else d) qs ''''"

definition store_closes :: "rest_quote list \<Rightarrow> synth \<Rightarrow> synth" where
  "store_closes qs e =
     (let day = session_day qs
      in e\<lparr>y_closes := fold (\<lambda>q m. if f_pos (rq_LastPrice q) \<and> day \<noteq> '''' \<and> utf16Prefix (rq_LastTradeTime q) 10 = day
               then AList.update (rq_Token q) (rq_LastPrice q) m else m) qs [],
           y_closeSessionDay := (if day \<noteq> '''' then Some day else None)\<rparr>)"

definition refresh_closed :: "env \<Rightarrow> nat \<Rightarrow> stamp \<Rightarrow> rest_quote list reply \<Rightarrow> synth \<Rightarrow> synth \<times> job" where
  "refresh_closed v f st r e =
     (let e1 = (case r of Inl _ \<Rightarrow> e | Inr qs \<Rightarrow> if superseded v st e then e else store_closes qs e)
      in if superseded v st e1 then (e1, JFlightEnd f None)
         else (e1\<lparr>y_closeViewPending := False, y_universeAt := Some (v_now v)\<rparr>, JFlightEnd f None))"

section \<open>Settings\<close>

definition takeTurn :: "synth \<Rightarrow> synth \<times> nat" where
  "takeTurn e = (e\<lparr>y_nextTurn := y_nextTurn e + 1\<rparr>, y_nextTurn e)"

definition endTurn :: "nat \<Rightarrow> synth \<Rightarrow> synth" where
  "endTurn turn e = e\<lparr>y_turnsDone := turn + 1\<rparr>"

fun parse_body :: "(setting_key \<Rightarrow> jvalue option) \<Rightarrow> setting_key list \<Rightarrow> settings \<Rightarrow> bool \<Rightarrow> string + settings \<times> bool" where
  "parse_body body [] s changed = Inr (s, changed)"
| "parse_body body (k # ks) s changed =
     (case body k of
        None \<Rightarrow> parse_body body ks s changed
      | Some raw \<Rightarrow> (case ParseSetting k raw of Inl msg \<Rightarrow> Inl msg | Inr x \<Rightarrow> parse_body body ks (settings_set k x s) True))"

definition nothing_to_change :: string where
  "nothing_to_change = ''Nothing to change: send any of '' @ join '', '' (map key_name SettingKeys) @ ''.''"

definition UpdateSettings :: "(setting_key \<Rightarrow> jvalue option) \<Rightarrow> synth \<Rightarrow> synth \<times> job" where
  "UpdateSettings body e = (let (e1, turn) = takeTurn e in (e1, JSettings turn body))"

definition settings_apply :: "env \<Rightarrow> nat \<Rightarrow> (setting_key \<Rightarrow> jvalue option) \<Rightarrow> synth \<Rightarrow> synth \<times> (nat \<times> string + job)" where
  "settings_apply v turn body e =
     (case parse_body body SettingKeys (y_settings e) False of
        Inl msg \<Rightarrow> (endTurn turn e, Inl (400, msg))
      | Inr (next, changed) \<Rightarrow>
          if \<not> changed then (endTurn turn e, Inl (400, nothing_to_change))
          else (e\<lparr>y_settings := next\<rparr>,
            Inr (if v_enabled v then JSettingsSave turn (y_settings e) next else JSettingsRet turn (y_settings e) next False (Inr ()))))"

definition settings_end :: "env \<Rightarrow> nat \<Rightarrow> settings \<Rightarrow> settings \<Rightarrow> bool \<Rightarrow> unit reply \<Rightarrow> synth \<Rightarrow> synth \<times> (nat \<times> string + bool)" where
  "settings_end v turn before next enabled r e =
     (case (enabled, r) of
        (True, Inl err) \<Rightarrow> (endTurn turn (e\<lparr>y_settings := before\<rparr>), Inl (503, ''Could not save the settings: '' @ err))
      | _ \<Rightarrow> let e1 = e\<lparr>y_settingsDirty := \<not> enabled\<rparr> in (endTurn turn (publish (evaluate v False e1)), Inr (\<not> y_settingsDirty e1)))"

definition SetStrikeLevel :: "env \<Rightarrow> jvalue \<Rightarrow> synth \<Rightarrow> synth \<times> string option" where
  "SetStrikeLevel v level e =
     (case ClampStrikeLevel level of
        None \<Rightarrow> (e, Some ''level must be 1, 2 or 3'')
      | Some lvl \<Rightarrow>
          if lvl = y_strikeLevel e then (e, None)
          else let e1 = e\<lparr>y_strikeLevel := lvl\<rparr>
            in if \<not> y_running e1 then (e1, None)
               else let e2 = fold (\<lambda>u e. case map_of (y_windows e) u of
                          None \<Rightarrow> e
                        | Some w \<Rightarrow> (case rebuilt v (refPriceFor e w) u e of
                            Some next \<Rightarrow> e\<lparr>y_windows := AList.update u next (y_windows e)\<rparr> | None \<Rightarrow> e)) (y_selection e1) e1
                 in (evaluate v False (fitToBudget (tokenBudget v None e2) True e2), None))"

section \<open>Loading from the store\<close>

definition beginLoad :: "env \<Rightarrow> finish \<Rightarrow> synth \<Rightarrow> synth \<times> job option" where
  "beginLoad v fin e =
     (if y_loading e \<or> storeReady e then (e, None)
      else let e1 = e\<lparr>y_lastLoadAttemptAt := v_now v\<rparr>
        in if \<not> v_enabled v then (e1, None)
           else let e2 = e1\<lparr>y_loading := True\<rparr>
             in if \<not> y_settingsLoaded e then (let (e3, turn) = takeTurn e2 in (e3, Some (JLoadSettings fin turn)))
                else if \<not> y_loaded e then (e2, Some (JLoadOpen fin))
                else (e2, Some (JNeedIndex fin)))"

definition apply_saved :: "(setting_key \<times> f64) list \<Rightarrow> settings \<Rightarrow> settings" where
  "apply_saved stored s =
     fold (\<lambda>k s. case map_of stored k of
         None \<Rightarrow> s
       | Some raw \<Rightarrow> (case ParseSetting k (JNum raw) of Inr x \<Rightarrow> settings_set k x s | Inl _ \<Rightarrow> s)) SettingKeys s"

definition after_settings :: "finish \<Rightarrow> synth \<Rightarrow> job" where
  "after_settings fin e = (if y_loaded e then JNeedIndex fin else JLoadOpen fin)"

definition settings_turn :: "finish \<Rightarrow> nat \<Rightarrow> synth \<Rightarrow> synth \<times> job" where
  "settings_turn fin turn e =
     (if y_settingsLoaded e then (endTurn turn e, after_settings fin e) else (e, JAskSettings fin turn))"

definition settings_loaded :: "finish \<Rightarrow> nat \<Rightarrow> (setting_key \<times> f64) list reply \<Rightarrow> synth \<Rightarrow> synth \<times> job" where
  "settings_loaded fin turn r e =
     (case r of
        Inl err \<Rightarrow> (endTurn turn e, JLoadEnd fin (Some err))
      | Inr stored \<Rightarrow>
          let e1 = (if y_settingsDirty e then e else e\<lparr>y_settings := apply_saved stored (y_settings e)\<rparr>)
          in if y_settingsDirty e1 then (e1, JSaveLoaded fin turn (y_settings e1))
             else (endTurn turn (e1\<lparr>y_settingsLoaded := True\<rparr>), after_settings fin e1))"

definition settings_saved :: "finish \<Rightarrow> nat \<Rightarrow> unit reply \<Rightarrow> synth \<Rightarrow> synth \<times> job" where
  "settings_saved fin turn r e =
     (case r of
        Inl err \<Rightarrow> (endTurn turn e, JLoadEnd fin (Some err))
      | Inr _ \<Rightarrow> (endTurn turn (e\<lparr>y_settingsDirty := False, y_settingsLoaded := True\<rparr>), after_settings fin e))"

definition open_loaded :: "env \<Rightarrow> finish \<Rightarrow> trade list reply \<Rightarrow> synth \<Rightarrow> synth \<times> job" where
  "open_loaded v fin r e =
     (case r of Inl err \<Rightarrow> (e, JLoadEnd fin (Some err)) | Inr rows \<Rightarrow> (adopt rows e, JLoadClosed fin (v_today v)))"

definition closedAtOr0 :: "trade \<Rightarrow> millis" where
  "closedAtOr0 t = the_default 0 (tr_ClosedAt t)"

definition closed_after :: "trade \<Rightarrow> trade \<Rightarrow> bool" where
  "closed_after a b \<longleftrightarrow> closedAtOr0 b - closedAtOr0 a < 0"

definition merge_closed :: "trade list \<Rightarrow> synth \<Rightarrow> trade list" where
  "merge_closed rows e =
     sort_lt closed_after (y_closedToday e @ filter (\<lambda>t. tr_ID t \<notin> tr_ID ` set (y_closedToday e) \<and> tr_ID t \<notin> y_deletedIDs e) rows)"

definition closed_loaded :: "finish \<Rightarrow> string \<Rightarrow> trade list reply \<Rightarrow> synth \<Rightarrow> synth \<times> job" where
  "closed_loaded fin today r e =
     (case r of
        Inl err \<Rightarrow> (e, JLoadEnd fin (Some err))
      | Inr rows \<Rightarrow> (e\<lparr>y_closedToday := merge_closed rows e, y_closedDay := today, y_loaded := True\<rparr>, JNeedIndex fin))"

definition index_needed :: "finish \<Rightarrow> synth \<Rightarrow> job" where
  "index_needed fin e = (if y_indexReady e then JLoadEnd fin None else JEnsure fin)"

definition index_ensured :: "finish \<Rightarrow> unit reply \<Rightarrow> synth \<Rightarrow> synth \<times> job" where
  "index_ensured fin r e =
     (case r of Inl err \<Rightarrow> (e, JLoadEnd fin (Some err)) | Inr _ \<Rightarrow> (e\<lparr>y_indexReady := True\<rparr>, JLoadEnd fin None))"

definition load_end :: "finish \<Rightarrow> string option \<Rightarrow> synth \<Rightarrow> synth \<times> job option" where
  "load_end fin err e =
     (let e1 = (case err of Some m \<Rightarrow> setLastError (''Paper-trade storage is not ready: '' @ m) e | None \<Rightarrow> e)
      in (e1\<lparr>y_loading := False\<rparr>, if fin = Starting then Some JStartWait else None))"

section \<open>Lifecycle and the loop\<close>

definition ensureLoop :: "synth \<Rightarrow> synth" where
  "ensureLoop e = e\<lparr>y_loopOn := True\<rparr>"

definition Boot :: "env \<Rightarrow> synth \<Rightarrow> synth \<times> job option" where
  "Boot v e = (if y_booted e then (e, None) else beginLoad v Booted (ensureLoop (e\<lparr>y_booted := True\<rparr>)))"

definition Start :: "env \<Rightarrow> synth \<Rightarrow> synth \<times> (string + job option)" where
  "Start v e =
     (if \<not> v_authenticated v then (e, Inl ''No broker session: connect the active broker first.'')
      else if v_switching v then (e, Inl ''A broker switch is in progress. Try again in a moment.'')
      else if y_running e then (e, Inr None)
      else let (e1, load) = beginLoad v Starting (ensureLoop (e\<lparr>y_running := True, y_lastError := None\<rparr>))
        in (e1, Inr (Some (case load of Some j \<Rightarrow> j | None \<Rightarrow> JStartWait))))"

definition start_wait :: "synth \<Rightarrow> job" where
  "start_wait e = JStartRefresh (y_refreshing e)"

definition start_refresh :: "env \<Rightarrow> synth \<Rightarrow> synth \<times> job" where
  "start_refresh v e = (let (e1, f) = refreshUniverse v False e in (e1, JStartEnd f))"

definition start_end :: "env \<Rightarrow> nat \<Rightarrow> synth \<Rightarrow> synth" where
  "start_end v f e =
     (let e1 = (case map_of (y_landed e) f of Some (Some err) \<Rightarrow> setLastError err e | _ \<Rightarrow> e) in publish (evaluate v False e1))"

definition Stop :: "synth \<Rightarrow> synth" where
  "Stop e =
     publish (applySubscriptions (e\<lparr>y_running := False, y_windows := [], y_selection := [], y_opportunities := [], y_eligibleStreak := [],
       y_skippedForBudget := 0, y_reservedCount := 0, y_unbuiltCount := 0, y_budgetGrowPending := False\<rparr>))"

definition Dispose :: "synth \<Rightarrow> synth" where
  "Dispose e = (Stop e)\<lparr>y_loopOn := False, y_publishOn := False, y_streams := []\<rparr>"

definition InvalidateBooks :: "synth \<Rightarrow> synth" where
  "InvalidateBooks e = e\<lparr>y_quotes := InvalidateGeneration (y_quotes e)\<rparr>"

definition InvalidateNamespace :: "synth \<Rightarrow> synth" where
  "InvalidateNamespace e =
     (setTokensLocked [] e)\<lparr>y_namespaceEpoch := y_namespaceEpoch e + 1, y_namespaceStale := True,
       y_quotes := InvalidateGeneration (y_quotes e), y_closes := [], y_seededRef := [], y_windows := [], y_selection := [],
       y_reservedCount := 0, y_unbuiltCount := 0, y_watched := [], y_opportunities := [], y_eligibleStreak := [], y_eligibleSig := [],
       y_exitStreak := [], y_exitSig := [], y_universeAt := None, y_unlinked := y_unlinked e \<union> fst ` set (y_positions e)\<rparr>"

definition ReloadUniverse :: "synth \<Rightarrow> synth \<times> job" where
  "ReloadUniverse e = (e\<lparr>y_namespaceEpoch := y_namespaceEpoch e + 1\<rparr>, JReloadRefresh (y_refreshing e))"

definition reload_refresh :: "env \<Rightarrow> synth \<Rightarrow> synth \<times> job option" where
  "reload_refresh v e =
     (let e1 = e\<lparr>y_universeAt := None\<rparr>
      in if \<not> active e1 then (e1, None) else let (e2, f) = refreshUniverse v True e1 in (e2, Some (JReloadEnd f)))"

definition rollDay :: "env \<Rightarrow> synth \<Rightarrow> synth" where
  "rollDay v e =
     (if v_today v = y_closedDay e then e
      else e\<lparr>y_closedDay := v_today v, y_closedToday := filter (\<lambda>t. tr_ClosedDay t = Some (v_today v)) (y_closedToday e),
             y_closedIDs := {}, y_deletedIDs := {}\<rparr>)"

definition refresh_due :: "env \<Rightarrow> synth \<Rightarrow> bool" where
  "refresh_due v e =
     (let since = v_now v - y_lastRefreshAttemptAt e
      in case y_universeAt e of
          None \<Rightarrow> firstRefreshRetryMs \<le> since
        | Some u \<Rightarrow> f_le (UniverseRefreshMs (y_cfg e)) (f_of_int (v_now v - u)) \<or>
            (y_closeViewPending e \<and> refreshDebounceMs \<le> since) \<or>
            (y_budgetGrowPending e \<and> y_running e \<and> refreshDebounceMs \<le> since) \<or>
            (0 < y_unbuiltCount e \<and> y_running e \<and> unbuiltRetryMs \<le> since))"

definition maybeRefreshUniverse :: "env \<Rightarrow> synth \<Rightarrow> synth" where
  "maybeRefreshUniverse v e =
     (if \<not> active e \<or> \<not> v_authenticated v \<or> v_switching v then e
      else let e1 = (if y_unlinked e \<noteq> {} \<and> \<not> y_namespaceStale e \<and> \<not> y_relinking e \<and> relinkRetryMs \<le> v_now v - y_lastRelinkAt e then relink v e else e)
        in if y_refreshing e1 \<noteq> None \<or> \<not> refresh_due v e1 then e1
           else let (e2, f) = refreshUniverse v False e1 in goLocked (JAwaitFlight f) e2)"

definition await_end :: "nat \<Rightarrow> synth \<Rightarrow> synth" where
  "await_end f e = (case map_of (y_landed e) f of Some (Some err) \<Rightarrow> setLastError err e | _ \<Rightarrow> e)"

definition retryLoad :: "env \<Rightarrow> synth \<Rightarrow> synth" where
  "retryLoad v e =
     (if \<not> storeReady e \<and> loadRetryMs \<le> v_now v - y_lastLoadAttemptAt e
      then (case beginLoad v Booted e of (e1, Some j) \<Rightarrow> goLocked j e1 | (e1, None) \<Rightarrow> e1)
      else e)"

definition noteMarket :: "env \<Rightarrow> synth \<Rightarrow> synth" where
  "noteMarket v e =
     e\<lparr>y_closeViewPending := (y_closeViewPending e \<or> y_lastMarketOpen e = Some True \<and> \<not> v_marketOpen v), y_lastMarketOpen := Some (v_marketOpen v)\<rparr>"

definition fitTick :: "env \<Rightarrow> synth \<Rightarrow> synth" where
  "fitTick v e = (if active e \<and> \<not> y_namespaceStale e then fitToBudget (tokenBudget v None e) False e else e)"

definition tick :: "(nat \<Rightarrow> string) \<Rightarrow> env \<Rightarrow> synth \<Rightarrow> synth" where
  "tick newID v e =
     autoEnter newID v (monitorPositions v (evaluate v True (fitTick v (backfillMargins v (maybeRefreshUniverse v (noteMarket v (rollDay v (retryLoad v e))))))))"

definition dayPnl :: "synth \<Rightarrow> day_pnl" where
  "dayPnl e =
     ComputeDayPnl (y_closedDay e)
       (map (\<lambda>t. case map_of (y_metrics e) (tr_ID t) of
           Some m \<Rightarrow> \<lparr>om_MtmLtp = xm_MtmLtp m, om_GrossPnl = xm_GrossPnl m, om_NetPnl = xm_NetPnl m, om_Margin = tr_Margin t\<rparr>
         | None \<Rightarrow> \<lparr>om_MtmLtp = None, om_GrossPnl = None, om_NetPnl = None, om_Margin = tr_Margin t\<rparr>) (trades e))
       (y_closedToday e)"

end
