(* ===== verification/SynthSystem.thy ===== *)
theory SynthSystem
  imports SynthEngine "HOL-Library.Multiset"
begin

text \<open>
  The paper-trading engine in its surroundings: its state, the goroutines in flight (a
  multiset of jobs), the table they write to and the token sets the lane has been told. A step is
  one call of the engine's interface, one queued side effect, one statement on the table
  (which may fail before or after its effect), one answer of a remote service, one critical section of
  a job that is not waiting, or a write by another server process on the same table. Goroutines interleave freely.
\<close>

section \<open>Calls, answers and sections\<close>

record sys =
  eng :: synth
  jobs :: "job multiset"
  db :: table
  declared :: "token list list"

datatype call =
    CTick | CTicks "tick list" | CBoot | CStart | CStop | CDispose | CInvalidateBooks | CInvalidateNamespace | CReload
  | CYield f64 | CStrikeLevel jvalue | CUpdate "setting_key \<Rightarrow> jvalue option" | CClose string
  | CDelete string "string option" string string | CPublish | CAddStream | CRemoveStream nat | CTakeFrames nat

fun api :: "(nat \<Rightarrow> string) \<Rightarrow> env \<Rightarrow> call \<Rightarrow> synth \<Rightarrow> synth \<times> job list" where
  "api newID v CTick e = (if y_loopOn e then tick newID v e else e, [])"
| "api newID v (CTicks ts) e = (OnTicks v ts e, [])"
| "api newID v CBoot e = (let (e1, j) = Boot v e in (e1, case j of Some x \<Rightarrow> [x] | None \<Rightarrow> []))"
| "api newID v CStart e = (let (e1, r) = Start v e in (e1, case r of Inr (Some x) \<Rightarrow> [x] | _ \<Rightarrow> []))"
| "api newID v CStop e = (Stop e, [])"
| "api newID v CDispose e = (Dispose e, [])"
| "api newID v CInvalidateBooks e = (InvalidateBooks e, [])"
| "api newID v CInvalidateNamespace e = (InvalidateNamespace e, [])"
| "api newID v CReload e = (let (e1, j) = ReloadUniverse e in (e1, [j]))"
| "api newID v (CYield n) e = (YieldToBox v n e, [])"
| "api newID v (CStrikeLevel l) e = (fst (SetStrikeLevel v l e), [])"
| "api newID v (CUpdate body) e = (let (e1, j) = UpdateSettings body e in (e1, [j]))"
| "api newID v (CClose tid) e = (fst (CloseManually v tid e), [])"
| "api newID v (CDelete tid reason actor expected) e =
     (let (e1, r) = DeleteTrade v tid reason actor expected e in (e1, case r of Inr j \<Rightarrow> [j] | Inl _ \<Rightarrow> []))"
| "api newID v CPublish e = (publish e, [])"
| "api newID v CAddStream e = (fst (addSSEClient e), [])"
| "api newID v (CRemoveStream n) e = (removeSSEClient n e, [])"
| "api newID v (CTakeFrames n) e = (fst (takeFrames n e), [])"

definition read :: "outcome \<Rightarrow> (table \<Rightarrow> 'a reply) \<Rightarrow> table \<Rightarrow> 'a reply" where
  "read oc f d = fst (attempt oc (\<lambda>d. (f d, d)) d)"

text \<open>The statement a job waits for, with what goes on with its reply.\<close>

definition db_call :: "outcome \<Rightarrow> bool \<Rightarrow> job \<Rightarrow> table \<Rightarrow> (job list \<times> table) option" where
  "db_call oc en j d =
     (case j of
        JAskSettings fin turn \<Rightarrow> Some ([JLoadSettingsRet fin turn (read oc (LoadSettings en) d)], d)
      | JSaveLoaded fin turn s \<Rightarrow> (let (r, d1) = attempt oc (SaveSettings en s) d in Some ([JSaveLoadedRet fin turn r], d1))
      | JLoadOpen fin \<Rightarrow> Some ([JLoadOpenRet fin (read oc (LoadOpen en) d)], d)
      | JLoadClosed fin today \<Rightarrow> Some ([JLoadClosedRet fin today (read oc (LoadClosed en closedTodayLoadLimit (Some today)) d)], d)
      | JEnsure fin \<Rightarrow> (let (r, d1) = attempt oc (EnsureReady en) d in Some ([JEnsureRet fin r], d1))
      | JEnter t key ep \<Rightarrow> (let (r, d1) = attempt oc (InsertOpen en t) d in Some ([JEnterRet t key ep r], d1))
      | JEnterLoad u \<Rightarrow> Some ([JEnterLoadRet u (read oc (LoadOpen en) d)], d)
      | JClose t c op \<Rightarrow> (let (r, d1) = attempt oc (Close en c) d in Some ([JCloseRet t c op r], d1))
      | JCloseGet tid op \<Rightarrow> Some ([JCloseGetRet tid op (read oc (Get en tid) d)], d)
      | JMarginSet tid p \<Rightarrow> (let (r, d1) = attempt oc (SetMargin en tid p) d in Some ([JMarginPublish tid], d1))
      | JSettingsSave turn before next \<Rightarrow> (let (r, d1) = attempt oc (SaveSettings en next) d in Some ([JSettingsRet turn before next True r], d1))
      | JDeleteMark t a \<Rightarrow> (let (r, d1) = attempt oc (MarkDeleted en (tr_ID t) ROpen a) d
      in Some ([if mark_settled r then JDeleteEnd t (da_Reason a) (Inr ''deleted'') else JDeleteBack t a (write_error r)], d1))
      | JDeleteBack t a werr \<Rightarrow> Some ([JDeleteEnd t (da_Reason a) (reconciled werr (read oc (Get en (tr_ID t)) d))], d)
      | JDeleteGet tid a expected \<Rightarrow> Some (case deleteStored tid a expected (read oc (Get en tid) d) of Inr j \<Rightarrow> [j] | Inl _ \<Rightarrow> [], d)
      | JDeleteClosed tid st a \<Rightarrow> (let (r, d1) = attempt oc (MarkDeleted en tid RClosed a) d
      in Some ([if mark_settled r then JDeleteClosedEnd tid st (da_Reason a) (Inr ''deleted'') else JDeleteClosedBack tid st a (write_error r)], d1))
      | JDeleteClosedBack tid st a werr \<Rightarrow> Some ([JDeleteClosedEnd tid st (da_Reason a) (reconciled werr (read oc (Get en tid) d))], d)
      | _ \<Rightarrow> None)"

text \<open>The remote call a job waits for: the universe, REST quotes, the instrument dump, a basket margin; any answer may come.\<close>

datatype answer =
    AUniverse "(instrument list \<times> board_item list) reply"
  | AQuotes "rest_quote list reply"
  | AInstruments "instrument list reply"
  | AMargin "basket_margin reply"

definition rest_call :: "answer \<Rightarrow> job \<Rightarrow> job option" where
  "rest_call a j =
     (case a of
        AUniverse r \<Rightarrow> (case j of JRefresh f st today \<Rightarrow> Some (JRefreshLoaded f st today r) | _ \<Rightarrow> None)
      | AQuotes r \<Rightarrow> (case j of
            JRefreshSeed f st p ids byToken \<Rightarrow> Some (JRefreshSeeded f st p byToken r)
          | JRefreshCloses f st ids \<Rightarrow> Some (JRefreshClosed f st r)
          | _ \<Rightarrow> None)
      | AInstruments r \<Rightarrow> (case j of JRelink st \<Rightarrow> Some (JRelinkRet st r) | _ \<Rightarrow> None)
      | AMargin r \<Rightarrow> (case j of JMarginAsk tid snap n \<Rightarrow> Some (JMarginRet tid snap n r) | _ \<Rightarrow> None))"

definition landed :: "nat \<Rightarrow> synth \<Rightarrow> bool" where
  "landed f e \<longleftrightarrow> map_of (y_landed e) f \<noteq> None"

text \<open>The critical section a job runs next; none while it waits for a turn, a flight or an answer.\<close>

definition section_of :: "env \<Rightarrow> job \<Rightarrow> synth \<Rightarrow> (synth \<times> job list) option" where
  "section_of v j e =
     (case j of
        JLoadSettings fin turn \<Rightarrow> (if y_turnsDone e = turn then Some (let (e1, j) = settings_turn fin turn e in (e1, [j])) else None)
      | JLoadSettingsRet fin turn r \<Rightarrow> Some (let (e1, j) = settings_loaded fin turn r e in (e1, [j]))
      | JSaveLoadedRet fin turn r \<Rightarrow> Some (let (e1, j) = settings_saved fin turn r e in (e1, [j]))
      | JLoadOpenRet fin r \<Rightarrow> Some (let (e1, j) = open_loaded v fin r e in (e1, [j]))
      | JLoadClosedRet fin today r \<Rightarrow> Some (let (e1, j) = closed_loaded fin today r e in (e1, [j]))
      | JNeedIndex fin \<Rightarrow> Some (e, [index_needed fin e])
      | JEnsureRet fin r \<Rightarrow> Some (let (e1, j) = index_ensured fin r e in (e1, [j]))
      | JLoadEnd fin err \<Rightarrow> Some (let (e1, j) = load_end fin err e in (e1, case j of Some x \<Rightarrow> [x] | None \<Rightarrow> []))
      | JStartWait \<Rightarrow> Some (e, [start_wait e])
      | JStartRefresh fo \<Rightarrow> (if (case fo of Some f \<Rightarrow> landed f e | None \<Rightarrow> True) then Some (let (e1, j) = start_refresh v e in (e1, [j])) else None)
      | JStartEnd f \<Rightarrow> (if landed f e then Some (start_end v f e, []) else None)
      | JReloadRefresh fo \<Rightarrow> (if (case fo of Some f \<Rightarrow> landed f e | None \<Rightarrow> True)
      then Some (let (e1, j) = reload_refresh v e in (e1, case j of Some x \<Rightarrow> [x] | None \<Rightarrow> [])) else None)
      | JReloadEnd f \<Rightarrow> (if landed f e then Some (e, []) else None)
      | JRefreshNothing f \<Rightarrow> Some (flight_end f None e, [])
      | JRefreshLoaded f st today r \<Rightarrow> Some (let (e1, j) = refresh_loaded v f st today r e in (e1, [j]))
      | JRefreshSeeded f st p byToken r \<Rightarrow> Some (let (e1, j) = refresh_seeded v f st p byToken r e in (e1, [j]))
      | JRefreshClosed f st r \<Rightarrow> Some (let (e1, j) = refresh_closed v f st r e in (e1, [j]))
      | JFlightEnd f err \<Rightarrow> Some (flight_end f err e, [])
      | JAwaitFlight f \<Rightarrow> (if landed f e then Some (await_end f e, []) else None)
      | JRelinkRet st r \<Rightarrow> Some (relink_end v st r e, [])
      | JEnterRet t key ep r \<Rightarrow> Some (let (e1, j) = finishEnter v t key ep r e in (e1, case j of Some x \<Rightarrow> [x] | None \<Rightarrow> []))
      | JEnterLoadRet u r \<Rightarrow> Some (enterLoaded v u r e, [])
      | JCloseRet t c op r \<Rightarrow> Some (let (e1, j) = finishFinalize v t c op r e in (e1, case j of Some x \<Rightarrow> [x] | None \<Rightarrow> []))
      | JCloseGetRet tid op r \<Rightarrow> Some (finishElsewhere tid op r e, [])
      | JMarginRet tid snap n r \<Rightarrow> Some (let (e1, j) = margin_answer v tid snap n r e in (e1, [j]))
      | JMarginAgain tid snap n \<Rightarrow> Some (e, [margin_again tid snap n e])
      | JMarginFail tid snap err \<Rightarrow> Some (let (e1, j) = margin_failed tid snap err e in (e1, [j]))
      | JMarginPublish tid \<Rightarrow> Some (publish e, [JMarginEnd tid])
      | JMarginEnd tid \<Rightarrow> Some (margin_done tid e, [])
      | JSettings turn body \<Rightarrow> (if y_turnsDone e = turn then Some (let (e1, r) = settings_apply v turn body e in (e1, case r of Inr j \<Rightarrow> [j] | Inl _ \<Rightarrow> [])) else None)
      | JSettingsRet turn before next en r \<Rightarrow> Some (fst (settings_end v turn before next en r e), [])
      | JDeleteEnd t reason outc \<Rightarrow> Some (fst (deleteOpen_end v t outc e), [])
      | JDeleteAlready tid st reason \<Rightarrow> Some (fst (deleteAlready_end v tid st e), [])
      | JDeleteClosedEnd tid st reason outc \<Rightarrow> Some (fst (deleteClosed_end v tid outc e), [])
      | _ \<Rightarrow> None)"

text \<open>What another process can do to the table.\<close>

datatype foreign =
    FInsert trade | FClose trade | FMargin string margin_patch | FDelete string row_status delete_audit | FSettings settings | FEnsure

fun foreign_write :: "foreign \<Rightarrow> table \<Rightarrow> table" where
  "foreign_write (FInsert t) d = snd (InsertOpen True t d)"
| "foreign_write (FClose t) d = snd (Close True (t\<lparr>tr_Status := TClosed\<rparr>) d)"
| "foreign_write (FMargin tid p) d = snd (SetMargin True tid p d)"
| "foreign_write (FDelete tid from a) d = snd (MarkDeleted True tid from a d)"
| "foreign_write (FSettings s) d = snd (SaveSettings True s d)"
| "foreign_write FEnsure d = snd (EnsureReady True d)"

section \<open>Steps and runs\<close>

fun perform :: "effect \<Rightarrow> sys \<Rightarrow> sys" where
  "perform (ESetTokens ts) s = s\<lparr>declared := declared s @ [ts]\<rparr>"
| "perform (ESpawn j) s = s\<lparr>jobs := add_mset j (jobs s)\<rparr>"

inductive synth_step :: "(nat \<Rightarrow> string) \<Rightarrow> sys \<Rightarrow> sys \<Rightarrow> bool" for newID where
  Api: "api newID v c (eng s) = (e, js) \<Longrightarrow> synth_step newID s (s\<lparr>eng := e, jobs := jobs s + mset js\<rparr>)"
| Effect: "y_effects (eng s) = x # xs \<Longrightarrow> synth_step newID s (perform x (s\<lparr>eng := (eng s)\<lparr>y_effects := xs\<rparr>\<rparr>))"
| Statement: "jobs s = add_mset j M \<Longrightarrow> db_call oc en j (db s) = Some (js, d) \<Longrightarrow>
    synth_step newID s (s\<lparr>jobs := M + mset js, db := d\<rparr>)"
| Remote: "jobs s = add_mset j M \<Longrightarrow> rest_call a j = Some j' \<Longrightarrow> synth_step newID s (s\<lparr>jobs := add_mset j' M\<rparr>)"
| Section: "jobs s = add_mset j M \<Longrightarrow> section_of v j (eng s) = Some (e, js) \<Longrightarrow>
    synth_step newID s (s\<lparr>eng := e, jobs := M + mset js\<rparr>)"
| Foreign: "synth_step newID s (s\<lparr>db := foreign_write w (db s)\<rparr>)"

definition start_sys :: "config \<Rightarrow> string \<Rightarrow> table \<Rightarrow> sys" where
  "start_sys cfg today d = \<lparr>eng = newEngine cfg today, jobs = {#}, db = d, declared = []\<rparr>"

definition synth_reach :: "(nat \<Rightarrow> string) \<Rightarrow> sys \<Rightarrow> sys \<Rightarrow> bool" where
  "synth_reach newID s s' \<longleftrightarrow> (synth_step newID)\<^sup>*\<^sup>* s s'"

text \<open>All jobs: those running and those queued to be started.\<close>

definition spawned :: "effect list \<Rightarrow> job list" where
  "spawned es = List.map_filter (\<lambda>x. case x of ESpawn j \<Rightarrow> Some j | ESetTokens _ \<Rightarrow> None) es"

definition all_jobs :: "sys \<Rightarrow> job multiset" where
  "all_jobs s = jobs s + mset (spawned (y_effects (eng s)))"


end
