(* ===== verification/SynthFrame.thy ===== *)
theory SynthFrame
  imports SynthTable SynthSystem
begin

text \<open>
  What one critical section of the engine may do, whichever it is: \<open>good d h e e'\<close> says that
  going from \<open>e\<close> to \<open>e'\<close>, with a table \<open>d\<close>, keeps the positions rows of the table and drops one only when its row is
  settled, that the token sets queued end with the set the engine watches, and that every mark set
  (closing, entering, margin, re-linking, loading) comes with one queued job that holds it, and every mark cleared
  is one of \<open>h\<close>, given up by the job that ran. The relation composes, so each operation is a line.
\<close>

section \<open>Marks and the jobs that hold them\<close>

datatype mark = Closing string | Entering string | Pricing string | Relinking | Loading

definition mark_set :: "synth \<Rightarrow> mark set" where
  "mark_set e = Closing ` y_closing e \<union> Entering ` y_pendingEntries e \<union> Pricing ` y_marginInFlight e \<union>
     (if y_relinking e then {Relinking} else {}) \<union> (if y_loading e then {Loading} else {})"

definition holder :: "job \<Rightarrow> mark multiset" where
  "holder j =
     (case j of
        JClose t c op \<Rightarrow> {#Closing (tr_ID t)#} | JCloseRet t c op r \<Rightarrow> {#Closing (tr_ID t)#}
      | JCloseGet tid op \<Rightarrow> {#Closing tid#} | JCloseGetRet tid op r \<Rightarrow> {#Closing tid#}
      | JDeleteMark t a \<Rightarrow> {#Closing (tr_ID t)#} | JDeleteBack t a w \<Rightarrow> {#Closing (tr_ID t)#}
      | JDeleteEnd t reason r \<Rightarrow> {#Closing (tr_ID t)#}
      | JEnter t key ep \<Rightarrow> {#Entering (tr_Underlying t)#} | JEnterRet t key ep r \<Rightarrow> {#Entering (tr_Underlying t)#}
      | JEnterLoad u \<Rightarrow> {#Entering u#} | JEnterLoadRet u r \<Rightarrow> {#Entering u#}
      | JMarginAsk tid p n \<Rightarrow> {#Pricing tid#} | JMarginRet tid p n r \<Rightarrow> {#Pricing tid#}
      | JMarginAgain tid p n \<Rightarrow> {#Pricing tid#} | JMarginFail tid p m \<Rightarrow> {#Pricing tid#}
      | JMarginSet tid p \<Rightarrow> {#Pricing tid#} | JMarginPublish tid \<Rightarrow> {#Pricing tid#} | JMarginEnd tid \<Rightarrow> {#Pricing tid#}
      | JRelink st \<Rightarrow> {#Relinking#} | JRelinkRet st r \<Rightarrow> {#Relinking#}
      | JLoadSettings fin n \<Rightarrow> {#Loading#} | JAskSettings fin n \<Rightarrow> {#Loading#} | JLoadSettingsRet fin n r \<Rightarrow> {#Loading#}
      | JSaveLoaded fin n s \<Rightarrow> {#Loading#} | JSaveLoadedRet fin n r \<Rightarrow> {#Loading#} | JLoadOpen fin \<Rightarrow> {#Loading#}
      | JLoadOpenRet fin r \<Rightarrow> {#Loading#} | JLoadClosed fin day \<Rightarrow> {#Loading#} | JLoadClosedRet fin day r \<Rightarrow> {#Loading#}
      | JNeedIndex fin \<Rightarrow> {#Loading#} | JEnsure fin \<Rightarrow> {#Loading#} | JEnsureRet fin r \<Rightarrow> {#Loading#} | JLoadEnd fin m \<Rightarrow> {#Loading#}
      | _ \<Rightarrow> {#})"

definition held :: "job multiset \<Rightarrow> mark multiset" where
  "held M = sum_mset (image_mset holder M)"

lemma held_simps [simp]: "held {#} = {#}" "held (add_mset j M) = holder j + held M" "held (M + N) = held M + held N"
  by (simp_all add: held_def)

definition job_ok :: "table \<Rightarrow> job \<Rightarrow> bool" where
  "job_ok d j =
     (case j of
        JLoadOpenRet fin r \<Rightarrow> (\<forall>rows. r = Inr rows \<longrightarrow> tr_ID ` set rows \<subseteq> row_ids d)
      | JEnterLoadRet u r \<Rightarrow> (\<forall>rows. r = Inr rows \<longrightarrow> tr_ID ` set rows \<subseteq> row_ids d)
      | JEnterRet t key ep r \<Rightarrow> r = Inr False \<longrightarrow> tr_ID t \<in> row_ids d
      | JClose t c op \<Rightarrow> tr_ID t \<in> row_ids d \<and> tr_ID c = tr_ID t \<and> tr_Status c = TClosed
      | JCloseRet t c op r \<Rightarrow> (\<forall>b. r = Inr b \<longrightarrow> settled (tr_ID t) d)
      | JDeleteMark t a \<Rightarrow> tr_ID t \<in> row_ids d
      | JDeleteBack t a w \<Rightarrow> tr_ID t \<in> row_ids d
      | JDeleteEnd t reason r \<Rightarrow> r = Inr ''deleted'' \<longrightarrow> settled (tr_ID t) d
      | _ \<Rightarrow> True)"

section \<open>The frame\<close>

abbreviation pos_ids :: "synth \<Rightarrow> string set" where
  "pos_ids e \<equiv> fst ` set (y_positions e)"

definition eng_ok :: "table \<Rightarrow> synth \<Rightarrow> bool" where
  "eng_ok d e \<longleftrightarrow> finite (mark_set e) \<and> distinct (map fst (y_positions e)) \<and>
     list_all (\<lambda>(i, t). i = tr_ID t \<and> i \<in> row_ids d) (y_positions e) \<and>
     (y_namespaceStale e \<longrightarrow> y_watched e = [])"

fun token_sets :: "effect list \<Rightarrow> token list list" where
  "token_sets [] = []"
| "token_sets (ESetTokens ts # xs) = ts # token_sets xs"
| "token_sets (ESpawn j # xs) = token_sets xs"

definition good :: "table \<Rightarrow> mark multiset \<Rightarrow> synth \<Rightarrow> synth \<Rightarrow> bool" where
  "good d h e e' \<longleftrightarrow> (eng_ok d e \<longrightarrow>
     (\<exists>fx. y_effects e' = y_effects e @ fx \<and> eng_ok d e' \<and>
        (\<forall>tid \<in> pos_ids e. tid \<in> pos_ids e' \<or> settled tid d) \<and>
        list_all (job_ok d) (spawned fx) \<and>
        mset_set (mark_set e') + h = mset_set (mark_set e) + held (mset (spawned fx)) \<and>
        y_watched e' = last (y_watched e # token_sets fx)))"

lemma spawned_simps [simp]: "spawned [] = []" "spawned (ESpawn j # xs) = j # spawned xs" "spawned (ESetTokens ts # xs) = spawned xs"
  "spawned (xs @ ys) = spawned xs @ spawned ys"
  by (simp_all add: spawned_def map_filter_simps List.map_filter_def)

lemma token_sets_append [simp]: "token_sets (xs @ ys) = token_sets xs @ token_sets ys"
  by (induction xs rule: token_sets.induct) simp_all

lemma good_cond: "(eng_ok d e \<Longrightarrow> good d h e e') \<Longrightarrow> good d h e e'"
  by (simp add: good_def)

lemma good_trans [trans]:
  assumes "good d h e e1" "good d h' e1 e2"
  shows "good d (h + h') e e2"
proof (rule good_cond)
  assume "eng_ok d e"
  then obtain fx where a: "y_effects e1 = y_effects e @ fx" "eng_ok d e1" "\<forall>tid \<in> pos_ids e. tid \<in> pos_ids e1 \<or> settled tid d"
      "list_all (job_ok d) (spawned fx)" "mset_set (mark_set e1) + h = mset_set (mark_set e) + held (mset (spawned fx))"
      "y_watched e1 = last (y_watched e # token_sets fx)"
    using assms(1) unfolding good_def by blast
  from a(2) obtain gx where b: "y_effects e2 = y_effects e1 @ gx" "eng_ok d e2" "\<forall>tid \<in> pos_ids e1. tid \<in> pos_ids e2 \<or> settled tid d"
      "list_all (job_ok d) (spawned gx)" "mset_set (mark_set e2) + h' = mset_set (mark_set e1) + held (mset (spawned gx))"
      "y_watched e2 = last (y_watched e1 # token_sets gx)"
    using assms(2) unfolding good_def by blast
  have m: "mset_set (mark_set e2) + (h + h') = mset_set (mark_set e) + held (mset (spawned (fx @ gx)))"
    using a(5) b(5) by (metis (no_types, lifting) add.assoc add.commute held_simps(3) mset_append spawned_simps(4))
  have w: "y_watched e2 = last (y_watched e # token_sets (fx @ gx))"
    using a(6) b(6) by (cases "token_sets gx = []") auto
  have "y_effects e2 = y_effects e @ (fx @ gx)" using a(1) b(1) by simp
  moreover have "\<forall>tid \<in> pos_ids e. tid \<in> pos_ids e2 \<or> settled tid d" using a(3) b(3) by blast
  moreover have "list_all (job_ok d) (spawned (fx @ gx))" using a(4) b(4) by simp
  ultimately show "good d (h + h') e e2" unfolding good_def using b(2) m w by blast
qed

lemma good_then [trans]: "good d {#} e e1 \<Longrightarrow> good d {#} e1 e2 \<Longrightarrow> good d {#} e e2"
  using good_trans [of d "{#}" e e1 "{#}" e2] by simp

text \<open>Nothing the frame speaks of changes.\<close>

lemma good_same:
  assumes "y_effects e' = y_effects e" "y_positions e' = y_positions e" "y_watched e' = y_watched e" "mark_set e' = mark_set e"
    "y_namespaceStale e' \<longrightarrow> y_namespaceStale e"
  shows "good d {#} e e'"
  unfolding good_def using assms by (intro impI exI [of _ "[]"]) (simp add: eng_ok_def)

lemma good_refl [simp]: "good d {#} e e"
  by (rule good_same) simp_all

lemma good_fold:
  assumes "\<And>x e. x \<in> set xs \<Longrightarrow> good d {#} e (f x e)"
  shows "good d {#} e (fold f xs e)"
  using assms
proof (induction xs arbitrary: e)
  case (Cons x xs)
  have "good d {#} e (f x e)" by (rule Cons.prems) simp
  also have "good d {#} (f x e) (fold f xs (f x e))" by (rule Cons.IH) (rule Cons.prems, simp)
  finally show ?case by simp
qed simp

lemma good_if: "(b \<Longrightarrow> good d h e x) \<Longrightarrow> (\<not> b \<Longrightarrow> good d h e y) \<Longrightarrow> good d h e (if b then x else y)"
  by simp

lemma good_option:
  "(r = None \<Longrightarrow> good d h e x) \<Longrightarrow> (\<And>c. r = Some c \<Longrightarrow> good d h e (f c)) \<Longrightarrow> good d h e (case r of None \<Rightarrow> x | Some c \<Rightarrow> f c)"
  by (cases r) simp_all

text \<open>New values under the same ids.\<close>

lemma good_positions:
  assumes "y_effects e' = y_effects e" "y_watched e' = y_watched e" "mark_set e' = mark_set e"
    and "eng_ok d e \<Longrightarrow> distinct (map fst (y_positions e'))"
    and "eng_ok d e \<Longrightarrow> list_all (\<lambda>(i, t). i = tr_ID t \<and> i \<in> row_ids d) (y_positions e')"
    and "\<And>tid. eng_ok d e \<Longrightarrow> tid \<in> pos_ids e \<Longrightarrow> tid \<in> pos_ids e' \<or> settled tid d"
    and "y_namespaceStale e' \<longrightarrow> y_namespaceStale e"
  shows "good d {#} e e'"
proof (rule good_cond)
  assume ok: "eng_ok d e"
  have "eng_ok d e'" using ok assms(2,3,7) assms(4,5) [OF ok] by (simp add: eng_ok_def)
  moreover have "\<forall>tid \<in> pos_ids e. tid \<in> pos_ids e' \<or> settled tid d" using assms(6) [OF ok] by blast
  ultimately show "good d {#} e e'" unfolding good_def using assms(1,2,3) by (intro impI exI [of _ "[]"]) simp
qed

lemma good_go:
  assumes "holder j = {#}" "eng_ok d e \<Longrightarrow> job_ok d j"
  shows "good d {#} e (goLocked j e)"
proof -
  have "mark_set (goLocked j e) = mark_set e" "y_positions (goLocked j e) = y_positions e" "y_watched (goLocked j e) = y_watched e"
    "y_namespaceStale (goLocked j e) = y_namespaceStale e"
    by (simp_all add: goLocked_def mark_set_def)
  then show ?thesis
    unfolding good_def using assms by (intro impI exI [of _ "[ESpawn j]"]) (simp add: eng_ok_def goLocked_def)
qed

text \<open>A mark is set and a job queued that holds it.\<close>

lemma good_mark:
  assumes "y_effects e' = y_effects e @ [ESpawn j]" "y_positions e' = y_positions e" "y_watched e' = y_watched e"
    and "mark_set e' = insert m (mark_set e)" "m \<notin> mark_set e" "holder j = {#m#}" "eng_ok d e \<Longrightarrow> job_ok d j"
    and "y_namespaceStale e' \<longrightarrow> y_namespaceStale e"
  shows "good d {#} e e'"
  unfolding good_def using assms by (intro impI exI [of _ "[ESpawn j]"]) (simp add: eng_ok_def)

text \<open>A token set is declared.\<close>

lemma good_tokens:
  assumes "y_effects e' = y_effects e @ [ESetTokens ts]" "y_positions e' = y_positions e" "y_watched e' = ts" "mark_set e' = mark_set e"
    and "y_namespaceStale e' \<longrightarrow> ts = []"
  shows "good d {#} e e'"
  unfolding good_def using assms by (intro impI exI [of _ "[ESetTokens ts]"]) (simp add: eng_ok_def)

text \<open>A mark the job holds is cleared.\<close>

lemma good_release:
  assumes "y_effects e' = y_effects e" "y_positions e' = y_positions e" "y_watched e' = y_watched e"
    and "mark_set e' = mark_set e - {m}" "m \<in> mark_set e" "y_namespaceStale e' \<longrightarrow> y_namespaceStale e"
  shows "good d {#m#} e e'"
proof (rule good_cond)
  assume ok: "eng_ok d e"
  then have "mset_set (mark_set e - {m}) + {#m#} = mset_set (mark_set e)"
    using assms(5) by (simp add: eng_ok_def mset_set.remove)
  then show "good d {#m#} e e'" unfolding good_def using ok assms
    by (intro impI exI [of _ "[]"]) (simp add: eng_ok_def)
qed

lemma good_marks: "good d {#} e e' \<Longrightarrow> eng_ok d e \<Longrightarrow> m \<in> mark_set e \<Longrightarrow> m \<in> mark_set e'"
proof -
  assume g: "good d {#} e e'" "eng_ok d e" "m \<in> mark_set e"
  then obtain fx where a: "eng_ok d e'" "mset_set (mark_set e') = mset_set (mark_set e) + held (mset (spawned fx))"
    unfolding good_def by auto
  have "m \<in># mset_set (mark_set e')" unfolding a(2) using g(2,3) by (simp add: eng_ok_def)
  then show ?thesis using a(1) by (simp add: eng_ok_def)
qed

text \<open>A section that ends by clearing the mark its job held.\<close>

lemma good_done:
  assumes "good d {#} e e1" "m \<in> mark_set e"
    and "\<And>d e. m \<in> mark_set e \<Longrightarrow> good d {#m#} e (f e)"
  shows "good d {#m#} e (f e1)"
proof (rule good_cond)
  assume "eng_ok d e"
  then have "m \<in> mark_set e1" using good_marks assms(1,2) by blast
  then show "good d {#m#} e (f e1)" using good_trans [OF assms(1) assms(3)] by simp
qed


section \<open>Operations that touch no position\<close>

text \<open>Rules of this collection say that an operation may follow: \<open>good d {#} x e \<Longrightarrow> good d {#} x (f e)\<close>.\<close>

named_theorems good_ops

lemma setLastError_good [good_ops]: "good d {#} x e \<Longrightarrow> good d {#} x (setLastError m e)"
  by (erule good_then, rule good_same) (simp_all add: setLastError_def mark_set_def)

lemma broadcast_good [good_ops]: "good d {#} x e \<Longrightarrow> good d {#} x (broadcast f e)"
  by (erule good_then, rule good_same) (simp_all add: broadcast_def mark_set_def)

lemma publish_good [good_ops]: "good d {#} x e \<Longrightarrow> good d {#} x (publish e)"
  unfolding publish_def by (rule broadcast_good)

lemma cooldown_good [good_ops]: "good d {#} x e \<Longrightarrow> good d {#} x (cooldown v u e)"
  by (erule good_then, rule good_same) (simp_all add: cooldown_def mark_set_def)

lemma finishOp_good [good_ops]: "good d {#} x e \<Longrightarrow> good d {#} x (finishOp op r e)"
  by (erule good_then, rule good_same) (simp_all add: finishOp_def mark_set_def)

lemma closeFailed_good [good_ops]: "good d {#} x e \<Longrightarrow> good d {#} x (closeFailed v t m e)"
  unfolding closeFailed_def by (rule setLastError_good, erule good_then, rule good_same) (simp_all add: mark_set_def)

lemma entry_failed_good [good_ops]: "good d {#} x e \<Longrightarrow> good d {#} x (entry_failed v u m e)"
  unfolding entry_failed_def by (intro good_ops)

lemma endTurn_good [good_ops]: "good d {#} x e \<Longrightarrow> good d {#} x (endTurn n e)"
  by (erule good_then, rule good_same) (simp_all add: endTurn_def mark_set_def)

lemma applySubscriptions_good [good_ops]:
  assumes "good d {#} x e"
  shows "good d {#} x (applySubscriptions e)"
proof -
  have "good d {#} e (applySubscriptions e)"
  proof (cases "y_namespaceStale e \<or> same_tokens (wanted e) (y_watched e)")
    case True
    then show ?thesis by (auto simp: applySubscriptions_def Let_def)
  next
    case False
    then show ?thesis
      by (intro good_tokens [of _ _ "wanted e"]) (simp_all add: applySubscriptions_def Let_def setTokensLocked_def mark_set_def)
  qed
  with assms show ?thesis by (rule good_then)
qed

lemma dropWindows_good [good_ops]: "good d {#} x e \<Longrightarrow> good d {#} x (dropWindows k e)"
  by (erule good_then, rule good_same) (simp_all add: dropWindows_def mark_set_def)

lemma fitToBudget_good [good_ops]:
  assumes "good d {#} x e"
  shows "good d {#} x (fitToBudget b f e)"
proof -
  have "good d {#} e (e\<lparr>y_budgetGrowPending := True\<rparr>)" by (rule good_same) (simp_all add: mark_set_def)
  then have grow: "good d {#} x (e\<lparr>y_budgetGrowPending := True\<rparr>)" by (rule good_then [OF assms])
  show ?thesis unfolding fitToBudget_def Let_def
    by (auto intro!: good_ops assms grow)
qed

lemma recentre_good: "good d {#} e (fst (recentre v u (e, m)))"
  unfolding recentre_def Let_def
  by (auto split: option.splits intro!: good_same simp: mark_set_def)

lemma recentre_fold: "good d {#} e (fst (fold (recentre v) us (e, m)))"
proof (induction us arbitrary: e m)
  case (Cons u us)
  have "good d {#} e (fst (recentre v u (e, m)))" by (rule recentre_good)
  also have "good d {#} (fst (recentre v u (e, m))) (fst (fold (recentre v) us (recentre v u (e, m))))"
    using Cons.IH [of "fst (recentre v u (e, m))" "snd (recentre v u (e, m))"] by simp
  finally show ?case by simp
qed simp

lemma recentreAll_good [good_ops]:
  assumes "good d {#} x e"
  shows "good d {#} x (recentreAll v e)"
proof -
  have "good d {#} x (fst (fold (recentre v) (y_selection e) (e, False)))"
    by (rule good_then [OF assms recentre_fold])
  then show ?thesis unfolding recentreAll_def by (auto simp: case_prod_beta intro: good_ops)
qed

lemma observeStreaks_good [good_ops]: "good d {#} x e \<Longrightarrow> good d {#} x (observeStreaks out e)"
  by (erule good_then, rule good_same) (simp_all add: observeStreaks_def case_prod_beta mark_set_def)

lemma evaluate_rows: "good d {#} x e \<Longrightarrow> good d {#} x (e\<lparr>y_opportunities := os, y_evaluatedAt := n\<rparr>)"
  by (erule good_then, rule good_same) (simp_all add: mark_set_def)

lemma evaluate_good [good_ops]:
  assumes "good d {#} x e"
  shows "good d {#} x (evaluate v b e)"
proof -
  have off: "good d {#} x (e\<lparr>y_opportunities := [], y_eligibleStreak := []\<rparr>)"
    by (rule good_then [OF assms], rule good_same) (simp_all add: mark_set_def)
  show ?thesis unfolding evaluate_def Let_def
    by (cases "\<not> y_running e \<or> y_namespaceStale e"; cases "v_marketOpen v"; cases b)
      (simp_all add: off, (intro evaluate_rows good_ops assms)+)
qed

lemma refreshRows_good [good_ops]: "good d {#} x e \<Longrightarrow> good d {#} x (refreshRows v e)"
  unfolding refreshRows_def by (simp add: good_ops)

lemma OnTicks_good: "good d {#} e (OnTicks v ts e)"
  unfolding OnTicks_def Let_def by (auto intro!: good_same simp: mark_set_def)

lemma YieldToBox_good: "good d {#} e (YieldToBox v n e)"
  unfolding YieldToBox_def by (auto intro!: good_ops)

section \<open>Entries, adoption and margin\<close>

lemma positions_update: "list_all P al \<Longrightarrow> P (k, x) \<Longrightarrow> list_all P (AList.update k x al)"
  by (induction al) auto

lemma positions_delete: "list_all P al \<Longrightarrow> list_all P (AList.delete k al)"
  by (auto simp: AList.delete_eq list_all_iff)

lemma keys_delete: "fst ` set (AList.delete k al) = fst ` set al - {k}"
  by (induction al) auto

lemma eng_okD: "eng_ok d e \<Longrightarrow> t \<in> set (trades e) \<Longrightarrow> tr_ID t \<in> row_ids d"
  by (auto simp: eng_ok_def trades_def list_all_iff)

lemma eng_ok_pos: "eng_ok d e \<Longrightarrow> map_of (y_positions e) tid = Some t \<Longrightarrow> tr_ID t = tid \<and> tid \<in> row_ids d"
  by (drule map_of_SomeD) (auto simp: eng_ok_def list_all_iff)

text \<open>A position is added or given a new value.\<close>

lemma good_put:
  assumes "y_effects e' = y_effects e" "y_watched e' = y_watched e" "mark_set e' = mark_set e"
    and "y_positions e' = AList.update (tr_ID t) t (y_positions e)" "eng_ok d e \<Longrightarrow> tr_ID t \<in> row_ids d"
    and "y_namespaceStale e' \<longrightarrow> y_namespaceStale e"
  shows "good d {#} e e'"
proof (rule good_positions [OF assms(1,2,3)])
  assume ok: "eng_ok d e"
  show "distinct (map fst (y_positions e'))" using ok by (simp add: eng_ok_def assms(4) distinct_update)
  show "list_all (\<lambda>(i, t). i = tr_ID t \<and> i \<in> row_ids d) (y_positions e')"
    unfolding assms(4) by (rule positions_update) (use ok assms(5) in \<open>auto simp: eng_ok_def\<close>)
  show "tid \<in> pos_ids e' \<or> settled tid d" if "tid \<in> pos_ids e" for tid
    using that by (auto simp: assms(4) AList.dom_update)
qed (rule assms(6))

lemma opened_fields:
  assumes "OpenTradeFromOpportunity opp tid broker now day ov fv depth = Some t"
  shows "tr_ID t = tid" "tr_Underlying t = op_Underlying opp"
  using assms by (auto simp: OpenTradeFromOpportunity_def Let_def split: if_splits option.splits)

lemma enter_good:
  assumes "op_Underlying opp \<notin> y_pendingEntries e"
  shows "good d {#} e (enter newID v opp e)"
proof (cases "OpenTradeFromOpportunity opp (newID (y_idsUsed e)) (v_broker v) (v_now v) (v_today v)
    (RateVersion (OptionRates (y_cfg e))) (RateVersion (FuturesRates (y_cfg e))) (Some (depthFor e))")
  case None
  then show ?thesis using assms by (intro good_same) (simp_all add: enter_def Let_def mark_set_def)
next
  case (Some t)
  note u = opened_fields [OF Some]
  show ?thesis
    by (rule good_mark [of _ _ "JEnter t (op_Key opp) (y_namespaceEpoch e)" "Entering (op_Underlying opp)"])
      (use Some u assms in \<open>auto simp: enter_def Let_def goLocked_def mark_set_def holder_def job_ok_def\<close>)
qed

lemma enter_loop_good: "good d {#} e (enter_loop newID v b opps e)"
proof (induction opps arbitrary: e)
  case (Cons opp opps)
  have "good d {#} e (enter_loop newID v b opps (enter newID v opp e))" if "op_Underlying opp \<notin> y_pendingEntries e"
    using good_then [OF enter_good [OF that] Cons.IH] .
  then show ?case using Cons.IH by simp
qed simp

lemma autoEnter_good [good_ops]: "good d {#} x e \<Longrightarrow> good d {#} x (autoEnter newID v e)"
  unfolding autoEnter_def by (auto intro: good_then enter_loop_good)

lemma adopt_good:
  assumes "eng_ok d e \<Longrightarrow> tr_ID ` set rows \<subseteq> row_ids d"
  shows "good d {#} e (adopt rows e)"
proof (rule good_cond)
  assume ok: "eng_ok d e"
  have one: "good d {#} e (adopt_row t e)" if "t \<in> set rows" for t e
  proof -
    have "good d {#} e (e\<lparr>y_positions := AList.update (tr_ID t) t (y_positions e), y_unlinked := insert (tr_ID t) (y_unlinked e)\<rparr>)"
      by (intro good_put [of _ _ t]) (use assms [OF ok] that in \<open>auto simp: mark_set_def\<close>)
    then show ?thesis by (simp add: adopt_row_def)
  qed
  have "good d {#} e (fold adopt_row rows e)" by (rule good_fold) (rule one)
  moreover have "good d {#} y (y\<lparr>y_lastRelinkAt := 0\<rparr>)" for y by (rule good_same) (simp_all add: mark_set_def)
  ultimately show "good d {#} e (adopt rows e)" unfolding adopt_def Let_def by (auto intro: good_then)
qed

lemma captureMargin_good [good_ops]:
  assumes "good d {#} x e"
  shows "good d {#} x (captureMargin v tid e)"
proof -
  have "good d {#} e (captureMargin v tid e)"
  proof (cases "tid \<in> y_marginInFlight e")
    case False
    then have "good d {#} e (goLocked (JMarginAsk tid (marginOf t) 1) (e\<lparr>y_marginInFlight := insert tid (y_marginInFlight e)\<rparr>))" for t
      by (intro good_mark [of _ _ "JMarginAsk tid (marginOf t) 1" "Pricing tid"])
        (auto simp: goLocked_def mark_set_def holder_def job_ok_def)
    then show ?thesis by (simp add: captureMargin_def split: option.split)
  qed (simp add: captureMargin_def)
  with assms show ?thesis by (rule good_then)
qed

lemma applyMarginLocked_good [good_ops]:
  assumes "good d {#} x e"
  shows "good d {#} x (applyMarginLocked tid p e)"
proof -
  have "good d {#} e (applyMarginLocked tid p e)"
  proof (cases "map_of (y_positions e) tid")
    case None
    then show ?thesis by (intro good_same) (simp_all add: applyMarginLocked_def mark_set_def)
  next
    case (Some t)
    show ?thesis
    proof (rule good_cond)
      assume "eng_ok d e"
      then have "tr_ID t = tid" "tid \<in> row_ids d" using eng_ok_pos [OF _ Some] by auto
      then show "good d {#} e (applyMarginLocked tid p e)"
        by (intro good_put [of _ _ "applyMargin p t"]) (simp_all add: applyMarginLocked_def Some mark_set_def)
    qed
  qed
  with assms show ?thesis by (rule good_then)
qed

lemma backfill_one_good:
  assumes "tr_ID t \<in> row_ids d"
  shows "good d {#} e (backfill_one v t e)"
proof -
  let ?t = "t\<lparr>tr_MarginError := Some (''Opened on '' @ tr_Broker t @ ''; margin is only asked from the broker a trade was opened on.'')\<rparr>"
  have "good d {#} e (e\<lparr>y_positions := AList.update (tr_ID t) ?t (y_positions e)\<rparr>)"
    by (intro good_put [of _ _ ?t]) (simp_all add: mark_set_def assms)
  moreover have "good d {#} e (captureMargin v (tr_ID t) (e\<lparr>y_marginBackfills := b\<rparr>))" for b
    by (rule captureMargin_good, rule good_same) (simp_all add: mark_set_def)
  ultimately show ?thesis unfolding backfill_one_def Let_def by auto
qed

lemma backfillMargins_good [good_ops]:
  assumes "good d {#} x e"
  shows "good d {#} x (backfillMargins v e)"
proof -
  have "good d {#} e (backfillMargins v e)"
  proof (rule good_cond)
    assume ok: "eng_ok d e"
    have "good d {#} e (e\<lparr>y_lastMarginSweepAt := v_now v\<rparr>)" by (rule good_same) (simp_all add: mark_set_def)
    moreover have "good d {#} y (fold (backfill_one v) (trades e) y)" for y
      by (rule good_fold) (use eng_okD [OF ok] in \<open>blast intro: backfill_one_good\<close>)
    ultimately show "good d {#} e (backfillMargins v e)" unfolding backfillMargins_def by (auto intro: good_then)
  qed
  with assms show ?thesis by (rule good_then)
qed

lemma entry_open_good:
  assumes "eng_ok d e \<Longrightarrow> tr_ID t \<in> row_ids d"
  shows "good d {#} e (entry_open v t key epoch e)"
proof -
  let ?e1 = "e\<lparr>y_positions := AList.update (tr_ID t) t (y_positions e)\<rparr>"
  let ?e2 = "if epoch \<noteq> y_namespaceEpoch ?e1 then ?e1\<lparr>y_unlinked := insert (tr_ID t) (y_unlinked ?e1), y_lastRelinkAt := 0\<rparr> else ?e1"
  have "good d {#} e ?e2" by (rule good_put [of _ _ t]) (use assms in \<open>auto simp: mark_set_def\<close>)
  then have "good d {#} e (?e2\<lparr>y_eligibleStreak := AList.delete key (y_eligibleStreak ?e2)\<rparr>)"
    by (rule good_then, intro good_same) (simp_all add: mark_set_def)
  then show ?thesis unfolding entry_open_def Let_def by (intro good_ops)
qed

lemma pending_done_good: "Entering u \<in> mark_set e \<Longrightarrow> good d {#Entering u#} e (pending_done u e)"
  by (rule good_release) (auto simp: pending_done_def mark_set_def split: if_splits)

lemma closing_done_good: "Closing tid \<in> mark_set e \<Longrightarrow> good d {#Closing tid#} e (closing_done tid e)"
  by (rule good_release) (auto simp: closing_done_def mark_set_def split: if_splits)

lemma margin_done_good: "Pricing tid \<in> mark_set e \<Longrightarrow> good d {#Pricing tid#} e (margin_done tid e)"
  by (rule good_release) (auto simp: margin_done_def mark_set_def split: if_splits)

section \<open>Exits and deletes\<close>

lemma finalize_good:
  assumes "eng_ok d e \<Longrightarrow> tr_ID t \<in> row_ids d" "tr_ID cl = tr_ID t" "tr_Status cl = TClosed"
  shows "good d {#} e (fst (finalize v t cl e))"
proof -
  have n: "good d {#} e (e\<lparr>y_nextOp := Suc (y_nextOp e)\<rparr>)" by (rule good_same) (simp_all add: mark_set_def)
  have "good d {#} e (goLocked (JClose t cl op) (e\<lparr>y_nextOp := y_nextOp e + 1, y_closing := insert (tr_ID t) (y_closing e)\<rparr>))"
    if "tr_ID t \<notin> y_closing e" for op
    by (rule good_mark [of _ _ "JClose t cl op" "Closing (tr_ID t)"])
      (use assms that in \<open>auto simp: goLocked_def mark_set_def holder_def job_ok_def\<close>)
  then show ?thesis unfolding finalize_def Let_def by (auto intro!: good_ops n)
qed

lemma closed_fields:
  assumes "CloseTradeAtTouch t m r now day depth = Some c"
  shows "tr_ID c = tr_ID t" "tr_Status c = TClosed"
  using assms by (auto simp: CloseTradeAtTouch_def split: option.splits bool.splits)

lemma settled_fields: "tr_ID (SettleTradeAtExpiry t now day) = tr_ID t" "tr_Status (SettleTradeAtExpiry t now day) = TClosed"
  by (simp_all add: SettleTradeAtExpiry_def Let_def)

lemma exitStreak_good [good_ops]: "good d {#} x e \<Longrightarrow> good d {#} x (exitStreak t m e)"
  by (erule good_then, rule good_same) (simp_all add: exitStreak_def Let_def mark_set_def)

lemma metrics_good: "good d {#} e (e\<lparr>y_metrics := m\<rparr>)"
  by (rule good_same) (simp_all add: mark_set_def)

lemma monitor_one_good:
  assumes "tr_ID t \<in> row_ids d"
  shows "good d {#} e (monitor_one v t e)"
proof -
  let ?m = "priceExit v t (isLinked e (tr_ID t)) e"
  let ?e1 = "exitStreak t ?m (e\<lparr>y_metrics := AList.update (tr_ID t) ?m (y_metrics e)\<rparr>)"
  have s: "good d {#} e (fst (finalize v t (SettleTradeAtExpiry t (v_now v) (v_today v)) e))"
    by (rule finalize_good) (simp_all add: assms settled_fields)
  have e1: "good d {#} e ?e1" by (intro good_ops metrics_good)
  have "good d {#} e (fst (finalize v t c ?e1))"
    if "CloseTradeAtTouch t ?m (xm_Reason ?m) (v_now v) (v_today v) (Some (depthFor ?e1)) = Some c" for c
    by (rule good_then [OF e1 finalize_good]) (simp_all add: assms closed_fields [OF that])
  then show ?thesis unfolding monitor_one_def Let_def by (intro good_if good_option good_refl s e1)
qed

lemma monitorPositions_good [good_ops]:
  assumes "good d {#} x e"
  shows "good d {#} x (monitorPositions v e)"
proof -
  have "good d {#} e (monitorPositions v e)"
  proof (rule good_cond)
    assume "eng_ok d e"
    then show "good d {#} e (monitorPositions v e)" unfolding monitorPositions_def
      by (intro good_fold monitor_one_good eng_okD)
  qed
  with assms show ?thesis by (rule good_then)
qed

lemma forget_position_good:
  assumes "settled tid d" "good d {#} x e"
  shows "good d {#} x (forget_position tid e)"
proof -
  have "good d {#} e (forget_position tid e)"
    by (rule good_positions)
      (use assms(1) in \<open>auto simp: forget_position_def mark_set_def eng_ok_def AList.distinct_delete positions_delete keys_delete\<close>)
  with assms(2) show ?thesis by (rule good_then)
qed

lemma book_today_good [good_ops]: "good d {#} x e \<Longrightarrow> good d {#} x (book_today c e)"
  by (erule good_then, rule good_same) (simp_all add: book_today_def mark_set_def)

lemma closed_won_good [good_ops]: "good d {#} x e \<Longrightarrow> good d {#} x (closed_won v c e)"
  unfolding closed_won_def Let_def by (auto intro!: good_ops)

lemma CloseManually_good: "good d {#} e (fst (CloseManually v tid e))"
proof (cases "map_of (y_positions e) tid")
  case (Some t)
  let ?m = "priceExit v t True e"
  let ?e1 = "e\<lparr>y_metrics := AList.update tid ?m (y_metrics e)\<rparr>"
  have "good d {#} e (fst (finalize v t c ?e1))"
    if "CloseTradeAtTouch t ?m (Some ExitManual) (v_now v) (v_today v) (Some (depthFor ?e1)) = Some c" for c
    by (rule good_then [OF metrics_good finalize_good]) (use eng_ok_pos [of d ?e1 tid t] Some closed_fields [OF that] in auto)
  then show ?thesis using Some unfolding CloseManually_def Let_def
    by (auto simp: case_prod_beta metrics_good split: option.split)
qed (simp add: CloseManually_def)

lemma forgetClosed_good [good_ops]: "good d {#} x e \<Longrightarrow> good d {#} x (fst (forgetClosed tid e))"
  by (erule good_then, rule good_same) (simp_all add: forgetClosed_def Let_def mark_set_def)

lemma afterDelete_good [good_ops]: "good d {#} x e \<Longrightarrow> good d {#} x (afterDelete v tid from e)"
  unfolding afterDelete_def by (intro good_ops)

lemma forgetOpen_good:
  assumes "settled (tr_ID t) d" "good d {#} x e"
  shows "good d {#} x (forgetOpen v t e)"
proof -
  let ?e1 = "forget_position (tr_ID t) (e\<lparr>y_deletedIDs := insert (tr_ID t) (y_deletedIDs e)\<rparr>)"
  have "good d {#} e (e\<lparr>y_deletedIDs := insert (tr_ID t) (y_deletedIDs e)\<rparr>)" by (rule good_same) (simp_all add: mark_set_def)
  then have "good d {#} x ?e1" by (rule forget_position_good [OF assms(1) good_then [OF assms(2)]])
  then have "good d {#} x (?e1\<lparr>y_marginBackfills := AList.delete (tr_ID t) (y_marginBackfills ?e1)\<rparr>)"
    by (rule good_then, intro good_same) (simp_all add: mark_set_def)
  then show ?thesis unfolding forgetOpen_def Let_def by (intro good_ops)
qed

lemma DeleteTrade_good:
  assumes "DeleteTrade v tid reason actor expected e = (e', r)"
  shows "good d {#} e (case r of Inr j \<Rightarrow> goLocked j e' | Inl _ \<Rightarrow> e')"
proof (cases "map_of (y_positions e) tid")
  case None
  have "good d {#} e (goLocked (JDeleteGet tid a expected) e)" for a
    by (rule good_go) (simp_all add: holder_def job_ok_def)
  then show ?thesis using assms None by (auto simp: DeleteTrade_def Let_def split: if_splits)
next
  case (Some t)
  have "good d {#} e (goLocked (JDeleteMark t a) (e\<lparr>y_closing := insert tid (y_closing e)\<rparr>))" if "tid \<notin> y_closing e" for a
  proof (rule good_cond)
    assume "eng_ok d e"
    then have t: "tr_ID t = tid" "tid \<in> row_ids d" using eng_ok_pos [OF _ Some] by auto
    show "good d {#} e (goLocked (JDeleteMark t a) (e\<lparr>y_closing := insert tid (y_closing e)\<rparr>))"
      by (rule good_mark [of _ _ "JDeleteMark t a" "Closing tid"])
        (use t that in \<open>auto simp: goLocked_def mark_set_def holder_def job_ok_def\<close>)
  qed
  then show ?thesis using assms Some by (auto simp: DeleteTrade_def Let_def split: if_splits)
qed

section \<open>Universe, settings, loading and the loop\<close>

text \<open>The job that ran is replaced by one that holds the same marks.\<close>

lemma good_next:
  assumes "good d {#} x e" "holder j = h" "eng_ok d e \<Longrightarrow> job_ok d j"
  shows "good d h x (goLocked j e)"
proof -
  have g: "mark_set (goLocked j e) = mark_set e" "y_positions (goLocked j e) = y_positions e" "y_watched (goLocked j e) = y_watched e"
    "y_namespaceStale (goLocked j e) = y_namespaceStale e"
    by (simp_all add: goLocked_def mark_set_def)
  have "good d h e (goLocked j e)"
    unfolding good_def using assms(2,3) g by (intro impI exI [of _ "[ESpawn j]"]) (simp add: eng_ok_def goLocked_def)
  from good_trans [OF assms(1) this] show ?thesis by simp
qed

lemma refreshUniverse_good:
  assumes "good d {#} x e"
  shows "good d {#} x (fst (refreshUniverse v b e))"
proof -
  let ?f = "y_nextFlight e" and ?e = "e\<lparr>y_refreshing := Some (y_nextFlight e), y_nextFlight := y_nextFlight e + 1\<rparr>"
  have b: "good d {#} e (fst (beginRefresh v b ?f ?e))"
    by (rule good_same) (simp_all add: beginRefresh_def mark_set_def)
  have "good d {#} e (goLocked (snd (beginRefresh v b ?f ?e)) (fst (beginRefresh v b ?f ?e)))"
    by (rule good_then [OF b good_go]) (simp_all add: beginRefresh_def holder_def job_ok_def)
  then have "good d {#} e (fst (refreshUniverse v b e))"
    by (simp add: refreshUniverse_def Let_def case_prod_beta split: option.split)
  with assms show ?thesis by (rule good_then)
qed

lemma flight_end_good: "good d {#} e (flight_end f m e)"
  by (rule good_same) (simp_all add: flight_end_def mark_set_def)

lemma relinkPositions_good [good_ops]:
  assumes "good d {#} x e"
  shows "good d {#} x (relinkPositions all e)"
proof -
  have "good d {#} e (relinkPositions all e)"
  proof (rule good_positions)
    have k: "map fst (y_positions (relinkPositions all e)) = map fst (y_positions e)"
      by (simp add: relinkPositions_def Let_def comp_def case_prod_beta)
    show "distinct (map fst (y_positions (relinkPositions all e)))" if "eng_ok d e"
      using that by (simp only: k) (simp add: eng_ok_def)
    show "tid \<in> pos_ids (relinkPositions all e) \<or> settled tid d" if "tid \<in> pos_ids e" for tid
      using that k by (metis set_map)
    show "list_all (\<lambda>(i, t). i = tr_ID t \<and> i \<in> row_ids d) (y_positions (relinkPositions all e))" if "eng_ok d e"
      using that by (auto simp: relinkPositions_def Let_def eng_ok_def list_all_iff)
  qed (simp_all add: relinkPositions_def Let_def mark_set_def)
  with assms show ?thesis by (rule good_then)
qed

lemma relink_good [good_ops]:
  assumes "good d {#} x e"
  shows "good d {#} x (relink v e)"
proof -
  have "good d {#} e (relink v e)"
  proof (cases "y_relinking e")
    case False
    then show ?thesis
      by (intro good_mark [of _ _ "JRelink (stampOf v e)" Relinking])
        (auto simp: relink_def goLocked_def mark_set_def holder_def job_ok_def)
  qed (simp add: relink_def)
  with assms show ?thesis by (rule good_then)
qed

lemma relink_end_good: "Relinking \<in> mark_set e \<Longrightarrow> good d {#Relinking#} e (relink_end v st r e)"
proof -
  assume m: "Relinking \<in> mark_set e"
  let ?e1 = "case r of Inl _ \<Rightarrow> e
        | Inr all \<Rightarrow> if superseded v st e \<or> y_namespaceStale e \<or> v_switching v then e else applySubscriptions (relinkPositions all e)"
  have e1: "good d {#} e ?e1" by (cases r) (auto intro!: good_ops)
  have "good d' {#Relinking#} y (y\<lparr>y_relinking := False\<rparr>)" if "Relinking \<in> mark_set y" for d' y
    by (rule good_release) (use that in \<open>auto simp: mark_set_def split: if_splits\<close>)
  from good_done [OF e1 m this] show ?thesis by (simp add: relink_end_def)
qed

lemma install_windows_good: "good d {#} e (install_windows v p e)"
  unfolding install_windows_def Let_def by (rule fitToBudget_good, rule good_same) (simp_all add: mark_set_def)

lemma universeAt_good: "good d {#} x e \<Longrightarrow> good d {#} x (e\<lparr>y_universeAt := u\<rparr>)"
  "good d {#} x e \<Longrightarrow> good d {#} x (e\<lparr>y_closeViewPending := b, y_universeAt := u\<rparr>)"
  by (erule good_then, rule good_same; simp add: mark_set_def)+

lemma refresh_windows_good:
  assumes "good d {#} x e"
  shows "good d {#} x (goLocked (snd (refresh_windows v f st p e)) (fst (refresh_windows v f st p e)))"
proof -
  have w: "good d {#} x (install_windows v p e)" by (rule good_then [OF assms install_windows_good])
  show ?thesis unfolding refresh_windows_def Let_def
    by (auto intro!: good_next universeAt_good w simp: holder_def job_ok_def)
qed

lemma refresh_loaded_good:
  "good d {#} e (goLocked (snd (refresh_loaded v f st day r e)) (fst (refresh_loaded v f st day r e)))"
proof (cases r)
  case (Inr p)
  obtain all board where p: "p = (all, board)" by (cases p)
  let ?e1 = "relinkPositions all (e\<lparr>y_chains := IndexSyntheticChains all day, y_board := fold (\<lambda>b. AList.update (bi_Symbol b) b) board []\<rparr>)"
  have e1: "good d {#} e ?e1" by (rule relinkPositions_good, rule good_same) (simp_all add: mark_set_def)
  have plain: "good d {#} e (goLocked j ?e1)" if "holder j = {#}" "job_ok d j" for j
    by (rule good_next [OF e1]) (simp_all add: that)
  have same: "good d {#} e (goLocked j e)" if "holder j = {#}" "job_ok d j" for j
    by (rule good_next [OF good_refl]) (simp_all add: that)
  show ?thesis unfolding Inr p refresh_loaded_def Let_def sum.case prod.case
    by (auto intro!: plain same refresh_windows_good e1 simp: holder_def job_ok_def)
next
  case (Inl m)
  then show ?thesis by (auto simp: refresh_loaded_def holder_def job_ok_def intro!: good_next)
qed

lemma refresh_seeded_good:
  "good d {#} e (goLocked (snd (refresh_seeded v f st p bt r e)) (fst (refresh_seeded v f st p bt r e)))"
proof -
  have q: "good d {#} e (e\<lparr>y_seededRef := s\<rparr>)" for s by (rule good_same) (simp_all add: mark_set_def)
  let ?e1 = "case r of Inl _ \<Rightarrow> setLastError ''Could not fetch futures prices to centre the strike windows.'' e
      | Inr qs \<Rightarrow> if superseded v st e then e else e\<lparr>y_seededRef := fold (store_seed bt) qs (y_seededRef e)\<rparr>"
  have "good d {#} e ?e1" by (cases r) (auto intro!: good_ops q)
  then show ?thesis unfolding refresh_seeded_def Let_def
    by (simp add: refresh_windows_good good_next holder_def job_ok_def)
qed

lemma refresh_closed_good:
  "good d {#} e (goLocked (snd (refresh_closed v f st r e)) (fst (refresh_closed v f st r e)))"
proof -
  have q: "good d {#} e (store_closes qs e)" for qs by (rule good_same) (simp_all add: store_closes_def Let_def mark_set_def)
  let ?e1 = "case r of Inl _ \<Rightarrow> e | Inr qs \<Rightarrow> if superseded v st e then e else store_closes qs e"
  have "good d {#} e ?e1" by (cases r) (auto intro!: q)
  then show ?thesis unfolding refresh_closed_def Let_def
    by (simp add: universeAt_good good_next holder_def job_ok_def)
qed

lemma settings_good: "good d {#} x e \<Longrightarrow> good d {#} x (e\<lparr>y_settings := z\<rparr>)"
  "good d {#} x e \<Longrightarrow> good d {#} x (e\<lparr>y_settingsDirty := b\<rparr>)" "good d {#} x e \<Longrightarrow> good d {#} x (e\<lparr>y_settingsLoaded := b\<rparr>)"
  "good d {#} x e \<Longrightarrow> good d {#} x (e\<lparr>y_settingsDirty := b, y_settingsLoaded := c\<rparr>)"
  by (erule good_then, rule good_same; simp add: mark_set_def)+

lemma takeTurn_good: "good d {#} x e \<Longrightarrow> good d {#} x (fst (takeTurn e))"
  by (erule good_then, rule good_same) (simp_all add: takeTurn_def mark_set_def)

lemma settings_apply_good:
  "good d {#} e (case snd (settings_apply v turn body e) of Inr j \<Rightarrow> goLocked j (fst (settings_apply v turn body e))
     | Inl _ \<Rightarrow> fst (settings_apply v turn body e))"
proof -
  have n: "good d {#} e (goLocked j (e\<lparr>y_settings := z\<rparr>))" if "holder j = {#}" "job_ok d j" for j z
    by (rule good_next [OF settings_good(1) [OF good_refl]]) (simp_all add: that)
  show ?thesis unfolding settings_apply_def
    by (auto simp: holder_def job_ok_def split: sum.split intro!: good_ops n)
qed

lemma settings_end_good: "good d {#} e (fst (settings_end v turn before nx en r e))"
proof -
  have "good d {#} e (endTurn turn (publish (evaluate v False (e\<lparr>y_settingsDirty := b\<rparr>))))" for b
    by (intro good_ops settings_good good_refl)
  moreover have "good d {#} e (endTurn turn (e\<lparr>y_settings := before\<rparr>))" by (intro good_ops settings_good good_refl)
  ultimately show ?thesis by (auto simp: settings_end_def Let_def split: sum.split bool.split)
qed

lemma SetStrikeLevel_good: "good d {#} e (fst (SetStrikeLevel v l e))"
proof -
  let ?step = "\<lambda>n u e. case map_of (y_windows e) u of None \<Rightarrow> e
      | Some w \<Rightarrow> (case rebuilt v (refPriceFor e w) u e of Some nx \<Rightarrow> e\<lparr>y_windows := AList.update u nx (y_windows e)\<rparr> | None \<Rightarrow> e)"
  have l: "good d {#} e (e\<lparr>y_strikeLevel := n\<rparr>)" for n by (rule good_same) (simp_all add: mark_set_def)
  have w: "good d {#} y (y\<lparr>y_windows := ws\<rparr>)" for y ws by (rule good_same) (simp_all add: mark_set_def)
  have one: "good d {#} y (?step n u y)" for n u y by (intro good_option good_refl w)
  have "good d {#} e (fold (?step n) us (e\<lparr>y_strikeLevel := n\<rparr>))" for n us
    by (rule good_then [OF l good_fold]) (rule one)
  then show ?thesis unfolding SetStrikeLevel_def Let_def
    by (auto intro!: good_ops l simp: option.case_eq_if)
qed

lemma beginLoad_good:
  assumes "good d {#} x e"
  shows "good d {#} x (case snd (beginLoad v fin e) of Some j \<Rightarrow> goLocked j (fst (beginLoad v fin e)) | None \<Rightarrow> fst (beginLoad v fin e))"
proof -
  have a: "good d {#} e (e\<lparr>y_lastLoadAttemptAt := n\<rparr>)" for n by (rule good_same) (simp_all add: mark_set_def)
  have m: "good d {#} e (goLocked j (e\<lparr>y_lastLoadAttemptAt := n, y_loading := True\<rparr>))"
    "good d {#} e (goLocked j (e\<lparr>y_lastLoadAttemptAt := n, y_loading := True, y_nextTurn := k\<rparr>))"
    if "\<not> y_loading e" "holder j = {#Loading#}" "job_ok d j" for j n k
    by (rule good_mark [of _ _ j Loading]; use that in \<open>auto simp: goLocked_def mark_set_def\<close>)+
  have "good d {#} e (case snd (beginLoad v fin e) of Some j \<Rightarrow> goLocked j (fst (beginLoad v fin e)) | None \<Rightarrow> fst (beginLoad v fin e))"
    unfolding beginLoad_def Let_def takeTurn_def by (auto intro!: a m simp: holder_def job_ok_def)
  with assms show ?thesis by (rule good_then)
qed

lemma retryLoad_good [good_ops]: "good d {#} x e \<Longrightarrow> good d {#} x (retryLoad v e)"
  using beginLoad_good [of d x e v Booted] unfolding retryLoad_def by (auto simp: case_prod_beta split: option.splits)

lemma adopt_job_good:
  assumes "job_ok d (JLoadOpenRet fin (Inr rows)) \<or> job_ok d (JEnterLoadRet u (Inr rows))"
  shows "good d {#} e (adopt rows e)"
  by (rule adopt_good) (use assms in \<open>simp add: job_ok_def\<close>)

lemma rollDay_good [good_ops]: "good d {#} x e \<Longrightarrow> good d {#} x (rollDay v e)"
  by (erule good_then, rule good_same) (simp_all add: rollDay_def mark_set_def)

lemma noteMarket_good [good_ops]: "good d {#} x e \<Longrightarrow> good d {#} x (noteMarket v e)"
  by (erule good_then, rule good_same) (simp_all add: noteMarket_def mark_set_def)

lemma fitTick_good [good_ops]: "good d {#} x e \<Longrightarrow> good d {#} x (fitTick v e)"
  unfolding fitTick_def by (auto intro!: good_ops)

lemma maybeRefreshUniverse_good [good_ops]:
  assumes "good d {#} x e"
  shows "good d {#} x (maybeRefreshUniverse v e)"
proof -
  have r: "good d {#} x (goLocked (JAwaitFlight (snd (refreshUniverse v False y))) (fst (refreshUniverse v False y)))" if "good d {#} x y" for y
    by (rule good_next [OF refreshUniverse_good [OF that]]) (simp_all add: holder_def job_ok_def)
  show ?thesis unfolding maybeRefreshUniverse_def Let_def
    by (auto simp: case_prod_beta intro!: good_ops assms r)
qed

lemma tick_good: "good d {#} e (tick newID v e)"
  unfolding tick_def by (intro good_ops good_refl)

lemma ensureLoop_good: "good d {#} e (ensureLoop (e\<lparr>y_booted := b\<rparr>))" "good d {#} e (ensureLoop (e\<lparr>y_running := b, y_lastError := m\<rparr>))"
  by (rule good_same; simp add: ensureLoop_def mark_set_def)+

lemma Stop_good: "good d {#} e (Stop e)"
  unfolding Stop_def by (rule publish_good, rule applySubscriptions_good, rule good_same) (simp_all add: mark_set_def)

lemma Dispose_good: "good d {#} e (Dispose e)"
  unfolding Dispose_def by (rule good_then [OF Stop_good good_same]) (simp_all add: mark_set_def)

lemma InvalidateNamespace_good: "good d {#} e (InvalidateNamespace e)"
  by (rule good_tokens [of _ _ "[]"]) (simp_all add: InvalidateNamespace_def setTokensLocked_def mark_set_def)

lemma streams_good: "good d {#} e (fst (addSSEClient e))" "good d {#} e (removeSSEClient n e)" "good d {#} e (fst (takeFrames n e))"
  "good d {#} e (InvalidateBooks e)"
  by (rule good_same; simp add: addSSEClient_def removeSSEClient_def takeFrames_def InvalidateBooks_def Let_def mark_set_def split: option.split)+

section \<open>Every call and every critical section\<close>

definition started :: "job list \<Rightarrow> synth \<Rightarrow> synth" where
  "started js e = e\<lparr>y_effects := y_effects e @ map ESpawn js\<rparr>"

lemma started_simps [simp]: "started [] e = e" "started [j] e = goLocked j e"
  by (simp_all add: started_def goLocked_def)

theorem api_good:
  assumes "api newID v c e = (e', js)"
  shows "good d {#} e (started js e')"
proof (cases c)
  case CBoot
  have "good d {#} e (started (snd (api newID v CBoot e)) (fst (api newID v CBoot e)))"
    using beginLoad_good [OF ensureLoop_good(1) [of d e True], of v Booted]
    by (auto simp: Boot_def case_prod_beta split: option.splits)
  with assms CBoot show ?thesis by simp
next
  case CStart
  let ?e = "ensureLoop (e\<lparr>y_running := True, y_lastError := None\<rparr>)"
  have w: "good d {#} e (goLocked JStartWait (fst (beginLoad v Starting ?e)))" if "snd (beginLoad v Starting ?e) = None"
    by (rule good_next) (use beginLoad_good [OF ensureLoop_good(2) [of d e None True], of v Starting] that in \<open>auto simp: holder_def job_ok_def\<close>)
  have "good d {#} e (started (snd (api newID v CStart e)) (fst (api newID v CStart e)))"
    using beginLoad_good [OF ensureLoop_good(2) [of d e None True], of v Starting] w
    by (auto simp: Start_def Let_def case_prod_beta split: option.splits)
  with assms CStart show ?thesis by simp
next
  case CReload
  have "good d {#} e (goLocked j (e\<lparr>y_namespaceEpoch := n\<rparr>))" if "holder j = {#}" "job_ok d j" for n j
    by (rule good_next [OF good_same]) (simp_all add: mark_set_def that)
  with assms CReload show ?thesis by (auto simp: ReloadUniverse_def holder_def job_ok_def)
next
  case (CUpdate body)
  have "good d {#} e (goLocked j (fst (takeTurn e)))" if "holder j = {#}" "job_ok d j" for j
    by (rule good_next [OF takeTurn_good [OF good_refl]]) (simp_all add: that)
  with assms CUpdate show ?thesis by (auto simp: UpdateSettings_def case_prod_beta holder_def job_ok_def)
next
  case (CDelete tid reason actor expected)
  obtain e1 r where r: "DeleteTrade v tid reason actor expected e = (e1, r)" by (cases "DeleteTrade v tid reason actor expected e")
  from DeleteTrade_good [OF this, of d] show ?thesis
    using assms CDelete r by (cases r) auto
qed (use assms in \<open>auto simp: tick_good OnTicks_good Stop_good Dispose_good InvalidateNamespace_good YieldToBox_good SetStrikeLevel_good
  CloseManually_good streams_good publish_good\<close>)

text \<open>A section run by a job: the marks it held are passed on or cleared.\<close>

lemma good_handover:
  assumes "good d {#} e e'" "holder j = h" "job_ok d j"
  shows "good d h e (started [j] e')"
  by (simp add: good_next [OF assms(1)] assms(2,3))

lemma good_free: "good d {#} e e' \<Longrightarrow> good d {#} e (started [] e')"
  by simp

lemma load_end_good:
  assumes "Loading \<in> mark_set e"
  shows "good d {#Loading#} e (started (case snd (load_end fin m e) of Some j \<Rightarrow> [j] | None \<Rightarrow> []) (fst (load_end fin m e)))"
proof -
  let ?e1 = "case m of Some x \<Rightarrow> setLastError (''Paper-trade storage is not ready: '' @ x) e | None \<Rightarrow> e"
  have e1: "good d {#} e ?e1" by (cases m) (auto intro!: good_ops)
  have "good d' {#Loading#} y (y\<lparr>y_loading := False\<rparr>)" if "Loading \<in> mark_set y" for d' y
    by (rule good_release) (use that in \<open>auto simp: mark_set_def split: if_splits\<close>)
  from good_done [OF e1 assms this] have g: "good d {#Loading#} e (?e1\<lparr>y_loading := False\<rparr>)" .
  have "good d {#Loading#} e (goLocked JStartWait (?e1\<lparr>y_loading := False\<rparr>))"
    using good_trans [OF g good_go] by (simp add: holder_def job_ok_def)
  with g show ?thesis by (simp add: load_end_def Let_def)
qed

lemma finishEnter_good:
  assumes "job_ok d (JEnterRet t key ep r)" "Entering (tr_Underlying t) \<in> mark_set e"
  shows "good d {#Entering (tr_Underlying t)#} e
    (started (case snd (finishEnter v t key ep r e) of Some j \<Rightarrow> [j] | None \<Rightarrow> []) (fst (finishEnter v t key ep r e)))"
proof -
  have fin: "good d {#Entering (tr_Underlying t)#} e (pending_done (tr_Underlying t) e1)" if "good d {#} e e1" for e1
    by (rule good_done [OF that assms(2)]) (rule pending_done_good)
  have c: "good d {#} e (cooldown v u e)" for u by (intro good_ops good_refl)
  show ?thesis
  proof (cases r)
    case (Inl m)
    then show ?thesis by (simp add: finishEnter_def Let_def fin entry_failed_good)
  next
    case (Inr b)
    show ?thesis
    proof (cases b)
      case True
      then show ?thesis
        using good_handover [OF c, of "JEnterLoad (tr_Underlying t)"] by (simp add: Inr finishEnter_def Let_def holder_def job_ok_def)
    next
      case False
      then have "tr_ID t \<in> row_ids d" using assms(1) Inr by (simp add: job_ok_def)
      then have "good d {#} e (entry_open v t key ep (cooldown v (tr_Underlying t) e))"
        by (intro good_then [OF c entry_open_good])
      then show ?thesis using False by (simp add: Inr finishEnter_def Let_def fin)
    qed
  qed
qed

lemma enterLoaded_good:
  assumes "job_ok d (JEnterLoadRet u r)" "Entering u \<in> mark_set e"
  shows "good d {#Entering u#} e (enterLoaded v u r e)"
proof -
  have "good d {#} e (case r of Inl err \<Rightarrow> entry_failed v u err e | Inr rows \<Rightarrow> adopt rows e)"
    using assms(1) by (cases r) (auto intro!: good_ops adopt_job_good)
  then show ?thesis unfolding enterLoaded_def by (rule good_done [OF _ assms(2)]) (rule pending_done_good)
qed

lemma finishFinalize_good:
  assumes "job_ok d (JCloseRet t c op r)" "Closing (tr_ID t) \<in> mark_set e"
  shows "good d {#Closing (tr_ID t)#} e
    (started (case snd (finishFinalize v t c op r e) of Some j \<Rightarrow> [j] | None \<Rightarrow> []) (fst (finishFinalize v t c op r e)))"
proof -
  have fin: "good d {#Closing (tr_ID t)#} e (closing_done (tr_ID t) e1)" if "good d {#} e e1" for e1
    by (rule good_done [OF that assms(2)]) (rule closing_done_good)
  show ?thesis
  proof (cases r)
    case (Inl m)
    then show ?thesis by (simp add: finishFinalize_def Let_def fin finishOp_good closeFailed_good)
  next
    case (Inr won)
    have s: "settled (tr_ID t) d" using assms(1) Inr by (simp add: job_ok_def)
    have e1: "good d {#} e (cooldown v (tr_Underlying t) (forget_position (tr_ID t) e))"
      by (intro good_ops forget_position_good [OF s] good_refl)
    show ?thesis
    proof (cases won)
      case True
      then show ?thesis by (simp add: Inr finishFinalize_def Let_def) (intro fin good_ops e1)
    next
      case False
      then show ?thesis
        using good_handover [OF applySubscriptions_good [OF e1], of "JCloseGet (tr_ID t) op"]
        by (simp add: Inr finishFinalize_def Let_def holder_def job_ok_def)
    qed
  qed
qed

lemma finishElsewhere_good: "Closing tid \<in> mark_set e \<Longrightarrow> good d {#Closing tid#} e (finishElsewhere tid op r e)"
  unfolding finishElsewhere_def Let_def
  by (rule good_done [where f = "closing_done tid"]) (auto intro!: good_ops closing_done_good split: sum.split option.split)

lemma deleteOpen_end_good:
  assumes "job_ok d (JDeleteEnd t reason r)" "Closing (tr_ID t) \<in> mark_set e"
  shows "good d {#Closing (tr_ID t)#} e (fst (deleteOpen_end v t r e))"
proof -
  let ?e1 = "if r = Inr ''deleted'' then forgetOpen v t e else e"
  have e1: "good d {#} e ?e1" using assms(1) by (auto simp: job_ok_def intro!: forgetOpen_good)
  have e2: "good d {#Closing (tr_ID t)#} e (closing_done (tr_ID t) ?e1)"
    by (rule good_done [OF e1 assms(2)]) (rule closing_done_good)
  have "good d {#Closing (tr_ID t)#} e (afterDelete v (tr_ID t) from (closing_done (tr_ID t) ?e1))" for "from"
    using good_trans [OF e2 afterDelete_good [OF good_refl]] by simp
  with e2 show ?thesis by (auto simp: deleteOpen_end_def Let_def split: sum.split)
qed

lemma load_sections:
  assumes "h = {#Loading#}"
  shows "good d h e (started [snd (settings_turn fin n e)] (fst (settings_turn fin n e)))"
    "good d h e (started [snd (settings_loaded fin n r1 e)] (fst (settings_loaded fin n r1 e)))"
    "good d h e (started [snd (settings_saved fin n r2 e)] (fst (settings_saved fin n r2 e)))"
    "job_ok d (JLoadOpenRet fin r3) \<Longrightarrow> good d h e (started [snd (open_loaded v fin r3 e)] (fst (open_loaded v fin r3 e)))"
    "good d h e (started [snd (closed_loaded fin day r3 e)] (fst (closed_loaded fin day r3 e)))"
    "good d h e (started [snd (index_ensured fin r2 e)] (fst (index_ensured fin r2 e)))"
    "good d h e (started [index_needed fin e] e)"
proof -
  have n: "good d h e (goLocked j e1)" if "good d {#} e e1" "holder j = {#Loading#}" "job_ok d j" for j e1
    by (rule good_next [OF that(1)]) (simp_all add: that assms)
  have after: "holder (after_settings fin y) = {#Loading#}" "job_ok d (after_settings fin y)" for y
    by (simp_all add: after_settings_def holder_def job_ok_def)
  have l: "holder (JLoadEnd fin m) = {#Loading#}" "job_ok d (JLoadEnd fin m)" for m by (simp_all add: holder_def job_ok_def)
  show "good d h e (started [snd (settings_turn fin n e)] (fst (settings_turn fin n e)))"
    by (auto simp: settings_turn_def after intro!: n good_ops) (simp_all add: holder_def job_ok_def)
  show "good d h e (started [snd (settings_loaded fin n r1 e)] (fst (settings_loaded fin n r1 e)))"
    by (cases r1) (auto simp: settings_loaded_def Let_def l after intro!: n good_ops settings_good, simp_all add: holder_def job_ok_def)
  show "good d h e (started [snd (settings_saved fin n r2 e)] (fst (settings_saved fin n r2 e)))"
    by (cases r2) (auto simp: settings_saved_def l after intro!: n good_ops settings_good)
  show "good d h e (started [snd (open_loaded v fin r3 e)] (fst (open_loaded v fin r3 e)))" if "job_ok d (JLoadOpenRet fin r3)"
  proof (cases r3)
    case (Inr rows)
    have "good d {#} e (adopt rows e)" by (rule adopt_job_good) (use that Inr in blast)
    then show ?thesis by (simp add: Inr open_loaded_def n holder_def job_ok_def)
  qed (simp add: open_loaded_def n l)
  have c: "good d {#} e (e\<lparr>y_closedToday := a, y_closedDay := b, y_loaded := True\<rparr>)" "good d {#} e (e\<lparr>y_indexReady := True\<rparr>)" for a b
    by (rule good_same; simp add: mark_set_def)+
  show "good d h e (started [snd (closed_loaded fin day r3 e)] (fst (closed_loaded fin day r3 e)))"
    by (cases r3) (auto simp: closed_loaded_def l intro!: n c, simp_all add: holder_def job_ok_def)
  show "good d h e (started [snd (index_ensured fin r2 e)] (fst (index_ensured fin r2 e)))"
    by (cases r2) (auto simp: index_ensured_def l intro!: n c)
  show "good d h e (started [index_needed fin e] e)"
    by (auto simp: index_needed_def l intro!: n) (simp_all add: holder_def job_ok_def)
qed

lemma margin_sections:
  assumes "h = {#Pricing tid#}"
  shows "good d h e (started [snd (margin_answer v tid p n r e)] (fst (margin_answer v tid p n r e)))"
    "good d h e (started [margin_again tid p n e] e)"
    "good d h e (started [snd (margin_failed tid p m e)] (fst (margin_failed tid p m e)))"
proof -
  have nx: "good d h e (goLocked j e1)" if "good d {#} e e1" "holder j = {#Pricing tid#}" "job_ok d j" for j e1
    by (rule good_next [OF that(1)]) (simp_all add: that assms)
  show "good d h e (started [snd (margin_answer v tid p n r e)] (fst (margin_answer v tid p n r e)))"
    by (cases "margin_error r"; cases r) (auto simp: margin_answer_def holder_def job_ok_def intro!: nx good_ops)
  show "good d h e (started [margin_again tid p n e] e)"
    by (auto simp: margin_again_def holder_def job_ok_def intro!: nx)
  show "good d h e (started [snd (margin_failed tid p m e)] (fst (margin_failed tid p m e)))"
    by (auto simp: margin_failed_def Let_def holder_def job_ok_def intro!: nx good_ops)
qed

lemma delete_sections:
  "good d {#} e (fst (deleteAlready_end v tid st e))" "good d {#} e (fst (deleteClosed_end v tid r e))"
  by (auto simp: deleteAlready_end_def deleteClosed_end_def case_prod_beta split: sum.split intro!: good_ops)

lemma start_sections:
  "good d {#} e (started [snd (start_refresh v e)] (fst (start_refresh v e)))"
  "good d {#} e (start_end v f e)" "good d {#} e (await_end f e)"
  "good d {#} e (started (case snd (reload_refresh v e) of Some j \<Rightarrow> [j] | None \<Rightarrow> []) (fst (reload_refresh v e)))"
proof -
  have nx: "good d {#} e (goLocked j e1)" if "good d {#} e e1" "holder j = {#}" "job_ok d j" for j e1
    by (rule good_next [OF that(1)]) (simp_all add: that)
  have u: "good d {#} e (fst (refreshUniverse v b e1))" if "good d {#} e e1" for b e1 by (rule refreshUniverse_good [OF that])
  show "good d {#} e (started [snd (start_refresh v e)] (fst (start_refresh v e)))"
    by (auto simp: start_refresh_def case_prod_beta holder_def job_ok_def intro!: nx u)
  show "good d {#} e (start_end v f e)" "good d {#} e (await_end f e)"
    by (auto simp: start_end_def await_end_def Let_def split: option.split intro!: good_ops)
  have "good d {#} e (e\<lparr>y_universeAt := None\<rparr>)" by (rule universeAt_good) simp
  then show "good d {#} e (started (case snd (reload_refresh v e) of Some j \<Rightarrow> [j] | None \<Rightarrow> []) (fst (reload_refresh v e)))"
    by (auto simp: reload_refresh_def Let_def case_prod_beta holder_def job_ok_def intro!: nx u)
qed

lemma refresh_free:
  "good d {#} e (started [snd (refresh_loaded v f st day r1 e)] (fst (refresh_loaded v f st day r1 e)))"
  "good d {#} e (started [snd (refresh_seeded v f st p bt r2 e)] (fst (refresh_seeded v f st p bt r2 e)))"
  "good d {#} e (started [snd (refresh_closed v f st r2 e)] (fst (refresh_closed v f st r2 e)))"
  by (simp_all add: refresh_loaded_good refresh_seeded_good refresh_closed_good)

lemma settings_section:
  "good d {#} e (started (case snd (settings_apply v turn body e) of Inr j \<Rightarrow> [j] | Inl _ \<Rightarrow> []) (fst (settings_apply v turn body e)))"
  using settings_apply_good [of d e v turn body] by (simp split: sum.splits)

lemma margin_end_section:
  "good d {#Pricing tid#} e (started [JMarginEnd tid] (publish e))" "Pricing tid \<in> mark_set e \<Longrightarrow> good d {#Pricing tid#} e (margin_done tid e)"
  using good_next [OF publish_good [OF good_refl], of "JMarginEnd tid"] by (simp_all add: holder_def job_ok_def margin_done_good)

lemma start_wait_section: "good d {#} e (started [start_wait e] e)"
  using good_next [OF good_refl, of "start_wait e"] by (simp add: start_wait_def holder_def job_ok_def)

theorem section_good:
  assumes "section_of v j e = Some (e', js)" "job_ok d j" "set_mset (holder j) \<subseteq> mark_set e"
  shows "good d (holder j) e (started js e')"
proof (cases j)
  case (JLoadOpenRet fin r)
  with assms show ?thesis using load_sections(4) [OF refl, of d fin r e v]
    by (auto simp: section_of_def case_prod_beta holder_def simp del: started_simps(2))
next
  case (JEnterRet t key ep r)
  with assms show ?thesis using finishEnter_good [of d t key ep r e v] by (auto simp: section_of_def case_prod_beta holder_def)
next
  case (JEnterLoadRet u r)
  with assms show ?thesis using enterLoaded_good [of d u r e v] by (auto simp: section_of_def holder_def)
next
  case (JCloseRet t c op r)
  with assms show ?thesis using finishFinalize_good [of d t c op r e v] by (auto simp: section_of_def case_prod_beta holder_def)
next
  case (JDeleteEnd t reason r)
  with assms show ?thesis using deleteOpen_end_good [of d t reason r e v] by (auto simp: section_of_def holder_def)
next
  case (JLoadEnd fin m)
  with assms show ?thesis using load_end_good [of e d fin m] by (auto simp: section_of_def case_prod_beta holder_def)
next
  case (JReloadRefresh fo)
  with assms show ?thesis using start_sections(4) [of d e v] by (auto simp: section_of_def case_prod_beta holder_def split: if_splits option.splits)
qed (use assms in \<open>auto simp: section_of_def case_prod_beta holder_def load_sections margin_sections delete_sections start_sections refresh_free
    settings_section settings_end_good margin_end_section relink_end_good finishElsewhere_good flight_end_good start_wait_section
    split: if_splits simp del: started_simps(2)\<close>)

section \<open>Statements and remote calls\<close>

lemma job_ok_grows: "grows d d' \<Longrightarrow> job_ok d j \<Longrightarrow> job_ok d' j"
  by (auto simp: job_ok_def dest: growsD split: job.splits)

lemma eng_ok_grows: "grows d d' \<Longrightarrow> eng_ok d e \<Longrightarrow> eng_ok d' e"
  by (auto simp: eng_ok_def list_all_iff dest: growsD(1))

lemma LoadOpen_ids:
  assumes "read oc (LoadOpen en) d = Inr rows"
  shows "tr_ID ` set rows \<subseteq> row_ids d"
proof -
  have "LoadOpen en d = Inr rows" using assms by (cases oc) (auto simp: read_def)
  then show ?thesis by (auto simp: LoadOpen_def scanTrade_def row_ids_def open_rows_def split: if_splits)
qed

lemma Get_deleted:
  assumes "read oc (Get en tid) d = Inr (Some st)" "sr_Deleted st" "CheckID tid = Some tid"
  shows "settled tid d"
proof -
  have "Get en tid d = Inr (Some st)" using assms(1) by (cases oc) (auto simp: read_def)
  then obtain r where r: "row_at d tid = Some r" "st = scanTrade r" using assms(3) by (auto simp: Get_def split: if_splits)
  then have "r \<in> set (tb_Rows d)" "row_id r = tid" unfolding row_at_def find_Some_iff by auto
  moreover have "row_Status r = RDeleted" using assms(2) by (simp add: r(2) scanTrade_def)
  ultimately show ?thesis by (auto simp: settled_def list_ex_iff)
qed

lemma canonical: "table_ok d \<Longrightarrow> tid \<in> row_ids d \<Longrightarrow> CheckID tid = Some tid"
  by (auto simp: table_ok_def row_ids_def list_all_iff)

lemma reconciled_deleted:
  assumes "reconciled werr r = Inr ''deleted''"
  obtains st where "r = Inr (Some st)" "sr_Deleted st"
  using assms by (auto simp: reconciled_def status_name_def split: sum.splits option.splits if_splits)

theorem statement_good:
  assumes "db_call oc en j d = Some (js, d')" "table_ok d" "job_ok d j"
  shows "table_ok d' \<and> grows d d' \<and> list_all (job_ok d') js \<and> held (mset js) = holder j"
proof -
  note w = writes_ok [OF assms(2)]
  show ?thesis
  proof (cases j)
    case (JClose t c op)
    then have t: "tr_ID t \<in> row_ids d" "tr_ID c = tr_ID t" "tr_Status c = TClosed" using assms(3) by (auto simp: job_ok_def)
    obtain r where r: "attempt oc (Close en c) d = (r, d')" "js = [JCloseRet t c op r]"
      using assms(1) JClose by (auto simp: db_call_def split: prod.splits)
    note a = attempt_ok [OF assms(2) w(1,2) [OF t(3)] r(1)]
    have "settled (tr_ID t) d'" if "r = Inr b" for b
      using Close_ok(3) [OF assms(2) t(3), of en b] a(3) [OF that] that t by simp
    with a(1,2) JClose r(2) show ?thesis by (auto simp: job_ok_def holder_def)
  next
    case (JDeleteMark t a)
    then have t: "tr_ID t \<in> row_ids d" using assms(3) by (simp add: job_ok_def)
    obtain r where r: "attempt oc (MarkDeleted en (tr_ID t) ROpen a) d = (r, d')"
        "js = [if mark_settled r then JDeleteEnd t (da_Reason a) (Inr ''deleted'') else JDeleteBack t a (write_error r)]"
      using assms(1) JDeleteMark by (auto simp: db_call_def split: prod.splits)
    note x = attempt_ok [OF assms(2) w(5,6) r(1)]
    have "settled (tr_ID t) d'" if "mark_settled r"
    proof -
      have "r = Inr True" using that by (auto simp: mark_settled_def split: sum.splits bool.splits)
      then show ?thesis using MarkDeleted_ok(3) [OF assms(2), of en "tr_ID t" ROpen a] x(3) canonical [OF assms(2) t] by simp
    qed
    with x(1,2) JDeleteMark r(2) growsD(1) [OF x(2) t] show ?thesis by (simp add: job_ok_def holder_def)
  next
    case (JDeleteBack t a werr)
    then have t: "tr_ID t \<in> row_ids d" using assms(3) by (simp add: job_ok_def)
    have "settled (tr_ID t) d" if "reconciled werr (read oc (Get en (tr_ID t)) d) = Inr ''deleted''"
      using that by (rule reconciled_deleted) (rule Get_deleted [OF _ _ canonical [OF assms(2) t]])
    with assms(1,2) JDeleteBack show ?thesis by (auto simp: db_call_def job_ok_def holder_def)
  next
    case (JDeleteGet tid a expected)
    with assms(1,2) show ?thesis
      by (auto simp: db_call_def holder_def job_ok_def deleteStored_def split: sum.splits option.splits if_splits)
  next
    case (JDeleteClosed tid st a)
    then obtain r where r: "attempt oc (MarkDeleted en tid RClosed a) d = (r, d')"
        "js = [if mark_settled r then JDeleteClosedEnd tid st (da_Reason a) (Inr ''deleted'') else JDeleteClosedBack tid st a (write_error r)]"
      using assms(1) by (auto simp: db_call_def split: prod.splits)
    from attempt_ok [OF assms(2) w(5,6) r(1)] JDeleteClosed r(2) show ?thesis by (simp add: job_ok_def holder_def)
  next
    case (JEnter t key ep)
    then obtain r where r: "attempt oc (InsertOpen en t) d = (r, d')" "js = [JEnterRet t key ep r]"
      using assms(1) by (auto simp: db_call_def split: prod.splits)
    note x = attempt_ok [OF assms(2) w(7,8) r(1)]
    have "tr_ID t \<in> row_ids d'" if "r = Inr False"
      using InsertOpen_ok(3) [OF assms(2), of en t] x(3) [OF that] that by simp
    with x(1,2) JEnter r(2) show ?thesis by (simp add: job_ok_def holder_def)
  next
    case (JMarginSet tid p)
    then obtain r where r: "attempt oc (SetMargin en tid p) d = (r, d')" "js = [JMarginPublish tid]"
      using assms(1) by (auto simp: db_call_def split: prod.splits)
    from attempt_ok [OF assms(2) w(3,4) r(1)] JMarginSet r(2) show ?thesis by (simp add: job_ok_def holder_def)
  next
    case (JSaveLoaded fin n s)
    then obtain r where r: "attempt oc (SaveSettings en s) d = (r, d')" "js = [JSaveLoadedRet fin n r]"
      using assms(1) by (auto simp: db_call_def split: prod.splits)
    from attempt_ok [OF assms(2) w(9,10) r(1)] JSaveLoaded r(2) show ?thesis by (simp add: job_ok_def holder_def)
  next
    case (JSettingsSave n before nx)
    then obtain r where r: "attempt oc (SaveSettings en nx) d = (r, d')" "js = [JSettingsRet n before nx True r]"
      using assms(1) by (auto simp: db_call_def split: prod.splits)
    from attempt_ok [OF assms(2) w(9,10) r(1)] JSettingsSave r(2) show ?thesis by (simp add: job_ok_def holder_def)
  next
    case (JEnsure fin)
    then obtain r where r: "attempt oc (EnsureReady en) d = (r, d')" "js = [JEnsureRet fin r]"
      using assms(1) by (auto simp: db_call_def split: prod.splits)
    from attempt_ok [OF assms(2) w(11,12) r(1)] JEnsure r(2) show ?thesis by (simp add: job_ok_def holder_def)
  next
    case (JLoadOpen fin)
    with assms(1,2) LoadOpen_ids [of oc en d] show ?thesis by (auto simp: db_call_def job_ok_def holder_def)
  next
    case (JEnterLoad u)
    with assms(1,2) LoadOpen_ids [of oc en d] show ?thesis by (auto simp: db_call_def job_ok_def holder_def)
  qed (use assms in \<open>auto simp: db_call_def job_ok_def holder_def\<close>)
qed

theorem remote_good: "rest_call a j = Some j' \<Longrightarrow> job_ok d j' \<and> holder j' = holder j"
  by (cases a; cases j) (auto simp: rest_call_def job_ok_def holder_def)

lemma foreign_good: "table_ok d \<Longrightarrow> table_ok (foreign_write w d) \<and> grows d (foreign_write w d)"
  by (cases w) (simp_all add: writes_ok)

end
