(* ===== verification/SynthEntry.thy ===== *)
theory SynthEntry
  imports SynthFrame SynthSound
begin

text \<open>
  What one pass of the loop may enter: every guard of \<^verbatim>\<open>evaluateLocked\<close>, \<^verbatim>\<open>annotateLocked\<close> and
  \<^verbatim>\<open>autoEnterLocked\<close>, gathered for the trades a \<open>tick\<close> actually starts to open.
\<close>

section \<open>Passes that start no entry\<close>

definition entries :: "synth \<Rightarrow> job list" where
  "entries e = filter (\<lambda>j. case j of JEnter t key ep \<Rightarrow> True | _ \<Rightarrow> False) (spawned (y_effects e))"

lemma entries_same: "y_effects e' = y_effects e \<Longrightarrow> entries e' = entries e"
  by (simp add: entries_def)

lemma entries_tokens [simp]: "entries (setTokensLocked ts e) = entries e"
  by (simp add: entries_def setTokensLocked_def)

lemma entries_go [simp]: "(\<forall>t key ep. j \<noteq> JEnter t key ep) \<Longrightarrow> entries (goLocked j e) = entries e"
  by (auto simp: entries_def goLocked_def split: job.splits)

lemma entries_subscriptions [simp]: "entries (applySubscriptions e) = entries e"
  by (auto simp: applySubscriptions_def Let_def intro: entries_same)

lemma entries_fit [simp]: "entries (fitToBudget b f e) = entries e"
  by (auto simp: fitToBudget_def Let_def dropWindows_def intro: entries_same)

lemma entries_recentre: "entries (fst (recentre v u (e, m))) = entries e"
  by (auto simp: recentre_def Let_def split: option.splits intro: entries_same)

lemma entries_recentre_fold: "entries (fst (fold (recentre v) us (e, m))) = entries e"
proof (induction us arbitrary: e m)
  case (Cons u us)
  have "entries (fst (fold (recentre v) us (recentre v u (e, m)))) = entries (fst (recentre v u (e, m)))"
    using Cons.IH [of "fst (recentre v u (e, m))" "snd (recentre v u (e, m))"] by simp
  then show ?case by (simp add: entries_recentre)
qed simp

lemma entries_evaluate [simp]: "entries (evaluate v b e) = entries e"
proof -
  have "entries (recentreAll v e) = entries e"
    using entries_recentre_fold [of v "y_selection e" e False] by (auto simp: recentreAll_def case_prod_beta)
  then show ?thesis
    by (auto simp: evaluate_def Let_def observeStreaks_def case_prod_beta entries_def)
qed

lemma entries_captureMargin [simp]: "entries (captureMargin v tid e) = entries e"
  by (auto simp: captureMargin_def split: option.splits intro: entries_same)

lemma entries_backfill [simp]: "entries (backfillMargins v e) = entries e"
proof -
  have "entries (backfill_one v t y) = entries y" for t y
    by (auto simp: backfill_one_def Let_def intro: entries_same)
  then have "entries (fold (backfill_one v) ts y) = entries y" for ts y by (induction ts arbitrary: y) simp_all
  then show ?thesis by (auto simp: backfillMargins_def intro: entries_same)
qed

lemma entries_retryLoad [simp]: "entries (retryLoad v e) = entries e"
  by (auto simp: retryLoad_def beginLoad_def Let_def takeTurn_def intro: entries_same)

lemma entries_refreshUniverse: "entries (fst (refreshUniverse v b e)) = entries e"
  by (auto simp: refreshUniverse_def beginRefresh_def Let_def split: option.splits intro: entries_same)

lemma entries_maybeRefresh [simp]: "entries (maybeRefreshUniverse v e) = entries e"
proof -
  have "entries (relink v e) = entries e" by (auto simp: relink_def intro: entries_same)
  then show ?thesis
    by (auto simp: maybeRefreshUniverse_def Let_def case_prod_beta entries_refreshUniverse)
qed

lemma entries_finalize [simp]: "entries (fst (finalize v t c e)) = entries e"
  by (auto simp: finalize_def Let_def finishOp_def closeFailed_def setLastError_def intro: entries_same)

section \<open>What monitoring leaves alone\<close>

text \<open>Two states that agree on everything an entry depends on.\<close>

definition same_core :: "synth \<Rightarrow> synth \<Rightarrow> bool" where
  "same_core e e' \<longleftrightarrow> y_running e' = y_running e \<and> y_cfg e' = y_cfg e \<and> y_positions e' = y_positions e \<and>
     y_opportunities e' = y_opportunities e \<and> y_pendingEntries e' = y_pendingEntries e \<and> y_settings e' = y_settings e \<and>
     y_quotes e' = y_quotes e \<and> y_cooldownUntil e' = y_cooldownUntil e \<and> y_eligibleStreak e' = y_eligibleStreak e \<and>
     y_lastRawTickAt e' = y_lastRawTickAt e \<and> y_settingsLoaded e' = y_settingsLoaded e \<and> y_loaded e' = y_loaded e \<and>
     y_indexReady e' = y_indexReady e \<and> y_namespaceStale e' = y_namespaceStale e \<and> y_namespaceEpoch e' = y_namespaceEpoch e \<and>
     y_closes e' = y_closes e"

lemma same_core_refl [simp]: "same_core e e"
  by (simp add: same_core_def)

lemma same_core_trans: "same_core e e1 \<Longrightarrow> same_core e1 e2 \<Longrightarrow> same_core e e2"
  by (simp add: same_core_def)

lemma core_finalize: "same_core e (fst (finalize v t c e))"
  by (simp add: same_core_def finalize_def Let_def goLocked_def finishOp_def closeFailed_def setLastError_def)

lemma core_exitStreak: "same_core e (exitStreak t m (e\<lparr>y_metrics := ms\<rparr>))"
  by (simp add: same_core_def exitStreak_def Let_def)

lemma core_if: "same_core e x \<Longrightarrow> same_core e y \<Longrightarrow> same_core e (if b then x else y)"
  by simp

lemma core_option: "same_core e x \<Longrightarrow> (\<And>c. same_core e (f c)) \<Longrightarrow> same_core e (case r of None \<Rightarrow> x | Some c \<Rightarrow> f c)"
  by (cases r) simp_all

lemma core_monitor_one: "same_core e (monitor_one v t e)"
  unfolding monitor_one_def Let_def
  by (intro core_if core_option same_core_refl core_finalize core_exitStreak same_core_trans [OF core_exitStreak core_finalize])

lemma core_monitor: "same_core e (monitorPositions v e)"
proof -
  have "same_core e (fold (monitor_one v) ts e)" for ts
    by (induction ts arbitrary: e) (auto intro: same_core_trans core_monitor_one)
  then show ?thesis by (simp add: monitorPositions_def)
qed

lemma entries_if: "entries x = n \<Longrightarrow> entries y = n \<Longrightarrow> entries (if b then x else y) = n"
  by simp

lemma entries_option: "entries x = n \<Longrightarrow> (\<And>c. entries (f c) = n) \<Longrightarrow> entries (case r of None \<Rightarrow> x | Some c \<Rightarrow> f c) = n"
  by (cases r) simp_all

lemma entries_exitStreak: "entries (exitStreak t m (e\<lparr>y_metrics := ms\<rparr>)) = entries e"
  by (rule entries_same) (simp add: exitStreak_def Let_def)

lemma entries_monitor [simp]: "entries (monitorPositions v e) = entries e"
proof -
  have "entries (monitor_one v t y) = entries y" for t y
    unfolding monitor_one_def Let_def
    by (intro entries_if entries_option refl) (simp_all only: entries_finalize entries_exitStreak)
  then have "entries (fold (monitor_one v) ts y) = entries y" for ts y by (induction ts arbitrary: y) simp_all
  then show ?thesis by (simp add: monitorPositions_def)
qed

lemma entries_before: "entries (fitTick v (backfillMargins v (maybeRefreshUniverse v (noteMarket v (rollDay v (retryLoad v e)))))) = entries e"
proof -
  have "entries (fitTick v y) = entries y" "entries (noteMarket v y) = entries y" "entries (rollDay v y) = entries y" for y
    by (auto simp: fitTick_def noteMarket_def rollDay_def intro: entries_same)
  then show ?thesis by simp
qed

section \<open>The loop over the opportunities\<close>

text \<open>What holds after the loop started \<open>n\<close> entries, the last of which was checked against one trade fewer.\<close>

definition within_caps :: "f64 \<Rightarrow> synth \<Rightarrow> bool" where
  "within_caps budget e \<longleftrightarrow>
     (let n = openCount e + int (card (y_pendingEntries e))
      in (f_le (s_MaxOpenPositions (y_settings e)) f_zero \<or> f_lt (f_of_int (n - 1)) (s_MaxOpenPositions (y_settings e))) \<and>
         f_le (f_of_int (n * positionTokens)) budget)"

definition opens :: "(nat \<Rightarrow> string) \<Rightarrow> env \<Rightarrow> synth \<Rightarrow> opportunity \<Rightarrow> trade \<Rightarrow> bool" where
  "opens newID v e opp t \<longleftrightarrow> (\<exists>n. OpenTradeFromOpportunity opp (newID n) (v_broker v) (v_now v) (v_today v)
     (RateVersion (OptionRates (y_cfg e))) (RateVersion (FuturesRates (y_cfg e))) (Some (depthFor e)) = Some t)"

lemma depthFor_quotes: "y_quotes e' = y_quotes e \<Longrightarrow> depthFor e' = depthFor e"
  by (rule ext) (simp add: depthFor_def)

lemma enter_effect:
  assumes "op_Underlying opp \<notin> y_pendingEntries e" "finite (y_pendingEntries e)" "underMaxOpen e" "roomForAnotherPosition b e"
  shows "entries (enter newID v opp e) = entries e \<and> y_pendingEntries (enter newID v opp e) = y_pendingEntries e \<or>
    (\<exists>t. opens newID v e opp t \<and> entries (enter newID v opp e) = entries e @ [JEnter t (op_Key opp) (y_namespaceEpoch e)] \<and>
       y_pendingEntries (enter newID v opp e) = insert (op_Underlying opp) (y_pendingEntries e) \<and> within_caps b (enter newID v opp e))"
    (is "?no \<or> ?yes")
proof (cases "OpenTradeFromOpportunity opp (newID (y_idsUsed e)) (v_broker v) (v_now v) (v_today v)
    (RateVersion (OptionRates (y_cfg e))) (RateVersion (FuturesRates (y_cfg e))) (Some (depthFor e))")
  case None
  then have ?no using assms(1) by (simp add: enter_def Let_def entries_def)
  then show ?thesis ..
next
  case (Some t)
  have e: "enter newID v opp e = goLocked (JEnter t (op_Key opp) (y_namespaceEpoch e))
      (e\<lparr>y_idsUsed := y_idsUsed e + 1, y_pendingEntries := insert (op_Underlying opp) (y_pendingEntries e)\<rparr>)"
    using Some by (simp add: enter_def Let_def)
  have "within_caps b (enter newID v opp e)"
    using assms unfolding e
    by (simp add: within_caps_def underMaxOpen_def roomForAnotherPosition_def goLocked_def openCount_def Let_def algebra_simps)
  moreover have "entries (enter newID v opp e) = entries e @ [JEnter t (op_Key opp) (y_namespaceEpoch e)]"
    unfolding e by (simp add: entries_def goLocked_def)
  moreover have "opens newID v e opp t" using Some by (auto simp: opens_def)
  ultimately have ?yes unfolding e by (auto simp: goLocked_def)
  then show ?thesis ..
qed

text \<open>What an entry leaves alone.\<close>

lemma enter_frame:
  "y_running (enter newID v opp e) = y_running e" "y_cfg (enter newID v opp e) = y_cfg e" "y_positions (enter newID v opp e) = y_positions e"
  "y_opportunities (enter newID v opp e) = y_opportunities e" "y_settings (enter newID v opp e) = y_settings e"
  "y_quotes (enter newID v opp e) = y_quotes e" "y_namespaceEpoch (enter newID v opp e) = y_namespaceEpoch e"
  by (simp_all add: enter_def Let_def goLocked_def split: option.split)

lemma enter_loop_frame:
  "y_running (enter_loop newID v b opps e) = y_running e" "y_cfg (enter_loop newID v b opps e) = y_cfg e"
  "y_positions (enter_loop newID v b opps e) = y_positions e" "y_settings (enter_loop newID v b opps e) = y_settings e"
  by (induction opps arbitrary: e) (simp_all add: enter_frame)

definition may_enter :: "(nat \<Rightarrow> string) \<Rightarrow> env \<Rightarrow> synth \<Rightarrow> opportunity list \<Rightarrow> job \<Rightarrow> bool" where
  "may_enter newID v e opps j \<longleftrightarrow> (\<exists>opp t. opp \<in> set opps \<and> op_Status opp = StatusEligible \<and> op_EntryBlocked opp = None \<and>
     op_Underlying opp \<notin> y_pendingEntries e \<and> \<not> hasOpen e (op_Underlying opp) \<and> opens newID v e opp t \<and>
     j = JEnter t (op_Key opp) (y_namespaceEpoch e))"

lemma may_enter_more: "may_enter newID v e opps j \<Longrightarrow> may_enter newID v e (opp # opps) j"
  by (simp only: may_enter_def list.set insert_iff) blast

lemma enter_loop_effect:
  assumes "finite (y_pendingEntries e)"
  shows "\<exists>js. entries (enter_loop newID v b opps e) = entries e @ js \<and> list_all (may_enter newID v e opps) js \<and>
    distinct (map (\<lambda>j. case j of JEnter t key ep \<Rightarrow> tr_Underlying t | _ \<Rightarrow> []) js) \<and>
    y_pendingEntries (enter_loop newID v b opps e) = y_pendingEntries e \<union> (\<lambda>j. case j of JEnter t key ep \<Rightarrow> tr_Underlying t | _ \<Rightarrow> []) ` set js \<and>
    (js \<noteq> [] \<longrightarrow> within_caps b (enter_loop newID v b opps e))"
  using assms
proof (induction opps arbitrary: e)
  case (Cons opp opps)
  let ?u = "\<lambda>j. case j of JEnter t key ep \<Rightarrow> tr_Underlying t | _ \<Rightarrow> []"
  have weaker: "list_all (may_enter newID v e (opp # opps)) js" if "list_all (may_enter newID v e opps) js" for js
    using that may_enter_more [of newID v e opps] by (auto simp: list_all_iff)
  consider "op_Status opp \<noteq> StatusEligible" | "op_Status opp = StatusEligible" "op_EntryBlocked opp \<noteq> None"
    | "op_Status opp = StatusEligible" "op_EntryBlocked opp = None" "\<not> underMaxOpen e \<or> \<not> roomForAnotherPosition b e"
    | "op_Status opp = StatusEligible" "op_EntryBlocked opp = None" "underMaxOpen e" "roomForAnotherPosition b e"
      "op_Underlying opp \<in> y_pendingEntries e \<or> hasOpen e (op_Underlying opp)"
    | "op_Status opp = StatusEligible" "op_EntryBlocked opp = None" "underMaxOpen e" "roomForAnotherPosition b e"
      "op_Underlying opp \<notin> y_pendingEntries e" "\<not> hasOpen e (op_Underlying opp)" by blast
  then show ?case
  proof cases
    case 1
    then show ?thesis by (intro exI [of _ "[]"]) simp
  next
    case 2
    with Cons.IH [OF Cons.prems] show ?thesis by (auto dest: weaker)
  next
    case 3
    then show ?thesis by (intro exI [of _ "[]"]) auto
  next
    case 4
    with Cons.IH [OF Cons.prems] show ?thesis by (auto dest: weaker)
  next
    case 5
    let ?e1 = "enter newID v opp e"
    have loop: "enter_loop newID v b (opp # opps) e = enter_loop newID v b opps ?e1" using 5 by simp
    have sub: "y_pendingEntries e \<subseteq> y_pendingEntries ?e1" using enter_effect [OF 5(5) Cons.prems 5(3,4), of newID v] by auto
    have lift: "may_enter newID v e (opp # opps) j" if "may_enter newID v ?e1 opps j" for j
      using that sub unfolding may_enter_def opens_def hasOpen_def trades_def
      by (auto simp: enter_frame depthFor_quotes [of ?e1 e])
    have fin: "finite (y_pendingEntries ?e1)" using enter_effect [OF 5(5) Cons.prems 5(3,4), of newID v] Cons.prems by auto
    from Cons.IH [OF fin] obtain js where js: "entries (enter_loop newID v b opps ?e1) = entries ?e1 @ js"
      "list_all (may_enter newID v ?e1 opps) js" "distinct (map ?u js)"
      "y_pendingEntries (enter_loop newID v b opps ?e1) = y_pendingEntries ?e1 \<union> ?u ` set js"
      "js \<noteq> [] \<longrightarrow> within_caps b (enter_loop newID v b opps ?e1)" by auto
    have old: "list_all (may_enter newID v e (opp # opps)) js" using js(2) lift by (auto simp: list_all_iff)
    from enter_effect [OF 5(5) Cons.prems 5(3,4), of newID v] show ?thesis
    proof
      assume "entries ?e1 = entries e \<and> y_pendingEntries ?e1 = y_pendingEntries e"
      with js old loop show ?thesis by auto
    next
      assume "\<exists>t. opens newID v e opp t \<and> entries ?e1 = entries e @ [JEnter t (op_Key opp) (y_namespaceEpoch e)] \<and>
         y_pendingEntries ?e1 = insert (op_Underlying opp) (y_pendingEntries e) \<and> within_caps b ?e1"
      then obtain t where t: "opens newID v e opp t" "entries ?e1 = entries e @ [JEnter t (op_Key opp) (y_namespaceEpoch e)]"
         "y_pendingEntries ?e1 = insert (op_Underlying opp) (y_pendingEntries e)" "within_caps b ?e1" by blast
      have tu: "tr_Underlying t = op_Underlying opp" using t(1) opened_fields(2) by (auto simp: opens_def)
      let ?j = "JEnter t (op_Key opp) (y_namespaceEpoch e)"
      have j: "may_enter newID v e (opp # opps) ?j" using 5 t(1) by (auto simp: may_enter_def)
      have new: "tr_Underlying t \<notin> ?u ` set js"
      proof
        assume "tr_Underlying t \<in> ?u ` set js"
        then obtain x where x: "x \<in> set js" "?u x = tr_Underlying t" by auto
        have "may_enter newID v ?e1 opps x" using js(2) x(1) by (simp add: list_all_iff)
        then obtain p t' where "x = JEnter t' (op_Key p) (y_namespaceEpoch ?e1)"
            "op_Underlying p \<notin> y_pendingEntries ?e1" "opens newID v ?e1 p t'"
          unfolding may_enter_def by blast
        moreover from this have "tr_Underlying t' = op_Underlying p" using opened_fields(2) by (auto simp: opens_def)
        ultimately show False using x(2) t(3) tu by simp
      qed
      have caps: "within_caps b (enter_loop newID v b opps ?e1)"
      proof (cases "js = []")
        case True
        then have "y_pendingEntries (enter_loop newID v b opps ?e1) = y_pendingEntries ?e1" using js(4) by simp
        with t(4) show ?thesis by (simp add: within_caps_def openCount_def enter_loop_frame)
      qed (use js(5) in simp)
      show ?thesis unfolding loop
        by (intro exI [of _ "?j # js"]) (use t js old j new tu caps in auto)
    qed
  qed
qed (intro exI [of _ "[]"], simp)

section \<open>What the loop enters on\<close>

text \<open>States that agree on a few fields look the same to the guards.\<close>

lemma guards_cong:
  assumes "y_cfg e' = y_cfg e" "y_positions e' = y_positions e" "y_pendingEntries e' = y_pendingEntries e" "y_settings e' = y_settings e"
    "y_settingsLoaded e' = y_settingsLoaded e" "y_loaded e' = y_loaded e" "y_indexReady e' = y_indexReady e"
    "y_lastRawTickAt e' = y_lastRawTickAt e"
  shows "storeReady e' = storeReady e" "feedHealthy v e' = feedHealthy v e" "hasOpen e' u = hasOpen e u" "underMaxOpen e' = underMaxOpen e"
    "roomForAnotherPosition b e' = roomForAnotherPosition b e" "tokenBudget v bx e' = tokenBudget v bx e" "openByKey e' = openByKey e"
    "within_caps b e' = within_caps b e"
  unfolding storeReady_def feedHealthy_def hasOpen_def trades_def underMaxOpen_def roomForAnotherPosition_def
      tokenBudget_def openCount_def openByKey_def within_caps_def assms by (rule refl)+

lemma guards_rows:
  fixes e :: synth and os n
  defines "e' \<equiv> e\<lparr>y_opportunities := os, y_evaluatedAt := n\<rparr>"
  shows "storeReady e' = storeReady e" "feedHealthy v e' = feedHealthy v e" "hasOpen e' u = hasOpen e u" "underMaxOpen e' = underMaxOpen e"
    "roomForAnotherPosition b e' = roomForAnotherPosition b e" "tokenBudget v bx e' = tokenBudget v bx e" "openByKey e' = openByKey e"
  unfolding e'_def by (rule guards_cong; simp)+

lemma entryBlock_rows: "entryBlock v (e\<lparr>y_opportunities := os, y_evaluatedAt := n\<rparr>) x = entryBlock v e x"
  unfolding entryBlock_def by (simp add: guards_rows)

lemma annotate_rows: "annotate v (e\<lparr>y_opportunities := os, y_evaluatedAt := n\<rparr>) = annotate v e"
  by (rule ext) (simp add: annotate_def guards_rows entryBlock_rows split: option.split)

lemma quoteSource_cong: "y_quotes e' = y_quotes e \<Longrightarrow> y_closes e' = y_closes e \<Longrightarrow> quoteSource v e' = quoteSource v e"
  by (rule ext) (simp add: quoteSource_def liveQuote_def)

lemma evalParams_cong: "y_cfg e' = y_cfg e \<Longrightarrow> y_settings e' = y_settings e \<Longrightarrow> evalParams v e' = evalParams v e"
  by (rule ext) (simp add: evalParams_def rfPct_def split: option.split)

lemma priced:
  assumes "opp \<in> set (priceAll v e)"
  obtains w strike dir where "opp = EvaluateSynthetic w strike dir (quoteSource v e) (evalParams v e (w_LotSize w))"
  using assms by (auto simp: priceAll_def priceWindow_def split: option.splits)

lemma recentreAll_running: "y_running (recentreAll v e) = y_running e"
proof -
  have "y_running (fst (fold (recentre v) us (y, m))) = y_running y" for us y m
  proof (induction us arbitrary: y m)
    case (Cons u us)
    have "y_running (fst (recentre v u (y, m))) = y_running y"
      by (auto simp: recentre_def Let_def split: option.split)
    with Cons.IH [of "fst (recentre v u (y, m))" "snd (recentre v u (y, m))"] show ?case by simp
  qed simp
  from this [of "y_selection e" e False] show ?thesis
    by (auto simp: recentreAll_def case_prod_beta applySubscriptions_def Let_def setTokensLocked_def)
qed

text \<open>The opportunities an evaluation leaves are priced on the books it leaves, and annotated in the state it leaves.\<close>

lemma evaluate_opportunities:
  assumes "y_running e" "\<not> y_namespaceStale e" "opp \<in> set (y_opportunities (evaluate v True e))"
  obtains w strike dir where
    "opp = annotate v (evaluate v True e)
       (EvaluateSynthetic w strike dir (quoteSource v (evaluate v True e)) (evalParams v (evaluate v True e) (w_LotSize w)))"
proof -
  let ?r = "if v_marketOpen v then recentreAll v e else e"
  let ?o = "observeStreaks (priceAll v ?r) ?r"
  have ev: "evaluate v True e = ?o\<lparr>y_opportunities := SortOpportunities (map (annotate v ?o) (priceAll v ?r)), y_evaluatedAt := Some (v_now v)\<rparr>"
    using assms(1,2) by (simp add: evaluate_def Let_def)
  have q: "quoteSource v (evaluate v True e) = quoteSource v ?r"
    unfolding ev by (rule quoteSource_cong) (simp_all add: observeStreaks_def case_prod_beta)
  have p: "evalParams v (evaluate v True e) = evalParams v ?r"
    unfolding ev by (rule evalParams_cong) (simp_all add: observeStreaks_def case_prod_beta)
  have a: "annotate v (evaluate v True e) = annotate v ?o" unfolding ev by (rule annotate_rows)
  have "y_opportunities (evaluate v True e) = SortOpportunities (map (annotate v ?o) (priceAll v ?r))" unfolding ev by simp
  then have "opp \<in> annotate v ?o ` set (priceAll v ?r)" using assms(3) by (simp add: SortOpportunities_def)
  then obtain x where x: "x \<in> set (priceAll v ?r)" "opp = annotate v ?o x" by blast
  from priced [OF x(1)] obtain w strike dir where "x = EvaluateSynthetic w strike dir (quoteSource v ?r) (evalParams v ?r (w_LotSize w))" .
  with x(2) q p a show ?thesis by (intro that) simp
qed

lemma annotate_open:
  assumes "op_Status (annotate v e x) = StatusEligible" "op_EntryBlocked (annotate v e x) = None"
  shows "op_Status x = StatusEligible \<and> entryBlock v e x = None \<and> annotate v e x = x\<lparr>op_EntryBlocked := None\<rparr>"
proof -
  have n: "map_of (openByKey e) (op_Key x) = None" using assms(1) by (cases "map_of (openByKey e) (op_Key x)") (simp_all add: annotate_def)
  have st: "op_Status x = StatusEligible"
  proof (rule ccontr)
    assume "op_Status x \<noteq> StatusEligible"
    then show False using assms(1) n by (simp add: annotate_def)
  qed
  have "annotate v e x = x\<lparr>op_EntryBlocked := entryBlock v e x\<rparr>" using n st by (simp add: annotate_def)
  with assms(2) st show ?thesis by simp
qed

lemma entry_leg_unblocked: "OpenTradeFromOpportunity (x\<lparr>op_EntryBlocked := b\<rparr>) = OpenTradeFromOpportunity x"
  by (intro ext) (simp add: OpenTradeFromOpportunity_def cong: option.case_cong)

definition looked_at :: "env \<Rightarrow> synth \<Rightarrow> synth" where
  "looked_at v e = evaluate v True (fitTick v (backfillMargins v (maybeRefreshUniverse v (noteMarket v (rollDay v (retryLoad v e))))))"

lemma looked_at_ok:
  assumes "eng_ok d e"
  shows "eng_ok d (looked_at v e)"
proof -
  have "good d {#} e (looked_at v e)" unfolding looked_at_def by (intro good_ops good_refl)
  with assms show ?thesis by (auto simp: good_def)
qed

lemma entries_looked_at: "entries (looked_at v e) = entries e"
  by (simp add: looked_at_def entries_before)

lemma looked_at_opportunities:
  assumes "y_running (looked_at v e)" "\<not> y_namespaceStale (looked_at v e)" "opp \<in> set (y_opportunities (looked_at v e))"
    "op_Status opp = StatusEligible" "op_EntryBlocked opp = None"
  obtains w strike dir where
    "opp = (EvaluateSynthetic w strike dir (quoteSource v (looked_at v e)) (evalParams v (looked_at v e) (w_LotSize w)))\<lparr>op_EntryBlocked := None\<rparr>"
    "entryBlock v (looked_at v e)
       (EvaluateSynthetic w strike dir (quoteSource v (looked_at v e)) (evalParams v (looked_at v e) (w_LotSize w))) = None"
proof -
  let ?e = "fitTick v (backfillMargins v (maybeRefreshUniverse v (noteMarket v (rollDay v (retryLoad v e)))))"
  have r: "y_running ?e \<and> \<not> y_namespaceStale ?e"
  proof (rule ccontr)
    assume "\<not> (y_running ?e \<and> \<not> y_namespaceStale ?e)"
    then have "y_opportunities (looked_at v e) = []" by (auto simp: looked_at_def evaluate_def)
    with assms(3) show False by simp
  qed
  obtain w strike dir where "opp = annotate v (looked_at v e)
      (EvaluateSynthetic w strike dir (quoteSource v (looked_at v e)) (evalParams v (looked_at v e) (w_LotSize w)))"
    using evaluate_opportunities [of ?e opp v] r assms(3) unfolding looked_at_def by blast
  with assms(4,5) annotate_open show ?thesis by (intro that) auto
qed

text \<open>What the guards of one row say when none of them blocks it.\<close>

lemma entryBlock_None:
  assumes "entryBlock v e x = None"
  shows "PaperTrading (y_cfg e) \<and> v_enabled v \<and> storeReady e \<and> feedHealthy v e \<and> \<not> hasOpen e (op_Underlying x) \<and>
    op_Underlying x \<notin> y_pendingEntries e \<and> \<not> f_lt (f_of_int (v_now v)) (the_default f_zero (map_of (y_cooldownUntil e) (op_Underlying x))) \<and>
    \<not> InExpirySafetyWindow (op_Expiry x) (v_today v) (v_now v) (ExpirySafetyMinutes (y_cfg e)) \<and>
    \<not> f_lt (f_of_int (the_default 0 (map_of (y_eligibleStreak e) (op_Key x)))) (SignalConfirmations (y_cfg e))"
  using assms unfolding entryBlock_def by (simp split: if_splits)

definition entry_allowed :: "env \<Rightarrow> synth \<Rightarrow> trade \<Rightarrow> string \<Rightarrow> bool" where
  "entry_allowed v e t key \<longleftrightarrow>
     \<not> hasOpen e (tr_Underlying t) \<and> tr_Underlying t \<notin> y_pendingEntries e \<and>
     \<not> f_lt (f_of_int (v_now v)) (the_default f_zero (map_of (y_cooldownUntil e) (tr_Underlying t))) \<and>
     \<not> InExpirySafetyWindow (tr_Expiry t) (v_today v) (v_now v) (ExpirySafetyMinutes (y_cfg e)) \<and>
     \<not> f_lt (f_of_int (the_default 0 (map_of (y_eligibleStreak e) key))) (SignalConfirmations (y_cfg e))"

lemma opened_Expiry: "OpenTradeFromOpportunity opp tid broker now day ov fv depth = Some t \<Longrightarrow> tr_Expiry t = op_Expiry opp"
  by (auto simp: OpenTradeFromOpportunity_def Let_def split: if_splits option.splits)

lemma tick_entry:
  assumes "eng_ok d e"
  obtains js where "entries (tick newID v e) = entries e @ js"
    "distinct (map (\<lambda>j. case j of JEnter t key ep \<Rightarrow> tr_Underlying t | _ \<Rightarrow> []) js)"
    "js \<noteq> [] \<longrightarrow> y_running (looked_at v e) \<and> \<not> y_namespaceStale (looked_at v e) \<and> v_marketOpen v \<and> PaperTrading (y_cfg (looked_at v e)) \<and>
       v_enabled v \<and> storeReady (looked_at v e) \<and> feedHealthy v (looked_at v e) \<and>
       within_caps (tokenBudget v None (tick newID v e)) (tick newID v e)"
    "list_all (may_enter newID v (looked_at v e) (y_opportunities (looked_at v e))) js"
proof -
  let ?l = "looked_at v e" and ?m = "monitorPositions v (looked_at v e)"
  have core: "same_core ?l ?m" by (rule core_monitor)
  have c: "y_cfg ?m = y_cfg ?l" "y_positions ?m = y_positions ?l" "y_pendingEntries ?m = y_pendingEntries ?l" "y_settings ?m = y_settings ?l"
    "y_settingsLoaded ?m = y_settingsLoaded ?l" "y_loaded ?m = y_loaded ?l" "y_indexReady ?m = y_indexReady ?l"
    "y_lastRawTickAt ?m = y_lastRawTickAt ?l" "y_running ?m = y_running ?l" "y_opportunities ?m = y_opportunities ?l"
    "y_namespaceStale ?m = y_namespaceStale ?l" "y_namespaceEpoch ?m = y_namespaceEpoch ?l" "y_quotes ?m = y_quotes ?l"
    using core by (simp_all add: same_core_def)
  note g = guards_cong [OF c(1-8)]
  have tk: "tick newID v e = autoEnter newID v ?m" by (simp add: tick_def looked_at_def)
  show ?thesis
  proof (cases "autoEnter newID v ?m = ?m")
    case True
    then show ?thesis using that [of "[]"] by (simp add: tk entries_looked_at)
  next
    case False
    have fin: "finite (y_pendingEntries ?m)"
    proof -
      have "finite (mark_set ?l)" using looked_at_ok [OF assms] by (simp add: eng_ok_def)
      then have "finite (Entering ` y_pendingEntries ?l)" by (simp add: mark_set_def)
      then show ?thesis unfolding c(3) by (rule finite_imageD) (simp add: inj_on_def)
    qed
    have guards: "y_running ?m" "PaperTrading (y_cfg ?m)" "v_marketOpen v" "\<not> y_namespaceStale ?m" "v_enabled v" "storeReady ?m" "feedHealthy v ?m"
      and loop: "autoEnter newID v ?m = enter_loop newID v (tokenBudget v None ?m) (y_opportunities ?m) ?m"
      using False unfolding autoEnter_def by (simp_all split: if_splits)
    obtain js where js: "entries (autoEnter newID v ?m) = entries ?m @ js" "list_all (may_enter newID v ?m (y_opportunities ?m)) js"
        "distinct (map (\<lambda>j. case j of JEnter t key ep \<Rightarrow> tr_Underlying t | _ \<Rightarrow> []) js)"
        "js \<noteq> [] \<longrightarrow> within_caps (tokenBudget v None ?m) (autoEnter newID v ?m)"
      using enter_loop_effect [OF fin, of newID v "tokenBudget v None ?m" "y_opportunities ?m"] unfolding loop by blast
    have tb: "tokenBudget v None (autoEnter newID v ?m) = tokenBudget v None ?m"
      unfolding loop tokenBudget_def enter_loop_frame by (rule refl)
    have me: "may_enter newID v ?m (y_opportunities ?m) = may_enter newID v ?l (y_opportunities ?l)"
      by (rule ext) (simp add: may_enter_def opens_def c g depthFor_quotes [OF c(13)])
    show ?thesis
      by (rule that [of js]) (use js(1,3,4) js(2) [unfolded me] guards c g tb in \<open>simp_all add: tk entries_looked_at\<close>)
  qed
qed

lemma may_enter_allowed:
  assumes "may_enter newID v (looked_at v e) (y_opportunities (looked_at v e)) j" "y_running (looked_at v e)" "\<not> y_namespaceStale (looked_at v e)"
  obtains t key w strike dir where "j = JEnter t key (y_namespaceEpoch (looked_at v e))"
    "opens newID v (looked_at v e) (EvaluateSynthetic w strike dir (quoteSource v (looked_at v e)) (evalParams v (looked_at v e) (w_LotSize w))) t"
    "op_Status (EvaluateSynthetic w strike dir (quoteSource v (looked_at v e)) (evalParams v (looked_at v e) (w_LotSize w))) = StatusEligible"
    "entry_allowed v (looked_at v e) t key"
proof -
  let ?l = "looked_at v e"
  obtain opp t where o1: "opp \<in> set (y_opportunities ?l)" "op_Status opp = StatusEligible" "op_EntryBlocked opp = None"
      "opens newID v ?l opp t" "j = JEnter t (op_Key opp) (y_namespaceEpoch ?l)"
    using assms(1) unfolding may_enter_def by blast
  from looked_at_opportunities [OF assms(2,3) o1(1-3)] obtain w strike dir where
    x: "opp = (EvaluateSynthetic w strike dir (quoteSource v ?l) (evalParams v ?l (w_LotSize w)))\<lparr>op_EntryBlocked := None\<rparr>"
    "entryBlock v ?l (EvaluateSynthetic w strike dir (quoteSource v ?l) (evalParams v ?l (w_LotSize w))) = None" .
  let ?x = "EvaluateSynthetic w strike dir (quoteSource v ?l) (evalParams v ?l (w_LotSize w))"
  have op: "opens newID v ?l ?x t" using o1(4) unfolding opens_def x(1) entry_leg_unblocked .
  then have f: "tr_Underlying t = op_Underlying ?x" "tr_Expiry t = op_Expiry ?x"
    unfolding opens_def by (auto dest: opened_fields opened_Expiry)
  have "entry_allowed v ?l t (op_Key ?x)" using entryBlock_None [OF x(2)] by (simp add: entry_allowed_def f)
  moreover have "op_Status ?x = StatusEligible" "op_Key opp = op_Key ?x" using o1(2) by (simp_all add: x(1))
  ultimately show ?thesis using that o1(5) op by simp
qed

section \<open>The property\<close>

text \<open>C5: One pass of the loop starts entries only while discovery runs on a fresh namespace with the market open, paper trading on, storage ready and the
  feed alive; each is an opportunity priced as eligible on the books of this very pass, whose underlying is neither held nor being entered nor
  cooling down nor close to expiry and whose signal was confirmed often enough; no two are on one underlying, and together with the positions
  held they stay within the limit on open positions and within the token budget.\<close>

theorem tick_enters_only_allowed:
  assumes "eng_ok d e" "entries (tick newID v e) \<noteq> entries e"
  shows "\<exists>js. entries (tick newID v e) = entries e @ js \<and> js \<noteq> [] \<and>
     distinct (map (\<lambda>j. case j of JEnter t key ep \<Rightarrow> tr_Underlying t | _ \<Rightarrow> []) js) \<and>
     y_running (looked_at v e) \<and> \<not> y_namespaceStale (looked_at v e) \<and> v_marketOpen v \<and> PaperTrading (y_cfg (looked_at v e)) \<and>
     v_enabled v \<and> storeReady (looked_at v e) \<and> feedHealthy v (looked_at v e) \<and>
     within_caps (tokenBudget v None (tick newID v e)) (tick newID v e) \<and>
     list_all (\<lambda>j. \<exists>t key w strike dir opp. j = JEnter t key (y_namespaceEpoch (looked_at v e)) \<and>
       opp = EvaluateSynthetic w strike dir (quoteSource v (looked_at v e)) (evalParams v (looked_at v e) (w_LotSize w)) \<and>
       op_Status opp = StatusEligible \<and> opens newID v (looked_at v e) opp t \<and> entry_allowed v (looked_at v e) t key) js"
proof -
  obtain js where js: "entries (tick newID v e) = entries e @ js"
    "distinct (map (\<lambda>j. case j of JEnter t key ep \<Rightarrow> tr_Underlying t | _ \<Rightarrow> []) js)"
    "js \<noteq> [] \<longrightarrow> y_running (looked_at v e) \<and> \<not> y_namespaceStale (looked_at v e) \<and> v_marketOpen v \<and> PaperTrading (y_cfg (looked_at v e)) \<and>
       v_enabled v \<and> storeReady (looked_at v e) \<and> feedHealthy v (looked_at v e) \<and>
       within_caps (tokenBudget v None (tick newID v e)) (tick newID v e)"
    "list_all (may_enter newID v (looked_at v e) (y_opportunities (looked_at v e))) js"
    by (rule tick_entry [OF assms(1), of newID v])
  have ne: "js \<noteq> []" using js(1) assms(2) by auto
  note r = js(3) [rule_format, OF ne]
  have "list_all (\<lambda>j. \<exists>t key w strike dir opp. j = JEnter t key (y_namespaceEpoch (looked_at v e)) \<and>
       opp = EvaluateSynthetic w strike dir (quoteSource v (looked_at v e)) (evalParams v (looked_at v e) (w_LotSize w)) \<and>
       op_Status opp = StatusEligible \<and> opens newID v (looked_at v e) opp t \<and> entry_allowed v (looked_at v e) t key) js"
    using js(4)
  proof (rule list.pred_mono_strong)
    fix j assume "may_enter newID v (looked_at v e) (y_opportunities (looked_at v e)) j"
    from may_enter_allowed [OF this] r
    show "\<exists>t key w strike dir opp. j = JEnter t key (y_namespaceEpoch (looked_at v e)) \<and>
       opp = EvaluateSynthetic w strike dir (quoteSource v (looked_at v e)) (evalParams v (looked_at v e) (w_LotSize w)) \<and>
       op_Status opp = StatusEligible \<and> opens newID v (looked_at v e) opp t \<and> entry_allowed v (looked_at v e) t key" by metis
  qed
  with js(1,2) r ne show ?thesis by blast
qed

section \<open>A tick that enters\<close>

definition entry_cfg :: config where
  "entry_cfg = \<lparr>StrikeLevel = 1, QuoteMaxAgeMs = f_of_int 1000, FeedMaxAgeMs = f_of_int 10000, AtmHysteresis = f_zero,
     WindowMinIntervalMs = f_zero, EvalIntervalMs = f_of_int 500, PublishIntervalMs = f_of_int 1000, UniverseRefreshMs = f_of_int 60000,
     MaxTokens = f_of_int 100, ShareBoxBudget = False, LaneTokenLimit = f_of_int 100, MaxUnderlyings = f_zero,
     MaxPublishedOpportunities = f_zero, MinExpectedNetProfit = f_of_int 100, SafetyBuffer = f_zero, ExpectedSlippage = f_zero,
     IncludeCarry = False, DefaultRfPct = f_zero, EnableConversion = True, EnableReversal = False, SkipExpiryDay = False,
     PaperTrading = True, MaxOpenPositions = f_of_int 2, SignalConfirmations = f_of_int 1, ReentryCooldownMs = f_zero,
     ConvergenceFloor = f_zero, ConvergencePct = f_zero, MinExitNetPnl = f_zero, ProfitCapturePct = f_zero, MinCapturedPct = f_zero,
     ExpirySafetyMinutes = f_of_int 30, OptionRates = free_rates, FuturesRates = free_rates\<rparr>"

definition entry_book :: "token \<Rightarrow> int \<Rightarrow> int \<Rightarrow> token \<times> quote" where
  "entry_book t b a = (t, \<lparr>q_Token = t, q_Bid = f_of_int b, q_BidQty = f_of_int 75, q_Ask = f_of_int a, q_AskQty = f_of_int 75,
     q_Last = f_of_int b, q_Bids = [], q_Asks = [], q_Version = 1, q_At = 1000, q_ExchangeAt = None, q_Source = []\<rparr>)"

definition entry_env :: env where
  "entry_env = \<lparr>v_now = 1500, v_today = ''2024-01-02'', v_marketOpen = True, v_switching = False, v_authenticated = False,
     v_generation = 0, v_broker = ''zerodha'', v_lane = None, v_enabled = True, v_margins = False, v_rfPct = Some f_zero\<rparr>"

definition entry_engine :: synth where
  "entry_engine = (newEngine entry_cfg ''2024-01-02'')\<lparr>y_running := True, y_settingsLoaded := True, y_loaded := True, y_indexReady := True,
     y_windows := [(''ACME'', demo_window)], y_selection := [''ACME''], y_watched := [1, 2, 3], y_lastRawTickAt := Some 1400,
     y_quotes := NewStore\<lparr>st_quotes := [entry_book 1 99 100, entry_book 2 8 9, entry_book 3 3 4]\<rparr>\<rparr>"

lemma demo_entry: "length (entries (tick (\<lambda>n. ''x'') entry_env entry_engine)) = 1"
  by code_simp

theorem tick_enters_only_allowed_witness:
  "\<exists>j. entries (tick (\<lambda>n. ''x'') entry_env entry_engine) = [j] \<and> feedHealthy entry_env (looked_at entry_env entry_engine) \<and>
     within_caps (tokenBudget entry_env None (tick (\<lambda>n. ''x'') entry_env entry_engine)) (tick (\<lambda>n. ''x'') entry_env entry_engine)"
proof -
  have ok: "eng_ok \<lparr>tb_Rows = [], tb_Index = None, tb_Settings = []\<rparr> entry_engine"
    by (simp add: eng_ok_def mark_set_def entry_engine_def newEngine_def)
  obtain j where j: "entries (tick (\<lambda>n. ''x'') entry_env entry_engine) = [j]"
    using demo_entry by (auto simp: length_Suc_conv)
  have "entries entry_engine = []" by (simp add: entries_def entry_engine_def newEngine_def)
  with j have "entries (tick (\<lambda>n. ''x'') entry_env entry_engine) \<noteq> entries entry_engine" by simp
  from tick_enters_only_allowed [OF ok this] j show ?thesis by auto
qed

end
