(* ===== verification/SynthSafety.thy ===== *)
theory SynthSafety
  imports SynthFrame
begin

text \<open>
  What holds of the paper-trading engine in every reachable state, whatever the interleaving of ticks, API calls,
  goroutines, failing statements and other processes on the same table.
\<close>

section \<open>The invariant\<close>

definition sys_ok :: "sys \<Rightarrow> bool" where
  "sys_ok s \<longleftrightarrow> table_ok (db s) \<and> eng_ok (db s) (eng s) \<and> (\<forall>j \<in># all_jobs s. job_ok (db s) j) \<and>
     mset_set (mark_set (eng s)) = held (all_jobs s) \<and>
     y_watched (eng s) = last ([] # declared s @ token_sets (y_effects (eng s)))"

lemma start_ok: "table_ok d \<Longrightarrow> sys_ok (start_sys cfg today d)"
  by (simp add: sys_ok_def start_sys_def newEngine_def all_jobs_def eng_ok_def mark_set_def)

text \<open>One critical section, given up marks \<open>h\<close> and all.\<close>

lemma good_step:
  assumes ok: "sys_ok s" and M: "jobs s = add_mset j M \<and> h = holder j \<or> M = jobs s \<and> h = {#}"
    and g: "good (db s) h (eng s) (started js e)"
  defines "s' \<equiv> s\<lparr>eng := e, jobs := M + mset js\<rparr>"
  shows "sys_ok s'" "\<forall>tid \<in> pos_ids (eng s). tid \<in> pos_ids e \<or> settled tid (db s)"
proof -
  obtain fx where fx: "y_effects (started js e) = y_effects (eng s) @ fx" "eng_ok (db s) (started js e)"
      "\<forall>tid \<in> pos_ids (eng s). tid \<in> pos_ids (started js e) \<or> settled tid (db s)" "list_all (job_ok (db s)) (spawned fx)"
      "mset_set (mark_set (started js e)) + h = mset_set (mark_set (eng s)) + held (mset (spawned fx))"
      "y_watched (started js e) = last (y_watched (eng s) # token_sets fx)"
    using g ok unfolding good_def sys_ok_def by blast
  have st: "mark_set (started js e) = mark_set e" "y_positions (started js e) = y_positions e" "y_watched (started js e) = y_watched e"
    "y_namespaceStale (started js e) = y_namespaceStale e"
    by (simp_all add: started_def mark_set_def)
  have sp: "spawned (map ESpawn js) = js" "token_sets (map ESpawn js) = []" for js by (induction js) simp_all
  have eff: "y_effects e @ map ESpawn js = y_effects (eng s) @ fx" using fx(1) by (simp add: started_def)
  have all: "mset (spawned (y_effects e)) + mset js = mset (spawned (y_effects (eng s))) + mset (spawned fx)"
    using arg_cong [OF eff, of "\<lambda>es. mset (spawned es)"] by (simp add: sp)
  have jb: "all_jobs s' + (jobs s - M) = all_jobs s + mset (spawned fx)"
    using M all by (auto simp: s'_def all_jobs_def ac_simps)
  have jh: "held (jobs s - M) = h" "\<forall>x \<in># jobs s - M. x \<in># all_jobs s" using M by (auto simp: all_jobs_def dest: in_diffD)
  have hs: "held (all_jobs s') + h = held (all_jobs s) + held (mset (spawned fx))"
    using arg_cong [OF jb, of held] jh(1) by simp
  have "\<forall>x \<in># all_jobs s'. job_ok (db s) x"
  proof
    fix x assume "x \<in># all_jobs s'"
    then have "x \<in># all_jobs s + mset (spawned fx)" unfolding jb [symmetric] by simp
    then show "job_ok (db s) x" using ok fx(4) by (auto simp: sys_ok_def list_all_iff)
  qed
  moreover have "mset_set (mark_set e) = held (all_jobs s')"
  proof -
    have "mset_set (mark_set e) + h = held (all_jobs s') + h"
      using fx(5) hs ok by (simp add: st sys_ok_def)
    then show ?thesis by simp
  qed
  moreover have "y_watched e = last ([] # declared s @ token_sets (y_effects e))"
  proof -
    have "token_sets (y_effects e) = token_sets (y_effects (eng s)) @ token_sets fx"
      using arg_cong [OF eff, of token_sets] by (simp add: sp)
    then show ?thesis using fx(6) ok by (cases "token_sets fx = []") (auto simp: st sys_ok_def)
  qed
  moreover have "eng_ok (db s) e" using fx(2) by (simp add: eng_ok_def st)
  ultimately show "sys_ok s'" using ok by (simp add: sys_ok_def s'_def)
  show "\<forall>tid \<in> pos_ids (eng s). tid \<in> pos_ids e \<or> settled tid (db s)" using fx(3) by (simp add: st)
qed

lemma effect_ok:
  assumes "sys_ok s" "y_effects (eng s) = x # xs"
  shows "sys_ok (perform x (s\<lparr>eng := (eng s)\<lparr>y_effects := xs\<rparr>\<rparr>))"
proof -
  have m: "mark_set ((eng s)\<lparr>y_effects := xs\<rparr>) = mark_set (eng s)" by (simp add: mark_set_def)
  show ?thesis using assms by (cases x) (auto simp: sys_ok_def all_jobs_def eng_ok_def m)
qed

lemma mark_held: "sys_ok s \<Longrightarrow> j \<in># all_jobs s \<Longrightarrow> set_mset (holder j) \<subseteq> mark_set (eng s)"
proof -
  assume s: "sys_ok s" "j \<in># all_jobs s"
  have "holder j \<subseteq># held (all_jobs s)" using multi_member_split [OF s(2)] by (auto simp del: add_mset_add_single)
  then have h: "holder j \<subseteq># mset_set (mark_set (eng s))" using s(1) by (simp add: sys_ok_def)
  have "finite (mark_set (eng s))" using s(1) by (simp add: sys_ok_def eng_ok_def)
  then show ?thesis using mset_subset_eqD [OF h] by auto
qed

theorem step_ok:
  assumes "synth_step newID s s'" "sys_ok s"
  shows "sys_ok s' \<and> grows (db s) (db s') \<and> (\<forall>tid \<in> pos_ids (eng s). tid \<in> pos_ids (eng s') \<or> settled tid (db s'))"
  using assms
proof (cases rule: synth_step.cases)
  case (Api v c e js)
  from good_step [OF assms(2) disjI2 [OF conjI [OF refl refl]] api_good [OF Api(2)]] Api(1) show ?thesis by simp
next
  case (Effect x xs)
  have "eng (perform x (s\<lparr>eng := (eng s)\<lparr>y_effects := xs\<rparr>\<rparr>)) = (eng s)\<lparr>y_effects := xs\<rparr>"
    "db (perform x (s\<lparr>eng := (eng s)\<lparr>y_effects := xs\<rparr>\<rparr>)) = db s" by (cases x; simp)+
  with effect_ok [OF assms(2) Effect(2)] Effect(1) show ?thesis by simp
next
  case (Statement j M oc en js d)
  have j: "job_ok (db s) j" "table_ok (db s)" using assms(2) Statement(2) by (auto simp: sys_ok_def all_jobs_def)
  note x = statement_good [OF Statement(3) j(2,1)]
  have "sys_ok s'" using assms(2) x Statement(1,2)
    by (auto simp: sys_ok_def all_jobs_def list_all_iff intro: job_ok_grows eng_ok_grows)
  with x Statement(1) show ?thesis by auto
next
  case (Remote j M a j')
  note x = remote_good [OF Remote(3)]
  have "sys_ok s'" using assms(2) x Remote(1,2) by (auto simp: sys_ok_def all_jobs_def)
  with Remote(1) show ?thesis by auto
next
  case (Section j M v e js)
  have j: "j \<in># all_jobs s" using Section(2) by (simp add: all_jobs_def)
  then have "job_ok (db s) j" using assms(2) by (simp add: sys_ok_def)
  from good_step [OF assms(2) disjI1 [OF conjI [OF Section(2) refl]] section_good [OF Section(3) this mark_held [OF assms(2) j]]]
  show ?thesis using Section(1) by simp
next
  case (Foreign w)
  then have x: "table_ok (foreign_write w (db s)) \<and> grows (db s) (foreign_write w (db s))"
    using foreign_good assms(2) by (simp add: sys_ok_def)
  have "sys_ok s'" using assms(2) x Foreign
    by (auto simp: sys_ok_def all_jobs_def intro: job_ok_grows eng_ok_grows)
  with x Foreign show ?thesis by auto
qed

lemma reach_ok:
  assumes "synth_reach newID s s'" "sys_ok s"
  shows "sys_ok s' \<and> grows (db s) (db s')"
  using assms unfolding synth_reach_def
proof (induction rule: rtranclp_induct)
  case (step y z)
  then have "sys_ok y" "grows (db s) (db y)" by simp_all
  moreover have "sys_ok z" "grows (db y) (db z)" using step_ok [OF step.hyps(2) \<open>sys_ok y\<close>] by simp_all
  ultimately show ?case by (auto simp: grows_def)
qed simp

end
