(* ===== verification/SynthRun.thy ===== *)
theory SynthRun
  imports SynthSafety
begin

text \<open>
  A run of the paper-trading engine on concrete data: a server boots with one stored position that is past its
  settlement, and its loop ticks while the stored trades are still being loaded.
\<close>

section \<open>The data\<close>

definition boot_trade :: trade where
  "boot_trade = \<lparr>tr_ID = ''65a000000000000000000001'', tr_Status = TOpen, tr_Key = ''K'', tr_Broker = ''zerodha'',
     tr_ExecutionMode = ''paper_touch'', tr_OrderType = ''LIMIT'', tr_Underlying = ''NIFTY'', tr_Name = ''NIFTY'', tr_IsIndex = True,
     tr_Expiry = ''2024-01-01'', tr_Strike = f_of_int 100, tr_AtmStrike = f_of_int 100, tr_AtmOffset = f_zero, tr_Direction = Conversion,
     tr_LotSize = f_of_int 50, tr_Quantity = f_of_int 50, tr_OpenedAt = 1, tr_OpenedDay = ''2023-12-20'', tr_Legs = [],
     tr_EntryFuturePrice = f_of_int 100, tr_EntrySyntheticPrice = f_of_int 101, tr_EntryLockPerUnit = f_of_int 1,
     tr_EntryCarryPerUnit = f_zero, tr_EntryEdge = f_of_int 50, tr_EntryGrossEdge = f_of_int 50, tr_EntryCharges = f_of_int 10,
     tr_EstimatedExitCharges = f_of_int 10, tr_EntryNetEdge = f_of_int 30, tr_ExpectedNetProfit = f_of_int 30,
     tr_MinExpectedNetProfit = f_zero, tr_SafetyBuffer = f_zero, tr_ExpectedSlippage = f_zero, tr_RfPct = f_zero,
     tr_OptionRateVersion = ''v'', tr_FuturesRateVersion = ''v'', tr_ClosedAt = None, tr_ClosedDay = None, tr_ExitReason = None,
     tr_GrossPnl = None, tr_ExitCharges = None, tr_TotalCharges = None, tr_NetPnl = None, tr_ExitNote = None,
     tr_Margin = None, tr_MarginSource = None, tr_MarginHedgeBenefit = None, tr_MarginAt = None, tr_MarginError = None\<rparr>"

definition boot_row :: trade_row where
  "boot_row = \<lparr>row_Trade = boot_trade, row_Status = ROpen, row_DeletedAt = None, row_DeletedFrom = None, row_DeleteReason = None, row_DeletedBy = None\<rparr>"

definition boot_table :: table where
  "boot_table = \<lparr>tb_Rows = [boot_row], tb_Index = Some created_index, tb_Settings = []\<rparr>"

definition boot_env :: env where
  "boot_env = \<lparr>v_now = 1000, v_today = ''2024-01-02'', v_marketOpen = False, v_switching = False, v_authenticated = False,
     v_generation = 0, v_broker = ''zerodha'', v_lane = None, v_enabled = True, v_margins = False, v_rfPct = None\<rparr>"

definition boot_cfg :: config where
  "boot_cfg = LoadConfig (\<lambda>k. [])"

lemma boot_table_ok: "table_ok boot_table"
  by (simp add: table_ok_def boot_table_def boot_row_def boot_trade_def CheckID_def hex_char_def is_digit_def ascii_lower_def open_rows_def)

lemma boot_loaded: "sr_Trade (scanTrade boot_row) = boot_trade"
  by (simp add: scanTrade_def boot_row_def boot_trade_def Of_def IsID_def Zerodha_def Dhan_def Legacy_def)

lemma boot_past: "IsPastSettlement (tr_Expiry boot_trade) (v_today boot_env) (v_now boot_env) (v_marketOpen boot_env)"
  by (simp add: boot_trade_def boot_env_def) code_simp

section \<open>Steps on explicit states\<close>

lemma run_api:
  assumes "synth_reach newID x \<lparr>eng = e, jobs = M, db = d, declared = D\<rparr>" "api newID v c e = (e', js)"
  shows "synth_reach newID x \<lparr>eng = e', jobs = M + mset js, db = d, declared = D\<rparr>"
  using assms(1) synth_step.Api [of newID v c "\<lparr>eng = e, jobs = M, db = d, declared = D\<rparr>" e' js] assms(2)
  unfolding synth_reach_def by (auto intro: rtranclp.rtrancl_into_rtrancl)

lemma run_spawn:
  assumes "synth_reach newID x \<lparr>eng = e, jobs = M, db = d, declared = D\<rparr>" "y_effects e = [ESpawn j]" "e' = e\<lparr>y_effects := []\<rparr>"
  shows "synth_reach newID x \<lparr>eng = e', jobs = add_mset j M, db = d, declared = D\<rparr>"
  using assms(1) synth_step.Effect [of "\<lparr>eng = e, jobs = M, db = d, declared = D\<rparr>" "ESpawn j" "[]" newID] assms(2,3)
  unfolding synth_reach_def by (auto intro: rtranclp.rtrancl_into_rtrancl)

lemma run_statement:
  assumes "synth_reach newID x \<lparr>eng = e, jobs = add_mset j M, db = d, declared = D\<rparr>" "db_call oc en j d = Some (js, d')"
  shows "synth_reach newID x \<lparr>eng = e, jobs = M + mset js, db = d', declared = D\<rparr>"
  using assms(1) synth_step.Statement [of "\<lparr>eng = e, jobs = add_mset j M, db = d, declared = D\<rparr>" j M oc en js d' newID] assms(2)
  unfolding synth_reach_def by (auto intro: rtranclp.rtrancl_into_rtrancl)

lemma run_section:
  assumes "synth_reach newID x \<lparr>eng = e, jobs = add_mset j M, db = d, declared = D\<rparr>" "section_of v j e = Some (e', js)"
  shows "synth_reach newID x \<lparr>eng = e', jobs = M + mset js, db = d, declared = D\<rparr>"
  using assms(1) synth_step.Section [of "\<lparr>eng = e, jobs = add_mset j M, db = d, declared = D\<rparr>" j M v e' js newID] assms(2)
  unfolding synth_reach_def by (auto intro: rtranclp.rtrancl_into_rtrancl)

section \<open>The run\<close>

definition boot_sys :: sys where
  "boot_sys = start_sys boot_cfg ''2024-01-02'' boot_table"

definition engine1 :: synth where
  "engine1 = (newEngine boot_cfg ''2024-01-02'')\<lparr>y_booted := True, y_loopOn := True, y_lastLoadAttemptAt := 1000, y_loading := True,
     y_nextTurn := 1\<rparr>"

definition engine2 :: synth where
  "engine2 = engine1\<lparr>y_turnsDone := 1, y_settingsLoaded := True\<rparr>"

definition engine3 :: synth where
  "engine3 = engine2\<lparr>y_positions := [(tr_ID boot_trade, boot_trade)], y_unlinked := {tr_ID boot_trade}, y_lastRelinkAt := 0\<rparr>"

definition boot_closed :: trade where
  "boot_closed = SettleTradeAtExpiry boot_trade 1000 ''2024-01-02''"

definition engine4 :: synth where
  "engine4 = engine3\<lparr>y_lastMarketOpen := Some False, y_opportunities := [], y_eligibleStreak := [], y_nextOp := 1,
     y_closing := {tr_ID boot_trade}, y_effects := [ESpawn (JClose boot_trade boot_closed 0)]\<rparr>"

lemma boot_step: "Boot boot_env (newEngine boot_cfg ''2024-01-02'') = (engine1, Some (JLoadSettings Booted 0))"
  by (simp add: Boot_def beginLoad_def ensureLoop_def takeTurn_def storeReady_def Let_def newEngine_def engine1_def boot_env_def)

lemma saved_none: "apply_saved [] s = s"
  by (simp add: apply_saved_def SettingKeys_def)

lemma stored_none: "LoadSettings True boot_table = Inr []"
  by (simp add: LoadSettings_def boot_table_def SettingKeys_def)

lemma settings_step: "settings_loaded Booted 0 (Inr []) engine1 = (engine2, JLoadOpen Booted)"
  by (simp add: settings_loaded_def Let_def saved_none after_settings_def engine2_def engine1_def newEngine_def endTurn_def)

lemma open_step: "LoadOpen True boot_table = Inr [boot_trade]"
  by (simp add: LoadOpen_def boot_table_def open_rows_def boot_loaded) (simp add: boot_row_def)

lemma adopt_step: "open_loaded boot_env Booted (Inr [boot_trade]) engine2 = (engine3, JLoadClosed Booted ''2024-01-02'')"
  by (simp add: open_loaded_def adopt_def adopt_row_def engine3_def engine2_def engine1_def newEngine_def boot_env_def)
    (simp add: boot_trade_def)

lemma tick_step: "tick newID boot_env engine3 = engine4"
proof -
  have a: "retryLoad boot_env engine3 = engine3"
    by (simp add: retryLoad_def loadRetryMs_def boot_env_def engine3_def engine2_def engine1_def)
  have b: "rollDay boot_env engine3 = engine3"
    by (simp add: rollDay_def boot_env_def engine3_def engine2_def engine1_def newEngine_def)
  let ?e = "engine3\<lparr>y_lastMarketOpen := Some False\<rparr>"
  have c: "noteMarket boot_env engine3 = ?e"
    by (simp add: noteMarket_def boot_env_def engine3_def engine2_def engine1_def newEngine_def)
  have d: "maybeRefreshUniverse boot_env ?e = ?e" "backfillMargins boot_env ?e = ?e"
    by (simp_all add: maybeRefreshUniverse_def backfillMargins_def boot_env_def)
  have f: "fitTick boot_env ?e = ?e"
    by (simp add: fitTick_def fitToBudget_def Let_def pickWithinBudget_def mayGrow_def engine3_def engine2_def engine1_def newEngine_def)
  have g: "evaluate boot_env True ?e = ?e\<lparr>y_opportunities := [], y_eligibleStreak := []\<rparr>"
    by (simp add: evaluate_def engine3_def engine2_def engine1_def newEngine_def)
  have h: "monitorPositions boot_env (?e\<lparr>y_opportunities := [], y_eligibleStreak := []\<rparr>) = engine4"
    using boot_past
    by (simp add: monitorPositions_def trades_def monitor_one_def finalize_def Let_def goLocked_def boot_closed_def boot_env_def
        engine4_def engine3_def engine2_def engine1_def newEngine_def)
  have "autoEnter newID boot_env engine4 = engine4" by (simp add: autoEnter_def boot_env_def)
  then show ?thesis by (simp only: tick_def a b c d f g h)
qed

text \<open>The close is stored, and the load of the closed trades reads it, before the engine hears that the close succeeded.\<close>

definition closed_table :: table where
  "closed_table = boot_table\<lparr>tb_Rows := [close_row boot_closed boot_row]\<rparr>"

definition engine5 :: synth where
  "engine5 = engine4\<lparr>y_effects := []\<rparr>"

lemma boot_closed_fields: "tr_ID boot_closed = tr_ID boot_trade" "tr_Status boot_closed = TClosed" "tr_ClosedDay boot_closed = Some ''2024-01-02''"
  "tr_Legs boot_closed = []" "tr_ClosedAt boot_closed = Some 1000"
  by (simp_all add: boot_closed_def SettleTradeAtExpiry_def Let_def boot_trade_def)

lemma boot_close_step: "Close True boot_closed boot_table = (Inr True, closed_table)"
proof -
  have "checks boot_closed"
    by (simp add: checks_def boot_closed_def SettleTradeAtExpiry_def Let_def boot_trade_def CheckID_def hex_char_def is_digit_def ascii_lower_def)
  then show ?thesis
    by (simp add: Close_def Let_def boot_table_def matches_def boot_closed_fields update_rows_def closed_table_def)
      (simp add: boot_row_def)
qed

lemma closed_row_loaded: "sr_Trade (scanTrade (close_row boot_closed boot_row)) = boot_closed"
  by (simp add: close_row_def scanTrade_def boot_row_def status_of_def tradeValues_def applyMargin_def marginOf_def boot_closed_def
      SettleTradeAtExpiry_def Let_def boot_trade_def Of_def IsID_def Zerodha_def Dhan_def Legacy_def)

lemma closed_step: "LoadClosed True closedTodayLoadLimit (Some ''2024-01-02'') closed_table = Inr [boot_closed]"
proof -
  have "since_ok (Some ''2024-01-02'') (close_row boot_closed boot_row)"
    by (simp add: since_ok_def close_row_def applyMargin_fields tradeValues_def boot_closed_fields)
  then show ?thesis
    by (simp add: LoadClosed_def Let_def closed_table_def boot_table_def closed_row_loaded closedTodayLoadLimit_def)
      (simp add: close_row_def status_of_def boot_closed_fields)
qed

definition engine6 :: synth where
  "engine6 = engine5\<lparr>y_closedToday := [boot_closed], y_closedDay := ''2024-01-02'', y_loaded := True\<rparr>"

lemma merge_step: "closed_loaded Booted ''2024-01-02'' (Inr [boot_closed]) engine5 = (engine6, JNeedIndex Booted)"
  by (simp add: closed_loaded_def merge_closed_def engine6_def engine5_def engine4_def engine3_def engine2_def engine1_def newEngine_def)

text \<open>Everything up to the moment where the close's reply is waiting.\<close>

lemma boot_run:
  "synth_reach newID boot_sys \<lparr>eng = engine6, jobs = {#JCloseRet boot_trade boot_closed 0 (Inr True), JNeedIndex Booted#},
     db = closed_table, declared = []\<rparr>"
proof -
  have "synth_reach newID boot_sys \<lparr>eng = newEngine boot_cfg ''2024-01-02'', jobs = {#}, db = boot_table, declared = []\<rparr>"
    by (simp add: boot_sys_def start_sys_def synth_reach_def)
  from run_api [OF this, of boot_env CBoot engine1 "[JLoadSettings Booted 0]"] boot_step
  have "synth_reach newID boot_sys \<lparr>eng = engine1, jobs = {#JLoadSettings Booted 0#}, db = boot_table, declared = []\<rparr>" by simp
  from run_section [OF this, of boot_env engine1 "[JAskSettings Booted 0]"]
  have "synth_reach newID boot_sys \<lparr>eng = engine1, jobs = {#JAskSettings Booted 0#}, db = boot_table, declared = []\<rparr>"
    by (simp add: section_of_def settings_turn_def engine1_def newEngine_def)
  from run_statement [OF this, of Fine True "[JLoadSettingsRet Booted 0 (Inr [])]" boot_table]
  have "synth_reach newID boot_sys \<lparr>eng = engine1, jobs = {#JLoadSettingsRet Booted 0 (Inr [])#}, db = boot_table, declared = []\<rparr>"
    by (simp add: db_call_def read_def stored_none)
  from run_section [OF this, of boot_env engine2 "[JLoadOpen Booted]"]
  have "synth_reach newID boot_sys \<lparr>eng = engine2, jobs = {#JLoadOpen Booted#}, db = boot_table, declared = []\<rparr>"
    by (simp add: section_of_def settings_step)
  from run_statement [OF this, of Fine True "[JLoadOpenRet Booted (Inr [boot_trade])]" boot_table]
  have "synth_reach newID boot_sys \<lparr>eng = engine2, jobs = {#JLoadOpenRet Booted (Inr [boot_trade])#}, db = boot_table, declared = []\<rparr>"
    by (simp add: db_call_def read_def open_step)
  from run_section [OF this, of boot_env engine3 "[JLoadClosed Booted ''2024-01-02'']"]
  have "synth_reach newID boot_sys \<lparr>eng = engine3, jobs = {#JLoadClosed Booted ''2024-01-02''#}, db = boot_table, declared = []\<rparr>"
    by (simp add: section_of_def adopt_step)
  from run_api [OF this, of boot_env CTick engine4 "[]"]
  have "synth_reach newID boot_sys \<lparr>eng = engine4, jobs = {#JLoadClosed Booted ''2024-01-02''#}, db = boot_table, declared = []\<rparr>"
    using tick_step [of newID] by (simp add: engine3_def engine2_def engine1_def)
  from run_spawn [OF this, of "JClose boot_trade boot_closed 0" engine5]
  have "synth_reach newID boot_sys \<lparr>eng = engine5, jobs = {#JClose boot_trade boot_closed 0, JLoadClosed Booted ''2024-01-02''#},
      db = boot_table, declared = []\<rparr>" by (simp add: engine5_def engine4_def)
  from run_statement [OF this, of Fine True "[JCloseRet boot_trade boot_closed 0 (Inr True)]" closed_table]
  have "synth_reach newID boot_sys \<lparr>eng = engine5, jobs = {#JLoadClosed Booted ''2024-01-02'', JCloseRet boot_trade boot_closed 0 (Inr True)#},
      db = closed_table, declared = []\<rparr>" by (simp add: db_call_def boot_close_step add_mset_commute)
  from run_statement [OF this, of Fine True "[JLoadClosedRet Booted ''2024-01-02'' (Inr [boot_closed])]" closed_table]
  have "synth_reach newID boot_sys \<lparr>eng = engine5, jobs = {#JLoadClosedRet Booted ''2024-01-02'' (Inr [boot_closed]),
      JCloseRet boot_trade boot_closed 0 (Inr True)#}, db = closed_table, declared = []\<rparr>"
    by (simp add: db_call_def read_def closed_step add_mset_commute)
  from run_section [OF this, of boot_env engine6 "[JNeedIndex Booted]"] show ?thesis
    by (simp add: section_of_def merge_step add_mset_commute)
qed

text \<open>The reply comes: the trade is put in today's list a second time.\<close>

definition engine7 :: synth where
  "engine7 = fst (finishFinalize boot_env boot_trade boot_closed 0 (Inr True) engine6)"

lemma applySubscriptions_frame [simp]:
  "y_closedToday (applySubscriptions e) = y_closedToday e" "y_running (applySubscriptions e) = y_running e"
  "y_positions (applySubscriptions e) = y_positions e"
  by (simp_all add: applySubscriptions_def Let_def setTokensLocked_def)

lemma broadcast_frame [simp]:
  "y_closedToday (broadcast f e) = y_closedToday e" "y_running (broadcast f e) = y_running e" "y_positions (broadcast f e) = y_positions e"
  by (simp_all add: broadcast_def)

lemma won_frame:
  assumes "\<not> y_running e" "tr_ClosedDay c = Some (y_closedDay e)"
  shows "y_closedToday (closed_won v c e) = c # y_closedToday e" "y_positions (closed_won v c e) = y_positions e"
  using assms by (simp_all add: closed_won_def Let_def book_today_def refreshRows_def publish_def)

lemma finish_frame:
  assumes "\<not> y_running e" "tr_ClosedDay cl = Some (y_closedDay e)"
  shows "y_closedToday (fst (finishFinalize v t cl op (Inr True) e)) = with_margin (current_open e t) cl # y_closedToday e"
    "y_positions (fst (finishFinalize v t cl op (Inr True) e)) = AList.delete (tr_ID t) (y_positions e)"
proof -
  let ?e1 = "cooldown v (tr_Underlying t) (forget_position (tr_ID t) e)"
  have e1: "\<not> y_running ?e1" "y_closedDay ?e1 = y_closedDay e" "y_closedToday ?e1 = y_closedToday e"
    "y_positions ?e1 = AList.delete (tr_ID t) (y_positions e)"
    using assms(1) by (simp_all add: cooldown_def forget_position_def)
  have m: "tr_ClosedDay (with_margin (current_open e t) cl) = Some (y_closedDay ?e1)"
    using assms(2) e1(2) by (simp add: with_margin_def applyMargin_def)
  note w = won_frame [OF e1(1) m]
  show "y_closedToday (fst (finishFinalize v t cl op (Inr True) e)) = with_margin (current_open e t) cl # y_closedToday e"
    using w(1) [of v] e1(3) by (simp add: finishFinalize_def Let_def closing_done_def finishOp_def)
  show "y_positions (fst (finishFinalize v t cl op (Inr True) e)) = AList.delete (tr_ID t) (y_positions e)"
    using w(2) [of v] e1(4) by (simp add: finishFinalize_def Let_def closing_done_def finishOp_def)
qed

lemma engine6_fields: "\<not> y_running engine6" "y_closedDay engine6 = ''2024-01-02''" "y_closedToday engine6 = [boot_closed]"
  "y_positions engine6 = [(tr_ID boot_trade, boot_trade)]"
  by (simp_all add: engine6_def engine5_def engine4_def engine3_def engine2_def engine1_def newEngine_def)

lemma engine7_fields: "map tr_ID (y_closedToday engine7) = [tr_ID boot_trade, tr_ID boot_trade]" "y_positions engine7 = []"
  using finish_frame [OF engine6_fields(1), of boot_closed boot_env boot_trade 0]
  by (simp_all add: engine7_def engine6_fields boot_closed_fields with_margin_def)

lemma boot_run_end:
  "synth_step newID \<lparr>eng = engine6, jobs = {#JCloseRet boot_trade boot_closed 0 (Inr True), JNeedIndex Booted#}, db = closed_table, declared = []\<rparr>
     \<lparr>eng = engine7, jobs = {#JNeedIndex Booted#}, db = closed_table, declared = []\<rparr>"
  using synth_step.Section [of "\<lparr>eng = engine6, jobs = {#JCloseRet boot_trade boot_closed 0 (Inr True), JNeedIndex Booted#}, db = closed_table, declared = []\<rparr>"
      "JCloseRet boot_trade boot_closed 0 (Inr True)" "{#JNeedIndex Booted#}" boot_env engine7 "[]" newID]
  by (simp add: section_of_def engine7_def case_prod_beta finishFinalize_def Let_def)

section \<open>What every run keeps\<close>

lemma reachable_ok: "table_ok d \<Longrightarrow> synth_reach newID (start_sys cfg today d) s \<Longrightarrow> sys_ok s"
  using reach_ok start_ok by blast

text \<open>C1: In every reachable state each open position is kept under its own id and is a row of the table, and no step (a tick, an API call,
  a failing or acknowledged write, a restart load, another process) drops one unless its row is closed or deleted.\<close>

theorem position_leaves_only_when_settled:
  assumes "table_ok d" "synth_reach newID (start_sys cfg today d) s" "synth_step newID s s'"
  shows "list_all (\<lambda>(i, t). i = tr_ID t \<and> i \<in> row_ids (db s)) (y_positions (eng s)) \<and>
     (\<forall>tid \<in> pos_ids (eng s) - pos_ids (eng s'). settled tid (db s') \<and> \<not> is_open tid (db s'))"
proof -
  have ok: "sys_ok s" by (rule reachable_ok [OF assms(1,2)])
  note st = step_ok [OF assms(3) ok]
  then have "table_ok (db s')" by (simp add: sys_ok_def)
  then have "\<forall>tid \<in> pos_ids (eng s) - pos_ids (eng s'). settled tid (db s') \<and> \<not> is_open tid (db s')"
    using st settled_not_open by blast
  with ok show ?thesis by (simp add: sys_ok_def eng_ok_def)
qed

lemma boot_position: "pos_ids engine6 - pos_ids engine7 = {tr_ID boot_trade}"
  by (simp add: engine6_fields engine7_fields)

theorem position_leaves_only_when_settled_witness: "settled (tr_ID boot_trade) closed_table \<and> \<not> is_open (tr_ID boot_trade) closed_table"
  using position_leaves_only_when_settled [OF boot_table_ok boot_run [of "\<lambda>n. ''x''", unfolded boot_sys_def] boot_run_end]
  by (simp add: boot_position)

text \<open>C4: Every mark of the engine (a trade being closed or deleted, an underlying being entered, a margin being asked, the re-link and the load in
  progress) is held by exactly one goroutine, and every such goroutine holds its mark: no two of them work on one trade, and no mark is left behind.\<close>

theorem marks_held_once:
  assumes "table_ok d" "synth_reach newID (start_sys cfg today d) s"
  shows "count (held (all_jobs s)) m = (if m \<in> mark_set (eng s) then 1 else 0)"
proof -
  have "sys_ok s" by (rule reachable_ok [OF assms])
  then have "finite (mark_set (eng s))" "held (all_jobs s) = mset_set (mark_set (eng s))" by (simp_all add: sys_ok_def eng_ok_def)
  then show ?thesis by (simp add: count_mset_set)
qed

theorem marks_held_once_witness:
  "count (held {#JCloseRet boot_trade boot_closed 0 (Inr True), JNeedIndex Booted#}) (Closing (tr_ID boot_trade)) = 1"
proof -
  have "y_effects engine6 = []" "y_closing engine6 = {tr_ID boot_trade}"
    by (simp_all add: engine6_def engine5_def engine4_def)
  with marks_held_once [OF boot_table_ok boot_run [of "\<lambda>n. ''x''", unfolded boot_sys_def], of "Closing (tr_ID boot_trade)"]
  show ?thesis by (simp add: mark_set_def all_jobs_def)
qed

text \<open>C16: The last token set declared on the lane, counting those still queued, is the set the engine watches, in every reachable state; and while the
  broker's token namespace is being replaced that set is empty.\<close>

theorem last_declared_is_watched:
  assumes "table_ok d" "synth_reach newID (start_sys cfg today d) s"
  shows "y_watched (eng s) = last ([] # declared s @ token_sets (y_effects (eng s))) \<and> (y_namespaceStale (eng s) \<longrightarrow> y_watched (eng s) = [])"
  using reachable_ok [OF assms] by (auto simp: sys_ok_def eng_ok_def)

theorem last_declared_is_watched_witness: "y_watched engine6 = []"
proof -
  have "y_effects engine6 = []" by (simp add: engine6_def engine5_def)
  with last_declared_is_watched [OF boot_table_ok boot_run [of "\<lambda>n. ''x''", unfolded boot_sys_def]] show ?thesis by simp
qed

text \<open>C39: A server that boots while a stored position is being closed can book that trade twice: the load of today's closed trades reads the row
  that the loop has just closed, and the reply of the close puts the same trade in the list again, so the day's closed trades (and the profit summed over
  them) count it twice although the table has one row.\<close>

theorem boot_race_books_twice:
  "\<exists>s. synth_reach newID boot_sys s \<and> map row_id (tb_Rows (db s)) = [tr_ID boot_trade] \<and>
     map tr_ID (y_closedToday (eng s)) = [tr_ID boot_trade, tr_ID boot_trade]"
proof (intro exI conjI)
  show "synth_reach newID boot_sys \<lparr>eng = engine7, jobs = {#JNeedIndex Booted#}, db = closed_table, declared = []\<rparr>"
    using boot_run [of newID] boot_run_end [of newID] unfolding synth_reach_def by (rule rtranclp.rtrancl_into_rtrancl)
qed (simp_all add: closed_table_def boot_table_def engine7_fields close_row_def boot_closed_fields)

end
