(* ===== verification/SynthSpelling.thy ===== *)
theory SynthSpelling
  imports SynthRun
begin

text \<open>
  A delete request that spells the trade's id in upper case: the store reads ids in either case, the engine compares
  them as they are.
\<close>

definition other_id :: string where
  "other_id = ''65A000000000000000000001''"

lemma other_id_canonical: "CheckID other_id = Some (tr_ID boot_trade)"
  by (simp add: boot_trade_def) code_simp

lemma other_id_differs: "other_id \<noteq> tr_ID boot_trade"
  by (simp add: other_id_def boot_trade_def)

definition audit :: delete_audit where
  "audit = \<lparr>da_Reason = None, da_Actor = ''admin'', da_At = 1000\<rparr>"

definition closed_row :: trade_row where
  "closed_row = close_row boot_closed boot_row"

definition deleted_table :: table where
  "deleted_table = closed_table\<lparr>tb_Rows := [delete_row RClosed audit closed_row]\<rparr>"

definition engine_l :: synth where
  "engine_l = engine2\<lparr>y_closedToday := [boot_closed], y_closedDay := ''2024-01-02'', y_loaded := True\<rparr>"

definition engine_z :: synth where
  "engine_z = fst (deleteClosed_end boot_env other_id (Inr ''deleted'') engine_l)"

lemma closed_table_rows: "tb_Rows closed_table = [closed_row]" "row_Status closed_row = RClosed" "row_id closed_row = tr_ID boot_trade"
  "row_Trade closed_row = tradeValues boot_closed"
  by (simp_all add: closed_table_def closed_row_def close_row_def status_of_def boot_closed_fields)
    (simp_all add: close_row_def boot_row_def applyMargin_def marginOf_def tradeValues_def boot_closed_def SettleTradeAtExpiry_def Let_def boot_trade_def)

lemma audit_fields: "da_Reason audit = None"
  by (simp add: audit_def)

lemma no_open_row: "LoadOpen True closed_table = Inr []"
  by (simp add: LoadOpen_def open_rows_def closed_table_rows)

lemma adopt_none: "open_loaded boot_env Booted (Inr []) engine2 = (engine2, JLoadClosed Booted ''2024-01-02'')"
  by (simp add: open_loaded_def adopt_def boot_env_def)

lemma merge_one: "closed_loaded Booted ''2024-01-02'' (Inr [boot_closed]) engine2 = (engine_l, JNeedIndex Booted)"
  by (simp add: closed_loaded_def merge_closed_def engine_l_def engine2_def engine1_def newEngine_def)

lemma get_step: "Get True other_id closed_table = Inr (Some (scanTrade closed_row))"
  by (simp add: Get_def other_id_canonical row_at_def closed_table_rows boot_closed_fields)

lemma stored_closed: "deleteStored other_id audit [] (Inr (Some (scanTrade closed_row))) = Inr (JDeleteClosed other_id (scanTrade closed_row) audit)"
  by (simp add: deleteStored_def scanTrade_def closed_table_rows)

lemma mark_step: "MarkDeleted True other_id RClosed audit closed_table = (Inr True, deleted_table)"
  by (simp add: MarkDeleted_def other_id_canonical matches_def closed_table_rows boot_closed_fields update_rows_def deleted_table_def)

lemma delete_step: "DeleteTrade boot_env other_id None ''admin'' [] engine_l = (engine_l, Inr (JDeleteGet other_id audit []))"
  by (simp add: DeleteTrade_def boot_env_def audit_def engine_l_def engine2_def engine1_def newEngine_def)

lemma engine_z_fields: "y_closedToday engine_z = [boot_closed]"
  using other_id_differs
  by (simp add: engine_z_def deleteClosed_end_def afterDelete_def refreshRows_def publish_def forgetClosed_def Let_def engine_l_def
      engine2_def engine1_def newEngine_def boot_closed_fields)

lemma delete_answer: "snd (deleteClosed_end boot_env other_id (Inr ''deleted'') engine_l) = Deleted_ok ''closed'' False"
  by (simp add: deleteClosed_end_def)

lemma spelling_run:
  "synth_reach newID (start_sys boot_cfg ''2024-01-02'' closed_table) \<lparr>eng = engine_z, jobs = {#JNeedIndex Booted#}, db = deleted_table, declared = []\<rparr>"
    (is "synth_reach newID ?s _")
proof -
  have "synth_reach newID ?s \<lparr>eng = newEngine boot_cfg ''2024-01-02'', jobs = {#}, db = closed_table, declared = []\<rparr>"
    by (simp add: start_sys_def synth_reach_def)
  from run_api [OF this, of boot_env CBoot engine1 "[JLoadSettings Booted 0]"] boot_step
  have "synth_reach newID ?s \<lparr>eng = engine1, jobs = {#JLoadSettings Booted 0#}, db = closed_table, declared = []\<rparr>" by simp
  from run_section [OF this, of boot_env engine1 "[JAskSettings Booted 0]"]
  have "synth_reach newID ?s \<lparr>eng = engine1, jobs = {#JAskSettings Booted 0#}, db = closed_table, declared = []\<rparr>"
    by (simp add: section_of_def settings_turn_def engine1_def newEngine_def)
  from run_statement [OF this, of Fine True "[JLoadSettingsRet Booted 0 (Inr [])]" closed_table]
  have "synth_reach newID ?s \<lparr>eng = engine1, jobs = {#JLoadSettingsRet Booted 0 (Inr [])#}, db = closed_table, declared = []\<rparr>"
    using stored_none by (simp add: db_call_def read_def LoadSettings_def closed_table_def)
  from run_section [OF this, of boot_env engine2 "[JLoadOpen Booted]"]
  have "synth_reach newID ?s \<lparr>eng = engine2, jobs = {#JLoadOpen Booted#}, db = closed_table, declared = []\<rparr>"
    by (simp add: section_of_def settings_step)
  from run_statement [OF this, of Fine True "[JLoadOpenRet Booted (Inr [])]" closed_table]
  have "synth_reach newID ?s \<lparr>eng = engine2, jobs = {#JLoadOpenRet Booted (Inr [])#}, db = closed_table, declared = []\<rparr>"
    by (simp add: db_call_def read_def no_open_row)
  from run_section [OF this, of boot_env engine2 "[JLoadClosed Booted ''2024-01-02'']"]
  have "synth_reach newID ?s \<lparr>eng = engine2, jobs = {#JLoadClosed Booted ''2024-01-02''#}, db = closed_table, declared = []\<rparr>"
    by (simp add: section_of_def adopt_none)
  from run_statement [OF this, of Fine True "[JLoadClosedRet Booted ''2024-01-02'' (Inr [boot_closed])]" closed_table]
  have "synth_reach newID ?s \<lparr>eng = engine2, jobs = {#JLoadClosedRet Booted ''2024-01-02'' (Inr [boot_closed])#}, db = closed_table, declared = []\<rparr>"
    by (simp add: db_call_def read_def closed_step)
  from run_section [OF this, of boot_env engine_l "[JNeedIndex Booted]"]
  have "synth_reach newID ?s \<lparr>eng = engine_l, jobs = {#JNeedIndex Booted#}, db = closed_table, declared = []\<rparr>"
    by (simp add: section_of_def merge_one)
  from run_api [OF this, of boot_env "CDelete other_id None ''admin'' []" engine_l "[JDeleteGet other_id audit []]"]
  have "synth_reach newID ?s \<lparr>eng = engine_l, jobs = {#JDeleteGet other_id audit [], JNeedIndex Booted#}, db = closed_table, declared = []\<rparr>"
    by (simp add: delete_step add_mset_commute)
  from run_statement [OF this, of Fine True "[JDeleteClosed other_id (scanTrade closed_row) audit]" closed_table]
  have "synth_reach newID ?s \<lparr>eng = engine_l, jobs = {#JDeleteClosed other_id (scanTrade closed_row) audit, JNeedIndex Booted#}, db = closed_table, declared = []\<rparr>"
    by (simp add: db_call_def read_def get_step stored_closed add_mset_commute)
  from run_statement [OF this, of Fine True "[JDeleteClosedEnd other_id (scanTrade closed_row) None (Inr ''deleted'')]" deleted_table]
  have "synth_reach newID ?s \<lparr>eng = engine_l, jobs = {#JDeleteClosedEnd other_id (scanTrade closed_row) None (Inr ''deleted''), JNeedIndex Booted#},
      db = deleted_table, declared = []\<rparr>"
    by (simp add: db_call_def mark_step mark_settled_def audit_fields add_mset_commute)
  from run_section [OF this, of boot_env engine_z "[]"] show ?thesis by (simp add: section_of_def engine_z_def)
qed


end
