(* ===== verification/Spec2Isabelle.thy ===== *)
theory Spec2Isabelle
  imports BoundedCache Subscriptions SpikeEngine SerialQueue Hub KiteTicker DhanWire SessionStore RateLimiter KvCache HistoricalGate
    Shutdown AdminAuth DhanFeed BrokerRegistry SynthSound SynthChains SynthConfig SynthEntry SynthSpelling
begin

text \<open>
  A verification library for the backend in \<^verbatim>\<open>src/\<close>: a market-data server for Indian
  derivatives with two brokers (Zerodha Kite and Dhan), a synthetic-futures scanner with a paper-trading engine,
  a futures spike engine, and the services around them.

  \<^bold>\<open>The program.\<close> One broker is active at a time (\<^verbatim>\<open>internal/brokers/registry\<close>); a switch
  tears the feeds of the old one down, moves the selection and its generation, and brings the new ones
  up. Clients never talk to a feed: they declare or lease tokens on a lane, and the lane's
  coordinator (\<^verbatim>\<open>internal/brokers/subscriptions.go\<close>) turns reference counts into subscribe
  and unsubscribe calls. Frames come back through a decoder (\<^verbatim>\<open>internal/kite/ticker\<close>,
  \<^verbatim>\<open>internal/brokers/dhan/feeddecoder.go\<close>), the Dhan feed keeps a book per token and delivers through an event
  queue, and the ticker hub (\<^verbatim>\<open>internal/hub\<close>) fans ticks out to browser streams with bounded
  queues. The spike engine (\<^verbatim>\<open>internal/spike\<close>) and the synthetic scanner
  (\<^verbatim>\<open>internal/synthetic\<close>) take the ticks of their lane, decide entries and exits, and store
  paper trades in PostgreSQL. Around them are caches, sessions, passcodes, a rate limiter, the gate
  in front of the historical-data endpoint and the shutdown sequence.

  \<^bold>\<open>How code is modelled.\<close> A struct is a record, a tagged value a datatype, a map an association
  list, an error a value. A stretch of code between a lock and its unlock is one function on the
  component's record; where goroutines interleave, such functions are the steps of an inductive relation or of a run over
  events, and a call to the database or to a socket is a step of its own, which may fail before or after it took
  effect. Time, randomness, the network and the other packages enter as arguments. Prices are IEEE
  binary64 numbers with exact rounding (\<open>Float64\<close>), not reals: comparisons with NaN, signed zeros, overflow and the order of
  operations are those of the code. All definitions are executable except the step relations.

  \<^bold>\<open>Theories, in import order.\<close>
  \<^item> \<open>Prelude\<close>: Go's division, list and map lemmas, the stable sort, and the locales for runs
    (\<open>step_system\<close>, \<open>guarded_steps\<close>, \<open>interleaving\<close>) and for lossy stores that the components interpret.
  \<^item> \<open>Float64\<close>, \<open>FloatOps\<close>: binary64 values, rounding, comparison, arithmetic; a calculus of rounded reals.
  \<^item> \<open>JsNum\<close>, \<open>JsFmt\<close>, \<open>JsParse\<close>: \<^verbatim>\<open>internal/jsx\<close> and \<^verbatim>\<open>internal/synthetic/jsfmt.go\<close>: \<open>Math.round\<close>,
    \<open>localeCompare\<close>, printing and reading numbers, trimming, UTF-16 slices.
  \<^item> \<open>IstTime\<close>, \<open>Market\<close>: \<^verbatim>\<open>internal/analytics/ist.go\<close> and friends; broker ids, instruments, ticks.
  \<^item> \<open>BoundedCache\<close>, \<open>KvCache\<close>, \<open>SessionStore\<close>, \<open>RateLimiter\<close>, \<open>AdminAuth\<close>, \<open>HistoricalGate\<close>,
    \<open>Shutdown\<close>, \<open>SerialQueue\<close>: the services of \<^verbatim>\<open>internal/boundedcache\<close>, \<^verbatim>\<open>kv\<close>,
    \<^verbatim>\<open>marketdata/session.go\<close>, \<^verbatim>\<open>httpx/ratelimit.go\<close>, \<^verbatim>\<open>auth\<close>, \<^verbatim>\<open>kite/historical_gate.go\<close>,
    \<^verbatim>\<open>lifecycle\<close> and the serial executors. Caches refine abstract maps and are lossy stores; sessions are capped and
    bound to a broker generation; the limiter is exact per window; a role needs a login; the gate never exceeds its slot and
    pace; shutdown steps run once and in order; queued callbacks never overlap.
  \<^item> \<open>TokenSet\<close>, \<open>Subscriptions\<close>, \<open>Hub\<close>: lanes and the hub. Leased tokens stay subscribed, a
    disciplined lane leaks nothing, a client sees every frame in order or is disconnected.
  \<^item> \<open>Wire\<close>, \<open>KiteTicker\<close>, \<open>DhanWire\<close>, \<open>DhanFeed\<close>: byte readers, both decoders (total, packet by packet)
    and the Dhan socket: what is asked upstream is what is wanted, what is delivered is wanted and current.
  \<^item> \<open>BrokerRegistry\<close>: feeds follow the active broker, the generation identifies it.
  \<^item> \<open>SpikeRules\<close>, \<open>SpikeEngine\<close>: the spike engine with its store; trades are sound, memory
    matches the database, completed bars are not lost.
  \<^item> \<open>RateCard\<close>, \<open>QuoteBook\<close>, \<open>SynthMath\<close>, \<open>SynthSound\<close>, \<open>SynthChains\<close>, \<open>SynthConfig\<close>: charges, order books, and
    the scanner's pricing, ranking, entries, exits, chains, windows and configuration.
  \<^item> \<open>SynthRepo\<close>, \<open>SynthTable\<close>: \<^verbatim>\<open>internal/synthetic/repository.go\<close> and \<^verbatim>\<open>store.go\<close> over a table
    of rows with the constraints and the partial unique index of the migration; each statement answers with its result or an error.
    \<open>SynthTable\<close> follows one row through them: an open row only ever leaves that state closed or deleted.
  \<^item> \<open>SynthEngine\<close>, \<open>SynthSystem\<close>: \<^verbatim>\<open>internal/synthetic/engine.go\<close>. The record \<open>synth\<close> is the struct
    \<^verbatim>\<open>Engine\<close>; each stretch under its lock is a function on it, and what the code does without the lock (a statement, a
    margin request, a goroutine it starts) is a \<open>job\<close>. \<open>synth_step\<close> lets a call, a tick, a job's next section, a statement
    (which may fail before or after it took effect), a broker's answer, the serial lane or another process on the same tables go next.
  \<^item> \<open>SynthFrame\<close>, \<open>SynthSafety\<close>: what every operation of the engine keeps (a relation between the states before and
    after it), and from it the invariant of all reachable states: positions are rows, marks have one holder, the declared set is the
    watched one.
  \<^item> \<open>SynthRun\<close>, \<open>SynthEntry\<close>, \<open>SynthSpelling\<close>: the properties. Positions leave only with their row, marks
    are held once, a pass enters only what its guards allow; and two runs that go wrong: a load of the closed trades that races the
    end of a close books the trade twice, and a delete request with an upper-case id leaves the trade in the list of the day.

  \<^bold>\<open>Bounds and fuel.\<close> No function has fuel: loops are structural or have a measure. Integers that
  count versions, generations and milliseconds are unbounded where the code's 64 bits cannot be
  exhausted; wire fields keep their width.

  \<^bold>\<open>Not modelled.\<close> HTTP routes and JSON text (every \<^verbatim>\<open>routes.go\<close>, \<^verbatim>\<open>sse.go\<close>, the views of
  the engines), goroutine and timer primitives (\<^verbatim>\<open>synthetic/runtime.go\<close>), the REST clients of the two brokers and their CSV
  and JSON decoding, the scheduled captures and calendar tables built on them, the fair-value analytics (transcendental functions on
  floats), database drivers and migrations (tables are modelled with the store that uses them), and the wiring of the
  process. These are glue around remote services, or text formats; each is listed in the manifest with its reason.
\<close>

end
